(* ===== verification/Prelude.thy ===== *)
theory Prelude
  imports Main "HOL-Library.Multiset"
begin

text \<open>
  The shared base of the development: the JavaScript string and number conventions the
  sources rely on (decimal printing, \<^verbatim>\<open>parseInt\<close>, \<^verbatim>\<open>split\<close>, \<^verbatim>\<open>trim\<close>) and the
  list lemmas that several components use.

  Strings are lists of 8-bit characters: every string the modelled code builds or compares
  (FEN fields, algebraic squares, hash seeds, card names) is ASCII.
\<close>


section \<open>Swapping two cells of an array\<close>

definition list_swap :: "'a list \<Rightarrow> nat \<Rightarrow> nat \<Rightarrow> 'a list" where
  "list_swap xs i j = xs[i := xs ! j, j := xs ! i]"

lemma length_list_swap [simp]: "length (list_swap xs i j) = length xs"
  by (simp add: list_swap_def)

lemma mset_list_swap [simp]:
  "i < length xs \<Longrightarrow> j < length xs \<Longrightarrow> mset (list_swap xs i j) = mset xs"
  by (simp add: list_swap_def mset_update nth_list_update)

lemma nth_list_swap:
  "i < length xs \<Longrightarrow> j < length xs \<Longrightarrow>
     list_swap xs i j ! k = (if k = j then xs ! i else if k = i then xs ! j else xs ! k)"
  by (auto simp: list_swap_def nth_list_update)

text \<open>
  The Fisher-Yates shuffle of the sources: from the last index down to 1, swap with a chosen
  index that is not larger.
\<close>

definition fisher_yates :: "(nat \<Rightarrow> nat) \<Rightarrow> 'a list \<Rightarrow> 'a list" where
  "fisher_yates pick arr = fold (\<lambda>i a. list_swap a i (pick i)) (rev [1..<length arr]) arr"

lemma mset_fisher_yates:
  assumes "\<And>i. pick i \<le> i"
  shows "mset (fisher_yates pick arr) = mset arr"
proof -
  have "mset (fold (\<lambda>i a. list_swap a i (pick i)) is a) = mset a" if "\<forall>i \<in> set is. i < length a" for "is" and a :: "'a list"
    using that
  proof (induction "is" arbitrary: a)
    case (Cons i "is")
    have "pick i < length a" using assms [of i] Cons.prems by (simp add: le_less_trans)
    with Cons show ?case by simp
  qed simp
  then show ?thesis by (simp add: fisher_yates_def)
qed

lemma length_fisher_yates [simp]: "(\<And>i. pick i \<le> i) \<Longrightarrow> length (fisher_yates pick arr) = length arr"
  using mset_fisher_yates [of pick arr] by (metis size_mset)

lemma mod_Suc_le [simp]: "x mod (i + 1) \<le> (i :: nat)" "x mod Suc i \<le> i"
  using mod_less_divisor [of "Suc i" x] by simp_all

section \<open>Decimal numbers as strings\<close>

text \<open>
  Digits: \<open>digit_char\<close> is the character of one decimal digit, \<open>char_digit\<close> its inverse.
  A number is printed most significant digit first, as \<^verbatim>\<open>String(n)\<close> does for a
  non-negative integer.
\<close>

definition digit_char :: "nat \<Rightarrow> char" where
  "digit_char n = char_of (48 + n)"

definition is_digit :: "char \<Rightarrow> bool" where
  "is_digit ch \<longleftrightarrow> 48 \<le> (of_char ch :: nat) \<and> (of_char ch :: nat) \<le> 57"

definition char_digit :: "char \<Rightarrow> nat" where
  "char_digit ch = of_char ch - 48"

fun show_nat :: "nat \<Rightarrow> string" where
  "show_nat n = (if n < 10 then [digit_char n] else show_nat (n div 10) @ [digit_char (n mod 10)])"

declare show_nat.simps [simp del]

definition show_int :: "int \<Rightarrow> string" where
  "show_int i = (if i < 0 then CHR ''-'' # show_nat (nat (- i)) else show_nat (nat i))"

text \<open>\<open>digits_value\<close> reads a run of digits from the left with an accumulator.\<close>

fun digits_value :: "nat \<Rightarrow> string \<Rightarrow> nat" where
  "digits_value acc [] = acc"
| "digits_value acc (c # cs) = digits_value (10 * acc + char_digit c) cs"

text \<open>
  The blanks that \<^verbatim>\<open>trim\<close>, \<^verbatim>\<open>\s\<close> and \<^verbatim>\<open>parseInt\<close> skip, within the
  8-bit characters.
\<close>

definition is_space :: "char \<Rightarrow> bool" where
  "is_space ch \<longleftrightarrow> (let k = (of_char ch :: nat) in (9 \<le> k \<and> k \<le> 13) \<or> k = 32 \<or> k = 160)"

text \<open>
  \<^verbatim>\<open>parseInt(s, 10)\<close>: skip blanks, read an optional sign, then the longest run of digits;
  \<open>None\<close> stands for \<^verbatim>\<open>NaN\<close>, the result when there is no digit.
\<close>

definition parse_digits :: "string \<Rightarrow> nat option" where
  "parse_digits s =
     (let ds = takeWhile is_digit s in if ds = [] then None else Some (digits_value 0 ds))"

definition parse_int :: "string \<Rightarrow> int option" where
  "parse_int s =
     (case dropWhile is_space s of
        [] \<Rightarrow> None
      | c # cs \<Rightarrow>
          if c = CHR ''-'' then map_option (\<lambda>n. - int n) (parse_digits cs)
          else if c = CHR ''+'' then map_option int (parse_digits cs)
          else map_option int (parse_digits (c # cs)))"

lemma of_char_digit_char [simp]: "n < 10 \<Longrightarrow> (of_char (digit_char n) :: nat) = 48 + n"
  by (simp add: digit_char_def)

lemma is_digit_digit_char [simp]: "n < 10 \<Longrightarrow> is_digit (digit_char n)"
  by (simp add: is_digit_def)

lemma char_digit_digit_char [simp]: "n < 10 \<Longrightarrow> char_digit (digit_char n) = n"
  by (simp add: char_digit_def)

lemma show_nat_nonempty [simp]: "show_nat n \<noteq> []"
  by (subst show_nat.simps) simp

lemma show_nat_digits [simp]: "c \<in> set (show_nat n) \<Longrightarrow> is_digit c"
proof (induction n rule: show_nat.induct)
  case (1 n)
  then show ?case
    by (cases "n < 10") (auto simp: show_nat.simps [of n])
qed

lemma digits_value_append:
  "digits_value acc (xs @ ys) = digits_value (digits_value acc xs) ys"
  by (induction xs arbitrary: acc) auto

lemma digits_value_show_nat [simp]: "digits_value 0 (show_nat n) = n"
proof (induction n rule: show_nat.induct)
  case (1 n)
  then show ?case
    by (cases "n < 10") (simp_all add: show_nat.simps [of n] digits_value_append)
qed

lemma is_digit_not_space [simp]: "is_digit c \<Longrightarrow> \<not> is_space c"
  by (auto simp: is_digit_def is_space_def Let_def)

lemma is_digit_not_sign: "is_digit c \<Longrightarrow> c \<noteq> CHR ''-'' \<and> c \<noteq> CHR ''+''"
  by (auto simp: is_digit_def)

lemma takeWhile_all_digits: "(\<And>c. c \<in> set s \<Longrightarrow> is_digit c) \<Longrightarrow> takeWhile is_digit s = s"
  by (simp add: takeWhile_eq_all_conv)

text \<open>Printing a number and parsing it back is the identity.\<close>

lemma parse_int_show_nat [simp]: "parse_int (show_nat n) = Some (int n)"
proof -
  obtain c cs where s: "show_nat n = c # cs"
    using show_nat_nonempty [of n] by (cases "show_nat n") blast+
  have d: "is_digit c" using show_nat_digits [of c n] s by simp
  have "takeWhile is_digit (c # cs) = c # cs"
    by (rule takeWhile_all_digits) (metis s show_nat_digits)
  then have "parse_digits (c # cs) = Some n"
    using digits_value_show_nat [of n] by (simp add: parse_digits_def s Let_def)
  with d show ?thesis
    by (simp add: parse_int_def s is_digit_not_sign)
qed

section \<open>Splitting strings\<close>

text \<open>\<^verbatim>\<open>s.split(c)\<close> for a one-character separator: empty pieces are kept.\<close>

fun split_on :: "char \<Rightarrow> string \<Rightarrow> string list" where
  "split_on c [] = [[]]"
| "split_on c (x # xs) =
     (if x = c then [] # split_on c xs
      else (case split_on c xs of [] \<Rightarrow> [[x]] | y # ys \<Rightarrow> (x # y) # ys))"

fun join_with :: "string \<Rightarrow> string list \<Rightarrow> string" where
  "join_with sep [] = []"
| "join_with sep [x] = x"
| "join_with sep (x # y # zs) = x @ sep @ join_with sep (y # zs)"

lemma split_on_nonempty [simp]: "split_on c s \<noteq> []"
  by (cases s) (auto split: list.splits)

lemma split_on_no_sep: "c \<notin> set s \<Longrightarrow> split_on c s = [s]"
  by (induction s) auto

lemma split_on_append_sep: "c \<notin> set s \<Longrightarrow> split_on c (s @ c # t) = s # split_on c t"
  by (induction s) auto

lemma split_on_join_with:
  "xs \<noteq> [] \<Longrightarrow> (\<And>x. x \<in> set xs \<Longrightarrow> c \<notin> set x) \<Longrightarrow> split_on c (join_with [c] xs) = xs"
  by (induction "[c]" xs rule: join_with.induct) (auto simp: split_on_no_sep split_on_append_sep)

text \<open>
  \<^verbatim>\<open>s.trim().split(/\s+/)\<close>: the maximal runs of non-blank characters; the empty string
  gives one empty piece.
\<close>

definition trim_ws :: "string \<Rightarrow> string" where
  "trim_ws s = rev (dropWhile is_space (rev (dropWhile is_space s)))"

function tokens_ws :: "string \<Rightarrow> string list" where
  "tokens_ws s =
     (let w = takeWhile (\<lambda>c. \<not> is_space c) s; r = dropWhile (\<lambda>c. \<not> is_space c) s
      in if r = [] then [w] else w # tokens_ws (dropWhile is_space r))"
  by pat_completeness auto
termination
proof (relation "measure length", goal_cases)
  case 1 show ?case by simp
next
  case (2 s w r)
  then obtain c cs where "r = c # cs" "is_space c"
    by (metis dropWhile_eq_Cons_conv list.exhaust)
  then have "length (dropWhile is_space r) < length r"
    by (simp add: le_imp_less_Suc length_dropWhile_le)
  moreover have "length r \<le> length s" using 2 by (simp add: length_dropWhile_le)
  ultimately show ?case by simp
qed

declare tokens_ws.simps [simp del]

definition split_ws :: "string \<Rightarrow> string list" where
  "split_ws s = tokens_ws (trim_ws s)"

lemma tokens_ws_token:
  "(\<And>c. c \<in> set w \<Longrightarrow> \<not> is_space c) \<Longrightarrow> tokens_ws w = [w]"
proof -
  assume "\<And>c. c \<in> set w \<Longrightarrow> \<not> is_space c"
  then have "takeWhile (\<lambda>c. \<not> is_space c) w = w" "dropWhile (\<lambda>c. \<not> is_space c) w = []"
    by (simp_all add: takeWhile_eq_all_conv)
  then show ?thesis by (simp add: tokens_ws.simps [of w] Let_def)
qed

lemma tokens_ws_cons:
  assumes w: "\<And>c. c \<in> set w \<Longrightarrow> \<not> is_space c"
    and t: "t \<noteq> []" "\<not> is_space (hd t)"
  shows "tokens_ws (w @ CHR '' '' # t) = w # tokens_ws t"
proof -
  let ?s = "w @ CHR '' '' # t"
  have sp: "is_space CHR '' ''" by (simp add: is_space_def Let_def)
  have "takeWhile (\<lambda>c. \<not> is_space c) ?s = w" "dropWhile (\<lambda>c. \<not> is_space c) ?s = CHR '' '' # t"
    using w sp by (simp_all add: takeWhile_append dropWhile_append)
  moreover have "dropWhile is_space (CHR '' '' # t) = t"
    using t sp by (cases t) auto
  ultimately show ?thesis by (simp add: tokens_ws.simps [of ?s] Let_def)
qed

lemma trim_ws_id:
  assumes "s \<noteq> []" "\<not> is_space (hd s)" "\<not> is_space (last s)"
  shows "trim_ws s = s"
proof -
  have "dropWhile is_space s = s" using assms(1,2) by (cases s) auto
  moreover have "dropWhile is_space (rev s) = rev s"
    using assms(1,3) by (cases "rev s") (auto simp: hd_rev [symmetric] last_rev)
  ultimately show ?thesis by (simp add: trim_ws_def)
qed

section \<open>Lists\<close>

lemma find_Some_in: "List.find P xs = Some x \<Longrightarrow> x \<in> set xs \<and> P x"
  by (induction xs) (auto split: if_splits)

lemma find_None_iff_ball: "List.find P xs = None \<longleftrightarrow> (\<forall>x \<in> set xs. \<not> P x)"
  by (induction xs) auto

lemma length_filter_eq_count: "length (filter ((=) x) xs) = count (mset xs) x"
  by (induction xs) auto

section \<open>Removing a cell\<close>

text \<open>\<^verbatim>\<open>xs.splice(i, 1)\<close>, for an index in range.\<close>

definition remove_at :: "nat \<Rightarrow> 'a list \<Rightarrow> 'a list" where
  "remove_at i xs = take i xs @ drop (Suc i) xs"

lemma mset_remove_at: "i < length xs \<Longrightarrow> mset xs = add_mset (xs ! i) (mset (remove_at i xs))"
  unfolding remove_at_def by (subst id_take_nth_drop [of i xs]) simp_all

lemma length_remove_at [simp]: "i < length xs \<Longrightarrow> length (remove_at i xs) = length xs - 1"
  by (simp add: remove_at_def)

section \<open>Searching a list\<close>

lemma find_some: "x \<in> set xs \<Longrightarrow> P x \<Longrightarrow> \<exists>y. List.find P xs = Some y"
  using find_None_iff_ball [of P xs] by (cases "List.find P xs") auto

end
