(* ===== verification/ChessBoard.thy ===== *)
theory ChessBoard
  imports Prelude "HOL-Library.Word"
begin

text \<open>
  The data of \<^verbatim>\<open>static/chess-engine.js\<close>: pieces, the 0x88 board, the state of a
  \<^verbatim>\<open>Chess\<close> object and the square helpers.

  A square is an \<open>int\<close>: rank times 16 plus file. The board array is a function from
  indices to cells; \<open>None\<close> is the cell \<^verbatim>\<open>EMPTY\<close>. Lemma \<open>isOnBoard_iff\<close> says that
  within the indices the code can compute the test \<^verbatim>\<open>(sq & 0x88) === 0\<close> is exactly
  "rank and file between 0 and 7", so no read goes outside the 128 cells.
\<close>

unbundle bit_operations_syntax

datatype color = White | Black

datatype kind = Pawn | Knight | Bishop | Rook | Queen | King

record piece =
  kind_of :: kind
  color_of :: color

type_synonym board = "int \<Rightarrow> piece option"

abbreviation pc :: "kind \<Rightarrow> color \<Rightarrow> piece" where
  "pc k c \<equiv> \<lparr>kind_of = k, color_of = c\<rparr>"

fun opp :: "color \<Rightarrow> color" where
  "opp White = Black"
| "opp Black = White"

definition CASTLE_WK :: int where "CASTLE_WK = 1"
definition CASTLE_WQ :: int where "CASTLE_WQ = 2"
definition CASTLE_BK :: int where "CASTLE_BK = 4"
definition CASTLE_BQ :: int where "CASTLE_BQ = 8"

text \<open>Move direction offsets in 0x88 (\<^verbatim>\<open>OFFSETS\<close>); pawns have tables of their own.\<close>

fun OFFSETS :: "kind \<Rightarrow> int list" where
  "OFFSETS Knight = [-18, -33, -31, -14, 18, 33, 31, 14]"
| "OFFSETS Bishop = [-17, -15, 17, 15]"
| "OFFSETS Rook = [-16, 1, 16, -1]"
| "OFFSETS Queen = [-17, -16, -15, 1, 17, 16, 15, -1]"
| "OFFSETS King = [-17, -16, -15, 1, 17, 16, 15, -1]"
| "OFFSETS Pawn = []"

fun PAWN_PUSH :: "color \<Rightarrow> int" where
  "PAWN_PUSH White = 16"
| "PAWN_PUSH Black = -16"

fun PAWN_CAPTURES :: "color \<Rightarrow> int list" where
  "PAWN_CAPTURES White = [15, 17]"
| "PAWN_CAPTURES Black = [-15, -17]"

section \<open>Square helpers\<close>

definition rankOf :: "int \<Rightarrow> int" where
  "rankOf sq = drop_bit 4 sq"

definition fileOf :: "int \<Rightarrow> int" where
  "fileOf sq = sq AND 0x0f"

definition isOnBoard :: "int \<Rightarrow> bool" where
  "isOnBoard sq \<longleftrightarrow> sq AND 0x88 = 0"

text \<open>\<^verbatim>\<open>'abcdefgh'[f]\<close> and the rank's number.\<close>

definition algebraic :: "int \<Rightarrow> string" where
  "algebraic sq = ''abcdefgh'' ! nat (fileOf sq) # show_int (rankOf sq + 1)"

definition squareFromAlgebraic :: "string \<Rightarrow> int" where
  "squareFromAlgebraic s =
     (if length s \<noteq> 2 then -1
      else let f = int (of_char (s ! 0)) - 97; r = int (of_char (s ! 1)) - 49
           in if f < 0 \<or> f > 7 \<or> r < 0 \<or> r > 7 then -1 else r * 16 + f)"

section \<open>Moves and the game state\<close>

text \<open>
  The record \<^verbatim>\<open>m._state\<close> that making a move saves for undoing it (its field
  \<^verbatim>\<open>kingFrom\<close> is never written nor read again and is left out).
\<close>

record undo_state =
  st_castling :: int
  st_ep :: int
  st_halfmoves :: int
  st_fullmoves :: int
  st_capturedSq :: int
  st_capturedPiece :: "piece option"

record move_record =
  m_from :: int
  m_to :: int
  m_piece :: kind
  m_captured :: "kind option"
  m_promotion :: "kind option"
  m_flags :: string
  m_state :: "undo_state option"

abbreviation mk_move :: "int \<Rightarrow> int \<Rightarrow> kind \<Rightarrow> kind option \<Rightarrow> kind option \<Rightarrow> string \<Rightarrow> move_record" where
  "mk_move f t p c pr fl \<equiv>
     \<lparr>m_from = f, m_to = t, m_piece = p, m_captured = c, m_promotion = pr, m_flags = fl, m_state = None\<rparr>"

text \<open>The public form of a move, \<^verbatim>\<open>{from, to, promotion}\<close>, in algebraic notation.\<close>

record pub_move =
  pm_from :: string
  pm_to :: string
  pm_promotion :: "kind option"

record hist_entry =
  h_move :: pub_move
  h_internal :: move_record

record chess =
  board :: board
  turn :: color
  castling :: int
  ep :: int
  halfmoves :: int
  fullmoves :: int
  kings :: "color \<Rightarrow> int"
  history :: "hist_entry list"

section \<open>Loops over the board\<close>

text \<open>
  The loop \<^verbatim>\<open>for (sq = start; sq <= end; sq++) { if (sq & 0x88) { sq += 7; continue; } ... }\<close>:
  the squares it visits, in order.
\<close>

function scan_squares :: "int \<Rightarrow> int \<Rightarrow> int list" where
  "scan_squares sq last_sq =
     (if sq \<le> last_sq
      then (if \<not> isOnBoard sq then scan_squares (sq + 8) last_sq
            else sq # scan_squares (sq + 1) last_sq)
      else [])"
  by pat_completeness auto
termination
  by (relation "measure (\<lambda>(sq, last_sq). nat (last_sq + 1 - sq))") auto

declare scan_squares.simps [simp del]

definition all_squares :: "int list" where
  "all_squares = scan_squares 0 127"

text \<open>What the squares mean: rank and file between 0 and 7.\<close>

definition on_sq :: "int \<Rightarrow> bool" where
  "on_sq sq \<longleftrightarrow> 0 \<le> sq \<and> sq < 128 \<and> sq mod 16 < 8"

lemma rankOf_div: "rankOf sq = sq div 16"
  by (simp add: rankOf_def drop_bit_eq_div)

lemma fileOf_mod: "fileOf sq = sq mod 16"
proof -
  have "(0x0f :: int) = mask 4" by (simp add: mask_eq_exp_minus_1)
  then have "fileOf sq = take_bit 4 sq" by (simp only: fileOf_def take_bit_eq_mask)
  then show ?thesis by (simp add: take_bit_eq_mod)
qed

lemma on_sq_rank_file:
  "on_sq sq \<longleftrightarrow> 0 \<le> rankOf sq \<and> rankOf sq \<le> 7 \<and> 0 \<le> fileOf sq \<and> fileOf sq \<le> 7"
  by (auto simp: on_sq_def rankOf_div fileOf_mod)

lemma rank_file_decomp: "rankOf sq * 16 + fileOf sq = sq"
  by (simp add: rankOf_div fileOf_mod)

lemma rank_file_of:
  assumes "0 \<le> f" "f < 16"
  shows "rankOf (r * 16 + f) = r" "fileOf (r * 16 + f) = f"
  using assms by (simp_all add: rankOf_div fileOf_mod)

lemma isOnBoard_bits: "isOnBoard sq \<longleftrightarrow> \<not> bit sq 3 \<and> \<not> bit sq 7"
proof -
  have "bit (0x88 :: int) n \<longleftrightarrow> n = 3 \<or> n = 7" for n
  proof -
    have "(0x88 :: int) = push_bit 3 1 OR push_bit 7 1" by simp
    then show ?thesis by (simp only: bit_simps) auto
  qed
  then have "\<And>n. bit (sq AND 0x88) n \<longleftrightarrow> bit sq n \<and> (n = 3 \<or> n = 7)"
    by (simp add: bit_and_iff)
  then show ?thesis
    by (auto simp: isOnBoard_def bit_eq_iff [of "sq AND 0x88" 0])
qed

lemma odd_div_8: "odd (sq div 8) \<longleftrightarrow> 8 \<le> sq mod (16 :: int)"
proof -
  define q r where "q = sq div 16" and "r = sq mod 16"
  have "sq = r + (2 * q) * 8" by (simp add: q_def r_def)
  then have "sq div 8 = r div 8 + 2 * q" by simp
  moreover have "r div 8 = (if r < 8 then 0 else 1)"
    using pos_mod_bound [of 16 sq] pos_mod_sign [of 16 sq] by (auto simp: r_def div_pos_geq)
  ultimately show ?thesis by (auto simp: r_def)
qed

lemma odd_div_128: "-128 \<le> sq \<Longrightarrow> sq \<le> 255 \<Longrightarrow> odd (sq div 128) \<longleftrightarrow> sq < 0 \<or> 128 \<le> (sq :: int)"
proof -
  assume "-128 \<le> sq" "sq \<le> 255"
  then consider "-128 \<le> sq" "sq < 0" | "0 \<le> sq" "sq < 128" | "128 \<le> sq" "sq < 256" by linarith
  then show ?thesis
  proof cases
    case 1
    then have "sq div 128 = -1" by (simp add: div_pos_neg_trivial)
    with 1 show ?thesis by simp
  next
    case 2
    then show ?thesis by simp
  next
    case 3
    then have "sq div 128 = 1" by (simp add: div_pos_geq)
    with 3 show ?thesis by simp
  qed
qed

lemma isOnBoard_iff: "-128 \<le> sq \<Longrightarrow> sq \<le> 255 \<Longrightarrow> isOnBoard sq \<longleftrightarrow> on_sq sq"
  using odd_div_8 [of sq] odd_div_128 [of sq]
  by (auto simp: isOnBoard_bits on_sq_def bit_iff_odd)

lemma on_sq_isOnBoard [simp]: "on_sq sq \<Longrightarrow> isOnBoard sq"
  by (simp add: isOnBoard_iff on_sq_def)

lemma set_scan_squares:
  "0 \<le> a \<Longrightarrow> b \<le> 127 \<Longrightarrow> set (scan_squares a b) \<subseteq> {sq. on_sq sq \<and> a \<le> sq \<and> sq \<le> b}"
proof (induction a b rule: scan_squares.induct)
  case (1 a b)
  show ?case
  proof (cases "a \<le> b")
    case True
    show ?thesis
    proof (cases "isOnBoard a")
      case on: True
      then have "scan_squares a b = a # scan_squares (a + 1) b"
        using True by (subst scan_squares.simps) simp
      moreover have "on_sq a" using on 1(3,4) True by (simp add: isOnBoard_iff)
      moreover note 1(2) [OF True] on 1(3,4)
      ultimately show ?thesis using True by fastforce
    next
      case off: False
      then have "scan_squares a b = scan_squares (a + 8) b"
        using True by (subst scan_squares.simps) simp
      moreover note 1(1) [OF True off] 1(3,4)
      ultimately show ?thesis by fastforce
    qed
  qed (subst scan_squares.simps, simp)
qed

text \<open>One pass of the loop over a rank: its eight squares, then the jump over the other eight.\<close>

lemma scan_squares_on: "on_sq sq \<Longrightarrow> sq \<le> n \<Longrightarrow> scan_squares sq n = sq # scan_squares (sq + 1) n"
  by (subst scan_squares.simps) simp

lemma scan_squares_off: "\<not> isOnBoard sq \<Longrightarrow> sq \<le> n \<Longrightarrow> scan_squares sq n = scan_squares (sq + 8) n"
  by (subst scan_squares.simps) simp

lemma scan_squares_rank:
  assumes "0 \<le> r" "r \<le> 7"
  shows "scan_squares (r * 16) 127 = map (\<lambda>f. r * 16 + f) [0..7] @ scan_squares ((r + 1) * 16) 127"
proof -
  have f: "[0..7] = [0, 1, 2, 3, 4, 5, 6, 7 :: int]" by (simp add: upto.simps)
  have on: "on_sq (r * 16 + k)" if "0 \<le> k" "k < 8" for k
    using assms that by (simp add: on_sq_def)
  have off: "\<not> isOnBoard (r * 16 + 8)"
    using assms by (simp add: isOnBoard_iff on_sq_def)
  show ?thesis
    using assms on [of 0] on [of 1] on [of 2] on [of 3] on [of 4] on [of 5] on [of 6] on [of 7] off
    by (simp add: f scan_squares_on scan_squares_off add.assoc algebra_simps)
qed

lemma all_squares_ranks:
  "all_squares = concat (map (\<lambda>r. map (\<lambda>f. r * 16 + f) [0..7]) [0..7])"
proof -
  have f: "[0..7] = [0, 1, 2, 3, 4, 5, 6, 7 :: int]" by (simp add: upto.simps)
  have e: "scan_squares 128 127 = []" by (subst scan_squares.simps) simp
  show ?thesis
    using scan_squares_rank [of 0] scan_squares_rank [of 1] scan_squares_rank [of 2]
      scan_squares_rank [of 3] scan_squares_rank [of 4] scan_squares_rank [of 5]
      scan_squares_rank [of 6] scan_squares_rank [of 7]
    by (simp add: all_squares_def f e)
qed

lemma set_all_squares [simp]: "set all_squares = {sq. on_sq sq}"
proof -
  have "(\<exists>r \<in> {0..7}. r * 16 \<le> sq \<and> sq \<le> 7 + r * 16) \<longleftrightarrow> on_sq sq" for sq
  proof
    assume "\<exists>r \<in> {0..7}. r * 16 \<le> sq \<and> sq \<le> 7 + r * 16"
    then obtain r where "0 \<le> r" "r \<le> 7" "r * 16 \<le> sq" "sq \<le> 7 + r * 16" by auto
    then show "on_sq sq" unfolding on_sq_def by presburger
  next
    assume "on_sq sq"
    then have "0 \<le> sq div 16" "sq div 16 \<le> 7" "sq div 16 * 16 \<le> sq" "sq \<le> 7 + sq div 16 * 16"
      unfolding on_sq_def by presburger+
    then show "\<exists>r \<in> {0..7}. r * 16 \<le> sq \<and> sq \<le> 7 + r * 16" by auto
  qed
  moreover have "set all_squares = {sq. \<exists>r \<in> {0..7}. r * 16 \<le> sq \<and> sq \<le> 7 + r * 16}"
    unfolding all_squares_ranks by fastforce
  ultimately show ?thesis by simp
qed

lemma distinct_all_squares [simp]: "distinct all_squares"
  by (simp add: all_squares_ranks upto.simps)

lemma scan_squares_single: "on_sq sq \<Longrightarrow> scan_squares sq sq = [sq]"
  by (subst scan_squares.simps) (simp, subst scan_squares.simps, simp)

lemma opp_neq [simp]: "opp c \<noteq> c" "c \<noteq> opp c"
  by (cases c; simp)+

lemma opp_opp [simp]: "opp (opp c) = c"
  by (cases c) auto

lemma color_neq_opp: "d \<noteq> c \<longleftrightarrow> d = opp c"
  by (cases c; cases d) auto

text \<open>\<^verbatim>\<open>us === WHITE ? BLACK : WHITE\<close>.\<close>

lemma opp_if: "opp us = (if us = White then Black else White)"
  by (cases us) auto

section \<open>Algebraic squares\<close>

lemma char_of_table:
  "\<forall>n \<in> set [0..<8::nat]. (of_char (''abcdefgh'' ! n) :: nat) = 97 + n \<and> show_nat (Suc n) = [digit_char (Suc n)]"
  by (simp add: upt_rec show_nat.simps)

lemma squareFromAlgebraic_cases:
  "squareFromAlgebraic s = -1 \<or> on_sq (squareFromAlgebraic s)"
proof (cases "squareFromAlgebraic s = -1")
  case False
  define f where "f = int (of_char (s ! 0)) - 97"
  define r where "r = int (of_char (s ! 1)) - 49"
  have "squareFromAlgebraic s = r * 16 + f" "0 \<le> f" "f \<le> 7" "0 \<le> r" "r \<le> 7"
    using False by (auto simp: squareFromAlgebraic_def Let_def f_def r_def split: if_splits)
  then show ?thesis by (auto simp: on_sq_def)
qed simp

lemma squareFromAlgebraic_on_sq: "0 \<le> squareFromAlgebraic s \<Longrightarrow> on_sq (squareFromAlgebraic s)"
  using squareFromAlgebraic_cases [of s] by auto

lemma algebraic_form:
  assumes "on_sq sq"
  shows "algebraic sq = [''abcdefgh'' ! nat (fileOf sq), digit_char (nat (rankOf sq) + 1)]"
proof -
  have r: "0 \<le> rankOf sq" "rankOf sq \<le> 7" using assms by (auto simp: on_sq_rank_file)
  then have "nat (rankOf sq + 1) < 10" by simp
  then have "show_int (rankOf sq + 1) = [digit_char (nat (rankOf sq) + 1)]"
    using r by (simp add: show_int_def show_nat.simps nat_add_distrib)
  then show ?thesis by (simp add: algebraic_def)
qed

lemma squareFromAlgebraic_algebraic [simp]:
  assumes "on_sq sq"
  shows "squareFromAlgebraic (algebraic sq) = sq"
proof -
  have rf: "0 \<le> rankOf sq" "rankOf sq \<le> 7" "0 \<le> fileOf sq" "fileOf sq \<le> 7"
    using assms by (auto simp: on_sq_rank_file)
  then have "nat (fileOf sq) < 8" by simp
  then have "(of_char (''abcdefgh'' ! nat (fileOf sq)) :: nat) = 97 + nat (fileOf sq)"
    using char_of_table by simp
  then show ?thesis
    using rf rank_file_decomp [of sq]
    by (simp add: algebraic_form [OF assms] squareFromAlgebraic_def Let_def)
qed

lemma algebraic_squareFromAlgebraic:
  assumes "0 \<le> squareFromAlgebraic s"
  shows "algebraic (squareFromAlgebraic s) = s"
proof -
  define f where "f = (of_char (s ! 0) :: nat)"
  define r where "r = (of_char (s ! 1) :: nat)"
  have l: "length s = 2" and b: "97 \<le> f" "f \<le> 104" "49 \<le> r" "r \<le> 56"
    and sq: "squareFromAlgebraic s = (int r - 49) * 16 + (int f - 97)"
    using assms by (auto simp: squareFromAlgebraic_def Let_def f_def r_def split: if_splits)
  have s: "s = [s ! 0, s ! 1]" using l by (intro nth_equalityI) (auto simp: less_2_cases_iff)
  have fr: "fileOf (squareFromAlgebraic s) = int f - 97" "rankOf (squareFromAlgebraic s) = int r - 49"
    unfolding sq using b by (simp_all only: rank_file_of)
  have on: "on_sq (squareFromAlgebraic s)"
    using b by (simp add: on_sq_rank_file fr)
  have "nat (int f - 97) < 8" using b by simp
  then have "(of_char (''abcdefgh'' ! nat (int f - 97)) :: nat) = f"
    using char_of_table b by simp
  then have c0: "''abcdefgh'' ! nat (int f - 97) = s ! 0"
    by (metis f_def char_of_char)
  have "48 + (nat (int r - 49) + 1) = r" using b by linarith
  then have "digit_char (nat (int r - 49) + 1) = s ! 1"
    by (simp only: digit_char_def) (simp add: r_def)
  with c0 show ?thesis by (subst (2) s) (simp add: algebraic_form [OF on] fr)
qed

end
