(* ===== verification/ChessAttack.thy ===== *)
theory ChessAttack
  imports ChessBoard
begin

text \<open>
  Attack detection of \<^verbatim>\<open>static/chess-engine.js\<close> (\<^verbatim>\<open>_isAttacked\<close>,
  \<^verbatim>\<open>_isKingAttacked\<close>, \<^verbatim>\<open>inCheck\<close>) and its specification by lines of sight.

  The sliding loop \<^verbatim>\<open>while (isOnBoard(s))\<close> gets a fuel of \<open>ray_fuel = 8\<close> squares: from any
  square of the board a line leaves it after at most seven steps, so more fuel never changes
  the result (\<open>slide_hits_fuel\<close>).
\<close>

definition ray_fuel :: nat where
  "ray_fuel = 8"

text \<open>The inner loop of \<^verbatim>\<open>_isAttacked\<close> for a sliding piece: is \<open>square\<close> met before a blocker?\<close>

fun slide_hits :: "nat \<Rightarrow> board \<Rightarrow> int \<Rightarrow> int \<Rightarrow> int \<Rightarrow> bool" where
  "slide_hits 0 b square off s = False"
| "slide_hits (Suc n) b square off s =
     (if isOnBoard s
      then (if s = square then True
            else if b s \<noteq> None then False
            else slide_hits n b square off (s + off))
      else False)"

text \<open>The body of the loop over the board: does the piece on \<open>sq\<close> attack \<open>square\<close>?\<close>

definition attacks_from :: "board \<Rightarrow> int \<Rightarrow> color \<Rightarrow> int \<Rightarrow> bool" where
  "attacks_from b square c sq =
     (case b sq of
        None \<Rightarrow> False
      | Some p \<Rightarrow>
          if color_of p \<noteq> c then False
          else (case kind_of p of
                  Pawn \<Rightarrow> \<exists>off \<in> set (PAWN_CAPTURES c). sq + off = square
                | Knight \<Rightarrow> \<exists>off \<in> set (OFFSETS Knight). sq + off = square
                | King \<Rightarrow> \<exists>off \<in> set (OFFSETS King). sq + off = square
                | k \<Rightarrow> \<exists>off \<in> set (OFFSETS k). slide_hits ray_fuel b square off (sq + off)))"

definition isAttacked :: "board \<Rightarrow> int \<Rightarrow> color \<Rightarrow> bool" where
  "isAttacked b square c = (\<exists>sq \<in> set all_squares. attacks_from b square c sq)"

definition kingSquare :: "chess \<Rightarrow> color \<Rightarrow> int" where
  "kingSquare g c = kings g c"

definition inCheck :: "chess \<Rightarrow> bool" where
  "inCheck g =
     (let king = kingSquare g (turn g)
      in if king < 0 then False
         else isAttacked (board g) king (if turn g = White then Black else White))"

definition isKingAttacked :: "chess \<Rightarrow> color \<Rightarrow> bool" where
  "isKingAttacked g c =
     (let king = kingSquare g c
      in if king < 0 then False
         else isAttacked (board g) king (if c = White then Black else White))"

section \<open>Lines on the board\<close>

text \<open>The offsets of the three sliding pieces.\<close>

definition slide_off :: "int \<Rightarrow> bool" where
  "slide_off off \<longleftrightarrow> off \<in> {-17, -16, -15, -1, 1, 15, 16, 17}"

definition slider :: "kind \<Rightarrow> bool" where
  "slider k \<longleftrightarrow> k \<in> {Bishop, Rook, Queen}"

lemma slider_offsets: "slider k \<Longrightarrow> off \<in> set (OFFSETS k) \<Longrightarrow> slide_off off"
  by (cases k) (auto simp: slider_def slide_off_def)

lemma slider_cases: "slider k \<longleftrightarrow> k = Bishop \<or> k = Rook \<or> k = Queen"
  by (auto simp: slider_def)

text \<open>A step never leaves the range in which \<^verbatim>\<open>(sq & 0x88)\<close> is the on-board test.\<close>

lemma isOnBoard_near: "on_sq s \<Longrightarrow> -33 \<le> off \<Longrightarrow> off \<le> 33 \<Longrightarrow> isOnBoard (s + off) \<longleftrightarrow> on_sq (s + off)"
  by (rule isOnBoard_iff) (auto simp: on_sq_def)

lemma offsets_bound: "off \<in> set (OFFSETS k) \<Longrightarrow> -33 \<le> off \<and> off \<le> 33 \<and> off \<noteq> 0"
  by (cases k) auto

lemma captures_bound: "off \<in> set (PAWN_CAPTURES c) \<Longrightarrow> -33 \<le> off \<and> off \<le> 33 \<and> off \<noteq> 0"
  by (cases c) auto

lemma isOnBoard_slide: "on_sq s \<Longrightarrow> slide_off off \<Longrightarrow> isOnBoard (s + off) \<longleftrightarrow> on_sq (s + off)"
  by (rule isOnBoard_near) (auto simp: slide_off_def)

text \<open>
  The steps left before the line leaves the board: by ranks when the offset changes the
  rank, by files along a rank.
\<close>

definition steps_left :: "int \<Rightarrow> int \<Rightarrow> nat" where
  "steps_left off s =
     nat (if off > 1 then 8 - s div 16 else if off < -1 then s div 16 + 1
          else if off = 1 then 8 - s mod 16 else s mod 16 + 1)"

lemma on_sq_steps_left: "on_sq s \<Longrightarrow> steps_left off s \<le> 8"
  by (auto simp: on_sq_def steps_left_def)

lemma rank_step:
  assumes "on_sq s" "on_sq (s + off)" "15 \<le> off" "off \<le> 17"
  shows "(s + off) div 16 = s div 16 + 1"
proof -
  define q r where "q = s div 16" and "r = s mod 16"
  have s: "s = r + q * 16" and r: "0 \<le> r" "r < 8" using assms(1) by (simp_all add: q_def r_def on_sq_def)
  have e: "s + off = (r + (off - 16)) + (q + 1) * 16" by (simp add: s)
  have "(s + off) div 16 = (q + 1) + (r + (off - 16)) div 16" unfolding e by (rule div_mult_self1) simp
  moreover have m: "(s + off) mod 16 = (r + (off - 16)) mod 16" unfolding e by (rule mod_mult_self1)
  moreover have "0 \<le> r + (off - 16)"
  proof (rule ccontr)
    assume "\<not> 0 \<le> r + (off - 16)"
    then have "r + (off - 16) = -1" using r assms(3) by linarith
    with m have "(s + off) mod 16 = 15" by simp
    then show False using assms(2) by (simp add: on_sq_def)
  qed
  moreover have "r + (off - 16) < 16" using r assms(4) by linarith
  ultimately show ?thesis by (simp add: q_def)
qed

lemma file_step:
  assumes "on_sq s" "on_sq (s + off)" "off = 1 \<or> off = -1"
  shows "(s + off) mod 16 = s mod 16 + off"
proof -
  define q r where "q = s div 16" and "r = s mod 16"
  have s: "s = r + q * 16" and r: "0 \<le> r" "r < 8" using assms(1) by (simp_all add: q_def r_def on_sq_def)
  have e: "s + off = (r + off) + q * 16" by (simp add: s)
  have m: "(s + off) mod 16 = (r + off) mod 16" unfolding e by (rule mod_mult_self1)
  have "r + off \<noteq> -1" using m assms(2) by (auto simp: on_sq_def)
  then have "0 \<le> r + off" "r + off < 16" using r assms(3) by auto
  then show ?thesis using m by (simp add: r_def)
qed

lemma on_sq_bounds: "on_sq s \<Longrightarrow> 0 \<le> s div 16 \<and> s div 16 \<le> 7 \<and> 0 \<le> s mod 16 \<and> s mod 16 \<le> 7"
  by (auto simp: on_sq_rank_file rankOf_div fileOf_mod)

lemma steps_left_dec:
  assumes "on_sq s" "on_sq (s + off)" "slide_off off"
  shows "steps_left off (s + off) < steps_left off s"
proof -
  note bounds = on_sq_bounds [OF assms(1)] on_sq_bounds [OF assms(2)]
  consider "15 \<le> off" "off \<le> 17" | "off \<le> -15" "-17 \<le> off" | "off = 1" | "off = -1"
    using assms(3) by (auto simp: slide_off_def)
  then show ?thesis
  proof cases
    case 1
    then show ?thesis using rank_step [OF assms(1,2)] bounds by (simp add: steps_left_def)
  next
    case 2
    then have "s div 16 = (s + off) div 16 + 1"
      using rank_step [of "s + off" "- off"] assms(1,2) by simp
    with 2 show ?thesis using bounds by (simp add: steps_left_def)
  next
    case 3
    then show ?thesis using file_step [OF assms(1,2)] bounds by (simp add: steps_left_def)
  next
    case 4
    then show ?thesis using file_step [OF assms(1,2)] bounds by (simp add: steps_left_def)
  qed
qed

text \<open>Enough fuel: any fuel beyond the steps left gives the same answer.\<close>

lemma slide_hits_enough:
  assumes "slide_off off" "on_sq s" "steps_left off s \<le> n" "steps_left off s \<le> m"
  shows "slide_hits n b square off s = slide_hits m b square off s"
  using assms(2-)
proof (induction n arbitrary: s m)
  case 0
  then have "False" by (auto simp: steps_left_def on_sq_def split: if_splits)
  then show ?case ..
next
  case (Suc n)
  from Suc.prems obtain m' where m: "m = Suc m'"
    by (cases m) (auto simp: steps_left_def on_sq_def split: if_splits)
  show ?case
  proof (cases "on_sq (s + off)")
    case True
    then have "steps_left off (s + off) < steps_left off s"
      using steps_left_dec Suc.prems(1) assms(1) by blast
    then show ?thesis using Suc True by (auto simp: m)
  next
    case False
    then have "\<not> isOnBoard (s + off)" using isOnBoard_slide Suc.prems(1) assms(1) by blast
    then show ?thesis by (cases n; cases m') (auto simp: m)
  qed
qed

lemma slide_hits_fuel:
  assumes "slide_off off" "on_sq s" "ray_fuel \<le> n"
  shows "slide_hits n b square off s = slide_hits ray_fuel b square off s"
  using assms on_sq_steps_left [of s off] by (intro slide_hits_enough) (auto simp: ray_fuel_def)

section \<open>Attacks as lines of sight\<close>

text \<open>
  The declarative reading: \<open>clear_line b sq off k\<close> says that the squares strictly between
  \<open>sq\<close> and \<open>sq + k * off\<close> are on the board and empty.
\<close>

definition clear_line :: "board \<Rightarrow> int \<Rightarrow> int \<Rightarrow> nat \<Rightarrow> bool" where
  "clear_line b sq off k \<longleftrightarrow>
     (\<forall>j. 0 < j \<longrightarrow> j < k \<longrightarrow> on_sq (sq + int j * off) \<and> b (sq + int j * off) = None)"

definition sees :: "board \<Rightarrow> int \<Rightarrow> int \<Rightarrow> bool" where
  "sees b sq square \<longleftrightarrow>
     (\<exists>p. b sq = Some p \<and>
        (case kind_of p of
           Pawn \<Rightarrow> square - sq \<in> set (PAWN_CAPTURES (color_of p))
         | Knight \<Rightarrow> square - sq \<in> set (OFFSETS Knight)
         | King \<Rightarrow> square - sq \<in> set (OFFSETS King)
         | k \<Rightarrow> \<exists>off \<in> set (OFFSETS k). \<exists>n > 0. square = sq + int n * off \<and> clear_line b sq off n))"

lemma clear_line_Suc:
  "clear_line b sq off (Suc (Suc n)) \<longleftrightarrow>
     on_sq (sq + off) \<and> b (sq + off) = None \<and> clear_line b (sq + off) off (Suc n)"
proof
  assume L: "clear_line b sq off (Suc (Suc n))"
  have "on_sq (sq + off + int j * off) \<and> b (sq + off + int j * off) = None" if "0 < j" "j < Suc n" for j
    using L [unfolded clear_line_def, rule_format, of "Suc j"] that by (simp add: algebra_simps)
  then show "on_sq (sq + off) \<and> b (sq + off) = None \<and> clear_line b (sq + off) off (Suc n)"
    using L [unfolded clear_line_def, rule_format, of 1] by (simp add: clear_line_def)
next
  assume R: "on_sq (sq + off) \<and> b (sq + off) = None \<and> clear_line b (sq + off) off (Suc n)"
  have "on_sq (sq + int j * off) \<and> b (sq + int j * off) = None" if j: "0 < j" "j < Suc (Suc n)" for j
  proof (cases "j = 1")
    case False
    then obtain i where "j = Suc i" "0 < i" "i < Suc n" using j by (cases j) auto
    then show ?thesis
      using R [THEN conjunct2, THEN conjunct2, unfolded clear_line_def, rule_format, of i]
      by (simp add: algebra_simps)
  qed (use R in simp)
  then show "clear_line b sq off (Suc (Suc n))" by (simp add: clear_line_def)
qed

lemma slide_hits_iff:
  assumes "slide_off off" "on_sq sq"
  shows "slide_hits n b square off (sq + off) \<longleftrightarrow>
           (\<exists>k. 0 < k \<and> k \<le> n \<and> on_sq square \<and> square = sq + int k * off \<and> clear_line b sq off k)"
  using assms(2)
proof (induction n arbitrary: sq)
  case 0
  then show ?case by simp
next
  case (Suc n)
  have on: "isOnBoard (sq + off) \<longleftrightarrow> on_sq (sq + off)"
    using isOnBoard_slide Suc.prems assms(1) by blast
  have first: "clear_line b sq off (Suc 0)" by (simp add: clear_line_def)
  show ?case (is "?L \<longleftrightarrow> ?R")
  proof
    assume ?L
    then have here: "on_sq (sq + off)" using on by (auto split: if_splits)
    from \<open>?L\<close> consider "sq + off = square" | "b (sq + off) = None" "slide_hits n b square off (sq + off + off)"
      by (auto split: if_splits)
    then show ?R
    proof cases
      case 1
      then show ?thesis using first here by (intro exI [of _ 1]) auto
    next
      case 2
      then obtain k where k: "0 < k" "k \<le> n" "on_sq square" "square = sq + off + int k * off"
          "clear_line b (sq + off) off k"
        using Suc.IH here by blast
      then obtain j where j: "k = Suc j" by (cases k) auto
      have "clear_line b sq off (Suc k)"
        unfolding j clear_line_Suc using 2(1) here k(5) j by simp
      then show ?thesis using k by (intro exI [of _ "Suc k"]) (auto simp: algebra_simps)
    qed
  next
    assume ?R
    then obtain k where k: "0 < k" "k \<le> Suc n" "on_sq square" "square = sq + int k * off" "clear_line b sq off k"
      by blast
    then obtain j where j: "k = Suc j" by (cases k) auto
    show ?L
    proof (cases j)
      case 0
      then show ?thesis using k j on by auto
    next
      case (Suc i)
      then have c: "on_sq (sq + off)" "b (sq + off) = None" "clear_line b (sq + off) off (Suc i)"
        using k(5) j by (simp_all add: clear_line_Suc)
      have sq: "square = sq + off + int (Suc i) * off" using k(4) j Suc by (simp add: algebra_simps)
      have "Suc i \<le> n" using k(2) j Suc by simp
      then have "slide_hits n b square off (sq + off + off)"
        using Suc.IH [OF c(1)] c(3) k(3) sq by blast
      then show ?thesis using c(1,2) on by simp
    qed
  qed
qed

text \<open>On a line the eighth step is already off the board, so the fuel loses no attack.\<close>

lemma line_length:
  assumes "slide_off off" "on_sq sq" "clear_line b sq off k" "on_sq (sq + int k * off)"
  shows "k \<le> 7"
proof -
  have "int k + int (steps_left off (sq + int k * off)) \<le> int (steps_left off sq)"
    using assms(2-)
  proof (induction k arbitrary: sq)
    case 0
    then show ?case by simp
  next
    case (Suc k)
    have "on_sq (sq + off) \<and> clear_line b (sq + off) off k"
    proof (cases k)
      case 0
      then show ?thesis using Suc.prems by (simp add: clear_line_def)
    next
      case (Suc i)
      then show ?thesis using Suc.prems by (simp add: clear_line_Suc)
    qed
    then have c: "on_sq (sq + off)" "clear_line b (sq + off) off k" by auto
    have e: "sq + int (Suc k) * off = (sq + off) + int k * off" by (simp add: algebra_simps)
    have "int k + int (steps_left off (sq + off + int k * off)) \<le> int (steps_left off (sq + off))"
      using Suc.IH [OF c] Suc.prems(3) unfolding e by blast
    then show ?case
      using steps_left_dec [OF Suc.prems(1) c(1) assms(1)] unfolding e by linarith
  qed
  moreover have "1 \<le> steps_left off (sq + int k * off)"
    using assms(4) by (auto simp: steps_left_def on_sq_def)
  moreover have "steps_left off sq \<le> 8" using on_sq_steps_left assms(2) by blast
  ultimately show ?thesis by linarith
qed

lemma slide_hits_sees:
  assumes "slide_off off" "on_sq sq" "on_sq square"
  shows "slide_hits ray_fuel b square off (sq + off) \<longleftrightarrow>
           (\<exists>k > 0. square = sq + int k * off \<and> clear_line b sq off k)"
  using assms line_length [OF assms(1,2)] by (fastforce simp: slide_hits_iff ray_fuel_def)

lemma attacks_from_sees:
  assumes "on_sq sq" "on_sq square"
  shows "attacks_from b square c sq \<longleftrightarrow> (\<exists>p. b sq = Some p \<and> color_of p = c) \<and> sees b sq square"
proof (cases "b sq")
  case None
  then show ?thesis by (simp add: attacks_from_def sees_def)
next
  case (Some p)
  have slide: "slide_hits ray_fuel b square off (sq + off) \<longleftrightarrow>
      (\<exists>k > 0. square = sq + int k * off \<and> clear_line b sq off k)" if "slider k" "off \<in> set (OFFSETS k)" for k off
    using slide_hits_sees slider_offsets assms that by blast
  have mem: "(\<exists>off \<in> set xs. sq + off = square) \<longleftrightarrow> square - sq \<in> set xs" for xs
    by (force simp: algebra_simps)
  have hits: "(\<exists>off \<in> set (OFFSETS k). slide_hits ray_fuel b square off (sq + off)) \<longleftrightarrow>
      (\<exists>off \<in> set (OFFSETS k). \<exists>n > 0. square = sq + int n * off \<and> clear_line b sq off n)" if "slider k" for k
    using slide [OF that] by blast
  have "attacks_from b square c sq \<longleftrightarrow> color_of p = c \<and> sees b sq square"
    unfolding attacks_from_def sees_def Some
    by (cases "kind_of p")
      (simp_all only: option.case kind.case mem hits slider_cases option.inject HOL.simp_thms if_bool_eq_conj, auto)
  then show ?thesis using Some by simp
qed

theorem isAttacked_sees:
  assumes "on_sq square"
  shows "isAttacked b square c \<longleftrightarrow>
           (\<exists>sq p. on_sq sq \<and> b sq = Some p \<and> color_of p = c \<and> sees b sq square)"
  using attacks_from_sees [OF _ assms] by (auto simp: isAttacked_def)

lemma isKingAttacked_opp: "isKingAttacked g c = (0 \<le> kings g c \<and> isAttacked (board g) (kings g c) (opp c))"
  by (auto simp: isKingAttacked_def kingSquare_def opp_if Let_def)

lemma inCheck_isKingAttacked: "inCheck g = isKingAttacked g (turn g)"
  by (simp add: inCheck_def isKingAttacked_def)

end
