(* ===== verification/ChessMoves.thy ===== *)
theory ChessMoves
  imports ChessAttack
begin

text \<open>
  Pseudo-legal move generation of \<^verbatim>\<open>static/chess-engine.js\<close>
  (\<^verbatim>\<open>_generatePseudoMoves\<close>, \<^verbatim>\<open>_addCastlingMoves\<close>), in the order the code pushes the
  moves, and the predicate \<open>pseudo\<close> that says what every generated record looks like.
\<close>

section \<open>Generation\<close>

definition addPawnMove :: "color \<Rightarrow> int \<Rightarrow> int \<Rightarrow> string \<Rightarrow> kind option \<Rightarrow> move_record list" where
  "addPawnMove us from to flags captured =
     (if (us = White \<and> rankOf to = 7) \<or> (us = Black \<and> rankOf to = 0)
      then map (\<lambda>promo. mk_move from to Pawn captured (Some promo) (flags @ ''p''))
             [Queen, Rook, Bishop, Knight]
      else [mk_move from to Pawn captured None flags])"

text \<open>One iteration of the capture loop of a pawn.\<close>

definition pawnCapture :: "chess \<Rightarrow> color \<Rightarrow> int \<Rightarrow> int \<Rightarrow> move_record list" where
  "pawnCapture g us from off =
     (let to = from + off
      in if \<not> isOnBoard to then []
         else (case board g to of
                 Some target \<Rightarrow>
                   if color_of target = opp us then addPawnMove us from to ''c'' (Some (kind_of target))
                   else if to = ep g then [mk_move from to Pawn (Some Pawn) None ''e''] else []
               | None \<Rightarrow> if to = ep g then [mk_move from to Pawn (Some Pawn) None ''e''] else []))"

definition pawnMoves :: "chess \<Rightarrow> color \<Rightarrow> int \<Rightarrow> move_record list" where
  "pawnMoves g us from =
     (let push = PAWN_PUSH us; oneStep = from + push;
          startRank = (if us = White then 1 else 6);
          twoStep = from + push * 2
      in (if isOnBoard oneStep \<and> board g oneStep = None
          then addPawnMove us from oneStep ''n'' None @
               (if rankOf from = startRank \<and> board g twoStep = None
                then [mk_move from twoStep Pawn None None ''b''] else [])
          else []) @
         concat (map (pawnCapture g us from) (PAWN_CAPTURES us)))"

text \<open>Knight and king: one step per offset.\<close>

definition stepMoves :: "chess \<Rightarrow> color \<Rightarrow> kind \<Rightarrow> int \<Rightarrow> move_record list" where
  "stepMoves g us k from =
     concat (map (\<lambda>off.
       let to = from + off
       in if \<not> isOnBoard to then []
          else (case board g to of
                  None \<Rightarrow> [mk_move from to k None None ''n'']
                | Some target \<Rightarrow>
                    if color_of target = opp us
                    then [mk_move from to k (Some (kind_of target)) None ''c''] else []))
       (OFFSETS k))"

text \<open>The loop of a sliding piece along one offset, with the fuel of the attack loop.\<close>

fun slideMoves :: "nat \<Rightarrow> chess \<Rightarrow> color \<Rightarrow> kind \<Rightarrow> int \<Rightarrow> int \<Rightarrow> int \<Rightarrow> move_record list" where
  "slideMoves 0 g us k from off to = []"
| "slideMoves (Suc n) g us k from off to =
     (if isOnBoard to
      then (case board g to of
              None \<Rightarrow> mk_move from to k None None ''n'' # slideMoves n g us k from off (to + off)
            | Some target \<Rightarrow>
                if color_of target = opp us
                then [mk_move from to k (Some (kind_of target)) None ''c''] else [])
      else [])"

text \<open>The body of the main loop: the moves of the piece on \<open>from\<close>.\<close>

definition movesFrom :: "chess \<Rightarrow> color \<Rightarrow> int \<Rightarrow> move_record list" where
  "movesFrom g us from =
     (case board g from of
        None \<Rightarrow> []
      | Some piece \<Rightarrow>
          if color_of piece \<noteq> us then []
          else (case kind_of piece of
                  Pawn \<Rightarrow> pawnMoves g us from
                | Knight \<Rightarrow> stepMoves g us Knight from
                | King \<Rightarrow> stepMoves g us King from
                | k \<Rightarrow> concat (map (\<lambda>off. slideMoves ray_fuel g us k from off (from + off)) (OFFSETS k))))"

definition is_own_rook :: "board \<Rightarrow> int \<Rightarrow> color \<Rightarrow> bool" where
  "is_own_rook b sq us = (case b sq of None \<Rightarrow> False | Some p \<Rightarrow> kind_of p = Rook \<and> color_of p = us)"

definition rankBase :: "color \<Rightarrow> int" where
  "rankBase us = (if us = White then 0 else 112)"

definition addCastlingMoves :: "chess \<Rightarrow> color \<Rightarrow> color \<Rightarrow> int \<Rightarrow> move_record list" where
  "addCastlingMoves g us them king =
     (let b = board g; base = rankBase us;
          canK = (if us = White then castling g AND CASTLE_WK else castling g AND CASTLE_BK);
          f1 = base + 5; g1 = base + 6;
          canQ = (if us = White then castling g AND CASTLE_WQ else castling g AND CASTLE_BQ);
          d1 = base + 3; c1 = base + 2; b1 = base + 1
      in (if canK \<noteq> 0 \<and> b f1 = None \<and> b g1 = None \<and> is_own_rook b (base + 7) us \<and>
             \<not> isAttacked b king them \<and> \<not> isAttacked b f1 them \<and> \<not> isAttacked b g1 them
          then [mk_move king g1 King None None ''k''] else []) @
         (if canQ \<noteq> 0 \<and> b d1 = None \<and> b c1 = None \<and> b b1 = None \<and> is_own_rook b (base + 0) us \<and>
             \<not> isAttacked b king them \<and> \<not> isAttacked b d1 them \<and> \<not> isAttacked b c1 them
          then [mk_move king c1 King None None ''q''] else []))"

text \<open>\<open>None\<close> is the argument \<^verbatim>\<open>undefined\<close>: all squares.\<close>

definition generatePseudoMoves :: "chess \<Rightarrow> int option \<Rightarrow> move_record list" where
  "generatePseudoMoves g onlyFrom =
     (let us = turn g; them = (if us = White then Black else White);
          (start, last_sq) = (case onlyFrom of
             Some f \<Rightarrow> if f \<ge> 0 then (f, f) else (0, 127)
           | None \<Rightarrow> (0, 127));
          king = kingSquare g us
      in concat (map (movesFrom g us) (scan_squares start last_sq)) @
         (if king \<ge> 0 \<and> (case onlyFrom of None \<Rightarrow> True | Some f \<Rightarrow> f < 0 \<or> f = king)
          then addCastlingMoves g us them king else []))"

section \<open>What a generated move looks like\<close>

text \<open>
  Five shapes. \<open>pseudo\<close> is what the code can rely on when it makes a generated move: the
  moving piece stands on \<open>from\<close>, the target is free or hostile, and the special moves have
  their rook or their victim in place.
\<close>

definition plain_target :: "chess \<Rightarrow> move_record \<Rightarrow> bool" where
  "plain_target g m \<longleftrightarrow>
     (case m_captured m of
        None \<Rightarrow> board g (m_to m) = None
      | Some k \<Rightarrow> board g (m_to m) = Some (pc k (opp (turn g))))"

definition pseudo :: "chess \<Rightarrow> move_record \<Rightarrow> bool" where
  "pseudo g m \<longleftrightarrow>
     on_sq (m_from m) \<and> on_sq (m_to m) \<and> m_from m \<noteq> m_to m \<and>
     board g (m_from m) = Some (pc (m_piece m) (turn g)) \<and>
     ( \<comment> \<open>a quiet move or a capture, promotions included\<close>
       (m_flags m \<in> {''n'', ''c''} \<and> plain_target g m \<and> m_promotion m = None) \<or>
       (m_flags m \<in> {''np'', ''cp''} \<and> m_piece m = Pawn \<and> plain_target g m \<and>
          (\<exists>k \<in> {Queen, Rook, Bishop, Knight}. m_promotion m = Some k)) \<or>
       \<comment> \<open>the double push\<close>
       (m_flags m = ''b'' \<and> m_piece m = Pawn \<and> m_captured m = None \<and> m_promotion m = None \<and>
          board g (m_to m) = None \<and> m_to m = m_from m + PAWN_PUSH (turn g) * 2 \<and>
          board g (m_from m + PAWN_PUSH (turn g)) = None \<and>
          rankOf (m_from m) = (if turn g = White then 1 else 6)) \<or>
       \<comment> \<open>en passant\<close>
       (m_flags m = ''e'' \<and> m_piece m = Pawn \<and> m_captured m = Some Pawn \<and> m_promotion m = None \<and>
          m_to m = ep g \<and> m_to m - m_from m \<in> set (PAWN_CAPTURES (turn g))) \<or>
       \<comment> \<open>castling\<close>
       (m_flags m = ''k'' \<and> m_piece m = King \<and> m_captured m = None \<and> m_promotion m = None \<and>
          m_from m = kings g (turn g) \<and> m_to m = rankBase (turn g) + 6 \<and>
          board g (rankBase (turn g) + 5) = None \<and> board g (m_to m) = None \<and>
          board g (rankBase (turn g) + 7) = Some (pc Rook (turn g))) \<or>
       (m_flags m = ''q'' \<and> m_piece m = King \<and> m_captured m = None \<and> m_promotion m = None \<and>
          m_from m = kings g (turn g) \<and> m_to m = rankBase (turn g) + 2 \<and>
          board g (rankBase (turn g) + 3) = None \<and> board g (m_to m) = None \<and>
          board g (rankBase (turn g)) = Some (pc Rook (turn g))))"

text \<open>
  The king table agrees with the board: \<open>kings c\<close> is the square of the one king of \<open>c\<close>, or
  \<open>-1\<close> when there is none; pieces stand on the 64 squares only.
\<close>

definition kings_ok :: "chess \<Rightarrow> bool" where
  "kings_ok g \<longleftrightarrow>
     (\<forall>c. (kings g c = -1 \<and> (\<forall>sq. board g sq \<noteq> Some (pc King c))) \<or>
          (on_sq (kings g c) \<and> (\<forall>sq. board g sq = Some (pc King c) \<longleftrightarrow> sq = kings g c)))"

definition board_ok :: "chess \<Rightarrow> bool" where
  "board_ok g \<longleftrightarrow> (\<forall>sq p. board g sq = Some p \<longrightarrow> on_sq sq)"

lemma kings_okD:
  "kings_ok g \<Longrightarrow> 0 \<le> kings g c \<Longrightarrow> on_sq (kings g c) \<and> board g (kings g c) = Some (pc King c)"
  unfolding kings_ok_def by (metis neg_0_le_iff_le not_one_le_zero)

lemma kings_ok_king: "kings_ok g \<Longrightarrow> board g sq = Some (pc King c) \<Longrightarrow> kings g c = sq"
  unfolding kings_ok_def by metis

lemma piece_eta: "p = pc (kind_of p) (color_of p)"
  by simp

lemma Some_piece: "kind_of p = k \<Longrightarrow> color_of p = c \<Longrightarrow> p = pc k c"
  by auto

section \<open>Every generated move is pseudo-legal\<close>

lemma addPawnMove_elem:
  "m \<in> set (addPawnMove us from to fl cap) \<Longrightarrow>
     m_from m = from \<and> m_to m = to \<and> m_piece m = Pawn \<and> m_captured m = cap \<and>
     ((m_promotion m = None \<and> m_flags m = fl) \<or>
      ((\<exists>k \<in> {Queen, Rook, Bishop, Knight}. m_promotion m = Some k) \<and> m_flags m = fl @ ''p''))"
  by (auto simp: addPawnMove_def split: if_splits)

lemma pseudo_pawnCapture:
  assumes "board g from = Some (pc Pawn us)" "turn g = us" "on_sq from"
    and "off \<in> set (PAWN_CAPTURES us)" "m \<in> set (pawnCapture g us from off)"
  shows "pseudo g m"
proof -
  have b: "-33 \<le> off" "off \<le> 33" "off \<noteq> 0" using captures_bound [OF assms(4)] by auto
  have on: "isOnBoard (from + off) \<longleftrightarrow> on_sq (from + off)" by (rule isOnBoard_near [OF assms(3) b(1,2)])
  have T: "on_sq (from + off)" using assms(5) on by (auto simp: pawnCapture_def Let_def split: if_splits)
  obtain k where "m \<in> set (addPawnMove us from (from + off) ''c'' (Some k)) \<and> board g (from + off) = Some (pc k (opp us)) \<or>
        from + off = ep g \<and> m = mk_move from (from + off) Pawn (Some Pawn) None ''e''"
  proof (cases "board g (from + off)")
    case None
    with assms(5) T that show ?thesis by (auto simp: pawnCapture_def Let_def split: if_splits)
  next
    case (Some target)
    then have "board g (from + off) = Some (pc (kind_of target) (color_of target))" by simp
    with assms(5) T that [of "kind_of target"] Some show ?thesis
      by (auto simp: pawnCapture_def Let_def split: if_splits)
  qed
  then consider "m \<in> set (addPawnMove us from (from + off) ''c'' (Some k))"
      "board g (from + off) = Some (pc k (opp us))"
    | "from + off = ep g" "m = mk_move from (from + off) Pawn (Some Pawn) None ''e''" by blast
  then show ?thesis
  proof cases
    case 1
    from addPawnMove_elem [OF 1(1)] 1(2) show ?thesis
      using assms b T by (auto simp: pseudo_def plain_target_def)
  next
    case 2
    have "ep g - from = off" using 2(1) by simp
    then have "ep g - from \<in> set (PAWN_CAPTURES us)" using assms(4) by simp
    then show ?thesis using 2 assms(1-3) b T by (simp add: pseudo_def)
  qed
qed

lemma pawn_push_bound: "-33 \<le> PAWN_PUSH us" "PAWN_PUSH us \<le> 33" "PAWN_PUSH us \<noteq> 0"
  by (cases us; simp)+

lemma pseudo_pawnMoves:
  assumes "board g from = Some (pc Pawn us)" "turn g = us" "on_sq from"
    and "m \<in> set (pawnMoves g us from)"
  shows "pseudo g m"
proof -
  let ?one = "from + PAWN_PUSH us" and ?two = "from + PAWN_PUSH us * 2"
  have on: "isOnBoard ?one \<longleftrightarrow> on_sq ?one" by (rule isOnBoard_near [OF assms(3) pawn_push_bound(1,2)])
  from assms(4) consider
      "on_sq ?one" "board g ?one = None" "m \<in> set (addPawnMove us from ?one ''n'' None)"
    | "on_sq ?one" "board g ?one = None" "rankOf from = (if us = White then 1 else 6)" "board g ?two = None"
      "m = mk_move from ?two Pawn None None ''b''"
    | off where "off \<in> set (PAWN_CAPTURES us)" "m \<in> set (pawnCapture g us from off)"
    unfolding pawnMoves_def Let_def by (auto simp: on split: if_splits)
  then show ?thesis
  proof cases
    case 1
    from addPawnMove_elem [OF 1(3)] 1(1,2) show ?thesis
      using assms pawn_push_bound(3) [of us] by (auto simp: pseudo_def plain_target_def)
  next
    case 2
    have "on_sq ?two"
      using 2(3) assms(3) mod_mult_self1 [of "from" 2 16] mod_mult_self1 [of "from" "-2" 16]
      by (cases us) (auto simp: on_sq_def rankOf_div)
    with 2 show ?thesis
      using assms pawn_push_bound(3) [of us] by (simp add: pseudo_def)
  next
    case 3
    then show ?thesis using pseudo_pawnCapture assms by blast
  qed
qed

lemma pseudo_stepMoves:
  assumes "board g from = Some (pc k us)" "turn g = us" "on_sq from"
    and "m \<in> set (stepMoves g us k from)"
  shows "pseudo g m"
proof -
  from assms(4) obtain off where off: "off \<in> set (OFFSETS k)" "isOnBoard (from + off)"
    and m: "m \<in> set (case board g (from + off) of
              None \<Rightarrow> [mk_move from (from + off) k None None ''n'']
            | Some target \<Rightarrow> if color_of target = opp us
                then [mk_move from (from + off) k (Some (kind_of target)) None ''c''] else [])"
    by (auto simp: stepMoves_def Let_def split: if_splits)
  have b: "-33 \<le> off" "off \<le> 33" "off \<noteq> 0" using offsets_bound [OF off(1)] by auto
  then have T: "on_sq (from + off)" using off(2) isOnBoard_near [OF assms(3)] by blast
  show ?thesis
    using m assms b T by (auto simp: pseudo_def plain_target_def split: option.splits if_splits)
qed

text \<open>A slide stops at a free or hostile square that the moving piece sees.\<close>

lemma slideMoves_elem:
  assumes "slide_off off" "on_sq sq" "m \<in> set (slideMoves n g us k from off (sq + off))"
  shows "\<exists>to. on_sq to \<and> slide_hits n (board g) to off (sq + off) \<and>
      ((board g to = None \<and> m = mk_move from to k None None ''n'') \<or>
       (\<exists>c. board g to = Some (pc c (opp us)) \<and> m = mk_move from to k (Some c) None ''c''))"
  using assms(2-)
proof (induction n arbitrary: sq)
  case 0
  then show ?case by simp
next
  case (Suc n)
  have on: "isOnBoard (sq + off) \<longleftrightarrow> on_sq (sq + off)"
    using isOnBoard_slide Suc.prems(1) assms(1) by blast
  have here: "on_sq (sq + off)" using Suc.prems(2) on by (auto split: if_splits)
  show ?case
  proof (cases "board g (sq + off)")
    case (Some target)
    then have "m = mk_move from (sq + off) k (Some (kind_of target)) None ''c''"
        "board g (sq + off) = Some (pc (kind_of target) (opp us))"
      using Suc.prems(2) here by (auto split: if_splits)
    then show ?thesis using here by (intro exI [of _ "sq + off"]) auto
  next
    case None
    then consider "m = mk_move from (sq + off) k None None ''n''"
      | "m \<in> set (slideMoves n g us k from off (sq + off + off))"
      using Suc.prems(2) here by auto
    then show ?thesis
    proof cases
      case 1
      then show ?thesis using here None by (intro exI [of _ "sq + off"]) auto
    next
      case 2
      then obtain to where "on_sq to" "slide_hits n (board g) to off (sq + off + off)"
        "(board g to = None \<and> m = mk_move from to k None None ''n'') \<or>
         (\<exists>c. board g to = Some (pc c (opp us)) \<and> m = mk_move from to k (Some c) None ''c'')"
        using Suc.IH [OF here] by blast
      then show ?thesis using here None by (intro exI [of _ to]) auto
    qed
  qed
qed

lemma slide_hits_neq:
  assumes "slide_off off" "on_sq sq" "slide_hits ray_fuel b to off (sq + off)" "on_sq to"
  shows "to \<noteq> sq"
proof -
  obtain k where "0 < k" "to = sq + int k * off"
    using assms slide_hits_sees by blast
  moreover have "off \<noteq> 0" using assms(1) by (auto simp: slide_off_def)
  ultimately show ?thesis by simp
qed

lemma pseudo_slideMoves:
  assumes "board g from = Some (pc k us)" "turn g = us" "on_sq from" "slider k"
    and "off \<in> set (OFFSETS k)" "m \<in> set (slideMoves ray_fuel g us k from off (from + off))"
  shows "pseudo g m"
proof -
  have s: "slide_off off" using slider_offsets assms by blast
  from slideMoves_elem [OF s assms(3,6)] obtain to where
    to: "on_sq to" "slide_hits ray_fuel (board g) to off (from + off)"
    and m: "(board g to = None \<and> m = mk_move from to k None None ''n'') \<or>
       (\<exists>c. board g to = Some (pc c (opp us)) \<and> m = mk_move from to k (Some c) None ''c'')" by blast
  have "to \<noteq> from" using slide_hits_neq [OF s assms(3) to(2,1)] .
  then show ?thesis
    using m to(1) assms(1-3) unfolding pseudo_def plain_target_def by (elim disjE conjE exE) simp_all
qed

lemma movesFrom_own:
  assumes "m \<in> set (movesFrom g us from)"
  shows "\<exists>p. board g from = Some p \<and> color_of p = us"
proof (cases "board g from")
  case None
  then show ?thesis using assms by (simp add: movesFrom_def)
next
  case (Some p)
  then show ?thesis using assms by (cases "color_of p = us") (simp_all add: movesFrom_def)
qed

text \<open>The three generators behind \<open>movesFrom\<close>, one case each.\<close>

lemma movesFrom_cases:
  assumes "m \<in> set (movesFrom g us from)"
  obtains (pawn) "board g from = Some (pc Pawn us)" "m \<in> set (pawnMoves g us from)"
    | (steps) k where "k = Knight \<or> k = King" "board g from = Some (pc k us)" "m \<in> set (stepMoves g us k from)"
    | (slide) k off where "slider k" "board g from = Some (pc k us)" "off \<in> set (OFFSETS k)"
        "m \<in> set (slideMoves ray_fuel g us k from off (from + off))"
proof -
  obtain p where p: "board g from = Some p" "color_of p = us"
    using movesFrom_own [OF assms] by blast
  then have b: "board g from = Some (pc (kind_of p) us)" by simp
  show thesis
  proof (cases "kind_of p")
    case Pawn
    then show ?thesis using pawn assms p b by (simp add: movesFrom_def)
  next
    case Knight
    then show ?thesis using steps [of Knight] assms p b by (simp add: movesFrom_def)
  next
    case King
    then show ?thesis using steps [of King] assms p b by (simp add: movesFrom_def)
  next
    case Bishop
    then have "m \<in> set (concat (map (\<lambda>off. slideMoves ray_fuel g us Bishop from off (from + off)) (OFFSETS Bishop)))"
      using assms p by (simp add: movesFrom_def del: OFFSETS.simps)
    then show ?thesis using slide [of Bishop] b Bishop by (auto simp: slider_def simp del: OFFSETS.simps)
  next
    case Rook
    then have "m \<in> set (concat (map (\<lambda>off. slideMoves ray_fuel g us Rook from off (from + off)) (OFFSETS Rook)))"
      using assms p by (simp add: movesFrom_def del: OFFSETS.simps)
    then show ?thesis using slide [of Rook] b Rook by (auto simp: slider_def simp del: OFFSETS.simps)
  next
    case Queen
    then have "m \<in> set (concat (map (\<lambda>off. slideMoves ray_fuel g us Queen from off (from + off)) (OFFSETS Queen)))"
      using assms p by (simp add: movesFrom_def del: OFFSETS.simps)
    then show ?thesis using slide [of Queen] b Queen by (auto simp: slider_def simp del: OFFSETS.simps)
  qed
qed

lemma pseudo_movesFrom:
  assumes "on_sq from" "m \<in> set (movesFrom g (turn g) from)"
  shows "pseudo g m"
  using assms(2)
proof (cases rule: movesFrom_cases)
  case pawn
  then show ?thesis using pseudo_pawnMoves assms(1) by blast
next
  case (steps k)
  then show ?thesis using pseudo_stepMoves assms(1) by blast
next
  case (slide k off)
  then show ?thesis using pseudo_slideMoves assms(1) by blast
qed

lemma addPawnMove_from: "m \<in> set (addPawnMove us from to fl cap) \<Longrightarrow> m_from m = from"
  by (drule addPawnMove_elem) blast

lemma pawnCapture_from: "m \<in> set (pawnCapture g us from off) \<Longrightarrow> m_from m = from"
  by (cases "board g (from + off)")
    (auto simp: pawnCapture_def Let_def dest: addPawnMove_from split: if_splits)

lemma movesFrom_from:
  assumes "on_sq from" "m \<in> set (movesFrom g us from)"
  shows "m_from m = from"
  using assms(2)
proof (cases rule: movesFrom_cases)
  case pawn
  then show ?thesis
    by (auto simp: pawnMoves_def Let_def dest: addPawnMove_from pawnCapture_from split: if_splits)
next
  case (steps k)
  then obtain off where "m \<in> set (case board g (from + off) of
              None \<Rightarrow> [mk_move from (from + off) k None None ''n'']
            | Some target \<Rightarrow> if color_of target = opp us
                then [mk_move from (from + off) k (Some (kind_of target)) None ''c''] else [])"
    by (auto simp: stepMoves_def Let_def split: if_splits)
  then show ?thesis by (cases "board g (from + off)") (auto split: if_splits)
next
  case (slide k off)
  then show ?thesis using slideMoves_elem [OF slider_offsets assms(1)] by fastforce
qed

lemma rankBase_on_sq [simp]: "0 \<le> k \<Longrightarrow> k < 8 \<Longrightarrow> on_sq (rankBase us + k)"
  using rank_file_of [of k 7] rank_file_of [of k 0]
  by (cases us) (auto simp: rankBase_def on_sq_rank_file)

lemma is_own_rook_iff: "is_own_rook b sq us \<longleftrightarrow> b sq = Some (pc Rook us)"
  by (auto simp: is_own_rook_def split: option.splits)

lemma pseudo_castling:
  assumes "kings_ok g" "0 \<le> kings g (turn g)"
    and "m \<in> set (addCastlingMoves g (turn g) them (kings g (turn g)))"
  shows "pseudo g m"
proof -
  have k: "on_sq (kings g (turn g))" "board g (kings g (turn g)) = Some (pc King (turn g))"
    using kings_okD assms(1,2) by blast+
  from assms(3) consider
      "m = mk_move (kings g (turn g)) (rankBase (turn g) + 6) King None None ''k''"
      "board g (rankBase (turn g) + 5) = None" "board g (rankBase (turn g) + 6) = None"
      "board g (rankBase (turn g) + 7) = Some (pc Rook (turn g))"
    | "m = mk_move (kings g (turn g)) (rankBase (turn g) + 2) King None None ''q''"
      "board g (rankBase (turn g) + 3) = None" "board g (rankBase (turn g) + 2) = None"
      "board g (rankBase (turn g)) = Some (pc Rook (turn g))"
    by (auto simp: addCastlingMoves_def Let_def is_own_rook_iff split: if_splits)
  then show ?thesis
  proof cases
    case 1
    then have "kings g (turn g) \<noteq> rankBase (turn g) + 6" using k(2) by auto
    with 1 k show ?thesis by (simp add: pseudo_def)
  next
    case 2
    then have "kings g (turn g) \<noteq> rankBase (turn g) + 2" using k(2) by auto
    with 2 k show ?thesis by (simp add: pseudo_def)
  qed
qed

lemma generatePseudoMoves_None:
  "generatePseudoMoves g None =
     concat (map (movesFrom g (turn g)) all_squares) @
     (if kings g (turn g) \<ge> 0 then addCastlingMoves g (turn g) (opp (turn g)) (kings g (turn g)) else [])"
  by (simp add: generatePseudoMoves_def kingSquare_def all_squares_def opp_if Let_def)

lemma generatePseudoMoves_Some:
  "on_sq f \<Longrightarrow> generatePseudoMoves g (Some f) =
     movesFrom g (turn g) f @
     (if kings g (turn g) = f then addCastlingMoves g (turn g) (opp (turn g)) f else [])"
  by (auto simp: generatePseudoMoves_def kingSquare_def scan_squares_single opp_if on_sq_def Let_def)

definition only_ok :: "int option \<Rightarrow> bool" where
  "only_ok onlyFrom = (case onlyFrom of None \<Rightarrow> True | Some f \<Rightarrow> on_sq f)"

theorem generated_pseudo:
  assumes "kings_ok g" "only_ok onlyFrom" "m \<in> set (generatePseudoMoves g onlyFrom)"
  shows "pseudo g m"
proof (cases onlyFrom)
  case None
  then show ?thesis
    using assms pseudo_movesFrom pseudo_castling [of g m "opp (turn g)"]
    by (auto simp: generatePseudoMoves_None split: if_splits)
next
  case (Some f)
  then have f: "on_sq f" using assms(2) by (simp add: only_ok_def)
  then have "0 \<le> f" by (simp add: on_sq_def)
  then show ?thesis
    using assms Some f pseudo_movesFrom [of f m g] pseudo_castling [of g m "opp (turn g)"]
    by (auto simp: generatePseudoMoves_Some split: if_splits)
qed

text \<open>A generated record carries no undo state yet.\<close>

lemma generated_from:
  assumes "on_sq f" "m \<in> set (generatePseudoMoves g (Some f))"
  shows "m_from m = f"
  using assms movesFrom_from [of f m g "turn g"]
  by (auto simp: generatePseudoMoves_Some addCastlingMoves_def Let_def split: if_splits)

section \<open>A capture is an attack\<close>

text \<open>
  Move generation and attack detection are separate code. They agree on captures: a generated
  capture (en passant apart) goes to a square that the mover attacks.
\<close>

lemma attack_intro:
  "on_sq sq \<Longrightarrow> attacks_from b square c sq \<Longrightarrow> isAttacked b square c"
  by (auto simp: isAttacked_def)

lemma capture_is_attack_from:
  assumes "on_sq from" "m \<in> set (movesFrom g (turn g) from)"
    and "m_captured m \<noteq> None" "m_flags m \<noteq> ''e''"
  shows "attacks_from (board g) (m_to m) (turn g) from"
proof -
  have add: "from + (m_to m - from) = m_to m" by simp
  show ?thesis
    using assms(2)
  proof (cases rule: movesFrom_cases)
    case pawn
    then obtain off where "off \<in> set (PAWN_CAPTURES (turn g))" "m \<in> set (pawnCapture g (turn g) from off)"
      using assms(3) unfolding pawnMoves_def Let_def
      by (auto dest!: addPawnMove_elem split: if_splits)
    then have "m_to m - from \<in> set (PAWN_CAPTURES (turn g))"
      using assms(4) by (cases "board g (from + off)")
        (auto simp: pawnCapture_def Let_def dest!: addPawnMove_elem split: if_splits)
    then have "\<exists>off \<in> set (PAWN_CAPTURES (turn g)). from + off = m_to m" using add by blast
    then show ?thesis unfolding attacks_from_def pawn(1) by simp
  next
    case (steps k)
    then obtain off where "off \<in> set (OFFSETS k)" "m \<in> set (case board g (from + off) of
              None \<Rightarrow> [mk_move from (from + off) k None None ''n'']
            | Some target \<Rightarrow> if color_of target = opp (turn g)
                then [mk_move from (from + off) k (Some (kind_of target)) None ''c''] else [])"
      by (auto simp: stepMoves_def Let_def simp del: OFFSETS.simps split: if_splits)
    then have "m_to m - from \<in> set (OFFSETS k)"
      by (cases "board g (from + off)") (auto split: if_splits)
    then have "\<exists>off \<in> set (OFFSETS k). from + off = m_to m" using add by blast
    then show ?thesis unfolding attacks_from_def steps(2) using steps(1) by (auto simp del: OFFSETS.simps)
  next
    case (slide k off)
    then have "slide_hits ray_fuel (board g) (m_to m) off (from + off)"
      using slideMoves_elem [OF slider_offsets assms(1)] by fastforce
    then have "\<exists>off \<in> set (OFFSETS k). slide_hits ray_fuel (board g) (m_to m) off (from + off)"
      using slide(3) by blast
    then show ?thesis unfolding attacks_from_def slide(2) using slide(1)
      by (auto simp: slider_cases simp del: OFFSETS.simps)
  qed
qed

lemma castling_no_capture:
  "m \<in> set (addCastlingMoves g us them king) \<Longrightarrow> m_captured m = None"
  by (auto simp: addCastlingMoves_def Let_def split: if_splits)

theorem capture_is_attack:
  assumes "only_ok onlyFrom" "m \<in> set (generatePseudoMoves g onlyFrom)"
    and "m_captured m \<noteq> None" "m_flags m \<noteq> ''e''"
  shows "isAttacked (board g) (m_to m) (turn g)"
proof (cases onlyFrom)
  case None
  then obtain f where "on_sq f" "m \<in> set (movesFrom g (turn g) f)"
    using assms castling_no_capture by (fastforce simp: generatePseudoMoves_None split: if_splits)
  then show ?thesis using capture_is_attack_from assms attack_intro by blast
next
  case (Some f)
  then have "on_sq f" "m \<in> set (movesFrom g (turn g) f)"
    using assms castling_no_capture by (fastforce simp: only_ok_def generatePseudoMoves_Some split: if_splits)+
  then show ?thesis using capture_is_attack_from assms attack_intro by blast
qed

end
