(* ===== verification/ChessMake.thy ===== *)
theory ChessMake
  imports ChessMoves
begin

text \<open>
  Making and undoing a move (\<^verbatim>\<open>_makeMoveInternal\<close>, \<^verbatim>\<open>_updateCastlingForSquare\<close>,
  \<^verbatim>\<open>_undoMoveInternal\<close> of \<^verbatim>\<open>static/chess-engine.js\<close>) and the proof that undoing a generated
  move restores the game exactly.

  The code writes the saved state into the move record itself, so \<open>makeMoveInternal\<close> returns the
  changed game and the changed record. \<^verbatim>\<open>movingPiece.type\<close> would raise on an empty square;
  the records handed to it come from the generator, whose moves start on an own piece
  (\<open>generated_pseudo\<close>).
\<close>

definition updateCastlingForSquare :: "int \<Rightarrow> int \<Rightarrow> int" where
  "updateCastlingForSquare cr sq =
     (if sq = 0 then cr AND NOT CASTLE_WQ
      else if sq = 7 then cr AND NOT CASTLE_WK
      else if sq = 112 then cr AND NOT CASTLE_BQ
      else if sq = 119 then cr AND NOT CASTLE_BK
      else cr)"

definition is_kind :: "piece option \<Rightarrow> kind \<Rightarrow> bool" where
  "is_kind p k = (case p of None \<Rightarrow> False | Some q \<Rightarrow> kind_of q = k)"

lemma is_kind_simps [simp]: "is_kind None k = False" "is_kind (Some p) k = (kind_of p = k)"
  by (simp_all add: is_kind_def)

text \<open>The board after the move: capture, move, promotion, castling rook.\<close>

definition make_board :: "chess \<Rightarrow> move_record \<Rightarrow> board" where
  "make_board g m =
     (let us = turn g; b0 = board g; movingPiece = b0 (m_from m);
          b1 = (if CHR ''e'' \<in> set (m_flags m)
                then b0((if us = White then m_to m - 16 else m_to m + 16) := None) else b0);
          b2 = b1(m_to m := movingPiece, m_from m := None);
          b3 = (case m_promotion m of None \<Rightarrow> b2 | Some k \<Rightarrow> b2(m_to m := Some (pc k us)));
          base = rankBase us
      in if is_kind movingPiece King
         then (if CHR ''k'' \<in> set (m_flags m) then (b3(base + 5 := b3 (base + 7)))(base + 7 := None)
               else if CHR ''q'' \<in> set (m_flags m) then (b3(base + 3 := b3 (base + 0)))(base + 0 := None)
               else b3)
         else b3)"

text \<open>The record \<^verbatim>\<open>m._state\<close>.\<close>

definition saved_state :: "chess \<Rightarrow> move_record \<Rightarrow> undo_state" where
  "saved_state g m =
     (let us = turn g;
          capSq = (if us = White then m_to m - 16 else m_to m + 16);
          (sq, p) = (if CHR ''e'' \<in> set (m_flags m) then (capSq, board g capSq)
                     else if m_captured m \<noteq> None then (m_to m, board g (m_to m))
                     else (-1, None))
      in \<lparr>st_castling = castling g, st_ep = ep g, st_halfmoves = halfmoves g,
          st_fullmoves = fullmoves g, st_capturedSq = sq, st_capturedPiece = p\<rparr>)"

definition makeMoveInternal :: "chess \<Rightarrow> move_record \<Rightarrow> chess \<times> move_record" where
  "makeMoveInternal g m =
     (let us = turn g; them = (if us = White then Black else White);
          movingPiece = board g (m_from m);
          king = is_kind movingPiece King;
          cr0 = castling g;
          cr1 = (if king
                 then (if us = White then cr0 AND NOT (CASTLE_WK OR CASTLE_WQ)
                       else cr0 AND NOT (CASTLE_BK OR CASTLE_BQ))
                 else cr0);
          cr2 = updateCastlingForSquare cr1 (m_from m);
          cr3 = updateCastlingForSquare cr2 (m_to m)
      in (g\<lparr>board := make_board g m,
            kings := (if king then (kings g)(us := m_to m) else kings g),
            castling := cr3,
            ep := (if m_flags m = ''b''
                   then (if us = White then m_from m + 16 else m_from m - 16) else -1),
            halfmoves := (if is_kind movingPiece Pawn \<or> m_captured m \<noteq> None then 0 else halfmoves g + 1),
            fullmoves := (if us = Black then fullmoves g + 1 else fullmoves g),
            turn := them\<rparr>,
          m\<lparr>m_state := Some (saved_state g m)\<rparr>))"

text \<open>
  Undoing reads \<^verbatim>\<open>m._state\<close>; on a record that was never made (\<open>m_state = None\<close>) the code
  would raise after flipping the turn, and the model leaves the game alone. No caller does that.
\<close>

definition undo_board :: "chess \<Rightarrow> color \<Rightarrow> move_record \<Rightarrow> undo_state \<Rightarrow> board" where
  "undo_board g us m st =
     (let b0 = board g; movedPiece = b0 (m_to m);
          b1 = (if m_promotion m \<noteq> None then b0(m_from m := Some (pc Pawn us))
                else b0(m_from m := movedPiece));
          b2 = b1(m_to m := None);
          base = rankBase us;
          b3 = (if is_kind movedPiece King
                then (if CHR ''k'' \<in> set (m_flags m) then (b2(base + 7 := b2 (base + 5)))(base + 5 := None)
                      else if CHR ''q'' \<in> set (m_flags m) then (b2(base + 0 := b2 (base + 3)))(base + 3 := None)
                      else b2)
                else b2)
      in if st_capturedSq st \<ge> 0 then b3(st_capturedSq st := st_capturedPiece st) else b3)"

definition undoMoveInternal :: "chess \<Rightarrow> move_record \<Rightarrow> chess" where
  "undoMoveInternal g m =
     (case m_state m of
        None \<Rightarrow> g
      | Some st \<Rightarrow>
          (let them = turn g; us = (if them = White then Black else White);
               movedPiece = board g (m_to m)
           in g\<lparr>turn := us, castling := st_castling st, ep := st_ep st,
                halfmoves := st_halfmoves st, fullmoves := st_fullmoves st,
                board := undo_board g us m st,
                kings := (if is_kind movedPiece King then (kings g)(us := m_from m) else kings g)\<rparr>))"

section \<open>Undo after make\<close>

text \<open>
  An en-passant square is only honest when it is empty: with a FEN that names an occupied one, the
  code would overwrite the piece on it and undo to an empty square.
\<close>

definition ep_ok :: "chess \<Rightarrow> bool" where
  "ep_ok g \<longleftrightarrow> ep g = -1 \<or> (on_sq (ep g) \<and> board g (ep g) = None)"

lemma pseudo_kings:
  assumes "kings_ok g" "pseudo g m" "m_piece m = King"
  shows "kings g (turn g) = m_from m"
  using assms kings_ok_king by (auto simp: pseudo_def)

text \<open>The shapes of \<open>pseudo\<close>, as a case rule for the two proofs about making a move.\<close>

lemma pseudo_cases:
  assumes "pseudo g m"
  obtains
    (plain) "m_flags m \<in> {''n'', ''c''}" "plain_target g m" "m_promotion m = None"
  | (promote) k where "m_flags m \<in> {''np'', ''cp''}" "m_piece m = Pawn" "plain_target g m"
      "m_promotion m = Some k" "k \<noteq> King"
  | (double) "m_flags m = ''b''" "m_piece m = Pawn" "m_captured m = None" "m_promotion m = None"
      "board g (m_to m) = None" "m_to m = m_from m + PAWN_PUSH (turn g) * 2"
      "board g (m_from m + PAWN_PUSH (turn g)) = None"
      "rankOf (m_from m) = (if turn g = White then 1 else 6)"
  | (enpassant) "m_flags m = ''e''" "m_piece m = Pawn" "m_captured m = Some Pawn" "m_promotion m = None"
      "m_to m = ep g" "m_to m - m_from m \<in> set (PAWN_CAPTURES (turn g))"
  | (kingside) "m_flags m = ''k''" "m_piece m = King" "m_captured m = None" "m_promotion m = None"
      "m_from m = kings g (turn g)" "m_to m = rankBase (turn g) + 6"
      "board g (rankBase (turn g) + 5) = None" "board g (m_to m) = None"
      "board g (rankBase (turn g) + 7) = Some (pc Rook (turn g))"
  | (queenside) "m_flags m = ''q''" "m_piece m = King" "m_captured m = None" "m_promotion m = None"
      "m_from m = kings g (turn g)" "m_to m = rankBase (turn g) + 2"
      "board g (rankBase (turn g) + 3) = None" "board g (m_to m) = None"
      "board g (rankBase (turn g)) = Some (pc Rook (turn g))"
proof -
  from assms have "m_flags m \<in> {''n'', ''c''} \<and> plain_target g m \<and> m_promotion m = None \<or>
      m_flags m \<in> {''np'', ''cp''} \<and> m_piece m = Pawn \<and> plain_target g m \<and>
          (\<exists>k. m_promotion m = Some k \<and> k \<noteq> King) \<or> (m_flags m = ''b'' \<or> m_flags m = ''e'' \<or> m_flags m = ''k'' \<or> m_flags m = ''q'')"
    unfolding pseudo_def by (elim disjE conjE bexE) (simp_all, auto)
  then consider "m_flags m \<in> {''n'', ''c''}" "plain_target g m" "m_promotion m = None"
    | k where "m_flags m \<in> {''np'', ''cp''}" "m_piece m = Pawn" "plain_target g m"
      "m_promotion m = Some k" "k \<noteq> King"
    | "m_flags m = ''b''" | "m_flags m = ''e''" | "m_flags m = ''k''" | "m_flags m = ''q''"
    by (elim disjE conjE exE) simp_all
  then show thesis
  proof cases
    case 1
    then show ?thesis by (rule plain)
  next
    case (2 k)
    then show ?thesis by (rule promote)
  next
    case 3
    then have "m_flags m \<notin> {''n'', ''c''}" "m_flags m \<notin> {''np'', ''cp''}" "m_flags m \<noteq> ''e''"
      "m_flags m \<noteq> ''k''" "m_flags m \<noteq> ''q''" by simp_all
    then show ?thesis using assms 3 unfolding pseudo_def by (intro double) blast+
  next
    case 4
    then have "m_flags m \<notin> {''n'', ''c''}" "m_flags m \<notin> {''np'', ''cp''}"
      "m_flags m \<noteq> ''b''" "m_flags m \<noteq> ''k''" "m_flags m \<noteq> ''q''" by simp_all
    then show ?thesis using assms 4 unfolding pseudo_def by (intro enpassant) blast+
  next
    case 5
    then have "m_flags m \<notin> {''n'', ''c''}" "m_flags m \<notin> {''np'', ''cp''}"
      "m_flags m \<noteq> ''b''" "m_flags m \<noteq> ''e''" "m_flags m \<noteq> ''q''" by simp_all
    then show ?thesis using assms 5 unfolding pseudo_def by (intro kingside) blast+
  next
    case 6
    then have "m_flags m \<notin> {''n'', ''c''}" "m_flags m \<notin> {''np'', ''cp''}"
      "m_flags m \<noteq> ''b''" "m_flags m \<noteq> ''e''" "m_flags m \<noteq> ''k''" by simp_all
    then show ?thesis using assms 6 unfolding pseudo_def by (intro queenside) blast+
  qed
qed

lemma pseudo_basic:
  assumes "pseudo g m"
  shows "on_sq (m_from m)" "on_sq (m_to m)" "m_from m \<noteq> m_to m"
    "board g (m_from m) = Some (pc (m_piece m) (turn g))"
  using assms by (simp_all add: pseudo_def)

text \<open>The captured pawn of an en-passant move stands neither on \<open>from\<close> nor on \<open>to\<close>.\<close>

lemma enpassant_victim:
  assumes "t - f \<in> set (PAWN_CAPTURES us)"
  shows "(if us = White then t - 16 else t + 16) \<noteq> f" "(if us = White then t - 16 else t + 16) \<noteq> (t :: int)"
  using assms by (cases us; auto)+

lemma capture_square_on_sq:
  assumes "t - f \<in> set (PAWN_CAPTURES us)" "on_sq f" "on_sq t"
  shows "on_sq (if us = White then t - 16 else t + 16)"
proof (cases us)
  case White
  have "16 \<le> t"
  proof (rule ccontr)
    assume "\<not> 16 \<le> t"
    then have "t < 16" "f = 0" using White assms by (auto simp: on_sq_def)
    then show False using White assms by (auto simp: on_sq_def)
  qed
  then show ?thesis using White assms(3) mod_mult_self1 [of t "-1" 16] by (simp add: on_sq_def)
next
  case Black
  have "t < 112"
  proof (rule ccontr)
    assume "\<not> t < 112"
    then have "f = t + 15 \<or> f = t + 17" "112 \<le> t" using Black assms by auto
    then have "f = 127" using assms(2) by (auto simp: on_sq_def)
    then show False using assms(2) by (simp add: on_sq_def)
  qed
  then show ?thesis using Black assms(3) mod_mult_self1 [of t 1 16] by (simp add: on_sq_def)
qed

subsection \<open>The board after each kind of move\<close>

definition victim_sq :: "chess \<Rightarrow> move_record \<Rightarrow> int" where
  "victim_sq g m = (if turn g = White then m_to m - 16 else m_to m + 16)"

lemma make_board_simple:
  assumes "CHR ''e'' \<notin> set (m_flags m)" "CHR ''k'' \<notin> set (m_flags m)" "CHR ''q'' \<notin> set (m_flags m)"
    and "m_from m \<noteq> m_to m"
  shows "make_board g m = (board g)(m_from m := None, m_to m :=
           (case m_promotion m of None \<Rightarrow> board g (m_from m) | Some k \<Rightarrow> Some (pc k (turn g))))"
  using assms by (cases "m_promotion m") (simp_all add: make_board_def Let_def fun_upd_twist)

lemma make_board_enpassant:
  assumes "m_flags m = ''e''" "m_promotion m = None" "board g (m_from m) = Some (pc Pawn (turn g))"
    "victim_sq g m \<noteq> m_from m" "m_from m \<noteq> m_to m"
  shows "make_board g m = (board g)(victim_sq g m := None, m_from m := None, m_to m := Some (pc Pawn (turn g)))"
  using assms by (simp add: make_board_def victim_sq_def [symmetric] Let_def fun_upd_twist)

lemma make_board_castle:
  assumes "m_promotion m = None" "board g (m_from m) = Some (pc King (turn g))" "m_from m \<noteq> m_to m"
    and "(m_flags m, rook, landing) \<in>
           {(''k'', rankBase (turn g) + 7, rankBase (turn g) + 5), (''q'', rankBase (turn g), rankBase (turn g) + 3)}"
    and "rook \<noteq> m_from m" "rook \<noteq> m_to m" "landing \<noteq> rook"
  shows "make_board g m = (board g)(m_from m := None, m_to m := Some (pc King (turn g)),
           rook := None, landing := board g rook)"
proof -
  define b where "b = (board g)(m_to m := Some (pc King (turn g)), m_from m := None)"
  have e: "make_board g m = b(landing := b rook, rook := None)"
    using assms(1-4) by (elim insertE emptyE) (simp_all add: make_board_def b_def Let_def)
  have "b rook = board g rook" using assms(5,6) by (simp add: b_def)
  then show ?thesis
    unfolding e b_def using assms(3,7) by (auto simp: fun_eq_iff)
qed

subsection \<open>Undoing on the board\<close>

lemma undo_board_simple:
  assumes "CHR ''k'' \<notin> set (m_flags m)" "CHR ''q'' \<notin> set (m_flags m)" "m_from m \<noteq> m_to m"
  shows "undo_board h us m st =
    (let b = (board h)(m_from m := (if m_promotion m = None then board h (m_to m) else Some (pc Pawn us)), m_to m := None)
     in if st_capturedSq st \<ge> 0 then b(st_capturedSq st := st_capturedPiece st) else b)"
  using assms by (auto simp: undo_board_def Let_def)

lemma undo_simple_case:
  assumes "pseudo g m" "CHR ''e'' \<notin> set (m_flags m)" "CHR ''k'' \<notin> set (m_flags m)" "CHR ''q'' \<notin> set (m_flags m)"
    and "plain_target g m" "m_promotion m \<noteq> None \<Longrightarrow> m_piece m = Pawn" "board h = make_board g m"
  shows "undo_board h (turn g) m (saved_state g m) = board g"
proof -
  note b = pseudo_basic [OF assms(1)]
  have p: "0 \<le> m_to m" using b(2) by (simp add: on_sq_def)
  have st: "st_capturedSq (saved_state g m) = (if m_captured m = None then -1 else m_to m)"
    "m_captured m \<noteq> None \<Longrightarrow> st_capturedPiece (saved_state g m) = board g (m_to m)"
    using assms(2) by (simp_all add: saved_state_def Let_def)
  have un: "m_captured m = None \<Longrightarrow> board g (m_to m) = None"
    using assms(5) by (simp add: plain_target_def)
  have pr: "(if m_promotion m = None then board h (m_to m) else Some (pc Pawn (turn g))) = board g (m_from m)"
    using assms(6,7) b(4) make_board_simple [OF assms(2-4) b(3)] by (cases "m_promotion m") simp_all
  show ?thesis
    unfolding undo_board_simple [OF assms(3,4) b(3)] pr
    using st un p make_board_simple [OF assms(2-4) b(3)] b(3) assms(7)
    by (cases "m_captured m") (auto simp: Let_def fun_eq_iff)
qed

lemma undo_castle_case:
  assumes "pseudo g m" "m_promotion m = None" "m_captured m = None" "m_piece m = King"
    and f: "(m_flags m, rook, landing) \<in>
           {(''k'', rankBase (turn g) + 7, rankBase (turn g) + 5), (''q'', rankBase (turn g), rankBase (turn g) + 3)}"
    and "board g rook = Some (pc Rook (turn g))" "board g landing = None" "board g (m_to m) = None"
    and "landing \<noteq> m_to m" "board h = make_board g m"
  shows "undo_board h (turn g) m (saved_state g m) = board g"
proof -
  note b = pseudo_basic [OF assms(1)]
  have d: "rook \<noteq> m_from m" "rook \<noteq> m_to m" "landing \<noteq> rook" "landing \<noteq> m_from m"
    using assms(4,6-8) b(4) by auto
  have mb: "make_board g m = (board g)(m_from m := None, m_to m := Some (pc King (turn g)),
           rook := None, landing := board g rook)"
    using make_board_castle [OF assms(2) _ b(3) f d(1-3)] b(4) assms(4) by simp
  have st: "st_capturedSq (saved_state g m) = -1"
    using f assms(3) by (auto simp: saved_state_def Let_def)
  have king: "is_kind (board h (m_to m)) King"
    using d assms(9) by (simp add: mb assms(10))
  have "undo_board h (turn g) m (saved_state g m) =
      (board h)(m_from m := board h (m_to m), m_to m := None, rook := board h landing, landing := None)"
    using f king st d assms(2,9) unfolding undo_board_def Let_def
    by (elim insertE emptyE) simp_all
  also have "\<dots> = board g"
    using d assms(4,6-9) b(3,4) by (auto simp: mb assms(10) fun_eq_iff)
  finally show ?thesis .
qed

lemma undo_enpassant_case:
  assumes "pseudo g m" "m_flags m = ''e''" "m_piece m = Pawn" "m_promotion m = None"
    and "m_to m - m_from m \<in> set (PAWN_CAPTURES (turn g))" "board g (m_to m) = None" "board h = make_board g m"
  shows "undo_board h (turn g) m (saved_state g m) = board g"
proof -
  note b = pseudo_basic [OF assms(1)]
  have v: "victim_sq g m \<noteq> m_from m" "victim_sq g m \<noteq> m_to m" "0 \<le> victim_sq g m"
    using enpassant_victim [OF assms(5)] capture_square_on_sq [OF assms(5) b(1,2)]
    by (simp_all add: victim_sq_def on_sq_def)
  have st: "st_capturedSq (saved_state g m) = victim_sq g m"
    "st_capturedPiece (saved_state g m) = board g (victim_sq g m)"
    using assms(2) by (simp_all add: saved_state_def victim_sq_def Let_def)
  have mb: "make_board g m = (board g)(victim_sq g m := None, m_from m := None, m_to m := Some (pc Pawn (turn g)))"
    using make_board_enpassant [OF assms(2,4)] b(3,4) v(1) assms(3) by simp
  have "undo_board h (turn g) m (saved_state g m) =
      (board h)(m_from m := board h (m_to m), m_to m := None, victim_sq g m := board g (victim_sq g m))"
    using assms(2,4) v(3) b(3) by (simp add: undo_board_simple Let_def st)
  also have "\<dots> = board g"
    using v assms(3,6) b(3,4) by (auto simp: mb assms(7) fun_eq_iff)
  finally show ?thesis .
qed

lemma undo_make_board:
  assumes "kings_ok g" "ep_ok g" "pseudo g m" "board h = make_board g m"
  shows "undo_board h (turn g) m (saved_state g m) = board g"
  using assms(3)
proof (cases rule: pseudo_cases)
  case plain
  then show ?thesis by (intro undo_simple_case assms) auto
next
  case (promote k)
  then show ?thesis by (intro undo_simple_case assms) auto
next
  case double
  then show ?thesis by (intro undo_simple_case assms) (auto simp: plain_target_def)
next
  case enpassant
  have "board g (m_to m) = None"
    using enpassant(5) assms(2) pseudo_basic(2) [OF assms(3)] by (auto simp: ep_ok_def on_sq_def)
  then show ?thesis using enpassant by (intro undo_enpassant_case assms)
next
  case kingside
  then show ?thesis
    by (intro undo_castle_case [where rook = "rankBase (turn g) + 7" and landing = "rankBase (turn g) + 5"] assms)
      simp_all
next
  case queenside
  then show ?thesis
    by (intro undo_castle_case [where rook = "rankBase (turn g)" and landing = "rankBase (turn g) + 3"] assms)
      simp_all
qed

text \<open>The piece on the target square after the move is a king exactly when a king moved.\<close>

lemma make_board_to:
  assumes "pseudo g m"
  shows "make_board g m (m_to m) =
           (case m_promotion m of None \<Rightarrow> Some (pc (m_piece m) (turn g)) | Some k \<Rightarrow> Some (pc k (turn g)))"
  using assms
proof (cases rule: pseudo_cases)
  case plain
  then show ?thesis using pseudo_basic(3,4) [OF assms] by (subst make_board_simple) auto
next
  case (promote k)
  then show ?thesis using pseudo_basic(3,4) [OF assms] by (subst make_board_simple) auto
next
  case double
  then show ?thesis using pseudo_basic(3,4) [OF assms] by (subst make_board_simple) auto
next
  case enpassant
  then show ?thesis using pseudo_basic(3,4) [OF assms] enpassant_victim [OF enpassant(6)]
    by (subst make_board_enpassant) (auto simp: victim_sq_def)
next
  case kingside
  then have "rankBase (turn g) + 7 \<noteq> m_from m"
    using pseudo_basic(4) [OF assms] by auto
  then show ?thesis using kingside pseudo_basic(3,4) [OF assms]
    by (subst make_board_castle [where rook = "rankBase (turn g) + 7" and landing = "rankBase (turn g) + 5"])
      simp_all
next
  case queenside
  then have "rankBase (turn g) \<noteq> m_from m"
    using pseudo_basic(4) [OF assms] by auto
  then show ?thesis using queenside pseudo_basic(3,4) [OF assms]
    by (subst make_board_castle [where rook = "rankBase (turn g)" and landing = "rankBase (turn g) + 3"])
      simp_all
qed

lemma make_board_to_king:
  assumes "pseudo g m"
  shows "is_kind (make_board g m (m_to m)) King \<longleftrightarrow> m_piece m = King"
proof -
  have "m_piece m = Pawn \<and> k \<noteq> King" if "m_promotion m = Some k" for k
    using assms that by (cases rule: pseudo_cases) simp_all
  then show ?thesis by (cases "m_promotion m") (simp_all add: make_board_to [OF assms])
qed

text \<open>Undoing a generated move restores every field of the game.\<close>

lemma undo_make:
  assumes "kings_ok g" "ep_ok g" "pseudo g m" "makeMoveInternal g m = (g', m')"
  shows "undoMoveInternal g' m' = g"
proof -
  have g': "g' = fst (makeMoveInternal g m)" and m': "m' = m\<lparr>m_state := Some (saved_state g m)\<rparr>"
    using assms(4) by (auto simp: makeMoveInternal_def Let_def)
  have t: "turn g' = opp (turn g)" "board g' = make_board g m" "history g' = history g"
      "kings g' = (if m_piece m = King then (kings g)(turn g := m_to m) else kings g)"
    using pseudo_basic(4) [OF assms(3)] by (simp_all add: g' makeMoveInternal_def opp_if Let_def)
  have us: "(if turn g' = White then Black else White) = turn g"
    using t(1) by (cases "turn g") auto
  have ub: "undo_board g' (turn g) m' st = undo_board g' (turn g) m st" for st
    by (simp add: m' undo_board_def Let_def)
  have k: "(if is_kind (board g' (m_to m')) King then (kings g')(turn g := m_from m') else kings g') = kings g"
    using pseudo_kings [OF assms(1,3)] make_board_to_king [OF assms(3)] by (auto simp: t m' fun_eq_iff)
  have s: "m_state m' = Some (saved_state g m)" by (simp add: m')
  show ?thesis
    unfolding undoMoveInternal_def Let_def us s option.case ub undo_make_board [OF assms(1-3) t(2)] k
    using t(3) by (simp add: saved_state_def Let_def split: prod.splits)
qed

end
