(* ===== verification/ChessFen.thy ===== *)
theory ChessFen
  imports ChessMake
begin

text \<open>
  Reading and writing positions in Forsyth-Edwards notation: \<^verbatim>\<open>constructor\<close>,
  \<^verbatim>\<open>load\<close>, \<^verbatim>\<open>fen\<close>, \<^verbatim>\<open>get\<close>, \<^verbatim>\<open>board\<close> and \<^verbatim>\<open>history\<close> of
  \<^verbatim>\<open>static/chess-engine.js\<close>, and the round trip \<open>load_fen\<close>.

  A thrown error is a value of \<open>fen_error\<close>; \<open>load\<close> returns the object as the code leaves it, so
  after an error the board and the king table hold the squares read so far. Move counters are
  unbounded integers (the code's are doubles, exact up to 2 to the 53).
\<close>

datatype fen_error = NotEnoughFields | NotEightRanks | BadPiece char | WrongLength int

fun kind_char :: "kind \<Rightarrow> char" where
  "kind_char Pawn = CHR ''p''"
| "kind_char Knight = CHR ''n''"
| "kind_char Bishop = CHR ''b''"
| "kind_char Rook = CHR ''r''"
| "kind_char Queen = CHR ''q''"
| "kind_char King = CHR ''k''"

definition to_upper :: "char \<Rightarrow> char" where
  "to_upper ch = (if 97 \<le> (of_char ch :: nat) \<and> (of_char ch :: nat) \<le> 122 then char_of (of_char ch - 32 :: nat) else ch)"

definition to_lower :: "char \<Rightarrow> char" where
  "to_lower ch = (if 65 \<le> (of_char ch :: nat) \<and> (of_char ch :: nat) \<le> 90 then char_of (of_char ch + 32 :: nat) else ch)"

definition char_kind :: "char \<Rightarrow> kind option" where
  "char_kind ch = List.find (\<lambda>k. kind_char k = ch) [Pawn, Knight, Bishop, Rook, Queen, King]"

definition DEFAULT_FEN :: string where
  "DEFAULT_FEN = ''rnbqkbnr/pppppppp/8/8/8/8/PPPPPPPP/RNBQKBNR w KQkq - 0 1''"

section \<open>Loading\<close>

text \<open>Putting a piece on a square: the cell and, for a king, the king table.\<close>

definition place :: "piece \<Rightarrow> int \<Rightarrow> board \<times> (color \<Rightarrow> int) \<Rightarrow> board \<times> (color \<Rightarrow> int)" where
  "place p sq bk = (case bk of (b, k) \<Rightarrow>
     (b(sq := Some p), if kind_of p = King then k(color_of p := sq) else k))"

fun load_row :: "int \<Rightarrow> string \<Rightarrow> int \<Rightarrow> board \<times> (color \<Rightarrow> int) \<Rightarrow>
    fen_error option \<times> int \<times> board \<times> (color \<Rightarrow> int)" where
  "load_row rankIndex [] file bk = (None, file, bk)"
| "load_row rankIndex (ch # rest) file bk =
     (if is_digit ch \<and> 1 \<le> char_digit ch \<and> char_digit ch \<le> 8
      then load_row rankIndex rest (file + int (char_digit ch)) bk
      else (case char_kind (to_lower ch) of
              None \<Rightarrow> (Some (BadPiece ch), file, bk)
            | Some type \<Rightarrow>
                let color = (if ch = to_upper ch then White else Black)
                in load_row rankIndex rest (file + 1) (place (pc type color) (rankIndex * 16 + file) bk)))"

text \<open>The loop over the eight rows; \<open>i\<close> counts them from rank 8 down.\<close>

fun load_ranks :: "int \<Rightarrow> string list \<Rightarrow> board \<times> (color \<Rightarrow> int) \<Rightarrow>
    fen_error option \<times> board \<times> (color \<Rightarrow> int)" where
  "load_ranks i [] bk = (None, bk)"
| "load_ranks i (row # rows) bk =
     (case load_row (7 - i) row 0 bk of
        (Some e, _, bk') \<Rightarrow> (Some e, bk')
      | (None, file, bk') \<Rightarrow>
          if file \<noteq> 8 then (Some (WrongLength (8 - i)), bk') else load_ranks (i + 1) rows bk')"

definition or_default :: "int option \<Rightarrow> int \<Rightarrow> int" where
  "or_default v d = (case v of None \<Rightarrow> d | Some x \<Rightarrow> if x = 0 then d else x)"

definition castling_flags :: "string \<Rightarrow> int" where
  "castling_flags s =
     (let c0 = (0 :: int);
          c1 = (if CHR ''K'' \<in> set s then c0 OR CASTLE_WK else c0);
          c2 = (if CHR ''Q'' \<in> set s then c1 OR CASTLE_WQ else c1);
          c3 = (if CHR ''k'' \<in> set s then c2 OR CASTLE_BK else c2)
      in if CHR ''q'' \<in> set s then c3 OR CASTLE_BQ else c3)"

definition load :: "chess \<Rightarrow> string \<Rightarrow> chess \<times> fen_error option" where
  "load g fen_str =
     (let parts = split_ws fen_str
      in if length parts < 4 then (g, Some NotEnoughFields)
         else let placement = parts ! 0; active = parts ! 1; castling_s = parts ! 2; ep_s = parts ! 3;
                  halfmoves_s = (if length parts > 4 then parts ! 4 else ''0'');
                  fullmoves_s = (if length parts > 5 then parts ! 5 else ''1'');
                  g1 = g\<lparr>board := (\<lambda>_. None), kings := (\<lambda>_. -1)\<rparr>;
                  ranks = split_on CHR ''/'' placement
              in if length ranks \<noteq> 8 then (g1, Some NotEightRanks)
                 else (case load_ranks 0 ranks (\<lambda>_. None, \<lambda>_. -1) of
                    (Some e, b, k) \<Rightarrow> (g1\<lparr>board := b, kings := k\<rparr>, Some e)
                  | (None, b, k) \<Rightarrow>
                      (g1\<lparr>board := b, kings := k,
                          turn := (if active = ''b'' then Black else White),
                          castling := castling_flags castling_s,
                          ep := (if ep_s \<noteq> [] \<and> ep_s \<noteq> ''-'' then squareFromAlgebraic ep_s else -1),
                          halfmoves := or_default (parse_int halfmoves_s) 0,
                          fullmoves := or_default (parse_int fullmoves_s) 1,
                          history := []\<rparr>, None)))"

text \<open>The fields before the constructor calls \<^verbatim>\<open>load\<close>.\<close>

definition blank_chess :: chess where
  "blank_chess = \<lparr>board = (\<lambda>_. None), turn = White, castling = 0, ep = -1, halfmoves = 0,
     fullmoves = 1, kings = (\<lambda>_. -1), history = []\<rparr>"

text \<open>\<^verbatim>\<open>new Chess(fen)\<close>: the error it throws, or the new game.\<close>

definition new_chess :: "string option \<Rightarrow> fen_error + chess" where
  "new_chess fen_opt =
     (let s = (case fen_opt of None \<Rightarrow> DEFAULT_FEN | Some f \<Rightarrow> if f = [] then DEFAULT_FEN else f)
      in case load blank_chess s of (g, None) \<Rightarrow> Inr g | (_, Some e) \<Rightarrow> Inl e)"

section \<open>Printing\<close>

definition piece_char :: "piece \<Rightarrow> char" where
  "piece_char p = (if color_of p = White then to_upper (kind_char (kind_of p)) else kind_char (kind_of p))"

text \<open>One row: \<open>free\<close> counts the free squares not printed yet.\<close>

fun fen_cells :: "board \<Rightarrow> int \<Rightarrow> int list \<Rightarrow> nat \<Rightarrow> string" where
  "fen_cells b r [] free = (if free > 0 then show_nat free else [])"
| "fen_cells b r (f # fs) free =
     (case b (r * 16 + f) of
        None \<Rightarrow> fen_cells b r fs (Suc free)
      | Some p \<Rightarrow> (if free > 0 then show_nat free else []) @ piece_char p # fen_cells b r fs 0)"

definition fen_row :: "board \<Rightarrow> int \<Rightarrow> string" where
  "fen_row b r = fen_cells b r [0, 1, 2, 3, 4, 5, 6, 7] 0"

definition fen_placement :: "board \<Rightarrow> string" where
  "fen_placement b =
     concat (map (\<lambda>r. fen_row b r @ (if r > 0 then ''/'' else [])) [7, 6, 5, 4, 3, 2, 1, 0])"

definition fen_castling :: "int \<Rightarrow> string" where
  "fen_castling c =
     (let s = (if c AND CASTLE_WK \<noteq> 0 then ''K'' else []) @ (if c AND CASTLE_WQ \<noteq> 0 then ''Q'' else []) @
              (if c AND CASTLE_BK \<noteq> 0 then ''k'' else []) @ (if c AND CASTLE_BQ \<noteq> 0 then ''q'' else [])
      in if s = [] then ''-'' else s)"

definition fen :: "chess \<Rightarrow> string" where
  "fen g = join_with '' ''
     [fen_placement (board g),
      (case turn g of White \<Rightarrow> ''w'' | Black \<Rightarrow> ''b''),
      fen_castling (castling g),
      (if ep g \<ge> 0 then algebraic (ep g) else ''-''),
      show_int (halfmoves g),
      show_int (fullmoves g)]"

section \<open>Queries\<close>

definition get :: "chess \<Rightarrow> string \<Rightarrow> piece option" where
  "get g square = (let sq = squareFromAlgebraic square in if sq < 0 then None else board g sq)"

definition board_view :: "chess \<Rightarrow> piece option list list" where
  "board_view g = map (\<lambda>r. map (\<lambda>f. board g (r * 16 + f)) [0, 1, 2, 3, 4, 5, 6, 7]) [7, 6, 5, 4, 3, 2, 1, 0]"

definition history_view :: "chess \<Rightarrow> pub_move list" where
  "history_view g = map h_move (history g)"

section \<open>The round trip\<close>

lemma letter_case [simp]:
  "to_upper CHR ''p'' = CHR ''P''" "to_upper CHR ''n'' = CHR ''N''" "to_upper CHR ''b'' = CHR ''B''"
  "to_upper CHR ''r'' = CHR ''R''" "to_upper CHR ''q'' = CHR ''Q''" "to_upper CHR ''k'' = CHR ''K''"
  "to_upper CHR ''P'' = CHR ''P''" "to_upper CHR ''N'' = CHR ''N''" "to_upper CHR ''B'' = CHR ''B''"
  "to_upper CHR ''R'' = CHR ''R''" "to_upper CHR ''Q'' = CHR ''Q''" "to_upper CHR ''K'' = CHR ''K''"
  "to_lower CHR ''p'' = CHR ''p''" "to_lower CHR ''n'' = CHR ''n''" "to_lower CHR ''b'' = CHR ''b''"
  "to_lower CHR ''r'' = CHR ''r''" "to_lower CHR ''q'' = CHR ''q''" "to_lower CHR ''k'' = CHR ''k''"
  "to_lower CHR ''P'' = CHR ''p''" "to_lower CHR ''N'' = CHR ''n''" "to_lower CHR ''B'' = CHR ''b''"
  "to_lower CHR ''R'' = CHR ''r''" "to_lower CHR ''Q'' = CHR ''q''" "to_lower CHR ''K'' = CHR ''k''"
  by code_simp+

lemma char_kind_piece_char [simp]: "char_kind (to_lower (piece_char p)) = Some (kind_of p)"
  by (cases "kind_of p"; cases "color_of p")
    (simp_all add: piece_char_def char_kind_def)

lemma piece_char_upper: "(piece_char p = to_upper (piece_char p)) \<longleftrightarrow> color_of p = White"
  by (cases "kind_of p"; cases "color_of p") (simp_all add: piece_char_def)

lemma piece_char_props [simp]:
  "\<not> is_digit (piece_char p)" "piece_char p \<noteq> CHR ''1''" "piece_char p \<noteq> CHR ''/''" "\<not> is_space (piece_char p)"
  by (cases "kind_of p"; cases "color_of p";
      simp add: piece_char_def is_digit_def is_space_def Let_def)+

lemma show_nat_small: "n < 10 \<Longrightarrow> show_nat n = [digit_char n]"
  by (simp add: show_nat.simps)

lemma digit_char_props [simp]:
  "n < 10 \<Longrightarrow> digit_char n \<noteq> CHR ''/''" "n < 10 \<Longrightarrow> \<not> is_space (digit_char n)"
proof -
  assume "n < 10"
  then have d: "is_digit (digit_char n)" by simp
  moreover have "\<not> is_digit CHR ''/''" by (simp add: is_digit_def)
  ultimately show "digit_char n \<noteq> CHR ''/''" by metis
  show "\<not> is_space (digit_char n)" using d is_digit_not_space by blast
qed

lemma load_row_piece:
  "load_row r (piece_char p # rest) fl bk = load_row r rest (fl + 1) (place p (r * 16 + fl) bk)"
proof -
  have "pc (kind_of p) (if piece_char p = to_upper (piece_char p) then White else Black) = p"
    using piece_char_upper [of p] by (cases "color_of p") auto
  then show ?thesis by (simp add: Let_def)
qed

lemma load_row_gap:
  "0 < n \<Longrightarrow> n \<le> 8 \<Longrightarrow> load_row r (show_nat n @ rest) fl bk = load_row r rest (fl + int n) bk"
  by (simp add: show_nat_small)

text \<open>Reading a printed row places exactly its pieces, left to right.\<close>

definition place_cell :: "board \<Rightarrow> int \<Rightarrow> board \<times> (color \<Rightarrow> int) \<Rightarrow> board \<times> (color \<Rightarrow> int)" where
  "place_cell b sq bk = (case b sq of None \<Rightarrow> bk | Some p \<Rightarrow> place p sq bk)"

lemma load_row_fen_cells:
  assumes "length fs + e \<le> 8" "\<And>i. i < length fs \<Longrightarrow> fs ! i = f + int i" "f = fl + int e"
  shows "load_row r (fen_cells b r fs e) fl bk =
           (None, f + int (length fs), fold (\<lambda>k. place_cell b (r * 16 + k)) fs bk)"
  using assms
proof (induction fs arbitrary: e f fl bk)
  case Nil
  then show ?case using load_row_gap [of e r "[]" fl bk] by simp
next
  case (Cons k ks)
  have k: "k = f" using Cons.prems(2) [of 0] by simp
  have ks: "ks ! i = (f + 1) + int i" if "i < length ks" for i
    using Cons.prems(2) [of "Suc i"] that by simp
  show ?case
  proof (cases "b (r * 16 + k)")
    case None
    then show ?thesis
      using Cons.IH [of "Suc e" "f + 1" fl bk] Cons.prems ks by (simp add: place_cell_def k)
  next
    case (Some p)
    have "load_row r (fen_cells b r (k # ks) e) fl bk =
        load_row r (piece_char p # fen_cells b r ks 0) (fl + int e) bk"
      using load_row_gap [of e r "piece_char p # fen_cells b r ks 0" fl bk] Cons.prems(1) Some by simp
    also have "\<dots> = load_row r (fen_cells b r ks 0) (f + 1) (place p (r * 16 + f) bk)"
      using load_row_piece Cons.prems(3) by simp
    also have "\<dots> = (None, f + 1 + int (length ks), fold (\<lambda>k. place_cell b (r * 16 + k)) ks (place p (r * 16 + f) bk))"
      using Cons.IH [of 0 "f + 1" "f + 1"] Cons.prems(1) ks by simp
    also have "place p (r * 16 + f) bk = place_cell b (r * 16 + k) bk"
      using Some by (simp add: place_cell_def k)
    finally show ?thesis by simp
  qed
qed

lemma load_row_fen_row:
  "load_row r (fen_row b r) 0 bk = (None, 8, fold (\<lambda>k. place_cell b (r * 16 + k)) [0, 1, 2, 3, 4, 5, 6, 7] bk)"
proof -
  have "[0, 1, 2, 3, 4, 5, 6, 7] ! i = int i" if "i < 8" for i
  proof -
    have "i \<in> {0, 1, 2, 3, 4, 5, 6, 7}" using that by auto
    then show ?thesis by auto
  qed
  then show ?thesis
    unfolding fen_row_def by (subst load_row_fen_cells [where f = 0]) simp_all
qed

lemma fen_cells_chars:
  "length fs + e < 10 \<Longrightarrow> c \<in> set (fen_cells b r fs e) \<Longrightarrow> c \<noteq> CHR ''/'' \<and> \<not> is_space c"
  by (induction fs arbitrary: e) (force simp: show_nat_small split: option.splits if_splits)+

lemma fen_row_chars: "c \<in> set (fen_row b r) \<Longrightarrow> c \<noteq> CHR ''/'' \<and> \<not> is_space c"
  unfolding fen_row_def using fen_cells_chars [of "[0, 1, 2, 3, 4, 5, 6, 7]" 0 c b r] by simp

lemma fen_placement_join:
  "fen_placement b = join_with ''/'' (map (fen_row b) [7, 6, 5, 4, 3, 2, 1, 0])"
  by (simp add: fen_placement_def)

lemma split_fen_placement:
  "split_on CHR ''/'' (fen_placement b) = map (fen_row b) [7, 6, 5, 4, 3, 2, 1, 0]"
  unfolding fen_placement_join by (rule split_on_join_with) (auto dest: fen_row_chars)

lemma load_ranks_rows:
  "(\<And>i. i < length rs \<Longrightarrow> rs ! i = 7 - (j + int i)) \<Longrightarrow>
     load_ranks j (map (fen_row b) rs) bk =
       (None, fold (\<lambda>r. fold (\<lambda>k. place_cell b (r * 16 + k)) [0, 1, 2, 3, 4, 5, 6, 7]) rs bk)"
proof (induction rs arbitrary: j bk)
  case Nil
  then show ?case by simp
next
  case (Cons r rs)
  have r: "7 - j = r" using Cons.prems [of 0] by simp
  have "rs ! i = 7 - (j + 1 + int i)" if "i < length rs" for i
    using Cons.prems [of "Suc i"] that by simp
  then show ?case using Cons.IH [of "j + 1"] by (simp add: r load_row_fen_row del: fold_simps(2))
qed

text \<open>The squares in the order the rows list them.\<close>

definition fen_squares :: "int list" where
  "fen_squares = concat (map (\<lambda>r. map (\<lambda>f. r * 16 + f) [0, 1, 2, 3, 4, 5, 6, 7]) [7, 6, 5, 4, 3, 2, 1, 0])"

lemma set_fen_squares: "set fen_squares = {sq. on_sq sq}"
proof -
  have "set fen_squares = set all_squares"
    by (simp add: all_squares_ranks fen_squares_def upto.simps) blast
  then show ?thesis by simp
qed

lemma load_ranks_placement:
  "load_ranks 0 (split_on CHR ''/'' (fen_placement b)) bk = (None, fold (place_cell b) fen_squares bk)"
proof -
  have "[7, 6, 5, 4, 3, 2, 1, 0] ! i = 7 - (0 + int i)" if "i < 8" for i
  proof -
    have "i \<in> {0, 1, 2, 3, 4, 5, 6, 7}" using that by auto
    then show ?thesis by auto
  qed
  then have "load_ranks 0 (map (fen_row b) [7, 6, 5, 4, 3, 2, 1, 0]) bk =
     (None, fold (\<lambda>r. fold (\<lambda>k. place_cell b (r * 16 + k)) [0, 1, 2, 3, 4, 5, 6, 7]) [7, 6, 5, 4, 3, 2, 1, 0] bk)"
    by (intro load_ranks_rows) simp
  then show ?thesis unfolding split_fen_placement by (simp add: fen_squares_def)
qed

lemma fold_place_cell:
  "fst (fold (place_cell b) sqs bk) sq = (if sq \<in> set sqs \<and> b sq \<noteq> None then b sq else fst bk sq)"
proof (induction sqs arbitrary: bk)
  case (Cons s sqs)
  then show ?case by (auto simp: place_cell_def place_def split: option.splits prod.splits)
qed simp

lemma fold_place_kings:
  assumes "\<And>sq. b sq = Some (pc King c) \<longleftrightarrow> sq = k"
  shows "snd (fold (place_cell b) sqs bk) c = (if k \<in> set sqs then k else snd bk c)"
proof (induction sqs arbitrary: bk)
  case (Cons s sqs)
  have "snd (place_cell b s bk) c = (if s = k then k else snd bk c)"
  proof (cases "b s")
    case None
    then show ?thesis using assms [of s] by (auto simp: place_cell_def)
  next
    case (Some p)
    have "p = pc King c \<longleftrightarrow> kind_of p = King \<and> color_of p = c" by auto
    then show ?thesis using assms [of s] Some by (auto simp: place_cell_def place_def split: prod.splits)
  qed
  then show ?case using Cons by auto
qed simp

lemma fold_place_no_king:
  assumes "\<And>sq. b sq \<noteq> Some (pc King c)"
  shows "snd (fold (place_cell b) sqs bk) c = snd bk c"
proof (induction sqs arbitrary: bk)
  case (Cons s sqs)
  have "snd (place_cell b s bk) c = snd bk c"
  proof (cases "b s")
    case (Some p)
    have "p = pc King c \<longleftrightarrow> kind_of p = King \<and> color_of p = c" by auto
    then show ?thesis using assms [of s] Some by (auto simp: place_cell_def place_def split: prod.splits)
  qed (simp add: place_cell_def)
  then show ?case using Cons by simp
qed simp

lemma load_board_kings:
  assumes "board_ok g" "kings_ok g"
  shows "fold (place_cell (board g)) fen_squares (\<lambda>_. None, \<lambda>_. -1) = (board g, kings g)"
proof -
  let ?r = "fold (place_cell (board g)) fen_squares (\<lambda>_. None, \<lambda>_. -1)"
  have "fst ?r = board g"
    using assms(1) by (force simp: fun_eq_iff fold_place_cell set_fen_squares board_ok_def)
  moreover have "snd ?r c = kings g c" for c
  proof (cases "kings g c = -1 \<and> (\<forall>sq. board g sq \<noteq> Some (pc King c))")
    case True
    then show ?thesis by (simp add: fold_place_no_king)
  next
    case False
    then have "on_sq (kings g c)" "\<And>sq. board g sq = Some (pc King c) \<longleftrightarrow> sq = kings g c"
      using assms(2) unfolding kings_ok_def by blast+
    then show ?thesis by (simp add: fold_place_kings set_fen_squares)
  qed
  ultimately show ?thesis by (simp add: prod_eq_iff fun_eq_iff)
qed

lemma and_flag_bit:
  "c AND CASTLE_WK \<noteq> 0 \<longleftrightarrow> bit c 0" "c AND CASTLE_WQ \<noteq> 0 \<longleftrightarrow> bit c 1"
  "c AND CASTLE_BK \<noteq> 0 \<longleftrightarrow> bit c 2" "c AND CASTLE_BQ \<noteq> 0 \<longleftrightarrow> bit c (3 :: nat)" for c :: int
proof -
  have p: "c AND push_bit n 1 \<noteq> 0 \<longleftrightarrow> bit c n" for n
  proof -
    have "bit (c AND push_bit n 1) i \<longleftrightarrow> i = n \<and> bit c n" for i
      by (auto simp: bit_and_iff bit_push_bit_iff bit_1_iff simp del: push_bit_of_1)
    then show ?thesis by (metis bit_0_eq bot_apply bot_bool_def bit_eq_iff)
  qed
  show "c AND CASTLE_WK \<noteq> 0 \<longleftrightarrow> bit c 0" "c AND CASTLE_WQ \<noteq> 0 \<longleftrightarrow> bit c 1"
    "c AND CASTLE_BK \<noteq> 0 \<longleftrightarrow> bit c 2" "c AND CASTLE_BQ \<noteq> 0 \<longleftrightarrow> bit c 3"
    using p [of 0] p [of 1] p [of 2] p [of 3]
    by (simp_all add: CASTLE_WK_def CASTLE_WQ_def CASTLE_BK_def CASTLE_BQ_def)
qed

lemma castling_flags_fen_castling:
  assumes "0 \<le> c" "c < 16"
  shows "castling_flags (fen_castling c) = c"
proof -
  have "c \<in> {0, 1, 2, 3, 4, 5, 6, 7, 8, 9, 10, 11, 12, 13, 14, 15}"
    using assms unfolding insert_iff empty_iff by presburger
  then show ?thesis
    by (elim insertE emptyE)
      (simp_all add: castling_flags_def fen_castling_def CASTLE_WK_def CASTLE_WQ_def CASTLE_BK_def CASTLE_BQ_def)
qed

lemma fen_castling_chars: "c \<in> set (fen_castling k) \<Longrightarrow> \<not> is_space c"
  by (auto simp: fen_castling_def is_space_def Let_def split: if_splits)

lemma fen_castling_nonempty: "fen_castling k \<noteq> []"
  by (simp add: fen_castling_def Let_def)

lemma show_nat_no_space: "c \<in> set (show_nat n) \<Longrightarrow> \<not> is_space c"
  using show_nat_digits is_digit_not_space by blast

lemma parse_int_show_int: "0 \<le> i \<Longrightarrow> parse_int (show_int i) = Some i"
  by (simp add: show_int_def)

lemma show_int_no_space: "c \<in> set (show_int i) \<Longrightarrow> \<not> is_space c"
  using show_nat_no_space by (auto simp: show_int_def is_space_def Let_def split: if_splits)

lemma show_int_nonempty: "show_int i \<noteq> []"
  by (simp add: show_int_def)

lemma algebraic_chars:
  assumes "on_sq sq" "c \<in> set (algebraic sq)"
  shows "\<not> is_space c"
proof -
  have f: "nat (fileOf sq) < 8" and r: "nat (rankOf sq) + 1 < 10"
    using assms(1) by (auto simp: on_sq_rank_file)
  have "(of_char (''abcdefgh'' ! nat (fileOf sq)) :: nat) = 97 + nat (fileOf sq)"
    using char_of_table f by simp
  then have "\<not> is_space (''abcdefgh'' ! nat (fileOf sq))"
    using f by (simp add: is_space_def Let_def)
  then show ?thesis using assms(2) r by (auto simp: algebraic_form [OF assms(1)])
qed

lemma algebraic_not_dash: "on_sq sq \<Longrightarrow> algebraic sq \<noteq> ''-''" "on_sq sq \<Longrightarrow> algebraic sq \<noteq> []"
  by (simp_all add: algebraic_form)

text \<open>Six non-free fields without blanks are split where they were joined.\<close>

lemma split_ws_join:
  assumes "xs \<noteq> []" "\<And>x. x \<in> set xs \<Longrightarrow> x \<noteq> []" "\<And>x c. x \<in> set xs \<Longrightarrow> c \<in> set x \<Longrightarrow> \<not> is_space c"
  shows "split_ws (join_with '' '' xs) = xs"
proof -
  have ne: "join_with '' '' ys \<noteq> [] \<and> \<not> is_space (hd (join_with '' '' ys)) \<and> \<not> is_space (last (join_with '' '' ys))"
    if "ys \<noteq> []" "\<And>x. x \<in> set ys \<Longrightarrow> x \<noteq> []" "\<And>x c. x \<in> set ys \<Longrightarrow> c \<in> set x \<Longrightarrow> \<not> is_space c" for ys
    using that
  proof (induction "'' ''" ys rule: join_with.induct)
    case 1
    then show ?case by simp
  next
    case (2 x)
    then show ?case by (metis join_with.simps(2) hd_in_set last_in_set list.set_intros(1))
  next
    case (3 x y zs)
    then have "join_with '' '' (y # zs) \<noteq> []" "\<not> is_space (last (join_with '' '' (y # zs)))" by auto
    moreover have "x \<noteq> []" using "3.prems" by auto
    moreover from this have "\<not> is_space (hd x)" using "3.prems"(3) [of x "hd x"] by simp
    ultimately show ?case by simp
  qed
  have tok: "tokens_ws (join_with '' '' ys) = ys"
    if "ys \<noteq> []" "\<And>x. x \<in> set ys \<Longrightarrow> x \<noteq> []" "\<And>x c. x \<in> set ys \<Longrightarrow> c \<in> set x \<Longrightarrow> \<not> is_space c" for ys
    using that
  proof (induction "'' ''" ys rule: join_with.induct)
    case 1
    then show ?case by simp
  next
    case (2 x)
    then show ?case by (simp add: tokens_ws_token)
  next
    case (3 x y zs)
    then have "tokens_ws (x @ CHR '' '' # join_with '' '' (y # zs)) = x # tokens_ws (join_with '' '' (y # zs))"
      using ne [of "y # zs"] by (intro tokens_ws_cons) auto
    moreover have "tokens_ws (join_with '' '' (y # zs)) = y # zs"
    proof (rule 3(1))
      show "w \<noteq> []" if "w \<in> set (y # zs)" for w
        using "3.prems"(2) [of w] that by simp
      show "\<not> is_space c" if "w \<in> set (y # zs)" "c \<in> set w" for w c
        using "3.prems"(3) [of w c] that by simp
    qed simp
    ultimately show ?case by simp
  qed
  show ?thesis
    using ne [OF assms(1,2,3)] tok [OF assms(1,2,3)] by (simp add: split_ws_def trim_ws_id)
qed

text \<open>
  The games the round trip is about: pieces on the board only, the king table right, castling
  flags in four bits, an en-passant square on the board or absent, counters as FEN has them.
\<close>

definition fen_ok :: "chess \<Rightarrow> bool" where
  "fen_ok g \<longleftrightarrow> board_ok g \<and> kings_ok g \<and> 0 \<le> castling g \<and> castling g < 16 \<and>
     (ep g = -1 \<or> on_sq (ep g)) \<and> 0 \<le> halfmoves g \<and> 1 \<le> fullmoves g"

lemma in_six: "x \<in> set [a, b, c, d, e, f] \<Longrightarrow> P a \<Longrightarrow> P b \<Longrightarrow> P c \<Longrightarrow> P d \<Longrightarrow> P e \<Longrightarrow> P f \<Longrightarrow> P x"
  by auto

lemma split_fen:
  assumes "fen_ok g"
  shows "split_ws (fen g) =
    [fen_placement (board g), (case turn g of White \<Rightarrow> ''w'' | Black \<Rightarrow> ''b''), fen_castling (castling g),
     (if ep g \<ge> 0 then algebraic (ep g) else ''-''), show_int (halfmoves g), show_int (fullmoves g)]"
proof -
  have pl: "\<not> is_space c" if "c \<in> set (fen_placement (board g))" for c
    using that fen_row_chars by (auto simp: fen_placement_def is_space_def Let_def split: if_splits)
  have ne: "fen_placement (board g) \<noteq> []" by (simp add: fen_placement_def)
  have e: "ep g \<ge> 0 \<Longrightarrow> on_sq (ep g)" using assms by (auto simp: fen_ok_def)
  have dash: "\<not> is_space CHR ''-''" "\<not> is_space CHR ''w''" "\<not> is_space CHR ''b''"
    by (simp_all add: is_space_def Let_def)
  show ?thesis
    unfolding fen_def
  proof (rule split_ws_join, goal_cases)
    case (2 x)
    have "(case turn g of White \<Rightarrow> ''w'' | Black \<Rightarrow> ''b'') \<noteq> []" by (cases "turn g") simp_all
    moreover have "(if 0 \<le> ep g then algebraic (ep g) else ''-'') \<noteq> []"
      using e algebraic_not_dash by simp
    ultimately show ?case
      using 2 by (elim in_six [where P = "\<lambda>x. x \<noteq> []"]) (use ne fen_castling_nonempty show_int_nonempty in simp_all)
  next
    case (3 x c)
    then show ?case
      using pl e algebraic_chars dash by (auto dest: fen_castling_chars show_int_no_space split: if_splits color.splits)
  qed simp
qed

theorem load_fen:
  assumes "fen_ok g"
  shows "load h (fen g) = (g\<lparr>history := []\<rparr>, None)"
proof -
  have parts: "board_ok g" "kings_ok g" "0 \<le> castling g" "castling g < 16"
    "ep g = -1 \<or> on_sq (ep g)" "0 \<le> halfmoves g" "1 \<le> fullmoves g"
    using assms by (auto simp: fen_ok_def)
  have lr: "load_ranks 0 (split_on CHR ''/'' (fen_placement (board g))) (\<lambda>_. None, \<lambda>_. -1) = (None, board g, kings g)"
    by (simp add: load_ranks_placement load_board_kings parts(1,2))
  have len: "length (split_on CHR ''/'' (fen_placement (board g))) = 8"
    by (simp add: split_fen_placement)
  have ep: "(if (if ep g \<ge> 0 then algebraic (ep g) else ''-'') \<noteq> [] \<and> (if ep g \<ge> 0 then algebraic (ep g) else ''-'') \<noteq> ''-''
      then squareFromAlgebraic (if ep g \<ge> 0 then algebraic (ep g) else ''-'') else -1) = ep g"
    using parts(5) algebraic_not_dash by (auto simp: on_sq_def)
  have act: "(if (case turn g of White \<Rightarrow> ''w'' | Black \<Rightarrow> ''b'') = ''b'' then Black else White) = turn g"
    by (cases "turn g") auto
  have num: "or_default (parse_int (show_int (halfmoves g))) 0 = halfmoves g"
    "or_default (parse_int (show_int (fullmoves g))) 1 = fullmoves g"
    using parts(6,7) by (simp_all add: parse_int_show_int or_default_def)
  show ?thesis
    unfolding load_def split_fen [OF assms] Let_def
    using parts(5) algebraic_not_dash
    by (intro prod_eqI chess.equality)
      (auto simp: lr len act num castling_flags_fen_castling parts(3,4) on_sq_def)
qed

end
