(* ===== verification/ChessGame.thy ===== *)
theory ChessGame
  imports ChessFen
begin

text \<open>
  Legal moves, the public operations \<^verbatim>\<open>moves\<close>, \<^verbatim>\<open>move\<close> and \<^verbatim>\<open>undo\<close>, the end of the
  game and \<^verbatim>\<open>perft\<close> of \<^verbatim>\<open>static/chess-engine.js\<close>. The code filters moves by making
  each of them on the one board and undoing it; every operation here therefore returns the game it
  leaves behind beside its result, and that this game is the one it was given is a theorem.
\<close>

section \<open>Operations\<close>

fun legal_loop :: "chess \<Rightarrow> move_record list \<Rightarrow> move_record list \<times> chess" where
  "legal_loop g [] = ([], g)"
| "legal_loop g (m # ms) =
     (let (g1, m1) = makeMoveInternal g m;
          movedColor = (if turn g1 = White then Black else White);
          keep = \<not> isKingAttacked g1 movedColor;
          (legal, g2) = legal_loop (undoMoveInternal g1 m1) ms
      in (if keep then m1 # legal else legal, g2))"

definition legalMoves :: "chess \<Rightarrow> int option \<Rightarrow> move_record list \<times> chess" where
  "legalMoves g onlyFrom = legal_loop g (generatePseudoMoves g onlyFrom)"

definition pub :: "move_record \<Rightarrow> pub_move" where
  "pub m = \<lparr>pm_from = algebraic (m_from m), pm_to = algebraic (m_to m), pm_promotion = m_promotion m\<rparr>"

definition moves :: "chess \<Rightarrow> string option \<Rightarrow> pub_move list \<times> chess" where
  "moves g square =
     (case square of
        None \<Rightarrow> (let (legal, g') = legalMoves g None in (map pub legal, g'))
      | Some s \<Rightarrow>
          (let onlyFrom = squareFromAlgebraic s
           in if onlyFrom < 0 then ([], g)
              else (let (legal, g') = legalMoves g (Some onlyFrom) in (map pub legal, g'))))"

text \<open>The test of the loop that picks the move; an absent or empty \<^verbatim>\<open>promotion\<close> asks for a queen.\<close>

definition chosen_by :: "int \<Rightarrow> int \<Rightarrow> string option \<Rightarrow> move_record \<Rightarrow> bool" where
  "chosen_by fromSq toSq promotion m \<longleftrightarrow>
     m_from m = fromSq \<and> m_to m = toSq \<and>
     (case m_promotion m of
        None \<Rightarrow> True
      | Some k \<Rightarrow>
          (case promotion of
             None \<Rightarrow> k = Queen
           | Some s \<Rightarrow> if s = [] then k = Queen else [kind_char k] = s))"

definition move :: "chess \<Rightarrow> string \<Rightarrow> string \<Rightarrow> string option \<Rightarrow> pub_move option \<times> chess" where
  "move g from to promotion =
     (let fromSq = squareFromAlgebraic from; toSq = squareFromAlgebraic to
      in if fromSq < 0 \<or> toSq < 0 then (None, g)
         else (let (legal, g1) = legalMoves g (Some fromSq)
               in (case List.find (chosen_by fromSq toSq promotion) legal of
                     None \<Rightarrow> (None, g1)
                   | Some chosen \<Rightarrow>
                       (let (g2, chosen') = makeMoveInternal g1 chosen
                        in (Some (pub chosen'),
                            g2\<lparr>history := history g2 @ [\<lparr>h_move = pub chosen', h_internal = chosen'\<rparr>]\<rparr>)))))"

definition undo :: "chess \<Rightarrow> pub_move option \<times> chess" where
  "undo g =
     (if history g = [] then (None, g)
      else (let entry = last (history g); g1 = g\<lparr>history := butlast (history g)\<rparr>
            in (Some (h_move entry), undoMoveInternal g1 (h_internal entry))))"

section \<open>The end of the game\<close>

definition isCheckmate :: "chess \<Rightarrow> bool \<times> chess" where
  "isCheckmate g =
     (if inCheck g then (let (legal, g') = legalMoves g None in (legal = [], g')) else (False, g))"

definition isStalemate :: "chess \<Rightarrow> bool \<times> chess" where
  "isStalemate g =
     (if \<not> inCheck g then (let (legal, g') = legalMoves g None in (legal = [], g')) else (False, g))"

definition pieces_of :: "board \<Rightarrow> color \<Rightarrow> (kind \<times> int) list" where
  "pieces_of b c =
     concat (map (\<lambda>sq. case b sq of None \<Rightarrow> [] | Some p \<Rightarrow> if color_of p = c then [(kind_of p, sq)] else [])
       all_squares)"

definition sqColor :: "int \<Rightarrow> int" where
  "sqColor sq = (rankOf sq + fileOf sq) mod 2"

definition insufficientMaterial :: "chess \<Rightarrow> bool" where
  "insufficientMaterial g =
     (let w = pieces_of (board g) White; b = pieces_of (board g) Black; all = w @ b;
          total = length all
      in if \<exists>p \<in> set all. fst p = Pawn \<or> fst p = Rook \<or> fst p = Queen then False
         else if total = 2 then True
         else if total = 3 then True
         else if total = 4
         then (let bishops = filter (\<lambda>p. fst p = Bishop) all
               in length bishops = 2 \<and> length w = 2 \<and> length b = 2 \<and>
                  sqColor (snd (bishops ! 0)) = sqColor (snd (bishops ! 1)))
         else False)"

definition isDraw :: "chess \<Rightarrow> bool \<times> chess" where
  "isDraw g =
     (if halfmoves g \<ge> 100 then (True, g)
      else if insufficientMaterial g then (True, g)
      else isStalemate g)"

text \<open>\<open>||\<close> stops at the first true disjunct; each one leaves a game for the next.\<close>

definition isGameOver :: "chess \<Rightarrow> bool \<times> chess" where
  "isGameOver g =
     (let (mate, g1) = isCheckmate g
      in if mate then (True, g1)
         else (let (stale, g2) = isStalemate g1 in if stale then (True, g2) else isDraw g2))"

definition result :: "chess \<Rightarrow> string option \<times> chess" where
  "result g =
     (let (mate, g1) = isCheckmate g
      in if mate then (Some (if turn g1 = White then ''0-1'' else ''1-0''), g1)
         else (let (stale, g2) = isStalemate g1
               in if stale then (Some ''1/2-1/2'', g2)
                  else (let (draw, g3) = isDraw g2
                        in (if draw then Some ''1/2-1/2'' else None, g3))))"

primrec perft :: "nat \<Rightarrow> chess \<Rightarrow> nat \<times> chess" where
  "perft 0 = (\<lambda>g. (1, g))"
| "perft (Suc depth) = (\<lambda>g.
     let us = turn g
     in fold (\<lambda>m (nodes, h).
          let (h1, m1) = makeMoveInternal h m;
              (n, h2) = (if \<not> isKingAttacked h1 us then perft depth h1 else (0, h1))
          in (nodes + n, undoMoveInternal h2 m1))
        (generatePseudoMoves g None) (0, g))"

section \<open>Honest positions\<close>

text \<open>
  What every position reached by legal play has, and what a FEN must have for the code to be right
  on it: one king of each colour where the table says, the en-passant square empty with the enemy
  pawn that just passed it next to it, castling rights only with king and rook at home, and the side that
  just moved not in check.
\<close>

definition ep_wf :: "chess \<Rightarrow> bool" where
  "ep_wf g \<longleftrightarrow> ep g = -1 \<or>
     (on_sq (ep g) \<and> rankOf (ep g) = (if turn g = White then 5 else 2) \<and> board g (ep g) = None \<and>
      board g (if turn g = White then ep g - 16 else ep g + 16) = Some (pc Pawn (opp (turn g))))"

definition kings_wf :: "chess \<Rightarrow> bool" where
  "kings_wf g \<longleftrightarrow> (\<forall>c. on_sq (kings g c) \<and> (\<forall>sq. board g sq = Some (pc King c) \<longleftrightarrow> sq = kings g c))"

text \<open>Bit \<open>n\<close> of the rights, the colour it belongs to and the home square of its rook.\<close>

definition castle_table :: "(nat \<times> color \<times> int) set" where
  "castle_table = {(0, White, 7), (1, White, 0), (2, Black, 119), (3, Black, 112)}"

definition castle_wf :: "chess \<Rightarrow> bool" where
  "castle_wf g \<longleftrightarrow> 0 \<le> castling g \<and> castling g < 16 \<and>
     (\<forall>(n, c, r) \<in> castle_table. bit (castling g) n \<longrightarrow>
        board g r = Some (pc Rook c) \<and> kings g c = rankBase c + 4)"

definition position_ok :: "chess \<Rightarrow> bool" where
  "position_ok g \<longleftrightarrow> board_ok g \<and> kings_wf g \<and> ep_wf g \<and> castle_wf g \<and>
     0 \<le> halfmoves g \<and> 1 \<le> fullmoves g \<and> \<not> isKingAttacked g (opp (turn g))"

lemma kings_wf_ok: "kings_wf g \<Longrightarrow> kings_ok g"
  by (auto simp: kings_wf_def kings_ok_def)

lemma ep_wf_ok: "ep_wf g \<Longrightarrow> ep_ok g"
  by (auto simp: ep_wf_def ep_ok_def)

lemma position_ok_fen_ok: "position_ok g \<Longrightarrow> fen_ok g"
  using kings_wf_ok by (auto simp: position_ok_def fen_ok_def castle_wf_def ep_wf_def)

lemma position_okD:
  assumes "position_ok g"
  shows "board_ok g" "kings_wf g" "ep_wf g" "castle_wf g" "kings_ok g" "ep_ok g"
    "\<not> isKingAttacked g (opp (turn g))"
  using assms kings_wf_ok ep_wf_ok by (simp_all add: position_ok_def)

section \<open>Making a legal move keeps a position honest\<close>

lemma make_sel:
  assumes "pseudo g m" "makeMoveInternal g m = (g', m')"
  shows "board g' = make_board g m" "turn g' = opp (turn g)" "history g' = history g"
    "kings g' = (if m_piece m = King then (kings g)(turn g := m_to m) else kings g)"
    "ep g' = (if m_flags m = ''b'' then m_from m + PAWN_PUSH (turn g) else -1)"
    "m' = m\<lparr>m_state := Some (saved_state g m)\<rparr>"
  using assms(2) pseudo_basic(4) [OF assms(1)]
  by (cases "turn g"; auto simp: makeMoveInternal_def opp_if Let_def)+

lemma make_sel_castling:
  assumes "pseudo g m" "makeMoveInternal g m = (g', m')"
  shows "castling g' = updateCastlingForSquare (updateCastlingForSquare
      (if m_piece m = King
       then (if turn g = White then castling g AND NOT (CASTLE_WK OR CASTLE_WQ)
             else castling g AND NOT (CASTLE_BK OR CASTLE_BQ))
       else castling g) (m_from m)) (m_to m)"
    "halfmoves g' = (if m_piece m = Pawn \<or> m_captured m \<noteq> None then 0 else halfmoves g + 1)"
    "fullmoves g' = (if turn g = Black then fullmoves g + 1 else fullmoves g)"
  using assms(2) pseudo_basic(4) [OF assms(1)] by (auto simp: makeMoveInternal_def Let_def)

text \<open>The three shapes of the board after a move.\<close>

lemma make_board_shape:
  assumes "pseudo g m"
  obtains
    (simple) k where "make_board g m = (board g)(m_from m := None, m_to m := Some (pc k (turn g)))"
      "k = King \<longleftrightarrow> m_piece m = King"
      "board g (m_to m) = None \<or> (\<exists>k. board g (m_to m) = Some (pc k (opp (turn g))) \<and> m_captured m = Some k \<and> m_flags m \<noteq> ''e'')"
  | (enpassant) "make_board g m = (board g)(victim_sq g m := None, m_from m := None, m_to m := Some (pc Pawn (turn g)))"
      "m_piece m = Pawn" "m_to m = ep g" "m_flags m = ''e''"
  | (castle) rook landing where
      "make_board g m = (board g)(m_from m := None, m_to m := Some (pc King (turn g)),
         rook := None, landing := Some (pc Rook (turn g)))"
      "board g rook = Some (pc Rook (turn g))" "board g landing = None" "board g (m_to m) = None"
      "m_piece m = King" "m_captured m = None"
      "(rook, landing, m_to m) = (rankBase (turn g) + 7, rankBase (turn g) + 5, rankBase (turn g) + 6) \<or>
       (rook, landing, m_to m) = (rankBase (turn g), rankBase (turn g) + 3, rankBase (turn g) + 2)"
proof -
  note b = pseudo_basic [OF assms]
  show thesis using assms
  proof (cases rule: pseudo_cases)
    case plain
    then have "make_board g m = (board g)(m_from m := None, m_to m := Some (pc (m_piece m) (turn g)))"
      using b by (subst make_board_simple) auto
    moreover have "board g (m_to m) = None \<or> (\<exists>k. board g (m_to m) = Some (pc k (opp (turn g))) \<and> m_captured m = Some k \<and> m_flags m \<noteq> ''e'')"
      using plain by (auto simp: plain_target_def split: option.splits)
    ultimately show ?thesis by (intro simple) simp_all
  next
    case (promote k)
    then have "make_board g m = (board g)(m_from m := None, m_to m := Some (pc k (turn g)))"
      using b by (subst make_board_simple) auto
    moreover have "board g (m_to m) = None \<or> (\<exists>k. board g (m_to m) = Some (pc k (opp (turn g))) \<and> m_captured m = Some k \<and> m_flags m \<noteq> ''e'')"
      using promote by (auto simp: plain_target_def split: option.splits)
    moreover have "k = King \<longleftrightarrow> m_piece m = King" using promote(2,5) by simp
    ultimately show ?thesis by (intro simple)
  next
    case double
    then have "make_board g m = (board g)(m_from m := None, m_to m := Some (pc Pawn (turn g)))"
      using b by (subst make_board_simple) auto
    then show ?thesis by (rule simple) (use double in simp_all)
  next
    case enpassant
    then have "make_board g m = (board g)(victim_sq g m := None, m_from m := None, m_to m := Some (pc Pawn (turn g)))"
      using b enpassant_victim [OF enpassant(6)] by (intro make_board_enpassant) (auto simp: victim_sq_def)
    then show ?thesis by (rule that(2)) (use enpassant in simp_all)
  next
    case kingside
    then have "rankBase (turn g) + 7 \<noteq> m_from m" using b by auto
    then have "make_board g m = (board g)(m_from m := None, m_to m := Some (pc King (turn g)),
        rankBase (turn g) + 7 := None, rankBase (turn g) + 5 := board g (rankBase (turn g) + 7))"
      using kingside b by (intro make_board_castle) auto
    then show ?thesis
      using castle [of "rankBase (turn g) + 7" "rankBase (turn g) + 5"] kingside by simp
  next
    case queenside
    then have "rankBase (turn g) \<noteq> m_from m" using b by auto
    then have "make_board g m = (board g)(m_from m := None, m_to m := Some (pc King (turn g)),
        rankBase (turn g) := None, rankBase (turn g) + 3 := board g (rankBase (turn g)))"
      using queenside b by (intro make_board_castle) auto
    then show ?thesis
      using castle [of "rankBase (turn g)" "rankBase (turn g) + 3"] queenside by simp
  qed
qed

lemma rankBase_squares [simp]:
  "on_sq (rankBase us)" "on_sq (rankBase us + 3)" "on_sq (rankBase us + 5)" "on_sq (rankBase us + 7)"
  using rankBase_on_sq [of 0 us] by simp_all

lemma make_board_ok:
  assumes "board_ok g" "pseudo g m"
  shows "make_board g m sq = Some p \<Longrightarrow> on_sq sq"
  using assms(2)
proof (cases rule: make_board_shape)
  case (simple k)
  assume "make_board g m sq = Some p"
  then show ?thesis using simple assms(1) pseudo_basic [OF assms(2)]
    by (auto simp: board_ok_def split: if_splits)
next
  case enpassant
  assume "make_board g m sq = Some p"
  then show ?thesis using enpassant assms(1) pseudo_basic [OF assms(2)]
    by (auto simp: board_ok_def split: if_splits)
next
  case (castle rook landing)
  assume "make_board g m sq = Some p"
  then show ?thesis using castle assms(1) pseudo_basic [OF assms(2)]
    by (auto simp: board_ok_def split: if_splits)
qed

lemma kings_wfD:
  assumes "kings_wf g"
  shows "on_sq (kings g c)" "board g sq = Some (pc King c) \<longleftrightarrow> sq = kings g c"
  using assms by (auto simp: kings_wf_def)

text \<open>The squares of the two kings after a move that captures no king.\<close>

lemma make_board_king:
  assumes "kings_wf g" "ep_wf g" "pseudo g m" "board g (m_to m) \<noteq> Some (pc King (opp (turn g)))"
  shows "make_board g m sq = Some (pc King c) \<longleftrightarrow>
           sq = (if m_piece m = King then (kings g)(turn g := m_to m) else kings g) c"
proof -
  note b = pseudo_basic [OF assms(3)] and k = kings_wfD(2) [OF assms(1)]
  have to: "m_to m \<noteq> kings g (opp (turn g))" using k assms(4) by metis
  have fr: "m_from m \<noteq> kings g (opp (turn g))"
    using k [of "m_from m" "opp (turn g)"] b(4) by (metis opp_neq(1) option.inject piece.ext_inject)
  have frK: "m_from m = kings g (turn g)" if "m_piece m = King"
    using k [of "m_from m" "turn g"] b(4) that by simp
  have frN: "m_from m \<noteq> kings g (turn g)" if "m_piece m \<noteq> King"
    using k [of "m_from m" "turn g"] b(4) that by auto
  have c: "c = turn g \<or> c = opp (turn g)" by (metis color_neq_opp)
  show ?thesis using assms(3)
  proof (cases rule: make_board_shape)
    case (simple k')
    have own: "m_to m \<noteq> kings g (turn g)"
      using simple(3) k [of "m_to m" "turn g"] by auto
    show ?thesis using c
    proof
      assume "c = turn g"
      then show ?thesis
        using simple(2) k [of sq c] own frK frN b(3) by (auto simp: simple(1))
    next
      assume "c = opp (turn g)"
      then show ?thesis using k [of sq c] to fr by (auto simp: simple(1))
    qed
  next
    case enpassant
    have v: "board g (victim_sq g m) = Some (pc Pawn (opp (turn g)))" and t: "board g (m_to m) = None"
      using enpassant assms(2) b(2) by (auto simp: ep_wf_def victim_sq_def on_sq_def)
    have "victim_sq g m \<noteq> kings g c" using v k [of "victim_sq g m" c] by auto
    moreover have "m_to m \<noteq> kings g c" using t k [of "m_to m" c] by auto
    moreover have "m_from m \<noteq> kings g c" using b(4) enpassant(2) k [of "m_from m" c] by auto
    ultimately show ?thesis using k [of sq c] by (auto simp: enpassant(1,2))
  next
    case (castle rook landing)
    have n: "rook \<noteq> kings g c" "landing \<noteq> kings g c" "m_to m \<noteq> kings g c"
      using castle(2-4) k [of rook c] k [of landing c] k [of "m_to m" c] by auto
    have e: "landing \<noteq> rook" "rook \<noteq> m_to m" "landing \<noteq> m_to m" using castle(7) by auto
    show ?thesis using c
    proof
      assume ct: "c = turn g"
      have "m_from m = kings g c" using frK castle(5) ct by simp
      then show ?thesis using k [of sq c] n e ct by (auto simp: castle(1,5))
    next
      assume "c = opp (turn g)"
      then show ?thesis using k [of sq c] n fr by (auto simp: castle(1,5))
    qed
  qed
qed

lemma make_ep_wf:
  assumes "pseudo g m" "makeMoveInternal g m = (g', m')"
  shows "ep_wf g'"
proof (cases "m_flags m = ''b''")
  case False
  then show ?thesis using make_sel(5) [OF assms] by (simp add: ep_wf_def)
next
  case True
  note b = pseudo_basic [OF assms(1)] and s = make_sel [OF assms]
  from assms(1) True have d: "m_promotion m = None" "board g (m_from m + PAWN_PUSH (turn g)) = None"
    "m_to m = m_from m + PAWN_PUSH (turn g) * 2" "rankOf (m_from m) = (if turn g = White then 1 else 6)"
    "m_piece m = Pawn"
    by (cases rule: pseudo_cases; simp)+
  have mb: "make_board g m = (board g)(m_from m := None, m_to m := Some (pc Pawn (turn g)))"
    using d b True by (subst make_board_simple) auto
  have e: "ep g' = m_from m + PAWN_PUSH (turn g)" using s(5) True by simp
  have on: "on_sq (ep g')"
    using b(1) d(4) e by (cases "turn g") (auto simp: on_sq_def rankOf_div)
  have "rankOf (ep g') = (if turn g' = White then 5 else 2)"
    using d(4) by (cases "turn g") (simp_all add: e s(2) rankOf_div)
  moreover have "board g' (ep g') = None" using d b(3) by (cases "turn g") (simp_all add: s(1) mb e)
  moreover have "(if turn g' = White then ep g' - 16 else ep g' + 16) = m_to m"
    using d(3) by (cases "turn g") (simp_all add: s(2) e)
  ultimately show ?thesis using on by (simp add: ep_wf_def s(1,2) mb)
qed

lemma updateCastling_bit:
  assumes "bit (updateCastlingForSquare cr sq) n" "(n, c, r) \<in> castle_table"
  shows "bit cr n" "sq \<noteq> r"
  using assms
  by (auto simp: updateCastlingForSquare_def castle_table_def bit_simps
      CASTLE_WK_def CASTLE_WQ_def CASTLE_BK_def CASTLE_BQ_def split: if_splits)

lemma king_move_bit:
  assumes "bit (if us = White then cr AND NOT (CASTLE_WK OR CASTLE_WQ) else cr AND NOT (CASTLE_BK OR CASTLE_BQ)) n"
    "(n, c, r) \<in> castle_table"
  shows "bit cr n" "c \<noteq> us"
  using assms
  by (cases us; auto simp: castle_table_def bit_simps
      CASTLE_WK_def CASTLE_WQ_def CASTLE_BK_def CASTLE_BQ_def split: if_splits)+

lemma updateCastling_range:
  "0 \<le> cr \<and> cr < 16 \<Longrightarrow> 0 \<le> updateCastlingForSquare cr sq \<and> updateCastlingForSquare cr sq < 16"
  by (auto simp: updateCastlingForSquare_def intro: order_le_less_trans [OF AND_upper1])

lemma castle_table_rook: "(n, c, r) \<in> castle_table \<Longrightarrow> r = rankBase c + 7 \<or> r = rankBase c"
  by (auto simp: castle_table_def rankBase_def)

lemma rankBase_far: "c \<noteq> d \<Longrightarrow> 0 \<le> i \<Longrightarrow> i < 8 \<Longrightarrow> 0 \<le> j \<Longrightarrow> j < 8 \<Longrightarrow> rankBase c + i \<noteq> rankBase d + j"
  by (cases c; cases d) (simp_all add: rankBase_def)

lemma make_castle_wf:
  assumes "castle_wf g" "kings_wf g" "ep_wf g" "pseudo g m" "makeMoveInternal g m = (g', m')"
    and "board g (m_to m) \<noteq> Some (pc King (opp (turn g)))"
  shows "castle_wf g'"
proof -
  note b = pseudo_basic [OF assms(4)] and s = make_sel [OF assms(4,5)] and cs = make_sel_castling(1) [OF assms(4,5)]
  have range: "0 \<le> castling g' \<and> castling g' < 16"
    unfolding cs using assms(1)
    by (intro updateCastling_range) (auto simp: castle_wf_def intro: order_le_less_trans [OF AND_upper1])
  have "board g' r = Some (pc Rook c) \<and> kings g' c = rankBase c + 4"
    if t: "(n, c, r) \<in> castle_table" and bit: "bit (castling g') n" for n c r
  proof -
    have keep: "bit (castling g) n" "m_from m \<noteq> r" "m_to m \<noteq> r" "m_piece m = King \<Longrightarrow> c \<noteq> turn g"
    proof -
      note u1 = updateCastling_bit [OF bit [unfolded cs] t]
      note u2 = updateCastling_bit [OF u1(1) t]
      show "m_to m \<noteq> r" "m_from m \<noteq> r" by (fact u1(2), fact u2(2))
      show "bit (castling g) n"
      proof (cases "m_piece m = King")
        case True
        show ?thesis
          by (rule king_move_bit(1) [where us = "turn g", OF _ t]) (use u2(1) True in \<open>simp only: if_True simp_thms\<close>)
      next
        case False
        then show ?thesis using u2(1) by (simp only: if_False)
      qed
      show "c \<noteq> turn g" if "m_piece m = King"
        by (rule king_move_bit(2) [OF _ t]) (use u2(1) that in \<open>simp only: if_True simp_thms\<close>)
    qed
    have old: "board g r = Some (pc Rook c)" "kings g c = rankBase c + 4"
      using assms(1) t keep(1) by (auto simp: castle_wf_def)
    have "kings g' c = kings g c" using s(4) keep(4) by auto
    moreover have "board g' r = board g r"
      using assms(4)
    proof (cases rule: make_board_shape)
      case (simple k)
      then show ?thesis using keep by (simp add: s(1))
    next
      case enpassant
      then have "board g (victim_sq g m) = Some (pc Pawn (opp (turn g)))"
        using assms(3) b(2) by (auto simp: ep_wf_def victim_sq_def on_sq_def)
      then have "victim_sq g m \<noteq> r" using old by auto
      then show ?thesis using enpassant keep by (simp add: s(1))
    next
      case (castle rook landing)
      have "c \<noteq> turn g" using keep(4) castle(5) .
      then have "rook \<noteq> r" "landing \<noteq> r"
        using castle(2,3) old by auto
      then show ?thesis using castle keep by (simp add: s(1))
    qed
    ultimately show ?thesis using old by simp
  qed
  then show ?thesis using range by (auto simp: castle_wf_def)
qed

text \<open>No generated move captures a king, as long as the side that just moved is not in check.\<close>

lemma generated_no_king_capture:
  assumes "position_ok g" "only_ok onlyFrom" "m \<in> set (generatePseudoMoves g onlyFrom)"
  shows "board g (m_to m) \<noteq> Some (pc King (opp (turn g)))"
proof
  assume K: "board g (m_to m) = Some (pc King (opp (turn g)))"
  note w = position_okD [OF assms(1)]
  have p: "pseudo g m" by (rule generated_pseudo [OF w(5) assms(2,3)])
  have cap: "m_captured m \<noteq> None \<and> m_flags m \<noteq> ''e''"
    using p
  proof (cases rule: make_board_shape)
    case (simple k)
    then show ?thesis using K by auto
  next
    case enpassant
    then show ?thesis using K w(6) pseudo_basic(2) [OF p] by (auto simp: ep_ok_def on_sq_def)
  next
    case (castle rook landing)
    then show ?thesis using K by auto
  qed
  have "isAttacked (board g) (m_to m) (turn g)"
    by (rule capture_is_attack [OF assms(2,3)]) (use cap in auto)
  moreover have "m_to m = kings g (opp (turn g))" using K kings_wfD(2) [OF w(2)] by blast
  ultimately have "isKingAttacked g (opp (turn g))"
    using kings_wfD(1) [OF w(2), of "opp (turn g)"] by (simp add: isKingAttacked_opp on_sq_def)
  then show False using w(7) by simp
qed

text \<open>One legal move: honest in, honest out.\<close>

lemma make_position_ok:
  assumes "position_ok g" "only_ok onlyFrom" "m \<in> set (generatePseudoMoves g onlyFrom)"
    and "makeMoveInternal g m = (g', m')" "\<not> isKingAttacked g' (turn g)"
  shows "position_ok g'"
proof -
  note w = position_okD [OF assms(1)]
  have p: "pseudo g m" by (rule generated_pseudo [OF w(5) assms(2,3)])
  note s = make_sel [OF p assms(4)] and nk = generated_no_king_capture [OF assms(1-3)]
  have "board_ok g'" using make_board_ok [OF w(1) p] by (simp add: board_ok_def s(1))
  moreover have "kings_wf g'"
    unfolding kings_wf_def s(1,4)
    using make_board_king [OF w(2,3) p nk] kings_wfD(1) [OF w(2)] pseudo_basic(2) [OF p] by simp
  moreover have "0 \<le> halfmoves g' \<and> 1 \<le> fullmoves g'"
    using assms(1) make_sel_castling(2,3) [OF p assms(4)] by (simp add: position_ok_def)
  ultimately show ?thesis
    using make_ep_wf [OF p assms(4)] make_castle_wf [OF w(4,2,3) p assms(4) nk] assms(5) s(2)
    by (simp add: position_ok_def)
qed

section \<open>Legal moves\<close>

definition made :: "chess \<Rightarrow> move_record \<Rightarrow> chess" where
  "made g m = fst (makeMoveInternal g m)"

definition recorded :: "chess \<Rightarrow> move_record \<Rightarrow> move_record" where
  "recorded g m = m\<lparr>m_state := Some (saved_state g m)\<rparr>"

lemma make_eq: "makeMoveInternal g m = (made g m, recorded g m)"
  by (simp add: made_def recorded_def makeMoveInternal_def Let_def)

lemma recorded_sel [simp]:
  "m_from (recorded g m) = m_from m" "m_to (recorded g m) = m_to m" "m_piece (recorded g m) = m_piece m"
  "m_captured (recorded g m) = m_captured m" "m_promotion (recorded g m) = m_promotion m"
  "m_flags (recorded g m) = m_flags m" "pub (recorded g m) = pub m"
  "chosen_by f t p (recorded g m) = chosen_by f t p m"
  by (simp_all add: recorded_def pub_def chosen_by_def)

lemma remake_recorded: "makeMoveInternal h (recorded g m) = makeMoveInternal h m"
proof -
  have "make_board h (recorded g m) = make_board h m"
    by (simp add: make_board_def Let_def cong: if_cong option.case_cong)
  moreover have "saved_state h (recorded g m) = saved_state h m"
    by (simp add: saved_state_def Let_def cong: if_cong)
  moreover have "(recorded g m)\<lparr>m_state := Some (saved_state h m)\<rparr> = m\<lparr>m_state := Some (saved_state h m)\<rparr>"
    by (simp add: recorded_def)
  ultimately show ?thesis
    by (simp add: makeMoveInternal_def Let_def cong: if_cong)
qed

lemma made_turn: "pseudo g m \<Longrightarrow> turn (made g m) = opp (turn g)"
  using make_sel(2) make_eq by blast

text \<open>The legal moves, said without any making and undoing on the board at hand.\<close>

definition safe :: "chess \<Rightarrow> move_record \<Rightarrow> bool" where
  "safe g m \<longleftrightarrow> \<not> isKingAttacked (made g m) (turn g)"

definition legal_spec :: "chess \<Rightarrow> int option \<Rightarrow> move_record list" where
  "legal_spec g onlyFrom = filter (safe g) (generatePseudoMoves g onlyFrom)"

lemma legal_loop_filter:
  assumes "kings_ok g" "ep_ok g" "\<And>m. m \<in> set ms \<Longrightarrow> pseudo g m"
  shows "legal_loop g ms = (map (recorded g) (filter (safe g) ms), g)"
  using assms(3)
proof (induction ms)
  case (Cons m ms)
  then have p: "pseudo g m" by simp
  have u: "undoMoveInternal (made g m) (recorded g m) = g"
    by (rule undo_make [OF assms(1,2) p make_eq])
  have c: "(if turn (made g m) = White then Black else White) = turn g"
    using made_turn [OF p] by (cases "turn g") simp_all
  show ?case using Cons by (simp add: make_eq u c safe_def)
qed simp

lemma legalMoves_eq:
  assumes "position_ok g" "only_ok onlyFrom"
  shows "legalMoves g onlyFrom = (map (recorded g) (legal_spec g onlyFrom), g)"
  unfolding legalMoves_def legal_spec_def
  using position_okD(5,6) [OF assms(1)] generated_pseudo [OF _ assms(2)] by (intro legal_loop_filter) blast+

lemma legalMoves_None [simp]: "position_ok g \<Longrightarrow> legalMoves g None = (map (recorded g) (legal_spec g None), g)"
  by (rule legalMoves_eq) (simp_all add: only_ok_def)

lemma only_ok_square: "\<not> squareFromAlgebraic s < 0 \<Longrightarrow> only_ok (Some (squareFromAlgebraic s))"
  using squareFromAlgebraic_on_sq [of s] by (simp add: only_ok_def)

lemma only_None [simp]: "only_ok None"
  by (simp add: only_ok_def)

lemma legal_spec_elem:
  assumes "position_ok g" "only_ok onlyFrom" "m \<in> set (legal_spec g onlyFrom)"
  shows "pseudo g m" "position_ok (made g m)" "undoMoveInternal (made g m) (recorded g m) = g"
    "history (made g m) = history g"
proof -
  note w = position_okD [OF assms(1)]
  have m: "m \<in> set (generatePseudoMoves g onlyFrom)" "safe g m" using assms(3) by (auto simp: legal_spec_def)
  show p: "pseudo g m" by (rule generated_pseudo [OF w(5) assms(2) m(1)])
  show "position_ok (made g m)"
    using m(2) by (intro make_position_ok [OF assms(1,2) m(1) make_eq]) (simp add: safe_def)
  show "undoMoveInternal (made g m) (recorded g m) = g" by (rule undo_make [OF w(5,6) p make_eq])
  show "history (made g m) = history g" by (rule make_sel(3) [OF p make_eq])
qed

text \<open>With a square given, the moves are those of all legal moves that start there.\<close>

lemma concat_map_filter_single:
  assumes "distinct xs" "x \<in> set xs" "\<And>y m. y \<in> set xs \<Longrightarrow> m \<in> set (f y) \<Longrightarrow> h m = y"
  shows "filter (\<lambda>m. h m = x) (concat (map f xs)) = f x"
  using assms
proof (induction xs)
  case (Cons y ys)
  have other: "filter (\<lambda>m. h m = x) (f z) = []" if "z \<noteq> x" "z \<in> set (y # ys)" for z
    using Cons.prems(3) [of z] that by (auto simp: filter_empty_conv)
  have same: "filter (\<lambda>m. h m = x) (f x) = f x"
    using Cons.prems(3) [of x] Cons.prems(2) by (simp add: filter_id_conv)
  have rest: "filter (\<lambda>m. h m = x) (concat (map f zs)) = []" if "x \<notin> set zs" "set zs \<subseteq> set ys" for zs
    using that other by (induction zs) auto
  show ?case
  proof (cases "y = x")
    case True
    then show ?thesis using Cons.prems(1) same rest by simp
  next
    case False
    then show ?thesis using Cons other [of y] by simp
  qed
qed simp

lemma castling_from: "m \<in> set (addCastlingMoves g us them king) \<Longrightarrow> m_from m = king"
  by (auto simp: addCastlingMoves_def Let_def split: if_splits)

lemma generate_from_square:
  assumes "on_sq f"
  shows "generatePseudoMoves g (Some f) = filter (\<lambda>m. m_from m = f) (generatePseudoMoves g None)"
proof -
  let ?k = "kings g (turn g)"
  have "filter (\<lambda>m. m_from m = f) (concat (map (movesFrom g (turn g)) all_squares)) = movesFrom g (turn g) f"
    using assms movesFrom_from by (intro concat_map_filter_single) auto
  moreover have "filter (\<lambda>m. m_from m = f) (if ?k \<ge> 0 then addCastlingMoves g (turn g) (opp (turn g)) ?k else []) =
      (if ?k = f then addCastlingMoves g (turn g) (opp (turn g)) f else [])"
    using castling_from assms by (auto simp: filter_empty_conv filter_id_conv on_sq_def)
  ultimately show ?thesis
    by (simp add: generatePseudoMoves_Some [OF assms] generatePseudoMoves_None)
qed

lemma legal_spec_square:
  "on_sq f \<Longrightarrow> legal_spec g (Some f) = filter (\<lambda>m. m_from m = f) (legal_spec g None)"
  by (simp add: legal_spec_def generate_from_square filter_filter conj_commute)

section \<open>Public operations on honest positions\<close>

lemma position_ok_history [simp]: "position_ok (g\<lparr>history := h\<rparr>) = position_ok g"
  by (simp add: position_ok_def board_ok_def kings_wf_def ep_wf_def castle_wf_def isKingAttacked_opp)

lemma undo_history: "undoMoveInternal (g\<lparr>history := h\<rparr>) m = (undoMoveInternal g m)\<lparr>history := h\<rparr>"
  by (simp add: undoMoveInternal_def undo_board_def Let_def split: option.split)

text \<open>What a successful \<open>move\<close> did.\<close>

lemma move_cases:
  assumes "position_ok g"
  obtains (rejected) "move g from to promotion = (None, g)"
  | (accepted) m where "on_sq (squareFromAlgebraic from)"
      "m \<in> set (legal_spec g (Some (squareFromAlgebraic from)))"
      "chosen_by (squareFromAlgebraic from) (squareFromAlgebraic to) promotion m"
      "move g from to promotion = (Some (pub m),
         (made g m)\<lparr>history := history g @ [\<lparr>h_move = pub m, h_internal = recorded g m\<rparr>]\<rparr>)"
proof -
  let ?f = "squareFromAlgebraic from" and ?t = "squareFromAlgebraic to"
  let ?legal = "legal_spec g (Some ?f)"
  show thesis
  proof (cases "?f < 0 \<or> ?t < 0")
    case True
    then show ?thesis by (intro rejected) (simp add: move_def)
  next
    case False
    then have f: "on_sq ?f" "only_ok (Some ?f)" using squareFromAlgebraic_on_sq [of "from"] by (auto simp: only_ok_def)
    note eq = legalMoves_eq [OF assms f(2)]
    show ?thesis
    proof (cases "List.find (chosen_by ?f ?t promotion) (map (recorded g) ?legal)")
      case None
      then show ?thesis using False by (intro rejected) (simp add: move_def eq)
    next
      case (Some c)
      then obtain m where m: "m \<in> set ?legal" "c = recorded g m" "chosen_by ?f ?t promotion m"
        by (auto simp: find_Some_iff) (metis nth_mem recorded_sel(8))
      have mk: "makeMoveInternal g (recorded g m) = (made g m, recorded g m)"
        unfolding remake_recorded by (rule make_eq)
      have "history (made g m) = history g" by (rule legal_spec_elem(4) [OF assms f(2) m(1)])
      then show ?thesis
        using False Some by (intro accepted [OF f(1) m(1,3)]) (simp add: move_def eq mk m(2))
    qed
  qed
qed

lemma move_ok:
  assumes "position_ok g"
  shows "position_ok (snd (move g from to promotion))"
  using assms
proof (cases rule: move_cases [of g "from" to promotion])
  case (accepted m)
  then show ?thesis using legal_spec_elem(2) [OF assms _ accepted(2)] by (simp add: only_ok_def)
qed (simp add: assms)

lemma move_undo:
  assumes "position_ok g" "move g from to promotion = (Some pm, g')"
  shows "undo g' = (Some pm, g)"
  using assms(1)
proof (cases rule: move_cases [of g "from" to promotion])
  case (accepted m)
  have "only_ok (Some (squareFromAlgebraic from))" using accepted(1) by (simp add: only_ok_def)
  note u = legal_spec_elem(3,4) [OF assms(1) this accepted(2)]
  have "undoMoveInternal (made g m) (recorded g m)\<lparr>history := history g\<rparr> = g" by (simp add: u(1))
  then show ?thesis using accepted(4) assms(2) by (auto simp: undo_def undo_history)
qed (use assms(2) in simp)

section \<open>Sessions\<close>

text \<open>
  A session is any sequence of calls of \<open>move\<close> (with any arguments) and \<open>undo\<close> on a freshly
  loaded game. \<open>played g0 g\<close> keeps only the accepted moves.
\<close>

inductive session :: "chess \<Rightarrow> chess \<Rightarrow> bool" for g0 where
  session_start: "session g0 g0"
| session_move: "session g0 g \<Longrightarrow> session g0 (snd (move g from to promotion))"
| session_undo: "session g0 g \<Longrightarrow> session g0 (snd (undo g))"

inductive played :: "chess \<Rightarrow> chess \<Rightarrow> bool" for g0 where
  played_start: "played g0 g0"
| played_move: "played g0 g \<Longrightarrow> move g from to promotion = (Some pm, g') \<Longrightarrow> played g0 g'"

inductive_cases played_cases: "played g0 g"

lemma played_ok: "played g0 g \<Longrightarrow> position_ok g0 \<Longrightarrow> position_ok g"
proof (induction rule: played.induct)
  case (played_move g "from" to promotion pm g')
  then show ?case using move_ok [of g "from" to promotion] by simp
qed

lemma move_history:
  assumes "position_ok g" "move g from to promotion = (Some pm, g')"
  shows "length (history g') = Suc (length (history g))"
  using assms(1)
proof (cases rule: move_cases [of g "from" to promotion])
  case (accepted m)
  then show ?thesis using assms(2) by auto
qed (use assms(2) in simp)

lemma session_played:
  assumes "session g0 g" "position_ok g0" "history g0 = []"
  shows "played g0 g"
  using assms(1)
proof (induction rule: session.induct)
  case session_start
  then show ?case by (rule played_start)
next
  case (session_move g "from" to promotion)
  have ok: "position_ok g" using played_ok session_move assms(2) by blast
  show ?case
  proof (cases "fst (move g from to promotion)")
    case None
    from ok have "snd (move g from to promotion) = g"
      by (cases rule: move_cases [of g "from" to promotion]) (use None in simp_all)
    then show ?thesis using session_move by simp
  next
    case (Some pm)
    then show ?thesis using played_move [OF session_move(2), of "from" to promotion pm] by (simp add: prod_eq_iff)
  qed
next
  case (session_undo g)
  from session_undo(2) show ?case
  proof (rule played_cases)
    assume "g = g0"
    then show ?thesis using session_undo assms(3) by (simp add: undo_def)
  next
    fix h "from" to promotion pm
    assume h: "played g0 h" "move h from to promotion = (Some pm, g)"
    then have "undo g = (Some pm, h)" using move_undo played_ok assms(2) by blast
    then show ?thesis using h by simp
  qed
qed

text \<open>As many undos as the history is long lead back to the first position.\<close>

lemma undo_all:
  assumes "played g0 g" "position_ok g0" "history g0 = []"
  shows "((\<lambda>h. snd (undo h)) ^^ length (history g)) g = g0"
  using assms(1)
proof (induction rule: played.induct)
  case (played_move g "from" to promotion pm g')
  have ok: "position_ok g" using played_ok played_move assms(2) by blast
  have "length (history g') = Suc (length (history g))" "undo g' = (Some pm, g)"
    using move_history [OF ok played_move(2)] move_undo [OF ok played_move(2)] by simp_all
  then show ?case using played_move(3) by (simp add: funpow_Suc_right del: funpow.simps(2))
qed (simp add: assms(3))

section \<open>Node counts\<close>

text \<open>The lines of \<open>d\<close> legal plies from a position.\<close>

primrec legal_lines :: "nat \<Rightarrow> chess \<Rightarrow> move_record list list" where
  "legal_lines 0 = (\<lambda>g. [[]])"
| "legal_lines (Suc d) = (\<lambda>g. concat (map (\<lambda>m. map ((#) m) (legal_lines d (made g m))) (legal_spec g None)))"

lemma perft_fold:
  assumes "position_ok g" "\<And>m. m \<in> set ms \<Longrightarrow> pseudo g m"
    and "\<And>m. m \<in> set ms \<Longrightarrow> safe g m \<Longrightarrow> f (made g m) = (length (legal_lines d (made g m)), made g m)"
  shows "fold (\<lambda>m (nodes, h).
          let (h1, m1) = makeMoveInternal h m;
              (n, h2) = (if \<not> isKingAttacked h1 (turn g) then f h1 else (0, h1))
          in (nodes + n, undoMoveInternal h2 m1)) ms (k, g) =
     (k + sum_list (map (\<lambda>m. length (legal_lines d (made g m))) (filter (safe g) ms)), g)"
  using assms(2,3)
proof (induction ms arbitrary: k)
  case (Cons m ms)
  have u: "undoMoveInternal (made g m) (recorded g m) = g"
    using Cons.prems(1) [of m] by (intro undo_make [OF position_okD(5,6) [OF assms(1)] _ make_eq]) simp
  have f: "safe g m \<Longrightarrow> f (made g m) = (length (legal_lines d (made g m)), made g m)"
    using Cons.prems(2) by simp
  show ?case
    using Cons.IH Cons.prems f u by (cases "safe g m") (simp_all add: make_eq safe_def Let_def add.assoc)
qed simp

lemma perft_legal_lines:
  "position_ok g \<Longrightarrow> perft d g = (length (legal_lines d g), g)"
proof (induction d arbitrary: g)
  case (Suc d)
  have "perft d (made g m) = (length (legal_lines d (made g m)), made g m)"
    if "m \<in> set (generatePseudoMoves g None)" "safe g m" for m
    using that by (intro Suc.IH legal_spec_elem(2) [OF Suc.prems only_None]) (simp add: legal_spec_def)
  moreover have "pseudo g m" if "m \<in> set (generatePseudoMoves g None)" for m
    using that by (intro generated_pseudo [OF position_okD(5) [OF Suc.prems] only_None])
  ultimately have "perft (Suc d) g = (0 + sum_list (map (\<lambda>m. length (legal_lines d (made g m)))
      (filter (safe g) (generatePseudoMoves g None))), g)"
    unfolding perft.simps Let_def [of "turn g"]
    by (intro perft_fold Suc.prems) simp_all
  also have "\<dots> = (length (legal_lines (Suc d) g), g)"
    by (simp add: length_concat comp_def legal_spec_def)
  finally show ?case .
qed simp

section \<open>Status\<close>

lemma status_eqs:
  assumes "position_ok g"
  shows "isCheckmate g = (inCheck g \<and> legal_spec g None = [], g)"
    "isStalemate g = (\<not> inCheck g \<and> legal_spec g None = [], g)"
    "isDraw g = (halfmoves g \<ge> 100 \<or> insufficientMaterial g \<or> (\<not> inCheck g \<and> legal_spec g None = []), g)"
  using assms by (simp_all add: isCheckmate_def isStalemate_def isDraw_def)

lemma isGameOver_eq:
  assumes "position_ok g"
  shows "isGameOver g = (legal_spec g None = [] \<or> halfmoves g \<ge> 100 \<or> insufficientMaterial g, g)"
  using assms by (auto simp: isGameOver_def status_eqs)

lemma result_eq:
  assumes "position_ok g"
  shows "result g =
    (if legal_spec g None = [] \<and> inCheck g then Some (if turn g = White then ''0-1'' else ''1-0'')
     else if legal_spec g None = [] \<or> halfmoves g \<ge> 100 \<or> insufficientMaterial g then Some ''1/2-1/2''
     else None, g)"
  using assms by (auto simp: result_def status_eqs)

section \<open>The initial position\<close>

definition start_row :: "kind list" where
  "start_row = [Rook, Knight, Bishop, Queen, King, Bishop, Knight, Rook]"

definition start_board :: board where
  "start_board sq =
     (if \<not> on_sq sq then None
      else if sq div 16 = 0 then Some (pc (start_row ! nat (sq mod 16)) White)
      else if sq div 16 = 1 then Some (pc Pawn White)
      else if sq div 16 = 6 then Some (pc Pawn Black)
      else if sq div 16 = 7 then Some (pc (start_row ! nat (sq mod 16)) Black)
      else None)"

definition start_game :: chess where
  "start_game = \<lparr>board = start_board, turn = White, castling = 15, ep = -1, halfmoves = 0, fullmoves = 1,
     kings = (\<lambda>c. if c = White then 4 else 116), history = []\<rparr>"

lemma start_row_king: "0 \<le> i \<Longrightarrow> i < 8 \<Longrightarrow> start_row ! nat i = King \<longleftrightarrow> i = (4 :: int)"
proof -
  assume "0 \<le> i" "i < 8"
  then have "i \<in> {0, 1, 2, 3, 4, 5, 6, 7}" by auto
  then show ?thesis by (elim insertE emptyE) (simp_all add: start_row_def)
qed

lemma start_kings: "start_board sq = Some (pc King c) \<longleftrightarrow> sq = (if c = White then 4 else 116)"
proof (cases "on_sq sq")
  case False
  then show ?thesis by (auto simp: start_board_def on_sq_def)
next
  case True
  have r: "start_row ! nat (sq mod 16) = King \<longleftrightarrow> sq mod 16 = 4"
    using True by (intro start_row_king) (auto simp: on_sq_def)
  have "sq = 16 * (sq div 16) + sq mod 16" by simp
  then have "sq = 4 \<longleftrightarrow> sq div 16 = 0 \<and> sq mod 16 = 4" "sq = 116 \<longleftrightarrow> sq div 16 = 7 \<and> sq mod 16 = 4"
    by presburger+
  then have e: "sq = (if c = White then 4 else 116) \<longleftrightarrow>
      sq div 16 = (if c = White then 0 else 7) \<and> sq mod 16 = 4" by simp
  show ?thesis
  proof (cases "sq div 16 = 0 \<or> sq div 16 = 7")
    case True
    then show ?thesis using \<open>on_sq sq\<close> r e by (cases c) (elim disjE; simp add: start_board_def)+
  next
    case False
    then show ?thesis using e by (cases c) (simp_all add: start_board_def)
  qed
qed

lemma start_position_ok: "position_ok start_game"
proof -
  have "board_ok start_game" by (auto simp: board_ok_def start_game_def start_board_def split: if_splits)
  moreover have "kings_wf start_game" by (simp add: kings_wf_def start_game_def start_kings) (simp add: on_sq_def)
  moreover have "castle_wf start_game"
    by (simp add: castle_wf_def castle_table_def start_game_def start_board_def start_row_def on_sq_def rankBase_def)
  moreover have "\<not> isKingAttacked start_game Black" by code_simp
  ultimately show ?thesis by (simp add: position_ok_def ep_wf_def start_game_def)
qed

lemma fen_start: "fen start_game = DEFAULT_FEN"
  by code_simp

lemma new_chess_default: "new_chess None = Inr start_game"
proof -
  have "load blank_chess (fen start_game) = (start_game\<lparr>history := []\<rparr>, None)"
    by (rule load_fen) (rule position_ok_fen_ok [OF start_position_ok])
  then show ?thesis by (simp add: new_chess_def fen_start) (simp add: start_game_def)
qed

section \<open>Listed moves are accepted\<close>

definition lastRank :: "color \<Rightarrow> int" where
  "lastRank us = (if us = White then 7 else 0)"

lemma addPawnMove_promotion:
  "m \<in> set (addPawnMove us from to fl cap) \<Longrightarrow> m_promotion m \<noteq> None \<longleftrightarrow> rankOf (m_to m) = lastRank us"
  by (cases us) (auto simp: addPawnMove_def lastRank_def split: if_splits)

lemma pawnMoves_promotion:
  assumes "m \<in> set (pawnMoves g us from)" "m_flags m \<noteq> ''e''" "m_flags m \<noteq> ''b''"
  shows "m_promotion m \<noteq> None \<longleftrightarrow> rankOf (m_to m) = lastRank us"
proof -
  from assms consider to fl cap where "m \<in> set (addPawnMove us from to fl cap)"
    | off where "m \<in> set (pawnCapture g us from off)"
    by (auto simp: pawnMoves_def Let_def split: if_splits)
  then show ?thesis
  proof cases
    case 1
    then show ?thesis by (rule addPawnMove_promotion)
  next
    case (2 off)
    then obtain cap where "m \<in> set (addPawnMove us from (from + off) ''c'' cap)"
      using assms(2) by (auto simp: pawnCapture_def Let_def split: if_splits option.splits)
    then show ?thesis by (rule addPawnMove_promotion)
  qed
qed

text \<open>A move is a promotion exactly when a pawn reaches the last rank.\<close>

lemma generated_promotion:
  assumes "position_ok g" "m \<in> set (generatePseudoMoves g None)"
  shows "m_promotion m \<noteq> None \<longleftrightarrow> m_piece m = Pawn \<and> rankOf (m_to m) = lastRank (turn g)"
proof -
  note w = position_okD [OF assms(1)]
  have p: "pseudo g m" by (rule generated_pseudo [OF w(5) only_None assms(2)])
  note b = pseudo_basic [OF p]
  have pawn: "m_promotion m \<noteq> None \<Longrightarrow> m_piece m = Pawn"
    using p by (cases rule: pseudo_cases) simp_all
  have special: "m_promotion m = None \<and> rankOf (m_to m) \<noteq> lastRank (turn g)"
    if "m_flags m = ''e'' \<or> m_flags m = ''b''"
    using p
  proof (cases rule: pseudo_cases)
    case double
    then show ?thesis by (cases "turn g") (simp_all add: lastRank_def rankOf_div)
  next
    case enpassant
    then show ?thesis using w(3) b(2) by (auto simp: ep_wf_def lastRank_def on_sq_def)
  qed (use that in auto)
  have "m_promotion m \<noteq> None \<longleftrightarrow> rankOf (m_to m) = lastRank (turn g)"
    if "m_flags m \<noteq> ''e''" "m_flags m \<noteq> ''b''" "m_piece m = Pawn"
  proof -
    have "m \<notin> set (addCastlingMoves g us them k)" for us them k
      using that(3) by (auto simp: addCastlingMoves_def Let_def split: if_splits)
    then obtain f where f: "on_sq f" "m \<in> set (movesFrom g (turn g) f)"
      using assms(2) by (auto simp: generatePseudoMoves_None split: if_splits)
    have "board g f = Some (pc Pawn (turn g))"
      using movesFrom_from [OF f] b(4) that(3) by simp
    with f(2) have "m \<in> set (pawnMoves g (turn g) f)" by (simp add: movesFrom_def)
    then show ?thesis by (rule pawnMoves_promotion) (use that in simp_all)
  qed
  then show ?thesis
    by (cases "m_flags m = ''e'' \<or> m_flags m = ''b''") (use pawn special in auto)
qed

lemma kind_char_inj: "kind_char j = kind_char k \<longleftrightarrow> j = k"
  by (cases j; cases k) simp_all

text \<open>The string \<^verbatim>\<open>promotion\<close> that a listed move carries.\<close>

definition promotion_arg :: "pub_move \<Rightarrow> string option" where
  "promotion_arg pm = map_option (\<lambda>k. [kind_char k]) (pm_promotion pm)"

lemma listed_accepted:
  assumes "position_ok g" "m \<in> set (legal_spec g None)"
  shows "fst (move g (algebraic (m_from m)) (algebraic (m_to m)) (promotion_arg (pub m))) = Some (pub m)"
proof -
  note b = pseudo_basic [OF legal_spec_elem(1) [OF assms(1) only_None assms(2)]]
  define promo where "promo = promotion_arg (pub m)"
  have sq: "squareFromAlgebraic (algebraic (m_from m)) = m_from m" "squareFromAlgebraic (algebraic (m_to m)) = m_to m"
    using b by simp_all
  let ?legal = "legal_spec g (Some (m_from m))"
  have eq: "legalMoves g (Some (m_from m)) = (map (recorded g) ?legal, g)"
    using b(1) by (intro legalMoves_eq assms) (simp add: only_ok_def)
  have "m \<in> set ?legal" using b(1) assms(2) by (simp add: legal_spec_square)
  moreover have self: "chosen_by (m_from m) (m_to m) promo m"
    by (cases "m_promotion m") (simp_all add: chosen_by_def promo_def promotion_arg_def pub_def)
  ultimately obtain c where c: "List.find (chosen_by (m_from m) (m_to m) promo) (map (recorded g) ?legal) = Some c"
    by (cases "List.find (chosen_by (m_from m) (m_to m) promo) (map (recorded g) ?legal)") (auto simp: find_None_iff)
  then obtain d where d: "d \<in> set ?legal" "c = recorded g d" "chosen_by (m_from m) (m_to m) promo d"
    by (auto simp: find_Some_iff) (metis nth_mem recorded_sel(8))
  have dl: "d \<in> set (legal_spec g None)" using d(1) b(1) by (simp add: legal_spec_square)
  have ft: "m_from d = m_from m" "m_to d = m_to m" using d(3) by (simp_all add: chosen_by_def)
  then have "m_piece d = m_piece m"
    using b(4) pseudo_basic(4) [OF legal_spec_elem(1) [OF assms(1) only_None dl]] by simp
  moreover have "m_promotion x \<noteq> None \<longleftrightarrow> m_piece x = Pawn \<and> rankOf (m_to x) = lastRank (turn g)"
    if "x \<in> set (legal_spec g None)" for x
    using that by (intro generated_promotion assms(1)) (simp add: legal_spec_def)
  ultimately have "m_promotion d = None \<longleftrightarrow> m_promotion m = None" using dl assms(2) ft by metis
  then have "m_promotion d = m_promotion m"
    using d(3) by (auto simp: chosen_by_def promo_def promotion_arg_def pub_def kind_char_inj split: option.splits)
  then have pub: "pub d = pub m" using ft by (simp add: pub_def)
  have "\<not> (m_from m < 0 \<or> m_to m < 0)" using b by (simp add: on_sq_def)
  then show ?thesis
    by (simp add: move_def sq eq c promo_def [symmetric] remake_recorded make_eq d(2) pub)
qed

end
