(* ===== verification/ChessProperties.thy ===== *)
theory ChessProperties
  imports ChessGame
begin

text \<open>
  The properties of the chess engine, over the definitions of the five theories below. Witnesses
  run on the initial position \<open>start_game\<close>, which is what the constructor loads
  (\<open>new_chess_default\<close>).
\<close>

text \<open>C1: Whatever sequence of calls of \<open>move\<close> and \<open>undo\<close> is made on a freshly loaded honest
  position, the game stays honest (one king per colour where the king table says, en passant and
  castling rights backed by the board, the side that just moved not in check), and undoing as many
  times as the history is long restores the loaded game field by field.\<close>

theorem chess_session:
  assumes "session g0 g" "position_ok g0" "history g0 = []"
  shows "position_ok g \<and> ((\<lambda>h. snd (undo h)) ^^ length (history g)) g = g0"
  using session_played [OF assms] played_ok [OF _ assms(2)] undo_all [OF _ assms(2,3)] by blast

lemma start_history: "history start_game = []"
  by (simp add: start_game_def)

lemma start_session_e4: "session start_game (snd (move start_game ''e2'' ''e4'' None))"
  by (intro session_move session_start)

theorem chess_session_witness:
  "let g = snd (move start_game ''e2'' ''e4'' None)
   in position_ok g \<and> ((\<lambda>h. snd (undo h)) ^^ length (history g)) g = start_game"
  unfolding Let_def by (rule chess_session [OF start_session_e4 start_position_ok start_history])

text \<open>C2: The legal moves of an honest position are exactly the generated moves that do not leave
  the own king attacked, in the generator's order, and computing them by making and undoing every
  one on the shared board leaves the game as it was.\<close>

theorem chess_legal_moves:
  assumes "position_ok g" "only_ok onlyFrom"
  shows "legalMoves g onlyFrom =
    (map (\<lambda>m. snd (makeMoveInternal g m))
       (filter (\<lambda>m. \<not> isKingAttacked (fst (makeMoveInternal g m)) (turn g)) (generatePseudoMoves g onlyFrom)), g)"
  using legalMoves_eq [OF assms] by (simp add: legal_spec_def safe_def [abs_def] make_eq made_def [symmetric])

theorem chess_legal_moves_witness:
  "snd (legalMoves start_game None) = start_game \<and> snd (legalMoves start_game (Some 20)) = start_game"
  using chess_legal_moves [OF start_position_ok, of None] chess_legal_moves [OF start_position_ok, of "Some 20"]
  by (simp add: only_ok_def on_sq_def)

text \<open>C3: A square is attacked by a colour exactly when a piece of that colour sees it: a pawn
  along its captures, a knight or king by one step, a slider along a line of empty squares of any
  length.\<close>

theorem chess_attack_lines:
  assumes "on_sq square"
  shows "isAttacked b square c \<longleftrightarrow>
           (\<exists>sq p. on_sq sq \<and> b sq = Some p \<and> color_of p = c \<and> sees b sq square)"
  by (rule isAttacked_sees [OF assms])

theorem chess_attack_lines_witness:
  "\<exists>sq p. on_sq sq \<and> start_board sq = Some p \<and> color_of p = White \<and> sees start_board sq 34"
proof -
  have "on_sq 34" "isAttacked start_board 34 White" by code_simp+
  then show ?thesis using chess_attack_lines [of 34 start_board White] by blast
qed

text \<open>C4: Every move that \<open>moves\<close> lists is accepted by \<open>move\<close> when its squares and its
  promotion are handed back, and what \<open>move\<close> accepts is a listed move.\<close>

theorem chess_moves_accepted:
  assumes "position_ok g"
  shows "(pm \<in> set (fst (moves g None)) \<longrightarrow>
            fst (move g (pm_from pm) (pm_to pm) (promotion_arg pm)) = Some pm) \<and>
         (fst (move g from to promotion) = Some pm \<longrightarrow> pm \<in> set (fst (moves g None)))"
proof (intro conjI impI)
  assume "pm \<in> set (fst (moves g None))"
  then obtain m where "m \<in> set (legal_spec g None)" "pm = pub m"
    using assms by (auto simp: moves_def)
  then show "fst (move g (pm_from pm) (pm_to pm) (promotion_arg pm)) = Some pm"
    using listed_accepted [OF assms, of m] by (simp add: pub_def)
next
  assume mv: "fst (move g from to promotion) = Some pm"
  show "pm \<in> set (fst (moves g None))"
    using assms
  proof (cases rule: move_cases [of g "from" to promotion])
    case (accepted m)
    then have "m \<in> set (legal_spec g None)" by (simp add: legal_spec_square)
    then show ?thesis using accepted(4) mv assms by (auto simp: moves_def)
  qed (use mv in simp)
qed

theorem chess_moves_accepted_witness:
  "fst (move start_game ''e2'' ''e4'' None) = Some \<lparr>pm_from = ''e2'', pm_to = ''e4'', pm_promotion = None\<rparr> \<and>
   \<lparr>pm_from = ''e2'', pm_to = ''e4'', pm_promotion = None\<rparr> \<in> set (fst (moves start_game None))"
proof -
  have "fst (move start_game ''e2'' ''e4'' None) = Some \<lparr>pm_from = ''e2'', pm_to = ''e4'', pm_promotion = None\<rparr>"
    by code_simp
  with chess_moves_accepted [OF start_position_ok] show ?thesis by blast
qed

text \<open>C5: \<open>perft d\<close> counts the lines of \<open>d\<close> legal plies and leaves the game untouched.\<close>

theorem chess_perft:
  assumes "position_ok g"
  shows "perft d g = (length (legal_lines d g), g)"
  by (rule perft_legal_lines [OF assms])

theorem chess_perft_witness:
  "perft 1 start_game = (20, start_game) \<and> snd (perft 3 start_game) = start_game"
proof -
  have "length (legal_spec start_game None) = 20" by code_simp
  then have "length (legal_lines 1 start_game) = 20"
    by (simp add: length_concat comp_def sum_list_triv)
  then show ?thesis
    using chess_perft [OF start_position_ok, of 3] chess_perft [OF start_position_ok, of 1]
    by (simp only: snd_conv)
qed

text \<open>C6: Printing an honest game as FEN and constructing a game from that string gives the game
  back, with an empty history.\<close>

theorem chess_fen_roundtrip:
  assumes "position_ok g"
  shows "new_chess (Some (fen g)) = Inr (g\<lparr>history := []\<rparr>)"
proof -
  have "fen g \<noteq> []" by (simp add: fen_def fen_placement_def)
  then show ?thesis
    by (simp add: new_chess_def load_fen [OF position_ok_fen_ok [OF assms]])
qed

theorem chess_fen_roundtrip_witness:
  "new_chess (Some ''rnbqkbnr/pppppppp/8/8/8/8/PPPPPPPP/RNBQKBNR w KQkq - 0 1'') = Inr start_game"
  using chess_fen_roundtrip [OF start_position_ok] fen_start
  by (simp add: DEFAULT_FEN_def) (simp add: start_game_def)

text \<open>\<open>result\<close> and \<open>isGameOver\<close> agree and leave the game untouched: the game is over exactly
  when there is a result; a win is given exactly on checkmate, to the side that is not to move,
  and checkmate and stalemate exclude each other.\<close>

theorem chess_result:
  assumes "position_ok g"
  shows "snd (result g) = g \<and> snd (isGameOver g) = g \<and>
    (fst (isGameOver g) \<longleftrightarrow> fst (result g) \<noteq> None) \<and>
    (fst (result g) = Some ''0-1'' \<longleftrightarrow> fst (isCheckmate g) \<and> turn g = White) \<and>
    (fst (result g) = Some ''1-0'' \<longleftrightarrow> fst (isCheckmate g) \<and> turn g = Black) \<and>
    \<not> (fst (isCheckmate g) \<and> fst (isStalemate g))"
  by (cases "turn g") (auto simp: result_eq [OF assms] isGameOver_eq [OF assms] status_eqs [OF assms])

theorem chess_result_witness:
  "snd (result start_game) = start_game \<and> \<not> (fst (isCheckmate start_game) \<and> fst (isStalemate start_game))"
  using chess_result [OF start_position_ok] by blast

text \<open>Reading a square's printed name gives the square back, and a name is read as a square
  exactly when it is the name of one.\<close>

theorem chess_square_names:
  "(on_sq sq \<longrightarrow> squareFromAlgebraic (algebraic sq) = sq) \<and>
   (0 \<le> squareFromAlgebraic s \<longrightarrow> algebraic (squareFromAlgebraic s) = s \<and> on_sq (squareFromAlgebraic s))"
  using squareFromAlgebraic_algebraic algebraic_squareFromAlgebraic squareFromAlgebraic_on_sq by blast

theorem chess_square_names_witness:
  "squareFromAlgebraic (algebraic 20) = 20 \<and> algebraic (squareFromAlgebraic ''h8'') = ''h8''"
proof -
  have "on_sq 20" "0 \<le> squareFromAlgebraic ''h8''" by code_simp+
  then show ?thesis using chess_square_names [of 20 "''h8''"] by blast
qed

end
