(* ===== verification/Provable.thy ===== *)
theory Provable
  imports Prelude "HOL-Library.Word" "HOL-Library.Signed_Division"
begin

unbundle bit_operations_syntax

text \<open>
  \<^verbatim>\<open>static/provable.js\<close>: the per-player daily seed, the packing of a move list into words
  of at most 50 bits, and the verification of posted claims with its verdict cache. The
  day-anchor functions of that file are network traffic and not modelled. Moves, words and
  counts are natural numbers, as the contract stores them.
\<close>

section \<open>Seed\<close>

definition provableSeed :: "string \<Rightarrow> nat \<Rightarrow> string \<Rightarrow> string \<Rightarrow> string" where
  "provableSeed slug day anchorHash addr =
     ''daily2-'' @ slug @ ''-'' @ show_nat day @ ''-'' @ take 16 anchorHash @ ''-'' @ addr"

section \<open>The move codec\<close>

definition symsPerWord :: "nat \<Rightarrow> nat" where
  "symsPerWord bits = 50 div bits"

text \<open>
  JavaScript's shift: the count is taken modulo 32 and the result is a signed 32-bit integer,
  so \<^verbatim>\<open>1 << 31\<close> is negative and \<^verbatim>\<open>1 << 32\<close> is 1 again.
\<close>

definition js_int32 :: "int \<Rightarrow> int" where
  "js_int32 x = signed_take_bit 31 x"

definition js_shl1 :: "nat \<Rightarrow> int" where
  "js_shl1 bits = js_int32 (push_bit (bits mod 32) 1)"

text \<open>
  One word: the loop runs from the last symbol of the chunk to the first, so the first symbol
  ends up in the lowest bits. The accumulator is a BigInt; the mask is taken on 32-bit integers.
\<close>

definition pack_word :: "nat \<Rightarrow> nat list \<Rightarrow> int" where
  "pack_word bits chunk =
     foldr (\<lambda>m v. v * js_shl1 bits + (js_int32 (int m) AND js_int32 (js_shl1 bits - 1))) chunk 0"

text \<open>
  The outer loop runs while \<open>w * per < length moves\<close>. Widths are 1 to 50 bits: at 0 the code
  packs nothing, and above 50 it would not end on a non-empty list. The words are not negative
  (\<open>pack_word_digits\<close>), so nothing is lost in reading them as natural numbers. The games pack
  3 to 25 bits; from 32 bits on the shift has wrapped and the mask keeps only \<open>bits - 32\<close> bits.
\<close>

definition packMoves :: "nat list \<Rightarrow> nat \<Rightarrow> nat list" where
  "packMoves moves bits =
     (let per = symsPerWord bits
      in map (\<lambda>w. nat (pack_word bits (take (min (length moves) ((w + 1) * per) - w * per) (drop (w * per) moves))))
           [0..<(length moves + per - 1) div per])"

text \<open>
  \<^verbatim>\<open>words[w] || 0\<close>, divided \<open>i % per\<close> times by the shift. Division and remainder of BigInts
  truncate towards zero.
\<close>

definition unpack_one :: "nat list \<Rightarrow> nat \<Rightarrow> nat \<Rightarrow> nat" where
  "unpack_one words bits i =
     (let per = symsPerWord bits; w = i div per; v = (if w < length words then words ! w else 0)
      in nat (((\<lambda>v. v sdiv js_shl1 bits) ^^ (i mod per)) (int v) smod js_shl1 bits))"

definition unpackMoves :: "nat list \<Rightarrow> nat \<Rightarrow> nat \<Rightarrow> nat list" where
  "unpackMoves words bits n = map (unpack_one words bits) [0..<n]"

lemma length_unpackMoves [simp]: "length (unpackMoves words bits n) = n"
  by (simp add: unpackMoves_def)

subsection \<open>Shift and mask\<close>

lemma js_shl1_small: "bits mod 32 < 31 \<Longrightarrow> js_shl1 bits = 2 ^ (bits mod 32)"
  unfolding js_shl1_def js_int32_def push_bit_eq_mult signed_take_bit_int_eq_self_iff mult_1
  by (intro conjI power_strict_increasing) (simp_all add: order_trans [of _ 0])

lemma js_shl1_31: "bits mod 32 = 31 \<Longrightarrow> js_shl1 bits = - (2 ^ 31)"
  by (simp add: js_shl1_def js_int32_def signed_take_bit_eq_take_bit_minus push_bit_eq_mult)

text \<open>The mask keeps the low bits at every width.\<close>

lemma js_mask: "js_int32 (js_shl1 bits - 1) = mask (bits mod 32)"
proof (cases "bits mod 32 = 31")
  case True
  show ?thesis unfolding js_shl1_31 [OF True] True by (simp add: js_int32_def mask_eq_exp_minus_1)
next
  case False
  then have k: "bits mod 32 < 31" using mod_less_divisor [of 32 bits] by linarith
  then have "(2 :: int) ^ (bits mod 32) \<le> 2 ^ 31" by (intro power_increasing) simp_all
  moreover have "(0 :: int) < 2 ^ (bits mod 32)" by simp
  ultimately show ?thesis
    unfolding js_int32_def js_shl1_small [OF k] mask_eq_exp_minus_1 signed_take_bit_int_eq_self_iff by linarith
qed

lemma js_digit: "js_int32 (int m) AND js_int32 (js_shl1 bits - 1) = int (m mod 2 ^ (bits mod 32))"
proof -
  have k: "bits mod 32 \<le> Suc 31" using mod_less_divisor [of 32 bits] by linarith
  show ?thesis
    unfolding js_mask unfolding take_bit_eq_mask [symmetric] js_int32_def take_bit_signed_take_bit [OF k]
    by (simp add: take_bit_eq_mod zmod_int)
qed

subsection \<open>The digits of a word\<close>

definition digits :: "nat \<Rightarrow> nat list \<Rightarrow> nat" where
  "digits k ms = foldr (\<lambda>m v. v * 2 ^ k + m mod 2 ^ k) ms 0"

lemma digits_simps [simp]: "digits k [] = 0" "digits k (m # ms) = digits k ms * 2 ^ k + m mod 2 ^ k"
  by (simp_all add: digits_def)

lemma digits_nth: "j < length ms \<Longrightarrow> digits k ms div 2 ^ (k * j) mod 2 ^ k = ms ! j mod 2 ^ k"
proof (induction ms arbitrary: j)
  case (Cons m ms)
  then show ?case by (cases j) (simp_all add: power_add div_mult2_eq)
qed simp

lemma digits_bound: "digits k ms < 2 ^ (k * length ms)"
proof (induction ms)
  case (Cons m ms)
  have "digits k (m # ms) < Suc (digits k ms) * 2 ^ k" by simp
  also have "\<dots> \<le> 2 ^ (k * length ms) * 2 ^ k" using Cons by (intro mult_right_mono) simp_all
  finally show ?case by (simp add: power_add mult.commute)
qed simp

lemma symsPerWord_pos: "0 < bits \<Longrightarrow> bits \<le> 50 \<Longrightarrow> 0 < symsPerWord bits"
  by (simp add: symsPerWord_def div_greater_zero_iff)

text \<open>Up to 50 bits the shift is negative only at 31, where a word holds one symbol.\<close>

lemma width_cases:
  assumes "0 < bits" "bits \<le> 50"
  obtains "bits mod 32 < 31" | "bits = 31" "symsPerWord bits = 1"
proof (cases "bits mod 32 = 31")
  case True
  then have "bits = 31" using assms by presburger
  then show ?thesis using that(2) by (simp add: symsPerWord_def)
next
  case False
  then have "bits mod 32 < 31" using mod_less_divisor [of 32 bits] by linarith
  then show ?thesis by (rule that(1))
qed

lemma pack_word_digits:
  assumes "0 < bits" "bits \<le> 50" "length chunk \<le> symsPerWord bits"
  shows "pack_word bits chunk = int (digits (bits mod 32) chunk)"
  using assms(1,2)
proof (cases rule: width_cases)
  case 1
  then show ?thesis unfolding pack_word_def js_digit by (induction chunk) (simp_all add: js_shl1_small)
next
  case 2
  then have "chunk = [] \<or> (\<exists>m. chunk = [m])" using assms(3) by (cases chunk) auto
  then show ?thesis by (auto simp: pack_word_def js_digit)
qed

lemma sdiv_funpow: "((\<lambda>v. v sdiv 2 ^ k) ^^ j) (int v) = int (v div 2 ^ (k * j))"
proof -
  have "int n sdiv 2 ^ k = int (n div 2 ^ k)" for n
    by (simp add: signed_divide_int_def sgn_if zdiv_int)
  then show ?thesis by (induction j) (simp_all add: div_mult2_eq [symmetric] power_add mult.commute)
qed

lemma unpack_one_digit:
  assumes "0 < bits" "bits \<le> 50"
  shows "unpack_one words bits i =
    (let per = symsPerWord bits; w = i div per; v = (if w < length words then words ! w else 0)
     in v div 2 ^ (bits mod 32 * (i mod per)) mod 2 ^ (bits mod 32))"
  using assms
proof (cases rule: width_cases)
  case 1
  have "nat (int n smod 2 ^ (bits mod 32)) = n mod 2 ^ (bits mod 32)" for n
    by (simp add: signed_modulo_int_def sgn_if nat_mod_distrib nat_power_eq)
  then show ?thesis by (simp only: unpack_one_def Let_def js_shl1_small [OF 1] sdiv_funpow)
next
  case 2
  have "nat (int n smod js_shl1 31) = n mod 2 ^ 31" for n
    by (simp add: js_shl1_31 signed_modulo_int_def sgn_if nat_mod_distrib)
  moreover have "symsPerWord 31 = 1" by (simp add: symsPerWord_def)
  ultimately show ?thesis unfolding unpack_one_def 2(1) by (simp add: Let_def)
qed

subsection \<open>The round trip\<close>

lemma packMoves_word:
  assumes "0 < bits" "bits \<le> 50" "per = symsPerWord bits" "w < length (packMoves moves bits)"
  shows "packMoves moves bits ! w = digits (bits mod 32) (take per (drop (w * per) moves))"
proof -
  have "take (min (length moves) ((w + 1) * per) - w * per) (drop (w * per) moves) = take per (drop (w * per) moves)"
    by (cases "length moves \<le> (w + 1) * per") (simp_all add: min_def algebra_simps)
  then show ?thesis
    using assms pack_word_digits [OF assms(1,2), of "take per (drop (w * per) moves)"] by (simp add: packMoves_def Let_def)
qed

lemma chunk_count: "0 < per \<Longrightarrow> i < n \<Longrightarrow> i div per < (n + per - 1) div (per :: nat)"
proof -
  assume p: "0 < per" "i < n"
  then have "i + per \<le> n + per - 1" by simp
  then have "(i + per) div per \<le> (n + per - 1) div per" by (rule div_le_mono)
  moreover have "(i + per) div per = Suc (i div per)"
    using p(1) div_add_self2 [of per i] by simp
  ultimately show ?thesis by linarith
qed

lemma unpack_pack_mod:
  assumes "0 < bits" "bits \<le> 50"
  shows "unpackMoves (packMoves moves bits) bits (length moves) = map (\<lambda>m. m mod 2 ^ (bits mod 32)) moves"
proof (rule nth_equalityI)
  fix i
  assume "i < length (unpackMoves (packMoves moves bits) bits (length moves))"
  then have i: "i < length moves" by simp
  define per where "per = symsPerWord bits"
  have per: "0 < per" using symsPerWord_pos assms by (simp add: per_def)
  have w: "i div per < length (packMoves moves bits)"
    using chunk_count [OF per i] by (simp add: packMoves_def Let_def per_def)
  let ?chunk = "take per (drop (i div per * per) moves)"
  have k: "i mod per < length ?chunk" using i per by (simp add: less_diff_conv)
  have "i div per * per \<le> length moves" using i div_times_less_eq_dividend [of i per] by linarith
  then have "?chunk ! (i mod per) = moves ! i" using k nth_drop [of "i div per * per" moves "i mod per"] by simp
  then have "packMoves moves bits ! (i div per) div 2 ^ (bits mod 32 * (i mod per)) mod 2 ^ (bits mod 32) = moves ! i mod 2 ^ (bits mod 32)"
    unfolding packMoves_word [OF assms per_def w] digits_nth [OF k] by (rule arg_cong)
  then show "unpackMoves (packMoves moves bits) bits (length moves) ! i = map (\<lambda>m. m mod 2 ^ (bits mod 32)) moves ! i"
    using i w by (simp add: unpackMoves_def unpack_one_digit [OF assms] per_def [symmetric] Let_def)
qed simp

text \<open>Below 32 bits symbols that fit their width come back as they were.\<close>

lemma unpack_pack:
  assumes "0 < bits" "bits < 32" "\<And>m. m \<in> set moves \<Longrightarrow> m < 2 ^ bits"
  shows "unpackMoves (packMoves moves bits) bits (length moves) = moves"
  using unpack_pack_mod [of bits moves] assms by (simp add: map_idI)

lemma pack_words_small:
  assumes "0 < bits" "bits \<le> 50" "v \<in> set (packMoves moves bits)"
  shows "v < 2 ^ 50"
proof -
  define per where "per = symsPerWord bits"
  obtain w where w: "w < length (packMoves moves bits)" "v = packMoves moves bits ! w"
    using assms(3) by (metis in_set_conv_nth)
  let ?chunk = "take per (drop (w * per) moves)"
  have "v < 2 ^ (bits mod 32 * length ?chunk)"
    unfolding w(2) packMoves_word [OF assms(1,2) per_def w(1)] by (rule digits_bound)
  also have "bits mod 32 * length ?chunk \<le> 50"
  proof -
    have "bits mod 32 * length ?chunk \<le> bits * (50 div bits)"
      by (intro mult_le_mono) (simp_all add: per_def symsPerWord_def mod_less_eq_dividend)
    also have "\<dots> \<le> 50" by (rule times_div_less_eq_dividend)
    finally show ?thesis .
  qed
  then have "(2 :: nat) ^ (bits mod 32 * length ?chunk) \<le> 2 ^ 50" by (rule power_increasing) simp
  finally show ?thesis .
qed

section \<open>Claim verification\<close>

text \<open>
  An entry is one posted claim. \<open>replay\<close> is the caller's function; \<open>None\<close> is a rejected
  promise, which leaves the verdict at \<open>-1\<close>. The verdict cache is keyed by the claim's text.
\<close>

record claim_entry =
  ce_e :: string
  ce_day :: nat
  ce_addr :: string
  ce_score :: int
  ce_n :: nat
  ce_ts :: nat
  ce_words :: "nat list"

definition claim_key :: "claim_entry \<Rightarrow> string" where
  "claim_key en = ce_e en @ '':'' @ ce_addr en @ '':'' @ show_int (ce_score en) @ '':'' @ show_nat (ce_n en) @ '':'' @
     join_with '','' (map show_nat (ce_words en))"

text \<open>
  \<open>best\<close>, an object keyed by address in insertion order. The addresses are the chain's, of 46
  hexadecimal digits, so none names a property every object inherits and none is an array index.
\<close>

fun put_best :: "(string \<times> claim_entry) list \<Rightarrow> claim_entry \<Rightarrow> (string \<times> claim_entry) list" where
  "put_best [] en = [(ce_addr en, en)]"
| "put_best ((a, b) # rest) en =
     (if a = ce_addr en then (a, if ce_score b < ce_score en then en else b) # rest
      else (a, b) # put_best rest en)"

definition verify_step :: "(claim_entry \<Rightarrow> int option) \<Rightarrow> claim_entry \<Rightarrow>
    (string \<rightharpoonup> int) \<times> (string \<times> claim_entry) list \<Rightarrow> (string \<rightharpoonup> int) \<times> (string \<times> claim_entry) list" where
  "verify_step replay en st =
     (case st of (cache, best) \<Rightarrow>
        if ce_addr en = [] \<or> \<not> ce_score en > 0 then (cache, best)
        else (let ck = claim_key en;
                  cache' = (case cache ck of
                     Some _ \<Rightarrow> cache
                   | None \<Rightarrow> cache(ck \<mapsto> (case replay en of None \<Rightarrow> -1 | Some v \<Rightarrow> v)))
              in if cache' ck \<noteq> Some (ce_score en) then (cache', best)
                 else (cache', put_best best en)))"

definition verifyEntries :: "(claim_entry \<Rightarrow> int option) \<Rightarrow> (string \<rightharpoonup> int) \<Rightarrow> claim_entry list \<Rightarrow>
    (string \<rightharpoonup> int) \<times> claim_entry list" where
  "verifyEntries replay cache entries =
     (let (cache', best) = fold (verify_step replay) entries (cache, [])
      in (cache', sort_key (\<lambda>en. - ce_score en) (map snd best)))"

text \<open>
  Today's entries out of a contract view: \<open>eday\<close> lists the entry ids in the order of
  \<^verbatim>\<open>Object.keys\<close>; the other maps default to 0.
\<close>

record claim_maps =
  cm_eday :: "(string \<times> nat) list"
  cm_eaddr :: "string \<rightharpoonup> string"
  cm_escore :: "string \<rightharpoonup> int"
  cm_en :: "string \<rightharpoonup> nat"
  cm_ets :: "string \<rightharpoonup> nat"
  cm_words :: "(string \<rightharpoonup> nat) list"

definition or_zero :: "('a \<rightharpoonup> 'n :: zero) \<Rightarrow> 'a \<Rightarrow> 'n" where
  "or_zero m k = (case m k of None \<Rightarrow> 0 | Some v \<Rightarrow> v)"

definition entriesFrom :: "claim_maps \<Rightarrow> nat \<Rightarrow> claim_entry list" where
  "entriesFrom sto day =
     concat (map (\<lambda>(e, d).
       if d \<noteq> day then []
       else [\<lparr>ce_e = e, ce_day = day,
              ce_addr = (case cm_eaddr sto e of None \<Rightarrow> [] | Some a \<Rightarrow> a),
              ce_score = or_zero (cm_escore sto) e, ce_n = or_zero (cm_en sto) e,
              ce_ts = or_zero (cm_ets sto) e, ce_words = map (\<lambda>m. or_zero m e) (cm_words sto)\<rparr>])
       (cm_eday sto))"

section \<open>The verified rows\<close>

text \<open>
  The verdict a replay gives, and the entries that a board may show. The cache is sound when each
  verdict in it is the replay's for every entry with that key; \<open>keyed\<close> says that the replay
  looks at nothing that the key does not name.
\<close>

definition verdict :: "(claim_entry \<Rightarrow> int option) \<Rightarrow> claim_entry \<Rightarrow> int" where
  "verdict replay en = (case replay en of None \<Rightarrow> -1 | Some v \<Rightarrow> v)"

definition honest :: "(claim_entry \<Rightarrow> int option) \<Rightarrow> claim_entry \<Rightarrow> bool" where
  "honest replay en \<longleftrightarrow> ce_addr en \<noteq> [] \<and> 0 < ce_score en \<and> replay en = Some (ce_score en)"

definition keyed :: "(claim_entry \<Rightarrow> int option) \<Rightarrow> claim_entry set \<Rightarrow> bool" where
  "keyed replay E \<longleftrightarrow> (\<forall>a \<in> E. \<forall>b \<in> E. claim_key a = claim_key b \<longrightarrow> replay a = replay b)"

definition cache_sound :: "(claim_entry \<Rightarrow> int option) \<Rightarrow> claim_entry set \<Rightarrow> (string \<rightharpoonup> int) \<Rightarrow> bool" where
  "cache_sound replay E cache \<longleftrightarrow> (\<forall>en \<in> E. \<forall>v. cache (claim_key en) = Some v \<longrightarrow> v = verdict replay en)"

lemma put_best_elem:
  "(a, b) \<in> set (put_best best en) \<Longrightarrow> (a, b) \<in> set best \<or> (a = ce_addr en \<and> b = en)"
  by (induction best en rule: put_best.induct) (auto split: if_splits)

lemma put_best_keeps:
  "(a, b) \<in> set best \<Longrightarrow> \<exists>b'. (a, b') \<in> set (put_best best en) \<and> ce_score b \<le> ce_score b'"
  by (induction best en rule: put_best.induct) (auto intro: less_imp_le)

lemma put_best_new: "\<exists>b'. (ce_addr en, b') \<in> set (put_best best en) \<and> ce_score en \<le> ce_score b'"
  by (induction best en rule: put_best.induct) auto

lemma fst_put_best: "fst ` set (put_best best en) = insert (ce_addr en) (fst ` set best)"
  by (induction best en rule: put_best.induct) auto

lemma distinct_put_best: "distinct (map fst best) \<Longrightarrow> distinct (map fst (put_best best en))"
proof (induction best en rule: put_best.induct)
  case (2 a b rest en)
  then show ?case using fst_put_best [of rest en] by auto
qed simp

text \<open>After any number of entries, \<open>best\<close> holds a maximal honest entry for each address that has one.\<close>

definition best_of :: "claim_entry set \<Rightarrow> (string \<times> claim_entry) list \<Rightarrow> bool" where
  "best_of E best \<longleftrightarrow> distinct (map fst best) \<and>
     (\<forall>a b. (a, b) \<in> set best \<longrightarrow> b \<in> E \<and> ce_addr b = a) \<and>
     (\<forall>en \<in> E. \<exists>b. (ce_addr en, b) \<in> set best \<and> ce_score en \<le> ce_score b)"

lemma best_ofD:
  assumes "best_of E best"
  shows "distinct (map fst best)" "(a, b) \<in> set best \<Longrightarrow> b \<in> E \<and> ce_addr b = a"
    "en \<in> E \<Longrightarrow> \<exists>b. (ce_addr en, b) \<in> set best \<and> ce_score en \<le> ce_score b"
  using assms by (simp_all add: best_of_def)

lemma best_of_put:
  assumes "best_of E best"
  shows "best_of (insert en E) (put_best best en)"
proof -
  have "b \<in> insert en E \<and> ce_addr b = a" if "(a, b) \<in> set (put_best best en)" for a b
    using put_best_elem [OF that] best_ofD(2) [OF assms] by auto
  moreover have "\<exists>b. (ce_addr x, b) \<in> set (put_best best en) \<and> ce_score x \<le> ce_score b"
    if "x \<in> insert en E" for x
  proof (cases "x = en")
    case True
    then show ?thesis using put_best_new by simp
  next
    case False
    then have "x \<in> E" using that by simp
    then obtain b where b: "(ce_addr x, b) \<in> set best" "ce_score x \<le> ce_score b"
      using best_ofD(3) [OF assms] by blast
    from b(1) obtain b' where "(ce_addr x, b') \<in> set (put_best best en)" "ce_score b \<le> ce_score b'"
      using put_best_keeps by blast
    then show ?thesis using b(2) order_trans by blast
  qed
  moreover have "distinct (map fst (put_best best en))"
    by (rule distinct_put_best [OF best_ofD(1) [OF assms]])
  ultimately show ?thesis by (simp add: best_of_def)
qed

lemma verify_step_inv:
  assumes "keyed replay E" "cache_sound replay E cache" "best_of {x \<in> D. honest replay x} best" "en \<in> E"
    and "verify_step replay en (cache, best) = (cache', best')"
  shows "cache_sound replay E cache' \<and> best_of {x \<in> insert en D. honest replay x} best'"
proof (cases "ce_addr en = [] \<or> \<not> ce_score en > 0")
  case True
  then have "\<not> honest replay en" by (auto simp: honest_def)
  then have "{x \<in> insert en D. honest replay x} = {x \<in> D. honest replay x}" by auto
  then show ?thesis using True assms by (simp add: verify_step_def)
next
  case False
  let ?ck = "claim_key en"
  define c where "c = (case cache ?ck of Some _ \<Rightarrow> cache | None \<Rightarrow> cache(?ck \<mapsto> verdict replay en))"
  have ck: "c ?ck = Some (verdict replay en)"
    using assms(2,4) by (auto simp: c_def cache_sound_def split: option.splits)
  have sound: "cache_sound replay E c"
    unfolding cache_sound_def
  proof (intro ballI allI impI)
    fix x v
    assume x: "x \<in> E" "c (claim_key x) = Some v"
    show "v = verdict replay x"
    proof (cases "claim_key x = ?ck")
      case True
      then have "replay x = replay en" using assms(1,4) x(1) True unfolding keyed_def by blast
      then have "verdict replay x = verdict replay en" by (simp only: verdict_def)
      moreover have "c (claim_key x) = Some (verdict replay en)" unfolding True by (rule ck)
      ultimately show ?thesis using x(2) by (simp only: option.inject)
    next
      case False
      then have "cache (claim_key x) = Some v" using x(2) by (auto simp: c_def split: option.splits)
      then show ?thesis using assms(2) x(1) by (simp add: cache_sound_def)
    qed
  qed
  have st: "verify_step replay en (cache, best) =
      (if verdict replay en \<noteq> ce_score en then (c, best) else (c, put_best best en))"
    using False ck unfolding verify_step_def Let_def prod.case verdict_def [symmetric] c_def [symmetric]
    by simp
  have hon: "honest replay en \<longleftrightarrow> verdict replay en = ce_score en"
    using False by (cases "replay en") (auto simp: honest_def verdict_def)
  show ?thesis
  proof (cases "honest replay en")
    case True
    have "{x \<in> insert en D. honest replay x} = insert en {x \<in> D. honest replay x}" using True by auto
    then show ?thesis using st hon True assms(5) sound best_of_put [OF assms(3)] by simp
  next
    case False
    have "{x \<in> insert en D. honest replay x} = {x \<in> D. honest replay x}" using False by auto
    then show ?thesis using st hon False assms(3,5) sound by simp
  qed
qed

lemma verify_fold_inv:
  assumes "keyed replay E" "cache_sound replay E cache" "best_of {x \<in> D. honest replay x} best" "set entries \<subseteq> E"
    and "fold (verify_step replay) entries (cache, best) = (cache', best')"
  shows "cache_sound replay E cache' \<and> best_of {x \<in> D \<union> set entries. honest replay x} best'"
  using assms(2-5)
proof (induction entries arbitrary: cache best D)
  case (Cons en entries)
  obtain c1 b1 where s: "verify_step replay en (cache, best) = (c1, b1)" by (cases "verify_step replay en (cache, best)")
  have "cache_sound replay E c1 \<and> best_of {x \<in> insert en D. honest replay x} b1"
    by (rule verify_step_inv [OF assms(1) Cons.prems(1,2) _ s]) (use Cons.prems(3) in simp)
  then have "cache_sound replay E cache' \<and> best_of {x \<in> insert en D \<union> set entries. honest replay x} best'"
    using Cons.prems(3,4) s by (intro Cons.IH) auto
  then show ?case by simp
qed simp

lemma verify_rows:
  assumes "keyed replay (set entries)" "cache_sound replay (set entries) cache"
    and "verifyEntries replay cache entries = (cache', rows)"
  shows "cache_sound replay (set entries) cache'"
    "r \<in> set rows \<Longrightarrow> r \<in> set entries \<and> honest replay r"
    "distinct (map ce_addr rows)" "sorted (map (\<lambda>r. - ce_score r) rows)"
    "en \<in> set entries \<Longrightarrow> honest replay en \<Longrightarrow> \<exists>r \<in> set rows. ce_addr r = ce_addr en \<and> ce_score en \<le> ce_score r"
proof -
  obtain best where f: "fold (verify_step replay) entries (cache, []) = (cache', best)"
    and rows: "rows = sort_key (\<lambda>en. - ce_score en) (map snd best)"
    using assms(3) by (auto simp: verifyEntries_def split: prod.splits)
  have "best_of {x \<in> {}. honest replay x} []" by (simp add: best_of_def)
  from verify_fold_inv [OF assms(1,2) this order_refl f]
  have inv: "cache_sound replay (set entries) cache'" "best_of {x \<in> set entries. honest replay x} best" by simp_all
  show "cache_sound replay (set entries) cache'" by (rule inv)
  show "r \<in> set rows \<Longrightarrow> r \<in> set entries \<and> honest replay r"
    using inv(2) by (auto simp: rows best_of_def)
  have "map ce_addr (map snd best) = map fst best"
    using inv(2) by (auto simp: best_of_def)
  then have "distinct (map ce_addr (map snd best))" using inv(2) by (simp only: best_of_def)
  moreover have "mset (map ce_addr rows) = mset (map ce_addr (map snd best))" by (simp add: rows image_mset.compositionality)
  ultimately show "distinct (map ce_addr rows)" using mset_eq_imp_distinct_iff by blast
  show "sorted (map (\<lambda>r. - ce_score r) rows)" by (simp add: rows)
  show "\<exists>r \<in> set rows. ce_addr r = ce_addr en \<and> ce_score en \<le> ce_score r"
    if en: "en \<in> set entries" "honest replay en"
  proof -
    obtain b where b: "(ce_addr en, b) \<in> set best" "ce_score en \<le> ce_score b"
      using best_ofD(3) [OF inv(2)] en by blast
    moreover have "ce_addr b = ce_addr en" using best_ofD(2) [OF inv(2) b(1)] by simp
    ultimately show ?thesis by (force simp: rows)
  qed
qed

end
