(* ===== verification/BoardDaily.thy ===== *)
theory BoardDaily
  imports Provable
begin

text \<open>
  \<^verbatim>\<open>static/board-daily.js\<close>: the harness that replays a daily solo game against a
  deterministic bot. A game module is a record of functions (\<^verbatim>\<open>rules\<close>); what the harness
  relies on is the locale \<open>board_rules\<close>, interpreted by the three games. The hash
  \<^verbatim>\<open>H\<close> (blake2b, hexadecimal) is a parameter.
\<close>

declare One_nat_def [simp del]

section \<open>The seeded stream\<close>

text \<open>\<^verbatim>\<open>parseInt(s, 16)\<close> of a string of hexadecimal digits, which a digest is.\<close>

definition hex_digit :: "char \<Rightarrow> nat" where
  "hex_digit ch =
     (let c = (of_char ch :: nat)
      in if 48 \<le> c \<and> c \<le> 57 then c - 48 else if 97 \<le> c \<and> c \<le> 102 then c - 87 else if 65 \<le> c \<and> c \<le> 70 then c - 55 else 0)"

definition parse_hex :: "string \<Rightarrow> nat" where
  "parse_hex s = foldl (\<lambda>v ch. v * 16 + hex_digit ch) 0 s"

text \<open>
  The \<open>n\<close>-th draw of \<^verbatim>\<open>prng(seed)\<close> is the number \<open>prng_k H seed n / 1000000\<close>; the model
  keeps the numerator. \<^verbatim>\<open>Math.floor(r() * m)\<close> is \<open>prng_pick\<close>, exact for the
  \<open>m \<le> 9\<close> that the bots use: \<open>k * m\<close> is a multiple of a million only where the quotient is
  computed exactly in floating point.
\<close>

definition prng_k :: "(string \<Rightarrow> string) \<Rightarrow> string \<Rightarrow> nat \<Rightarrow> nat" where
  "prng_k H seed n = parse_hex (take 13 (H (seed @ '':'' @ show_nat n))) mod 1000000"

definition prng_pick :: "(string \<Rightarrow> string) \<Rightarrow> string \<Rightarrow> nat \<Rightarrow> nat \<Rightarrow> nat" where
  "prng_pick H seed n m = prng_k H seed n * m div 1000000"

lemma prng_k_less: "prng_k H seed n < 1000000"
  by (simp add: prng_k_def)

lemma prng_pick_less: "0 < m \<Longrightarrow> prng_pick H seed n m < m"
  using prng_k_less [of H seed n] by (simp add: prng_pick_def div_less_iff_less_mult mult.commute)

section \<open>The harness\<close>

record 's rules =
  r_slug :: string
  r_bits :: nat
  r_max :: nat
  r_start :: 's
  r_legal :: "'s \<Rightarrow> nat \<Rightarrow> nat list"
  r_apply :: "'s \<Rightarrow> nat \<Rightarrow> nat \<Rightarrow> 's"
  r_over :: "'s \<Rightarrow> bool"
  r_winner :: "'s \<Rightarrow> nat"
  r_bot :: "'s \<Rightarrow> string \<Rightarrow> nat \<Rightarrow> int"
  r_margin :: "'s \<Rightarrow> int"

text \<open>The two results of \<^verbatim>\<open>play\<close>; \<^verbatim>\<open>over\<close> and \<^verbatim>\<open>complete\<close> are \<open>r_over\<close> of the state.\<close>

datatype 's run = IllegalRun | Run 's "nat list" nat

definition next_player :: "'s rules \<Rightarrow> 's \<Rightarrow> nat \<Rightarrow> nat" where
  "next_player R st player =
     (let p = 3 - player
      in if p = 1 \<and> r_legal R st 1 = [] \<and> \<not> r_over R st then 2 else p)"

definition bot_move :: "'s rules \<Rightarrow> string \<Rightarrow> 's \<Rightarrow> nat \<Rightarrow> nat" where
  "bot_move R seed st ply =
     (let legal = r_legal R st 2; mv = r_bot R st seed ply
      in if mv \<in> int ` set legal then nat mv else legal ! 0)"

function play_loop :: "'s rules \<Rightarrow> string \<Rightarrow> nat list \<Rightarrow> 's \<Rightarrow> nat \<Rightarrow> nat \<Rightarrow> nat list \<Rightarrow> 's run" where
  "play_loop R seed humanMoves st player ply moves =
     (if r_over R st \<or> \<not> ply \<le> r_max R + 2 then Run st moves ply
      else if player = 1
      then (case humanMoves of
              [] \<Rightarrow> Run st moves ply
            | mv # rest \<Rightarrow>
                if mv \<notin> set (r_legal R st 1) then IllegalRun
                else (let st' = r_apply R st mv 1
                      in play_loop R seed rest st' (next_player R st' 1) (ply + 1) (moves @ [mv])))
      else if r_legal R st 2 = [] then play_loop R seed humanMoves st 1 ply moves
      else (let mv = bot_move R seed st ply; st' = r_apply R st mv player
            in play_loop R seed humanMoves st' (next_player R st' player) (ply + 1) (moves @ [mv])))"
  by pat_completeness auto
termination
  by (relation "measure (\<lambda>(R, seed, hs, st, player, ply, moves).
        2 * (r_max R + 3 - ply) + (if player = 1 then 0 else 1))") (auto simp: next_player_def Let_def)

declare play_loop.simps [simp del]

definition play :: "'s rules \<Rightarrow> string \<Rightarrow> nat list \<Rightarrow> 's run" where
  "play R seed humanMoves = play_loop R seed humanMoves (r_start R) 1 0 []"

definition score :: "'s rules \<Rightarrow> 's run \<Rightarrow> int" where
  "score R r =
     (case r of
        IllegalRun \<Rightarrow> -1
      | Run st moves plies \<Rightarrow>
          if \<not> r_over R st then -1
          else (let m = max 0 (r_margin R st)
                in if r_winner R st = 1 then 100 + max 0 (int (r_max R) - int plies) * 2 + m
                   else if r_winner R st = 0 then 40 + m else m))"

definition verifyClaim :: "'s rules \<Rightarrow> nat \<Rightarrow> nat \<Rightarrow> nat list \<Rightarrow> string \<Rightarrow> string \<Rightarrow> int" where
  "verifyClaim R day n words anchorHash addr =
     (if \<not> (n > 0 \<and> n \<le> r_max R) then -1
      else (let moves = unpackMoves words (r_bits R) n;
                seed = provableSeed (r_slug R) day anchorHash addr
            in score R (play R seed moves)))"

section \<open>What a daily game owes its player\<close>

text \<open>
  A replay that is not rejected is never cut by the loop's bound: it made at most \<open>r_max\<close> plies,
  and if the game is not over it stopped because the human moves ran out, at a state where the
  human has a legal move and any of them carries the replay on. Moves after the end are ignored.
\<close>

definition never_cut :: "'s rules \<Rightarrow> bool" where
  "never_cut R \<longleftrightarrow> (\<forall>seed hs st moves plies. play R seed hs = Run st moves plies \<longrightarrow>
     plies \<le> r_max R \<and> plies = length moves \<and>
     (\<not> r_over R st \<longrightarrow> r_legal R st 1 \<noteq> [] \<and>
        (\<forall>mv \<in> set (r_legal R st 1). play R seed (hs @ [mv]) \<noteq> IllegalRun)) \<and>
     (r_over R st \<longrightarrow> (\<forall>ext. play R seed (hs @ ext) = Run st moves plies)))"

text \<open>The score of a finished game tells who won, and no other run has a score.\<close>

definition score_tells :: "'s rules \<Rightarrow> bool" where
  "score_tells R \<longleftrightarrow> (\<forall>seed hs. case play R seed hs of
     IllegalRun \<Rightarrow> score R (play R seed hs) = -1
   | Run st moves plies \<Rightarrow>
       if r_over R st
       then (r_winner R st = 1 \<longleftrightarrow> 100 \<le> score R (play R seed hs)) \<and>
            (r_winner R st = 0 \<longleftrightarrow> score R (play R seed hs) = 40) \<and>
            (r_winner R st = 2 \<longleftrightarrow> score R (play R seed hs) = 0)
       else score R (play R seed hs) = -1)"

section \<open>What a game module promises\<close>

text \<open>
  \<open>inv\<close> holds of every state a game goes through, \<open>free\<close> counts the moves that are left at most.
\<close>

locale board_rules =
  fixes R :: "'s rules" and inv :: "'s \<Rightarrow> bool" and free :: "'s \<Rightarrow> nat"
  assumes start_inv: "inv (r_start R)"
    and start_free: "free (r_start R) \<le> r_max R"
    and start_move: "r_legal R (r_start R) 1 \<noteq> []"
    and apply_inv: "inv s \<Longrightarrow> \<not> r_over R s \<Longrightarrow> p = 1 \<or> p = 2 \<Longrightarrow> m \<in> set (r_legal R s p) \<Longrightarrow> inv (r_apply R s m p)"
    and apply_free: "inv s \<Longrightarrow> p = 1 \<or> p = 2 \<Longrightarrow> m \<in> set (r_legal R s p) \<Longrightarrow> free (r_apply R s m p) < free s"
    and stuck_over: "inv s \<Longrightarrow> r_legal R s 1 = [] \<Longrightarrow> r_legal R s 2 = [] \<Longrightarrow> r_over R s"
    and bot_legal: "inv s \<Longrightarrow> \<not> r_over R s \<Longrightarrow> r_legal R s 2 \<noteq> [] \<Longrightarrow> r_bot R s seed ply \<in> int ` set (r_legal R s 2)"
    and win_margin: "inv s \<Longrightarrow> r_over R s \<Longrightarrow> r_winner R s \<le> 2 \<and> (r_winner R s = 1 \<or> r_margin R s \<le> 0)"
begin

lemma bot_move_legal:
  "inv s \<Longrightarrow> \<not> r_over R s \<Longrightarrow> r_legal R s 2 \<noteq> [] \<Longrightarrow> bot_move R seed s ply \<in> set (r_legal R s 2)"
  using bot_legal [of s seed ply] by (auto simp: bot_move_def)

lemma bot_move_is_bot:
  "inv s \<Longrightarrow> \<not> r_over R s \<Longrightarrow> r_legal R s 2 \<noteq> [] \<Longrightarrow> int (bot_move R seed s ply) = r_bot R s seed ply"
  using bot_legal [of s seed ply] by (auto simp: bot_move_def)

text \<open>What holds whenever the loop is entered.\<close>

definition entry_ok :: "'s \<Rightarrow> nat \<Rightarrow> nat \<Rightarrow> nat list \<Rightarrow> bool" where
  "entry_ok st player ply moves \<longleftrightarrow> inv st \<and> free st + ply \<le> r_max R \<and> ply = length moves \<and>
     (player = 1 \<or> player = 2) \<and> (player = 1 \<longrightarrow> r_over R st \<or> r_legal R st 1 \<noteq> [])"

lemma entry_step:
  assumes "entry_ok st player ply moves" "\<not> r_over R st" "mv \<in> set (r_legal R st player)"
  shows "entry_ok (r_apply R st mv player) (next_player R (r_apply R st mv player) player) (ply + 1) (moves @ [mv])"
  using assms apply_inv [of st player mv] apply_free [of st player mv]
  by (auto simp: entry_ok_def next_player_def Let_def)

lemma entry_pass:
  assumes "entry_ok st player ply moves" "\<not> r_over R st" "r_legal R st 2 = []"
  shows "entry_ok st 1 ply moves"
  using assms stuck_over [of st] by (auto simp: entry_ok_def)

lemma entry_start: "entry_ok (r_start R) 1 0 []"
  using start_inv start_free start_move by (simp add: entry_ok_def)

text \<open>Induction over the iterations of the loop, one case per way an iteration goes.\<close>

lemma loop_induct [consumes 1, case_names over stop illegal human pass bot]:
  assumes ok: "entry_ok st player ply moves"
    and over: "\<And>hs st player ply moves. entry_ok st player ply moves \<Longrightarrow> r_over R st \<Longrightarrow> P hs st player ply moves"
    and stop: "\<And>st ply moves. entry_ok st 1 ply moves \<Longrightarrow> \<not> r_over R st \<Longrightarrow> P [] st 1 ply moves"
    and illegal: "\<And>mv hs st ply moves. entry_ok st 1 ply moves \<Longrightarrow> \<not> r_over R st \<Longrightarrow> mv \<notin> set (r_legal R st 1) \<Longrightarrow>
        P (mv # hs) st 1 ply moves"
    and human: "\<And>mv hs st ply moves. entry_ok st 1 ply moves \<Longrightarrow> \<not> r_over R st \<Longrightarrow> mv \<in> set (r_legal R st 1) \<Longrightarrow>
        P hs (r_apply R st mv 1) (next_player R (r_apply R st mv 1) 1) (ply + 1) (moves @ [mv]) \<Longrightarrow>
        P (mv # hs) st 1 ply moves"
    and pass: "\<And>hs st ply moves. entry_ok st 2 ply moves \<Longrightarrow> \<not> r_over R st \<Longrightarrow> r_legal R st 2 = [] \<Longrightarrow>
        P hs st 1 ply moves \<Longrightarrow> P hs st 2 ply moves"
    and bot: "\<And>hs st ply moves. entry_ok st 2 ply moves \<Longrightarrow> \<not> r_over R st \<Longrightarrow> r_legal R st 2 \<noteq> [] \<Longrightarrow>
        P hs (r_apply R st (bot_move R seed st ply) 2) (next_player R (r_apply R st (bot_move R seed st ply) 2) 2)
          (ply + 1) (moves @ [bot_move R seed st ply]) \<Longrightarrow>
        P hs st 2 ply moves"
  shows "P hs st player ply moves"
  using ok
proof (induction "2 * (r_max R + 3 - ply) + (if player = 1 then 0 else 1)" arbitrary: hs st player ply moves rule: less_induct)
  case less
  note ok = less.prems
  have bound: "ply \<le> r_max R" and pl: "player = 1 \<or> player = 2" using ok by (simp_all add: entry_ok_def)
  have down: "2 * (r_max R + 3 - (ply + 1)) + (if q = 1 then 0 else 1) <
      2 * (r_max R + 3 - ply) + (if player = 1 then 0 else (1 :: nat))" for q :: nat
    using bound Suc_diff_le [of ply "r_max R + 2"] by (auto simp: numeral_3_eq_3 numeral_2_eq_2)
  show ?case
  proof (cases "r_over R st")
    case True
    then show ?thesis using ok over by blast
  next
    case notover: False
    from pl show ?thesis
    proof
      assume p: "player = 1"
      show ?thesis
      proof (cases hs)
        case Nil
        then show ?thesis using stop ok notover p by blast
      next
        case (Cons mv rest)
        show ?thesis
        proof (cases "mv \<in> set (r_legal R st 1)")
          case True
          have "entry_ok (r_apply R st mv 1) (next_player R (r_apply R st mv 1) 1) (ply + 1) (moves @ [mv])"
            using entry_step ok notover True p by blast
          then have "P rest (r_apply R st mv 1) (next_player R (r_apply R st mv 1) 1) (ply + 1) (moves @ [mv])"
            using down by (intro less.hyps)
          then show ?thesis using human ok notover True p Cons by blast
        next
          case False
          then show ?thesis using illegal ok notover p Cons by blast
        qed
      qed
    next
      assume p: "player = 2"
      show ?thesis
      proof (cases "r_legal R st 2 = []")
        case True
        have "P hs st 1 ply moves"
          using entry_pass [OF ok notover True] p by (intro less.hyps) simp_all
        then show ?thesis using pass ok notover True p by blast
      next
        case False
        let ?mv = "bot_move R seed st ply"
        have "?mv \<in> set (r_legal R st 2)" using bot_move_legal ok notover False by (simp add: entry_ok_def)
        then have "entry_ok (r_apply R st ?mv 2) (next_player R (r_apply R st ?mv 2) 2) (ply + 1) (moves @ [?mv])"
          using entry_step ok notover p by blast
        then have "P hs (r_apply R st ?mv 2) (next_player R (r_apply R st ?mv 2) 2) (ply + 1) (moves @ [?mv])"
          using down by (intro less.hyps)
        then show ?thesis using bot ok notover False p by blast
      qed
    qed
  qed
qed

text \<open>The loop's equations where its bound on the plies does not bite.\<close>

lemma loop_eqs:
  "r_over R st \<Longrightarrow> play_loop R seed hs st player ply moves = Run st moves ply"
  "entry_ok st 1 ply moves \<Longrightarrow> \<not> r_over R st \<Longrightarrow> play_loop R seed [] st 1 ply moves = Run st moves ply"
  "entry_ok st 1 ply moves \<Longrightarrow> \<not> r_over R st \<Longrightarrow> mv \<notin> set (r_legal R st 1) \<Longrightarrow>
     play_loop R seed (mv # hs) st 1 ply moves = IllegalRun"
  "entry_ok st 1 ply moves \<Longrightarrow> \<not> r_over R st \<Longrightarrow> mv \<in> set (r_legal R st 1) \<Longrightarrow>
     play_loop R seed (mv # hs) st 1 ply moves =
     play_loop R seed hs (r_apply R st mv 1) (next_player R (r_apply R st mv 1) 1) (ply + 1) (moves @ [mv])"
  "entry_ok st 2 ply moves \<Longrightarrow> \<not> r_over R st \<Longrightarrow> r_legal R st 2 = [] \<Longrightarrow>
     play_loop R seed hs st 2 ply moves = play_loop R seed hs st 1 ply moves"
  "entry_ok st 2 ply moves \<Longrightarrow> \<not> r_over R st \<Longrightarrow> r_legal R st 2 \<noteq> [] \<Longrightarrow>
     play_loop R seed hs st 2 ply moves =
     play_loop R seed hs (r_apply R st (bot_move R seed st ply) 2) (next_player R (r_apply R st (bot_move R seed st ply) 2) 2)
       (ply + 1) (moves @ [bot_move R seed st ply])"
  by (subst play_loop.simps; simp add: entry_ok_def Let_def)+

lemma loop_result:
  "entry_ok st player ply moves \<Longrightarrow> play_loop R seed hs st player ply moves = Run st' moves' plies \<Longrightarrow>
     inv st' \<and> plies \<le> r_max R \<and> plies = length moves' \<and> (r_over R st' \<or> r_legal R st' 1 \<noteq> [])"
proof (induction rule: loop_induct [of _ _ _ _ _ seed hs])
  case (over hs st player ply moves)
  then show ?case by (simp add: loop_eqs) (simp add: entry_ok_def)
next
  case (stop st ply moves)
  then show ?case by (simp add: loop_eqs) (auto simp: entry_ok_def)
qed (simp_all add: loop_eqs)

text \<open>A run that stopped early stopped for want of human moves: one more legal move carries it on.\<close>

lemma loop_extend:
  "entry_ok st player ply moves \<Longrightarrow> play_loop R seed hs st player ply moves = Run st' moves' plies \<Longrightarrow>
     \<not> r_over R st' \<Longrightarrow>
     play_loop R seed (hs @ ext) st player ply moves = play_loop R seed ext st' 1 plies moves' \<and>
     entry_ok st' 1 plies moves'"
proof (induction rule: loop_induct [of _ _ _ _ _ seed hs])
  case (over hs st player ply moves)
  then show ?case by (simp add: loop_eqs)
next
  case (stop st ply moves)
  then show ?case by (simp add: loop_eqs)
qed (simp_all add: loop_eqs)

lemma loop_over_extend:
  "entry_ok st player ply moves \<Longrightarrow> play_loop R seed hs st player ply moves = Run st' moves' plies \<Longrightarrow>
     r_over R st' \<Longrightarrow> play_loop R seed (hs @ ext) st player ply moves = Run st' moves' plies"
proof (induction rule: loop_induct [of _ _ _ _ _ seed hs])
  case (stop st ply moves)
  then show ?case by (simp add: loop_eqs)
qed (simp_all add: loop_eqs)

text \<open>The whole run.\<close>

lemma play_progress:
  assumes "play R seed hs = Run st moves plies"
  shows "inv st" "plies \<le> r_max R" "plies = length moves"
    "r_over R st \<Longrightarrow> play R seed (hs @ ext) = Run st moves plies"
    "\<not> r_over R st \<Longrightarrow> r_legal R st 1 \<noteq> []"
    "\<not> r_over R st \<Longrightarrow> mv \<in> set (r_legal R st 1) \<Longrightarrow> play R seed (hs @ [mv]) \<noteq> IllegalRun"
proof -
  note r = loop_result [OF entry_start assms [unfolded play_def]]
  show "inv st" "plies \<le> r_max R" "plies = length moves" using r by simp_all
  show "r_over R st \<Longrightarrow> play R seed (hs @ ext) = Run st moves plies"
    using loop_over_extend [OF entry_start assms [unfolded play_def]] by (simp add: play_def)
  show "\<not> r_over R st \<Longrightarrow> r_legal R st 1 \<noteq> []" using r by simp
  show "play R seed (hs @ [mv]) \<noteq> IllegalRun" if "\<not> r_over R st" "mv \<in> set (r_legal R st 1)"
  proof -
    note e = loop_extend [OF entry_start assms [unfolded play_def] that(1), of "[mv]"]
    have "play R seed (hs @ [mv]) = play_loop R seed [] (r_apply R st mv 1) (next_player R (r_apply R st mv 1) 1) (plies + 1) (moves @ [mv])"
      using e that by (simp add: play_def loop_eqs)
    moreover have "play_loop R seed [] st2 q k ms \<noteq> IllegalRun" if "entry_ok st2 q k ms" for st2 q k ms
      using that
    proof (induction hs\<equiv>"[] :: nat list" st2 q k ms rule: loop_induct [of _ _ _ _ _ seed])
      case (stop st ply moves)
      then show ?case by (simp add: loop_eqs)
    qed (simp_all add: loop_eqs)
    moreover have "entry_ok (r_apply R st mv 1) (next_player R (r_apply R st mv 1) 1) (plies + 1) (moves @ [mv])"
      using entry_step e that by blast
    ultimately show ?thesis by simp
  qed
qed

text \<open>The score tells the outcome: at least 100 for a win, 40 for a draw, 0 for a loss, -1 for no game.\<close>

lemma score_outcome:
  assumes "play R seed hs = Run st moves plies" "r_over R st"
  shows "(r_winner R st = 1 \<longleftrightarrow> 100 \<le> score R (play R seed hs))"
    "(r_winner R st = 0 \<longleftrightarrow> score R (play R seed hs) = 40)"
    "(r_winner R st = 2 \<longleftrightarrow> score R (play R seed hs) = 0)"
proof -
  have w: "r_winner R st \<le> 2 \<and> (r_winner R st = 1 \<or> r_margin R st \<le> 0)"
    by (rule win_margin [OF play_progress(1) [OF assms(1)] assms(2)])
  have win: "100 \<le> score R (play R seed hs)" if "r_winner R st = 1"
    using assms that by (simp add: score_def Let_def)
  have draw: "score R (play R seed hs) = 40" if "r_winner R st = 0"
    using assms that w by (simp add: score_def Let_def)
  have loss: "score R (play R seed hs) = 0" if "r_winner R st = 2"
    using assms that w by (simp add: score_def Let_def)
  consider "r_winner R st = 0" | "r_winner R st = 1" | "r_winner R st = 2" using w by linarith
  then show "(r_winner R st = 1 \<longleftrightarrow> 100 \<le> score R (play R seed hs))"
    "(r_winner R st = 0 \<longleftrightarrow> score R (play R seed hs) = 40)"
    "(r_winner R st = 2 \<longleftrightarrow> score R (play R seed hs) = 0)"
    by (cases; use win draw loss in simp)+
qed

lemma never_cut: "never_cut R"
  unfolding never_cut_def
proof (intro allI impI conjI ballI, goal_cases)
  case (1 seed hs st moves plies)
  then show ?case by (rule play_progress(2))
next
  case (2 seed hs st moves plies)
  then show ?case by (rule play_progress(3))
next
  case (3 seed hs st moves plies)
  then show ?case by (rule play_progress(5))
next
  case (4 seed hs st moves plies mv)
  then show ?case by (rule play_progress(6))
next
  case (5 seed hs st moves plies ext)
  then show ?case by (rule play_progress(4))
qed

lemma score_tells: "score_tells R"
  unfolding score_tells_def
proof (intro allI)
  fix seed hs
  show "case play R seed hs of
     IllegalRun \<Rightarrow> score R (play R seed hs) = -1
   | Run st moves plies \<Rightarrow>
       if r_over R st
       then (r_winner R st = 1 \<longleftrightarrow> 100 \<le> score R (play R seed hs)) \<and>
            (r_winner R st = 0 \<longleftrightarrow> score R (play R seed hs) = 40) \<and>
            (r_winner R st = 2 \<longleftrightarrow> score R (play R seed hs) = 0)
       else score R (play R seed hs) = -1"
  proof (cases "play R seed hs")
    case IllegalRun
    then show ?thesis by (simp add: score_def)
  next
    case (Run st moves plies)
    show ?thesis
    proof (cases "r_over R st")
      case True
      note s = score_outcome [OF Run True]
      show ?thesis using s by (simp add: Run True)
    next
      case False
      then show ?thesis using Run by (simp add: score_def)
    qed
  qed
qed

end

end
