(* ===== verification/TicTacToe.thy ===== *)
theory TicTacToe
  imports BoardDaily
begin

text \<open>
  \<^verbatim>\<open>static/tictactoe-rules.js\<close>: the board is a list of nine cells (0 free, 1 human, 2 bot).
  The theory interprets \<open>board_rules\<close> on its rules and says what the bot takes and blocks.
\<close>

section \<open>Rules and bot\<close>

definition ttt_LINES :: "(nat \<times> nat \<times> nat) list" where
  "ttt_LINES = [(0, 1, 2), (3, 4, 5), (6, 7, 8), (0, 3, 6), (1, 4, 7), (2, 5, 8), (0, 4, 8), (2, 4, 6)]"

definition ttt_start :: "nat list" where
  "ttt_start = replicate 9 0"

definition ttt_legal :: "nat list \<Rightarrow> nat list" where
  "ttt_legal b = filter (\<lambda>i. b ! i = 0) [0..<9]"

definition ttt_apply :: "nat list \<Rightarrow> nat \<Rightarrow> nat \<Rightarrow> nat list" where
  "ttt_apply b mv p = b[mv := p]"

definition line_won :: "nat list \<Rightarrow> nat \<times> nat \<times> nat \<Rightarrow> bool" where
  "line_won b ln = (case ln of (a, c, d) \<Rightarrow> b ! a \<noteq> 0 \<and> b ! a = b ! c \<and> b ! a = b ! d)"

definition ttt_winner :: "nat list \<Rightarrow> nat" where
  "ttt_winner b = (case List.find (line_won b) ttt_LINES of None \<Rightarrow> 0 | Some (a, _, _) \<Rightarrow> b ! a)"

definition ttt_over :: "nat list \<Rightarrow> bool" where
  "ttt_over b \<longleftrightarrow> ttt_winner b \<noteq> 0 \<or> (\<forall>x \<in> set b. x \<noteq> 0)"

text \<open>The test of \<^verbatim>\<open>winMove\<close> on one line and the cell it returns, its first free one.\<close>

definition line_cells :: "nat \<times> nat \<times> nat \<Rightarrow> nat list" where
  "line_cells ln = (case ln of (a, c, d) \<Rightarrow> [a, c, d])"

definition line_ready :: "nat list \<Rightarrow> nat \<Rightarrow> nat \<times> nat \<times> nat \<Rightarrow> bool" where
  "line_ready b p ln =
     (let v = map (\<lambda>i. b ! i) (line_cells ln)
      in length (filter (\<lambda>x. x = p) v) = 2 \<and> 0 \<in> set v)"

definition winMove :: "nat list \<Rightarrow> nat \<Rightarrow> int" where
  "winMove b p =
     (case List.find (line_ready b p) ttt_LINES of
        None \<Rightarrow> -1
      | Some ln \<Rightarrow> (case List.find (\<lambda>i. b ! i = 0) (line_cells ln) of None \<Rightarrow> -1 | Some i \<Rightarrow> int i))"

fun ttt_prefer :: "(string \<Rightarrow> string) \<Rightarrow> string \<Rightarrow> nat list \<Rightarrow> nat list list \<Rightarrow> nat" where
  "ttt_prefer H rseed b [] = ttt_legal b ! prng_pick H rseed 1 (length (ttt_legal b))"
| "ttt_prefer H rseed b (pref # prefs) =
     (let cands = filter (\<lambda>i. b ! i = 0) pref
      in if cands \<noteq> [] then cands ! prng_pick H rseed 1 (length cands) else ttt_prefer H rseed b prefs)"

definition ttt_bot :: "(string \<Rightarrow> string) \<Rightarrow> nat list \<Rightarrow> string \<Rightarrow> nat \<Rightarrow> int" where
  "ttt_bot H b seed ply =
     (if winMove b 2 \<ge> 0 then winMove b 2
      else if winMove b 1 \<ge> 0 then winMove b 1
      else int (ttt_prefer H (seed @ '':ttt:'' @ show_nat ply) b [[4], [0, 2, 6, 8], [1, 3, 5, 7]]))"

definition ttt_rules :: "(string \<Rightarrow> string) \<Rightarrow> nat list rules" where
  "ttt_rules H =
     \<lparr>r_slug = ''tictactoe'', r_bits = 4, r_max = 9, r_start = ttt_start, r_legal = (\<lambda>b _. ttt_legal b),
      r_apply = ttt_apply, r_over = ttt_over, r_winner = ttt_winner, r_bot = ttt_bot H, r_margin = (\<lambda>_. 0)\<rparr>"

text \<open>The display grid: number of columns, and each cell's value with the move that plays it.\<close>

definition ttt_view :: "nat list \<Rightarrow> nat list \<Rightarrow> nat \<times> (nat \<times> nat option) list" where
  "ttt_view b legalMoves =
     (3, map (\<lambda>i. (b ! i, if i \<in> set legalMoves then Some i else None)) [0..<length b])"

section \<open>The interface\<close>

definition ttt_inv :: "nat list \<Rightarrow> bool" where
  "ttt_inv b \<longleftrightarrow> length b = 9 \<and> (\<forall>x \<in> set b. x \<le> 2)"

definition zeros :: "nat list \<Rightarrow> nat" where
  "zeros b = length (filter (\<lambda>x. x = 0) b)"

lemma zeros_update: "i < length b \<Longrightarrow> b ! i = 0 \<Longrightarrow> p \<noteq> 0 \<Longrightarrow> zeros (b[i := p]) + 1 = zeros b"
proof (induction b arbitrary: i)
  case (Cons x b)
  then show ?case by (cases i) (auto simp: zeros_def)
qed simp

lemma ttt_legal_iff: "m \<in> set (ttt_legal b) \<longleftrightarrow> m < 9 \<and> b ! m = 0"
  by (auto simp: ttt_legal_def)

lemma ttt_lines_bound: "ln \<in> set ttt_LINES \<Longrightarrow> i \<in> set (line_cells ln) \<Longrightarrow> i < 9"
  by (auto simp: ttt_LINES_def line_cells_def)

lemma winMove_cases:
  obtains (none) "winMove b p = -1" "\<forall>ln \<in> set ttt_LINES. \<not> line_ready b p ln"
  | (cell) ln i where "winMove b p = int i" "ln \<in> set ttt_LINES" "line_ready b p ln" "i \<in> set (line_cells ln)" "b ! i = 0"
proof (cases "List.find (line_ready b p) ttt_LINES")
  case None
  show ?thesis
    by (rule none) (use None None [unfolded find_None_iff_ball] in \<open>simp_all add: winMove_def\<close>)
next
  case (Some ln)
  then have ln: "ln \<in> set ttt_LINES" "line_ready b p ln" using find_Some_in [OF Some] by simp_all
  have "\<exists>i \<in> set (line_cells ln). b ! i = 0" using ln(2) by (auto simp: line_ready_def Let_def)
  then obtain i where i: "List.find (\<lambda>i. b ! i = 0) (line_cells ln) = Some i"
    using find_some [where P = "\<lambda>i. b ! i = 0"] by blast
  have wm: "winMove b p = int i" using Some i by (simp add: winMove_def)
  have "i \<in> set (line_cells ln)" "b ! i = 0" using find_Some_in [OF i] by simp_all
  then show ?thesis by (rule cell [OF wm ln])
qed

lemma winMove_legal: "winMove b p \<ge> 0 \<Longrightarrow> winMove b p \<in> int ` set (ttt_legal b)"
  by (cases rule: winMove_cases [of b p]) (auto simp: ttt_legal_iff dest: ttt_lines_bound)

lemma ttt_prefer_legal:
  assumes "\<forall>i < 9. b ! i = 0 \<longrightarrow> (\<exists>pref \<in> set prefs. i \<in> set pref)"
    "ttt_legal b \<noteq> []" "\<forall>pref \<in> set prefs. \<forall>i \<in> set pref. i < 9"
  shows "ttt_prefer H s b prefs \<in> set (ttt_legal b)"
  using assms
proof (induction prefs)
  case Nil
  then show ?case by (simp add: prng_pick_less)
next
  case (Cons pref prefs)
  define cands where "cands = filter (\<lambda>i. b ! i = 0) pref"
  show ?case
  proof (cases "cands = []")
    case True
    have "\<exists>q \<in> set prefs. i \<in> set q" if "i < 9" "b ! i = 0" for i
      using Cons.prems(1) that True by (fastforce simp: cands_def filter_empty_conv)
    then show ?thesis using Cons True by (simp add: cands_def)
  next
    case False
    then have "cands ! prng_pick H s 1 (length cands) \<in> set cands" by (simp add: prng_pick_less)
    then show ?thesis using False Cons.prems(3) by (auto simp: cands_def [symmetric] Let_def ttt_legal_iff) (auto simp: cands_def)
  qed
qed

lemma nine_cases: "i < 9 \<Longrightarrow> i \<in> {0, 1, 2, 3, 4, 5, 6, 7, 8 :: nat}"
  by auto

lemma ttt_bot_legal:
  assumes "ttt_legal b \<noteq> []"
  shows "ttt_bot H b seed ply \<in> int ` set (ttt_legal b)"
proof -
  have "\<exists>pref \<in> set [[4], [0, 2, 6, 8], [1, 3, 5, 7]]. i \<in> set pref" if "i < 9" for i :: nat
    using nine_cases [OF that] by auto
  then have "ttt_prefer H s b [[4], [0, 2, 6, 8], [1, 3, 5, 7]] \<in> set (ttt_legal b)" for s
    using assms by (intro ttt_prefer_legal) auto
  then show ?thesis
    unfolding ttt_bot_def using winMove_legal [of b 2] winMove_legal [of b 1] by (simp del: ttt_prefer.simps)
qed

lemma ttt_winner_le:
  assumes "ttt_inv b"
  shows "ttt_winner b \<le> 2"
proof (cases "List.find (line_won b) ttt_LINES")
  case (Some ln)
  obtain a c d where ln: "ln = (a, c, d)" by (cases ln)
  have "a < 9" using find_Some_in [OF Some] ttt_lines_bound [of ln a] by (simp add: ln line_cells_def)
  then have "b ! a \<in> set b" using assms by (simp add: ttt_inv_def)
  then show ?thesis using assms Some ln by (simp add: ttt_winner_def ttt_inv_def)
qed (simp add: ttt_winner_def)

interpretation ttt: board_rules "ttt_rules H" ttt_inv zeros for H
proof (unfold_locales, goal_cases)
  case 1
  show ?case by (simp add: ttt_rules_def ttt_inv_def ttt_start_def)
next
  case 2
  show ?case by (simp add: ttt_rules_def ttt_start_def zeros_def)
next
  case 3
  show ?case by (simp add: ttt_rules_def ttt_start_def ttt_legal_def upt_rec [of 0])
next
  case (4 s p m)
  then show ?case by (auto simp: ttt_rules_def ttt_inv_def ttt_apply_def dest!: set_update_subset_insert [THEN subsetD])
next
  case (5 s p m)
  then show ?case
    using zeros_update [of m s p] by (auto simp: ttt_rules_def ttt_inv_def ttt_apply_def ttt_legal_iff)
next
  case (6 s)
  then have "\<forall>i < 9. s ! i \<noteq> 0" by (auto simp: ttt_rules_def ttt_legal_def filter_empty_conv)
  then show ?case using 6 by (auto simp: ttt_rules_def ttt_over_def ttt_inv_def in_set_conv_nth)
next
  case (7 s seed ply)
  then show ?case using ttt_bot_legal by (simp add: ttt_rules_def)
next
  case (8 s)
  have "ttt_winner s \<le> 2" using 8 ttt_winner_le by (simp add: ttt_rules_def)
  then show ?case by (simp add: ttt_rules_def)
qed

section \<open>What the bot takes and blocks\<close>

lemma winner_ne_0: "ttt_winner b \<noteq> 0 \<longleftrightarrow> (\<exists>ln \<in> set ttt_LINES. line_won b ln)"
proof (cases "List.find (line_won b) ttt_LINES")
  case None
  then show ?thesis using None [unfolded find_None_iff_ball] by (simp add: ttt_winner_def)
next
  case (Some ln)
  obtain a c d where ln: "ln = (a, c, d)" by (cases ln)
  then show ?thesis using find_Some_in [OF Some] Some by (auto simp: ttt_winner_def line_won_def)
qed

text \<open>A line that a move at \<open>c\<close> completes was ready for \<open>p\<close> at \<open>c\<close>.\<close>

lemma line_distinct: "(x, y, z) \<in> set ttt_LINES \<Longrightarrow> x \<noteq> y \<and> x \<noteq> z \<and> y \<noteq> z"
  by (auto simp: ttt_LINES_def)

lemma line_completed:
  assumes "length b = 9" "c < 9" "b ! c = 0" "p \<noteq> 0" "ln \<in> set ttt_LINES" "\<not> line_won b ln" "line_won (b[c := p]) ln"
  shows "line_ready b p ln \<and> c \<in> set (line_cells ln)"
proof -
  obtain x y z where ln: "ln = (x, y, z)" by (cases ln)
  have bnd: "x < 9" "y < 9" "z < 9"
    using ttt_lines_bound [OF assms(5)] by (simp_all add: ln line_cells_def)
  have "c = x \<or> c = y \<or> c = z"
  proof (rule ccontr)
    assume "\<not> ?thesis"
    then have "line_won (b[c := p]) ln = line_won b ln" by (simp add: ln line_won_def)
    then show False using assms(6,7) by simp
  qed
  then show ?thesis
    using assms bnd line_distinct [of x y z]
    by (elim disjE) (auto simp: ln line_won_def line_ready_def line_cells_def Let_def)
qed

lemma line_ready_completed:
  assumes "length b = 9" "p \<noteq> 0" "ln \<in> set ttt_LINES" "line_ready b p ln" "c \<in> set (line_cells ln)" "b ! c = 0"
  shows "line_won (b[c := p]) ln"
proof -
  obtain x y z where ln: "ln = (x, y, z)" by (cases ln)
  have bnd: "x < 9" "y < 9" "z < 9"
    using ttt_lines_bound [OF assms(3)] by (simp_all add: ln line_cells_def)
  then show ?thesis
    using assms line_distinct [of x y z]
    by (auto simp: ln line_won_def line_ready_def line_cells_def nth_list_update Let_def split: if_splits)
qed

lemma winner_after:
  assumes "length b = 9" "c < 9" "b ! c = 0" "p \<noteq> 0" "ttt_winner b = 0"
  shows "ttt_winner (b[c := p]) = p \<longleftrightarrow> (\<exists>ln \<in> set ttt_LINES. line_ready b p ln \<and> c \<in> set (line_cells ln))"
proof
  have none: "\<not> line_won b ln" if "ln \<in> set ttt_LINES" for ln using winner_ne_0 [of b] assms(5) that by blast
  {
    assume "ttt_winner (b[c := p]) = p"
    then obtain ln where "ln \<in> set ttt_LINES" "line_won (b[c := p]) ln"
      using winner_ne_0 [of "b[c := p]"] assms(4) by auto
    then show "\<exists>ln \<in> set ttt_LINES. line_ready b p ln \<and> c \<in> set (line_cells ln)"
      using line_completed [OF assms(1-4)] none by blast
  }
  assume "\<exists>ln \<in> set ttt_LINES. line_ready b p ln \<and> c \<in> set (line_cells ln)"
  then obtain ln where "ln \<in> set ttt_LINES" "line_ready b p ln" "c \<in> set (line_cells ln)" by blast
  then have "\<exists>ln \<in> set ttt_LINES. line_won (b[c := p]) ln" using line_ready_completed [OF assms(1,4)] assms(3) by blast
  then obtain w where w: "List.find (line_won (b[c := p])) ttt_LINES = Some w"
    using find_some [where P = "line_won (b[c := p])"] by blast
  obtain x y z where xyz: "w = (x, y, z)" by (cases w)
  have lw: "w \<in> set ttt_LINES" "line_won (b[c := p]) w" using find_Some_in [OF w] by simp_all
  then have "c \<in> {x, y, z}" using line_completed [OF assms(1-4) lw(1) none lw(2)] by (auto simp: xyz line_cells_def)
  then have "b[c := p] ! x = p"
    using lw assms(1,2) ttt_lines_bound [OF lw(1)] by (auto simp: xyz line_won_def line_cells_def)
  then show "ttt_winner (b[c := p]) = p" using w by (simp add: ttt_winner_def xyz)
qed

lemma winMove_spec:
  assumes "length b = 9" "p \<noteq> 0" "ttt_winner b = 0"
  shows "winMove b p \<ge> 0 \<longleftrightarrow> (\<exists>c \<in> set (ttt_legal b). ttt_winner (ttt_apply b c p) = p)"
    "winMove b p \<ge> 0 \<Longrightarrow> nat (winMove b p) \<in> set (ttt_legal b) \<and> ttt_winner (ttt_apply b (nat (winMove b p)) p) = p"
proof -
  have pos: "winMove b p \<ge> 0 \<longleftrightarrow> (\<exists>ln \<in> set ttt_LINES. line_ready b p ln)"
    by (cases rule: winMove_cases [of b p]) auto
  show 1: "nat (winMove b p) \<in> set (ttt_legal b) \<and> ttt_winner (ttt_apply b (nat (winMove b p)) p) = p"
    if wm: "winMove b p \<ge> 0"
  proof (cases rule: winMove_cases [of b p])
    case none
    then show ?thesis using wm by simp
  next
    case (cell ln i)
    then have "i < 9" using ttt_lines_bound by blast
    moreover have "ttt_winner (b[i := p]) = p"
      using winner_after [OF assms(1) \<open>i < 9\<close> cell(5) assms(2,3)] cell by blast
    ultimately show ?thesis using cell by (simp add: ttt_legal_iff ttt_apply_def)
  qed
  show "winMove b p \<ge> 0 \<longleftrightarrow> (\<exists>c \<in> set (ttt_legal b). ttt_winner (ttt_apply b c p) = p)"
  proof
    show "winMove b p \<ge> 0 \<Longrightarrow> \<exists>c \<in> set (ttt_legal b). ttt_winner (ttt_apply b c p) = p" using 1 by blast
    assume "\<exists>c \<in> set (ttt_legal b). ttt_winner (ttt_apply b c p) = p"
    then obtain c where "c < 9" "b ! c = 0" "ttt_winner (b[c := p]) = p" by (auto simp: ttt_legal_iff ttt_apply_def)
    then show "winMove b p \<ge> 0" using winner_after [OF assms(1) _ _ assms(2,3)] pos by blast
  qed
qed

end
