(* ===== verification/Connect4.thy ===== *)
theory Connect4
  imports BoardDaily
begin

text \<open>
  \<^verbatim>\<open>static/connect4-rules.js\<close>: seven columns, each a stack of stones, bottom first. The
  theory interprets \<open>board_rules\<close> and characterises the winner.
\<close>

section \<open>Rules and bot\<close>

definition COLS :: nat where "COLS = 7"
definition ROWS :: nat where "ROWS = 6"

definition c4_start :: "nat list list" where
  "c4_start = replicate COLS []"

definition c4_legal :: "nat list list \<Rightarrow> nat list" where
  "c4_legal b = filter (\<lambda>c. length (b ! c) < ROWS) [0..<COLS]"

definition c4_apply :: "nat list list \<Rightarrow> nat \<Rightarrow> nat \<Rightarrow> nat list list" where
  "c4_apply b c p = b[c := b ! c @ [p]]"

definition c4_at :: "nat list list \<Rightarrow> int \<Rightarrow> int \<Rightarrow> nat" where
  "c4_at b c r =
     (if c \<ge> 0 \<and> c < int COLS \<and> r \<ge> 0 \<and> r < int (length (b ! nat c)) then b ! nat c ! nat r else 0)"

text \<open>The loop \<^verbatim>\<open>while (k < 4 && at(...) === p) k++\<close>.\<close>

function c4_count :: "nat list list \<Rightarrow> nat \<Rightarrow> int \<Rightarrow> int \<Rightarrow> int \<Rightarrow> int \<Rightarrow> nat \<Rightarrow> nat" where
  "c4_count b p c r dc dr k =
     (if k < 4 \<and> c4_at b (c + dc * int k) (r + dr * int k) = p
      then c4_count b p c r dc dr (k + 1) else k)"
  by pat_completeness auto
termination by (relation "measure (\<lambda>(b, p, c, r, dc, dr, k). 4 - k)") auto

declare c4_count.simps [simp del]

definition c4_DIRS :: "(int \<times> int) list" where
  "c4_DIRS = [(1, 0), (0, 1), (1, 1), (1, -1)]"

definition four_from :: "nat list list \<Rightarrow> nat \<times> nat \<Rightarrow> bool" where
  "four_from b cr =
     (case cr of (c, r) \<Rightarrow>
        (let p = c4_at b (int c) (int r)
         in p \<noteq> 0 \<and> (\<exists>(dc, dr) \<in> set c4_DIRS. c4_count b p (int c) (int r) dc dr 1 = 4)))"

definition c4_cells :: "(nat \<times> nat) list" where
  "c4_cells = concat (map (\<lambda>c. map (\<lambda>r. (c, r)) [0..<ROWS]) [0..<COLS])"

definition c4_winner :: "nat list list \<Rightarrow> nat" where
  "c4_winner b =
     (case List.find (four_from b) c4_cells of None \<Rightarrow> 0 | Some (c, r) \<Rightarrow> c4_at b (int c) (int r))"

definition c4_over :: "nat list list \<Rightarrow> bool" where
  "c4_over b \<longleftrightarrow> c4_winner b \<noteq> 0 \<or> (\<forall>col \<in> set b. length col \<ge> ROWS)"

definition winCol :: "nat list list \<Rightarrow> nat \<Rightarrow> nat option" where
  "winCol b p = List.find (\<lambda>c. c4_winner (c4_apply b c p) = p) (c4_legal b)"

definition c4_bot :: "(string \<Rightarrow> string) \<Rightarrow> nat list list \<Rightarrow> string \<Rightarrow> nat \<Rightarrow> int" where
  "c4_bot H b seed ply =
     (case winCol b 2 of
        Some win \<Rightarrow> int win
      | None \<Rightarrow>
          (case winCol b 1 of
             Some block \<Rightarrow> int block
           | None \<Rightarrow>
               (let safe = filter (\<lambda>c. winCol (c4_apply b c 2) 1 = None) (c4_legal b);
                    pool = (if safe \<noteq> [] then safe else c4_legal b);
                    order = filter (\<lambda>c. c \<in> set pool) [3, 2, 4, 1, 5, 0, 6];
                    top = filter (\<lambda>c. \<bar>int c - 3\<bar> = \<bar>int (order ! 0) - 3\<bar>) order
                in int (top ! prng_pick H (seed @ '':c4:'' @ show_nat ply) 1 (length top)))))"

definition c4_rules :: "(string \<Rightarrow> string) \<Rightarrow> nat list list rules" where
  "c4_rules H =
     \<lparr>r_slug = ''connect4'', r_bits = 3, r_max = 42, r_start = c4_start, r_legal = (\<lambda>b _. c4_legal b),
      r_apply = c4_apply, r_over = c4_over, r_winner = c4_winner, r_bot = c4_bot H, r_margin = (\<lambda>_. 0)\<rparr>"

text \<open>The top row first; a missing cell shows as 0.\<close>

definition c4_view :: "nat list list \<Rightarrow> nat list \<Rightarrow> nat \<times> (nat \<times> nat option) list" where
  "c4_view b legalMoves =
     (COLS, concat (map (\<lambda>r. map (\<lambda>c.
        (if r < length (b ! c) then b ! c ! r else 0, if c \<in> set legalMoves then Some c else None)) [0..<COLS])
      (rev [0..<ROWS])))"

section \<open>The interface\<close>

lemma c4_cells_iff: "(c, r) \<in> set c4_cells \<longleftrightarrow> c < COLS \<and> r < ROWS"
  by (auto simp: c4_cells_def image_iff)

definition c4_inv :: "nat list list \<Rightarrow> bool" where
  "c4_inv b \<longleftrightarrow> length b = COLS \<and> (\<forall>col \<in> set b. length col \<le> ROWS \<and> set col \<subseteq> {1, 2})"

definition c4_free :: "nat list list \<Rightarrow> nat" where
  "c4_free b = sum_list (map (\<lambda>col. ROWS - length col) b)"

lemma c4_legal_iff: "m \<in> set (c4_legal b) \<longleftrightarrow> m < COLS \<and> length (b ! m) < ROWS"
  by (auto simp: c4_legal_def)

lemma c4_free_update:
  "c < length b \<Longrightarrow> length (b ! c) < ROWS \<Longrightarrow> c4_free (b[c := b ! c @ [p]]) + 1 = c4_free b"
proof (induction b arbitrary: c)
  case (Cons x b)
  then show ?case by (cases c) (auto simp: c4_free_def)
qed simp

lemma c4_at_value:
  assumes "c4_inv b"
  shows "c4_at b c r \<le> 2"
proof (cases "c \<ge> 0 \<and> c < int COLS \<and> r \<ge> 0 \<and> r < int (length (b ! nat c))")
  case True
  then have "b ! nat c \<in> set b" using assms by (simp add: c4_inv_def nat_less_iff)
  moreover have "b ! nat c ! nat r \<in> set (b ! nat c)" using True by (simp add: nat_less_iff)
  ultimately have "b ! nat c ! nat r \<in> {1, 2}" using assms unfolding c4_inv_def by blast
  then show ?thesis using True by (auto simp: c4_at_def)
qed (auto simp: c4_at_def)

lemma c4_winner_le:
  assumes "c4_inv b"
  shows "c4_winner b \<le> 2"
  using c4_at_value [OF assms] by (auto simp: c4_winner_def split: option.splits)

lemma winCol_legal: "winCol b p = Some c \<Longrightarrow> c \<in> set (c4_legal b) \<and> c4_winner (c4_apply b c p) = p"
  unfolding winCol_def by (rule find_Some_in)

lemma seven_cases: "c < COLS \<Longrightarrow> c \<in> set [3, 2, 4, 1, 5, 0, 6]"
  by (auto simp: COLS_def)

lemma c4_bot_legal:
  assumes "c4_legal b \<noteq> []"
  shows "c4_bot H b seed ply \<in> int ` set (c4_legal b)"
proof (cases "winCol b 2")
  case (Some c)
  then show ?thesis using winCol_legal [OF Some] by (simp add: c4_bot_def)
next
  case none2: None
  show ?thesis
  proof (cases "winCol b 1")
    case (Some c)
    then show ?thesis using winCol_legal [OF Some] none2 by (simp add: c4_bot_def)
  next
    case None
    define safe where "safe = filter (\<lambda>c. winCol (c4_apply b c 2) 1 = None) (c4_legal b)"
    define pool where "pool = (if safe \<noteq> [] then safe else c4_legal b)"
    define order where "order = filter (\<lambda>c. c \<in> set pool) [3, 2, 4, 1, 5, 0, 6]"
    define top where "top = filter (\<lambda>c. \<bar>int c - 3\<bar> = \<bar>int (order ! 0) - 3\<bar>) order"
    have pool: "pool \<noteq> []" "set pool \<subseteq> set (c4_legal b)" using assms by (auto simp: pool_def safe_def)
    obtain c where c: "c \<in> set pool" using pool(1) by (cases pool) auto
    then have "c \<in> set order" using seven_cases [of c] pool(2) by (auto simp: order_def c4_legal_iff)
    then have "order ! 0 \<in> set top" unfolding top_def by (cases order) auto
    then have "top ! prng_pick H s 1 (length top) \<in> set top" for s
      by (intro nth_mem prng_pick_less) (cases top; simp)
    moreover have "set top \<subseteq> set (c4_legal b)" using pool(2) by (auto simp: top_def order_def)
    ultimately have "int (top ! prng_pick H s 1 (length top)) \<in> int ` set (c4_legal b)" for s by blast
    then show ?thesis
      unfolding c4_bot_def none2 None option.case Let_def safe_def [symmetric] pool_def [symmetric] order_def [symmetric] top_def [symmetric] .
  qed
qed

interpretation c4: board_rules "c4_rules H" c4_inv c4_free for H
proof (unfold_locales, goal_cases)
  case 1
  show ?case by (simp add: c4_rules_def c4_inv_def c4_start_def)
next
  case 2
  show ?case by (simp add: c4_rules_def c4_start_def c4_free_def sum_list_replicate COLS_def ROWS_def)
next
  case 3
  show ?case by (simp add: c4_rules_def c4_start_def c4_legal_def COLS_def ROWS_def upt_rec [of 0])
next
  case (4 s p m)
  then have m: "m < COLS" "length (s ! m) < ROWS" "length s = COLS" "p \<in> {1, 2}"
    by (auto simp: c4_rules_def c4_legal_iff c4_inv_def)
  then have "s ! m \<in> set s" by simp
  then have "set (s ! m) \<subseteq> {1, 2}" using 4(1) unfolding c4_inv_def by blast
  then have "length (s ! m @ [p]) \<le> ROWS \<and> set (s ! m @ [p]) \<subseteq> {1, 2}" using m by simp
  then have "length col \<le> ROWS \<and> set col \<subseteq> {1, 2}" if "col \<in> insert (s ! m @ [p]) (set s)" for col
    using that 4(1) unfolding c4_inv_def by blast
  then have "\<forall>col \<in> set (c4_apply s m p). length col \<le> ROWS \<and> set col \<subseteq> {1, 2}"
    using set_update_subset_insert [of s m "s ! m @ [p]"] unfolding c4_apply_def by blast
  then show ?case using m by (simp add: c4_rules_def c4_inv_def c4_apply_def)
next
  case (5 s p m)
  then show ?case
    using c4_free_update [of m s p] by (auto simp: c4_rules_def c4_inv_def c4_apply_def c4_legal_iff)
next
  case (6 s)
  then have "\<forall>c < COLS. ROWS \<le> length (s ! c)" by (auto simp: c4_rules_def c4_legal_def filter_empty_conv not_less)
  then show ?case using 6 by (auto simp: c4_rules_def c4_over_def c4_inv_def in_set_conv_nth)
next
  case (7 s seed ply)
  then show ?case using c4_bot_legal by (simp add: c4_rules_def)
next
  case (8 s)
  have "c4_winner s \<le> 2" using 8 c4_winner_le by (simp add: c4_rules_def)
  then show ?case by (simp add: c4_rules_def)
qed

section \<open>Four in a row\<close>

text \<open>Four cells from \<open>(c, r)\<close> along \<open>(dc, dr)\<close> hold stones of \<open>p\<close>.\<close>

definition four_of :: "nat list list \<Rightarrow> nat \<Rightarrow> int \<Rightarrow> int \<Rightarrow> int \<Rightarrow> int \<Rightarrow> bool" where
  "four_of b p c r dc dr \<longleftrightarrow> (\<forall>k \<in> {0, 1, 2, 3}. c4_at b (c + dc * k) (r + dr * k) = p)"

lemma c4_count_4:
  "c4_count b p c r dc dr 1 = 4 \<longleftrightarrow> (\<forall>k \<in> {1, 2, 3}. c4_at b (c + dc * k) (r + dr * k) = p)"
proof -
  have e: "c4_count b p c r dc dr 4 = 4" by (subst c4_count.simps) simp
  have s3: "c4_count b p c r dc dr 3 = (if c4_at b (c + dc * 3) (r + dr * 3) = p then 4 else 3)"
    by (subst c4_count.simps) (simp add: e)
  have s2: "c4_count b p c r dc dr 2 = (if c4_at b (c + dc * 2) (r + dr * 2) = p
      then (if c4_at b (c + dc * 3) (r + dr * 3) = p then 4 else 3) else 2)"
    by (subst c4_count.simps) (simp add: s3)
  show ?thesis by (subst c4_count.simps) (simp add: s2 del: mult_1_right)
qed

lemma c4_at_nonzero: "c4_at b c r \<noteq> 0 \<Longrightarrow> 0 \<le> c \<and> c < int COLS \<and> 0 \<le> r \<and> r < int (length (b ! nat c))"
  by (auto simp: c4_at_def split: if_splits)

lemma four_from_iff:
  "four_from b (c, r) \<longleftrightarrow> c4_at b (int c) (int r) \<noteq> 0 \<and>
     (\<exists>(dc, dr) \<in> set c4_DIRS. four_of b (c4_at b (int c) (int r)) (int c) (int r) dc dr)"
  by (auto simp: four_from_def four_of_def c4_count_4 Let_def)

lemma c4_winner_four:
  assumes "c4_winner b = p" "p \<noteq> 0"
  shows "\<exists>c r. \<exists>(dc, dr) \<in> set c4_DIRS. four_of b p c r dc dr"
proof (cases "List.find (four_from b) c4_cells")
  case None
  then show ?thesis using assms by (simp add: c4_winner_def)
next
  case (Some cr)
  obtain c r where cr: "cr = (c, r)" by (cases cr)
  have "four_from b (c, r)" using find_Some_in [OF Some] by (simp add: cr)
  moreover have "c4_at b (int c) (int r) = p" using assms Some by (simp add: c4_winner_def cr)
  ultimately show ?thesis unfolding four_from_iff by blast
qed

lemma c4_four_winner:
  assumes "c4_inv b" "(dc, dr) \<in> set c4_DIRS" "four_of b p c r dc dr" "p \<noteq> 0"
  shows "c4_winner b \<noteq> 0"
proof -
  have p: "c4_at b c r = p" using assms(3) by (simp add: four_of_def)
  have bnd: "0 \<le> c" "c < int COLS" "0 \<le> r" "r < int (length (b ! nat c))"
    using c4_at_nonzero [of b c r] p assms(4) by auto
  have "b ! nat c \<in> set b" using assms(1) bnd by (simp add: c4_inv_def nat_less_iff)
  then have "length (b ! nat c) \<le> ROWS" using assms(1) by (simp add: c4_inv_def)
  then have mem: "(nat c, nat r) \<in> set c4_cells" using bnd by (simp add: c4_cells_iff nat_less_iff)
  have four: "four_from b (nat c, nat r)"
  proof -
    have e: "int (nat c) = c" "int (nat r) = r" using bnd by simp_all
    show ?thesis
      unfolding four_from_iff e p using assms(2,3) by (intro conjI assms(4) bexI [where x = "(dc, dr)"]) simp_all
  qed
  obtain cr where cr: "List.find (four_from b) c4_cells = Some cr" using find_some [OF mem, of "four_from b", OF four] by blast
  obtain c' r' where e: "cr = (c', r')" by (cases cr)
  have "four_from b (c', r')" using find_Some_in [OF cr] by (simp add: e)
  then show ?thesis using cr by (simp add: c4_winner_def e four_from_iff)
qed

end
