(* ===== verification/Reversi.thy ===== *)
theory Reversi
  imports BoardDaily
begin

text \<open>
  \<^verbatim>\<open>static/reversi-rules.js\<close>: the board is a list of 64 cells (0 free, 1 human, 2 bot). The
  theory interprets \<open>board_rules\<close> and counts the discs a move turns.
\<close>

section \<open>Rules\<close>

definition NB :: int where "NB = 8"

definition rv_DIRS :: "(int \<times> int) list" where
  "rv_DIRS = [(-1, -1), (-1, 0), (-1, 1), (0, -1), (0, 1), (1, -1), (1, 0), (1, 1)]"

definition rv_start :: "nat list" where
  "rv_start = (replicate 64 0)[27 := 2, 28 := 1, 35 := 1, 36 := 2]"

definition rv_inside :: "int \<Rightarrow> int \<Rightarrow> bool" where
  "rv_inside r c \<longleftrightarrow> r \<ge> 0 \<and> r < NB \<and> c \<ge> 0 \<and> c < NB"

definition rv_cell :: "int \<Rightarrow> int \<Rightarrow> nat" where
  "rv_cell r c = nat (r * NB + c)"

text \<open>
  The \<^verbatim>\<open>while\<close> loop along one direction: the opponent cells it collects and where it
  stops. A line leaves the board after at most seven steps, so a fuel of 8 is enough
  (\<open>rv_line_fuel\<close>).
\<close>

fun rv_line :: "nat \<Rightarrow> nat list \<Rightarrow> nat \<Rightarrow> int \<Rightarrow> int \<Rightarrow> int \<Rightarrow> int \<Rightarrow> nat list \<times> int \<times> int" where
  "rv_line 0 b opp dr dc r c = ([], r, c)"
| "rv_line (Suc n) b opp dr dc r c =
     (if rv_inside r c \<and> b ! rv_cell r c = opp
      then (let (line, r', c') = rv_line n b opp dr dc (r + dr) (c + dc) in (rv_cell r c # line, r', c'))
      else ([], r, c))"

definition rv_dir :: "nat list \<Rightarrow> nat \<Rightarrow> nat \<Rightarrow> int \<times> int \<Rightarrow> nat list" where
  "rv_dir b cell p d =
     (case d of (dr, dc) \<Rightarrow>
       (let r0 = int cell div NB; c0 = int cell mod NB;
            (line, r, c) = rv_line 8 b (3 - p) dr dc (r0 + dr) (c0 + dc)
        in if line \<noteq> [] \<and> rv_inside r c \<and> b ! rv_cell r c = p then line else []))"

definition rv_flips :: "nat list \<Rightarrow> nat \<Rightarrow> nat \<Rightarrow> nat list" where
  "rv_flips b cell p = (if b ! cell \<noteq> 0 then [] else concat (map (rv_dir b cell p) rv_DIRS))"

definition rv_legal :: "nat list \<Rightarrow> nat \<Rightarrow> nat list" where
  "rv_legal b p = filter (\<lambda>i. rv_flips b i p \<noteq> []) [0..<64]"

definition rv_apply :: "nat list \<Rightarrow> nat \<Rightarrow> nat \<Rightarrow> nat list" where
  "rv_apply b cell p = fold (\<lambda>f n. n[f := p]) (rv_flips b cell p) (b[cell := p])"

definition rv_over :: "nat list \<Rightarrow> bool" where
  "rv_over b \<longleftrightarrow> (\<forall>x \<in> set b. x \<noteq> 0) \<or> (rv_legal b 1 = [] \<and> rv_legal b 2 = [])"

definition discs :: "nat list \<Rightarrow> nat \<Rightarrow> nat" where
  "discs b p = length (filter (\<lambda>x. x = p) b)"

definition rv_winner :: "nat list \<Rightarrow> nat" where
  "rv_winner b = (if discs b 1 > discs b 2 then 1 else if discs b 2 > discs b 1 then 2 else 0)"

definition rv_margin :: "nat list \<Rightarrow> int" where
  "rv_margin b = int (discs b 1) - int (discs b 2)"

section \<open>The bot\<close>

text \<open>
  The score of a move is \<^verbatim>\<open>flips + corner + r() * 0.5\<close> with \<^verbatim>\<open>r() = k / 10^6\<close>; the
  model compares it scaled by two million. The \<open>n\<close>-th move of the loop uses the \<open>n\<close>-th draw.
\<close>

definition CORNERS :: "nat list" where
  "CORNERS = [0, 7, 56, 63]"

fun rv_best :: "(string \<Rightarrow> string) \<Rightarrow> string \<Rightarrow> nat list \<Rightarrow> nat \<Rightarrow> int \<times> int \<Rightarrow> nat list \<Rightarrow> int" where
  "rv_best H rseed b n (best, bestScore) [] = best"
| "rv_best H rseed b n (best, bestScore) (m # ms) =
     (let s = 2000000 * (int (length (rv_flips b m 2)) + (if m \<in> set CORNERS then 10 else 0)) + int (prng_k H rseed n)
      in rv_best H rseed b (n + 1) (if s > bestScore then (int m, s) else (best, bestScore)) ms)"

definition rv_bot :: "(string \<Rightarrow> string) \<Rightarrow> nat list \<Rightarrow> string \<Rightarrow> nat \<Rightarrow> int" where
  "rv_bot H b seed ply =
     (let moves = rv_legal b 2
      in if moves = [] then -1
         else rv_best H (seed @ '':rv:'' @ show_nat ply) b 1 (-1, - 1000000000 * 2000000) moves)"

definition rv_rules :: "(string \<Rightarrow> string) \<Rightarrow> nat list rules" where
  "rv_rules H =
     \<lparr>r_slug = ''reversi'', r_bits = 6, r_max = 60, r_start = rv_start, r_legal = rv_legal,
      r_apply = rv_apply, r_over = rv_over, r_winner = rv_winner, r_bot = rv_bot H, r_margin = rv_margin\<rparr>"

definition rv_view :: "nat list \<Rightarrow> nat list \<Rightarrow> nat \<times> (nat \<times> nat option) list" where
  "rv_view b legalMoves =
     (8, map (\<lambda>i. (b ! i, if i \<in> set legalMoves then Some i else None)) [0..<length b])"

section \<open>Lines\<close>

definition rv_inv :: "nat list \<Rightarrow> bool" where
  "rv_inv b \<longleftrightarrow> length b = 64 \<and> (\<forall>x \<in> set b. x \<le> 2)"

lemma rv_cell_less: "rv_inside r c \<Longrightarrow> rv_cell r c < 64"
  by (auto simp: rv_inside_def rv_cell_def NB_def)

lemma rv_cell_inj: "rv_inside r c \<Longrightarrow> rv_inside r' c' \<Longrightarrow> rv_cell r c = rv_cell r' c' \<longleftrightarrow> r = r' \<and> c = c'"
proof -
  assume "rv_inside r c" "rv_inside r' c'"
  then have b: "0 \<le> r" "r < 8" "0 \<le> c" "c < 8" "0 \<le> r'" "r' < 8" "0 \<le> c'" "c' < 8"
    by (simp_all add: rv_inside_def NB_def)
  have "r * 8 + c = r' * 8 + c' \<longleftrightarrow> r = r' \<and> c = c'"
  proof
    assume e: "r * 8 + c = r' * 8 + c'"
    have "(x * 8 + y) div 8 = x \<and> (x * 8 + y) mod 8 = y" if "0 \<le> y" "y < 8" for x y :: int
      using that by simp
    from this [OF b(3,4), of r] this [OF b(7,8), of r'] show "r = r' \<and> c = c'" unfolding e by simp
  qed simp
  moreover have "nat (r * 8 + c) = nat (r' * 8 + c') \<longleftrightarrow> r * 8 + c = r' * 8 + c'"
    using b by (intro eq_nat_nat_iff) simp_all
  ultimately show ?thesis by (simp only: rv_cell_def NB_def)
qed

text \<open>The collected cells are consecutive cells of the line, all of the opponent.\<close>

lemma rv_line_elem:
  assumes "rv_line n b opp dr dc r c = (line, r', c')"
  shows "i < length line \<Longrightarrow> rv_inside (r + int i * dr) (c + int i * dc) \<and>
      line ! i = rv_cell (r + int i * dr) (c + int i * dc) \<and> b ! rv_cell (r + int i * dr) (c + int i * dc) = opp"
  using assms
proof (induction n arbitrary: r c line i)
  case (Suc n)
  show ?case
  proof (cases "rv_inside r c \<and> b ! rv_cell r c = opp")
    case True
    then obtain line' where l: "rv_line n b opp dr dc (r + dr) (c + dc) = (line', r', c')" "line = rv_cell r c # line'"
      using Suc.prems(2) by (auto split: prod.splits)
    show ?thesis
    proof (cases i)
      case 0
      then show ?thesis using True l by simp
    next
      case (Suc j)
      have e: "r + (1 + int j) * dr = r + dr + int j * dr" "c + (1 + int j) * dc = c + dc + int j * dc"
        by (simp_all add: algebra_simps)
      show ?thesis using Suc.IH [OF _ l(1), of j] Suc.prems(1) l(2) Suc by (simp add: e)
    qed
  next
    case False
    then show ?thesis using Suc.prems unfolding rv_line.simps if_not_P [OF False] by simp
  qed
qed simp

text \<open>Enough fuel: each step uses up one of at most eight rows or columns.\<close>

definition rv_room :: "int \<Rightarrow> int \<Rightarrow> int" where
  "rv_room d x = (if d = 1 then NB - x else x + 1)"

lemma rv_line_more:
  assumes "(dr = 1 \<or> dr = -1) \<and> rv_room dr r \<le> int n \<or> (dc = 1 \<or> dc = -1) \<and> rv_room dc c \<le> int n"
  shows "rv_line (Suc n) b opp dr dc r c = rv_line n b opp dr dc r c"
  using assms
proof (induction n arbitrary: r c)
  case 0
  then show ?case by (auto simp: rv_inside_def rv_room_def NB_def)
next
  case (Suc n)
  then have "(dr = 1 \<or> dr = -1) \<and> rv_room dr (r + dr) \<le> int n \<or> (dc = 1 \<or> dc = -1) \<and> rv_room dc (c + dc) \<le> int n"
    by (auto simp: rv_room_def)
  from Suc.IH [OF this] show ?case by (subst (1 2) rv_line.simps(2)) (simp only:)
qed

lemma rv_line_fuel:
  assumes "(dr, dc) \<in> set rv_DIRS" "0 \<le> r0" "r0 < 8" "0 \<le> c0" "c0 < 8" "8 \<le> n"
  shows "rv_line n b opp dr dc (r0 + dr) (c0 + dc) = rv_line 8 b opp dr dc (r0 + dr) (c0 + dc)"
  using assms(6)
proof (induction n rule: dec_induct)
  case (step n)
  have "rv_line (Suc n) b opp dr dc (r0 + dr) (c0 + dc) = rv_line n b opp dr dc (r0 + dr) (c0 + dc)"
    using assms(1-5) step(1) by (intro rv_line_more) (auto simp: rv_DIRS_def rv_room_def NB_def)
  then show ?case using step by simp
qed simp

section \<open>The discs a move turns\<close>

lemma rv_dir_elem:
  assumes "f \<in> set (rv_dir b cell p (dr, dc))"
  shows "\<exists>i > 0. rv_inside (int cell div 8 + i * dr) (int cell mod 8 + i * dc) \<and>
     f = rv_cell (int cell div 8 + i * dr) (int cell mod 8 + i * dc) \<and> b ! f = 3 - p"
proof -
  obtain line r c where l: "rv_line 8 b (3 - p) dr dc (int cell div 8 + dr) (int cell mod 8 + dc) = (line, r, c)"
    by (cases "rv_line 8 b (3 - p) dr dc (int cell div 8 + dr) (int cell mod 8 + dc)")
  then have "f \<in> set line" using assms by (auto simp: rv_dir_def NB_def Let_def split: if_splits)
  then obtain i where i: "i < length line" "f = line ! i" by (metis in_set_conv_nth)
  have e: "x + d + int i * d = x + (1 + int i) * d" for x d :: int by (simp add: algebra_simps)
  show ?thesis using rv_line_elem [OF l i(1)] i(2) by (intro exI [of _ "1 + int i"]) (simp add: e)
qed

lemma rv_dir_distinct:
  assumes "dr \<noteq> 0 \<or> dc \<noteq> 0"
  shows "distinct (rv_dir b cell p (dr, dc))"
proof -
  obtain line r c where l: "rv_line 8 b (3 - p) dr dc (int cell div 8 + dr) (int cell mod 8 + dc) = (line, r, c)"
    by (cases "rv_line 8 b (3 - p) dr dc (int cell div 8 + dr) (int cell mod 8 + dc)")
  have "i = j" if "i < length line" "j < length line" "line ! i = line ! j" for i j
    using rv_line_elem [OF l that(1)] rv_line_elem [OF l that(2)] that(3) assms by (auto simp: rv_cell_inj)
  then have "distinct line" by (simp add: distinct_conv_nth) blast
  then show ?thesis using l by (simp add: rv_dir_def NB_def Let_def)
qed

lemma rv_rays_meet:
  assumes "(dr, dc) \<in> set rv_DIRS" "(dr', dc') \<in> set rv_DIRS" "0 < i" "0 < j" "i * dr = j * dr'" "i * dc = j * dc'"
  shows "(dr, dc) = (dr', dc' :: int)"
  using assms by (simp add: rv_DIRS_def) (elim disjE; simp)

lemma rv_dirs_disjoint:
  assumes "d \<in> set rv_DIRS" "d' \<in> set rv_DIRS" "d \<noteq> d'"
  shows "set (rv_dir b cell p d) \<inter> set (rv_dir b cell p d') = {}"
proof (rule ccontr)
  assume "\<not> ?thesis"
  then obtain f where f: "f \<in> set (rv_dir b cell p d)" "f \<in> set (rv_dir b cell p d')" by blast
  obtain dr dc dr' dc' where d: "d = (dr, dc)" "d' = (dr', dc')" by (cases d; cases d')
  obtain i j where "0 < i" "0 < j"
    "rv_inside (int cell div 8 + i * dr) (int cell mod 8 + i * dc)"
    "rv_inside (int cell div 8 + j * dr') (int cell mod 8 + j * dc')"
    "rv_cell (int cell div 8 + i * dr) (int cell mod 8 + i * dc) = rv_cell (int cell div 8 + j * dr') (int cell mod 8 + j * dc')"
    using rv_dir_elem [of f b cell p dr dc] rv_dir_elem [of f b cell p dr' dc'] f d by auto
  then have "(dr, dc) = (dr', dc')"
    using rv_rays_meet [of dr dc dr' dc' i j] assms(1,2) d by (simp add: rv_cell_inj)
  then show False using assms(3) d by simp
qed

lemma distinct_concat_map:
  assumes "distinct xs" "\<And>x. x \<in> set xs \<Longrightarrow> distinct (f x)"
    and "\<And>x y. x \<in> set xs \<Longrightarrow> y \<in> set xs \<Longrightarrow> x \<noteq> y \<Longrightarrow> set (f x) \<inter> set (f y) = {}"
  shows "distinct (concat (map f xs))"
  using assms
proof (induction xs)
  case (Cons x xs)
  have "set (f x) \<inter> set (f y) = {}" if "y \<in> set xs" for y
    using Cons.prems(1) that by (intro Cons.prems(3)) auto
  then have "set (f x) \<inter> set (concat (map f xs)) = {}" by auto
  then show ?case using Cons by auto
qed simp

lemma rv_flips_distinct: "distinct (rv_flips b cell p)"
proof -
  have "distinct (concat (map (rv_dir b cell p) rv_DIRS))"
  proof (rule distinct_concat_map)
    fix d
    assume "d \<in> set rv_DIRS"
    then show "distinct (rv_dir b cell p d)"
      using rv_dir_distinct [of "fst d" "snd d" b cell p] by (auto simp: rv_DIRS_def)
  qed (simp_all add: rv_dirs_disjoint, simp add: rv_DIRS_def)
  then show ?thesis by (simp add: rv_flips_def)
qed

lemma rv_flips_elem:
  assumes "f \<in> set (rv_flips b cell p)"
  shows "f < 64" "b ! f = 3 - p" "b ! cell = 0"
proof -
  have e: "b ! cell = 0" "f \<in> set (concat (map (rv_dir b cell p) rv_DIRS))"
    using assms by (auto simp: rv_flips_def split: if_splits)
  then obtain dr dc where "f \<in> set (rv_dir b cell p (dr, dc))" by auto
  from rv_dir_elem [OF this] show "f < 64" "b ! f = 3 - p" using rv_cell_less by auto
  show "b ! cell = 0" by (rule e)
qed

lemma discs_update:
  assumes "i < length b" "b ! i = q" "q \<noteq> p"
  shows "discs (b[i := p]) x = (if x = p then discs b p + 1 else if x = q then discs b q - 1 else discs b x)"
    "0 < discs b q"
  using assms
proof (induction b arbitrary: i)
  case (Cons y b)
  {
    case 1
    then show ?case using Cons.IH by (cases i) (auto simp: discs_def)
  next
    case 2
    then show ?case using Cons.IH(2) by (cases i) (auto simp: discs_def)
  }
qed simp_all

lemma discs_fold:
  assumes "distinct fs" "\<And>f. f \<in> set fs \<Longrightarrow> f < length b \<and> b ! f = q" "q \<noteq> p"
  shows "discs (fold (\<lambda>f n. n[f := p]) fs b) p = discs b p + length fs"
    "discs (fold (\<lambda>f n. n[f := p]) fs b) q + length fs = discs b q"
    "x \<noteq> p \<Longrightarrow> x \<noteq> q \<Longrightarrow> discs (fold (\<lambda>f n. n[f := p]) fs b) x = discs b x"
proof -
  have "discs (fold (\<lambda>f n. n[f := p]) fs b) p = discs b p + length fs \<and>
    discs (fold (\<lambda>f n. n[f := p]) fs b) q + length fs = discs b q \<and>
    (x \<noteq> p \<longrightarrow> x \<noteq> q \<longrightarrow> discs (fold (\<lambda>f n. n[f := p]) fs b) x = discs b x)"
    using assms
  proof (induction fs arbitrary: b)
    case (Cons f fs)
    have f: "f < length b" "b ! f = q" using Cons.prems(2) [of f] by simp_all
    have "discs (fold (\<lambda>f n. n[f := p]) fs (b[f := p])) p = discs (b[f := p]) p + length fs \<and>
      discs (fold (\<lambda>f n. n[f := p]) fs (b[f := p])) q + length fs = discs (b[f := p]) q \<and>
      (x \<noteq> p \<longrightarrow> x \<noteq> q \<longrightarrow> discs (fold (\<lambda>f n. n[f := p]) fs (b[f := p])) x = discs (b[f := p]) x)"
      using Cons.prems by (intro Cons.IH) (auto simp: nth_list_update)
    then show ?case using discs_update [OF f Cons.prems(3)] Cons.prems(3) by auto
  qed simp
  then show "discs (fold (\<lambda>f n. n[f := p]) fs b) p = discs b p + length fs"
    "discs (fold (\<lambda>f n. n[f := p]) fs b) q + length fs = discs b q"
    "x \<noteq> p \<Longrightarrow> x \<noteq> q \<Longrightarrow> discs (fold (\<lambda>f n. n[f := p]) fs b) x = discs b x" by auto
qed

lemma rv_legal_iff: "m \<in> set (rv_legal b p) \<longleftrightarrow> m < 64 \<and> rv_flips b m p \<noteq> []"
  by (auto simp: rv_legal_def)

lemma rv_legal_free: "m \<in> set (rv_legal b p) \<Longrightarrow> m < 64 \<and> b ! m = 0"
  by (auto simp: rv_legal_iff rv_flips_def split: if_splits)

text \<open>A legal move puts one disc and turns as many as \<open>rv_flips\<close> lists.\<close>

lemma rv_apply_discs:
  assumes "rv_inv b" "p = 1 \<or> p = 2" "m \<in> set (rv_legal b p)"
  shows "discs (rv_apply b m p) p = discs b p + 1 + length (rv_flips b m p)"
    "discs (rv_apply b m p) (3 - p) + length (rv_flips b m p) = discs b (3 - p)"
    "discs (rv_apply b m p) 0 + 1 = discs b 0"
proof -
  have m: "m < length b" "b ! m = 0" "p \<noteq> 0" using rv_legal_free [OF assms(3)] assms(1,2) by (auto simp: rv_inv_def)
  have u: "discs (b[m := p]) p = discs b p + 1" "discs (b[m := p]) (3 - p) = discs b (3 - p)"
    "discs (b[m := p]) 0 + 1 = discs b 0"
    using discs_update [OF m(1,2), of p] m(3) assms(2) by auto
  have fl: "f < length (b[m := p]) \<and> b[m := p] ! f = 3 - p" if "f \<in> set (rv_flips b m p)" for f
    using rv_flips_elem [OF that] assms(1,2) m by (auto simp: rv_inv_def nth_list_update)
  have q: "3 - p \<noteq> p" "0 \<noteq> p" "0 \<noteq> 3 - p" using assms(2) by auto
  note d = discs_fold [OF rv_flips_distinct fl q(1)]
  show "discs (rv_apply b m p) p = discs b p + 1 + length (rv_flips b m p)"
    using d(1) u by (simp add: rv_apply_def)
  show "discs (rv_apply b m p) (3 - p) + length (rv_flips b m p) = discs b (3 - p)"
    using d(2) u by (simp add: rv_apply_def)
  show "discs (rv_apply b m p) 0 + 1 = discs b 0"
    using d(3) [where x = 0] q u by (simp add: rv_apply_def)
qed

lemma fold_update_inv: "rv_inv b \<Longrightarrow> p \<le> 2 \<Longrightarrow> rv_inv (fold (\<lambda>f n. n[f := p]) fs b)"
proof (induction fs arbitrary: b)
  case (Cons f fs)
  have "rv_inv (b[f := p])"
    using Cons.prems set_update_subset_insert [of b f p] by (auto simp: rv_inv_def)
  then show ?case using Cons by simp
qed simp

lemma rv_apply_inv: "rv_inv b \<Longrightarrow> p \<le> 2 \<Longrightarrow> rv_inv (rv_apply b m p)"
  unfolding rv_apply_def using set_update_subset_insert [of b m p]
  by (intro fold_update_inv) (auto simp: rv_inv_def)

section \<open>The interface\<close>

lemma rv_best_elem:
  "rv_best H s b n (best, sc) ms = best \<or> rv_best H s b n (best, sc) ms \<in> int ` set ms"
proof (induction ms arbitrary: n best sc)
  case (Cons m ms)
  show ?case using Cons [of "n + 1"] by (auto simp: Let_def)
qed simp

lemma rv_bot_legal:
  assumes "rv_legal b 2 \<noteq> []"
  shows "rv_bot H b seed ply \<in> int ` set (rv_legal b 2)"
proof -
  obtain m ms where m: "rv_legal b 2 = m # ms" using assms by (cases "rv_legal b 2") auto
  let ?s = "seed @ '':rv:'' @ show_nat ply"
  define sc where "sc = 2000000 * (int (length (rv_flips b m 2)) + (if m \<in> set CORNERS then 10 else 0)) + int (prng_k H ?s 1)"
  have "sc \<ge> 0" by (simp add: sc_def)
  then have "rv_bot H b seed ply = rv_best H ?s b 2 (int m, sc) ms"
    unfolding rv_bot_def m Let_def rv_best.simps sc_def [symmetric] by simp
  then show ?thesis using rv_best_elem [of H ?s b 2 "int m" sc ms] m by auto
qed

interpretation rv: board_rules "rv_rules H" rv_inv "\<lambda>b. discs b 0" for H
proof (unfold_locales, goal_cases)
  case 1
  show ?case by (simp add: rv_rules_def) code_simp
next
  case 2
  show ?case by (simp add: rv_rules_def) code_simp
next
  case 3
  show ?case by (simp add: rv_rules_def) code_simp
next
  case (4 s p m)
  then show ?case using rv_apply_inv by (auto simp: rv_rules_def)
next
  case (5 s p m)
  then show ?case using rv_apply_discs(3) [of s p m] by (simp add: rv_rules_def)
next
  case (6 s)
  then show ?case by (simp add: rv_rules_def rv_over_def)
next
  case (7 s seed ply)
  then show ?case using rv_bot_legal by (simp add: rv_rules_def)
next
  case (8 s)
  show ?case by (simp add: rv_rules_def rv_winner_def rv_margin_def)
qed

end
