(* ===== verification/BoardProperties.thy ===== *)
theory BoardProperties
  imports TicTacToe Connect4 Reversi
begin

text \<open>
  The properties of the provable-run SDK and of the three daily board games. The games' facts come
  from their interpretations \<open>ttt\<close>, \<open>c4\<close> and \<open>rv\<close> of the interface \<open>board_rules\<close>.
\<close>

text \<open>C7: What the codec keeps, for every width at which it packs at all. Each symbol comes back
  with its low \<open>bits mod 32\<close> bits, whatever was packed, so a list of moves survives exactly when all
  its symbols are that small: below 32 bits every symbol of the width does, from 32 bits on the
  32-bit shift has wrapped and larger ones are cut. Every packed word stays below 2 to the 50.\<close>

theorem move_codec:
  assumes "0 < bits" "bits \<le> 50"
  shows "unpackMoves (packMoves moves bits) bits (length moves) = map (\<lambda>m. m mod 2 ^ (bits mod 32)) moves \<and>
    (unpackMoves (packMoves moves bits) bits (length moves) = moves \<longleftrightarrow> (\<forall>m \<in> set moves. m < 2 ^ (bits mod 32))) \<and>
    (bits < 32 \<and> (\<forall>m \<in> set moves. m < 2 ^ bits) \<longrightarrow> unpackMoves (packMoves moves bits) bits (length moves) = moves) \<and>
    (\<forall>v \<in> set (packMoves moves bits). v < 2 ^ 50)"
proof -
  have "map (\<lambda>m. m mod 2 ^ (bits mod 32)) moves = moves \<longleftrightarrow> (\<forall>m \<in> set moves. m < 2 ^ (bits mod 32))"
    by (simp add: map_idI list_eq_iff_nth_eq all_set_conv_all_nth mod_eq_self_iff_div_eq_0 div_eq_0_iff)
  then show ?thesis using unpack_pack_mod [OF assms, of moves] pack_words_small [OF assms] by auto
qed

definition sample_moves :: "nat list" where
  "sample_moves = [3, 0, 6, 5, 1, 2, 4, 3, 3, 0, 6, 1, 2, 5, 4, 6, 0]"

theorem move_codec_witness:
  "unpackMoves (packMoves sample_moves 3) 3 17 = sample_moves \<and>
   unpackMoves (packMoves sample_moves 33) 33 17 \<noteq> sample_moves"
proof -
  have s: "\<forall>m \<in> set sample_moves. m < 2 ^ 3" "\<not> (\<forall>m \<in> set sample_moves. m < 2 ^ 1)" "length sample_moves = 17"
    by (simp_all add: sample_moves_def)
  have "unpackMoves (packMoves sample_moves 3) 3 (length sample_moves) = sample_moves"
    using move_codec [of 3 sample_moves, THEN conjunct2, THEN conjunct1] s(1) by simp
  moreover have "unpackMoves (packMoves sample_moves 33) 33 (length sample_moves) \<noteq> sample_moves"
    using move_codec [of 33 sample_moves, THEN conjunct2, THEN conjunct1] s(2) by simp
  ultimately show ?thesis unfolding s(3) by (rule conjI)
qed

text \<open>C8: The rows of a board are verified claims only, one per address, best first, and each
  address with an honest claim gets a row at least as good; the cache stays sound.\<close>

theorem board_rows:
  assumes "keyed replay (set entries)" "cache_sound replay (set entries) cache"
    and "verifyEntries replay cache entries = (cache', rows)"
  shows "(\<forall>r \<in> set rows. r \<in> set entries \<and> replay r = Some (ce_score r) \<and> 0 < ce_score r) \<and>
    distinct (map ce_addr rows) \<and> sorted (map (\<lambda>r. - ce_score r) rows) \<and>
    (\<forall>en \<in> set entries. honest replay en \<longrightarrow> (\<exists>r \<in> set rows. ce_addr r = ce_addr en \<and> ce_score en \<le> ce_score r)) \<and>
    cache_sound replay (set entries) cache'"
  using verify_rows [OF assms] unfolding honest_def by blast

definition sample_entries :: "claim_entry list" where
  "sample_entries =
     (let en = (\<lambda>e a s. \<lparr>ce_e = e, ce_day = 20000, ce_addr = a, ce_score = s, ce_n = 1, ce_ts = 0, ce_words = [1]\<rparr>)
      in [en ''1'' ''ndoa'' 40, en ''2'' ''ndob'' 90, en ''3'' ''ndoa'' 70, en ''4'' ''ndoc'' 100])"

definition sample_replay :: "claim_entry \<Rightarrow> int option" where
  "sample_replay en = (if ce_addr en = ''ndob'' then None else if ce_addr en = ''ndoa'' then Some (ce_score en) else Some 12)"

theorem board_rows_witness:
  "\<exists>r \<in> set (snd (verifyEntries sample_replay (\<lambda>_. None) sample_entries)). ce_addr r = ''ndoa'' \<and> 70 \<le> ce_score r"
proof -
  have k: "keyed sample_replay (set sample_entries)"
    by (simp add: keyed_def sample_entries_def sample_replay_def claim_key_def)
  have "cache_sound sample_replay (set sample_entries) (\<lambda>_. None)" by (simp add: cache_sound_def)
  from board_rows [OF k this prod.collapse [symmetric]]
  have "honest sample_replay en \<longrightarrow> (\<exists>r \<in> set (snd (verifyEntries sample_replay (\<lambda>_. None) sample_entries)).
      ce_addr r = ce_addr en \<and> ce_score en \<le> ce_score r)" if "en \<in> set sample_entries" for en
    using that by blast
  from this [of "sample_entries ! 2"] show ?thesis
    by (simp add: sample_entries_def honest_def sample_replay_def)
qed

text \<open>C9: In the three daily games a replay is never cut short by the harness: an unrejected run
  stops at the end of the game or for want of human moves, within \<open>MAX_MOVES\<close> plies.\<close>

theorem daily_never_cut:
  "never_cut (ttt_rules H) \<and> never_cut (c4_rules H) \<and> never_cut (rv_rules H)"
  by (intro conjI ttt.never_cut c4.never_cut rv.never_cut)

text \<open>C10: In the three daily games the verified score tells the outcome: at least 100 is a win,
  exactly 40 a draw, 0 a loss, and -1 no finished game.\<close>

theorem daily_score_tells:
  "score_tells (ttt_rules H) \<and> score_tells (c4_rules H) \<and> score_tells (rv_rules H)"
  by (intro conjI ttt.score_tells c4.score_tells rv.score_tells)

text \<open>The tic-tac-toe bot wins when one of its moves wins, and otherwise, when the human
  threatens to win, takes a cell where the human would have won.\<close>

theorem ttt_bot_play:
  assumes "length b = 9" "ttt_winner b = 0"
  shows "((\<exists>c \<in> set (ttt_legal b). ttt_winner (ttt_apply b c 2) = 2) \<longrightarrow>
            ttt_winner (ttt_apply b (nat (ttt_bot H b seed ply)) 2) = 2) \<and>
         ((\<forall>c \<in> set (ttt_legal b). ttt_winner (ttt_apply b c 2) \<noteq> 2) \<longrightarrow>
          (\<exists>c \<in> set (ttt_legal b). ttt_winner (ttt_apply b c 1) = 1) \<longrightarrow>
            ttt_winner (ttt_apply b (nat (ttt_bot H b seed ply)) 1) = 1)"
proof (intro conjI impI)
  assume "\<exists>c \<in> set (ttt_legal b). ttt_winner (ttt_apply b c 2) = 2"
  then have "winMove b 2 \<ge> 0" using winMove_spec(1) [OF assms(1) _ assms(2)] by simp
  then show "ttt_winner (ttt_apply b (nat (ttt_bot H b seed ply)) 2) = 2"
    using winMove_spec(2) [OF assms(1) _ assms(2), of 2] by (simp add: ttt_bot_def)
next
  assume "\<forall>c \<in> set (ttt_legal b). ttt_winner (ttt_apply b c 2) \<noteq> 2"
    and "\<exists>c \<in> set (ttt_legal b). ttt_winner (ttt_apply b c 1) = 1"
  then have "\<not> winMove b 2 \<ge> 0" "winMove b 1 \<ge> 0"
    using winMove_spec(1) [OF assms(1) _ assms(2)] by simp_all
  then show "ttt_winner (ttt_apply b (nat (ttt_bot H b seed ply)) 1) = 1"
    using winMove_spec(2) [OF assms(1) _ assms(2), of 1] by (simp add: ttt_bot_def)
qed

definition ttt_sample :: "nat list" where
  "ttt_sample = [1, 1, 0, 2, 2, 0, 1, 0, 0]"

theorem ttt_bot_play_witness:
  "\<forall>H seed ply. ttt_winner (ttt_apply ttt_sample (nat (ttt_bot H ttt_sample seed ply)) 2) = 2"
proof (intro allI)
  fix H seed ply
  have s: "length ttt_sample = 9" "ttt_winner ttt_sample = 0"
    "\<exists>c \<in> set (ttt_legal ttt_sample). ttt_winner (ttt_apply ttt_sample c 2) = 2"
    by code_simp+
  show "ttt_winner (ttt_apply ttt_sample (nat (ttt_bot H ttt_sample seed ply)) 2) = 2"
    using ttt_bot_play [OF s(1,2), of H seed ply] s(3) by blast
qed

text \<open>A connect-four board has a winner exactly when four stones of one player stand in a row,
  and the winner is a player who has four.\<close>

theorem c4_winner_iff:
  assumes "c4_inv b"
  shows "(c4_winner b \<noteq> 0 \<longleftrightarrow> (\<exists>p c r. p \<noteq> 0 \<and> (\<exists>(dc, dr) \<in> set c4_DIRS. four_of b p c r dc dr))) \<and>
    (c4_winner b \<noteq> 0 \<longrightarrow> (\<exists>c r. \<exists>(dc, dr) \<in> set c4_DIRS. four_of b (c4_winner b) c r dc dr))"
proof (intro conjI iffI impI)
  assume w: "c4_winner b \<noteq> 0"
  show "\<exists>c r. \<exists>(dc, dr) \<in> set c4_DIRS. four_of b (c4_winner b) c r dc dr"
    by (rule c4_winner_four [OF refl w])
  then show "\<exists>p c r. p \<noteq> 0 \<and> (\<exists>(dc, dr) \<in> set c4_DIRS. four_of b p c r dc dr)"
    using w by (intro exI [of _ "c4_winner b"]) simp
next
  assume "\<exists>p c r. p \<noteq> 0 \<and> (\<exists>(dc, dr) \<in> set c4_DIRS. four_of b p c r dc dr)"
  then obtain p c r dc dr where "p \<noteq> 0" "(dc, dr) \<in> set c4_DIRS" "four_of b p c r dc dr" by (elim exE conjE bexE) (simp split: prod.splits)
  then show "c4_winner b \<noteq> 0" using c4_four_winner [OF assms] by simp
qed

definition c4_sample :: "nat list list" where
  "c4_sample = [[1], [2, 1], [2, 2, 1], [1, 2, 2, 1], [], [], []]"

theorem c4_winner_iff_witness:
  "\<exists>c r. \<exists>(dc, dr) \<in> set c4_DIRS. four_of c4_sample (c4_winner c4_sample) c r dc dr"
proof -
  have "c4_inv c4_sample" "c4_winner c4_sample \<noteq> 0" by code_simp+
  then show ?thesis using c4_winner_iff [of c4_sample] by simp
qed

text \<open>A legal reversi move adds one own disc, turns as many of the opponent's as the code lists
  flips, and fills exactly one free cell.\<close>

theorem rv_move_discs:
  assumes "rv_inv b" "p = 1 \<or> p = 2" "m \<in> set (rv_legal b p)"
  shows "discs (rv_apply b m p) p = discs b p + 1 + length (rv_flips b m p) \<and>
    discs (rv_apply b m p) (3 - p) + length (rv_flips b m p) = discs b (3 - p) \<and>
    discs (rv_apply b m p) 0 + 1 = discs b 0 \<and> 0 < length (rv_flips b m p)"
  using rv_apply_discs [OF assms] assms(3) by (simp add: rv_legal_iff)

theorem rv_move_discs_witness:
  "discs (rv_apply rv_start 19 1) 1 = 4 \<and> discs (rv_apply rv_start 19 1) 2 = 1"
proof -
  have "rv_inv rv_start" "19 \<in> set (rv_legal rv_start 1)" "length (rv_flips rv_start 19 1) = 1"
    "discs rv_start 1 = 2" "discs rv_start 2 = 2" by code_simp+
  then show ?thesis using rv_move_discs [of rv_start 1 19] by simp
qed

end
