(* ===== verification/HexBoard.thy ===== *)
theory HexBoard
  imports Prelude "HOL-Library.Product_Lexorder"
begin

text \<open>
  Constants, move encoding, board geometry and the seeded layout of Hexholm
  (\<^verbatim>\<open>static/hexholm-engine.js\<close>, up to \<^verbatim>\<open>layout\<close>). The hash is a parameter
  \<open>H\<close> on naturals: \<^verbatim>\<open>H(v)\<close> reads the hexadecimal digest of a BigInt as a BigInt.
\<close>

section \<open>Costs, scrolls and supplies\<close>

definition COST_road :: "int list" where "COST_road = [1, 1, 0, 0, 0]"
definition COST_stead :: "int list" where "COST_stead = [1, 1, 1, 1, 0]"
definition COST_keep :: "int list" where "COST_keep = [0, 0, 0, 2, 3]"
definition COST_scroll :: "int list" where "COST_scroll = [0, 0, 1, 1, 1]"

definition WARDEN :: nat where "WARDEN = 1"
definition CHARTER :: nat where "CHARTER = 2"
definition PATHWRIGHT :: nat where "PATHWRIGHT = 3"
definition BOUNTY :: nat where "BOUNTY = 4"
definition LEVY :: nat where "LEVY = 5"

definition DEV_BAG :: "nat list" where
  "DEV_BAG = [WARDEN, WARDEN, WARDEN, WARDEN, WARDEN, WARDEN, WARDEN, WARDEN, WARDEN, WARDEN,
              WARDEN, WARDEN, WARDEN, WARDEN, CHARTER, CHARTER, CHARTER, CHARTER, CHARTER,
              PATHWRIGHT, PATHWRIGHT, BOUNTY, BOUNTY, LEVY, LEVY]"

definition SUPPLY_road :: nat where "SUPPLY_road = 15"
definition SUPPLY_stead :: nat where "SUPPLY_stead = 5"
definition SUPPLY_keep :: nat where "SUPPLY_keep = 4"
definition BANK_EACH :: int where "BANK_EACH = 19"
definition HAND_LIMIT :: int where "HAND_LIMIT = 7"
definition WIN_VP :: nat where "WIN_VP = 10"
definition DEV_CAP :: nat where "DEV_CAP = 25"

section \<open>Move encoding\<close>

definition OP_ROLL :: nat where "OP_ROLL = 1"
definition OP_SETUP :: nat where "OP_SETUP = 2"
definition OP_ROAD :: nat where "OP_ROAD = 3"
definition OP_STEAD :: nat where "OP_STEAD = 4"
definition OP_KEEP :: nat where "OP_KEEP = 5"
definition OP_BUY :: nat where "OP_BUY = 6"
definition OP_WARDEN :: nat where "OP_WARDEN = 7"
definition OP_PATH :: nat where "OP_PATH = 8"
definition OP_BOUNTY :: nat where "OP_BOUNTY = 9"
definition OP_LEVY :: nat where "OP_LEVY = 10"
definition OP_ROBBER :: nat where "OP_ROBBER = 12"
definition OP_DISCARD :: nat where "OP_DISCARD = 13"
definition OP_BANK :: nat where "OP_BANK = 14"
definition OP_OFFER :: nat where "OP_OFFER = 15"
definition OP_ACCEPT :: nat where "OP_ACCEPT = 16"
definition OP_RESCIND :: nat where "OP_RESCIND = 18"
definition OP_END :: nat where "OP_END = 19"
definition OP_WIN :: nat where "OP_WIN = 20"

lemmas hx_ops = OP_ROLL_def OP_SETUP_def OP_ROAD_def OP_STEAD_def OP_KEEP_def OP_BUY_def OP_WARDEN_def
  OP_PATH_def OP_BOUNTY_def OP_LEVY_def OP_ROBBER_def OP_DISCARD_def OP_BANK_def OP_OFFER_def
  OP_ACCEPT_def OP_RESCIND_def OP_END_def OP_WIN_def

definition A_LIM :: nat where "A_LIM = 2 ^ 22"
definition B_LIM :: nat where "B_LIM = 2 ^ 25"

definition hx_enc :: "nat \<Rightarrow> nat \<Rightarrow> nat \<Rightarrow> nat" where
  "hx_enc opc a b = opc + a * 64 + b * 64 * A_LIM"

definition hx_dec :: "nat \<Rightarrow> nat \<times> nat \<times> nat" where
  "hx_dec e = (e mod 64, e div 64 mod A_LIM, e div (64 * A_LIM))"

text \<open>Resource counts packed three or five bits each, the lowest resource first.\<close>

definition pack_base :: "nat \<Rightarrow> nat list \<Rightarrow> nat" where
  "pack_base base c = sum_list (map (\<lambda>r. min (base - 1) (c ! r) * base ^ r) [0..<length c])"

definition unpack_base :: "nat \<Rightarrow> nat \<Rightarrow> nat list" where
  "unpack_base base p = map (\<lambda>r. p div base ^ r mod base) [0..<5]"

definition pack3 :: "nat list \<Rightarrow> nat" where "pack3 c = pack_base 8 c"
definition unpack3 :: "nat \<Rightarrow> nat list" where "unpack3 p = unpack_base 8 p"
definition pack5 :: "nat list \<Rightarrow> nat" where "pack5 c = pack_base 32 c"
definition unpack5 :: "nat \<Rightarrow> nat list" where "unpack5 p = unpack_base 32 p"

section \<open>Randomness\<close>

definition der :: "(nat \<Rightarrow> nat) \<Rightarrow> nat \<Rightarrow> nat \<Rightarrow> nat" where
  "der H q salt = H (q + salt)"

definition derN :: "(nat \<Rightarrow> nat) \<Rightarrow> nat \<Rightarrow> nat \<Rightarrow> nat \<Rightarrow> nat" where
  "derN H q salt n = der H q salt mod n"

section \<open>Geometry\<close>

text \<open>
  The 19 hexes \<open>(q, r)\<close>, row by row. A corner is a lattice point \<open>(x, y)\<close>; the code numbers the
  corners by their first appearance and renumbers them in the order \<open>(y, x)\<close>, so a vertex id is
  the position in the sorted list.
\<close>

fun index_of :: "'a \<Rightarrow> 'a list \<Rightarrow> nat" where
  "index_of x [] = 0"
| "index_of x (y # ys) = (if x = y then 0 else Suc (index_of x ys))"

definition keep_first :: "'a list \<Rightarrow> 'a list" where
  "keep_first xs = fold (\<lambda>x ys. if x \<in> set ys then ys else ys @ [x]) xs []"

definition hx_hexes :: "(int \<times> int) list" where
  "hx_hexes = sort_key (\<lambda>(q, r). (r, q))
     (concat (map (\<lambda>r. map (\<lambda>q. (q, r)) (filter (\<lambda>q. \<bar>q + r\<bar> \<le> 2) [-2, -1, 0, 1, 2])) [-2, -1, 0, 1, 2]))"

definition CO :: "(int \<times> int) list" where
  "CO = [(0, -2), (1, -1), (1, 1), (0, 2), (-1, 1), (-1, -1)]"

definition corner_points :: "int \<times> int \<Rightarrow> (int \<times> int) list" where
  "corner_points h = (case h of (q, r) \<Rightarrow> map (\<lambda>(dx, dy). (2 * q + r + dx, 3 * r + dy)) CO)"

definition hx_points :: "(int \<times> int) list" where
  "hx_points = sort_key (\<lambda>(x, y). (y, x)) (keep_first (concat (map corner_points hx_hexes)))"

definition hx_corners :: "nat list list" where
  "hx_corners = map (\<lambda>h. map (\<lambda>p. index_of p hx_points) (corner_points h)) hx_hexes"

text \<open>The six sides of a hex as pairs of vertex ids, smaller id first.\<close>

definition hex_sides :: "nat list \<Rightarrow> (nat \<times> nat) list" where
  "hex_sides cs = map (\<lambda>i. (min (cs ! i) (cs ! ((i + 1) mod 6)), max (cs ! i) (cs ! ((i + 1) mod 6)))) [0, 1, 2, 3, 4, 5]"

definition hx_edges :: "(nat \<times> nat) list" where
  "hx_edges = sort_key (\<lambda>(a, b). (snd (hx_points ! a) + snd (hx_points ! b), fst (hx_points ! a) + fst (hx_points ! b), a))
     (keep_first (concat (map hex_sides hx_corners)))"

definition NHEX :: nat where "NHEX = length hx_hexes"
definition NVERT :: nat where "NVERT = length hx_points"
definition NEDGE :: nat where "NEDGE = length hx_edges"

definition edge_a :: "nat \<Rightarrow> nat" where "edge_a e = fst (hx_edges ! e)"
definition edge_b :: "nat \<Rightarrow> nat" where "edge_b e = snd (hx_edges ! e)"

text \<open>
  The board is a constant: its four tables, by evaluation (as code equations they spare later
  evaluations the construction). The corners of a hex are six different vertices, so that every
  edge joins two different vertices.
\<close>

lemma hx_hexes_table [code]:
  "hx_hexes = [(0, -2), (1, -2), (2, -2), (-1, -1), (0, -1), (1, -1), (2, -1), (-2, 0), (-1, 0), (0, 0), (1, 0), (2, 0),
    (-2, 1), (-1, 1), (0, 1), (1, 1), (-2, 2), (-1, 2), (0, 2)]"
  by code_simp

lemma hx_points_table [code]:
  "hx_points = [(-2, -8), (0, -8), (2, -8), (-3, -7), (-1, -7), (1, -7), (3, -7), (-3, -5), (-1, -5), (1, -5), (3, -5), (-4,
    -4), (-2, -4), (0, -4), (2, -4), (4, -4), (-4, -2), (-2, -2), (0, -2), (2, -2), (4, -2), (-5, -1), (-3,
    -1), (-1, -1), (1, -1), (3, -1), (5, -1), (-5, 1), (-3, 1), (-1, 1), (1, 1), (3, 1), (5, 1), (-4, 2), (-2,
    2), (0, 2), (2, 2), (4, 2), (-4, 4), (-2, 4), (0, 4), (2, 4), (4, 4), (-3, 5), (-1, 5), (1, 5), (3, 5),
    (-3, 7), (-1, 7), (1, 7), (3, 7), (-2, 8), (0, 8), (2, 8)]"
  by code_simp

lemma hx_corners_table [code]:
  "hx_corners = [[0, 4, 8, 12, 7, 3], [1, 5, 9, 13, 8, 4], [2, 6, 10, 14, 9, 5], [7, 12, 17, 22, 16, 11], [8, 13, 18, 23, 17,
    12], [9, 14, 19, 24, 18, 13], [10, 15, 20, 25, 19, 14], [16, 22, 28, 33, 27, 21], [17, 23, 29, 34, 28,
    22], [18, 24, 30, 35, 29, 23], [19, 25, 31, 36, 30, 24], [20, 26, 32, 37, 31, 25], [28, 34, 39, 43, 38,
    33], [29, 35, 40, 44, 39, 34], [30, 36, 41, 45, 40, 35], [31, 37, 42, 46, 41, 36], [39, 44, 48, 51, 47,
    43], [40, 45, 49, 52, 48, 44], [41, 46, 50, 53, 49, 45]]"
  by code_simp

lemma hx_edges_table [code]:
  "hx_edges = [(0, 3), (0, 4), (1, 4), (1, 5), (2, 5), (2, 6), (3, 7), (4, 8), (5, 9), (6, 10), (7, 11), (7, 12), (8, 12),
    (8, 13), (9, 13), (9, 14), (10, 14), (10, 15), (11, 16), (12, 17), (13, 18), (14, 19), (15, 20), (16, 21),
    (16, 22), (17, 22), (17, 23), (18, 23), (18, 24), (19, 24), (19, 25), (20, 25), (20, 26), (21, 27), (22,
    28), (23, 29), (24, 30), (25, 31), (26, 32), (27, 33), (28, 33), (28, 34), (29, 34), (29, 35), (30, 35),
    (30, 36), (31, 36), (31, 37), (32, 37), (33, 38), (34, 39), (35, 40), (36, 41), (37, 42), (38, 43), (39,
    43), (39, 44), (40, 44), (40, 45), (41, 45), (41, 46), (42, 46), (43, 47), (44, 48), (45, 49), (46, 50),
    (47, 51), (48, 51), (48, 52), (49, 52), (49, 53), (50, 53)]"
  by code_simp

lemma NHEX_19: "NHEX = 19"
  by (simp add: NHEX_def hx_hexes_table)

lemma NVERT_54: "NVERT = 54"
  by (simp add: NVERT_def hx_points_table)

lemma NEDGE_72: "NEDGE = 72"
  by (simp add: NEDGE_def hx_edges_table)

lemma hx_corners_ok: "list_all (\<lambda>cs. list_all (\<lambda>c. c < 54) cs \<and> distinct cs \<and> length cs = 6) hx_corners"
  by (simp add: hx_corners_table)

lemma set_fold_keep: "set (fold (\<lambda>x ys. if x \<in> set ys then ys else ys @ [x]) xs zs) = set xs \<union> set zs"
  by (induction xs arbitrary: zs) auto

lemma set_keep_first [simp]: "set (keep_first xs) = set xs"
  by (simp add: keep_first_def set_fold_keep)

lemma hex_sides_ends:
  assumes "list_all (\<lambda>c. c < n) cs" "distinct cs" "length cs = 6" "(a, b) \<in> set (hex_sides cs)"
  shows "a < b \<and> b < n"
proof -
  obtain i where i: "i < 6" "a = min (cs ! i) (cs ! ((i + 1) mod 6))" "b = max (cs ! i) (cs ! ((i + 1) mod 6))"
  proof -
    from assms(4) obtain i where "i \<in> set [0, 1, 2, 3, 4, 5]"
      "(a, b) = (min (cs ! i) (cs ! ((i + 1) mod 6)), max (cs ! i) (cs ! ((i + 1) mod 6)))"
      unfolding hex_sides_def set_map by (rule imageE)
    then show thesis by (intro that [of i]) auto
  qed
  have j: "(i + 1) mod 6 < 6" "(i + 1) mod 6 \<noteq> i" using i(1) by (auto simp: mod_Suc)
  have "cs ! i < n" "cs ! ((i + 1) mod 6) < n" using assms(1,3) i(1) j(1) by (auto simp: list_all_length)
  moreover have "cs ! i \<noteq> cs ! ((i + 1) mod 6)"
    using nth_eq_iff_index_eq [OF assms(2), of i "(i + 1) mod 6"] assms(3) i(1) j by auto
  ultimately show ?thesis using i(2,3) by (auto simp: min_def max_def)
qed

lemma edge_ends: "e < NEDGE \<Longrightarrow> edge_a e < edge_b e \<and> edge_b e < NVERT"
proof -
  assume "e < NEDGE"
  then have "hx_edges ! e \<in> set hx_edges" by (simp add: NEDGE_def)
  then have "\<exists>cs \<in> set hx_corners. hx_edges ! e \<in> set (hex_sides cs)"
    by (simp add: hx_edges_def)
  then obtain cs where cs: "cs \<in> set hx_corners" "(edge_a e, edge_b e) \<in> set (hex_sides cs)"
    by (auto simp: edge_a_def edge_b_def)
  from cs(1) hx_corners_ok have "list_all (\<lambda>c. c < 54) cs" "distinct cs" "length cs = 6"
    by (auto simp: list_all_iff)
  from hex_sides_ends [OF this cs(2)] show ?thesis by (simp add: NVERT_54)
qed

definition edge_hexes :: "nat \<Rightarrow> nat list" where
  "edge_hexes e = filter (\<lambda>i. hx_edges ! e \<in> set (hex_sides (hx_corners ! i))) [0..<NHEX]"

definition vert_hexes :: "nat \<Rightarrow> nat list" where
  "vert_hexes v = filter (\<lambda>i. v \<in> set (hx_corners ! i)) [0..<NHEX]"

definition vert_edges :: "nat \<Rightarrow> nat list" where
  "vert_edges v = filter (\<lambda>e. edge_a e = v \<or> edge_b e = v) [0..<NEDGE]"

definition edge_other :: "nat \<Rightarrow> nat \<Rightarrow> nat" where
  "edge_other e v = (if edge_a e = v then edge_b e else edge_a e)"

definition vert_adj :: "nat \<Rightarrow> nat list" where
  "vert_adj v = map (\<lambda>e. edge_other e v) (vert_edges v)"

definition hex_nbr :: "nat \<Rightarrow> nat list" where
  "hex_nbr i = filter (\<lambda>j. j \<noteq> i \<and>
       (case (hx_hexes ! i, hx_hexes ! j) of ((q, r), (q', r')) \<Rightarrow>
          \<bar>q' - q\<bar> \<le> 1 \<and> \<bar>r' - r\<bar> \<le> 1 \<and> \<bar>(q' + r') - (q + r)\<bar> \<le> 1)) [0..<NHEX]"

definition coastal :: "nat list" where
  "coastal = filter (\<lambda>e. length (edge_hexes e) = 1) [0..<NEDGE]"

text \<open>The walk around the coast: each round adds an unused coastal edge that shares a vertex with the last.\<close>

definition ring_next :: "nat list \<Rightarrow> nat option" where
  "ring_next ring =
     (let l = last ring
      in List.find (\<lambda>i. i \<notin> set ring \<and> (edge_a i = edge_a l \<or> edge_a i = edge_b l \<or> edge_b i = edge_a l \<or> edge_b i = edge_b l))
           coastal)"

function ring_walk :: "nat list \<Rightarrow> nat list" where
  "ring_walk ring =
     (if length ring < length coastal
      then (case ring_next ring of None \<Rightarrow> ring | Some n \<Rightarrow> ring_walk (ring @ [n]))
      else ring)"
  by pat_completeness auto
termination by (relation "measure (\<lambda>ring. length coastal - length ring)") auto

declare ring_walk.simps [simp del]

definition hx_ring :: "nat list" where "hx_ring = ring_walk [coastal ! 0]"

definition PORT_AT :: "nat list" where
  "PORT_AT = map (\<lambda>i. hx_ring ! i) [0, 3, 7, 10, 13, 17, 20, 23, 27]"

section \<open>Layout\<close>

record hx_layout =
  tiles :: "int list"
  tokens :: "nat list"
  ports :: "int list"
  l_first :: nat
  waste :: nat

definition TILE_BAG :: "int list" where
  "TILE_BAG = [0, 0, 0, 0, 2, 2, 2, 2, 3, 3, 3, 3, 1, 1, 1, 4, 4, 4, -1]"

definition TOKEN_BAG :: "nat list" where
  "TOKEN_BAG = [2, 3, 3, 4, 4, 5, 5, 6, 6, 8, 8, 9, 9, 10, 10, 11, 11, 12]"

definition PORT_BAG :: "int list" where
  "PORT_BAG = [-1, -1, -1, -1, 0, 1, 2, 3, 4]"

definition shuffled :: "(nat \<Rightarrow> nat) \<Rightarrow> 'a list \<Rightarrow> nat \<Rightarrow> nat \<Rightarrow> 'a list" where
  "shuffled H arr q salt = fisher_yates (\<lambda>i. derN H q (salt * 1000 + i) (i + 1)) arr"

text \<open>Tokens go to the tiles in order, skipping the Wastes, which get 0.\<close>

fun place_tokens :: "int list \<Rightarrow> nat list \<Rightarrow> nat list" where
  "place_tokens [] tks = []"
| "place_tokens (t # ts) tks =
     (if t = -1 then 0 # place_tokens ts tks
      else (case tks of [] \<Rightarrow> 0 # place_tokens ts [] | k # ks \<Rightarrow> k # place_tokens ts ks))"

definition hot :: "nat list \<Rightarrow> nat \<Rightarrow> bool" where
  "hot tok i \<longleftrightarrow> tok ! i = 6 \<or> tok ! i = 8"

definition spaced :: "nat list \<Rightarrow> bool" where
  "spaced tok \<longleftrightarrow> \<not> (\<exists>i \<in> set [0..<NHEX]. hot tok i \<and> (\<exists>j \<in> set (hex_nbr i). hot tok j))"

definition deal :: "(nat \<Rightarrow> nat) \<Rightarrow> nat \<Rightarrow> nat \<Rightarrow> int list \<times> nat list" where
  "deal H qkh attempt =
     (let ts = shuffled H TILE_BAG qkh (11 + attempt * 7);
          tks = shuffled H TOKEN_BAG qkh (12 + attempt * 7)
      in (ts, place_tokens ts tks))"

text \<open>
  The re-deal loop. It has no bound, and whether it ends depends on the hash, so it is a partial
  function: \<open>None\<close> is a loop that never returns.
\<close>

partial_function (option) layout_loop :: "(nat \<Rightarrow> nat) \<Rightarrow> nat \<Rightarrow> nat \<Rightarrow> nat \<Rightarrow> hx_layout option" where
  "layout_loop H qkh cap attempt =
     (case deal H qkh attempt of (ts, tok) \<Rightarrow>
        if spaced tok
        then Some \<lparr>tiles = ts, tokens = tok, ports = shuffled H PORT_BAG qkh 13,
                   l_first = derN H qkh 14 cap + 1, waste = index_of (-1) ts\<rparr>
        else layout_loop H qkh cap (attempt + 1))"

declare layout_loop.simps [code]

definition layout :: "(nat \<Rightarrow> nat) \<Rightarrow> nat \<Rightarrow> nat \<Rightarrow> hx_layout option" where
  "layout H qkh cap = layout_loop H qkh cap 0"

end
