(* ===== verification/HexState.thy ===== *)
theory HexState
  imports HexBoard
begin

text \<open>
  The game state of Hexholm and the helpers of its referee
  (\<^verbatim>\<open>newPlayer\<close> to \<^verbatim>\<open>bankRate\<close> of \<^verbatim>\<open>static/hexholm-engine.js\<close>). A JavaScript
  \<^verbatim>\<open>Set\<close> is a duplicate-free list in insertion order. Seats are 1 to \<open>h_cap\<close>; the object
  of players is a function on seats. Hands and bank are integer lists of length five, so that a
  count could go below zero if a guard were missing. The unused field \<^verbatim>\<open>devPlayedTurn\<close> is
  left out.
\<close>

section \<open>State\<close>

record hx_player =
  p_res :: "int list"
  p_roads :: "nat list"
  p_steads :: "nat list"
  p_keeps :: "nat list"
  devKnown :: "nat list"
  devDrawn :: nat
  p_plays :: "nat \<Rightarrow> nat"
  buysBeforeTurn :: nat
  buysThisTurn :: nat
  roadLen :: nat
  owe :: int

datatype hx_phase = PSetup | PPreroll | PMain | PRobber | PDiscard

record hx_offer =
  o_by :: nat
  o_give :: "int list"
  o_get :: "int list"
  o_at :: nat

text \<open>The structured log events, one constructor per kind.\<close>

datatype hx_event =
    Found string "int list option"
  | Rolled nat nat nat
  | Seven
  | Gain "int list"
  | Discarded "int list"
  | Marauder string "(nat \<times> int) option"
  | WardenPlayed string nat int
  | PathPlayed
  | BountyPlayed nat nat
  | LevyPlayed nat int
  | RoadBuilt
  | SteadBuilt string
  | KeepBuilt string
  | ScrollBought nat
  | BankTrade nat nat nat
  | Offered "int list" "int list"
  | TradeWith nat "int list" "int list"
  | Ended nat
  | WinClaim
  | Won nat
  | LongRoad nat
  | LongRoadLost
  | Banner nat

record hx =
  h_cap :: nat
  secrets :: "nat \<Rightarrow> nat option"
  commits :: "nat \<Rightarrow> bool"
  h_layout :: hx_layout
  bank :: "int list"
  players :: "nat \<Rightarrow> hx_player"
  robber :: nat
  phase :: hx_phase
  setupIdx :: nat
  turnSeat :: nat
  rolled :: bool
  dice :: nat
  devBought :: nat
  offers :: "hx_offer list"
  roadHolder :: nat
  watchHolder :: nat
  playedScroll :: bool
  over :: bool
  winner :: nat
  corrupt :: nat
  why :: string
  blocked :: bool
  mi :: nat
  log :: "(nat \<times> hx_event \<times> nat) list"
  turnNo :: nat
  first :: nat
  pendingWin :: nat
  playsLog :: "(nat \<times> nat) list"

definition newPlayer :: hx_player where
  "newPlayer = \<lparr>p_res = [0, 0, 0, 0, 0], p_roads = [], p_steads = [], p_keeps = [], devKnown = [],
     devDrawn = 0, p_plays = (\<lambda>_. 0), buysBeforeTurn = 0, buysThisTurn = 0, roadLen = 0, owe = 0\<rparr>"

section \<open>Small helpers\<close>

definition seats :: "hx \<Rightarrow> nat list" where
  "seats st = [1..<h_cap st + 1]"

definition set_player :: "nat \<Rightarrow> hx_player \<Rightarrow> hx \<Rightarrow> hx" where
  "set_player s p st = st\<lparr>players := (players st)(s := p)\<rparr>"

definition set_add :: "nat \<Rightarrow> nat list \<Rightarrow> nat list" where
  "set_add x xs = (if x \<in> set xs then xs else xs @ [x])"

definition set_del :: "nat \<Rightarrow> nat list \<Rightarrow> nat list" where
  "set_del x xs = filter (\<lambda>y. y \<noteq> x) xs"

definition add_log :: "nat \<Rightarrow> hx_event \<Rightarrow> hx \<Rightarrow> hx" where
  "add_log s ev st = st\<lparr>log := log st @ [(s, ev, mi st)]\<rparr>"

definition bad :: "string \<Rightarrow> nat \<Rightarrow> hx \<Rightarrow> hx" where
  "bad w side st = st\<lparr>corrupt := (if side = 0 then 1 else side), why := w\<rparr>"

definition total :: "int list \<Rightarrow> int" where
  "total c = sum_list c"

definition vadd :: "int list \<Rightarrow> int list \<Rightarrow> int list" where
  "vadd xs ys = map2 (+) xs ys"

definition vsub :: "int list \<Rightarrow> int list \<Rightarrow> int list" where
  "vsub xs ys = map2 (-) xs ys"

text \<open>\<^verbatim>\<open>cnt.some((n, r) => n > res[r])\<close>.\<close>

definition exceeds :: "int list \<Rightarrow> int list \<Rightarrow> bool" where
  "exceeds c res \<longleftrightarrow> (\<exists>r < length c. c ! r > res ! r)"

definition canPayCost :: "int list \<Rightarrow> int list \<Rightarrow> bool" where
  "canPayCost res cost \<longleftrightarrow> (\<forall>r < length cost. res ! r \<ge> cost ! r)"

definition payCost :: "nat \<Rightarrow> int list \<Rightarrow> hx \<Rightarrow> hx" where
  "payCost s cost st =
     (let p = players st s
      in (set_player s (p\<lparr>p_res := vsub (p_res p) cost\<rparr>) st)\<lparr>bank := vadd (bank st) cost\<rparr>)"

definition seatOrder :: "hx \<Rightarrow> nat list" where
  "seatOrder st = map (\<lambda>i. (first st - 1 + i) mod h_cap st + 1) [0..<h_cap st]"

definition setupSlots :: "hx \<Rightarrow> nat list" where
  "setupSlots st = seatOrder st @ rev (seatOrder st)"

section \<open>Long road and badges\<close>

definition owns_vertex :: "hx \<Rightarrow> nat \<Rightarrow> nat \<Rightarrow> bool" where
  "owns_vertex st s v \<longleftrightarrow> v \<in> set (p_steads (players st s)) \<or> v \<in> set (p_keeps (players st s))"

definition vOwnedByOther :: "hx \<Rightarrow> nat \<Rightarrow> nat \<Rightarrow> bool" where
  "vOwnedByOther st s v \<longleftrightarrow> (\<exists>o' \<in> set (seats st). o' \<noteq> s \<and> owns_vertex st o' v)"

text \<open>
  \<^verbatim>\<open>walk\<close>: the greatest length reached from \<open>v\<close> with the roads of \<open>mine\<close> not in
  \<open>used\<close>. The code keeps the maximum in a variable; here it is the result.
\<close>

function road_walk :: "(nat \<Rightarrow> bool) \<Rightarrow> nat list \<Rightarrow> nat \<Rightarrow> nat list \<Rightarrow> nat \<Rightarrow> nat" where
  "road_walk block mine v used len =
     (if len > 0 \<and> block v then len
      else fold max
        (map (\<lambda>e. road_walk block mine (edge_other e v) (e # used) (len + 1))
           (filter (\<lambda>e. e \<in> set mine \<and> e \<notin> set used) (vert_edges v)))
        len)"
  by pat_completeness auto
termination
proof (relation "measure (\<lambda>(block, mine, v, used, len). card (set mine - set used))", goal_cases)
  case (2 block mine v used len e)
  then have e: "e \<in> set mine - set used" by auto
  then have "card (set mine - set used - {e}) < card (set mine - set used)"
    by (intro card_Diff1_less) auto
  moreover have "set mine - set (e # used) = set mine - set used - {e}" by auto
  ultimately show ?case by simp
qed simp

declare road_walk.simps [simp del]

definition longestRoad :: "hx \<Rightarrow> nat \<Rightarrow> nat" where
  "longestRoad st s =
     (let mine = p_roads (players st s); block = vOwnedByOther st s
      in fold (\<lambda>e best. max (max best (road_walk block mine (edge_a e) [e] 1)) (road_walk block mine (edge_b e) [e] 1)) mine 0)"

definition watch_step :: "hx \<Rightarrow> nat \<Rightarrow> nat \<Rightarrow> nat" where
  "watch_step st s holder =
     (let k = p_plays (players st s) WARDEN
      in if k \<ge> 3 \<and> (holder = 0 \<or> (s \<noteq> holder \<and> k > p_plays (players st holder) WARDEN)) then s else holder)"

definition road_badge :: "hx \<Rightarrow> nat" where
  "road_badge st =
     (let len = (\<lambda>s. roadLen (players st s));
          contenders = filter (\<lambda>s. len s \<ge> 5) (seats st);
          maxLen = fold max (map len contenders) 0;
          leaders = filter (\<lambda>s. len s = maxLen) contenders;
          holder = roadHolder st
      in if holder \<noteq> 0 \<and> len holder \<ge> 5
         then (if maxLen > len holder then (if length leaders = 1 then leaders ! 0 else 0) else holder)
         else (if length leaders = 1 then leaders ! 0 else 0))"

definition refreshBadges :: "bool \<Rightarrow> hx \<Rightarrow> hx" where
  "refreshBadges logged st =
     (let prevRoad = roadHolder st; prevWatch = watchHolder st;
          st1 = st\<lparr>players := (\<lambda>s. if s \<in> set (seats st) then (players st s)\<lparr>roadLen := longestRoad st s\<rparr> else players st s)\<rparr>;
          st2 = st1\<lparr>roadHolder := road_badge st1\<rparr>;
          st3 = st2\<lparr>watchHolder := fold (watch_step st2) (seats st2) (watchHolder st2)\<rparr>
      in if \<not> logged then st3
         else (let st4 = (if roadHolder st3 \<noteq> prevRoad
                 then (if roadHolder st3 \<noteq> 0
                       then add_log (roadHolder st3) (LongRoad (roadLen (players st3 (roadHolder st3)))) st3
                       else add_log prevRoad LongRoadLost st3)
                 else st3)
               in if watchHolder st4 \<noteq> prevWatch \<and> watchHolder st4 \<noteq> 0
                  then add_log (watchHolder st4) (Banner (p_plays (players st4 (watchHolder st4)) WARDEN)) st4
                  else st4))"

section \<open>Labels and victory points\<close>

text \<open>A hex reads as its token, or as a flag (here the letter W) when it has none.\<close>

definition hexLabel :: "hx \<Rightarrow> nat \<Rightarrow> string" where
  "hexLabel st h = (let t = tokens (h_layout st) ! h in if t \<noteq> 0 then show_nat t else ''W'')"

definition vertexLabel :: "hx \<Rightarrow> nat \<Rightarrow> string" where
  "vertexLabel st v = join_with ''.'' (map (hexLabel st) (vert_hexes v))"

definition publicVp :: "hx \<Rightarrow> nat \<Rightarrow> nat" where
  "publicVp st s =
     (let p = players st s
      in length (p_steads p) + 2 * length (p_keeps p) + (if roadHolder st = s then 2 else 0) +
         (if watchHolder st = s then 2 else 0))"

definition chartersOf :: "hx \<Rightarrow> nat \<Rightarrow> nat option" where
  "chartersOf st s =
     (case secrets st s of
        None \<Rightarrow> None
      | Some _ \<Rightarrow> Some (length (filter (\<lambda>t. t = CHARTER) (devKnown (players st s)))))"

definition totalVp :: "hx \<Rightarrow> nat \<Rightarrow> nat option" where
  "totalVp st s = (case chartersOf st s of None \<Rightarrow> None | Some c \<Rightarrow> Some (publicVp st s + c))"

section \<open>Scrolls, production, stealing\<close>

text \<open>0 is a scroll hidden from this viewer.\<close>

definition drawDev :: "(nat \<Rightarrow> nat) \<Rightarrow> hx \<Rightarrow> nat \<Rightarrow> nat \<Rightarrow> nat \<Rightarrow> nat" where
  "drawDev H st s q n =
     (case secrets st s of
        None \<Rightarrow> 0
      | Some x \<Rightarrow>
          (let remaining = fold remove1 (devKnown (players st s)) DEV_BAG
           in remaining ! (der H (q + x) (5000 + n) mod length remaining)))"

definition grant :: "nat \<Rightarrow> nat \<Rightarrow> int \<Rightarrow> hx \<Rightarrow> hx" where
  "grant s r n st =
     (let k = min n (bank st ! r); p = players st s
      in (set_player s (p\<lparr>p_res := (p_res p)[r := p_res p ! r + k]\<rparr>) st)\<lparr>bank := (bank st)[r := bank st ! r - k]\<rparr>)"

text \<open>What the hexes with the rolled token pay seat \<open>s\<close> in resource \<open>r\<close>.\<close>

definition raw_gain :: "hx \<Rightarrow> nat \<Rightarrow> nat \<Rightarrow> nat \<Rightarrow> int" where
  "raw_gain st roll s r =
     sum_list (map (\<lambda>i.
        if tokens (h_layout st) ! i \<noteq> roll \<or> i = robber st then 0
        else if tiles (h_layout st) ! i = int r
        then sum_list (map (\<lambda>v. (if v \<in> set (p_steads (players st s)) then 1 else 0) +
               (if v \<in> set (p_keeps (players st s)) then 2 else 0)) (hx_corners ! i))
        else 0) [0..<NHEX])"

definition gains_of :: "hx \<Rightarrow> nat \<Rightarrow> nat \<Rightarrow> nat \<Rightarrow> int" where
  "gains_of st roll s r =
     (let claimants = filter (\<lambda>s'. raw_gain st roll s' r > 0) (seats st);
          want = sum_list (map (\<lambda>s'. raw_gain st roll s' r) claimants)
      in if want > bank st ! r \<and> length claimants > 1 \<and> s \<in> set claimants then 0 else raw_gain st roll s r)"

definition production :: "hx \<Rightarrow> nat \<Rightarrow> hx" where
  "production st roll =
     fold (\<lambda>(s, r). if gains_of st roll s r \<noteq> 0 then grant s r (gains_of st roll s r) else (\<lambda>x. x))
       (concat (map (\<lambda>s. map (\<lambda>r. (s, r)) [0..<5]) (seats st))) st"

text \<open>The resource on which the drawn index falls, walking through the hand.\<close>

fun pick_res :: "int list \<Rightarrow> nat \<Rightarrow> int \<Rightarrow> nat option" where
  "pick_res [] r idx = None"
| "pick_res (n # ns) r idx = (if idx < n then Some r else pick_res ns (r + 1) (idx - n))"

definition stealFrom :: "(nat \<Rightarrow> nat) \<Rightarrow> nat \<Rightarrow> nat \<Rightarrow> nat \<Rightarrow> hx \<Rightarrow> int \<times> hx" where
  "stealFrom H thief victim q st =
     (let hand = p_res (players st victim); n = total hand
      in if n = 0 then (-1, st)
         else (case pick_res hand 0 (int (derN H q 3 (nat n))) of
            None \<Rightarrow> (-1, st)
          | Some r \<Rightarrow>
              (let v = players st victim;
                   st1 = set_player victim (v\<lparr>p_res := (p_res v)[r := p_res v ! r - 1]\<rparr>) st;
                   t = players st1 thief
               in (int r, set_player thief (t\<lparr>p_res := (p_res t)[r := p_res t ! r + 1]\<rparr>) st1))))"

definition adjacentSeats :: "hx \<Rightarrow> nat \<Rightarrow> nat list" where
  "adjacentSeats st h =
     keep_first (concat (map (\<lambda>v. filter (\<lambda>s. owns_vertex st s v) (seats st)) (hx_corners ! h)))"

section \<open>Legality of spots, harbours\<close>

definition vertexFree :: "hx \<Rightarrow> nat \<Rightarrow> bool" where
  "vertexFree st v \<longleftrightarrow>
     (\<forall>s \<in> set (seats st). \<not> owns_vertex st s v) \<and>
     (\<forall>w \<in> set (vert_adj v). \<forall>s \<in> set (seats st). \<not> owns_vertex st s w)"

definition edgeFree :: "hx \<Rightarrow> nat \<Rightarrow> bool" where
  "edgeFree st e \<longleftrightarrow> (\<forall>s \<in> set (seats st). e \<notin> set (p_roads (players st s)))"

definition edgeTouchesOwn :: "hx \<Rightarrow> nat \<Rightarrow> nat \<Rightarrow> bool" where
  "edgeTouchesOwn st s e =
     (let viaV = (\<lambda>v. owns_vertex st s v \<or>
            (\<exists>e2 \<in> set (vert_edges v). e2 \<noteq> e \<and> e2 \<in> set (p_roads (players st s)) \<and> \<not> vOwnedByOther st s v))
      in viaV (edge_a e) \<or> viaV (edge_b e))"

definition steadSpotOk :: "hx \<Rightarrow> nat \<Rightarrow> nat \<Rightarrow> bool" where
  "steadSpotOk st s v \<longleftrightarrow> vertexFree st v \<and> (\<exists>e \<in> set (vert_edges v). e \<in> set (p_roads (players st s)))"

text \<open>Whether a harbour of kind \<open>t\<close> (\<open>-1\<close> for any resource) touches a building of the seat.\<close>

definition has_port :: "hx \<Rightarrow> nat \<Rightarrow> int \<Rightarrow> bool" where
  "has_port st s t \<longleftrightarrow>
     (\<exists>i \<in> set [0..<length PORT_AT]. ports (h_layout st) ! i = t \<and>
        (owns_vertex st s (edge_a (PORT_AT ! i)) \<or> owns_vertex st s (edge_b (PORT_AT ! i))))"

definition portsOf :: "hx \<Rightarrow> nat \<Rightarrow> bool \<times> bool list" where
  "portsOf st s = (has_port st s (-1), map (\<lambda>r. has_port st s (int r)) [0..<5])"

definition bankRate :: "hx \<Rightarrow> nat \<Rightarrow> nat \<Rightarrow> int" where
  "bankRate st s r = (case portsOf st s of (any, res) \<Rightarrow> if res ! r then 2 else if any then 3 else 4)"

end
