(* ===== verification/HexReplay.thy ===== *)
theory HexReplay
  imports HexState
begin

text \<open>
  The referee of Hexholm: \<^verbatim>\<open>replay\<close> of \<^verbatim>\<open>static/hexholm-engine.js\<close>, one definition per
  case of its switch, the step that dispatches on phase and operation, and the loop over the
  recorded moves; then \<^verbatim>\<open>actorsNow\<close> and the generator \<^verbatim>\<open>legalMoves\<close>.

  A handler returns the state the code leaves behind: after \<open>bad\<close> the mutations made before
  the rejection are still there. The side of a record is a seat between 1 and \<open>h_cap\<close>, as the
  code expects; a record without a seed (its block is not final yet) stops the loop.
\<close>

type_synonym hx_rec = "nat \<times> nat \<times> nat option"

section \<open>Turn order and scroll plays\<close>

definition endOffers :: "hx \<Rightarrow> hx" where
  "endOffers st = st\<lparr>offers := []\<rparr>"

definition startTurn :: "hx \<Rightarrow> hx" where
  "startTurn st =
     (let st1 = endOffers (st\<lparr>phase := PPreroll, rolled := False, playedScroll := False\<rparr>);
          ord = seatOrder st1
      in st1\<lparr>turnSeat := ord ! ((index_of (turnSeat st1) ord + 1) mod h_cap st1), turnNo := turnNo st1 + 1,
             players := (\<lambda>s. if s \<in> set (seats st1)
               then (players st1 s)\<lparr>buysBeforeTurn := devDrawn (players st1 s), buysThisTurn := 0\<rparr>
               else players st1 s)\<rparr>)"

definition playGate :: "hx \<Rightarrow> nat \<Rightarrow> nat \<Rightarrow> string option" where
  "playGate st side ty =
     (if playedScroll st then Some ''one scroll per turn''
      else if secrets st side \<noteq> None
      then (if length (filter (\<lambda>x. fst x = side \<and> snd x = ty) (playsLog st))
                 \<ge> length (filter (\<lambda>t. t = ty) (take (buysBeforeTurn (players st side)) (devKnown (players st side))))
            then Some ''scroll not held before this turn'' else None)
      else (if length (filter (\<lambda>x. fst x = side) (playsLog st)) \<ge> buysBeforeTurn (players st side)
            then Some ''more plays than pre-turn buys'' else None))"

text \<open>\<^verbatim>\<open>p.plays[ty]++; st.playedScroll = true; st.playsLog.push(...)\<close>.\<close>

definition note_play :: "nat \<Rightarrow> nat \<Rightarrow> hx \<Rightarrow> hx" where
  "note_play side ty st =
     (let p = players st side
      in (set_player side (p\<lparr>p_plays := (p_plays p)(ty := p_plays p ty + 1)\<rparr>) st)
           \<lparr>playedScroll := True, playsLog := playsLog st @ [(side, ty)]\<rparr>)"

section \<open>Setup and discard\<close>

definition add_road :: "nat \<Rightarrow> nat \<Rightarrow> hx \<Rightarrow> hx" where
  "add_road s e st = (let p = players st s in set_player s (p\<lparr>p_roads := set_add e (p_roads p)\<rparr>) st)"

definition add_stead :: "nat \<Rightarrow> nat \<Rightarrow> hx \<Rightarrow> hx" where
  "add_stead s v st = (let p = players st s in set_player s (p\<lparr>p_steads := set_add v (p_steads p)\<rparr>) st)"

text \<open>The second homestead pays one of each resource around it (as far as the bank reaches).\<close>

definition found_pay :: "nat \<Rightarrow> nat \<Rightarrow> hx \<Rightarrow> hx" where
  "found_pay side v st =
     fold (\<lambda>h. let r = tiles (h_layout st) ! h in if r \<ge> 0 then grant side (nat r) 1 else (\<lambda>x. x)) (vert_hexes v) st"

definition found_gain :: "hx \<Rightarrow> nat \<Rightarrow> int list" where
  "found_gain st v =
     map (\<lambda>r. int (length (filter (\<lambda>h. tiles (h_layout st) ! h = int r) (vert_hexes v)))) [0..<5]"

definition setup_advance :: "hx \<Rightarrow> hx" where
  "setup_advance st =
     (let st1 = st\<lparr>setupIdx := setupIdx st + 1\<rparr>
      in if setupIdx st1 = length (setupSlots st1)
         then st1\<lparr>phase := PPreroll, turnSeat := first st1, turnNo := 1,
                  players := (\<lambda>s. if s \<in> set (seats st1) then (players st1 s)\<lparr>buysBeforeTurn := 0\<rparr> else players st1 s)\<rparr>
         else st1)"

definition hx_setup :: "nat \<Rightarrow> nat \<times> nat \<times> nat \<Rightarrow> hx \<Rightarrow> hx" where
  "hx_setup side mv st =
     (case mv of (opc, a, b) \<Rightarrow>
        if opc \<noteq> OP_SETUP then bad ''setup move expected'' side st
        else if side \<noteq> setupSlots st ! setupIdx st then bad ''out of setup order'' side st
        else if a \<ge> NVERT \<or> b \<ge> NEDGE \<or> \<not> vertexFree st a then bad ''bad setup spot'' side st
        else if \<not> edgeFree st b \<or> (edge_a b \<noteq> a \<and> edge_b b \<noteq> a) then bad ''setup road must touch the homestead'' side st
        else (let st1 = add_road side b (add_stead side a st);
                  st2 = (if setupIdx st1 \<ge> h_cap st1
                         then add_log side (Found (vertexLabel st1 a) (Some (found_gain st1 a))) (found_pay side a st1)
                         else add_log side (Found (vertexLabel st1 a) None) st1)
              in refreshBadges False (setup_advance st2)))"

definition hx_discard :: "nat \<Rightarrow> nat \<times> nat \<times> nat \<Rightarrow> hx \<Rightarrow> hx" where
  "hx_discard side mv st =
     (case mv of (opc, a, b) \<Rightarrow>
        if opc \<noteq> OP_DISCARD then bad ''discard owed first'' side st
        else if owe (players st side) = 0 then bad ''no discard owed'' side st
        else (let cnt = map int (unpack5 b); p = players st side
              in if total cnt \<noteq> owe p \<or> exceeds cnt (p_res p) then bad ''bad discard'' side st
                 else (let st1 = (set_player side (p\<lparr>p_res := vsub (p_res p) cnt, owe := 0\<rparr>) st)\<lparr>bank := vadd (bank st) cnt\<rparr>;
                           st2 = add_log side (Discarded cnt) st1
                       in if \<exists>s \<in> set (seats st2). owe (players st2 s) > 0 then st2
                          else st2\<lparr>phase := PRobber\<rparr>)))"

section \<open>The dice\<close>

text \<open>At most eight re-rolls of a 7 in the first two rounds; \<open>n\<close> counts those left.\<close>

primrec rerolls :: "(nat \<Rightarrow> nat) \<Rightarrow> nat \<Rightarrow> bool \<Rightarrow> nat \<Rightarrow> nat \<times> nat \<Rightarrow> nat \<times> nat" where
  "rerolls H q early 0 d = d"
| "rerolls H q early (Suc n) d =
     (if early \<and> fst d + snd d = 7
      then rerolls H q early n (derN H q (31 + 2 * (7 - n)) 6 + 1, derN H q (32 + 2 * (7 - n)) 6 + 1)
      else d)"

definition roll_dice :: "(nat \<Rightarrow> nat) \<Rightarrow> nat \<Rightarrow> bool \<Rightarrow> nat \<times> nat" where
  "roll_dice H q early = rerolls H q early 8 (derN H q 1 6 + 1, derN H q 2 6 + 1)"

definition set_owe :: "hx \<Rightarrow> hx" where
  "set_owe st =
     st\<lparr>players := (\<lambda>s. if s \<in> set (seats st) \<and> total (p_res (players st s)) > HAND_LIMIT
          then (players st s)\<lparr>owe := total (p_res (players st s)) div 2\<rparr> else players st s)\<rparr>"

definition log_gains :: "hx \<Rightarrow> nat \<Rightarrow> hx \<Rightarrow> hx" where
  "log_gains st roll st1 =
     fold (\<lambda>s. let g = map (gains_of st roll s) [0..<5]
               in if (\<exists>n \<in> set g. n \<noteq> 0) then add_log s (Gain g) else (\<lambda>x. x)) (seats st) st1"

definition hx_roll :: "(nat \<Rightarrow> nat) \<Rightarrow> nat \<Rightarrow> nat \<Rightarrow> hx \<Rightarrow> hx" where
  "hx_roll H side q st =
     (if side \<noteq> turnSeat st \<or> phase st \<noteq> PPreroll then bad ''not your roll'' side st
      else (let d = roll_dice H q (turnNo st \<le> 2 * h_cap st); t = fst d + snd d;
                st1 = add_log side (Rolled (fst d) (snd d) t) (st\<lparr>dice := t, rolled := True\<rparr>)
            in if t = 7
               then (let st2 = add_log side Seven (set_owe st1)
                     in st2\<lparr>phase := (if \<exists>s \<in> set (seats st1). total (p_res (players st1 s)) > HAND_LIMIT
                                      then PDiscard else PRobber)\<rparr>)
               else (log_gains st1 t (production st1 t))\<lparr>phase := PMain\<rparr>))"

section \<open>The marauder\<close>

definition victims :: "hx \<Rightarrow> nat \<Rightarrow> nat \<Rightarrow> nat list" where
  "victims st side h =
     filter (\<lambda>s. total (p_res (players st s)) > 0) (filter (\<lambda>s. s \<noteq> side) (adjacentSeats st h))"

definition hx_robber :: "(nat \<Rightarrow> nat) \<Rightarrow> nat \<Rightarrow> nat \<Rightarrow> nat \<Rightarrow> nat \<Rightarrow> hx \<Rightarrow> hx" where
  "hx_robber H side q a b st =
     (if side \<noteq> turnSeat st \<or> phase st \<noteq> PRobber then bad ''not your marauder'' side st
      else if a \<ge> NHEX \<or> a = robber st then bad ''marauder must move'' side st
      else (let st1 = st\<lparr>robber := a\<rparr>
            in if b = 0
               then (if victims st1 side a \<noteq> [] then bad ''must steal when possible'' side st1
                     else (add_log side (Marauder (hexLabel st1 a) None) st1)\<lparr>phase := PMain\<rparr>)
               else if b \<notin> set (victims st1 side a) then bad ''bad steal target'' side st1
               else (case stealFrom H side b q st1 of (got, st2) \<Rightarrow>
                       (add_log side (Marauder (hexLabel st2 a) (Some (b, got))) st2)\<lparr>phase := PMain\<rparr>)))"

definition hx_warden :: "(nat \<Rightarrow> nat) \<Rightarrow> nat \<Rightarrow> nat \<Rightarrow> nat \<Rightarrow> nat \<Rightarrow> hx \<Rightarrow> hx" where
  "hx_warden H side q a b st =
     (if side \<noteq> turnSeat st \<or> (phase st \<noteq> PPreroll \<and> phase st \<noteq> PMain) then bad ''not your turn'' side st
      else case playGate st side WARDEN of
        Some g \<Rightarrow> bad g side st
      | None \<Rightarrow>
          if a \<ge> NHEX \<or> a = robber st then bad ''marauder must move'' side st
          else (let st1 = st\<lparr>robber := a\<rparr>
                in if b = 0 \<and> victims st1 side a \<noteq> [] then bad ''must steal when possible'' side st1
                   else if b \<noteq> 0 \<and> b \<notin> set (victims st1 side a) then bad ''bad steal target'' side st1
                   else (case (if b = 0 then (-1, st1) else stealFrom H side b q st1) of (got, st2) \<Rightarrow>
                           refreshBadges True
                             (add_log side (WardenPlayed (hexLabel st2 a) b got) (note_play side WARDEN st2)))))"

section \<open>The other scrolls\<close>

fun path_roads :: "nat \<Rightarrow> nat list \<Rightarrow> hx \<Rightarrow> hx" where
  "path_roads side [] st = st"
| "path_roads side (e # es) st =
     (if \<not> edgeFree st e \<or> \<not> edgeTouchesOwn st side e then bad ''bad free road'' side st
      else path_roads side es (add_road side e st))"

definition hx_path :: "nat \<Rightarrow> nat \<Rightarrow> nat \<Rightarrow> hx \<Rightarrow> hx" where
  "hx_path side a b st =
     (if side \<noteq> turnSeat st \<or> phase st \<noteq> PMain then bad ''not your turn'' side st
      else case playGate st side PATHWRIGHT of
        Some g \<Rightarrow> bad g side st
      | None \<Rightarrow>
          (let left = int SUPPLY_road - int (length (p_roads (players st side)));
               want = filter (\<lambda>e. e < NEDGE) [a, b]
           in if want = [] \<or> int (length want) > min 2 left then bad ''bad pathwright'' side st
              else (let st1 = path_roads side want st
                    in if corrupt st1 \<noteq> 0 then st1
                       else refreshBadges True (add_log side PathPlayed (note_play side PATHWRIGHT st1)))))"

definition hx_bounty :: "nat \<Rightarrow> nat \<Rightarrow> nat \<Rightarrow> hx \<Rightarrow> hx" where
  "hx_bounty side a b st =
     (if side \<noteq> turnSeat st \<or> phase st \<noteq> PMain then bad ''not your turn'' side st
      else case playGate st side BOUNTY of
        Some g \<Rightarrow> bad g side st
      | None \<Rightarrow>
          if a > 4 \<or> b > 4 then bad ''bad bounty'' side st
          else add_log side (BountyPlayed a b) (note_play side BOUNTY (grant side b 1 (grant side a 1 st))))"

text \<open>One seat's resource goes to the player of the levy.\<close>

definition levy_take :: "nat \<Rightarrow> nat \<Rightarrow> nat \<Rightarrow> hx \<Rightarrow> hx" where
  "levy_take side r s st =
     (let v = players st s; n = p_res v ! r;
          st1 = set_player s (v\<lparr>p_res := (p_res v)[r := 0]\<rparr>) st;
          p = players st1 side
      in set_player side (p\<lparr>p_res := (p_res p)[r := p_res p ! r + n]\<rparr>) st1)"

definition hx_levy :: "nat \<Rightarrow> nat \<Rightarrow> hx \<Rightarrow> hx" where
  "hx_levy side a st =
     (if side \<noteq> turnSeat st \<or> phase st \<noteq> PMain then bad ''not your turn'' side st
      else case playGate st side LEVY of
        Some g \<Rightarrow> bad g side st
      | None \<Rightarrow>
          if a > 4 then bad ''bad levy'' side st
          else (let others = filter (\<lambda>s. s \<noteq> side) (seats st);
                    taken = sum_list (map (\<lambda>s. p_res (players st s) ! a) others)
                in add_log side (LevyPlayed a taken) (note_play side LEVY (fold (levy_take side a) others st))))"

section \<open>Building and buying\<close>

definition hx_road :: "nat \<Rightarrow> nat \<Rightarrow> hx \<Rightarrow> hx" where
  "hx_road side a st =
     (if side \<noteq> turnSeat st \<or> phase st \<noteq> PMain then bad ''not your turn'' side st
      else if length (p_roads (players st side)) \<ge> SUPPLY_road \<or> a \<ge> NEDGE \<or> \<not> edgeFree st a
           \<or> \<not> edgeTouchesOwn st side a \<or> \<not> canPayCost (p_res (players st side)) COST_road
      then bad ''bad road'' side st
      else refreshBadges True (add_log side RoadBuilt (add_road side a (payCost side COST_road st))))"

definition hx_stead :: "nat \<Rightarrow> nat \<Rightarrow> hx \<Rightarrow> hx" where
  "hx_stead side a st =
     (if side \<noteq> turnSeat st \<or> phase st \<noteq> PMain then bad ''not your turn'' side st
      else if length (p_steads (players st side)) \<ge> SUPPLY_stead \<or> a \<ge> NVERT \<or> \<not> steadSpotOk st side a
           \<or> \<not> canPayCost (p_res (players st side)) COST_stead
      then bad ''bad homestead'' side st
      else refreshBadges True
             (add_log side (SteadBuilt (vertexLabel st a)) (add_stead side a (payCost side COST_stead st))))"

definition raise_keep :: "nat \<Rightarrow> nat \<Rightarrow> hx \<Rightarrow> hx" where
  "raise_keep s v st =
     (let p = players st s
      in set_player s (p\<lparr>p_steads := set_del v (p_steads p), p_keeps := set_add v (p_keeps p)\<rparr>) st)"

definition hx_keep :: "nat \<Rightarrow> nat \<Rightarrow> hx \<Rightarrow> hx" where
  "hx_keep side a st =
     (if side \<noteq> turnSeat st \<or> phase st \<noteq> PMain then bad ''not your turn'' side st
      else if length (p_keeps (players st side)) \<ge> SUPPLY_keep \<or> a \<ge> NVERT \<or> a \<notin> set (p_steads (players st side))
           \<or> \<not> canPayCost (p_res (players st side)) COST_keep
      then bad ''bad keep'' side st
      else add_log side (KeepBuilt (vertexLabel st a)) (raise_keep side a (payCost side COST_keep st)))"

definition hx_buy :: "(nat \<Rightarrow> nat) \<Rightarrow> nat \<Rightarrow> nat \<Rightarrow> hx \<Rightarrow> hx" where
  "hx_buy H side q st =
     (if side \<noteq> turnSeat st \<or> phase st \<noteq> PMain then bad ''not your turn'' side st
      else if \<not> commits st side then bad ''scroll buy without a commit'' side st
      else if devBought st \<ge> DEV_CAP \<or> \<not> canPayCost (p_res (players st side)) COST_scroll
      then bad ''bad scroll buy'' side st
      else (let st1 = payCost side COST_scroll st; p = players st1 side;
                card = drawDev H st1 side q (devDrawn p);
                st2 = (set_player side (p\<lparr>devDrawn := devDrawn p + 1, buysThisTurn := buysThisTurn p + 1,
                         devKnown := (if card \<noteq> 0 then devKnown p @ [card] else devKnown p)\<rparr>) st1)
                        \<lparr>devBought := devBought st1 + 1\<rparr>
            in add_log side (ScrollBought (DEV_CAP - devBought st2)) st2))"

section \<open>Trade\<close>

definition hx_bank :: "nat \<Rightarrow> nat \<Rightarrow> nat \<Rightarrow> hx \<Rightarrow> hx" where
  "hx_bank side a b st =
     (if side \<noteq> turnSeat st \<or> phase st \<noteq> PMain then bad ''not your turn'' side st
      else (let give = a div 8; rate = a mod 8
            in if give > 4 \<or> b > 4 \<or> give = b \<or> rate < 2 \<or> rate > 4 \<or> bankRate st side give > int rate
                  \<or> p_res (players st side) ! give < int rate \<or> bank st ! b < 1
               then bad ''bad bank trade'' side st
               else (let p = players st side;
                         st1 = (set_player side (p\<lparr>p_res := (p_res p)[give := p_res p ! give - int rate]\<rparr>) st)
                                 \<lparr>bank := (bank st)[give := bank st ! give + int rate]\<rparr>
                     in add_log side (BankTrade rate give b) (grant side b 1 st1))))"

definition hx_offer_op :: "nat \<Rightarrow> nat \<Rightarrow> nat \<Rightarrow> nat \<Rightarrow> hx \<Rightarrow> hx" where
  "hx_offer_op i side a b st =
     (if phase st \<noteq> PMain then bad ''offers only in the main phase'' side st
      else (let give = map int (unpack3 a); get = map int (unpack3 b)
            in if total give = 0 \<or> total get = 0 \<or> (\<exists>r < 5. give ! r \<noteq> 0 \<and> get ! r \<noteq> 0) then bad ''bad offer'' side st
               else if exceeds give (p_res (players st side)) then bad ''offer exceeds hand'' side st
               else add_log side (Offered give get)
                      (st\<lparr>offers := offers st @ [\<lparr>o_by = side, o_give = give, o_get = get, o_at = i\<rparr>]\<rparr>)))"

definition hx_accept :: "nat \<Rightarrow> nat \<Rightarrow> hx \<Rightarrow> hx" where
  "hx_accept side a st =
     (case List.find (\<lambda>f. o_at f = a) (offers st) of
        None \<Rightarrow> bad ''no such offer'' side st
      | Some f \<Rightarrow>
          if phase st \<noteq> PMain then bad ''no such offer'' side st
          else if o_by f = side \<or> (o_by f \<noteq> turnSeat st \<and> side \<noteq> turnSeat st) then bad ''not your trade'' side st
          else if exceeds (o_give f) (p_res (players st (o_by f))) \<or> exceeds (o_get f) (p_res (players st side))
          then bad ''trade unaffordable'' side st
          else (let u = players st (o_by f); p = players st side;
                    st1 = set_player (o_by f) (u\<lparr>p_res := vadd (vsub (p_res u) (o_give f)) (o_get f)\<rparr>) st;
                    st2 = set_player side (p\<lparr>p_res := vsub (vadd (p_res p) (o_give f)) (o_get f)\<rparr>) st1
                in add_log side (TradeWith (o_by f) (o_give f) (o_get f)) (st2\<lparr>offers := remove1 f (offers st2)\<rparr>)))"

definition hx_rescind :: "nat \<Rightarrow> nat \<Rightarrow> hx \<Rightarrow> hx" where
  "hx_rescind side a st =
     (case List.find (\<lambda>f. o_at f = a) (offers st) of
        None \<Rightarrow> bad ''not your offer'' side st
      | Some f \<Rightarrow>
          if o_by f \<noteq> side then bad ''not your offer'' side st
          else st\<lparr>offers := remove1 f (offers st)\<rparr>)"

section \<open>End of turn, victory\<close>

definition hx_end :: "nat \<Rightarrow> hx \<Rightarrow> hx" where
  "hx_end side st =
     (if side \<noteq> turnSeat st \<or> phase st \<noteq> PMain then bad ''not your turn'' side st
      else startTurn (add_log side (Ended (turnNo st)) st))"

definition hx_win :: "nat \<Rightarrow> hx \<Rightarrow> hx" where
  "hx_win side st =
     (if side \<noteq> turnSeat st \<or> (phase st \<noteq> PMain \<and> phase st \<noteq> PPreroll) then bad ''win on your turn'' side st
      else case totalVp st side of
        None \<Rightarrow> add_log side WinClaim (st\<lparr>pendingWin := side, over := True, winner := side\<rparr>)
      | Some v \<Rightarrow>
          if v \<ge> WIN_VP then add_log side (Won v) (st\<lparr>over := True, winner := side\<rparr>)
          else bad ''win claim below 10'' side st)"

section \<open>The loop\<close>

definition hx_dispatch :: "(nat \<Rightarrow> nat) \<Rightarrow> nat \<Rightarrow> nat \<Rightarrow> nat \<Rightarrow> nat \<times> nat \<times> nat \<Rightarrow> hx \<Rightarrow> hx" where
  "hx_dispatch H i side q mv st =
     (case mv of (opc, a, b) \<Rightarrow>
        if opc = OP_ROLL then hx_roll H side q st
        else if opc = OP_ROBBER then hx_robber H side q a b st
        else if opc = OP_WARDEN then hx_warden H side q a b st
        else if opc = OP_PATH then hx_path side a b st
        else if opc = OP_BOUNTY then hx_bounty side a b st
        else if opc = OP_LEVY then hx_levy side a st
        else if opc = OP_ROAD then hx_road side a st
        else if opc = OP_STEAD then hx_stead side a st
        else if opc = OP_KEEP then hx_keep side a st
        else if opc = OP_BUY then hx_buy H side q st
        else if opc = OP_BANK then hx_bank side a b st
        else if opc = OP_OFFER then hx_offer_op i side a b st
        else if opc = OP_ACCEPT then hx_accept side a st
        else if opc = OP_RESCIND then hx_rescind side a st
        else if opc = OP_END then hx_end side st
        else if opc = OP_WIN then hx_win side st
        else bad (''unknown op '' @ show_nat opc) side st)"

definition hx_step :: "(nat \<Rightarrow> nat) \<Rightarrow> nat \<Rightarrow> nat \<Rightarrow> nat \<Rightarrow> nat \<Rightarrow> hx \<Rightarrow> hx" where
  "hx_step H i e side q st =
     (let mv = hx_dec e; st1 = st\<lparr>mi := i + 1\<rparr>
      in if phase st1 = PSetup then hx_setup side mv st1
         else if phase st1 = PDiscard then hx_discard side mv st1
         else hx_dispatch H i side q mv st1)"

fun hx_loop :: "(nat \<Rightarrow> nat) \<Rightarrow> nat \<Rightarrow> hx_rec list \<Rightarrow> hx \<Rightarrow> hx" where
  "hx_loop H i [] st = st"
| "hx_loop H i ((e, side, q) # recs) st =
     (if corrupt st \<noteq> 0 \<or> over st then st
      else case q of
        None \<Rightarrow> st\<lparr>blocked := True\<rparr>
      | Some s \<Rightarrow> hx_loop H (i + 1) recs (hx_step H i e side s st))"

definition no_layout :: hx_layout where
  "no_layout = \<lparr>tiles = [], tokens = [], ports = [], l_first = 1, waste = 0\<rparr>"

definition hx_start :: "nat \<Rightarrow> (nat \<Rightarrow> nat option) \<Rightarrow> (nat \<Rightarrow> bool) \<Rightarrow> hx_layout \<Rightarrow> hx" where
  "hx_start cap sec com lay =
     \<lparr>h_cap = cap, secrets = sec, commits = com, h_layout = lay,
      bank = [BANK_EACH, BANK_EACH, BANK_EACH, BANK_EACH, BANK_EACH], players = (\<lambda>_. newPlayer),
      robber = waste lay, phase = PSetup, setupIdx = 0, turnSeat = 0, rolled = False, dice = 0,
      devBought = 0, offers = [], roadHolder = 0, watchHolder = 0, playedScroll = False,
      over = False, winner = 0, corrupt = 0, why = [], blocked = False, mi = 0, log = [], turnNo = 0,
      first = l_first lay, pendingWin = 0, playsLog = []\<rparr>"

text \<open>\<open>None\<close>: the deal of the layout never ends.\<close>

definition hx_replay :: "(nat \<Rightarrow> nat) \<Rightarrow> nat option \<Rightarrow> hx_rec list \<Rightarrow> nat \<Rightarrow> (nat \<Rightarrow> nat option) \<Rightarrow> (nat \<Rightarrow> bool) \<Rightarrow> hx option" where
  "hx_replay H qkh recs cap sec com =
     (case qkh of
        None \<Rightarrow> Some ((hx_start cap sec com no_layout)\<lparr>blocked := True\<rparr>)
      | Some q \<Rightarrow>
          (case layout H q cap of
             None \<Rightarrow> None
           | Some lay \<Rightarrow> Some (refreshBadges False (hx_loop H 0 recs (hx_start cap sec com lay)))))"

section \<open>Who may act, and the move generator\<close>

definition actorsNow :: "hx \<Rightarrow> nat list" where
  "actorsNow st =
     (if over st \<or> corrupt st \<noteq> 0 \<or> blocked st then []
      else case phase st of
        PSetup \<Rightarrow> [setupSlots st ! setupIdx st]
      | PDiscard \<Rightarrow> filter (\<lambda>s. owe (players st s) > 0) (seats st)
      | PMain \<Rightarrow> turnSeat st # filter (\<lambda>s. s \<noteq> turnSeat st) (seats st)
      | _ \<Rightarrow> [turnSeat st])"

text \<open>The canonical discard: greedily from the largest pile (ties by resource number).\<close>

fun greedy :: "int list \<Rightarrow> nat list \<Rightarrow> int \<Rightarrow> int list \<Rightarrow> int list" where
  "greedy res [] left cnt = cnt"
| "greedy res (r # rs) left cnt =
     (let k = min left (res ! r)
      in if left - k = 0 then cnt[r := cnt ! r + k] else greedy res rs (left - k) (cnt[r := cnt ! r + k]))"

definition greedy_discard :: "hx_player \<Rightarrow> int list" where
  "greedy_discard p = greedy (p_res p) (sort_key (\<lambda>r. - (p_res p ! r)) [0..<5]) (owe p) [0, 0, 0, 0, 0]"

definition setup_moves :: "hx \<Rightarrow> nat list" where
  "setup_moves st =
     concat (map (\<lambda>v. map (\<lambda>e. hx_enc OP_SETUP v e) (filter (edgeFree st) (vert_edges v)))
       (filter (vertexFree st) [0..<NVERT]))"

definition robber_moves :: "hx \<Rightarrow> nat \<Rightarrow> nat list" where
  "robber_moves st s =
     concat (map (\<lambda>h. if victims st s h \<noteq> [] then map (\<lambda>v. hx_enc OP_ROBBER h v) (victims st s h)
                      else [hx_enc OP_ROBBER h 0])
       (filter (\<lambda>h. h \<noteq> robber st) [0..<NHEX]))"

definition build_moves :: "hx \<Rightarrow> nat \<Rightarrow> nat list" where
  "build_moves st s =
     (let p = players st s
      in (if length (p_roads p) < SUPPLY_road \<and> canPayCost (p_res p) COST_road
          then map (\<lambda>e. hx_enc OP_ROAD e 0) (filter (\<lambda>e. edgeFree st e \<and> edgeTouchesOwn st s e) [0..<NEDGE]) else []) @
         (if length (p_steads p) < SUPPLY_stead \<and> canPayCost (p_res p) COST_stead
          then map (\<lambda>v. hx_enc OP_STEAD v 0) (filter (steadSpotOk st s) [0..<NVERT]) else []) @
         (if length (p_keeps p) < SUPPLY_keep \<and> canPayCost (p_res p) COST_keep
          then map (\<lambda>v. hx_enc OP_KEEP v 0) (p_steads p) else []) @
         (if devBought st < DEV_CAP \<and> commits st s \<and> canPayCost (p_res p) COST_scroll
          then [hx_enc OP_BUY 0 0] else []))"

definition bank_moves :: "hx \<Rightarrow> nat \<Rightarrow> nat list" where
  "bank_moves st s =
     concat (map (\<lambda>g. let rate = bankRate st s g
        in if p_res (players st s) ! g \<ge> rate
           then map (\<lambda>t. hx_enc OP_BANK (g * 8 + nat rate) t) (filter (\<lambda>t. t \<noteq> g \<and> bank st ! t > 0) [0..<5])
           else []) [0..<5])"

definition win_moves :: "hx \<Rightarrow> nat \<Rightarrow> nat list" where
  "win_moves st s =
     (case totalVp st s of None \<Rightarrow> [] | Some v \<Rightarrow> if v \<ge> WIN_VP then [hx_enc OP_WIN 0 0] else [])"

definition accept_moves :: "hx \<Rightarrow> nat \<Rightarrow> nat list" where
  "accept_moves st s =
     map (\<lambda>f. hx_enc OP_ACCEPT (o_at f) 0)
       (filter (\<lambda>f. o_by f \<noteq> s \<and> (o_by f = turnSeat st \<or> s = turnSeat st)
                  \<and> \<not> exceeds (o_get f) (p_res (players st s))
                  \<and> \<not> exceeds (o_give f) (p_res (players st (o_by f)))) (offers st))"

definition hx_legalMoves :: "hx \<Rightarrow> nat \<Rightarrow> nat list" where
  "hx_legalMoves st s =
     (if over st \<or> corrupt st \<noteq> 0 \<or> blocked st then []
      else case phase st of
        PSetup \<Rightarrow> (if setupSlots st ! setupIdx st \<noteq> s then [] else setup_moves st)
      | PDiscard \<Rightarrow> (if owe (players st s) = 0 then []
                     else [hx_enc OP_DISCARD 0 (pack5 (map nat (greedy_discard (players st s))))])
      | PRobber \<Rightarrow> (if s \<noteq> turnSeat st then [] else robber_moves st s)
      | PPreroll \<Rightarrow> (if s \<noteq> turnSeat st then [] else [hx_enc OP_ROLL 0 0])
      | PMain \<Rightarrow>
          (if s = turnSeat st then hx_enc OP_END 0 0 # build_moves st s @ bank_moves st s @ win_moves st s else [])
          @ accept_moves st s)"

end
