(* ===== verification/Referee.thy ===== *)
theory Referee
  imports Prelude
begin

text \<open>
  The contract of a referee: every duel of the site is an on-chain log of moves that each browser
  replays through a pure rules engine. The replay loops of the engines have one shape: stop when
  the game is halted (over or corrupt), stop as blocked when the seed of a move is not final yet,
  otherwise apply the move and go on. \<open>run_log\<close> is that loop; the locale \<open>referee\<close> holds what the
  engines promise for one move and what follows for whole logs. Hexholm, Stormhold and Scrapline
  interpret it.
\<close>

text \<open>
  \<open>move i r st\<close> applies record number \<open>i\<close>; \<open>None\<close> is a move whose seed is pending. The result is
  the last state and, when the loop was blocked, the index of the pending record.
\<close>

fun run_log :: "(nat \<Rightarrow> 'r \<Rightarrow> 's \<Rightarrow> 's option) \<Rightarrow> ('s \<Rightarrow> bool) \<Rightarrow> nat \<Rightarrow> 'r list \<Rightarrow> 's \<Rightarrow> 's \<times> nat option" where
  "run_log move halted i [] st = (st, None)"
| "run_log move halted i (r # rs) st =
     (if halted st then (st, None)
      else case move i r st of None \<Rightarrow> (st, Some i) | Some st' \<Rightarrow> run_log move halted (i + 1) rs st')"

lemma run_log_halted: "halted st \<Longrightarrow> run_log move halted i rs st = (st, None)"
  by (cases rs) auto

lemma run_log_append:
  "run_log move halted i (xs @ ys) st =
     (case run_log move halted i xs st of
        (s, None) \<Rightarrow> run_log move halted (i + length xs) ys s
      | (s, Some k) \<Rightarrow> (s, Some k))"
proof (induction xs arbitrary: i st)
  case (Cons r rs)
  show ?case
  proof (cases "halted st")
    case True
    then show ?thesis by (simp add: run_log_halted)
  next
    case False
    then show ?thesis
      by (cases "move i r st") (simp_all add: Cons.IH split: prod.split option.split)
  qed
qed simp

text \<open>
  The invariant may speak of the number of the next record; \<open>fine\<close> is what the chain guarantees of
  a record (for instance that its side is a seat).
\<close>

locale referee =
  fixes move :: "nat \<Rightarrow> 'r \<Rightarrow> 's \<Rightarrow> 's option"
    and halted :: "'s \<Rightarrow> bool"
    and fine :: "'r \<Rightarrow> bool"
    and inv :: "nat \<Rightarrow> 's \<Rightarrow> bool"
  assumes keeps: "inv i st \<Longrightarrow> \<not> halted st \<Longrightarrow> fine r \<Longrightarrow> move i r st = Some st' \<Longrightarrow> inv (i + 1) st'"
begin

lemma run_inv:
  "inv i st \<Longrightarrow> \<forall>r \<in> set rs. fine r \<Longrightarrow>
     \<exists>j \<le> i + length rs. inv j (fst (run_log move halted i rs st))"
proof (induction rs arbitrary: i st)
  case (Cons r rs)
  show ?case
  proof (cases "halted st")
    case True
    then show ?thesis using Cons.prems(1) by (intro exI [of _ i]) simp
  next
    case False
    show ?thesis
    proof (cases "move i r st")
      case None
      then show ?thesis using False Cons.prems(1) by (intro exI [of _ i]) simp
    next
      case (Some st')
      have "inv (i + 1) st'" using keeps [OF Cons.prems(1) False _ Some] Cons.prems(2) by simp
      from Cons.IH [OF this] Cons.prems(2) obtain j where
        "j \<le> i + 1 + length rs" "inv j (fst (run_log move halted (i + 1) rs st'))" by auto
      then show ?thesis using False Some by (intro exI [of _ j]) simp
    qed
  qed
qed auto

text \<open>A run that is neither halted nor blocked has consumed every record.\<close>

lemma run_inv_end:
  "inv i st \<Longrightarrow> \<forall>r \<in> set rs. fine r \<Longrightarrow> run_log move halted i rs st = (s, None) \<Longrightarrow> \<not> halted s \<Longrightarrow>
     inv (i + length rs) s"
proof (induction rs arbitrary: i st)
  case (Cons r rs)
  have go: "\<not> halted st" using Cons.prems(3,4) by (cases "halted st") auto
  then obtain st' where m: "move i r st = Some st'" using Cons.prems(3) by (cases "move i r st") auto
  have "inv (i + 1) st'" using keeps [OF Cons.prems(1) go _ m] Cons.prems(2) by simp
  from Cons.IH [OF this] Cons.prems(2-4) go m show ?case by simp
qed simp

text \<open>A blocked replay is the replay of the records before the pending one.\<close>

lemma run_blocked:
  "run_log move halted i rs st = (s, Some k) \<Longrightarrow>
     \<exists>d < length rs. k = i + d \<and> run_log move halted i (take d rs) st = (s, None)
       \<and> \<not> halted s \<and> move k (rs ! d) s = None"
proof (induction rs arbitrary: i st)
  case (Cons r rs)
  have go: "\<not> halted st" using Cons.prems by (cases "halted st") simp_all
  show ?case
  proof (cases "move i r st")
    case None
    then have "s = st" "k = i" using Cons.prems go by simp_all
    with None go show ?thesis by (intro exI [of _ 0]) simp
  next
    case (Some st')
    from Cons.prems have "run_log move halted (i + 1) rs st' = (s, Some k)" using go Some by simp
    from Cons.IH [OF this] obtain d where d: "d < length rs" "k = i + 1 + d"
      "run_log move halted (i + 1) (take d rs) st' = (s, None)" "\<not> halted s" "move k (rs ! d) s = None"
      by blast
    have "run_log move halted i (take (Suc d) (r # rs)) st = (s, None)"
      using go Some d(3) by simp
    with d show ?thesis by (intro exI [of _ "Suc d"]) simp
  qed
qed simp

end

end
