(* ===== verification/HexInvariants.thy ===== *)
theory HexInvariants
  imports HexReplay Referee
begin

text \<open>
  Invariants of a Hexholm table: every resource card is in the bank or in one hand (19 of each),
  no count is negative, supplies are respected, roads and sites have one owner and sites keep
  their distance, offers exist only in the main phase and debts only in the discard phase. Each is
  stated on projections of the state, so that the operations that do not touch them are dealt
  with by simplification (\<open>hx_proj\<close>).
\<close>

declare One_nat_def [simp del]

named_theorems hx_proj \<open>projections of the state after the primitive updates\<close>

abbreviation hands :: "hx \<Rightarrow> nat \<Rightarrow> int list" where
  "hands st \<equiv> \<lambda>s. p_res (players st s)"

section \<open>Projections\<close>

lemma set_player_simps [hx_proj]:
  "players (set_player s p st) = (players st)(s := p)"
  "h_cap (set_player s p st) = h_cap st" "bank (set_player s p st) = bank st"
  "phase (set_player s p st) = phase st" "setupIdx (set_player s p st) = setupIdx st"
  "turnSeat (set_player s p st) = turnSeat st" "first (set_player s p st) = first st"
  "offers (set_player s p st) = offers st" "devBought (set_player s p st) = devBought st"
  "over (set_player s p st) = over st" "corrupt (set_player s p st) = corrupt st"
  "winner (set_player s p st) = winner st" "pendingWin (set_player s p st) = pendingWin st"
  "blocked (set_player s p st) = blocked st" "h_layout (set_player s p st) = h_layout st"
  "robber (set_player s p st) = robber st" "secrets (set_player s p st) = secrets st"
  by (simp_all add: set_player_def)

lemma add_log_simps [hx_proj]:
  "players (add_log s ev st) = players st"
  "h_cap (add_log s ev st) = h_cap st" "bank (add_log s ev st) = bank st"
  "phase (add_log s ev st) = phase st" "setupIdx (add_log s ev st) = setupIdx st"
  "turnSeat (add_log s ev st) = turnSeat st" "first (add_log s ev st) = first st"
  "offers (add_log s ev st) = offers st" "devBought (add_log s ev st) = devBought st"
  "over (add_log s ev st) = over st" "corrupt (add_log s ev st) = corrupt st"
  "winner (add_log s ev st) = winner st" "pendingWin (add_log s ev st) = pendingWin st"
  "blocked (add_log s ev st) = blocked st" "h_layout (add_log s ev st) = h_layout st"
  "robber (add_log s ev st) = robber st" "secrets (add_log s ev st) = secrets st"
  by (simp_all add: add_log_def)

lemma bad_simps [hx_proj]:
  "players (bad w s st) = players st"
  "h_cap (bad w s st) = h_cap st" "bank (bad w s st) = bank st"
  "phase (bad w s st) = phase st" "setupIdx (bad w s st) = setupIdx st"
  "turnSeat (bad w s st) = turnSeat st" "first (bad w s st) = first st"
  "offers (bad w s st) = offers st" "devBought (bad w s st) = devBought st"
  "over (bad w s st) = over st" "winner (bad w s st) = winner st" "pendingWin (bad w s st) = pendingWin st"
  "blocked (bad w s st) = blocked st" "h_layout (bad w s st) = h_layout st"
  "robber (bad w s st) = robber st" "corrupt (bad w s st) = (if s = 0 then 1 else s)"
  by (simp_all add: bad_def)

lemma seats_set [simp]: "s \<in> set (seats st) \<longleftrightarrow> 1 \<le> s \<and> s \<le> h_cap st"
  by (auto simp: seats_def)

text \<open>
  The frame of a state is all that the bookkeeping of cards does not touch. Operations that move
  cards, log or refresh the badges keep it, and the projections follow from that.
\<close>

definition frame where
  "frame st =
     (h_cap st, (\<lambda>s. p_roads (players st s)), (\<lambda>s. p_steads (players st s)), (\<lambda>s. p_keeps (players st s)),
      (\<lambda>s. owe (players st s)), phase st, setupIdx st, turnSeat st, first st, offers st, devBought st,
      over st, corrupt st, winner st, pendingWin st, blocked st, h_layout st,
      (\<lambda>s. devKnown (players st s)), (\<lambda>s. devDrawn (players st s)))"

lemma frame_proj:
  assumes "frame a = frame b"
  shows "h_cap a = h_cap b" "p_roads (players a s) = p_roads (players b s)"
    "p_steads (players a s) = p_steads (players b s)" "p_keeps (players a s) = p_keeps (players b s)"
    "owe (players a s) = owe (players b s)" "phase a = phase b" "setupIdx a = setupIdx b"
    "turnSeat a = turnSeat b" "first a = first b" "offers a = offers b" "devBought a = devBought b"
    "over a = over b" "corrupt a = corrupt b" "winner a = winner b" "pendingWin a = pendingWin b"
    "blocked a = blocked b" "h_layout a = h_layout b" "devKnown (players a s) = devKnown (players b s)"
    "devDrawn (players a s) = devDrawn (players b s)"
  using assms by (simp_all add: frame_def fun_eq_iff)

lemma frame_add_log: "frame (add_log s ev st) = frame st"
  by (simp add: frame_def hx_proj)

lemma frame_set_player:
  assumes "p_roads p = p_roads (players st s)" "p_steads p = p_steads (players st s)"
    "p_keeps p = p_keeps (players st s)" "owe p = owe (players st s)"
    "devKnown p = devKnown (players st s)" "devDrawn p = devDrawn (players st s)"
  shows "frame (set_player s p st) = frame st"
  using assms by (simp add: frame_def hx_proj fun_eq_iff)

lemma frame_bank: "frame (st\<lparr>bank := b\<rparr>) = frame st"
  by (simp add: frame_def)

lemma frame_grant: "frame (grant s r n st) = frame st"
  unfolding grant_def Let_def frame_bank by (rule frame_set_player) simp_all

lemma frame_payCost: "frame (payCost s c st) = frame st"
  unfolding payCost_def Let_def frame_bank by (rule frame_set_player) simp_all

lemma frame_plays: "frame (st\<lparr>playedScroll := x, playsLog := y\<rparr>) = frame st"
  by (simp add: frame_def)

lemma frame_note_play: "frame (note_play s ty st) = frame st"
  unfolding note_play_def Let_def frame_plays by (rule frame_set_player) simp_all

lemma frame_fold: "(\<And>x st. x \<in> set xs \<Longrightarrow> frame (f x st) = frame st) \<Longrightarrow> frame (fold f xs st) = frame st"
  by (induction xs arbitrary: st) simp_all

lemma frame_found_pay: "frame (found_pay s v st) = frame st"
  unfolding found_pay_def by (rule frame_fold) (simp add: frame_grant Let_def)

lemma frame_production: "frame (production st n) = frame st"
  unfolding production_def by (rule frame_fold) (auto simp: frame_grant split: prod.split)

lemma frame_log_gains: "frame (log_gains st0 n st) = frame st"
  unfolding log_gains_def by (rule frame_fold) (simp add: frame_add_log Let_def)

lemma frame_stealFrom: "frame (snd (stealFrom H s v q st)) = frame st"
  unfolding stealFrom_def Let_def
  by (simp add: frame_set_player split: option.split)

lemma frame_levy: "frame (fold (levy_take s r) xs st) = frame st"
  by (rule frame_fold) (simp add: levy_take_def Let_def frame_set_player)

lemma frame_refresh: "frame (refreshBadges l st) = frame st"
proof -
  let ?st1 = "st\<lparr>players := (\<lambda>s. if s \<in> set (seats st) then (players st s)\<lparr>roadLen := longestRoad st s\<rparr> else players st s)\<rparr>"
  have "frame (?st1\<lparr>roadHolder := x\<rparr>\<lparr>watchHolder := y\<rparr>) = frame st" for x y
    by (simp add: frame_def fun_eq_iff)
  then show ?thesis
    unfolding refreshBadges_def Let_def by (simp only: frame_add_log split: if_split) simp
qed

lemmas frame_simps = frame_add_log frame_grant frame_payCost frame_note_play frame_found_pay
  frame_production frame_log_gains frame_stealFrom frame_levy frame_refresh

lemmas frame_projs [hx_proj] = frame_simps [THEN frame_proj(1)] frame_simps [THEN frame_proj(2)]
  frame_simps [THEN frame_proj(3)] frame_simps [THEN frame_proj(4)] frame_simps [THEN frame_proj(5)]
  frame_simps [THEN frame_proj(6)] frame_simps [THEN frame_proj(7)] frame_simps [THEN frame_proj(8)]
  frame_simps [THEN frame_proj(9)] frame_simps [THEN frame_proj(10)] frame_simps [THEN frame_proj(11)]
  frame_simps [THEN frame_proj(12)] frame_simps [THEN frame_proj(13)] frame_simps [THEN frame_proj(14)]
  frame_simps [THEN frame_proj(15)] frame_simps [THEN frame_proj(16)] frame_simps [THEN frame_proj(17)] frame_simps [THEN frame_proj(18)]
  frame_simps [THEN frame_proj(19)]

section \<open>Cards are conserved\<close>

definition goods_ok :: "nat \<Rightarrow> int list \<Rightarrow> (nat \<Rightarrow> int list) \<Rightarrow> bool" where
  "goods_ok cap bk hs \<longleftrightarrow>
     length bk = 5 \<and> (\<forall>s \<in> {1..cap}. length (hs s) = 5) \<and>
     (\<forall>r < 5. 0 \<le> bk ! r \<and> (\<forall>s \<in> {1..cap}. 0 \<le> hs s ! r) \<and> bk ! r + (\<Sum>s \<in> {1..cap}. hs s ! r) = BANK_EACH)"

abbreviation goods :: "hx \<Rightarrow> bool" where
  "goods st \<equiv> goods_ok (h_cap st) (bank st) (hands st)"

lemma sum_change:
  fixes f g :: "nat \<Rightarrow> int"
  assumes "finite A" "s \<in> A" "\<And>x. x \<in> A \<Longrightarrow> x \<noteq> s \<Longrightarrow> f x = g x"
  shows "sum f A = sum g A - g s + f s"
proof -
  have "sum f (A - {s}) = sum g (A - {s})" using assms(3) by (intro sum.cong) auto
  then show ?thesis using sum.remove [OF assms(1,2), of f] sum.remove [OF assms(1,2), of g] by simp
qed

lemma goods_okI:
  assumes "length bk = 5" "\<And>s. s \<in> {1..cap} \<Longrightarrow> length (hs s) = 5"
    "\<And>r. r < 5 \<Longrightarrow> 0 \<le> bk ! r" "\<And>r s. r < 5 \<Longrightarrow> s \<in> {1..cap} \<Longrightarrow> 0 \<le> hs s ! r"
    "\<And>r. r < 5 \<Longrightarrow> bk ! r + (\<Sum>s \<in> {1..cap}. hs s ! r) = BANK_EACH"
  shows "goods_ok cap bk hs"
  unfolding goods_ok_def using assms by blast

lemma goods_okD:
  assumes "goods_ok cap bk hs"
  shows "length bk = 5" "s \<in> {1..cap} \<Longrightarrow> length (hs s) = 5"
    "r < 5 \<Longrightarrow> 0 \<le> bk ! r" "r < 5 \<Longrightarrow> s \<in> {1..cap} \<Longrightarrow> 0 \<le> hs s ! r"
    "r < 5 \<Longrightarrow> bk ! r + (\<Sum>s \<in> {1..cap}. hs s ! r) = BANK_EACH"
  using assms unfolding goods_ok_def by blast+

lemma goods_upd1:
  assumes g: "goods_ok cap bk hs" and s: "s \<in> {1..cap}" and len: "length bk' = 5" "length h = 5"
    and new: "\<And>r. r < 5 \<Longrightarrow> 0 \<le> bk' ! r \<and> 0 \<le> h ! r \<and> bk' ! r + h ! r = bk ! r + hs s ! r"
  shows "goods_ok cap bk' (\<lambda>x. if x = s then h else hs x)"
proof (rule goods_okI)
  fix r :: nat assume r: "r < 5"
  have "(\<Sum>x \<in> {1..cap}. (if x = s then h else hs x) ! r) = (\<Sum>x \<in> {1..cap}. hs x ! r) - hs s ! r + h ! r"
    using sum_change [of "{1..cap}" s "\<lambda>x. (if x = s then h else hs x) ! r" "\<lambda>x. hs x ! r"] s by simp
  then show "bk' ! r + (\<Sum>x \<in> {1..cap}. (if x = s then h else hs x) ! r) = BANK_EACH"
    using goods_okD(5) [OF g r] new [OF r] by linarith
qed (use goods_okD(2,4) [OF g] s len new in \<open>simp_all split: if_split\<close>)

lemma goods_upd2:
  assumes g: "goods_ok cap bk hs" and s: "s \<in> {1..cap}" "t \<in> {1..cap}" "s \<noteq> t" and len: "length h = 5" "length k = 5"
    and new: "\<And>r. r < 5 \<Longrightarrow> 0 \<le> k ! r \<and> 0 \<le> h ! r \<and> h ! r + k ! r = hs s ! r + hs t ! r"
  shows "goods_ok cap bk (\<lambda>x. if x = t then k else if x = s then h else hs x)"
proof (rule goods_okI)
  fix r :: nat assume r: "r < 5"
  let ?g = "\<lambda>x. if x = s then h else hs x"
  have "(\<Sum>x \<in> {1..cap}. (if x = t then k else ?g x) ! r) = (\<Sum>x \<in> {1..cap}. ?g x ! r) - ?g t ! r + k ! r"
    using sum_change [of "{1..cap}" t "\<lambda>x. (if x = t then k else ?g x) ! r" "\<lambda>x. ?g x ! r"] s by simp
  moreover have "(\<Sum>x \<in> {1..cap}. ?g x ! r) = (\<Sum>x \<in> {1..cap}. hs x ! r) - hs s ! r + h ! r"
    using sum_change [of "{1..cap}" s "\<lambda>x. ?g x ! r" "\<lambda>x. hs x ! r"] s by simp
  ultimately show "bk ! r + (\<Sum>x \<in> {1..cap}. (if x = t then k else ?g x) ! r) = BANK_EACH"
    using goods_okD(5) [OF g r] new [OF r] s by simp
qed (use goods_okD [OF g] s len new in \<open>simp_all split: if_split\<close>)

lemma field_if [hx_proj]:
  "p_res (if b then x else y) = (if b then p_res x else p_res y)"
  "p_roads (if b then x else y) = (if b then p_roads x else p_roads y)"
  "p_steads (if b then x else y) = (if b then p_steads x else p_steads y)"
  "p_keeps (if b then x else y) = (if b then p_keeps x else p_keeps y)"
  "owe (if b then x else y) = (if b then owe x else owe y)"
  "devKnown (if b then x else y) = (if b then devKnown x else devKnown y)"
  "devDrawn (if b then x else y) = (if b then devDrawn x else devDrawn y)"
  by simp_all

lemma nth_vadd [simp]: "r < length xs \<Longrightarrow> r < length ys \<Longrightarrow> vadd xs ys ! r = xs ! r + ys ! r"
  by (simp add: vadd_def)

lemma nth_vsub [simp]: "r < length xs \<Longrightarrow> r < length ys \<Longrightarrow> vsub xs ys ! r = xs ! r - ys ! r"
  by (simp add: vsub_def)

lemma length_vadd [simp]: "length (vadd xs ys) = min (length xs) (length ys)"
  by (simp add: vadd_def)

lemma length_vsub [simp]: "length (vsub xs ys) = min (length xs) (length ys)"
  by (simp add: vsub_def)

lemma goods_len: "goods_ok cap bk hs \<Longrightarrow> length bk = 5 \<and> (1 \<le> s \<and> s \<le> cap \<longrightarrow> length (hs s) = 5)"
  by (auto simp: goods_ok_def)

lemma goods_nonneg: "goods_ok cap bk hs \<Longrightarrow> r < 5 \<Longrightarrow> 0 \<le> bk ! r \<and> (1 \<le> s \<and> s \<le> cap \<longrightarrow> 0 \<le> hs s ! r)"
  by (auto simp: goods_ok_def)

lemma goods_hand_le:
  assumes "goods_ok cap bk hs" "r < 5" "1 \<le> s" "s \<le> cap"
  shows "hs s ! r \<le> BANK_EACH"
proof -
  have "hs s ! r \<le> (\<Sum>x \<in> {1..cap}. hs x ! r)"
    using assms by (intro member_le_sum) (auto simp: goods_ok_def)
  then show ?thesis using assms by (auto simp: goods_ok_def)
qed

lemma goods_cong: "goods_ok cap bk hs \<Longrightarrow> (\<And>s. 1 \<le> s \<Longrightarrow> s \<le> cap \<Longrightarrow> hs' s = hs s) \<Longrightarrow> goods_ok cap bk hs'"
  by (simp add: goods_ok_def)

lemma goods_grant:
  assumes g: "goods st" and s: "1 \<le> s" "s \<le> h_cap st" and r: "r < 5" and n: "0 \<le> n"
  shows "goods (grant s r n st)"
proof -
  let ?k = "min n (bank st ! r)"
  have "goods_ok (h_cap st) ((bank st)[r := bank st ! r - ?k])
     (\<lambda>x. if x = s then (hands st s)[r := hands st s ! r + ?k] else hands st x)"
    by (rule goods_upd1 [OF g])
      (use s r n goods_len [OF g, of s] goods_nonneg [OF g, of _ s] in \<open>auto simp: nth_list_update\<close>)
  then show ?thesis by (simp add: grant_def Let_def hx_proj cong: if_cong)
qed

lemma goods_payCost:
  assumes g: "goods st" and s: "1 \<le> s" "s \<le> h_cap st" and can: "canPayCost (hands st s) c"
    and c: "length c = 5" "\<And>r. r < 5 \<Longrightarrow> 0 \<le> c ! r"
  shows "goods (payCost s c st)"
proof -
  have "goods_ok (h_cap st) (vadd (bank st) c) (\<lambda>x. if x = s then vsub (hands st s) c else hands st x)"
    by (rule goods_upd1 [OF g])
      (use s can c goods_len [OF g, of s] goods_nonneg [OF g, of _ s] in \<open>auto simp: canPayCost_def\<close>)
  then show ?thesis by (simp add: payCost_def Let_def hx_proj cong: if_cong)
qed

text \<open>Every cost is five non-negative counts.\<close>

lemma costs [simp]:
  "length COST_road = 5" "length COST_stead = 5" "length COST_keep = 5" "length COST_scroll = 5"
  by (simp_all add: COST_road_def COST_stead_def COST_keep_def COST_scroll_def)

lemma less5: "(r::nat) < 5 \<longleftrightarrow> r = 0 \<or> r = 1 \<or> r = 2 \<or> r = 3 \<or> r = 4"
  by auto

lemma costs_nonneg [simp]:
  "r < 5 \<Longrightarrow> 0 \<le> COST_road ! r" "r < 5 \<Longrightarrow> 0 \<le> COST_stead ! r"
  "r < 5 \<Longrightarrow> 0 \<le> COST_keep ! r" "r < 5 \<Longrightarrow> 0 \<le> COST_scroll ! r"
  by (auto simp: less5 COST_road_def COST_stead_def COST_keep_def COST_scroll_def)

lemma fold_keeps:
  "P st \<Longrightarrow> (\<And>x st'. x \<in> set xs \<Longrightarrow> P st' \<Longrightarrow> P (f x st')) \<Longrightarrow> P (fold f xs st)"
  by (induction xs arbitrary: st) auto

lemma goods_fold:
  assumes "goods st"
    and "\<And>x st'. x \<in> set xs \<Longrightarrow> goods st' \<Longrightarrow> h_cap st' = h_cap st \<Longrightarrow> goods (f x st') \<and> h_cap (f x st') = h_cap st"
  shows "goods (fold f xs st)"
proof -
  have "goods (fold f xs st) \<and> h_cap (fold f xs st) = h_cap st"
    by (rule fold_keeps [where P = "\<lambda>st'. goods st' \<and> h_cap st' = h_cap st"]) (use assms in blast)+
  then show ?thesis ..
qed

lemma goods_found_pay:
  assumes g: "goods st" and s: "1 \<le> s" "s \<le> h_cap st"
    and lay: "\<And>h. h \<in> set (vert_hexes v) \<Longrightarrow> tiles (h_layout st) ! h < 5"
  shows "goods (found_pay s v st)"
  unfolding found_pay_def
proof (rule goods_fold [OF g])
  fix h st' assume h: "h \<in> set (vert_hexes v)" and g': "goods st'" "h_cap st' = h_cap st"
  let ?f = "(let r = tiles (h_layout st) ! h in if 0 \<le> r then grant s (nat r) 1 else (\<lambda>x. x)) st'"
  have "goods (grant s (nat (tiles (h_layout st) ! h)) 1 st')"
    using goods_grant [OF g'(1), of s "nat (tiles (h_layout st) ! h)" 1] g' s lay [OF h] by simp
  then show "goods ?f \<and> h_cap ?f = h_cap st" using g' by (simp add: Let_def hx_proj)
qed

lemma raw_gain_nonneg: "0 \<le> raw_gain st n s r"
  unfolding raw_gain_def by (intro sum_list_nonneg) (auto intro!: sum_list_nonneg)

lemma gains_of_nonneg: "0 \<le> gains_of st n s r"
  unfolding gains_of_def Let_def using raw_gain_nonneg by simp

lemma goods_production:
  assumes "goods st"
  shows "goods (production st n)"
  unfolding production_def
proof (rule goods_fold [OF assms], clarify)
  fix s r st' assume m: "(s, r) \<in> set (concat (map (\<lambda>s. map (\<lambda>r. (s, r)) [0..<5]) (seats st)))"
    and g': "goods st'" "h_cap st' = h_cap st"
  from m have "1 \<le> s" "s \<le> h_cap st'" "r < 5" using g' by auto
  from goods_grant [OF g'(1) this gains_of_nonneg] g'
  show "goods ((if gains_of st n s r \<noteq> 0 then grant s r (gains_of st n s r) else (\<lambda>x. x)) st') \<and>
        h_cap ((if gains_of st n s r \<noteq> 0 then grant s r (gains_of st n s r) else (\<lambda>x. x)) st') = h_cap st"
    by (simp add: hx_proj)
qed

lemma pick_res_Some:
  "pick_res ns r idx = Some k \<Longrightarrow> 0 \<le> idx \<Longrightarrow> (\<And>n. n \<in> set ns \<Longrightarrow> 0 \<le> n) \<Longrightarrow>
     r \<le> k \<and> k < r + length ns \<and> 0 < ns ! (k - r)"
proof (induction ns r idx rule: pick_res.induct)
  case (2 n ns r idx)
  show ?case
  proof (cases "idx < n")
    case False
    then have *: "r + 1 \<le> k \<and> k < r + 1 + length ns \<and> 0 < ns ! (k - (r + 1))" using 2 by simp
    then have "k - r = Suc (k - (r + 1))" by linarith
    with * show ?thesis by (simp only: nth_Cons_Suc) simp
  qed (use 2 in simp)
qed simp

lemma goods_stealFrom:
  assumes g: "goods st" and s: "1 \<le> t" "t \<le> h_cap st" "1 \<le> v" "v \<le> h_cap st" "t \<noteq> v"
  shows "goods (snd (stealFrom H t v q st))"
proof (cases "pick_res (hands st v) 0 (int (derN H q 3 (nat (total (hands st v)))))")
  case None
  then show ?thesis using g by (simp add: stealFrom_def Let_def)
next
  case (Some r)
  have "\<And>n. n \<in> set (hands st v) \<Longrightarrow> 0 \<le> n"
    using goods_nonneg [OF g, of _ v] goods_len [OF g, of v] s by (auto simp: in_set_conv_nth)
  from pick_res_Some [OF Some _ this] have r: "r < 5" "0 < hands st v ! r"
    using goods_len [OF g, of v] s by auto
  have "goods_ok (h_cap st) (bank st)
     (\<lambda>x. if x = t then (hands st t)[r := hands st t ! r + 1]
          else if x = v then (hands st v)[r := hands st v ! r - 1] else hands st x)"
    by (rule goods_upd2 [OF g])
      (use s r goods_len [OF g, of v] goods_len [OF g, of t] goods_nonneg [OF g, of _ v] goods_nonneg [OF g, of _ t]
        in \<open>auto simp: nth_list_update\<close>)
  with Some g s show ?thesis by (simp add: stealFrom_def Let_def hx_proj cong: if_cong)
qed

lemma goods_levy:
  assumes g: "goods st" and s: "1 \<le> t" "t \<le> h_cap st" and r: "r < 5"
  shows "goods (fold (levy_take t r) (filter (\<lambda>s. s \<noteq> t) (seats st)) st)"
proof (rule goods_fold [OF g])
  fix v st' assume v: "v \<in> set (filter (\<lambda>s. s \<noteq> t) (seats st))" and g': "goods st'" "h_cap st' = h_cap st"
  have v: "1 \<le> v" "v \<le> h_cap st'" "v \<noteq> t" using v g' by auto
  have "goods_ok (h_cap st') (bank st')
     (\<lambda>x. if x = t then (hands st' t)[r := hands st' t ! r + hands st' v ! r]
          else if x = v then (hands st' v)[r := 0] else hands st' x)"
    by (rule goods_upd2 [OF g'(1)])
      (use s r v g' goods_len [OF g'(1), of v] goods_len [OF g'(1), of t] goods_nonneg [OF g'(1), of _ v]
         goods_nonneg [OF g'(1), of _ t] in \<open>auto simp: nth_list_update\<close>)
  then show "goods (levy_take t r v st') \<and> h_cap (levy_take t r v st') = h_cap st"
    using v g' by (simp add: levy_take_def Let_def hx_proj cong: if_cong)
qed

section \<open>Roads and sites\<close>

lemma vert_adj_iff:
  "w \<in> set (vert_adj v) \<longleftrightarrow> (\<exists>e < NEDGE. (edge_a e = v \<and> edge_b e = w) \<or> (edge_a e = w \<and> edge_b e = v))"
proof -
  have "edge_a e = edge_b e \<Longrightarrow> \<not> e < NEDGE" for e using edge_ends [of e] by auto
  then show ?thesis by (auto simp: vert_adj_def vert_edges_def edge_other_def image_iff)
qed

lemma vert_adj_sym: "w \<in> set (vert_adj v) \<longleftrightarrow> v \<in> set (vert_adj w)"
  unfolding vert_adj_iff by blast

lemma vert_adj_irrefl: "v \<notin> set (vert_adj v)"
  unfolding vert_adj_iff using edge_ends by fastforce

lemma vert_edges_iff: "e \<in> set (vert_edges v) \<longleftrightarrow> e < NEDGE \<and> (edge_a e = v \<or> edge_b e = v)"
  by (auto simp: vert_edges_def)

abbreviation sites :: "hx \<Rightarrow> nat \<Rightarrow> nat set" where
  "sites st s \<equiv> set (p_steads (players st s)) \<union> set (p_keeps (players st s))"

text \<open>One seat's pieces: no piece twice, on the board, within the supply.\<close>

definition pieces_ok :: "hx_player \<Rightarrow> bool" where
  "pieces_ok p \<longleftrightarrow>
     distinct (p_roads p) \<and> distinct (p_steads p) \<and> distinct (p_keeps p) \<and>
     set (p_steads p) \<inter> set (p_keeps p) = {} \<and>
     (\<forall>e \<in> set (p_roads p). e < NEDGE) \<and> (\<forall>v \<in> set (p_steads p) \<union> set (p_keeps p). v < NVERT) \<and>
     length (p_roads p) \<le> SUPPLY_road \<and> length (p_steads p) \<le> SUPPLY_stead \<and> length (p_keeps p) \<le> SUPPLY_keep"

text \<open>Between seats: an edge has one road, a site one owner, and no two sites are adjacent.\<close>

definition apart :: "hx \<Rightarrow> bool" where
  "apart st \<longleftrightarrow>
     (\<forall>s \<in> {1..h_cap st}. \<forall>t \<in> {1..h_cap st}.
        (s \<noteq> t \<longrightarrow> set (p_roads (players st s)) \<inter> set (p_roads (players st t)) = {} \<and> sites st s \<inter> sites st t = {}) \<and>
        (\<forall>v \<in> sites st s. \<forall>w \<in> sites st t. w \<notin> set (vert_adj v)))"

definition board :: "hx \<Rightarrow> bool" where
  "board st \<longleftrightarrow> (\<forall>s \<in> {1..h_cap st}. pieces_ok (players st s)) \<and> apart st"

lemma length_set_add: "length (set_add x xs) \<le> Suc (length xs)"
  by (simp add: set_add_def)

lemma set_set_add [simp]: "set (set_add x xs) = insert x (set xs)"
  by (auto simp: set_add_def)

lemma distinct_set_add [simp]: "distinct (set_add x xs) = distinct xs"
  by (auto simp: set_add_def)

lemma set_set_del [simp]: "set (set_del x xs) = set xs - {x}"
  by (auto simp: set_del_def)

lemma distinct_set_del [simp]: "distinct xs \<Longrightarrow> distinct (set_del x xs)"
  by (simp add: set_del_def)

lemma board_frame:
  assumes "h_cap a = h_cap b" "\<And>s. p_roads (players a s) = p_roads (players b s)"
    "\<And>s. p_steads (players a s) = p_steads (players b s)" "\<And>s. p_keeps (players a s) = p_keeps (players b s)"
  shows "board a = board b"
  using assms by (simp add: board_def apart_def pieces_ok_def)

lemma board_add_road:
  assumes b: "board st" and s: "1 \<le> s" "s \<le> h_cap st" and e: "e < NEDGE" "edgeFree st e"
    and room: "length (p_roads (players st s)) < SUPPLY_road"
  shows "board (add_road s e st)"
proof -
  let ?p = "(players st s)\<lparr>p_roads := set_add e (p_roads (players st s))\<rparr>"
  have p: "pieces_ok (players st s)" using b s by (simp add: board_def)
  have "pieces_ok ?p"
    using p e(1) room length_set_add [of e "p_roads (players st s)"] by (simp add: pieces_ok_def)
  moreover have "e \<notin> set (p_roads (players st t))" if "t \<in> {1..h_cap st}" for t
    using e(2) that by (auto simp: edgeFree_def)
  ultimately show ?thesis
    using b s by (auto simp: board_def apart_def add_road_def Let_def hx_proj)
qed

lemma board_add_stead:
  assumes b: "board st" and s: "1 \<le> s" "s \<le> h_cap st" and v: "v < NVERT" "vertexFree st v"
    and room: "length (p_steads (players st s)) < SUPPLY_stead"
  shows "board (add_stead s v st)"
proof -
  let ?p = "(players st s)\<lparr>p_steads := set_add v (p_steads (players st s))\<rparr>"
  have p: "pieces_ok (players st s)" using b s by (simp add: board_def)
  have free: "v \<notin> sites st t \<and> (\<forall>w \<in> sites st t. w \<notin> set (vert_adj v) \<and> v \<notin> set (vert_adj w))"
    if t: "t \<in> {1..h_cap st}" for t
  proof -
    have t': "t \<in> set (seats st)" using t by simp
    then have "v \<notin> sites st t" using v(2) by (simp add: vertexFree_def owns_vertex_def)
    moreover have "w \<notin> set (vert_adj v)" if "w \<in> sites st t" for w
    proof
      assume "w \<in> set (vert_adj v)"
      then have "\<not> owns_vertex st t w" using v(2) t' unfolding vertexFree_def by blast
      then show False using that by (simp add: owns_vertex_def)
    qed
    ultimately show ?thesis using vert_adj_sym [of v] by blast
  qed
  have "pieces_ok ?p"
    using p v(1) room free [of s] s length_set_add [of v "p_steads (players st s)"]
    by (auto simp: pieces_ok_def)
  then have pieces: "\<forall>t \<in> {1..h_cap st}. pieces_ok (players (add_stead s v st) t)"
    using b by (simp add: board_def add_stead_def Let_def hx_proj)
  have sites: "sites (add_stead s v st) t = (if t = s then insert v (sites st t) else sites st t)" for t
    by (simp add: add_stead_def Let_def hx_proj)
  have roads: "p_roads (players (add_stead s v st) t) = p_roads (players st t)" for t
    by (simp add: add_stead_def Let_def hx_proj)
  have cap: "h_cap (add_stead s v st) = h_cap st" by (simp add: add_stead_def Let_def hx_proj)
  have ap: "apart st" using b by (simp add: board_def)
  have "apart (add_stead s v st)"
    unfolding apart_def cap roads sites
  proof (intro ballI conjI impI)
    fix t u assume t: "t \<in> {1..h_cap st}" and u: "u \<in> {1..h_cap st}"
    { assume "t \<noteq> u"
      then show "set (p_roads (players st t)) \<inter> set (p_roads (players st u)) = {}"
        using ap t u by (simp add: apart_def)
      from \<open>t \<noteq> u\<close> have "sites st t \<inter> sites st u = {}" using ap t u by (simp add: apart_def)
      then show "(if t = s then insert v (sites st t) else sites st t) \<inter> (if u = s then insert v (sites st u) else sites st u) = {}"
        using free [OF t] free [OF u] \<open>t \<noteq> u\<close> by auto }
    fix x w assume x: "x \<in> (if t = s then insert v (sites st t) else sites st t)"
      and w: "w \<in> (if u = s then insert v (sites st u) else sites st u)"
    have x': "x = v \<or> x \<in> sites st t" and w': "w = v \<or> w \<in> sites st u" using x w by (auto split: if_splits)
    have "x \<in> sites st t \<Longrightarrow> w \<in> sites st u \<Longrightarrow> w \<notin> set (vert_adj x)"
      using ap t u unfolding apart_def by blast
    then show "w \<notin> set (vert_adj x)"
      using x' w' free [OF t] free [OF u] vert_adj_irrefl [of v] by blast
  qed
  with pieces cap show ?thesis by (simp add: board_def)
qed

lemma board_raise_keep:
  assumes b: "board st" and s: "1 \<le> s" "s \<le> h_cap st" and v: "v \<in> set (p_steads (players st s))"
    and room: "length (p_keeps (players st s)) < SUPPLY_keep"
  shows "board (raise_keep s v st)"
proof -
  let ?p = "(players st s)\<lparr>p_steads := set_del v (p_steads (players st s)), p_keeps := set_add v (p_keeps (players st s))\<rparr>"
  have p: "pieces_ok (players st s)" using b s by (simp add: board_def)
  have "length (set_del v (p_steads (players st s))) \<le> length (p_steads (players st s))"
    by (simp add: set_del_def)
  then have "pieces_ok ?p"
    using p v room length_set_add [of v "p_keeps (players st s)"] by (auto simp: pieces_ok_def)
  then have pieces: "\<forall>t \<in> {1..h_cap st}. pieces_ok (players (raise_keep s v st) t)"
    using b by (simp add: board_def raise_keep_def Let_def hx_proj)
  have sites: "sites (raise_keep s v st) t = sites st t" for t
    using v by (auto simp: raise_keep_def Let_def hx_proj)
  have "apart (raise_keep s v st)"
    using b unfolding board_def apart_def sites by (simp add: raise_keep_def Let_def hx_proj)
  with pieces show ?thesis by (simp add: board_def raise_keep_def Let_def hx_proj)
qed

end
