(* ===== verification/HexRules.thy ===== *)
theory HexRules
  imports HexInvariants
begin

text \<open>
  The invariant of a Hexholm table and its preservation by every handler, the step and the
  replay. Each handler is a composition of primitive updates, and each primitive has one lemma.
\<close>

section \<open>The invariant\<close>

definition offer_ok :: "nat \<Rightarrow> hx_offer \<Rightarrow> bool" where
  "offer_ok cap f \<longleftrightarrow>
     1 \<le> o_by f \<and> o_by f \<le> cap \<and> length (o_give f) = 5 \<and> length (o_get f) = 5 \<and>
     (\<forall>r < 5. 0 \<le> o_give f ! r \<and> 0 \<le> o_get f ! r)"

definition offers_ok :: "hx \<Rightarrow> bool" where
  "offers_ok st \<longleftrightarrow> (phase st \<noteq> PMain \<longrightarrow> offers st = []) \<and> (\<forall>f \<in> set (offers st). offer_ok (h_cap st) f)"

text \<open>During the setup a seat has placed no more pieces than its slots so far.\<close>

definition setup_ok :: "hx \<Rightarrow> bool" where
  "setup_ok st \<longleftrightarrow>
     (phase st = PSetup \<longrightarrow> setupIdx st < length (setupSlots st) \<and>
       (\<forall>s \<in> {1..h_cap st}. length (p_roads (players st s)) \<le> count_list (take (setupIdx st) (setupSlots st)) s \<and>
          length (p_steads (players st s)) \<le> count_list (take (setupIdx st) (setupSlots st)) s))"

definition debts_ok :: "hx \<Rightarrow> bool" where
  "debts_ok st \<longleftrightarrow>
     (\<forall>s \<in> {1..h_cap st}. 0 \<le> owe (players st s) \<and> (phase st \<noteq> PDiscard \<longrightarrow> owe (players st s) = 0) \<and>
        (phase st = PDiscard \<longrightarrow> owe (players st s) \<le> total (hands st s)))
     \<and> (phase st = PDiscard \<longrightarrow> (\<exists>s \<in> {1..h_cap st}. 0 < owe (players st s)))"

definition scrolls_ok :: "hx \<Rightarrow> bool" where
  "scrolls_ok st \<longleftrightarrow>
     (\<forall>s \<in> {1..h_cap st}. mset (devKnown (players st s)) \<subseteq># mset DEV_BAG \<and>
        length (devKnown (players st s)) \<le> devDrawn (players st s))
     \<and> (\<Sum>s \<in> {1..h_cap st}. devDrawn (players st s)) = devBought st \<and> devBought st \<le> DEV_CAP"

definition turn_ok :: "hx \<Rightarrow> bool" where
  "turn_ok st \<longleftrightarrow>
     1 \<le> first st \<and> first st \<le> h_cap st \<and> (phase st \<noteq> PSetup \<longrightarrow> 1 \<le> turnSeat st \<and> turnSeat st \<le> h_cap st)"

definition lay_ok :: "hx_layout \<Rightarrow> bool" where
  "lay_ok lay \<longleftrightarrow> (\<forall>h < NHEX. tiles lay ! h < 5)"

definition hx_inv :: "hx \<Rightarrow> bool" where
  "hx_inv st \<longleftrightarrow>
     goods st \<and> board st \<and> offers_ok st \<and> setup_ok st \<and> debts_ok st \<and> scrolls_ok st \<and> turn_ok st \<and> lay_ok (h_layout st)"

lemmas hx_parts = offers_ok_def setup_ok_def debts_ok_def scrolls_ok_def turn_ok_def

lemma inv_parts:
  assumes "hx_inv st"
  shows "goods st" "board st" "offers_ok st" "setup_ok st" "debts_ok st" "scrolls_ok st" "turn_ok st" "lay_ok (h_layout st)"
  using assms by (simp_all add: hx_inv_def)

lemma setupSlots_eq: "first a = first b \<Longrightarrow> h_cap a = h_cap b \<Longrightarrow> setupSlots a = setupSlots b"
  by (simp add: setupSlots_def seatOrder_def)

text \<open>An operation that keeps the frame and the cards keeps the invariant outside the discard phase.\<close>

lemma inv_frame:
  assumes f: "frame a = frame b" and g: "goods a" and ph: "phase b \<noteq> PDiscard" and i: "hx_inv b"
  shows "hx_inv a"
proof -
  note p = frame_proj [OF f]
  have "board a" using inv_parts(2) [OF i] board_frame [of a b] p by simp
  moreover have "setup_ok a"
    using inv_parts(4) [OF i] setupSlots_eq [of a b] p unfolding setup_ok_def by simp
  ultimately show ?thesis
    using g i ph unfolding hx_inv_def offers_ok_def debts_ok_def scrolls_ok_def turn_ok_def p by simp
qed

lemma inv_same:
  assumes "frame a = frame b" "bank a = bank b" "hands a = hands b" "hx_inv b"
  shows "hx_inv a"
proof -
  note p = frame_proj [OF assms(1)] and h = assms(2) fun_cong [OF assms(3)]
  have "board a" using inv_parts(2) [OF assms(4)] board_frame [of a b] p by simp
  moreover have "setup_ok a"
    using inv_parts(4) [OF assms(4)] setupSlots_eq [of a b] p unfolding setup_ok_def by simp
  ultimately show ?thesis
    using assms(4) unfolding hx_inv_def offers_ok_def debts_ok_def scrolls_ok_def turn_ok_def p h by simp
qed

section \<open>Primitives\<close>

text \<open>Updates that touch nothing the invariant speaks of.\<close>

lemma inv_cong:
  assumes "h_cap a = h_cap b" "players a = players b" "bank a = bank b" "phase a = phase b" "setupIdx a = setupIdx b"
    "turnSeat a = turnSeat b" "first a = first b" "offers a = offers b" "devBought a = devBought b" "h_layout a = h_layout b"
  shows "hx_inv a = hx_inv b"
  using assms setupSlots_eq [of a b]
  by (simp add: hx_inv_def board_def apart_def offers_ok_def setup_ok_def debts_ok_def scrolls_ok_def turn_ok_def)

lemma inv_plain [simp]:
  "hx_inv (bad w s st) = hx_inv st" "hx_inv (add_log s ev st) = hx_inv st"
  "hx_inv (st\<lparr>mi := n\<rparr>) = hx_inv st" "hx_inv (st\<lparr>robber := h\<rparr>) = hx_inv st"
  "hx_inv (st\<lparr>dice := d, rolled := r\<rparr>) = hx_inv st" "hx_inv (st\<lparr>over := x, winner := w'\<rparr>) = hx_inv st"
  "hx_inv (st\<lparr>pendingWin := pw, over := x, winner := w'\<rparr>) = hx_inv st" "hx_inv (st\<lparr>blocked := x\<rparr>) = hx_inv st"
  "hx_inv (st\<lparr>pendingWin := pw\<rparr>) = hx_inv st"
  by (rule inv_cong; simp add: hx_proj)+

text \<open>The purse: bank and hands. Logging, badges and play marks keep it.\<close>

definition purse where
  "purse st = (bank st, hands st)"

lemma purse_refresh: "purse (refreshBadges l st) = purse st"
proof -
  let ?st1 = "st\<lparr>players := (\<lambda>s. if s \<in> set (seats st) then (players st s)\<lparr>roadLen := longestRoad st s\<rparr> else players st s)\<rparr>"
  have "purse (?st1\<lparr>roadHolder := x\<rparr>\<lparr>watchHolder := y\<rparr>) = purse st" for x y
    by (simp add: purse_def fun_eq_iff)
  moreover have "purse (add_log s ev st) = purse st" for s ev st
    by (simp add: purse_def hx_proj)
  ultimately show ?thesis
    unfolding refreshBadges_def Let_def by (simp only: split: if_split) simp
qed

lemma purse_note_play: "purse (note_play s ty st) = purse st"
  by (simp add: purse_def note_play_def Let_def hx_proj fun_eq_iff)

lemma purse_fold: "(\<And>x st. purse (f x st) = purse st) \<Longrightarrow> purse (fold f xs st) = purse st"
  by (induction xs arbitrary: st) simp_all

lemma purse_log_gains: "purse (log_gains st0 n st) = purse st"
proof -
  have "purse (add_log s ev st) = purse st" for s ev st
    by (simp add: purse_def hx_proj)
  then show ?thesis unfolding log_gains_def by (intro purse_fold) (simp add: Let_def)
qed

lemma inv_purse: "frame a = frame b \<Longrightarrow> purse a = purse b \<Longrightarrow> hx_inv b \<Longrightarrow> hx_inv a"
  by (rule inv_same [of a b]) (simp_all add: purse_def)

lemma inv_refresh [intro]: "hx_inv st \<Longrightarrow> hx_inv (refreshBadges l st)"
  by (rule inv_purse [OF frame_refresh purse_refresh])

lemma inv_note_play [intro]: "hx_inv st \<Longrightarrow> hx_inv (note_play s ty st)"
  by (rule inv_purse [OF frame_note_play purse_note_play])

lemma inv_log_gains [intro]: "hx_inv st \<Longrightarrow> hx_inv (log_gains st0 n st)"
  by (rule inv_purse [OF frame_log_gains purse_log_gains])

lemma inv_grant [intro]:
  "hx_inv st \<Longrightarrow> phase st \<noteq> PDiscard \<Longrightarrow> 1 \<le> s \<Longrightarrow> s \<le> h_cap st \<Longrightarrow> r < 5 \<Longrightarrow> 0 \<le> n \<Longrightarrow> hx_inv (grant s r n st)"
  by (rule inv_frame [OF frame_grant]) (auto intro: goods_grant dest: inv_parts(1))

lemma inv_payCost [intro]:
  "hx_inv st \<Longrightarrow> phase st \<noteq> PDiscard \<Longrightarrow> 1 \<le> s \<Longrightarrow> s \<le> h_cap st \<Longrightarrow> canPayCost (hands st s) c \<Longrightarrow> length c = 5 \<Longrightarrow>
     (\<And>r. r < 5 \<Longrightarrow> 0 \<le> c ! r) \<Longrightarrow> hx_inv (payCost s c st)"
  by (rule inv_frame [OF frame_payCost]) (auto intro: goods_payCost dest: inv_parts(1))

lemma inv_steal [intro]:
  "hx_inv st \<Longrightarrow> phase st \<noteq> PDiscard \<Longrightarrow> 1 \<le> t \<Longrightarrow> t \<le> h_cap st \<Longrightarrow> 1 \<le> v \<Longrightarrow> v \<le> h_cap st \<Longrightarrow> t \<noteq> v \<Longrightarrow>
     hx_inv (snd (stealFrom H t v q st))"
  by (rule inv_frame [OF frame_stealFrom goods_stealFrom]) (auto dest: inv_parts(1))

lemma inv_production [intro]: "hx_inv st \<Longrightarrow> phase st \<noteq> PDiscard \<Longrightarrow> hx_inv (production st n)"
  by (rule inv_frame [OF frame_production goods_production]) (auto dest: inv_parts(1))

lemma inv_levy [intro]:
  "hx_inv st \<Longrightarrow> phase st \<noteq> PDiscard \<Longrightarrow> 1 \<le> t \<Longrightarrow> t \<le> h_cap st \<Longrightarrow> r < 5 \<Longrightarrow>
     hx_inv (fold (levy_take t r) (filter (\<lambda>s. s \<noteq> t) (seats st)) st)"
  by (rule inv_frame [OF frame_levy goods_levy]) (auto dest: inv_parts(1))

lemma inv_found_pay [intro]:
  assumes i: "hx_inv st" and "phase st \<noteq> PDiscard" "1 \<le> s" "s \<le> h_cap st"
  shows "hx_inv (found_pay s v st)"
proof (rule inv_frame [OF frame_found_pay goods_found_pay])
  fix h assume "h \<in> set (vert_hexes v)"
  then show "tiles (h_layout st) ! h < 5"
    using inv_parts(8) [OF i] by (simp add: lay_ok_def vert_hexes_def)
qed (use assms inv_parts(1) in auto)

text \<open>Changes of one player's pieces and phase.\<close>

lemma inv_pieces:
  assumes i: "hx_inv st" and ph: "phase st \<noteq> PSetup" and b: "board (set_player s p st)"
    and same: "p_res p = p_res (players st s)" "owe p = owe (players st s)"
      "devKnown p = devKnown (players st s)" "devDrawn p = devDrawn (players st s)"
  shows "hx_inv (set_player s p st)"
proof -
  let ?st = "set_player s p st"
  have "p_res (players ?st x) = p_res (players st x)" "owe (players ?st x) = owe (players st x)"
    "devKnown (players ?st x) = devKnown (players st x)" "devDrawn (players ?st x) = devDrawn (players st x)" for x
    using same by (simp_all add: hx_proj)
  then show ?thesis
    using i ph b by (simp add: hx_inv_def hx_parts set_player_simps)
qed

lemma inv_add_road:
  assumes i: "hx_inv st" and s: "1 \<le> s" "s \<le> h_cap st" and e: "e < NEDGE" "edgeFree st e"
    and room: "length (p_roads (players st s)) < SUPPLY_road" and ph: "phase st \<noteq> PSetup"
  shows "hx_inv (add_road s e st)"
  using board_add_road [OF inv_parts(2) [OF i] s e room] unfolding add_road_def Let_def
  by (rule inv_pieces [OF i ph]) simp_all

lemma inv_add_stead:
  assumes i: "hx_inv st" and s: "1 \<le> s" "s \<le> h_cap st" and v: "v < NVERT" "vertexFree st v"
    and room: "length (p_steads (players st s)) < SUPPLY_stead" and ph: "phase st \<noteq> PSetup"
  shows "hx_inv (add_stead s v st)"
  using board_add_stead [OF inv_parts(2) [OF i] s v room] unfolding add_stead_def Let_def
  by (rule inv_pieces [OF i ph]) simp_all

lemma inv_raise_keep:
  assumes i: "hx_inv st" and s: "1 \<le> s" "s \<le> h_cap st" and v: "v \<in> set (p_steads (players st s))"
    and room: "length (p_keeps (players st s)) < SUPPLY_keep" and ph: "phase st \<noteq> PSetup"
  shows "hx_inv (raise_keep s v st)"
  using board_raise_keep [OF inv_parts(2) [OF i] s v room] unfolding raise_keep_def Let_def
  by (rule inv_pieces [OF i ph]) simp_all

lemma board_phase [simp]: "board (st\<lparr>phase := p\<rparr>) = board st"
  by (rule board_frame) simp_all

lemma setupSlots_phase [simp]: "setupSlots (st\<lparr>phase := p\<rparr>) = setupSlots st"
  by (simp add: setupSlots_def seatOrder_def)

text \<open>Phase changes after the setup, into a phase without debts.\<close>

lemma inv_phase:
  assumes i: "hx_inv st" and ph: "phase st \<notin> {PSetup, PDiscard}" "p \<notin> {PSetup, PDiscard}"
    and off: "p = PMain \<or> offers st = []"
  shows "hx_inv (st\<lparr>phase := p\<rparr>)"
proof -
  have "p \<noteq> PMain \<longrightarrow> offers st = []" using off by auto
  then show ?thesis using i ph by (simp add: hx_inv_def hx_parts)
qed

section \<open>Handlers after the setup\<close>

lemma owns_frame: "frame a = frame b \<Longrightarrow> owns_vertex a s v = owns_vertex b s v"
  by (simp add: owns_vertex_def frame_proj [of a b])

lemma free_frame:
  assumes "frame a = frame b"
  shows "edgeFree a e = edgeFree b e" "vertexFree a v = vertexFree b v"
  using frame_proj [OF assms] owns_frame [OF assms] by (simp_all add: edgeFree_def vertexFree_def seats_def)

lemmas free_pay = free_frame [OF frame_payCost] free_frame [OF frame_add_log]

lemma seatOrder_in: "s \<in> set (seatOrder st) \<Longrightarrow> 1 \<le> s \<and> s \<le> h_cap st"
  by (cases "h_cap st = 0") (auto simp: seatOrder_def Suc_le_eq less_Suc_eq_le [symmetric] One_nat_def)

lemma length_seatOrder [simp]: "length (seatOrder st) = h_cap st"
  by (simp add: seatOrder_def)

lemma inv_startTurn:
  assumes i: "hx_inv st" and ph: "phase st \<notin> {PSetup, PDiscard}"
  shows "hx_inv (startTurn st)"
proof -
  have cap: "0 < h_cap st" using inv_parts(7) [OF i] by (auto simp: turn_ok_def)
  have "seatOrder st ! ((index_of (turnSeat st) (seatOrder st) + 1) mod h_cap st) \<in> set (seatOrder st)"
    using cap by simp
  moreover have "seatOrder (st\<lparr>phase := PPreroll, rolled := False, playedScroll := False, offers := []\<rparr>) = seatOrder st"
    by (simp add: seatOrder_def)
  then have "turnSeat (startTurn st) = seatOrder st ! ((index_of (turnSeat st) (seatOrder st) + 1) mod h_cap st)"
    by (simp add: startTurn_def endOffers_def Let_def)
  ultimately have t: "1 \<le> turnSeat (startTurn st)" "turnSeat (startTurn st) \<le> h_cap st"
    using seatOrder_in by simp_all
  have p: "p_roads (players (startTurn st) s) = p_roads (players st s)"
    "p_steads (players (startTurn st) s) = p_steads (players st s)"
    "p_keeps (players (startTurn st) s) = p_keeps (players st s)"
    "owe (players (startTurn st) s) = owe (players st s)"
    "p_res (players (startTurn st) s) = p_res (players st s)"
    "devKnown (players (startTurn st) s) = devKnown (players st s)"
    "devDrawn (players (startTurn st) s) = devDrawn (players st s)" for s
    by (simp_all add: startTurn_def endOffers_def Let_def)
  have q: "h_cap (startTurn st) = h_cap st" "phase (startTurn st) = PPreroll" "offers (startTurn st) = []"
    "first (startTurn st) = first st" "bank (startTurn st) = bank st" "h_layout (startTurn st) = h_layout st"
    "devBought (startTurn st) = devBought st"
    by (simp_all add: startTurn_def endOffers_def Let_def)
  have "board (startTurn st)" using board_frame [of "startTurn st" st] inv_parts(2) [OF i] p q by simp
  with t i ph show ?thesis by (simp add: hx_inv_def hx_parts p q)
qed

lemma inv_hx_end: "hx_inv st \<Longrightarrow> phase st \<notin> {PSetup, PDiscard} \<Longrightarrow> hx_inv (hx_end side st)"
  unfolding hx_end_def using inv_startTurn [of "add_log side (Ended (turnNo st)) st"]
  by (cases "side = turnSeat st") (simp_all add: hx_proj)

lemma inv_hx_win: "hx_inv st \<Longrightarrow> hx_inv (hx_win side st)"
  unfolding hx_win_def by (auto split: option.split)

lemma inv_hx_road:
  assumes "hx_inv st" "1 \<le> side" "side \<le> h_cap st"
  shows "hx_inv (hx_road side a st)"
proof (cases "hx_road side a st = bad ''not your turn'' side st \<or> hx_road side a st = bad ''bad road'' side st")
  case False
  then have "phase st = PMain" "length (p_roads (players st side)) < SUPPLY_road" "a < NEDGE" "edgeFree st a"
    "canPayCost (hands st side) COST_road"
    by (auto simp: hx_road_def split: if_splits)
  with assms show ?thesis
    unfolding hx_road_def
    by (auto intro!: inv_refresh inv_add_road inv_payCost simp: free_pay hx_proj)
qed (use assms in auto)

lemma inv_hx_stead:
  assumes "hx_inv st" "1 \<le> side" "side \<le> h_cap st"
  shows "hx_inv (hx_stead side a st)"
proof (cases "hx_stead side a st = bad ''not your turn'' side st \<or> hx_stead side a st = bad ''bad homestead'' side st")
  case False
  then have "phase st = PMain" "length (p_steads (players st side)) < SUPPLY_stead" "a < NVERT" "vertexFree st a"
    "canPayCost (hands st side) COST_stead"
    by (auto simp: hx_stead_def steadSpotOk_def split: if_splits)
  with assms show ?thesis
    unfolding hx_stead_def
    by (auto intro!: inv_refresh inv_add_stead inv_payCost simp: free_pay hx_proj)
qed (use assms in auto)

lemma inv_hx_keep:
  assumes "hx_inv st" "1 \<le> side" "side \<le> h_cap st"
  shows "hx_inv (hx_keep side a st)"
proof (cases "hx_keep side a st = bad ''not your turn'' side st \<or> hx_keep side a st = bad ''bad keep'' side st")
  case False
  then have "phase st = PMain" "length (p_keeps (players st side)) < SUPPLY_keep" "a \<in> set (p_steads (players st side))"
    "canPayCost (hands st side) COST_keep"
    by (auto simp: hx_keep_def split: if_splits)
  with assms show ?thesis
    unfolding hx_keep_def
    by (auto intro!: inv_raise_keep inv_payCost simp: hx_proj)
qed (use assms in auto)

lemma inv_path_roads:
  "hx_inv st \<Longrightarrow> phase st = PMain \<Longrightarrow> 1 \<le> side \<Longrightarrow> side \<le> h_cap st \<Longrightarrow> \<forall>e \<in> set es. e < NEDGE \<Longrightarrow>
     length (p_roads (players st side)) + length es \<le> SUPPLY_road \<Longrightarrow> hx_inv (path_roads side es st)"
proof (induction es arbitrary: st)
  case (Cons e es)
  show ?case
  proof (cases "edgeFree st e \<and> edgeTouchesOwn st side e")
    case True
    have inv: "hx_inv (add_road side e st)"
      using Cons.prems True by (intro inv_add_road) auto
    have "phase (add_road side e st) = PMain" "h_cap (add_road side e st) = h_cap st"
      "length (p_roads (players (add_road side e st) side)) \<le> Suc (length (p_roads (players st side)))"
      using Cons.prems(2) length_set_add by (simp_all add: add_road_def Let_def hx_proj)
    with Cons.IH [OF inv] Cons.prems True show ?thesis by simp
  qed (use Cons.prems in auto)
qed simp

lemma inv_hx_path:
  assumes i: "hx_inv st" "1 \<le> side" "side \<le> h_cap st"
  shows "hx_inv (hx_path side a b st)"
proof -
  define want where "want = filter (\<lambda>e. e < NEDGE) [a, b]"
  have ok: "\<forall>e \<in> set want. e < NEDGE" by (simp add: want_def)
  have "hx_inv (path_roads side want st)"
    if "phase st = PMain" "\<not> (int (length want) > min 2 (int SUPPLY_road - int (length (p_roads (players st side)))))"
  proof -
    have "length (p_roads (players st side)) + length want \<le> SUPPLY_road" using that(2) by linarith
    from inv_path_roads [OF i(1) that(1) i(2,3) ok this] show ?thesis .
  qed
  then show ?thesis
    unfolding hx_path_def Let_def want_def [symmetric]
    using i(1) by (auto intro!: inv_refresh inv_note_play split: option.split)
qed

lemma inv_hx_bounty:
  assumes "hx_inv st" "1 \<le> side" "side \<le> h_cap st"
  shows "hx_inv (hx_bounty side a b st)"
  unfolding hx_bounty_def
  using assms by (auto intro!: inv_note_play inv_grant simp: hx_proj split: option.split)

lemma inv_hx_levy:
  assumes "hx_inv st" "1 \<le> side" "side \<le> h_cap st"
  shows "hx_inv (hx_levy side a st)"
  unfolding hx_levy_def Let_def
  using assms by (auto intro!: inv_note_play inv_levy split: option.split)

lemma victims_in: "v \<in> set (victims st side h) \<Longrightarrow> 1 \<le> v \<and> v \<le> h_cap st \<and> v \<noteq> side \<and> total (hands st v) > 0"
  by (auto simp: victims_def adjacentSeats_def)


lemma adjacent_in: "v \<in> set (adjacentSeats st h) \<Longrightarrow> 1 \<le> v \<and> v \<le> h_cap st"
  by (auto simp: adjacentSeats_def)

lemma inv_rob:
  assumes "hx_inv st" "phase st \<noteq> PDiscard" "1 \<le> side" "side \<le> h_cap st" "v \<in> set (victims (st\<lparr>robber := h\<rparr>) side h)"
  shows "hx_inv (snd (stealFrom H side v q (st\<lparr>robber := h\<rparr>)))"
  using assms victims_in [OF assms(5)] by (intro inv_steal) auto

lemma steal_frame:
  assumes "stealFrom H side v q st = (g, st2)"
  shows "frame st2 = frame st"
  using frame_stealFrom [of H side v q st] assms by simp

lemma inv_hx_robber:
  assumes i: "hx_inv st" and side: "1 \<le> side" "side \<le> h_cap st"
  shows "hx_inv (hx_robber H side q a b st)"
proof (cases "phase st = PRobber")
  case True
  have off: "offers st = []" using inv_parts(3) [OF i] True by (simp add: offers_ok_def)
  let ?st1 = "st\<lparr>robber := a\<rparr>"
  have "hx_inv ((add_log side ev st2)\<lparr>phase := PMain\<rparr>)"
    if "stealFrom H side b q ?st1 = (got, st2)" "b \<in> set (victims ?st1 side a)" for got st2 ev
  proof -
    have "hx_inv st2" using inv_rob [OF i _ side that(2), of H q] that(1) True by simp
    moreover have "phase st2 = PRobber" using frame_proj(6) [OF steal_frame [OF that(1)]] True by simp
    ultimately show ?thesis by (intro inv_phase) (simp_all add: hx_proj)
  qed
  moreover have "hx_inv ((add_log side ev ?st1)\<lparr>phase := PMain\<rparr>)" for ev
    using i True by (intro inv_phase) (simp_all add: hx_proj)
  ultimately show ?thesis
    unfolding hx_robber_def Let_def using i by (auto split: prod.split)
qed (use i in \<open>simp add: hx_robber_def\<close>)

lemma inv_hx_warden:
  assumes i: "hx_inv st" and side: "1 \<le> side" "side \<le> h_cap st"
  shows "hx_inv (hx_warden H side q a b st)"
proof (cases "phase st = PPreroll \<or> phase st = PMain")
  case True
  let ?st1 = "st\<lparr>robber := a\<rparr>"
  have "hx_inv (refreshBadges True (add_log side ev (note_play side WARDEN st2)))"
    if "stealFrom H side b q ?st1 = (got, st2)" "b \<in> set (victims ?st1 side a)" for got st2 ev
  proof -
    have "hx_inv st2" using inv_rob [OF i _ side that(2), of H q] that(1) True by auto
    then show ?thesis using inv_refresh inv_note_play by simp
  qed
  moreover have "hx_inv (refreshBadges True (add_log side ev (note_play side WARDEN ?st1)))" for ev
    using i inv_refresh inv_note_play by simp
  ultimately show ?thesis
    unfolding hx_warden_def Let_def using i by (auto split: prod.split option.split)
qed (use i in \<open>simp add: hx_warden_def\<close>)

lemma length_DEV_BAG: "length DEV_BAG = DEV_CAP"
  by (simp add: DEV_BAG_def DEV_CAP_def)

lemma DEV_BAG_pos: "0 \<notin> set DEV_BAG"
  by (simp add: DEV_BAG_def WARDEN_def CHARTER_def PATHWRIGHT_def BOUNTY_def LEVY_def)

lemma mset_fold_remove1: "mset (fold remove1 xs ys) = mset ys - mset xs"
  by (induction xs arbitrary: ys) simp_all

lemma drawDev_draws:
  assumes "length (devKnown (players st s)) < DEV_CAP" "secrets st s \<noteq> None"
  shows "drawDev H st s q n \<in># mset DEV_BAG - mset (devKnown (players st s))"
proof -
  let ?rem = "fold remove1 (devKnown (players st s)) DEV_BAG"
  have "size (mset ?rem) \<ge> length DEV_BAG - length (devKnown (players st s))"
    unfolding mset_fold_remove1 using diff_size_le_size_Diff [of "mset DEV_BAG" "mset (devKnown (players st s))"] by simp
  then have "length ?rem > 0" using assms(1) length_DEV_BAG unfolding size_mset by linarith
  then have "?rem ! (k mod length ?rem) \<in> set ?rem" for k by (intro nth_mem) simp
  then show ?thesis
    using assms(2) by (auto simp: drawDev_def Let_def mset_fold_remove1 [symmetric])
qed

lemma sum_bump:
  fixes f g :: "nat \<Rightarrow> nat"
  assumes "finite A" "s \<in> A" "f s = g s + 1" "\<And>x. x \<in> A \<Longrightarrow> x \<noteq> s \<Longrightarrow> f x = g x"
  shows "sum f A = sum g A + 1"
proof -
  have "sum f (A - {s}) = sum g (A - {s})" using assms(4) by (intro sum.cong) auto
  then show ?thesis using sum.remove [OF assms(1,2), of f] sum.remove [OF assms(1,2), of g] assms(3) by simp
qed

text \<open>A bought scroll is drawn from what the seat has not drawn yet.\<close>

definition buy_scroll :: "nat \<Rightarrow> nat \<Rightarrow> hx \<Rightarrow> hx" where
  "buy_scroll side c st =
     (let p = players st side
      in (set_player side (p\<lparr>devDrawn := devDrawn p + 1, buysThisTurn := buysThisTurn p + 1,
                         devKnown := (if c \<noteq> 0 then devKnown p @ [c] else devKnown p)\<rparr>) st)
           \<lparr>devBought := devBought st + 1\<rparr>)"

lemma inv_buy_scroll:
  assumes i: "hx_inv st" and s: "1 \<le> side" "side \<le> h_cap st" and room: "devBought st < DEV_CAP"
    and c: "c = 0 \<or> c \<in># mset DEV_BAG - mset (devKnown (players st side))"
  shows "hx_inv (buy_scroll side c st)"
proof -
  let ?b = "buy_scroll side c st"
  have p: "p_roads (players ?b x) = p_roads (players st x)" "p_steads (players ?b x) = p_steads (players st x)"
    "p_keeps (players ?b x) = p_keeps (players st x)" "owe (players ?b x) = owe (players st x)"
    "p_res (players ?b x) = p_res (players st x)"
    "devKnown (players ?b x) = (if x = side \<and> c \<noteq> 0 then devKnown (players st x) @ [c] else devKnown (players st x))"
    "devDrawn (players ?b x) = (if x = side then devDrawn (players st x) + 1 else devDrawn (players st x))" for x
    by (simp_all add: buy_scroll_def Let_def hx_proj)
  have q: "h_cap ?b = h_cap st" "phase ?b = phase st" "offers ?b = offers st" "first ?b = first st"
    "bank ?b = bank st" "h_layout ?b = h_layout st" "devBought ?b = devBought st + 1" "turnSeat ?b = turnSeat st"
    "setupIdx ?b = setupIdx st"
    by (simp_all add: buy_scroll_def Let_def hx_proj)
  have b: "board ?b" using board_frame [of ?b st] inv_parts(2) [OF i] p q by simp
  have slots: "setupSlots ?b = setupSlots st" using q by (intro setupSlots_eq) simp_all
  have old: "mset (devKnown (players st x)) \<subseteq># mset DEV_BAG \<and> length (devKnown (players st x)) \<le> devDrawn (players st x)"
    if "x \<in> {1..h_cap st}" for x
    using inv_parts(6) [OF i] that unfolding scrolls_ok_def by blast
  have "mset (devKnown (players st side) @ [c]) \<subseteq># mset DEV_BAG" if "c \<noteq> 0"
  proof -
    have "{#c#} \<subseteq># mset DEV_BAG - mset (devKnown (players st side))" using c that by simp
    moreover have "mset (devKnown (players st side)) \<subseteq># mset DEV_BAG" using old [of side] s by simp
    ultimately have "{#c#} + mset (devKnown (players st side)) \<subseteq># mset DEV_BAG"
      by (simp only: subset_mset.le_diff_conv2)
    then show ?thesis by simp
  qed
  then have known: "mset (devKnown (players ?b x)) \<subseteq># mset DEV_BAG" if "x \<in> {1..h_cap st}" for x
    using old [OF that] by (simp add: p)
  have len: "length (devKnown (players ?b x)) \<le> devDrawn (players ?b x)" if "x \<in> {1..h_cap st}" for x
    using old [OF that] by (cases "x = side") (auto simp: p)
  have "(\<Sum>x \<in> {1..h_cap st}. devDrawn (players ?b x)) = (\<Sum>x \<in> {1..h_cap st}. devDrawn (players st x)) + 1"
    by (rule sum_bump [of _ side]) (use s in \<open>simp_all add: p\<close>)
  then have "scrolls_ok ?b"
    using inv_parts(6) [OF i] room known len unfolding scrolls_ok_def q by simp
  moreover have "goods ?b" using inv_parts(1) [OF i] unfolding p q .
  moreover have "offers_ok ?b" "setup_ok ?b" "debts_ok ?b" "turn_ok ?b"
    using inv_parts(3,4,5,7) [OF i] unfolding offers_ok_def setup_ok_def debts_ok_def turn_ok_def p q slots by simp_all
  ultimately show ?thesis using b inv_parts(8) [OF i] by (simp add: hx_inv_def q)
qed

lemma hx_buy_eq:
  "hx_buy H side q st =
     (if side \<noteq> turnSeat st \<or> phase st \<noteq> PMain then bad ''not your turn'' side st
      else if \<not> commits st side then bad ''scroll buy without a commit'' side st
      else if devBought st \<ge> DEV_CAP \<or> \<not> canPayCost (p_res (players st side)) COST_scroll
      then bad ''bad scroll buy'' side st
      else let st1 = payCost side COST_scroll st;
               st2 = buy_scroll side (drawDev H st1 side q (devDrawn (players st1 side))) st1
           in add_log side (ScrollBought (DEV_CAP - devBought st2)) st2)"
  by (simp add: hx_buy_def buy_scroll_def Let_def)

lemma inv_hx_buy:
  assumes i: "hx_inv st" and s: "1 \<le> side" "side \<le> h_cap st"
  shows "hx_inv (hx_buy H side q st)"
proof -
  let ?st1 = "payCost side COST_scroll st"
  have "hx_inv (buy_scroll side (drawDev H ?st1 side q n) ?st1)"
    if ph: "phase st = PMain" and room: "devBought st < DEV_CAP" and can: "canPayCost (hands st side) COST_scroll" for n
  proof (rule inv_buy_scroll)
    show i1: "hx_inv ?st1" using i s ph can by (intro inv_payCost) simp_all
    show "1 \<le> side" "side \<le> h_cap ?st1" "devBought ?st1 < DEV_CAP" using s room by (simp_all add: hx_proj)
    have "devDrawn (players ?st1 side) \<le> devBought ?st1"
    proof -
      have "devDrawn (players ?st1 side) \<le> (\<Sum>x \<in> {1..h_cap ?st1}. devDrawn (players ?st1 x))"
        using s by (intro member_le_sum) (auto simp: hx_proj)
      then show ?thesis using inv_parts(6) [OF i1] by (simp add: scrolls_ok_def)
    qed
    moreover have "length (devKnown (players ?st1 side)) \<le> devDrawn (players ?st1 side)"
      using inv_parts(6) [OF i1] s by (simp add: scrolls_ok_def hx_proj)
    ultimately have "length (devKnown (players ?st1 side)) < DEV_CAP" using room by (simp add: hx_proj)
    from drawDev_draws [OF this, of H q n]
    show "drawDev H ?st1 side q n = 0 \<or> drawDev H ?st1 side q n \<in># mset DEV_BAG - mset (devKnown (players ?st1 side))"
      by (cases "secrets ?st1 side") (simp_all add: drawDev_def)
  qed
  then show ?thesis unfolding hx_buy_eq Let_def using i by auto
qed

section \<open>Trade\<close>

lemma goods_set_bank:
  assumes g: "goods st" and s: "1 \<le> s" "s \<le> h_cap st" and r: "r < 5" and n: "0 \<le> n" "n \<le> hands st s ! r"
  shows "goods ((set_player s ((players st s)\<lparr>p_res := (hands st s)[r := hands st s ! r - n]\<rparr>) st)
                  \<lparr>bank := (bank st)[r := bank st ! r + n]\<rparr>)"
proof -
  have "goods_ok (h_cap st) ((bank st)[r := bank st ! r + n])
     (\<lambda>x. if x = s then (hands st s)[r := hands st s ! r - n] else hands st x)"
    by (rule goods_upd1 [OF g])
      (use s r n goods_len [OF g, of s] goods_nonneg [OF g, of _ s] in \<open>auto simp: nth_list_update\<close>)
  then show ?thesis by (simp add: hx_proj cong: if_cong)
qed

lemma inv_hx_bank:
  assumes i: "hx_inv st" and s: "1 \<le> side" "side \<le> h_cap st"
  shows "hx_inv (hx_bank side a b st)"
proof -
  let ?st1 = "(set_player side ((players st side)\<lparr>p_res := (hands st side)[a div 8 := hands st side ! (a div 8) - int (a mod 8)]\<rparr>) st)
       \<lparr>bank := (bank st)[a div 8 := bank st ! (a div 8) + int (a mod 8)]\<rparr>"
  have "hx_inv (grant side b 1 ?st1)"
    if ph: "phase st = PMain" and ok: "\<not> 4 < a div 8" "\<not> 4 < b" "\<not> hands st side ! (a div 8) < int (a mod 8)"
  proof -
    have "frame ?st1 = frame st" unfolding frame_bank by (rule frame_set_player) simp_all
    moreover have "goods ?st1"
      by (rule goods_set_bank [OF inv_parts(1) [OF i] s]) (use ok in auto)
    ultimately have "hx_inv ?st1" using ph by (intro inv_frame [OF _ _ _ i]) simp_all
    then show ?thesis using s ok ph by (intro inv_grant) (simp_all add: hx_proj)
  qed
  then show ?thesis unfolding hx_bank_def Let_def using i by auto
qed

lemma length_unpack [simp]: "length (unpack3 n) = 5" "length (unpack5 n) = 5"
  by (simp_all add: unpack3_def unpack5_def unpack_base_def)

lemma inv_hx_offer:
  assumes i: "hx_inv st" and s: "1 \<le> side" "side \<le> h_cap st"
  shows "hx_inv (hx_offer_op n side a b st)"
proof (cases "phase st = PMain")
  case True
  let ?f = "\<lparr>o_by = side, o_give = map int (unpack3 a), o_get = map int (unpack3 b), o_at = n\<rparr>"
  have "offer_ok (h_cap st) ?f" using s by (simp add: offer_ok_def)
  then have "offers_ok (st\<lparr>offers := offers st @ [?f]\<rparr>)"
    using inv_parts(3) [OF i] True by (simp add: offers_ok_def)
  moreover have "setupSlots (st\<lparr>offers := xs\<rparr>) = setupSlots st" for xs by (intro setupSlots_eq) simp_all
  moreover have "board (st\<lparr>offers := xs\<rparr>) = board st" for xs by (intro board_frame) simp_all
  ultimately have "hx_inv (st\<lparr>offers := offers st @ [?f]\<rparr>)"
    using i True by (simp add: hx_inv_def setup_ok_def debts_ok_def scrolls_ok_def turn_ok_def)
  then show ?thesis unfolding hx_offer_op_def Let_def using i by simp
qed (use i in \<open>simp add: hx_offer_op_def\<close>)

lemma inv_drop_offer:
  assumes i: "hx_inv st"
  shows "hx_inv (st\<lparr>offers := remove1 f (offers st)\<rparr>)"
proof -
  have "offers_ok (st\<lparr>offers := remove1 f (offers st)\<rparr>)"
    using inv_parts(3) [OF i] by (auto simp: offers_ok_def dest: notin_set_remove1)
  moreover have "setupSlots (st\<lparr>offers := xs\<rparr>) = setupSlots st" for xs by (intro setupSlots_eq) simp_all
  moreover have "board (st\<lparr>offers := xs\<rparr>) = board st" for xs by (intro board_frame) simp_all
  ultimately show ?thesis
    using i by (simp add: hx_inv_def setup_ok_def debts_ok_def scrolls_ok_def turn_ok_def)
qed

lemma inv_hx_rescind: "hx_inv st \<Longrightarrow> hx_inv (hx_rescind side a st)"
  unfolding hx_rescind_def by (simp add: inv_drop_offer split: option.split)

lemma inv_trade:
  assumes i: "hx_inv st" and ph: "phase st \<noteq> PDiscard" and s: "1 \<le> side" "side \<le> h_cap st"
    and f: "offer_ok (h_cap st) f" "o_by f \<noteq> side"
    and can: "\<not> exceeds (o_give f) (hands st (o_by f))" "\<not> exceeds (o_get f) (hands st side)"
  shows "hx_inv (set_player side ((players st side)\<lparr>p_res := vsub (vadd (hands st side) (o_give f)) (o_get f)\<rparr>)
     (set_player (o_by f) ((players st (o_by f))\<lparr>p_res := vadd (vsub (hands st (o_by f)) (o_give f)) (o_get f)\<rparr>) st))"
    (is "hx_inv ?st")
proof (rule inv_frame [OF _ _ ph i])
  let ?u = "o_by f"
  note g = inv_parts(1) [OF i]
  have u: "1 \<le> ?u" "?u \<le> h_cap st" "length (o_give f) = 5" "length (o_get f) = 5"
    "\<And>r. r < 5 \<Longrightarrow> 0 \<le> o_give f ! r \<and> 0 \<le> o_get f ! r"
    using f(1) by (auto simp: offer_ok_def)
  have le: "o_give f ! r \<le> hands st ?u ! r" "o_get f ! r \<le> hands st side ! r" if "r < 5" for r
    using can that unfolding exceeds_def u(3,4) by (meson not_less)+
  have len: "length (hands st side) = 5" "length (hands st ?u) = 5"
    using goods_len [OF g, of side] goods_len [OF g, of ?u] s u by auto
  have nn: "0 \<le> hands st side ! r" "0 \<le> hands st ?u ! r" if "r < 5" for r
    using goods_nonneg [OF g that, of side] goods_nonneg [OF g that, of ?u] s u by auto
  have "goods_ok (h_cap st) (bank st)
     (\<lambda>x. if x = side then vsub (vadd (hands st side) (o_give f)) (o_get f)
          else if x = ?u then vadd (vsub (hands st ?u) (o_give f)) (o_get f) else hands st x)"
  proof (rule goods_upd2 [OF g])
    fix r :: nat assume r: "r < 5"
    show "0 \<le> vsub (vadd (hands st side) (o_give f)) (o_get f) ! r \<and>
          0 \<le> vadd (vsub (hands st ?u) (o_give f)) (o_get f) ! r \<and>
          vadd (vsub (hands st ?u) (o_give f)) (o_get f) ! r + vsub (vadd (hands st side) (o_give f)) (o_get f) ! r
            = hands st ?u ! r + hands st side ! r"
      using r le [OF r] nn [OF r] u(5) [OF r] u(3,4) len by simp
  qed (use s u f(2) len in auto)
  then show "goods ?st" by (simp add: hx_proj cong: if_cong)
  show "frame ?st = frame st" using f(2) by (simp add: frame_def hx_proj fun_eq_iff)
qed

lemma inv_hx_accept:
  assumes i: "hx_inv st" and s: "1 \<le> side" "side \<le> h_cap st"
  shows "hx_inv (hx_accept side a st)"
proof (cases "List.find (\<lambda>f. o_at f = a) (offers st)")
  case None
  then show ?thesis using i by (simp add: hx_accept_def)
next
  case (Some f)
  then have "f \<in> set (offers st)" using find_Some_in by fastforce
  then have "offer_ok (h_cap st) f" using inv_parts(3) [OF i] by (simp add: offers_ok_def)
  then have "hx_inv (set_player side ((players st side)\<lparr>p_res := vsub (vadd (hands st side) (o_give f)) (o_get f)\<rparr>)
     (set_player (o_by f) ((players st (o_by f))\<lparr>p_res := vadd (vsub (hands st (o_by f)) (o_give f)) (o_get f)\<rparr>) st))"
    if "phase st = PMain" "o_by f \<noteq> side" "\<not> exceeds (o_give f) (hands st (o_by f))" "\<not> exceeds (o_get f) (hands st side)"
    using that s by (intro inv_trade [OF i]) simp_all
  from inv_drop_offer [OF this] show ?thesis
    unfolding hx_accept_def Let_def using i Some by simp
qed

section \<open>Dice and discards\<close>

lemma inv_log_phase:
  assumes "hx_inv st" "phase st = PPreroll"
  shows "hx_inv (st\<lparr>phase := PMain\<rparr>)"
  using assms by (intro inv_phase) simp_all

lemma set_owe_at: "owe (players (set_owe st) s) =
   (if 1 \<le> s \<and> s \<le> h_cap st \<and> total (hands st s) > HAND_LIMIT then total (hands st s) div 2 else owe (players st s))"
  by (simp add: set_owe_def)

lemma set_owe_other:
  "h_cap (set_owe st) = h_cap st" "bank (set_owe st) = bank st" "offers (set_owe st) = offers st"
  "p_res (players (set_owe st) s) = p_res (players st s)" "p_roads (players (set_owe st) s) = p_roads (players st s)"
  "p_steads (players (set_owe st) s) = p_steads (players st s)" "p_keeps (players (set_owe st) s) = p_keeps (players st s)"
  "devKnown (players (set_owe st) s) = devKnown (players st s)" "devDrawn (players (set_owe st) s) = devDrawn (players st s)"
  "first (set_owe st) = first st" "turnSeat (set_owe st) = turnSeat st" "devBought (set_owe st) = devBought st"
  "h_layout (set_owe st) = h_layout st" "phase (set_owe st) = phase st"
  by (simp_all add: set_owe_def)

text \<open>After a 7: debts are half the hands above the limit, and the discard phase begins when there is one.\<close>

lemma inv_seven:
  assumes i: "hx_inv st" and ph: "phase st = PPreroll"
  shows "hx_inv ((set_owe st)\<lparr>phase := (if \<exists>s \<in> set (seats st). total (hands st s) > HAND_LIMIT then PDiscard else PRobber)\<rparr>)"
proof -
  let ?ph = "if \<exists>s \<in> set (seats st). total (hands st s) > HAND_LIMIT then PDiscard else PRobber"
  let ?st = "(set_owe st)\<lparr>phase := ?ph\<rparr>"
  have "phase ?st = PDiscard \<or> phase ?st = PRobber" by simp
  then have phs: "phase ?st \<noteq> PSetup" "phase ?st \<noteq> PMain" by (metis hx_phase.distinct)+
  have b: "board ?st" using board_frame [of ?st st] inv_parts(2) [OF i] by (simp add: set_owe_other)
  have off: "offers st = []" using inv_parts(3) [OF i] ph by (simp add: offers_ok_def)
  have zero: "owe (players st s) = 0" if "s \<in> {1..h_cap st}" for s
    using inv_parts(5) [OF i] that ph by (simp add: debts_ok_def)
  have "debts_ok ?st"
    unfolding debts_ok_def
  proof (intro conjI ballI impI)
    fix s assume "s \<in> {1..h_cap ?st}"
    then have s: "s \<in> {1..h_cap st}" by (simp add: set_owe_other)
    show "0 \<le> owe (players ?st s)" using zero [OF s] by (simp add: set_owe_at HAND_LIMIT_def)
    show "owe (players ?st s) = 0" if "phase ?st \<noteq> PDiscard"
    proof -
      have "\<not> total (hands st s) > HAND_LIMIT" using that s by (auto split: if_splits)
      then show ?thesis using zero [OF s] by (simp add: set_owe_at)
    qed
    show "owe (players ?st s) \<le> total (hands ?st s)" if "phase ?st = PDiscard"
    proof (cases "total (hands st s) > HAND_LIMIT")
      case False
      have "0 \<le> total (hands st s)"
        using goods_len [OF inv_parts(1) [OF i], of s] goods_nonneg [OF inv_parts(1) [OF i], of _ s] s
        unfolding total_def by (intro sum_list_nonneg) (auto simp: in_set_conv_nth)
      then show ?thesis using zero [OF s] False by (simp add: set_owe_at set_owe_other)
    qed (use s in \<open>simp add: set_owe_at set_owe_other HAND_LIMIT_def\<close>)
  next
    assume "phase ?st = PDiscard"
    then have "\<exists>s \<in> set (seats st). total (hands st s) > HAND_LIMIT" by (simp split: if_splits)
    then obtain s where s: "s \<in> set (seats st)" "total (hands st s) > HAND_LIMIT" ..
    then have "0 < owe (players ?st s)" by (simp add: set_owe_at HAND_LIMIT_def)
    then show "\<exists>s \<in> {1..h_cap ?st}. 0 < owe (players ?st s)" using s(1) by (auto simp: set_owe_other)
  qed
  moreover have "goods ?st" using inv_parts(1) [OF i] by (simp add: set_owe_other)
  moreover have "offers_ok ?st" "setup_ok ?st" using phs off by (simp_all add: offers_ok_def setup_ok_def set_owe_other)
  moreover have "scrolls_ok ?st" "turn_ok ?st" using inv_parts(6,7) [OF i] ph
    by (simp_all add: scrolls_ok_def turn_ok_def set_owe_other)
  ultimately show ?thesis using b inv_parts(8) [OF i] by (simp add: hx_inv_def set_owe_other)
qed

lemma inv_hx_roll:
  assumes i: "hx_inv st"
  shows "hx_inv (hx_roll H side q st)"
proof (cases "phase st = PPreroll")
  case ph: True
  define d t where "d = roll_dice H q (turnNo st \<le> 2 * h_cap st)" and "t = fst d + snd d"
  define st1 where "st1 = add_log side (Rolled (fst d) (snd d) t) (st\<lparr>dice := t, rolled := True\<rparr>)"
  have i1: "hx_inv st1" and ph1: "phase st1 = PPreroll" using i ph by (simp_all add: st1_def hx_proj)
  have "hx_inv ((add_log side Seven (set_owe st1))\<lparr>phase := p\<rparr>) = hx_inv ((set_owe st1)\<lparr>phase := p\<rparr>)" for p
    by (rule inv_cong) (simp_all add: hx_proj)
  with inv_seven [OF i1 ph1]
  have seven: "hx_inv ((add_log side Seven (set_owe st1))
      \<lparr>phase := (if \<exists>s \<in> set (seats st1). total (hands st1 s) > HAND_LIMIT then PDiscard else PRobber)\<rparr>)"
    by simp
  have "hx_inv ((log_gains st1 t (production st1 t))\<lparr>phase := PMain\<rparr>)"
    using i1 ph1 by (intro inv_log_phase inv_log_gains inv_production) (simp_all add: hx_proj)
  with seven show ?thesis
    unfolding hx_roll_def Let_def d_def [symmetric] t_def [symmetric] st1_def [symmetric]
    using i by (cases "t = 7"; simp only: if_True if_False inv_plain split: if_split) blast+
qed (use i in \<open>simp add: hx_roll_def\<close>)

lemma inv_hx_discard:
  assumes i: "hx_inv st" and s: "1 \<le> side" "side \<le> h_cap st" and ph: "phase st = PDiscard"
  shows "hx_inv (hx_discard side (opc, a, b) st)"
proof -
  define cnt where "cnt = map int (unpack5 b)"
  let ?p = "players st side"
  define st1 where "st1 = (set_player side (?p\<lparr>p_res := vsub (p_res ?p) cnt, owe := 0\<rparr>) st)\<lparr>bank := vadd (bank st) cnt\<rparr>"
  define st2 where "st2 = add_log side (Discarded cnt) st1"
  have len: "length cnt = 5" "length (hands st side) = 5" "length (bank st) = 5"
    using goods_len [OF inv_parts(1) [OF i], of side] s by (simp_all add: cnt_def)
  have main: "hx_inv (if \<exists>s \<in> set (seats st2). owe (players st2 s) > 0 then st2 else st2\<lparr>phase := PRobber\<rparr>)"
    if ok: "\<not> exceeds cnt (hands st side)"
  proof -
    have le: "cnt ! r \<le> hands st side ! r" if "r < 5" for r
      using ok that unfolding exceeds_def len(1) by (meson not_less)
    have nn: "0 \<le> cnt ! r" if "r < 5" for r using that by (simp add: cnt_def)
    have "goods_ok (h_cap st) (vadd (bank st) cnt) (\<lambda>x. if x = side then vsub (hands st side) cnt else hands st x)"
    proof (rule goods_upd1 [OF inv_parts(1) [OF i]])
      fix r :: nat assume r: "r < 5"
      have "0 \<le> bank st ! r" using goods_nonneg [OF inv_parts(1) [OF i] r, of side] ..
      then show "0 \<le> vadd (bank st) cnt ! r \<and> 0 \<le> vsub (hands st side) cnt ! r \<and>
          vadd (bank st) cnt ! r + vsub (hands st side) cnt ! r = bank st ! r + hands st side ! r"
        using r le [OF r] nn [OF r] len by simp
    qed (use s len in auto)
    then have g: "goods st2" by (simp add: st2_def st1_def hx_proj cong: if_cong)
    have p: "p_roads (players st2 x) = p_roads (players st x)" "p_steads (players st2 x) = p_steads (players st x)"
      "p_keeps (players st2 x) = p_keeps (players st x)" "devKnown (players st2 x) = devKnown (players st x)"
      "devDrawn (players st2 x) = devDrawn (players st x)"
      "owe (players st2 x) = (if x = side then 0 else owe (players st x))"
      "p_res (players st2 x) = (if x = side then vsub (hands st side) cnt else hands st x)" for x
      by (simp_all add: st2_def st1_def hx_proj)
    have q: "h_cap st2 = h_cap st" "phase st2 = PDiscard" "offers st2 = offers st" "first st2 = first st"
      "h_layout st2 = h_layout st" "devBought st2 = devBought st" "turnSeat st2 = turnSeat st"
      using ph by (simp_all add: st2_def st1_def hx_proj)
    have b: "board st2" using board_frame [of st2 st] inv_parts(2) [OF i] p q by simp
    have "0 \<le> total (vsub (hands st side) cnt)"
      using le len unfolding total_def by (intro sum_list_nonneg) (auto simp: in_set_conv_nth)
    then have debts: "\<forall>x \<in> {1..h_cap st2}. 0 \<le> owe (players st2 x) \<and> owe (players st2 x) \<le> total (hands st2 x)"
      using inv_parts(5) [OF i] ph by (simp add: debts_ok_def p q)
    have rest: "offers st2 = []" "scrolls_ok st2" "turn_ok st2" "lay_ok (h_layout st2)"
      using inv_parts(3,6,7,8) [OF i] ph by (simp_all add: offers_ok_def scrolls_ok_def turn_ok_def p q)
    show ?thesis
    proof (cases "\<exists>s \<in> set (seats st2). owe (players st2 s) > 0")
      case True
      then have "debts_ok st2" using debts q(2) by (auto simp: debts_ok_def)
      then show ?thesis using True g b rest q(2) by (simp add: hx_inv_def offers_ok_def setup_ok_def)
    next
      case False
      let ?st3 = "st2\<lparr>phase := PRobber\<rparr>"
      have "owe (players st2 x) = 0" if "x \<in> {1..h_cap st2}" for x
        using False debts that by force
      then have "debts_ok ?st3" by (simp add: debts_ok_def)
      then have "hx_inv ?st3" using g b rest
        by (simp add: hx_inv_def offers_ok_def setup_ok_def scrolls_ok_def turn_ok_def q)
      then show ?thesis using False by simp
    qed
  qed
  show ?thesis
    unfolding hx_discard_def Let_def prod.case cnt_def [symmetric] st1_def [symmetric] st2_def [symmetric]
    using i main by simp
qed

section \<open>Setup\<close>

lemma distinct_seatOrder:
  assumes "1 \<le> first st"
  shows "distinct (seatOrder st)"
proof -
  have "inj_on (\<lambda>i. (first st - 1 + i) mod h_cap st + 1) {0..<h_cap st}"
  proof (rule inj_onI)
    fix i j assume ij: "i \<in> {0..<h_cap st}" "j \<in> {0..<h_cap st}"
      "(first st - 1 + i) mod h_cap st + 1 = (first st - 1 + j) mod h_cap st + 1"
    then have "(first st - 1 + i) mod h_cap st = (first st - 1 + j) mod h_cap st" by simp
    then have "i mod h_cap st = j mod h_cap st" unfolding nat_mod_eq_iff by (auto simp: add.assoc)
    then show "i = j" using ij by simp
  qed
  then show ?thesis by (simp add: seatOrder_def distinct_map)
qed

lemma distinct_count_list: "distinct xs \<Longrightarrow> count_list xs x \<le> 1"
  by (induction xs) auto

lemma count_setupSlots:
  assumes "1 \<le> first st"
  shows "count_list (setupSlots st) s \<le> 2"
  using distinct_count_list [OF distinct_seatOrder [OF assms], of s] by (simp add: setupSlots_def)

lemma count_take_le: "count_list (take n xs) x \<le> count_list xs x"
proof -
  have "count_list xs x = count_list (take n xs) x + count_list (drop n xs) x"
    by (metis append_take_drop_id count_list_append)
  then show ?thesis by simp
qed

text \<open>What the setup move leaves: one more road and one more homestead for the slotted seat.\<close>

lemma frame_pieces:
  assumes "frame a = frame b"
  shows "length (p_roads (players a s)) = length (p_roads (players b s))"
    "length (p_steads (players a s)) = length (p_steads (players b s))"
  using frame_proj [OF assms] by simp_all

lemma setup_board:
  assumes i: "hx_inv st" and ph: "phase st = PSetup" and s: "1 \<le> side" "side \<le> h_cap st"
    and v: "a < NVERT" "vertexFree st a" and e: "b < NEDGE" "edgeFree st b"
  shows "board (add_road side b (add_stead side a st))"
proof -
  have "length (p_roads (players st side)) \<le> 2" "length (p_steads (players st side)) \<le> 2"
  proof -
    have "length (p_roads (players st side)) \<le> count_list (take (setupIdx st) (setupSlots st)) side"
      "length (p_steads (players st side)) \<le> count_list (take (setupIdx st) (setupSlots st)) side"
      using inv_parts(4) [OF i] ph s by (auto simp: setup_ok_def)
    moreover have "count_list (take (setupIdx st) (setupSlots st)) side \<le> 2"
      using count_take_le [of "setupIdx st" "setupSlots st" side] count_setupSlots [of st side] inv_parts(7) [OF i]
      by (simp add: turn_ok_def)
    ultimately show "length (p_roads (players st side)) \<le> 2" "length (p_steads (players st side)) \<le> 2" by simp_all
  qed
  then have room: "length (p_steads (players st side)) < SUPPLY_stead"
    "length (p_roads (players (add_stead side a st) side)) < SUPPLY_road"
    by (simp_all add: SUPPLY_stead_def SUPPLY_road_def add_stead_def Let_def hx_proj)
  have "edgeFree (add_stead side a st) b" "h_cap (add_stead side a st) = h_cap st"
    using e(2) by (simp_all add: edgeFree_def add_stead_def Let_def hx_proj seats_def)
  then show ?thesis
    using board_add_road [OF board_add_stead [OF inv_parts(2) [OF i] s v room(1)] s(1) _ e(1) _ room(2)] s by simp
qed

lemma setup_advance_simps:
  "h_cap (setup_advance st) = h_cap st" "bank (setup_advance st) = bank st" "offers (setup_advance st) = offers st"
  "p_res (players (setup_advance st) s) = p_res (players st s)" "owe (players (setup_advance st) s) = owe (players st s)"
  "p_roads (players (setup_advance st) s) = p_roads (players st s)"
  "p_steads (players (setup_advance st) s) = p_steads (players st s)"
  "p_keeps (players (setup_advance st) s) = p_keeps (players st s)"
  "devKnown (players (setup_advance st) s) = devKnown (players st s)"
  "devDrawn (players (setup_advance st) s) = devDrawn (players st s)"
  "devBought (setup_advance st) = devBought st" "first (setup_advance st) = first st"
  "h_layout (setup_advance st) = h_layout st" "setupIdx (setup_advance st) = setupIdx st + 1"
  by (simp_all add: setup_advance_def Let_def)

lemma setup_advance_phase:
  "phase (setup_advance st) = (if setupIdx st + 1 = length (setupSlots st) then PPreroll else phase st)"
  "setupIdx st + 1 = length (setupSlots st) \<Longrightarrow> turnSeat (setup_advance st) = first st"
  using setupSlots_eq [of "st\<lparr>setupIdx := setupIdx st + 1\<rparr>" st] by (simp_all add: setup_advance_def Let_def)

lemma inv_setup_advance:
  assumes i: "hx_inv st" and ph: "phase st = PSetup" and s: "1 \<le> side" "side \<le> h_cap st"
    and slot: "side = setupSlots st ! setupIdx st"
    and fr: "frame st2 = frame (add_road side b (add_stead side a st))" and g: "goods st2"
    and b: "board (add_road side b (add_stead side a st))"
  shows "hx_inv (setup_advance st2)"
proof -
  let ?st1 = "add_road side b (add_stead side a st)"
  let ?a = "setup_advance st2"
  note f = frame_proj [OF fr]
  have st1: "h_cap ?st1 = h_cap st" "offers ?st1 = offers st" "first ?st1 = first st" "h_layout ?st1 = h_layout st"
    "phase ?st1 = PSetup" "setupIdx ?st1 = setupIdx st" "devBought ?st1 = devBought st"
    "devKnown (players ?st1 x) = devKnown (players st x)" "devDrawn (players ?st1 x) = devDrawn (players st x)"
    "owe (players ?st1 x) = owe (players st x)" for x
    using ph by (simp_all add: add_road_def add_stead_def Let_def hx_proj)
  note f = f [unfolded st1]
  have slots: "setupSlots st2 = setupSlots st" "setupSlots ?a = setupSlots st"
    using f by (intro setupSlots_eq; simp add: setup_advance_simps)+
  have idx: "setupIdx st < length (setupSlots st)" using inv_parts(4) [OF i] ph by (simp add: setup_ok_def)
  let ?n = "\<lambda>x. count_list (take (setupIdx st) (setupSlots st)) x"
  have cnt: "count_list (take (setupIdx st + 1) (setupSlots st)) x = ?n x + (if x = side then 1 else 0)" for x
    using idx slot by (simp add: take_Suc_conv_app_nth add.commute [of _ 1] One_nat_def)
  have lens: "length (p_roads (players ?a x)) \<le> ?n x + (if x = side then 1 else 0)"
    "length (p_steads (players ?a x)) \<le> ?n x + (if x = side then 1 else 0)" if "x \<in> {1..h_cap st}" for x
  proof -
    have "length (p_roads (players st x)) \<le> ?n x" "length (p_steads (players st x)) \<le> ?n x"
      using inv_parts(4) [OF i] ph that by (auto simp: setup_ok_def)
    then show "length (p_roads (players ?a x)) \<le> ?n x + (if x = side then 1 else 0)"
      "length (p_steads (players ?a x)) \<le> ?n x + (if x = side then 1 else 0)"
      using length_set_add [of b "p_roads (players st x)"] length_set_add [of a "p_steads (players st x)"]
      unfolding setup_advance_simps f by (auto simp: add_road_def add_stead_def Let_def hx_proj)
  qed
  have "setup_ok ?a"
    unfolding setup_ok_def
  proof (intro impI conjI ballI)
    assume "phase ?a = PSetup"
    then have "setupIdx st + 1 \<noteq> length (setupSlots st)"
      using f by (auto simp: setup_advance_phase slots split: if_splits)
    then show "setupIdx ?a < length (setupSlots ?a)" using idx f by (simp add: setup_advance_simps slots)
    fix x assume "x \<in> {1..h_cap ?a}"
    then have "x \<in> {1..h_cap st}" using f by (simp add: setup_advance_simps)
    from lens [OF this]
    show "length (p_roads (players ?a x)) \<le> count_list (take (setupIdx ?a) (setupSlots ?a)) x"
      "length (p_steads (players ?a x)) \<le> count_list (take (setupIdx ?a) (setupSlots ?a)) x"
      using f by (simp_all add: setup_advance_simps(14) slots cnt)
  qed
  moreover have "board ?a"
    using b board_frame [of ?a ?st1] frame_proj(1-4) [OF fr] by (simp add: setup_advance_simps)
  moreover have "goods ?a" using g by (simp add: setup_advance_simps)
  moreover have "offers_ok ?a"
    using inv_parts(3) [OF i] ph f by (simp add: offers_ok_def setup_advance_simps)
  moreover have "phase ?a \<noteq> PDiscard" using f by (simp add: setup_advance_phase)
  then have "debts_ok ?a"
    using inv_parts(5) [OF i] ph f by (simp add: debts_ok_def setup_advance_simps)
  moreover have "scrolls_ok ?a" using inv_parts(6) [OF i] f by (simp add: scrolls_ok_def setup_advance_simps)
  moreover have "turn_ok ?a"
    using inv_parts(7) [OF i] f
    by (cases "setupIdx st + 1 = length (setupSlots st)")
      (simp_all add: turn_ok_def setup_advance_simps setup_advance_phase slots)
  ultimately show ?thesis using inv_parts(8) [OF i] f by (simp add: hx_inv_def setup_advance_simps)
qed

lemma inv_hx_setup:
  assumes i: "hx_inv st" and ph: "phase st = PSetup" and s: "1 \<le> side" "side \<le> h_cap st"
  shows "hx_inv (hx_setup side (opc, a, b) st)"
proof -
  define st1 where "st1 = add_road side b (add_stead side a st)"
  define st2 where "st2 = (if setupIdx st1 \<ge> h_cap st1
        then add_log side (Found (vertexLabel st1 a) (Some (found_gain st1 a))) (found_pay side a st1)
        else add_log side (Found (vertexLabel st1 a) None) st1)"
  have st1: "bank st1 = bank st" "h_cap st1 = h_cap st" "h_layout st1 = h_layout st"
    "p_res (players st1 x) = p_res (players st x)" for x
    by (simp_all add: st1_def add_road_def add_stead_def Let_def hx_proj)
  have g1: "goods st1" using inv_parts(1) [OF i] unfolding st1 .
  have "goods (found_pay side a st1)"
  proof (rule goods_found_pay [OF g1])
    fix h assume "h \<in> set (vert_hexes a)"
    then show "tiles (h_layout st1) ! h < 5"
      using inv_parts(8) [OF i] by (simp add: lay_ok_def vert_hexes_def st1)
  qed (use s st1 in auto)
  then have g2: "goods st2" using g1 by (simp add: st2_def hx_proj)
  have fr: "frame st2 = frame st1" by (simp add: st2_def frame_simps)
  have main: "hx_inv (refreshBadges False (setup_advance st2))"
    if "side = setupSlots st ! setupIdx st" "a < NVERT" "vertexFree st a" "b < NEDGE" "edgeFree st b"
    using that fr g2 setup_board [OF i ph s that(2-5)] unfolding st1_def
    by (intro inv_refresh inv_setup_advance [OF i ph s])
  show ?thesis
    unfolding hx_setup_def Let_def prod.case st1_def [symmetric] st2_def [symmetric]
    using i main by auto
qed

section \<open>The step and the loop\<close>

lemma inv_dispatch:
  assumes "hx_inv st" "1 \<le> side" "side \<le> h_cap st" "phase st \<noteq> PSetup" "phase st \<noteq> PDiscard"
  shows "hx_inv (hx_dispatch H i side q mv st)"
  unfolding hx_dispatch_def
  using assms
  by (cases mv) (simp add: inv_hx_roll inv_hx_robber inv_hx_warden inv_hx_path inv_hx_bounty inv_hx_levy inv_hx_road
     inv_hx_stead inv_hx_keep inv_hx_buy inv_hx_bank inv_hx_offer inv_hx_accept inv_hx_rescind inv_hx_end inv_hx_win)

lemma inv_hx_step:
  assumes "hx_inv st" "1 \<le> side" "side \<le> h_cap st"
  shows "hx_inv (hx_step H i e side q st)"
proof -
  have i: "hx_inv (st\<lparr>mi := i + 1\<rparr>)" using assms(1) by simp
  then show ?thesis
    using assms(2,3) inv_dispatch [OF i] unfolding hx_step_def Let_def
    by (cases "hx_dec e") (simp add: inv_hx_setup inv_hx_discard)
qed

end
