(* ===== verification/HexTable.thy ===== *)
theory HexTable
  imports HexRules
begin

text \<open>
  Hexholm tables as a referee: what a step keeps besides the invariant (number of seats, the
  numbering of the offers), the interpretation of \<^theory_text>\<open>referee\<close>, the starting table and the
  acceptance of generated moves.
\<close>

section \<open>Seats and offers over a step\<close>

text \<open>One case per handler.\<close>

lemma dispatch_cases:
  assumes "P (hx_roll H side q st)" "P (hx_robber H side q a b st)" "P (hx_warden H side q a b st)"
    "P (hx_path side a b st)" "P (hx_bounty side a b st)" "P (hx_levy side a st)" "P (hx_road side a st)"
    "P (hx_stead side a st)" "P (hx_keep side a st)" "P (hx_buy H side q st)" "P (hx_bank side a b st)"
    "P (hx_offer_op i side a b st)" "P (hx_accept side a st)" "P (hx_rescind side a st)" "P (hx_end side st)"
    "P (hx_win side st)" "\<And>w. P (bad w side st)"
  shows "P (hx_dispatch H i side q (opc, a, b) st)"
  using assms by (simp add: hx_dispatch_def)

lemma path_roads_keeps: "h_cap (path_roads s es st) = h_cap st \<and> offers (path_roads s es st) = offers st"
  by (induction es arbitrary: st) (simp_all add: hx_proj add_road_def Let_def)

lemma steal_snd:
  "stealFrom H t v q st = (g, st2) \<Longrightarrow> h_cap st2 = h_cap st \<and> offers st2 = offers st \<and> corrupt st2 = corrupt st"
  using frame_proj(1,10,13) [OF steal_frame [of H t v q st g st2]] by simp

lemmas hx_handlers = hx_setup_def hx_discard_def hx_roll_def hx_robber_def hx_warden_def hx_path_def hx_bounty_def
  hx_levy_def hx_road_def hx_stead_def hx_keep_def hx_buy_def hx_bank_def hx_offer_op_def hx_accept_def
  hx_rescind_def hx_end_def hx_win_def

lemma startTurn_simps [hx_proj]:
  "h_cap (startTurn st) = h_cap st" "offers (startTurn st) = []" "corrupt (startTurn st) = corrupt st"
  by (simp_all add: startTurn_def endOffers_def Let_def)

lemma setup_advance_corrupt [hx_proj]: "corrupt (setup_advance st) = corrupt st"
  by (simp add: setup_advance_def Let_def)

lemma set_owe_corrupt [hx_proj]: "corrupt (set_owe st) = corrupt st"
  by (simp add: set_owe_def)

lemma pieces_simps [hx_proj]:
  "h_cap (add_road s e st) = h_cap st" "offers (add_road s e st) = offers st" "corrupt (add_road s e st) = corrupt st"
  "h_cap (add_stead s e st) = h_cap st" "offers (add_stead s e st) = offers st" "corrupt (add_stead s e st) = corrupt st"
  "h_cap (raise_keep s e st) = h_cap st" "offers (raise_keep s e st) = offers st" "corrupt (raise_keep s e st) = corrupt st"
  by (simp_all add: add_road_def add_stead_def raise_keep_def Let_def hx_proj)

lemma handlers_cap:
  "h_cap (hx_setup side mv st) = h_cap st" "h_cap (hx_discard side mv st) = h_cap st" "h_cap (hx_roll H side q st) = h_cap st"
  "h_cap (hx_path side a b st) = h_cap st"
  "h_cap (hx_bounty side a b st) = h_cap st" "h_cap (hx_levy side a st) = h_cap st" "h_cap (hx_road side a st) = h_cap st"
  "h_cap (hx_stead side a st) = h_cap st" "h_cap (hx_keep side a st) = h_cap st" "h_cap (hx_buy H side q st) = h_cap st"
  "h_cap (hx_bank side a b st) = h_cap st" "h_cap (hx_offer_op i side a b st) = h_cap st"
  "h_cap (hx_accept side a st) = h_cap st" "h_cap (hx_rescind side a st) = h_cap st" "h_cap (hx_end side st) = h_cap st"
  "h_cap (hx_win side st) = h_cap st"
  by (simp_all add: hx_handlers Let_def hx_proj setup_advance_simps set_owe_other path_roads_keeps
      split: prod.split option.split)

lemma robber_cap: "h_cap (hx_robber H side q a b st) = h_cap st" "h_cap (hx_warden H side q a b st) = h_cap st"
proof -
  obtain g st2 where s: "stealFrom H side b q (st\<lparr>robber := a\<rparr>) = (g, st2)" by fastforce
  have "h_cap st2 = h_cap st" using steal_snd [OF s] by simp
  then show "h_cap (hx_robber H side q a b st) = h_cap st" "h_cap (hx_warden H side q a b st) = h_cap st"
    using s by (cases "side = turnSeat st"; simp add: hx_robber_def hx_warden_def Let_def hx_proj split: option.split)+
qed

lemma step_cap: "h_cap (hx_step H i e side q st) = h_cap st"
  by (simp add: hx_step_def hx_dispatch_def Let_def handlers_cap robber_cap hx_proj split: prod.split)

text \<open>Over a step the offers stay, are cleared, lose one or gain one with the number of the record.\<close>

definition numbered :: "nat \<Rightarrow> hx \<Rightarrow> bool" where
  "numbered i st \<longleftrightarrow> distinct (map o_at (offers st)) \<and> (\<forall>f \<in> set (offers st). o_at f < i)"

lemma numbered_less: "numbered i st \<Longrightarrow> offers st' = offers st \<Longrightarrow> numbered (i + 1) st'"
  by (auto simp: numbered_def)

lemma numbered_nil: "offers st' = [] \<Longrightarrow> numbered i st'"
  by (simp add: numbered_def)

lemma numbered_remove: "numbered i st \<Longrightarrow> offers st' = remove1 f (offers st) \<Longrightarrow> numbered (i + 1) st'"
  by (auto simp: numbered_def distinct_map dest: notin_set_remove1 intro: inj_on_subset set_remove1_subset)

lemma handlers_offers:
  "offers (hx_setup side mv st) = offers st" "offers (hx_discard side mv st) = offers st" "offers (hx_roll H side q st) = offers st"
  "offers (hx_path side a b st) = offers st"
  "offers (hx_bounty side a b st) = offers st" "offers (hx_levy side a st) = offers st" "offers (hx_road side a st) = offers st"
  "offers (hx_stead side a st) = offers st" "offers (hx_keep side a st) = offers st" "offers (hx_buy H side q st) = offers st"
  "offers (hx_bank side a b st) = offers st" "offers (hx_win side st) = offers st"
  by (simp_all add: hx_handlers Let_def hx_proj setup_advance_simps set_owe_other path_roads_keeps
      split: prod.split option.split)

lemma robber_offers: "offers (hx_robber H side q a b st) = offers st" "offers (hx_warden H side q a b st) = offers st"
proof -
  obtain g st2 where s: "stealFrom H side b q (st\<lparr>robber := a\<rparr>) = (g, st2)" by fastforce
  have "offers st2 = offers st" using steal_snd [OF s] by simp
  then show "offers (hx_robber H side q a b st) = offers st" "offers (hx_warden H side q a b st) = offers st"
    using s by (cases "side = turnSeat st"; simp add: hx_robber_def hx_warden_def Let_def hx_proj split: option.split)+
qed

lemma numbered_offer:
  assumes "numbered i st"
  shows "numbered (i + 1) (hx_offer_op i side a b st)"
proof -
  have "offers (hx_offer_op i side a b st) = offers st \<or>
        (\<exists>f. o_at f = i \<and> offers (hx_offer_op i side a b st) = offers st @ [f])"
    by (simp add: hx_offer_op_def Let_def hx_proj)
  then show ?thesis
  proof
    assume "offers (hx_offer_op i side a b st) = offers st"
    then show ?thesis by (rule numbered_less [OF assms])
  next
    assume "\<exists>f. o_at f = i \<and> offers (hx_offer_op i side a b st) = offers st @ [f]"
    then obtain f where "o_at f = i" "offers (hx_offer_op i side a b st) = offers st @ [f]" by blast
    moreover have "i \<notin> o_at ` set (offers st)" using assms by (force simp: numbered_def)
    moreover have "\<forall>f \<in> set (offers st). o_at f < i + 1" using assms by (auto simp: numbered_def)
    ultimately show ?thesis using assms by (simp add: numbered_def)
  qed
qed

lemma numbered_step:
  assumes n: "numbered i st"
  shows "numbered (i + 1) (hx_step H i e side q st)"
proof -
  let ?st = "st\<lparr>mi := i + 1\<rparr>"
  have m: "numbered i ?st" using n by (simp add: numbered_def)
  have acc: "numbered (i + 1) (hx_accept side a ?st)" "numbered (i + 1) (hx_rescind side a ?st)"
    "numbered (i + 1) (hx_end side ?st)" for a
    unfolding hx_accept_def hx_rescind_def hx_end_def Let_def
    using numbered_less [OF m] numbered_nil numbered_remove [OF m]
    by (simp_all add: hx_proj split: option.split)
  have "numbered (i + 1) (hx_dispatch H i side q (opc, a, b) ?st)" for opc a b
    by (rule dispatch_cases; (rule acc numbered_offer [OF m])?; rule numbered_less [OF m];
        simp add: handlers_offers robber_offers hx_proj)
  moreover have "numbered (i + 1) (hx_setup side mv ?st)" "numbered (i + 1) (hx_discard side mv ?st)" for mv
    by (rule numbered_less [OF m], simp add: handlers_offers)+
  ultimately show ?thesis
    unfolding hx_step_def Let_def by (cases "hx_dec e") simp
qed

section \<open>Interpretation\<close>

definition hx_halted :: "hx \<Rightarrow> bool" where
  "hx_halted st \<longleftrightarrow> corrupt st \<noteq> 0 \<or> over st"

definition hx_move :: "(nat \<Rightarrow> nat) \<Rightarrow> nat \<Rightarrow> hx_rec \<Rightarrow> hx \<Rightarrow> hx option" where
  "hx_move H i r st = (case r of (e, side, q) \<Rightarrow> map_option (\<lambda>s. hx_step H i e side s st) q)"

lemma hx_loop_run:
  "hx_loop H i recs st =
     (case run_log (hx_move H) hx_halted i recs st of (s, None) \<Rightarrow> s | (s, Some k) \<Rightarrow> s\<lparr>blocked := True\<rparr>)"
proof (induction H i recs st rule: hx_loop.induct)
  case (2 H i e side q recs st)
  then show ?case by (cases q) (auto simp: hx_halted_def hx_move_def)
qed simp

definition table_ok :: "nat \<Rightarrow> nat \<Rightarrow> hx \<Rightarrow> bool" where
  "table_ok cap i st \<longleftrightarrow> hx_inv st \<and> h_cap st = cap \<and> numbered i st"

definition seated :: "nat \<Rightarrow> hx_rec \<Rightarrow> bool" where
  "seated cap r \<longleftrightarrow> (case r of (e, side, q) \<Rightarrow> 1 \<le> side \<and> side \<le> cap)"

interpretation hxr: referee "hx_move H" hx_halted "seated cap" "table_ok cap" for H cap
proof
  fix i st r st'
  assume "table_ok cap i st" "seated cap r" "hx_move H i r st = Some st'"
  then show "table_ok cap (i + 1) st'"
    by (auto simp: table_ok_def hx_move_def seated_def step_cap inv_hx_step numbered_step split: prod.splits)
qed

section \<open>The starting table\<close>

lemma shuffled_mset: "mset (shuffled H arr q salt) = mset arr"
  unfolding shuffled_def by (rule mset_fisher_yates) (simp add: derN_def)

lemma layout_loop_Some:
  assumes "layout_loop H q cap n = Some lay"
  shows "\<exists>m \<ge> n. (\<forall>k. n \<le> k \<and> k < m \<longrightarrow> \<not> spaced (snd (deal H q k))) \<and> spaced (snd (deal H q m)) \<and>
           lay = \<lparr>tiles = fst (deal H q m), tokens = snd (deal H q m), ports = shuffled H PORT_BAG q 13,
                  l_first = derN H q 14 cap + 1, waste = index_of (-1) (fst (deal H q m))\<rparr>"
proof (rule layout_loop.raw_induct [where P = "\<lambda>H q cap n lay. \<exists>m \<ge> n. (\<forall>k. n \<le> k \<and> k < m \<longrightarrow> \<not> spaced (snd (deal H q k))) \<and>
    spaced (snd (deal H q m)) \<and>
           lay = \<lparr>tiles = fst (deal H q m), tokens = snd (deal H q m), ports = shuffled H PORT_BAG q 13,
                  l_first = derN H q 14 cap + 1, waste = index_of (-1) (fst (deal H q m))\<rparr>", OF _ assms], goal_cases)
  case (1 layout_loop H q cap n lay)
  show ?case
  proof (cases "spaced (snd (deal H q n))")
    case True
    then show ?thesis using 1(2) by (intro exI [of _ n]) (auto simp: case_prod_unfold)
  next
    case False
    then have "layout_loop H q cap (n + 1) = Some lay" using 1(2) by (simp add: case_prod_unfold)
    from 1(1) [OF this] obtain m where m: "n + 1 \<le> m" "\<forall>k. n + 1 \<le> k \<and> k < m \<longrightarrow> \<not> spaced (snd (deal H q k))"
      "spaced (snd (deal H q m))"
      "lay = \<lparr>tiles = fst (deal H q m), tokens = snd (deal H q m), ports = shuffled H PORT_BAG q 13,
              l_first = derN H q 14 cap + 1, waste = index_of (-1) (fst (deal H q m))\<rparr>" by blast
    have "\<not> spaced (snd (deal H q k))" if "n \<le> k" "k < m" for k
      using that False m(2) by (cases "k = n") auto
    with m show ?thesis by (intro exI [of _ m]) auto
  qed
qed

lemma layout_loop_finds:
  "spaced (snd (deal H q (n + d))) \<Longrightarrow> \<exists>lay. layout_loop H q cap n = Some lay"
proof (induction d arbitrary: n)
  case 0
  then show ?case by (subst layout_loop.simps) (simp add: case_prod_unfold)
next
  case (Suc d)
  then have "spaced (snd (deal H q (n + 1 + d)))" by (simp add: One_nat_def)
  then have "\<exists>lay. layout_loop H q cap (n + 1) = Some lay" by (rule Suc.IH)
  then show ?case by (subst layout_loop.simps) (simp add: case_prod_unfold)
qed

section \<open>Codecs\<close>

lemma hx_dec_enc: "opc < 64 \<Longrightarrow> a < A_LIM \<Longrightarrow> hx_dec (hx_enc opc a b) = (opc, a, b)"
proof -
  assume o: "opc < 64" and a: "a < A_LIM"
  have e: "hx_enc opc a b = opc + 64 * (a + A_LIM * b)" by (simp add: hx_enc_def algebra_simps)
  have "(opc + 64 * x) mod 64 = opc" "(opc + 64 * x) div 64 = x" for x
    using o by simp_all
  moreover have "(a + A_LIM * b) mod A_LIM = a" "(a + A_LIM * b) div A_LIM = b" using a by simp_all
  ultimately show ?thesis unfolding hx_dec_def e by (simp only: div_mult2_eq)
qed

lemma base_digits:
  fixes b :: nat
  assumes "c0 < b" "c1 < b" "c2 < b" "c3 < b" "c4 < b"
  shows "c0 + b * (c1 + b * (c2 + b * (c3 + b * c4))) = n \<Longrightarrow>
    n mod b = c0 \<and> n div b mod b = c1 \<and> n div b ^ 2 mod b = c2 \<and> n div b ^ 3 mod b = c3 \<and> n div b ^ 4 mod b = c4"
proof -
  assume n: "c0 + b * (c1 + b * (c2 + b * (c3 + b * c4))) = n"
  have pos: "b \<noteq> 0" using assms(1) by simp
  have d1: "n div b = c1 + b * (c2 + b * (c3 + b * c4))" "n mod b = c0" using n [symmetric] assms pos by simp_all
  have d2: "n div b div b = c2 + b * (c3 + b * c4)" "n div b mod b = c1" using d1 assms pos by simp_all
  have d3: "n div b div b div b = c3 + b * c4" "n div b div b mod b = c2" using d2 assms pos by simp_all
  have d4: "n div b div b div b div b = c4" "n div b div b div b mod b = c3" using d3 assms pos by simp_all
  have "b ^ 2 = b * b" "b ^ 3 = b * b * b" "b ^ 4 = b * b * b * b" by (simp_all add: power_numeral_even power_numeral_odd Let_def mult.assoc)
  then show ?thesis using d1 d2 d3 d4 assms by (simp add: div_mult2_eq)
qed

lemma upt5: "[0..<5] = [0, 1, 2, 3, 4 :: nat]"
  by (simp add: upt_rec)

lemma hx_unpack_pack:
  assumes "length c = 5" "\<And>r. r < 5 \<Longrightarrow> c ! r < b"
  shows "unpack_base b (pack_base b c) = c"
proof -
  obtain c0 c1 c2 c3 c4 where c: "c = [c0, c1, c2, c3, c4]"
    using assms(1) by (auto simp: numeral_eq_Suc length_Suc_conv)
  have lt: "c0 < b" "c1 < b" "c2 < b" "c3 < b" "c4 < b"
    using assms(2) [of 0] assms(2) [of 1] assms(2) [of 2] assms(2) [of 3] assms(2) [of 4] by (simp_all add: c)
  then have m: "min (b - 1) x = x" if "x \<in> {c0, c1, c2, c3, c4}" for x using that by auto
  have "pack_base b c = c0 + b * (c1 + b * (c2 + b * (c3 + b * c4)))"
    unfolding pack_base_def c using m
    by (simp add: upt5 numeral_eq_Suc [of "num.Bit1 num.One"] One_nat_def algebra_simps power2_eq_square power3_eq_cube
        power4_eq_xxxx)
  from base_digits [OF lt this [symmetric]] show ?thesis
    by (simp add: unpack_base_def c upt5)
qed

section \<open>The canonical discard\<close>

lemma sum_list_upd: "r < length xs \<Longrightarrow> sum_list (xs[r := x]) = sum_list xs - xs ! r + (x :: int)"
  by (induction xs arbitrary: r) (auto split: nat.split)

lemma greedy_ok:
  assumes "distinct rs" "\<forall>r \<in> set rs. r < length cnt \<and> 0 \<le> res ! r" "0 \<le> left" "left \<le> sum_list (map (\<lambda>r. res ! r) rs)"
    and "rs \<noteq> [] \<or> left = 0"
  shows "length (greedy res rs left cnt) = length cnt \<and> sum_list (greedy res rs left cnt) = sum_list cnt + left \<and>
    (\<forall>r < length cnt. cnt ! r \<le> greedy res rs left cnt ! r \<and>
       greedy res rs left cnt ! r \<le> cnt ! r + (if r \<in> set rs then res ! r else 0))"
  using assms
proof (induction res rs left cnt rule: greedy.induct)
  case (2 res r rs left cnt)
  let ?k = "min left (res ! r)" let ?c = "cnt[r := cnt ! r + min left (res ! r)]"
  have r: "r < length cnt" "0 \<le> res ! r" "r \<notin> set rs" using "2.prems" by auto
  have sum: "sum_list ?c = sum_list cnt + ?k" using r(1) by (simp add: sum_list_upd)
  show ?case
  proof (cases "left - ?k = 0")
    case True
    have "0 \<le> res ! x" if "x \<in> set rs" for x using "2.prems"(2) that by simp
    then show ?thesis using True r sum "2.prems"(3) by (auto simp: nth_list_update Let_def)
  next
    case False
    then have k: "?k = res ! r" "res ! r < left" by (auto simp: min_def split: if_splits)
    have ne: "rs \<noteq> []" using "2.prems"(4) k by auto
    have "length (greedy res rs (left - ?k) ?c) = length ?c \<and>
      sum_list (greedy res rs (left - ?k) ?c) = sum_list ?c + (left - ?k) \<and>
      (\<forall>x < length ?c. ?c ! x \<le> greedy res rs (left - ?k) ?c ! x \<and>
         greedy res rs (left - ?k) ?c ! x \<le> ?c ! x + (if x \<in> set rs then res ! x else 0))"
      by (rule "2.IH" [OF refl False]) (use "2.prems" ne k in auto)
    then have ih: "length (greedy res rs (left - ?k) ?c) = length cnt"
      "sum_list (greedy res rs (left - ?k) ?c) = sum_list cnt + left"
      "\<And>x. x < length cnt \<Longrightarrow> ?c ! x \<le> greedy res rs (left - ?k) ?c ! x \<and>
         greedy res rs (left - ?k) ?c ! x \<le> ?c ! x + (if x \<in> set rs then res ! x else 0)"
      using sum by simp_all
    have step: "cnt ! x \<le> ?c ! x \<and> ?c ! x + (if x \<in> set rs then res ! x else 0) \<le> cnt ! x + (if x \<in> set (r # rs) then res ! x else 0)"
      if "x < length cnt" for x
      using that r k by (cases "x = r") (auto simp: nth_list_update)
    have eq: "greedy res (r # rs) left cnt = greedy res rs (left - ?k) ?c" using k by (simp add: Let_def)
    show ?thesis
      unfolding eq
    proof (intro conjI allI impI)
      fix x assume x: "x < length cnt"
      show "cnt ! x \<le> greedy res rs (left - ?k) ?c ! x" using ih(3) [OF x] step [OF x] by linarith
      show "greedy res rs (left - ?k) ?c ! x \<le> cnt ! x + (if x \<in> set (r # rs) then res ! x else 0)"
        using ih(3) [OF x] step [OF x] by linarith
    qed (use ih in simp_all)
  qed
qed simp

lemma greedy_discard_ok:
  assumes len: "length (p_res p) = 5" and nn: "\<And>r. r < 5 \<Longrightarrow> 0 \<le> p_res p ! r"
    and owe: "0 \<le> owe p" "owe p \<le> total (p_res p)"
  shows "length (greedy_discard p) = 5" "total (greedy_discard p) = owe p"
    "r < 5 \<Longrightarrow> 0 \<le> greedy_discard p ! r \<and> greedy_discard p ! r \<le> p_res p ! r"
proof -
  let ?rs = "sort_key (\<lambda>r. - (p_res p ! r)) [0..<5]"
  have set: "set ?rs = {0..<5}" by simp
  have "sum_list (map (\<lambda>r. p_res p ! r) ?rs) = (\<Sum>r \<in> {0..<5}. p_res p ! r)"
    by (subst sum_list_distinct_conv_sum_set) simp_all
  also have "\<dots> = total (p_res p)" unfolding total_def sum_list_sum_nth len ..
  finally have s: "sum_list (map (\<lambda>r. p_res p ! r) ?rs) = total (p_res p)" .
  have ne: "?rs \<noteq> []" using set by fastforce
  have *: "length (greedy (p_res p) ?rs (owe p) [0, 0, 0, 0, 0]) = length [0, 0, 0, 0, 0 :: int] \<and>
    sum_list (greedy (p_res p) ?rs (owe p) [0, 0, 0, 0, 0]) = sum_list [0, 0, 0, 0, 0] + owe p \<and>
    (\<forall>r < length [0, 0, 0, 0, 0 :: int]. [0, 0, 0, 0, 0] ! r \<le> greedy (p_res p) ?rs (owe p) [0, 0, 0, 0, 0] ! r \<and>
       greedy (p_res p) ?rs (owe p) [0, 0, 0, 0, 0] ! r \<le> [0, 0, 0, 0, 0] ! r + (if r \<in> set ?rs then p_res p ! r else 0))"
    by (rule greedy_ok) (use nn owe s ne set in auto)
  have z: "r < 5 \<Longrightarrow> [0, 0, 0, 0, 0 :: int] ! r = 0" for r by (auto simp: less5)
  show "length (greedy_discard p) = 5" "total (greedy_discard p) = owe p"
    using * by (simp_all add: greedy_discard_def total_def)
  show "r < 5 \<Longrightarrow> 0 \<le> greedy_discard p ! r \<and> greedy_discard p ! r \<le> p_res p ! r"
  proof -
    assume r: "r < 5"
    then have "[0, 0, 0, 0, 0] ! r \<le> greedy (p_res p) ?rs (owe p) [0, 0, 0, 0, 0] ! r \<and>
       greedy (p_res p) ?rs (owe p) [0, 0, 0, 0, 0] ! r \<le> [0, 0, 0, 0, 0] ! r + (if r \<in> set ?rs then p_res p ! r else 0)"
      using * by simp
    moreover have "r \<in> set ?rs" using r set by simp
    ultimately show ?thesis unfolding greedy_discard_def z [OF r] by simp
  qed
qed

section \<open>Generated moves are accepted\<close>

lemma mi_simps:
  "vertexFree (st\<lparr>mi := n\<rparr>) = vertexFree st" "edgeFree (st\<lparr>mi := n\<rparr>) = edgeFree st"
  "setupSlots (st\<lparr>mi := n\<rparr>) = setupSlots st" "edgeTouchesOwn (st\<lparr>mi := n\<rparr>) = edgeTouchesOwn st"
  "steadSpotOk (st\<lparr>mi := n\<rparr>) = steadSpotOk st" "bankRate (st\<lparr>mi := n\<rparr>) = bankRate st"
  "totalVp (st\<lparr>mi := n\<rparr>) = totalVp st" "victims (st\<lparr>mi := n\<rparr>) = victims st" "victims (st\<lparr>robber := h\<rparr>) = victims st"
  by (simp_all add: fun_eq_iff vertexFree_def edgeFree_def setupSlots_def seatOrder_def edgeTouchesOwn_def
      steadSpotOk_def bankRate_def portsOf_def has_port_def totalVp_def chartersOf_def publicVp_def victims_def
      adjacentSeats_def vOwnedByOther_def owns_vertex_def seats_def Let_def cong: option.case_cong)

text \<open>In every phase after the setup and the discard a move with operation \<open>opc\<close> reaches its handler.\<close>

lemma step_dispatch:
  assumes "phase st \<noteq> PSetup" "phase st \<noteq> PDiscard" "opc < 64" "a < A_LIM"
  shows "hx_step H i (hx_enc opc a b) s q st = hx_dispatch H i s q (opc, a, b) (st\<lparr>mi := i + 1\<rparr>)"
  using assms by (simp add: hx_step_def hx_dec_enc Let_def)

lemma A_LIM_big: "x \<le> 100 \<Longrightarrow> x < A_LIM"
  by (simp add: A_LIM_def)

lemmas accept_simps = mi_simps hx_dispatch_def hx_ops hx_proj Let_def

lemma accept_setup:
  assumes ph: "phase st = PSetup" and slot: "setupSlots st ! setupIdx st = s" and e: "e \<in> set (setup_moves st)"
  shows "corrupt (hx_step H i e s q st) = corrupt st"
proof -
  from e obtain v ed where m: "e = hx_enc OP_SETUP v ed" "v < NVERT" "vertexFree st v" "ed < NEDGE"
    "edge_a ed = v \<or> edge_b ed = v" "edgeFree st ed"
    by (auto simp: setup_moves_def vert_edges_iff)
  have "v < A_LIM" using m(2) by (intro A_LIM_big) (simp add: NVERT_54)
  then have d: "hx_dec e = (OP_SETUP, v, ed)" by (simp add: m(1) hx_dec_enc OP_SETUP_def)
  show ?thesis using ph slot m(2-6) by (auto simp: hx_step_def d hx_setup_def mi_simps hx_proj Let_def)
qed

lemma accept_discard:
  assumes i: "hx_inv st" and ph: "phase st = PDiscard" and s: "1 \<le> s" "s \<le> h_cap st" and o: "owe (players st s) \<noteq> 0"
  shows "corrupt (hx_step H i (hx_enc OP_DISCARD 0 (pack5 (map nat (greedy_discard (players st s))))) s q st) = corrupt st"
proof -
  let ?p = "players st s" let ?g = "greedy_discard ?p"
  have len: "length (p_res ?p) = 5" using goods_len [OF inv_parts(1) [OF i], of s] s by simp
  have nn: "0 \<le> p_res ?p ! r" if "r < 5" for r using goods_nonneg [OF inv_parts(1) [OF i] that, of s] s by simp
  have le: "p_res ?p ! r \<le> 19" if "r < 5" for r
    using goods_hand_le [OF inv_parts(1) [OF i] that s] by (simp add: BANK_EACH_def)
  have ow: "0 \<le> owe ?p" "owe ?p \<le> total (p_res ?p)" using inv_parts(5) [OF i] ph s by (auto simp: debts_ok_def)
  have g: "length ?g = 5" "total ?g = owe ?p" "\<And>r. r < 5 \<Longrightarrow> 0 \<le> ?g ! r \<and> ?g ! r \<le> p_res ?p ! r"
    using greedy_discard_ok [OF len nn ow] by blast+
  have lt: "map nat ?g ! r < 32" if "r < 5" for r
  proof -
    have "?g ! r < 32" using g(3) [OF that] le [OF that] by linarith
    then show ?thesis using that g(1) by simp
  qed
  have "unpack5 (pack5 (map nat ?g)) = map nat ?g"
    unfolding unpack5_def pack5_def by (rule hx_unpack_pack) (use g(1) lt in simp_all)
  moreover have "map int (map nat ?g) = ?g"
    by (rule nth_equalityI) (use g(1,3) in simp_all)
  ultimately have u: "map int (unpack5 (pack5 (map nat ?g))) = ?g" by simp
  have "\<not> exceeds ?g (p_res ?p)" unfolding exceeds_def g(1) using g(3) by (meson not_less)
  then show ?thesis using ph o g(2)
    by (simp add: hx_step_def hx_dec_enc OP_DISCARD_def A_LIM_def hx_discard_def u hx_proj Let_def)
qed

lemma victims_mi: "v \<in> set (victims st s h) \<Longrightarrow> 1 \<le> v"
  using victims_in by blast

lemma accept_robber:
  assumes ph: "phase st = PRobber" and s: "s = turnSeat st" and e: "e \<in> set (robber_moves st s)"
  shows "corrupt (hx_step H i e s q st) = corrupt st"
proof -
  from e obtain h v where m: "e = hx_enc OP_ROBBER h v" "h < NHEX" "h \<noteq> robber st"
    "(victims st s h \<noteq> [] \<and> v \<in> set (victims st s h)) \<or> (victims st s h = [] \<and> v = 0)"
    by (auto simp: robber_moves_def split: if_splits)
  have h: "h < A_LIM" using m(2) by (intro A_LIM_big) (simp add: NHEX_19)
  let ?st = "st\<lparr>mi := i + 1\<rparr>"
  obtain g st2 where st: "stealFrom H s v q (?st\<lparr>robber := h\<rparr>) = (g, st2)" by fastforce
  have "corrupt st2 = corrupt st" using steal_snd [OF st] by simp
  moreover have "v = 0 \<Longrightarrow> victims st s h = []" using m(4) victims_mi [of v st s h] by auto
  ultimately show ?thesis
    using ph s m st unfolding m(1)
    by (subst step_dispatch) (auto simp: OP_ROBBER_def h accept_simps hx_robber_def)
qed

lemma accept_roll:
  assumes "phase st = PPreroll" "s = turnSeat st"
  shows "corrupt (hx_step H i (hx_enc OP_ROLL 0 0) s q st) = corrupt st"
  by (subst step_dispatch) (use assms in \<open>simp_all add: A_LIM_def accept_simps hx_roll_def\<close>)

lemma accept_build:
  assumes i: "hx_inv st" and ph: "phase st = PMain" and s: "s = turnSeat st" "1 \<le> s" "s \<le> h_cap st"
    and e: "e \<in> set (build_moves st s)"
  shows "corrupt (hx_step H i e s q st) = corrupt st"
proof -
  let ?p = "players st s"
  consider (road) d where "e = hx_enc OP_ROAD d 0" "length (p_roads ?p) < SUPPLY_road" "canPayCost (p_res ?p) COST_road"
      "d < NEDGE" "edgeFree st d" "edgeTouchesOwn st s d"
    | (stead) v where "e = hx_enc OP_STEAD v 0" "length (p_steads ?p) < SUPPLY_stead" "canPayCost (p_res ?p) COST_stead"
      "v < NVERT" "steadSpotOk st s v"
    | (keep) v where "e = hx_enc OP_KEEP v 0" "length (p_keeps ?p) < SUPPLY_keep" "canPayCost (p_res ?p) COST_keep"
      "v \<in> set (p_steads ?p)"
    | (buy) "e = hx_enc OP_BUY 0 0" "devBought st < DEV_CAP" "commits st s" "canPayCost (p_res ?p) COST_scroll"
    using e unfolding build_moves_def Let_def by (auto split: if_splits)
  then show ?thesis
  proof cases
    case road
    have d: "d < A_LIM" using road(4) by (intro A_LIM_big) (simp add: NEDGE_72)
    show ?thesis using ph s d road unfolding road(1)
      by (subst step_dispatch) (simp_all add: OP_ROAD_def accept_simps hx_road_def)
  next
    case stead
    have d: "v < A_LIM" using stead(4) by (intro A_LIM_big) (simp add: NVERT_54)
    show ?thesis using ph s d stead unfolding stead(1)
      by (subst step_dispatch) (simp_all add: OP_STEAD_def accept_simps hx_stead_def)
  next
    case keep
    have v: "v < NVERT" using inv_parts(2) [OF i] keep(4) s(2,3) unfolding board_def pieces_ok_def by auto
    then have d: "v < A_LIM" by (intro A_LIM_big) (simp add: NVERT_54)
    show ?thesis using ph s d v keep unfolding keep(1)
      by (subst step_dispatch) (simp_all add: OP_KEEP_def accept_simps hx_keep_def)
  next
    case buy
    show ?thesis using ph s buy unfolding buy(1)
      by (subst step_dispatch) (simp_all add: OP_BUY_def A_LIM_def accept_simps hx_buy_def)
  qed
qed

lemma bankRate_in: "bankRate st s g \<in> {2, 3, 4}"
  by (simp add: bankRate_def portsOf_def)

lemma accept_bank:
  assumes ph: "phase st = PMain" and s: "s = turnSeat st" and e: "e \<in> set (bank_moves st s)"
  shows "corrupt (hx_step H i e s q st) = corrupt st"
proof -
  from e obtain g t where m: "e = hx_enc OP_BANK (g * 8 + nat (bankRate st s g)) t" "g < 5" "t < 5" "t \<noteq> g"
    "bankRate st s g \<le> p_res (players st s) ! g" "0 < bank st ! t"
    by (auto simp: bank_moves_def Let_def split: if_splits)
  define r where "r = nat (bankRate st s g)"
  have r: "bankRate st s g = int r" "2 \<le> r" "r \<le> 4" using bankRate_in [of st s g] by (auto simp: r_def)
  have a: "(g * 8 + r) div 8 = g" "(g * 8 + r) mod 8 = r" using r by auto
  have d: "g * 8 + r < A_LIM" using r(3) m(2) by (intro A_LIM_big) simp
  show ?thesis using ph s d m(2-6) r unfolding m(1) r_def [symmetric]
    by (subst step_dispatch) (simp_all add: OP_BANK_def accept_simps hx_bank_def a)
qed

lemma accept_accept:
  assumes n: "numbered i st" and big: "i \<le> A_LIM" and ph: "phase st = PMain" and e: "e \<in> set (accept_moves st s)"
  shows "corrupt (hx_step H i e s q st) = corrupt st"
proof -
  from e obtain f where m: "e = hx_enc OP_ACCEPT (o_at f) 0" "f \<in> set (offers st)" "o_by f \<noteq> s"
    "o_by f = turnSeat st \<or> s = turnSeat st" "\<not> exceeds (o_get f) (hands st s)" "\<not> exceeds (o_give f) (hands st (o_by f))"
    by (auto simp: accept_moves_def)
  have d: "o_at f < A_LIM" using n m(2) big by (auto simp: numbered_def)
  obtain f' where f': "List.find (\<lambda>x. o_at x = o_at f) (offers st) = Some f'"
    using find_some [OF m(2), of "\<lambda>x. o_at x = o_at f"] by auto
  from find_Some_in [OF f'] have "f' \<in> set (offers st)" "o_at f' = o_at f" by auto
  then have "f' = f" using n m(2) unfolding numbered_def distinct_map by (meson inj_onD)
  then show ?thesis using ph d m(3-6) f' unfolding m(1)
    by (subst step_dispatch) (auto simp: OP_ACCEPT_def accept_simps hx_accept_def)
qed

lemma accept_legal:
  assumes i: "hx_inv st" "numbered i st" "i \<le> A_LIM" and s: "1 \<le> s" "s \<le> h_cap st" and e: "e \<in> set (hx_legalMoves st s)"
  shows "corrupt (hx_step H i e s q st) = 0"
proof -
  have c: "corrupt st = 0" using e by (simp add: hx_legalMoves_def split: if_splits)
  have "corrupt (hx_step H i e s q st) = corrupt st"
  proof (cases "phase st")
    case PSetup
    then show ?thesis using e by (intro accept_setup) (auto simp: hx_legalMoves_def split: if_splits)
  next
    case PDiscard
    then have "e = hx_enc OP_DISCARD 0 (pack5 (map nat (greedy_discard (players st s))))" "owe (players st s) \<noteq> 0"
      using e by (auto simp: hx_legalMoves_def split: if_splits)
    then show ?thesis using accept_discard [OF i(1) PDiscard s] by simp
  next
    case PRobber
    then show ?thesis using e by (intro accept_robber) (auto simp: hx_legalMoves_def split: if_splits)
  next
    case PPreroll
    then have "e = hx_enc OP_ROLL 0 0" "s = turnSeat st" using e by (auto simp: hx_legalMoves_def split: if_splits)
    then show ?thesis using accept_roll [OF PPreroll] by simp
  next
    case PMain
    then consider (acc) "e \<in> set (accept_moves st s)" | (fin) "e = hx_enc OP_END 0 0" "s = turnSeat st"
      | (build) "e \<in> set (build_moves st s)" "s = turnSeat st" | (bank) "e \<in> set (bank_moves st s)" "s = turnSeat st"
      | (win) "e \<in> set (win_moves st s)" "s = turnSeat st"
      using e by (auto simp: hx_legalMoves_def split: if_splits)
    then show ?thesis
    proof cases
      case acc
      then show ?thesis by (rule accept_accept [OF i(2,3) PMain])
    next
      case fin
      then show ?thesis using PMain
        by (simp add: step_dispatch OP_END_def A_LIM_def accept_simps hx_end_def)
    next
      case build
      then show ?thesis using accept_build [OF i(1) PMain _ s] by simp
    next
      case bank
      then show ?thesis using accept_bank [OF PMain] by simp
    next
      case win
      then obtain v where "totalVp st s = Some v" "v \<ge> WIN_VP" "e = hx_enc OP_WIN 0 0"
        by (cases "totalVp st s") (auto simp: win_moves_def split: if_splits)
      then show ?thesis using PMain win(2)
        by (simp add: step_dispatch OP_WIN_def A_LIM_def accept_simps hx_win_def)
    qed
  qed
  with c show ?thesis by simp
qed

section \<open>Moves of other seats are rejected\<close>

lemma bad_corrupt: "1 \<le> side \<Longrightarrow> corrupt (bad w side st) = side"
  by (simp add: bad_def)

text \<open>Before the dice and while the marauder must move, a seat that is not on turn has no move.\<close>

lemma reject_dispatch:
  assumes "phase st = PPreroll \<or> phase st = PRobber" "side \<noteq> turnSeat st" "offers st = []" "1 \<le> side"
  shows "corrupt (hx_dispatch H i side q (opc, a, b) st) = side"
proof -
  have "phase st \<noteq> PMain" using assms(1) by auto
  with assms(2-4) show ?thesis
    by (intro dispatch_cases [where P = "\<lambda>s. corrupt s = side"])
      (simp_all add: hx_roll_def hx_robber_def hx_warden_def hx_path_def hx_bounty_def hx_levy_def hx_road_def
        hx_stead_def hx_keep_def hx_buy_def hx_bank_def hx_offer_op_def hx_accept_def hx_rescind_def hx_end_def
        hx_win_def bad_corrupt)
qed

lemma reject_other:
  assumes i: "hx_inv st" and s: "1 \<le> side" "side \<le> h_cap st"
    and go: "corrupt st = 0" "\<not> over st" "\<not> blocked st" and out: "side \<notin> set (actorsNow st)"
  shows "corrupt (hx_step H i e side q st) = side"
proof -
  obtain opc a b where d: "hx_dec e = (opc, a, b)" by (cases "hx_dec e")
  show ?thesis
  proof (cases "phase st")
    case PSetup
    then have "side \<noteq> setupSlots st ! setupIdx st" using out go by (simp add: actorsNow_def)
    then show ?thesis using PSetup s by (simp add: hx_step_def d hx_setup_def bad_corrupt mi_simps Let_def)
  next
    case PDiscard
    then have "\<not> 0 < owe (players st side)" using out go s by (simp add: actorsNow_def)
    moreover have "0 \<le> owe (players st side)" using inv_parts(5) [OF i] s by (auto simp: debts_ok_def)
    ultimately have "owe (players st side) = 0" by simp
    then show ?thesis using PDiscard s by (simp add: hx_step_def d hx_discard_def bad_corrupt Let_def)
  next
    case PMain
    then show ?thesis using out go s by (simp add: actorsNow_def)
  next
    case PPreroll
    then have "side \<noteq> turnSeat st" "offers st = []"
      using out go inv_parts(3) [OF i] by (auto simp: actorsNow_def offers_ok_def)
    then show ?thesis using PPreroll s
      by (simp add: hx_step_def d Let_def) (rule reject_dispatch, simp_all)
  next
    case PRobber
    then have "side \<noteq> turnSeat st" "offers st = []"
      using out go inv_parts(3) [OF i] by (auto simp: actorsNow_def offers_ok_def)
    then show ?thesis using PRobber s
      by (simp add: hx_step_def d Let_def) (rule reject_dispatch, simp_all)
  qed
qed

end
