(* ===== verification/HexProperties.thy ===== *)
theory HexProperties
  imports HexTable
begin

text \<open>
  The properties of Hexholm, over whole replays: \<^theory_text>\<open>hx_replay\<close> and its loop from the starting
  table. The sample hash swaps two tokens of the bag and leaves everything else in place.
\<close>

section \<open>From the layout to the table\<close>

lemma length_bags: "length TILE_BAG = 19" "length TOKEN_BAG = 18"
  by (simp_all add: TILE_BAG_def TOKEN_BAG_def)

lemma layout_Some:
  "layout H k cap = Some lay \<longleftrightarrow>
     (\<exists>n. (\<forall>m < n. \<not> spaced (snd (deal H k m))) \<and> spaced (snd (deal H k n)) \<and>
        lay = \<lparr>tiles = fst (deal H k n), tokens = snd (deal H k n), ports = shuffled H PORT_BAG k 13,
               l_first = derN H k 14 cap + 1, waste = index_of (-1) (fst (deal H k n))\<rparr>)"
  (is "_ \<longleftrightarrow> (\<exists>n. ?first n \<and> spaced (snd (deal H k n)) \<and> lay = ?lay n)")
proof
  assume "layout H k cap = Some lay"
  from layout_loop_Some [OF this [unfolded layout_def]]
  show "\<exists>n. ?first n \<and> spaced (snd (deal H k n)) \<and> lay = ?lay n" by simp
next
  assume "\<exists>n. ?first n \<and> spaced (snd (deal H k n)) \<and> lay = ?lay n"
  then obtain n where n: "?first n" "spaced (snd (deal H k n))" "lay = ?lay n" by blast
  obtain lay' where l: "layout_loop H k cap 0 = Some lay'"
    using layout_loop_finds [of H k 0 n cap] n(2) by auto
  from layout_loop_Some [OF l] obtain m where m: "?first m" "spaced (snd (deal H k m))" "lay' = ?lay m" by auto
  have "m = n" using n m by (metis linorder_neqE_nat)
  then show "layout H k cap = Some lay" using l m(3) n(3) by (simp add: layout_def)
qed

lemma deal_tiles: "mset (fst (deal H k n)) = mset TILE_BAG"
  by (simp add: deal_def Let_def shuffled_mset)

lemma layout_ok:
  assumes "layout H k cap = Some lay" "1 \<le> cap"
  shows "lay_ok lay" "1 \<le> l_first lay" "l_first lay \<le> cap"
proof -
  obtain n where n: "tiles lay = fst (deal H k n)" "l_first lay = derN H k 14 cap + 1"
    using assms(1) unfolding layout_Some by auto
  have "set (tiles lay) = set TILE_BAG" "length (tiles lay) = 19"
    using deal_tiles [of H k n] length_bags unfolding n(1) by (metis set_mset_mset, metis size_mset)
  moreover have "\<forall>t \<in> set TILE_BAG. t < 5" by (simp add: TILE_BAG_def)
  ultimately show "lay_ok lay" unfolding lay_ok_def NHEX_19 by (metis nth_mem)
  have "der H k 14 mod cap < cap" using assms(2) by simp
  then show "1 \<le> l_first lay" "l_first lay \<le> cap" by (simp_all add: n(2) derN_def)
qed

lemma start_ok:
  assumes "layout H k cap = Some lay" "1 \<le> cap"
  shows "table_ok cap 0 (hx_start cap sec com lay)"
proof -
  note l = layout_ok [OF assms]
  let ?st = "hx_start cap sec com lay"
  have s: "p_res (players ?st x) = [0, 0, 0, 0, 0]" "p_roads (players ?st x) = []" "p_steads (players ?st x) = []"
    "p_keeps (players ?st x) = []" "owe (players ?st x) = 0" "devKnown (players ?st x) = []" "devDrawn (players ?st x) = 0"
    "h_cap ?st = cap" "bank ?st = replicate 5 BANK_EACH" "offers ?st = []" "phase ?st = PSetup" "setupIdx ?st = 0"
    "devBought ?st = 0" "first ?st = l_first lay" "h_layout ?st = lay" for x
    by (simp_all add: hx_start_def newPlayer_def numeral_eq_Suc)
  have "goods ?st"
    unfolding s by (rule goods_okI) (auto simp: less5 BANK_EACH_def)
  moreover have "board ?st" by (simp add: board_def apart_def pieces_ok_def s)
  moreover have "setup_ok ?st" using assms(2) by (simp add: setup_ok_def s setupSlots_def)
  ultimately show ?thesis
    using l by (simp add: table_ok_def hx_inv_def offers_ok_def debts_ok_def scrolls_ok_def turn_ok_def numbered_def s)
qed

lemma loop_ok:
  assumes "layout H k cap = Some lay" "1 \<le> cap" "\<forall>r \<in> set recs. seated cap r"
  shows "\<exists>i \<le> length recs. table_ok cap i (hx_loop H 0 recs (hx_start cap sec com lay))"
proof -
  obtain i where i: "i \<le> length recs" "table_ok cap i (fst (run_log (hx_move H) hx_halted 0 recs (hx_start cap sec com lay)))"
    using hxr.run_inv [OF start_ok [OF assms(1,2)] assms(3), of H sec com] by auto
  have "table_ok cap i (s\<lparr>blocked := x\<rparr>) = table_ok cap i s" for s x by (simp add: table_ok_def numbered_def)
  with i show ?thesis
    unfolding hx_loop_run by (intro exI [of _ i]) (auto split: prod.split option.split)
qed

text \<open>A loop that is neither stopped nor blocked has consumed every record.\<close>

lemma loop_running:
  assumes "\<not> hx_halted (hx_loop H i recs s0)" "\<not> blocked (hx_loop H i recs s0)"
  shows "\<exists>st. run_log (hx_move H) hx_halted i recs s0 = (st, None) \<and> st = hx_loop H i recs s0 \<and> \<not> hx_halted st"
proof -
  obtain st b where r: "run_log (hx_move H) hx_halted i recs s0 = (st, b)" by fastforce
  have "b = None"
  proof (cases b)
    case (Some k)
    then have "hx_loop H i recs s0 = st\<lparr>blocked := True\<rparr>" using r by (simp add: hx_loop_run)
    then show ?thesis using assms(2) by simp
  qed
  then show ?thesis using r assms(1) by (simp add: hx_loop_run)
qed

lemma replay_inv:
  assumes "hx_replay H (Some k) recs cap sec com = Some st" "1 \<le> cap" "\<forall>r \<in> set recs. seated cap r"
  shows "hx_inv st" "h_cap st = cap"
proof -
  obtain lay where l: "layout H k cap = Some lay"
    "st = refreshBadges False (hx_loop H 0 recs (hx_start cap sec com lay))"
    using assms(1) by (auto simp: hx_replay_def split: option.splits)
  obtain i where "table_ok cap i (hx_loop H 0 recs (hx_start cap sec com lay))"
    using loop_ok [OF l(1) assms(2,3)] by blast
  then show "hx_inv st" "h_cap st = cap" unfolding l(2) by (auto simp: table_ok_def hx_proj)
qed

section \<open>A sample table\<close>

definition sampleH :: "nat \<Rightarrow> nat" where
  "sampleH x = (if x = 12008 then 0 else if x = 12010 then 2 else x mod 1000)"

definition sample_recs :: "hx_rec list" where
  "sample_recs = [(hx_enc OP_SETUP 0 0, 1, Some 5), (hx_enc OP_ROLL 0 0, 2, None)]"

lemma list_swap_same: "list_swap xs i i = xs"
  by (simp add: list_swap_def)

lemma upt_bags:
  "[1..<19] = [1, 2, 3, 4, 5, 6, 7, 8, 9, 10, 11, 12, 13, 14, 15, 16, 17, 18 :: nat]"
  "[1..<18] = [1, 2, 3, 4, 5, 6, 7, 8, 9, 10, 11, 12, 13, 14, 15, 16, 17 :: nat]"
  by (simp_all add: upt_rec)

lemma sample_tiles: "shuffled sampleH TILE_BAG 0 11 = TILE_BAG"
  unfolding shuffled_def fisher_yates_def length_bags upt_bags by (simp add: derN_def der_def sampleH_def list_swap_same)

lemma sample_tokens: "shuffled sampleH TOKEN_BAG 0 12 = list_swap (list_swap TOKEN_BAG 10 2) 8 0"
  unfolding shuffled_def fisher_yates_def length_bags upt_bags by (simp add: derN_def der_def sampleH_def list_swap_same)

lemma sample_spaced: "spaced (place_tokens TILE_BAG (list_swap (list_swap TOKEN_BAG 10 2) 8 0))"
proof -
  have "list_swap (list_swap TOKEN_BAG 10 2) 8 0 = [6, 3, 8, 4, 4, 5, 5, 6, 2, 8, 3, 9, 9, 10, 10, 11, 11, 12]"
    by code_simp
  moreover have "spaced (place_tokens TILE_BAG [6, 3, 8, 4, 4, 5, 5, 6, 2, 8, 3, 9, 9, 10, 10, 11, 11, 12])"
    by code_simp
  ultimately show ?thesis by simp
qed

lemma sample_deal: "spaced (snd (deal sampleH 0 0))"
  using sample_spaced by (simp add: deal_def Let_def sample_tiles sample_tokens)

lemma sample_layout: "\<exists>lay. layout sampleH 0 2 = Some lay \<and> l_first lay = 1"
  unfolding layout_Some using sample_deal
  by (intro exI conjI [OF _ conjI]) (auto simp: derN_def der_def sampleH_def)

lemma sample_replay:
  "\<exists>st. hx_replay sampleH (Some 0) sample_recs 2 sec com = Some st" "\<forall>r \<in> set sample_recs. seated 2 r"
  using sample_layout by (auto simp: hx_replay_def sample_recs_def seated_def)

section \<open>Properties\<close>

text \<open>C11: No card of Hexholm is ever made or lost. In the state of every replay whose records
  name seats of the table, and for each of the five resources, the bank and all hands are
  non-negative and together hold exactly the nineteen cards of the box.\<close>

theorem hx_cards_conserved:
  assumes "hx_replay H (Some k) recs cap sec com = Some st" "1 \<le> cap" "\<forall>r \<in> set recs. seated cap r" "r < 5"
  shows "0 \<le> bank st ! r \<and> (\<forall>s \<in> {1..cap}. 0 \<le> p_res (players st s) ! r) \<and>
         bank st ! r + (\<Sum>s \<in> {1..cap}. p_res (players st s) ! r) = 19"
proof -
  note i = replay_inv [OF assms(1-3)]
  have "goods_ok cap (bank st) (hands st)" using inv_parts(1) [OF i(1)] i(2) by simp
  from goods_okD(3-5) [OF this assms(4)] show ?thesis by (simp add: BANK_EACH_def)
qed

theorem hx_cards_conserved_witness:
  "\<exists>st. hx_replay sampleH (Some 0) sample_recs 2 (\<lambda>_. None) (\<lambda>_. True) = Some st \<and>
     bank st ! 3 + (\<Sum>s \<in> {1..2}. p_res (players st s) ! 3) = 19"
proof -
  obtain st where st: "hx_replay sampleH (Some 0) sample_recs 2 (\<lambda>_. None) (\<lambda>_. True) = Some st"
    using sample_replay(1) by blast
  from hx_cards_conserved [OF st _ sample_replay(2), of 3] st show ?thesis by auto
qed

text \<open>C13: The pieces on the board respect the rules. In the state of every replay a seat has at
  most fifteen roads, five homesteads and four keeps, all on edges and corners of the board and
  none twice; no edge carries roads of two seats, no corner belongs to two seats, and no two sites
  of the whole table are adjacent (the distance rule).\<close>

theorem hx_board_rules:
  assumes "hx_replay H (Some k) recs cap sec com = Some st" "1 \<le> cap" "\<forall>r \<in> set recs. seated cap r"
    and "s \<in> {1..cap}" "t \<in> {1..cap}"
  shows "distinct (p_roads (players st s)) \<and> length (p_roads (players st s)) \<le> 15 \<and>
         distinct (p_steads (players st s) @ p_keeps (players st s)) \<and>
         length (p_steads (players st s)) \<le> 5 \<and> length (p_keeps (players st s)) \<le> 4 \<and>
         (\<forall>e \<in> set (p_roads (players st s)). e < NEDGE) \<and> (\<forall>v \<in> sites st s. v < NVERT) \<and>
         (s \<noteq> t \<longrightarrow> set (p_roads (players st s)) \<inter> set (p_roads (players st t)) = {} \<and> sites st s \<inter> sites st t = {}) \<and>
         (\<forall>v \<in> sites st s. \<forall>w \<in> sites st t. w \<notin> set (vert_adj v))"
proof -
  note i = replay_inv [OF assms(1-3)]
  have "pieces_ok (players st s)" "apart st"
    using inv_parts(2) [OF i(1)] i(2) assms(4) by (simp_all add: board_def)
  moreover from \<open>apart st\<close> have "(s \<noteq> t \<longrightarrow> set (p_roads (players st s)) \<inter> set (p_roads (players st t)) = {} \<and> sites st s \<inter> sites st t = {}) \<and>
        (\<forall>v \<in> sites st s. \<forall>w \<in> sites st t. w \<notin> set (vert_adj v))"
    unfolding apart_def i(2) using assms(4,5) by blast
  ultimately show ?thesis
    by (simp add: pieces_ok_def SUPPLY_road_def SUPPLY_stead_def SUPPLY_keep_def)
qed

theorem hx_board_rules_witness:
  "\<exists>st. hx_replay sampleH (Some 0) sample_recs 2 (\<lambda>_. None) (\<lambda>_. True) = Some st \<and>
     (\<forall>v \<in> sites st 1. \<forall>w \<in> sites st 2. w \<notin> set (vert_adj v))"
proof -
  obtain st where st: "hx_replay sampleH (Some 0) sample_recs 2 (\<lambda>_. None) (\<lambda>_. True) = Some st"
    using sample_replay(1) by blast
  from hx_board_rules [OF st _ sample_replay(2), of 1 2] st show ?thesis by auto
qed

text \<open>The scroll deck is one bag of twenty-five. In the state of every replay no more than
  twenty-five scrolls were bought, the purchases of the seats add up to that number, and the scrolls
  known to a seat are drawn from the bag without repetition: no seat holds more of a kind than the
  bag does.\<close>

theorem hx_scroll_supply:
  assumes "hx_replay H (Some k) recs cap sec com = Some st" "1 \<le> cap" "\<forall>r \<in> set recs. seated cap r" "s \<in> {1..cap}"
  shows "devBought st \<le> 25 \<and> (\<Sum>s \<in> {1..cap}. devDrawn (players st s)) = devBought st \<and>
         mset (devKnown (players st s)) \<subseteq># mset DEV_BAG"
  using inv_parts(6) [OF replay_inv(1) [OF assms(1-3)]] replay_inv(2) [OF assms(1-3)] assms(4)
  unfolding scrolls_ok_def by (simp add: DEV_CAP_def)

theorem hx_scroll_supply_witness:
  "\<exists>st. hx_replay sampleH (Some 0) sample_recs 2 (\<lambda>_. None) (\<lambda>_. True) = Some st \<and> devBought st \<le> 25"
proof -
  obtain st where st: "hx_replay sampleH (Some 0) sample_recs 2 (\<lambda>_. None) (\<lambda>_. True) = Some st"
    using sample_replay(1) by blast
  from hx_scroll_supply [OF st _ sample_replay(2), of 1] st show ?thesis by auto
qed

text \<open>C15: When the layout is dealt, and that it is fair. The unbounded re-deal loop returns exactly
  when some attempt keeps the hot tokens (6 and 8) apart, and then the tiles and tokens are those of
  the first such attempt; a layout it returns uses every tile and harbour of the bags once and puts
  no two hot tokens on neighbouring hexes.\<close>

theorem hx_layout_deal:
  "((\<exists>lay. layout H k cap = Some lay) \<longleftrightarrow> (\<exists>n. spaced (snd (deal H k n)))) \<and>
   (\<forall>lay. layout H k cap = Some lay \<longrightarrow>
     (\<exists>n. (tiles lay, tokens lay) = deal H k n \<and> (\<forall>m < n. \<not> spaced (snd (deal H k m)))) \<and>
     mset (tiles lay) = mset TILE_BAG \<and> mset (ports lay) = mset PORT_BAG \<and>
     (\<forall>i < NHEX. \<forall>j \<in> set (hex_nbr i). \<not> (tokens lay ! i \<in> {6, 8} \<and> tokens lay ! j \<in> {6, 8})))"
proof (intro conjI allI impI ballI)
  show "(\<exists>lay. layout H k cap = Some lay) \<longleftrightarrow> (\<exists>n. spaced (snd (deal H k n)))"
  proof
    assume "\<exists>n. spaced (snd (deal H k n))"
    then obtain n where "spaced (snd (deal H k (0 + n)))" by auto
    from layout_loop_finds [OF this] show "\<exists>lay. layout H k cap = Some lay" by (simp add: layout_def)
  qed (auto simp: layout_Some)
next
  fix lay assume "layout H k cap = Some lay"
  then obtain n where n: "\<forall>m < n. \<not> spaced (snd (deal H k m))" "spaced (snd (deal H k n))"
    "tiles lay = fst (deal H k n)" "tokens lay = snd (deal H k n)" "ports lay = shuffled H PORT_BAG k 13"
    unfolding layout_Some by auto
  from n(1,3,4) show "\<exists>n. (tiles lay, tokens lay) = deal H k n \<and> (\<forall>m < n. \<not> spaced (snd (deal H k m)))"
    by (intro exI [of _ n]) simp
  from n(3) show "mset (tiles lay) = mset TILE_BAG" by (simp add: deal_tiles)
  from n(5) show "mset (ports lay) = mset PORT_BAG" by (simp add: shuffled_mset)
  fix i j assume "i < NHEX" "j \<in> set (hex_nbr i)"
  then show "\<not> (tokens lay ! i \<in> {6, 8} \<and> tokens lay ! j \<in> {6, 8})"
    using n(2) unfolding spaced_def hot_def n(4) [symmetric] by auto
qed

theorem hx_layout_deal_witness:
  "\<exists>lay. layout sampleH 0 2 = Some lay \<and> mset (tiles lay) = mset TILE_BAG"
  using hx_layout_deal [of sampleH 0 2] sample_deal by blast

text \<open>The state of a running loop, with the number of its records.\<close>

lemma loop_state:
  assumes "layout H k cap = Some lay" "1 \<le> cap" "\<forall>r \<in> set recs. seated cap r"
    and "\<not> hx_halted (hx_loop H 0 recs (hx_start cap sec com lay))" "\<not> blocked (hx_loop H 0 recs (hx_start cap sec com lay))"
  shows "table_ok cap (length recs) (hx_loop H 0 recs (hx_start cap sec com lay))"
    "hx_loop H 0 (recs @ [(e, s, Some q)]) (hx_start cap sec com lay) =
       hx_step H (length recs) e s q (hx_loop H 0 recs (hx_start cap sec com lay))"
proof -
  let ?s0 = "hx_start cap sec com lay"
  from loop_running [OF assms(4,5)] obtain st where run: "run_log (hx_move H) hx_halted 0 recs ?s0 = (st, None)"
    "st = hx_loop H 0 recs ?s0" "\<not> hx_halted st" by blast
  show "table_ok cap (length recs) (hx_loop H 0 recs ?s0)"
    using hxr.run_inv_end [OF start_ok [OF assms(1,2)] assms(3) run(1,3)] run(2) by simp
  show "hx_loop H 0 (recs @ [(e, s, Some q)]) ?s0 = hx_step H (length recs) e s q (hx_loop H 0 recs ?s0)"
    using run(2,3) by (simp add: hx_loop_run run_log_append run(1) hx_move_def)
qed

lemma legal_accepted:
  assumes "layout H k cap = Some lay" "1 \<le> cap" "\<forall>r \<in> set recs. seated cap r" "length recs \<le> A_LIM"
    and "1 \<le> s" "s \<le> cap" "e \<in> set (hx_legalMoves (hx_loop H 0 recs (hx_start cap sec com lay)) s)"
  shows "corrupt (hx_loop H 0 (recs @ [(e, s, Some q)]) (hx_start cap sec com lay)) = 0"
proof -
  let ?st = "hx_loop H 0 recs (hx_start cap sec com lay)"
  have "\<not> hx_halted ?st" "\<not> blocked ?st" using assms(7) by (auto simp: hx_legalMoves_def hx_halted_def split: if_splits)
  note l = loop_state [OF assms(1-3) this]
  show ?thesis
    unfolding l(2) using l(1) assms(4-7) unfolding table_ok_def by (intro accept_legal) auto
qed

text \<open>C12: The move generator is sound. Every move it lists for a seat, in the state a replay
  loop reaches with fewer records than the codec can number, is accepted by the referee: replaying
  the log extended by that move, whatever its seed, does not corrupt the game.\<close>

theorem hx_generated_moves:
  assumes "layout H k cap = Some lay" "1 \<le> cap" "\<forall>r \<in> set recs. seated cap r" "length recs \<le> A_LIM"
    and "1 \<le> s" "s \<le> cap" "e \<in> set (hx_legalMoves (hx_loop H 0 recs (hx_start cap sec com lay)) s)"
  shows "corrupt (hx_loop H 0 (recs @ [(e, s, Some q)]) (hx_start cap sec com lay)) = 0"
  using assms by (rule legal_accepted)

text \<open>C14: Only the seats named by the referee may move. A record of any other seat, whatever move
  and seed it carries, corrupts the game and the corruption is charged to that seat.\<close>

theorem hx_only_actors:
  assumes "layout H k cap = Some lay" "1 \<le> cap" "\<forall>r \<in> set recs. seated cap r" "1 \<le> s" "s \<le> cap"
    and "\<not> hx_halted (hx_loop H 0 recs (hx_start cap sec com lay))" "\<not> blocked (hx_loop H 0 recs (hx_start cap sec com lay))"
    and "s \<notin> set (actorsNow (hx_loop H 0 recs (hx_start cap sec com lay)))"
  shows "corrupt (hx_loop H 0 (recs @ [(e, s, Some q)]) (hx_start cap sec com lay)) = s"
proof -
  note l = loop_state [OF assms(1-3,6,7)]
  show ?thesis
    unfolding l(2) using l(1) assms(4-8) unfolding table_ok_def hx_halted_def by (intro reject_other) auto
qed

text \<open>Replaying a log piece by piece. A log whose first part has all its seeds is replayed by
  replaying that part and continuing from the state it leaves, and a record whose seed is pending
  stops the replay there, blocked, whatever follows it (unless the game had already stopped).\<close>

theorem hx_replay_pieces:
  assumes "\<forall>r \<in> set xs. snd (snd r) \<noteq> None" "\<not> blocked st"
  shows "hx_loop H i (xs @ ys) st = hx_loop H (i + length xs) ys (hx_loop H i xs st) \<and>
         hx_loop H i (xs @ (e, s, None) # ys) st =
           (if hx_halted (hx_loop H i xs st) then hx_loop H i xs st else (hx_loop H i xs st)\<lparr>blocked := True\<rparr>)"
proof -
  obtain s' b where r: "run_log (hx_move H) hx_halted i xs st = (s', b)" by fastforce
  have "b = None"
  proof (cases b)
    case (Some k)
    from hxr.run_blocked [OF r [unfolded Some]] obtain d where "d < length xs" "hx_move H k (xs ! d) s' = None" by blast
    moreover obtain y where "snd (snd (xs ! d)) = Some y" using assms(1) \<open>d < length xs\<close> by fastforce
    ultimately show ?thesis by (simp add: hx_move_def split_beta)
  qed
  with r have l: "hx_loop H i xs st = s'" by (simp add: hx_loop_run)
  show ?thesis
    unfolding l
    by (simp add: hx_loop_run [of H i] hx_loop_run [of H "i + length xs"] run_log_append r \<open>b = None\<close> hx_move_def)
qed

section \<open>Witnesses for the sample table\<close>

text \<open>At the sample table seat 1 founds first; corner 0 and edge 0 are one of its choices.\<close>

lemma sample_start:
  assumes "l_first lay = 1"
  shows "setupSlots (hx_start 2 sec com lay) ! 0 = 1"
    "hx_enc OP_SETUP 0 0 \<in> set (hx_legalMoves (hx_start 2 sec com lay) 1)"
    "\<not> hx_halted (hx_start 2 sec com lay)" "\<not> blocked (hx_start 2 sec com lay)"
    "2 \<notin> set (actorsNow (hx_start 2 sec com lay))"
proof -
  let ?st = "hx_start 2 sec com lay"
  show slot: "setupSlots ?st ! 0 = 1"
    by (simp add: setupSlots_def seatOrder_def hx_start_def assms numeral_2_eq_2)
  have "vertexFree ?st 0" "edgeFree ?st 0"
    by (auto simp: vertexFree_def edgeFree_def owns_vertex_def hx_start_def newPlayer_def)
  moreover have "0 \<in> set (vert_edges 0)"
    by (simp add: vert_edges_iff NEDGE_72 edge_a_def hx_edges_table)
  moreover have "0 < NVERT" by (simp add: NVERT_54)
  ultimately have m: "hx_enc OP_SETUP 0 0 \<in> set (setup_moves ?st)"
    unfolding setup_moves_def set_concat set_map set_filter by auto
  then show "hx_enc OP_SETUP 0 0 \<in> set (hx_legalMoves ?st 1)"
    using slot by (simp add: hx_legalMoves_def hx_start_def)
  show "\<not> hx_halted ?st" "\<not> blocked ?st" by (simp_all add: hx_halted_def hx_start_def)
  show "2 \<notin> set (actorsNow ?st)" using slot by (simp add: actorsNow_def hx_start_def)
qed

theorem hx_generated_moves_witness:
  "\<exists>lay. layout sampleH 0 2 = Some lay \<and>
     corrupt (hx_loop sampleH 0 [(hx_enc OP_SETUP 0 0, 1, Some 5)] (hx_start 2 (\<lambda>_. None) (\<lambda>_. True) lay)) = 0"
proof -
  obtain lay where l: "layout sampleH 0 2 = Some lay" "l_first lay = 1" using sample_layout by blast
  from hx_generated_moves [OF l(1), of "[]" 1 "hx_enc OP_SETUP 0 0" "\<lambda>_. None" "\<lambda>_. True" 5] sample_start(2) [OF l(2)] l(1)
  show ?thesis by auto
qed

theorem hx_only_actors_witness:
  "\<exists>lay. layout sampleH 0 2 = Some lay \<and>
     corrupt (hx_loop sampleH 0 [(hx_enc OP_SETUP 0 0, 2, Some 5)] (hx_start 2 (\<lambda>_. None) (\<lambda>_. True) lay)) = 2"
proof -
  obtain lay where l: "layout sampleH 0 2 = Some lay" "l_first lay = 1" using sample_layout by blast
  from hx_only_actors [OF l(1), of "[]" 2 "\<lambda>_. None" "\<lambda>_. True" "hx_enc OP_SETUP 0 0" 5] sample_start(3-5) [OF l(2)] l(1)
  show ?thesis by auto
qed

theorem hx_replay_pieces_witness:
  "\<forall>lay. hx_loop sampleH 0 sample_recs (hx_start 2 (\<lambda>_. None) (\<lambda>_. True) lay) =
     (let st = hx_loop sampleH 0 [(hx_enc OP_SETUP 0 0, 1, Some 5)] (hx_start 2 (\<lambda>_. None) (\<lambda>_. True) lay)
      in if hx_halted st then st else st\<lparr>blocked := True\<rparr>)"
proof
  fix lay
  have eq: "sample_recs = [(hx_enc OP_SETUP 0 0, 1, Some 5)] @ (hx_enc OP_ROLL 0 0, 2, None) # []"
    by (simp add: sample_recs_def)
  show "hx_loop sampleH 0 sample_recs (hx_start 2 (\<lambda>_. None) (\<lambda>_. True) lay) =
     (let st = hx_loop sampleH 0 [(hx_enc OP_SETUP 0 0, 1, Some 5)] (hx_start 2 (\<lambda>_. None) (\<lambda>_. True) lay)
      in if hx_halted st then st else st\<lparr>blocked := True\<rparr>)"
    unfolding eq Let_def by (rule conjunct2 [OF hx_replay_pieces]) (simp_all add: hx_start_def)
qed

end
