(* ===== verification/StormCards.thy ===== *)
theory StormCards
  imports Prelude "HOL-Library.Product_Lexorder"
begin

text \<open>
  The card table, the move and claim codecs, the kingdom masks and the game state of Stormhold
  (\<^verbatim>\<open>static/stormhold-engine.js\<close>, up to \<^verbatim>\<open>kingdomToMask\<close>). Names and rule texts of the
  cards are display data and left out. Payloads are non-negative whole numbers.
\<close>

declare One_nat_def [simp del]

section \<open>The card table\<close>

record sh_card_info =
  cost :: nat
  ctype :: nat
  coin :: nat
  vp :: int

definition sh_card :: "nat \<Rightarrow> nat \<Rightarrow> nat \<Rightarrow> int \<Rightarrow> sh_card_info" where
  "sh_card c t k v = \<lparr>cost = c, ctype = t, coin = k, vp = v\<rparr>"

text \<open>The type bits.\<close>

definition T_A :: nat where "T_A = 1"
definition T_T :: nat where "T_T = 2"
definition T_V :: nat where "T_V = 4"
definition T_CU :: nat where "T_CU = 8"
definition T_ATK :: nat where "T_ATK = 16"
definition T_RE :: nat where "T_RE = 32"

definition CARDS :: "sh_card_info list" where
  "CARDS =
  [sh_card 0 (T_T) 1 0,
   sh_card 3 (T_T) 2 0,
   sh_card 6 (T_T) 3 0,
   sh_card 2 (T_V) 0 (1),
   sh_card 5 (T_V) 0 (3),
   sh_card 8 (T_V) 0 (6),
   sh_card 0 (T_CU) 0 (-1),
   sh_card 2 (T_A) 0 0,
   sh_card 2 (T_A) 0 0,
   sh_card 2 (T_A + T_RE) 0 0,
   sh_card 3 (T_A) 0 0,
   sh_card 3 (T_A) 0 0,
   sh_card 3 (T_A) 0 0,
   sh_card 3 (T_A) 0 0,
   sh_card 3 (T_A) 0 0,
   sh_card 4 (T_A + T_ATK) 0 0,
   sh_card 4 (T_V) 0 0,
   sh_card 4 (T_A + T_ATK) 0 0,
   sh_card 4 (T_A) 0 0,
   sh_card 4 (T_A) 0 0,
   sh_card 4 (T_A) 0 0,
   sh_card 4 (T_A) 0 0,
   sh_card 4 (T_A) 0 0,
   sh_card 5 (T_A + T_ATK) 0 0,
   sh_card 5 (T_A) 0 0,
   sh_card 5 (T_A) 0 0,
   sh_card 5 (T_A) 0 0,
   sh_card 5 (T_A) 0 0,
   sh_card 5 (T_A) 0 0,
   sh_card 5 (T_A) 0 0,
   sh_card 5 (T_A) 0 0,
   sh_card 5 (T_A + T_ATK) 0 0,
   sh_card 6 (T_A) 0 0,
   sh_card 0 0 0 0]"

text \<open>The last entry is the face-down card.\<close>

definition COPPER :: nat where "COPPER = 0"
definition SILVER :: nat where "SILVER = 1"
definition GOLD :: nat where "GOLD = 2"
definition HOMESTEAD :: nat where "HOMESTEAD = 3"
definition VALLEY :: nat where "VALLEY = 4"
definition CITADEL :: nat where "CITADEL = 5"
definition BLIGHT :: nat where "BLIGHT = 6"
definition WINDBREAK :: nat where "WINDBREAK = 9"
definition TERRACES :: nat where "TERRACES = 16"
definition UNKNOWN :: nat where "UNKNOWN = 33"
definition SKIP :: nat where "SKIP = 4095"

definition KINGDOM :: "nat list" where
  "KINGDOM = [7..<33]"

lemmas sh_ids = COPPER_def SILVER_def GOLD_def HOMESTEAD_def VALLEY_def CITADEL_def BLIGHT_def WINDBREAK_def
  TERRACES_def UNKNOWN_def

definition card_exists :: "nat \<Rightarrow> bool" where
  "card_exists c \<longleftrightarrow> c < length CARDS"

definition card_cost :: "nat \<Rightarrow> nat" where
  "card_cost c = cost (CARDS ! c)"

definition has_type :: "nat \<Rightarrow> nat \<Rightarrow> bool" where
  "has_type t c \<longleftrightarrow> ctype (CARDS ! c) div t mod 2 = 1"

definition isA :: "nat \<Rightarrow> bool" where "isA c \<longleftrightarrow> has_type T_A c"
definition isT :: "nat \<Rightarrow> bool" where "isT c \<longleftrightarrow> has_type T_T c"
definition isV :: "nat \<Rightarrow> bool" where "isV c \<longleftrightarrow> has_type T_V c"

section \<open>Codecs\<close>

definition clX :: "nat \<Rightarrow> nat" where "clX payload = payload mod 32"
definition clC :: "nat \<Rightarrow> nat" where "clC payload = payload div 32 mod 64"
definition encClaim :: "nat \<Rightarrow> nat \<Rightarrow> nat" where "encClaim idx c = idx + c * 32"
definition sh_encMove :: "nat \<Rightarrow> nat \<Rightarrow> nat" where "sh_encMove opc payload = opc + payload * 16"
definition sh_decMove :: "nat \<Rightarrow> nat \<times> nat" where "sh_decMove e = (e mod 16, e div 16)"

text \<open>The positions of the set bits, lowest first; \<open>i\<close> is the position of the lowest bit of the mask.\<close>

fun bits_from :: "nat \<Rightarrow> nat \<Rightarrow> nat list" where
  "bits_from i m =
     (if m = 0 then [] else if m mod 2 = 1 then i # bits_from (i + 1) (m div 2) else bits_from (i + 1) (m div 2))"

declare bits_from.simps [simp del]

definition bits :: "nat \<Rightarrow> nat list" where
  "bits m = bits_from 0 m"

definition maskToKingdom :: "nat \<Rightarrow> nat list option" where
  "maskToKingdom m =
     (let pick = map (\<lambda>b. 7 + b) (filter (\<lambda>b. m div 2 ^ b mod 2 = 1) [0..<26])
      in if m > 0 \<and> m < 2 ^ 26 \<and> length pick = 10 then Some pick else None)"

definition kingdomToMask :: "nat list \<Rightarrow> nat" where
  "kingdomToMask ids = sum_list (map (\<lambda>c. 2 ^ (c - 7)) ids)"

section \<open>State\<close>

text \<open>
  A player's zones. Decks are drawn from the end. \<open>sh_seed\<close> is the randomness available to a move:
  none yet, one public number, or the three streams of a hidden game (public, player 0, player 1),
  each possibly not known to this browser.
\<close>

record sh_zone =
  deck :: "nat list"
  hand :: "nat list"
  disc :: "nat list"
  play :: "nat list"
  turns :: nat

datatype sh_seed = NoSeed | OneSeed nat | Streams "nat option" "nat option" "nat option"

text \<open>The pending decisions, one constructor per frame type, with the deciding player first.\<close>

datatype sh_frame =
    Cel nat | Chp nat | Har nat
  | Vas nat nat | VasH nat nat
  | Mil nat | Bur nat | BurH nat
  | Ban nat "nat list" | BanH nat "nat list"
  | Mon nat | Poa nat nat
  | RemT nat | RemG nat nat
  | Thr nat | Tr2 nat nat
  | MinT nat | MinG nat nat
  | Sen nat "nat list"
  | Lib nat nat "nat list"
  | ArtG nat | ArtT nat
  | Wsh nat
  | Moat nat nat

fun frame_actor :: "sh_frame \<Rightarrow> nat" where
  "frame_actor (Cel p) = p" | "frame_actor (Chp p) = p" | "frame_actor (Har p) = p"
| "frame_actor (Vas p _) = p" | "frame_actor (VasH p _) = p"
| "frame_actor (Mil p) = p" | "frame_actor (Bur p) = p" | "frame_actor (BurH p) = p"
| "frame_actor (Ban p _) = p" | "frame_actor (BanH p _) = p"
| "frame_actor (Mon p) = p" | "frame_actor (Poa p _) = p"
| "frame_actor (RemT p) = p" | "frame_actor (RemG p _) = p"
| "frame_actor (Thr p) = p" | "frame_actor (Tr2 p _) = p"
| "frame_actor (MinT p) = p" | "frame_actor (MinG p _) = p"
| "frame_actor (Sen p _) = p" | "frame_actor (Lib p _ _) = p"
| "frame_actor (ArtG p) = p" | "frame_actor (ArtT p) = p" | "frame_actor (Wsh p) = p"
| "frame_actor (Moat p _) = p"

record sh_log =
  lg_p :: nat
  lg_ev :: string
  lg_c :: "nat option"
  lg_n :: "nat option"
  lg_mi :: nat

record sh =
  sh_g :: nat
  kingdom :: "nat list"
  stock :: "nat \<Rightarrow> nat option"
  trash :: "nat list"
  ps :: "nat \<Rightarrow> sh_zone"
  sh_turn :: nat
  sh_phase :: nat
  actions :: nat
  buys :: nat
  coins :: nat
  merch :: nat
  silverDone :: bool
  frames :: "sh_frame list"
  sh_over :: bool
  sh_result :: nat
  sh_corrupt :: bool
  corruptWhy :: string
  cheater :: nat
  shufN :: nat
  sh_mi :: nat
  sh_blocked :: bool
  blockedAt :: int
  sh_logs :: "sh_log list"
  hidden :: bool
  pov :: "nat option"
  sq :: sh_seed
  threw :: bool

text \<open>
  \<open>threw\<close> marks a state abandoned by an uncaught exception (a lookup outside the card table); it is
  not a field of the code's object, the replay that meets it does not return.

  Whether this browser knows the cards of player \<open>p\<close>.\<close>

definition known :: "sh \<Rightarrow> nat \<Rightarrow> bool" where
  "known st p \<longleftrightarrow> \<not> hidden st \<or> pov st = None \<or> pov st = Some p"

definition set_zone :: "nat \<Rightarrow> sh_zone \<Rightarrow> sh \<Rightarrow> sh" where
  "set_zone p z st = st\<lparr>ps := (ps st)(p := z)\<rparr>"

text \<open>The log keeps its last 400 entries.\<close>

definition sh_note :: "nat \<Rightarrow> string \<Rightarrow> nat option \<Rightarrow> nat option \<Rightarrow> sh \<Rightarrow> sh" where
  "sh_note p ev c n st =
     (let l = sh_logs st @ [\<lparr>lg_p = p, lg_ev = ev, lg_c = c, lg_n = n, lg_mi = sh_mi st\<rparr>]
      in st\<lparr>sh_logs := (if length l > 400 then tl l else l)\<rparr>)"

definition spoil :: "string \<Rightarrow> sh \<Rightarrow> sh" where
  "spoil w st = st\<lparr>sh_corrupt := True, corruptWhy := w\<rparr>"

definition cheat :: "nat \<Rightarrow> string \<Rightarrow> sh \<Rightarrow> sh" where
  "cheat p w st = spoil (''claim mismatch: '' @ w) (st\<lparr>cheater := p + 1\<rparr>)"

text \<open>
  \<^verbatim>\<open>materialize\<close> on the hand of \<open>p\<close>: an observer puts the claimed card in place of an unknown one;
  whoever knows the hand checks the claim.
\<close>

definition materialize :: "sh \<Rightarrow> nat \<Rightarrow> nat \<Rightarrow> nat \<Rightarrow> bool \<times> sh" where
  "materialize st p idx claim =
     (let z = ps st p; arr = hand z
      in if idx \<ge> length arr then (False, st)
         else if known st p then (arr ! idx = claim, st)
         else if arr ! idx = UNKNOWN then (True, set_zone p (z\<lparr>hand := arr[idx := claim]\<rparr>) st)
         else (arr ! idx = claim, st))"

definition piles :: "sh \<Rightarrow> nat list" where
  "piles st = [COPPER, SILVER, GOLD, HOMESTEAD, VALLEY, CITADEL, BLIGHT] @ kingdom st"

definition in_supply :: "sh \<Rightarrow> nat \<Rightarrow> bool" where
  "in_supply st c \<longleftrightarrow> (case stock st c of None \<Rightarrow> False | Some n \<Rightarrow> n > 0)"

definition emptyPiles :: "sh \<Rightarrow> nat" where
  "emptyPiles st = length (filter (\<lambda>c. stock st c = Some 0) (piles st))"

definition gainable :: "sh \<Rightarrow> nat \<Rightarrow> bool \<Rightarrow> nat list" where
  "gainable st mx treasureOnly =
     filter (\<lambda>c. in_supply st c \<and> card_cost c \<le> mx \<and> (treasureOnly \<longrightarrow> isT c)) (piles st)"

end
