(* ===== verification/StormEngine.thy ===== *)
theory StormEngine
  imports StormCards "HOL-Library.Monad_Syntax"
begin

text \<open>
  The operations of Stormhold (\<^verbatim>\<open>static/stormhold-engine.js\<close>): drawing and gaining, the setup,
  attacks, card effects and the resolution of decisions. Whatever may shuffle returns an option:
  \<open>None\<close> is the exception of a seed that is not final yet, which aborts the whole move.
\<close>

section \<open>Shuffling, drawing, gaining\<close>

definition seed_for :: "sh \<Rightarrow> nat option \<Rightarrow> nat option" where
  "seed_for st p =
     (case sq st of
        NoSeed \<Rightarrow> None
      | OneSeed q \<Rightarrow> if hidden st then None else Some q
      | Streams pub a b \<Rightarrow> if \<not> hidden st then None
          else (case p of None \<Rightarrow> pub | Some i \<Rightarrow> if i = 0 then a else b))"

definition sh_shuffled :: "(nat \<Rightarrow> nat) \<Rightarrow> sh \<Rightarrow> nat list \<Rightarrow> nat option \<Rightarrow> (nat list \<times> sh) option" where
  "sh_shuffled H st arr p =
     (case seed_for st p of
        None \<Rightarrow> None
      | Some q \<Rightarrow>
          (let st1 = st\<lparr>shufN := shufN st + 1\<rparr>; salt = sh_g st * 16777216 + shufN st1 * 4096
           in Some (fisher_yates (\<lambda>i. H (q + salt + i) mod (i + 1)) arr, st1)))"

text \<open>
  \<^verbatim>\<open>takeTop\<close>: a discard pile this browser cannot see dissolves into unknown cards; the shuffle is
  still counted.
\<close>

definition takeTop :: "(nat \<Rightarrow> nat) \<Rightarrow> nat \<Rightarrow> sh \<Rightarrow> (nat option \<times> sh) option" where
  "takeTop H p st =
     (let z = ps st p
      in if deck z \<noteq> []
         then Some (Some (last (deck z)), set_zone p (z\<lparr>deck := butlast (deck z)\<rparr>) st)
         else if disc z = [] then Some (None, st)
         else do {
           (d, st1) \<leftarrow> (if known st p then sh_shuffled H st (disc z) (Some p)
                        else Some (map (\<lambda>_. UNKNOWN) (disc z), st\<lparr>shufN := shufN st + 1\<rparr>));
           let st2 = sh_note p ''shuffle'' None None (set_zone p (z\<lparr>disc := []\<rparr>) st1);
           Some (Some (last d), set_zone p (z\<lparr>disc := [], deck := butlast d\<rparr>) st2)
         })"

primrec draw_loop :: "(nat \<Rightarrow> nat) \<Rightarrow> nat \<Rightarrow> nat \<Rightarrow> nat \<Rightarrow> sh \<Rightarrow> (nat \<times> sh) option" where
  "draw_loop H p 0 got st = Some (got, st)"
| "draw_loop H p (Suc n) got st = do {
     (c, st1) \<leftarrow> takeTop H p st;
     case c of
       None \<Rightarrow> Some (got, st1)
     | Some x \<Rightarrow> draw_loop H p n (got + 1)
         (set_zone p ((ps st1 p)\<lparr>hand := hand (ps st1 p) @ [x]\<rparr>) st1)
   }"

definition draw :: "(nat \<Rightarrow> nat) \<Rightarrow> nat \<Rightarrow> nat \<Rightarrow> sh \<Rightarrow> sh option" where
  "draw H p n st = do {
     (got, st1) \<leftarrow> draw_loop H p n 0 st;
     Some (if got > 0 then sh_note p ''draw'' None (Some got) st1 else st1)
   }"

datatype sh_place = InDeck | InHand | InDisc

definition put :: "sh_place \<Rightarrow> nat \<Rightarrow> nat \<Rightarrow> sh \<Rightarrow> sh" where
  "put w p c st =
     (let z = ps st p
      in set_zone p (case w of InDeck \<Rightarrow> z\<lparr>deck := deck z @ [c]\<rparr>
                             | InHand \<Rightarrow> z\<lparr>hand := hand z @ [c]\<rparr>
                             | InDisc \<Rightarrow> z\<lparr>disc := disc z @ [c]\<rparr>) st)"

definition put_play :: "nat \<Rightarrow> nat \<Rightarrow> sh \<Rightarrow> sh" where
  "put_play p c st = set_zone p ((ps st p)\<lparr>play := play (ps st p) @ [c]\<rparr>) st"

definition put_trash :: "nat \<Rightarrow> sh \<Rightarrow> sh" where
  "put_trash c st = st\<lparr>trash := trash st @ [c]\<rparr>"

text \<open>\<^verbatim>\<open>z.hand.splice(i, 1)[0]\<close>: the card and the state without it.\<close>

definition lift_hand :: "nat \<Rightarrow> nat \<Rightarrow> sh \<Rightarrow> nat \<times> sh" where
  "lift_hand p i st = (hand (ps st p) ! i, set_zone p ((ps st p)\<lparr>hand := remove_at i (hand (ps st p))\<rparr>) st)"

text \<open>A gain from an empty pile does nothing.\<close>

definition gain :: "nat \<Rightarrow> nat \<Rightarrow> sh_place \<Rightarrow> string \<Rightarrow> sh \<Rightarrow> bool \<times> sh" where
  "gain p c w ev st =
     (if \<not> in_supply st c then (False, st)
      else (True, sh_note p ev (Some c) None
                    (put w p c (st\<lparr>stock := (stock st)(c := Some (the (stock st c) - 1))\<rparr>))))"

definition push_frame :: "sh_frame \<Rightarrow> sh \<Rightarrow> sh" where
  "push_frame f st = st\<lparr>frames := frames st @ [f]\<rparr>"

section \<open>Setup\<close>

definition start_cards :: "nat list" where
  "start_cards = [COPPER, COPPER, COPPER, COPPER, COPPER, COPPER, COPPER, HOMESTEAD, HOMESTEAD, HOMESTEAD]"

definition empty_zone :: sh_zone where
  "empty_zone = \<lparr>deck = [], hand = [], disc = [], play = [], turns = 0\<rparr>"

definition start_supply :: "nat list \<Rightarrow> nat \<Rightarrow> nat option" where
  "start_supply pick =
     (\<lambda>c. if c \<in> set pick then Some (if isV c then 8 else 10)
          else map_of [(COPPER, 46), (SILVER, 40), (GOLD, 30), (HOMESTEAD, 8), (VALLEY, 8), (CITADEL, 8), (BLIGHT, 10)] c)"

definition sh_blank :: "nat \<Rightarrow> sh_seed \<Rightarrow> bool \<Rightarrow> nat option \<Rightarrow> sh" where
  "sh_blank g khQ hid pv =
     \<lparr>sh_g = g, kingdom = [], stock = (\<lambda>_. None), trash = [], ps = (\<lambda>_. empty_zone), sh_turn = 0, sh_phase = 0,
      actions = 1, buys = 1, coins = 0, merch = 0, silverDone = False, frames = [], sh_over = False, sh_result = 0,
      sh_corrupt = False, corruptWhy = [], cheater = 0, shufN = 0, sh_mi = 0, sh_blocked = False, blockedAt = -1,
      sh_logs = [], hidden = hid, pov = pv, sq = khQ, threw = False\<rparr>"

definition deal_start :: "(nat \<Rightarrow> nat) \<Rightarrow> nat \<Rightarrow> sh \<Rightarrow> sh option" where
  "deal_start H p st = do {
     (d, st1) \<leftarrow> (if known st p then sh_shuffled H st start_cards (Some p)
                  else Some (map (\<lambda>_. UNKNOWN) start_cards, st\<lparr>shufN := shufN st + 1\<rparr>));
     draw H p 5 (set_zone p ((ps st1 p)\<lparr>deck := d\<rparr>) st1)
   }"

definition sh_init :: "(nat \<Rightarrow> nat) \<Rightarrow> nat \<Rightarrow> sh_seed \<Rightarrow> nat \<Rightarrow> bool \<Rightarrow> nat option \<Rightarrow> sh option" where
  "sh_init H g khQ m hid pv =
     (let st = sh_blank g khQ hid pv
      in if m \<noteq> 0 \<and> maskToKingdom m = None then Some (spoil ''invalid kingdom mask'' st)
         else do {
           (pick, st1) \<leftarrow> (if m \<noteq> 0 then Some (the (maskToKingdom m), st)
                           else do { (k, st') \<leftarrow> sh_shuffled H st KINGDOM None; Some (take 10 k, st') });
           let pick' = sort_key (\<lambda>a. (card_cost a, a)) pick;
           let st2 = st1\<lparr>kingdom := pick', stock := start_supply pick'\<rparr>;
           st3 \<leftarrow> deal_start H 0 st2;
           st4 \<leftarrow> deal_start H 1 st3;
           Some (st4\<lparr>sh_logs := []\<rparr>)
         })"

section \<open>Attacks\<close>

text \<open>Two cards from the top, in the order they were revealed.\<close>

definition take_two :: "(nat \<Rightarrow> nat) \<Rightarrow> nat \<Rightarrow> sh \<Rightarrow> (nat list \<times> sh) option" where
  "take_two H p st = do {
     (c0, st1) \<leftarrow> takeTop H p st;
     (c1, st2) \<leftarrow> takeTop H p st1;
     Some ((case c0 of None \<Rightarrow> [] | Some x \<Rightarrow> [x]) @ (case c1 of None \<Rightarrow> [] | Some x \<Rightarrow> [x]), st2)
   }"

definition eligible :: "nat \<Rightarrow> bool" where
  "eligible c \<longleftrightarrow> isT c \<and> c \<noteq> COPPER"

definition find_index :: "(nat \<Rightarrow> bool) \<Rightarrow> nat list \<Rightarrow> nat" where
  "find_index P xs = length (takeWhile (\<lambda>x. \<not> P x) xs)"

definition collector :: "nat \<Rightarrow> sh \<Rightarrow> sh" where
  "collector d st =
     (let z = ps st d
      in if hidden st
         then (if hand z \<noteq> [] then push_frame (BurH d) st else sh_note d ''reveal'' None None st)
         else (let vs = filter isV (hand z)
               in if vs = [] then sh_note d ''reveal'' None None st
                  else if length (remdups vs) = 1
                  then (case lift_hand d (find_index isV (hand z)) st of (c, st1) \<Rightarrow>
                          sh_note d ''topdeck'' (Some (hd vs)) None (put InDeck d c st1))
                  else push_frame (Bur d) st))"

definition storm_riders :: "(nat \<Rightarrow> nat) \<Rightarrow> nat \<Rightarrow> sh \<Rightarrow> sh option" where
  "storm_riders H d st = do {
     (rev, st1) \<leftarrow> take_two H d st;
     let st2 = sh_note d ''reveal2'' None (Some (length rev)) st1;
     Some (if hidden st2
           then (if rev \<noteq> [] then push_frame (BanH d rev) st2 else st2)
           else (let st3 = fold (\<lambda>c. sh_note d ''revealc'' (Some c) None) rev st2;
                     elig = filter eligible rev
                 in if length elig = 2 \<and> rev ! 0 \<noteq> rev ! 1 then push_frame (Ban d rev) st3
                    else if elig \<noteq> []
                    then fold (put InDisc d) (remove1 (elig ! 0) rev)
                           (sh_note d ''trash'' (Some (elig ! 0)) None (put_trash (elig ! 0) st3))
                    else fold (put InDisc d) rev st3))
   }"

definition applyAttack :: "(nat \<Rightarrow> nat) \<Rightarrow> nat \<Rightarrow> nat \<Rightarrow> sh \<Rightarrow> sh option" where
  "applyAttack H c d st =
     (if c = 17 then Some (if length (hand (ps st d)) > 3 then push_frame (Mil d) st else st)
      else if c = 31 then Some (snd (gain d BLIGHT InDisc ''curse'' st))
      else if c = 15 then Some (collector d st)
      else if c = 23 then storm_riders H d st
      else Some st)"

definition attack :: "(nat \<Rightarrow> nat) \<Rightarrow> nat \<Rightarrow> nat \<Rightarrow> sh \<Rightarrow> sh option" where
  "attack H p c st =
     (let d = 1 - p
      in if (if hidden st then hand (ps st d) \<noteq> [] else WINDBREAK \<in> set (hand (ps st d)))
         then Some (push_frame (Moat d c) st)
         else applyAttack H c d st)"

end
