(* ===== verification/StormPlay.thy ===== *)
theory StormPlay
  imports StormEngine
begin

text \<open>
  Card effects, the resolution of decisions, the moves of a turn, scoring and the replay of
  Stormhold (\<^verbatim>\<open>static/stormhold-engine.js\<close>, from \<^verbatim>\<open>libraryLoop\<close> to the end), with one
  definition per card family, frame type and operation.
\<close>

section \<open>Card effects\<close>

definition add_actions :: "nat \<Rightarrow> sh \<Rightarrow> sh" where "add_actions n st = st\<lparr>actions := actions st + n\<rparr>"
definition add_buys :: "nat \<Rightarrow> sh \<Rightarrow> sh" where "add_buys n st = st\<lparr>buys := buys st + n\<rparr>"
definition add_coins :: "nat \<Rightarrow> sh \<Rightarrow> sh" where "add_coins n st = st\<lparr>coins := coins st + n\<rparr>"

text \<open>
  \<^verbatim>\<open>libraryLoop\<close>: draw up to seven cards, asking about each Action. Every round that goes on adds
  one card to the hand, so the loop runs at most \<open>7 - length hand\<close> times; that number is \<open>n\<close>.
\<close>

definition aside_done :: "nat \<Rightarrow> nat list \<Rightarrow> sh \<Rightarrow> sh" where
  "aside_done p aside st =
     (if aside \<noteq> [] then sh_note p ''discard'' None (Some (length aside)) (fold (put InDisc p) aside st) else st)"

primrec library_draw :: "(nat \<Rightarrow> nat) \<Rightarrow> nat \<Rightarrow> nat list \<Rightarrow> nat \<Rightarrow> sh \<Rightarrow> sh option" where
  "library_draw H p aside 0 st = Some (aside_done p aside st)"
| "library_draw H p aside (Suc n) st = do {
     (c, st1) \<leftarrow> takeTop H p st;
     case c of
       None \<Rightarrow> Some (aside_done p aside st1)
     | Some x \<Rightarrow> if isA x then Some (push_frame (Lib p x aside) st1)
                 else library_draw H p aside n (put InHand p x st1)
   }"

definition libraryLoop :: "(nat \<Rightarrow> nat) \<Rightarrow> nat \<Rightarrow> nat list \<Rightarrow> sh \<Rightarrow> sh option" where
  "libraryLoop H p aside st = library_draw H p aside (7 - length (hand (ps st p))) st"

definition play_whirlwind :: "(nat \<Rightarrow> nat) \<Rightarrow> nat \<Rightarrow> sh \<Rightarrow> sh option" where
  "play_whirlwind H p st = do {
     (c, st1) \<leftarrow> takeTop H p (add_coins 2 st);
     Some (case c of
         None \<Rightarrow> st1
       | Some x \<Rightarrow> if hidden st1 then push_frame (VasH p x) st1
                   else if isA x then push_frame (Vas p x) st1
                   else sh_note p ''discard1'' (Some x) None (put InDisc p x st1))
   }"

definition play_collector :: "(nat \<Rightarrow> nat) \<Rightarrow> nat \<Rightarrow> sh \<Rightarrow> sh option" where
  "play_collector H p st =
     (case gain p SILVER InDeck ''gaindeck'' st of (got, st1) \<Rightarrow>
        attack H p 15 (if got then st1 else sh_note p ''supplyout'' (Some SILVER) None st1))"

definition play_drifter :: "(nat \<Rightarrow> nat) \<Rightarrow> nat \<Rightarrow> sh \<Rightarrow> sh option" where
  "play_drifter H p st = do {
     st1 \<leftarrow> draw H p 1 st;
     let st2 = add_coins 1 (add_actions 1 st1);
     let n = min (emptyPiles st2) (length (hand (ps st2 p)));
     Some (if n > 0 then push_frame (Poa p n) st2 else st2)
   }"

definition play_skywatch :: "(nat \<Rightarrow> nat) \<Rightarrow> nat \<Rightarrow> sh \<Rightarrow> sh option" where
  "play_skywatch H p st = do {
     st1 \<leftarrow> draw H p 1 st;
     (cards, st2) \<leftarrow> take_two H p (add_actions 1 st1);
     Some (if cards \<noteq> [] then push_frame (Sen p cards) st2 else st2)
   }"

definition play_almanac :: "(nat \<Rightarrow> nat) \<Rightarrow> nat \<Rightarrow> sh \<Rightarrow> sh option" where
  "play_almanac H p st =
     (if hidden st
      then (if length (hand (ps st p)) < 7 then draw H p (7 - length (hand (ps st p))) st else Some st)
      else libraryLoop H p [] st)"

text \<open>A choice is offered when the hand has a fitting card; with hidden hands whenever it has a card.\<close>

definition may_frame :: "(nat \<Rightarrow> bool) \<Rightarrow> nat \<Rightarrow> sh_frame \<Rightarrow> sh \<Rightarrow> sh" where
  "may_frame P p f st =
     (if (if hidden st then hand (ps st p) \<noteq> [] else \<exists>c \<in> set (hand (ps st p)). P c) then push_frame f st else st)"

definition resolveCard :: "(nat \<Rightarrow> nat) \<Rightarrow> nat \<Rightarrow> nat \<Rightarrow> sh \<Rightarrow> sh option" where
  "resolveCard H p c st =
     (if c = 7 then Some (push_frame (Cel p) (add_actions 1 st))
      else if c = 8 then Some (push_frame (Chp p) st)
      else if c = 9 then draw H p 2 st
      else if c = 10 then do { st1 \<leftarrow> draw H p 1 st; let st2 = add_actions 1 st1;
             Some (if disc (ps st2 p) \<noteq> [] then push_frame (Har p) st2 else st2) }
      else if c = 11 then do { st1 \<leftarrow> draw H p 1 st; Some ((add_actions 1 st1)\<lparr>merch := merch st1 + 1\<rparr>) }
      else if c = 12 then play_whirlwind H p st
      else if c = 13 then do { st1 \<leftarrow> draw H p 1 st; Some (add_actions 2 st1) }
      else if c = 14 then Some (push_frame (Wsh p) st)
      else if c = 15 then play_collector H p st
      else if c = 17 then attack H p 17 (add_coins 2 st)
      else if c = 18 then Some (may_frame (\<lambda>x. x = COPPER) p (Mon p) st)
      else if c = 19 then play_drifter H p st
      else if c = 20 then Some (if hand (ps st p) \<noteq> [] then push_frame (RemT p) st else st)
      else if c = 21 then draw H p 3 st
      else if c = 22 then Some (may_frame isA p (Thr p) st)
      else if c = 23 then attack H p 23 (snd (gain p GOLD InDisc ''gain'' st))
      else if c = 24 then do { st1 \<leftarrow> draw H p 4 st; draw H (1 - p) 1 (add_buys 1 st1) }
      else if c = 25 then Some (add_coins 2 (add_buys 1 (add_actions 2 st)))
      else if c = 26 then do { st1 \<leftarrow> draw H p 2 st; Some (add_actions 1 st1) }
      else if c = 27 then play_almanac H p st
      else if c = 28 then do { st1 \<leftarrow> draw H p 1 st; Some (add_coins 1 (add_buys 1 (add_actions 1 st1))) }
      else if c = 29 then Some (may_frame isT p (MinT p) st)
      else if c = 30 then play_skywatch H p st
      else if c = 31 then do { st1 \<leftarrow> draw H p 2 st; attack H p 31 st1 }
      else if c = 32 then Some (push_frame (ArtG p) st)
      else Some (spoil (''unknown action '' @ show_nat c) st))"

text \<open>
  \<^verbatim>\<open>drainAuto\<close>: the second play of Echo fires when it is on top of the stack. Each round removes one
  such frame and no card effect adds one, so their number \<open>n\<close> bounds the rounds.
\<close>

fun is_tr2 :: "sh_frame \<Rightarrow> bool" where
  "is_tr2 (Tr2 p c) = True"
| "is_tr2 _ = False"

primrec drain :: "(nat \<Rightarrow> nat) \<Rightarrow> nat \<Rightarrow> sh \<Rightarrow> sh option" where
  "drain H 0 st = Some st"
| "drain H (Suc n) st =
     (if sh_corrupt st \<or> frames st = [] then Some st
      else case last (frames st) of
        Tr2 p c \<Rightarrow> do {
          st1 \<leftarrow> resolveCard H p c (sh_note p ''play2'' (Some c) None (st\<lparr>frames := butlast (frames st)\<rparr>));
          drain H n st1 }
      | _ \<Rightarrow> Some st)"

definition drainAuto :: "(nat \<Rightarrow> nat) \<Rightarrow> sh \<Rightarrow> sh option" where
  "drainAuto H st = drain H (length (filter is_tr2 (frames st))) st"

section \<open>Decisions\<close>

definition remove_idxs :: "nat list \<Rightarrow> nat list \<Rightarrow> nat list" where
  "remove_idxs idxs xs = fold remove_at (rev idxs) xs"

text \<open>The chosen cards go to the discard pile, the highest index first; \<open>None\<close> is the code's -1.\<close>

definition discardMask :: "nat \<Rightarrow> nat \<Rightarrow> nat option \<Rightarrow> sh \<Rightarrow> (nat \<times> sh) option" where
  "discardMask p m exactN st =
     (let z = ps st p; idxs = bits m
      in if \<exists>i \<in> set idxs. i \<ge> length (hand z) then None
         else if (case exactN of None \<Rightarrow> False | Some n \<Rightarrow> length idxs \<noteq> n) then None
         else (let st1 = set_zone p (z\<lparr>hand := remove_idxs idxs (hand z),
                                       disc := disc z @ map (\<lambda>i. hand z ! i) (rev idxs)\<rparr>) st
               in Some (length idxs, if idxs \<noteq> [] then sh_note p ''discard'' None (Some (length idxs)) st1 else st1)))"

definition fr_cel :: "(nat \<Rightarrow> nat) \<Rightarrow> nat \<Rightarrow> nat \<Rightarrow> sh \<Rightarrow> sh option" where
  "fr_cel H p payload st =
     (case discardMask p payload None st of
        None \<Rightarrow> Some (spoil ''cellar mask'' st)
      | Some (n, st1) \<Rightarrow> draw H p n st1)"

definition trash_hand :: "nat \<Rightarrow> nat \<Rightarrow> sh \<Rightarrow> sh" where
  "trash_hand p i st = (case lift_hand p i st of (c, st1) \<Rightarrow> sh_note p ''trash'' (Some c) None (put_trash c st1))"

definition fr_chp :: "nat \<Rightarrow> nat \<Rightarrow> sh \<Rightarrow> sh" where
  "fr_chp p payload st =
     (let idxs = bits payload
      in if length idxs > 4 \<or> (\<exists>i \<in> set idxs. i \<ge> length (hand (ps st p))) then spoil ''chapel mask'' st
         else fold (trash_hand p) (rev idxs) st)"

definition fr_har :: "nat \<Rightarrow> nat \<Rightarrow> sh \<Rightarrow> sh" where
  "fr_har p payload st =
     (if payload = 0 then st
      else (let i = payload - 1; z = ps st p
            in if i \<ge> length (disc z) then spoil ''harbinger idx'' st
               else sh_note p ''topdeck'' (Some (disc z ! i)) None
                      (set_zone p (z\<lparr>disc := remove_at i (disc z), deck := deck z @ [disc z ! i]\<rparr>) st)))"

definition fr_vas :: "(nat \<Rightarrow> nat) \<Rightarrow> nat \<Rightarrow> nat \<Rightarrow> nat \<Rightarrow> sh \<Rightarrow> sh option" where
  "fr_vas H p c payload st =
     (if payload = 1 then resolveCard H p c (sh_note p ''play2'' (Some c) None (put_play p c st))
      else Some (sh_note p ''discard1'' (Some c) None (put InDisc p c st)))"

definition fr_vasH :: "(nat \<Rightarrow> nat) \<Rightarrow> nat \<Rightarrow> nat \<Rightarrow> nat \<Rightarrow> sh \<Rightarrow> sh option" where
  "fr_vasH H p fc payload st =
     (if payload = 0 then Some (sh_note p ''discard'' None (Some 1) (put InDisc p fc st))
      else if payload mod 2 \<noteq> 1 then Some (spoil ''vasH payload'' st)
      else (let c = payload div 2 mod 64
            in if \<not> card_exists c \<or> \<not> isA c then Some (spoil ''vasH claim not an action'' st)
               else if known st p \<and> fc \<noteq> c then Some (cheat p ''whirlwind reveal'' st)
               else resolveCard H p c (sh_note p ''play2'' (Some c) None (put_play p c st))))"

definition fr_mil :: "nat \<Rightarrow> nat \<Rightarrow> sh \<Rightarrow> sh" where
  "fr_mil p payload st =
     (if length (hand (ps st p)) < 3 then spoil ''militia mask'' st
      else case discardMask p payload (Some (length (hand (ps st p)) - 3)) st of
        None \<Rightarrow> spoil ''militia mask'' st
      | Some (n, st1) \<Rightarrow> st1)"

definition fr_bur :: "nat \<Rightarrow> nat \<Rightarrow> sh \<Rightarrow> sh" where
  "fr_bur p payload st =
     (if payload \<ge> length (hand (ps st p)) \<or> \<not> isV (hand (ps st p) ! payload) then spoil ''bureaucrat idx'' st
      else case lift_hand p payload st of (c, st1) \<Rightarrow> sh_note p ''topdeck'' (Some c) None (put InDeck p c st1))"

definition fr_ban :: "nat \<Rightarrow> nat list \<Rightarrow> nat \<Rightarrow> sh \<Rightarrow> sh" where
  "fr_ban p cards payload st =
     (if payload > 1 \<or> payload \<ge> length cards then spoil ''bandit pick'' st
      else if \<not> eligible (cards ! payload) then spoil ''bandit pick not eligible'' st
      else put InDisc p (cards ! (1 - payload))
             (sh_note p ''trash'' (Some (cards ! payload)) None (put_trash (cards ! payload) st)))"

definition banH_ok :: "nat list \<Rightarrow> nat \<Rightarrow> bool" where
  "banH_ok claims pick \<longleftrightarrow>
     (let elig = filter (\<lambda>i. eligible (claims ! i)) [0..<length claims]
      in pick < length claims \<and> pick \<in> set elig \<and>
         \<not> (length elig = 2 \<and> claims ! 0 = claims ! 1 \<and> pick \<noteq> 0) \<and>
         \<not> (length elig = 1 \<and> pick \<noteq> elig ! 0))"

definition fr_banH :: "nat \<Rightarrow> nat list \<Rightarrow> nat \<Rightarrow> sh \<Rightarrow> sh" where
  "fr_banH p cards payload st =
     (let pick = payload mod 3; c0 = payload div 3 mod 64; c1 = payload div 192 mod 64;
          claims = (if length cards = 2 then [c0, c1] else [c0])
      in if \<exists>c \<in> set claims. \<not> card_exists c \<or> c = UNKNOWN then spoil ''banH claim ids'' st
         else if known st p \<and> (\<exists>i < length claims. cards ! i \<noteq> claims ! i) then cheat p ''storm riders reveal'' st
         else (let st1 = fold (\<lambda>c. sh_note p ''revealc'' (Some c) None) claims st
               in if pick = 2
                  then (if \<exists>c \<in> set claims. eligible c then spoil ''banH must trash'' st1
                        else fold (put InDisc p) claims st1)
                  else if \<not> banH_ok claims pick then spoil ''banH pick'' st1
                  else fold (put InDisc p) (remove_at pick claims)
                         (sh_note p ''trash'' (Some (claims ! pick)) None (put_trash (claims ! pick) st1))))"

definition fr_burH :: "nat \<Rightarrow> nat \<Rightarrow> sh \<Rightarrow> sh" where
  "fr_burH p payload st =
     (if payload = 0
      then (if known st p \<and> (\<exists>c \<in> set (hand (ps st p)). isV c) then cheat p ''collector dodge'' st
            else sh_note p ''reveal'' None None st)
      else if payload mod 2 \<noteq> 1 then spoil ''burH payload'' st
      else (let r = payload div 2; i = clX r; c = clC r
            in if \<not> card_exists c \<or> \<not> isV c then spoil ''burH claim not victory'' st
               else (case materialize st p i c of (ok, st1) \<Rightarrow>
                       if \<not> ok then cheat p ''collector topdeck'' st1
                       else (case lift_hand p i st1 of (x, st2) \<Rightarrow>
                               sh_note p ''topdeck'' (Some c) None (put InDeck p x st2)))))"

text \<open>Smelter: an observer takes the last card of the hidden hand for the Copper.\<close>

definition fr_mon :: "nat \<Rightarrow> nat \<Rightarrow> sh \<Rightarrow> sh" where
  "fr_mon p payload st =
     (let z = ps st p
      in if payload \<noteq> 1 then st
         else if hidden st \<and> \<not> known st p
         then (if hand z = [] then spoil ''no copper'' st
               else add_coins 3 (sh_note p ''trash'' (Some COPPER) None
                      (put_trash COPPER (set_zone p (z\<lparr>hand := butlast (hand z)\<rparr>) st))))
         else if COPPER \<notin> set (hand z)
         then (if hidden st then cheat p ''smelter copper'' st else spoil ''no copper'' st)
         else (case lift_hand p (find_index (\<lambda>x. x = COPPER) (hand z)) st of (c, st1) \<Rightarrow>
                 add_coins 3 (sh_note p ''trash'' (Some COPPER) None (put_trash c st1))))"

definition fr_poa :: "nat \<Rightarrow> nat \<Rightarrow> nat \<Rightarrow> sh \<Rightarrow> sh" where
  "fr_poa p n payload st =
     (case discardMask p payload (Some n) st of
        None \<Rightarrow> spoil ''poacher mask'' st
      | Some (k, st1) \<Rightarrow> st1)"

text \<open>Reforge: the cost of the trashed card is read from the table, also when it was only claimed.\<close>

definition fr_remT :: "nat \<Rightarrow> nat \<Rightarrow> sh \<Rightarrow> sh" where
  "fr_remT p payload st =
     (let i = (if hidden st then clX payload else payload)
      in if i \<ge> length (hand (ps st p)) then spoil ''remodel idx'' st
         else (case (if hidden st then materialize st p i (clC payload) else (True, st)) of (ok, st1) \<Rightarrow>
                 if \<not> ok then cheat p ''reforge trash'' st1
                 else (case lift_hand p i st1 of (c, st2) \<Rightarrow>
                         (let st3 = sh_note p ''trash'' (Some c) None (put_trash c st2)
                          in if \<not> card_exists c then st3\<lparr>threw := True\<rparr>
                             else push_frame (RemG p (card_cost c + 2)) st3))))"

definition fr_remG :: "nat \<Rightarrow> nat \<Rightarrow> nat \<Rightarrow> sh \<Rightarrow> sh" where
  "fr_remG p mx payload st =
     (if payload = SKIP then (if gainable st mx False \<noteq> [] then spoil ''remodel must gain'' st else st)
      else if \<not> card_exists payload \<or> card_cost payload > mx \<or> \<not> in_supply st payload then spoil ''remodel gain'' st
      else snd (gain p payload InDisc ''gain'' st))"

definition fr_thr :: "(nat \<Rightarrow> nat) \<Rightarrow> nat \<Rightarrow> nat \<Rightarrow> sh \<Rightarrow> sh option" where
  "fr_thr H p payload st =
     (if payload = SKIP then Some st
      else (let i = (if hidden st then clX payload else payload); claim = clC payload
            in if i \<ge> length (hand (ps st p)) then Some (spoil ''throne idx'' st)
               else if hidden st \<and> (\<not> card_exists claim \<or> \<not> isA claim) then Some (spoil ''throne claim'' st)
               else if \<not> hidden st \<and> \<not> isA (hand (ps st p) ! i) then Some (spoil ''throne idx'' st)
               else (case (if hidden st then materialize st p i claim else (True, st)) of (ok, st1) \<Rightarrow>
                       if \<not> ok then Some (cheat p ''echo pick'' st1)
                       else (case lift_hand p i st1 of (c, st2) \<Rightarrow>
                               resolveCard H p c
                                 (push_frame (Tr2 p c) (sh_note p ''play'' (Some c) None (put_play p c st2)))))))"

definition fr_minT :: "nat \<Rightarrow> nat \<Rightarrow> sh \<Rightarrow> sh" where
  "fr_minT p payload st =
     (if payload = SKIP then st
      else (let i = (if hidden st then clX payload else payload); claim = clC payload
            in if i \<ge> length (hand (ps st p)) then spoil ''mine trash'' st
               else if hidden st \<and> (\<not> card_exists claim \<or> \<not> isT claim) then spoil ''mine claim'' st
               else if \<not> hidden st \<and> \<not> isT (hand (ps st p) ! i) then spoil ''mine trash'' st
               else (case (if hidden st then materialize st p i claim else (True, st)) of (ok, st1) \<Rightarrow>
                       if \<not> ok then cheat p ''refinery trash'' st1
                       else (case lift_hand p i st1 of (c, st2) \<Rightarrow>
                               push_frame (MinG p (card_cost c + 3))
                                 (sh_note p ''trash'' (Some c) None (put_trash c st2))))))"

definition fr_minG :: "nat \<Rightarrow> nat \<Rightarrow> nat \<Rightarrow> sh \<Rightarrow> sh" where
  "fr_minG p mx payload st =
     (if payload = SKIP then (if gainable st mx True \<noteq> [] then spoil ''mine must gain'' st else st)
      else if \<not> card_exists payload \<or> \<not> isT payload \<or> card_cost payload > mx \<or> \<not> in_supply st payload
      then spoil ''mine gain'' st
      else snd (gain p payload InHand ''gain'' st))"

text \<open>Skywatch: trash, discard or keep each card; the kept ones go back so that the first ends on top.\<close>

fun sen_split :: "nat \<Rightarrow> (nat \<times> nat) list \<Rightarrow> nat list \<Rightarrow> sh \<Rightarrow> nat list \<times> sh" where
  "sen_split p [] kept st = (kept, st)"
| "sen_split p ((c, d) # cs) kept st =
     (if d = 2 then sen_split p cs kept (sh_note p ''trash'' (Some c) None (put_trash c st))
      else if d = 1 then sen_split p cs kept (sh_note p ''discard1'' (Some c) None (put InDisc p c st))
      else sen_split p cs (kept @ [c]) st)"

definition fr_sen :: "nat \<Rightarrow> nat list \<Rightarrow> nat \<Rightarrow> sh \<Rightarrow> sh" where
  "fr_sen p cards payload st =
     (let d0 = payload mod 3; d1 = payload div 3 mod 3; swap = payload div 9 mod 2
      in if payload \<ge> 18 \<or> (length cards = 1 \<and> (d1 \<noteq> 0 \<or> swap \<noteq> 0)) then spoil ''sentry payload'' st
         else (case sen_split p (zip cards [d0, d1]) [] st of (kept, st1) \<Rightarrow>
                 fold (put InDeck p) (rev (if length kept = 2 \<and> swap = 1 then rev kept else kept)) st1))"

definition fr_lib :: "(nat \<Rightarrow> nat) \<Rightarrow> nat \<Rightarrow> nat \<Rightarrow> nat list \<Rightarrow> nat \<Rightarrow> sh \<Rightarrow> sh option" where
  "fr_lib H p c aside payload st =
     (if payload = 1 then libraryLoop H p (aside @ [c]) st else libraryLoop H p aside (put InHand p c st))"

definition fr_artG :: "nat \<Rightarrow> nat \<Rightarrow> sh \<Rightarrow> sh" where
  "fr_artG p payload st =
     (if payload = SKIP
      then (if gainable st 5 False \<noteq> [] then spoil ''artisan must gain'' st
            else if hand (ps st p) \<noteq> [] then push_frame (ArtT p) st else st)
      else if \<not> card_exists payload \<or> card_cost payload > 5 \<or> \<not> in_supply st payload then spoil ''artisan gain'' st
      else push_frame (ArtT p) (snd (gain p payload InHand ''gain'' st)))"

definition fr_artT :: "nat \<Rightarrow> nat \<Rightarrow> sh \<Rightarrow> sh" where
  "fr_artT p payload st =
     (if payload \<ge> length (hand (ps st p)) then spoil ''artisan topdeck'' st
      else case lift_hand p payload st of (c, st1) \<Rightarrow> sh_note p ''topdeck'' (Some c) None (put InDeck p c st1))"

definition fr_wsh :: "nat \<Rightarrow> nat \<Rightarrow> sh \<Rightarrow> sh" where
  "fr_wsh p payload st =
     (if payload = SKIP then (if gainable st 4 False \<noteq> [] then spoil ''workshop must gain'' st else st)
      else if \<not> card_exists payload \<or> card_cost payload > 4 \<or> \<not> in_supply st payload then spoil ''workshop gain'' st
      else snd (gain p payload InDisc ''gain'' st))"

definition fr_moat :: "(nat \<Rightarrow> nat) \<Rightarrow> nat \<Rightarrow> nat \<Rightarrow> nat \<Rightarrow> sh \<Rightarrow> sh option" where
  "fr_moat H p atk payload st =
     (if payload = 1
      then Some (if hidden st \<and> known st p \<and> WINDBREAK \<notin> set (hand (ps st p)) then cheat p ''windbreak bluff'' st
                 else sh_note p ''immune'' (Some WINDBREAK) None st)
      else applyAttack H atk p st)"

definition resolveFrame :: "(nat \<Rightarrow> nat) \<Rightarrow> nat \<Rightarrow> sh \<Rightarrow> sh option" where
  "resolveFrame H payload st0 =
     (let st = st0\<lparr>frames := butlast (frames st0)\<rparr>
      in case last (frames st0) of
        Cel p \<Rightarrow> fr_cel H p payload st
      | Chp p \<Rightarrow> Some (fr_chp p payload st)
      | Har p \<Rightarrow> Some (fr_har p payload st)
      | Vas p c \<Rightarrow> fr_vas H p c payload st
      | VasH p c \<Rightarrow> fr_vasH H p c payload st
      | Mil p \<Rightarrow> Some (fr_mil p payload st)
      | Bur p \<Rightarrow> Some (fr_bur p payload st)
      | Ban p cs \<Rightarrow> Some (fr_ban p cs payload st)
      | BanH p cs \<Rightarrow> Some (fr_banH p cs payload st)
      | BurH p \<Rightarrow> Some (fr_burH p payload st)
      | Mon p \<Rightarrow> Some (fr_mon p payload st)
      | Poa p n \<Rightarrow> Some (fr_poa p n payload st)
      | RemT p \<Rightarrow> Some (fr_remT p payload st)
      | RemG p mx \<Rightarrow> Some (fr_remG p mx payload st)
      | Thr p \<Rightarrow> fr_thr H p payload st
      | Tr2 p c \<Rightarrow> Some (spoil ''unknown frame tr2'' st)
      | MinT p \<Rightarrow> Some (fr_minT p payload st)
      | MinG p mx \<Rightarrow> Some (fr_minG p mx payload st)
      | Sen p cs \<Rightarrow> Some (fr_sen p cs payload st)
      | Lib p c aside \<Rightarrow> fr_lib H p c aside payload st
      | ArtG p \<Rightarrow> Some (fr_artG p payload st)
      | ArtT p \<Rightarrow> Some (fr_artT p payload st)
      | Wsh p \<Rightarrow> Some (fr_wsh p payload st)
      | Moat p atk \<Rightarrow> fr_moat H p atk payload st)"

end
