(* ===== verification/StormReplay.thy ===== *)
theory StormReplay
  imports StormPlay
begin

text \<open>
  Moves of a turn, scoring, the replay and the reveal-time verification of Stormhold
  (\<^verbatim>\<open>static/stormhold-engine.js\<close>, from \<^verbatim>\<open>legalActor\<close> to the end).
\<close>

section \<open>Scoring\<close>

definition allCards :: "sh \<Rightarrow> nat \<Rightarrow> nat list" where
  "allCards st p = (let z = ps st p in deck z @ hand z @ disc z @ play z)"

definition scoreOf :: "sh \<Rightarrow> nat \<Rightarrow> int" where
  "scoreOf st p =
     (let cards = allCards st p
      in sum_list (map (\<lambda>c. vp (CARDS ! c) + (if c = TERRACES then int (length cards div 10) else 0)) cards))"

definition computeResult :: "sh \<Rightarrow> nat" where
  "computeResult st =
     (let s0 = scoreOf st 0; s1 = scoreOf st 1; t0 = turns (ps st 0); t1 = turns (ps st 1)
      in if s0 \<noteq> s1 then (if s0 > s1 then 1 else 2)
         else if t0 \<noteq> t1 then (if t0 < t1 then 1 else 2)
         else 3)"

section \<open>Moves\<close>

definition legalActor :: "sh \<Rightarrow> nat" where
  "legalActor st = (if frames st \<noteq> [] then frame_actor (last (frames st)) else sh_turn st)"

definition do_play :: "(nat \<Rightarrow> nat) \<Rightarrow> nat \<Rightarrow> nat \<Rightarrow> sh \<Rightarrow> sh option" where
  "do_play H p payload st =
     (if sh_phase st \<noteq> 0 then Some (spoil ''not action phase'' st)
      else if actions st < 1 then Some (spoil ''no actions left'' st)
      else (let i = (if hidden st then clX payload else payload); claim = clC payload
            in if i \<ge> length (hand (ps st p)) then Some (spoil ''play idx'' st)
               else if hidden st \<and> (\<not> card_exists claim \<or> \<not> isA claim) then Some (spoil ''play claim'' st)
               else if \<not> hidden st \<and> \<not> isA (hand (ps st p) ! i) then Some (spoil ''play idx'' st)
               else (case (if hidden st then materialize st p i claim else (True, st)) of (ok, st1) \<Rightarrow>
                       if \<not> ok then Some (cheat p ''action play'' st1)
                       else (case lift_hand p i st1 of (c, st2) \<Rightarrow>
                               (let st3 = put_play p c st2
                                in resolveCard H p c (sh_note p ''play'' (Some c) None (st3\<lparr>actions := actions st3 - 1\<rparr>)))))))"

definition play_treasure :: "nat \<Rightarrow> nat \<Rightarrow> sh \<Rightarrow> sh" where
  "play_treasure p c st = sh_note p ''playT'' (Some c) None (add_coins (coin (CARDS ! c)) (put_play p c st))"

definition drop_hand :: "nat \<Rightarrow> nat list \<Rightarrow> sh \<Rightarrow> sh" where
  "drop_hand p idxs st = set_zone p ((ps st p)\<lparr>hand := remove_idxs idxs (hand (ps st p))\<rparr>) st"

text \<open>The claimed treasures, copper first: the canonical order of a hidden game.\<close>

definition treasure_run :: "nat \<Rightarrow> nat \<Rightarrow> nat \<Rightarrow> nat list" where
  "treasure_run c s g = replicate c COPPER @ replicate s SILVER @ replicate g GOLD"

definition merchant_bonus :: "nat \<Rightarrow> bool \<Rightarrow> sh \<Rightarrow> sh" where
  "merchant_bonus p silver st =
     (if silver \<and> \<not> silverDone st
      then (let st1 = st\<lparr>coins := coins st + merch st, silverDone := True\<rparr>
            in if merch st1 > 0 then sh_note p ''merchant'' (Some SILVER) (Some (merch st1)) st1 else st1)
      else st)"

definition do_coins :: "nat \<Rightarrow> nat \<Rightarrow> sh \<Rightarrow> sh" where
  "do_coins p payload st0 =
     (let h = hand (ps st0 p); idxs = bits (if hidden st0 then payload mod 16777216 else payload);
          cc = payload div 16777216; nc = cc mod 32; ns = cc div 32 mod 32; ng = cc div 1024 mod 32;
          cards = map (\<lambda>i. h ! i) (rev idxs)
      in if idxs = [] \<or> (\<exists>i \<in> set idxs. i \<ge> length h) then spoil ''coins mask'' st0
         else if hidden st0 \<and> nc + ns + ng \<noteq> length idxs then spoil ''coins claim count'' st0
         else (let st = st0\<lparr>sh_phase := 1\<rparr>
               in if hidden st \<and> \<not> known st p
                  then merchant_bonus p (ns > 0) (fold (play_treasure p) (treasure_run nc ns ng) (drop_hand p idxs st))
                  else if \<exists>i \<in> set idxs. \<not> isT (h ! i)
                  then (if hidden st then cheat p ''treasure mask'' st else spoil ''coins mask'' st)
                  else if hidden st
                  then (let rc = count_list cards COPPER; rs = count_list cards SILVER; rg = count_list cards GOLD
                        in if rc \<noteq> nc \<or> rs \<noteq> ns \<or> rg \<noteq> ng then cheat p ''treasure counts'' st
                           else merchant_bonus p (rs > 0) (fold (play_treasure p) (treasure_run rc rs rg) (drop_hand p idxs st)))
                  else merchant_bonus p (SILVER \<in> set cards) (fold (play_treasure p) cards (drop_hand p idxs st))))"

definition do_buy :: "nat \<Rightarrow> nat \<Rightarrow> sh \<Rightarrow> sh" where
  "do_buy p c st0 =
     (if \<not> card_exists c then spoil ''buy id'' st0
      else (let st = st0\<lparr>sh_phase := 1\<rparr>
            in if buys st < 1 then spoil ''no buys'' st
               else if \<not> in_supply st c then spoil ''pile empty'' st
               else if coins st < card_cost c then spoil ''can't afford'' st
               else snd (gain p c InDisc ''buy'' (st\<lparr>coins := coins st - card_cost c, buys := buys st - 1\<rparr>))))"

definition do_end :: "(nat \<Rightarrow> nat) \<Rightarrow> nat \<Rightarrow> sh \<Rightarrow> sh option" where
  "do_end H p st =
     (let z = ps st p; z1 = z\<lparr>disc := disc z @ hand z @ play z, hand := [], play := [], turns := turns z + 1\<rparr>;
          st1 = sh_note p ''endturn'' None (Some (turns z1)) (set_zone p z1 st)
      in if stock st1 CITADEL = Some 0 \<or> emptyPiles st1 \<ge> 3
         then (let r = (if hidden st1 \<and> pov st1 \<noteq> None then 0 else computeResult st1)
               in Some (sh_note p ''gameover'' None (Some r) (st1\<lparr>sh_over := True, sh_result := r\<rparr>)))
         else do {
           st2 \<leftarrow> draw H p 5 st1;
           Some (st2\<lparr>sh_turn := 1 - p, sh_phase := 0, actions := 1, buys := 1, coins := 0, merch := 0, silverDone := False\<rparr>)
         })"

definition sh_apply :: "(nat \<Rightarrow> nat) \<Rightarrow> nat \<Rightarrow> nat \<Rightarrow> sh \<Rightarrow> sh option" where
  "sh_apply H side e st =
     (if sh_corrupt st then Some st
      else if sh_over st then Some (spoil ''move after game over'' st)
      else (case sh_decMove e of (opc, payload) \<Rightarrow>
        let p = side - 1
        in if side \<noteq> legalActor st + 1 then Some (spoil ''wrong actor'' st)
           else if frames st \<noteq> []
           then (if opc \<noteq> 5 then Some (spoil ''decision pending'' st)
                 else do { st1 \<leftarrow> resolveFrame H payload st; if threw st1 then Some st1 else drainAuto H st1 })
           else if opc = 1 then do { st1 \<leftarrow> do_play H p payload st; drainAuto H st1 }
           else if opc = 2 then drainAuto H (do_coins p payload st)
           else if opc = 3 then drainAuto H (do_buy p payload st)
           else if opc = 4 then do { st1 \<leftarrow> do_end H p st; drainAuto H st1 }
           else Some (spoil (''bad op '' @ show_nat opc) st)))"

section \<open>Replay\<close>

text \<open>
  A record is \<open>(enc, side, seed)\<close>. The outcome is the state, the marker of a setup whose seed is
  pending, or an exception that leaves \<^verbatim>\<open>replay\<close>. When a move is blocked the state before it is
  restored.
\<close>

type_synonym sh_rec = "nat \<times> nat \<times> sh_seed"

datatype sh_outcome = SetupBlocked | Threw | Final sh

fun sh_loop :: "(nat \<Rightarrow> nat) \<Rightarrow> nat \<Rightarrow> sh_rec list \<Rightarrow> sh \<Rightarrow> sh" where
  "sh_loop H i [] st = st"
| "sh_loop H i ((e, side, q) # recs) st =
     (if sh_corrupt st \<or> threw st then st
      else case sh_apply H side e (st\<lparr>sq := q\<rparr>) of
        None \<Rightarrow> st\<lparr>sh_blocked := True, blockedAt := int i\<rparr>
      | Some st' \<Rightarrow> sh_loop H (i + 1) recs (st'\<lparr>sh_mi := i + 1\<rparr>))"

definition sh_replay :: "(nat \<Rightarrow> nat) \<Rightarrow> nat \<Rightarrow> sh_seed \<Rightarrow> sh_rec list \<Rightarrow> nat \<Rightarrow> bool \<Rightarrow> nat option \<Rightarrow> sh_outcome" where
  "sh_replay H g khQ recs m hid pv =
     (case sh_init H g khQ m hid pv of
        None \<Rightarrow> SetupBlocked
      | Some st \<Rightarrow> (let st' = sh_loop H 0 recs st in if threw st' then Threw else Final (st'\<lparr>sq := NoSeed\<rparr>)))"

text \<open>\<^verbatim>\<open>BigInt.toString(16)\<close>.\<close>

definition hex_char :: "nat \<Rightarrow> char" where
  "hex_char d = (if d < 10 then char_of (48 + d) else char_of (87 + d))"

fun show_hex :: "nat \<Rightarrow> string" where
  "show_hex n = (if n < 16 then [hex_char n] else show_hex (n div 16) @ [hex_char (n mod 16)])"

declare show_hex.simps [simp del]

definition mixQ :: "(string \<Rightarrow> nat) \<Rightarrow> nat option \<Rightarrow> nat option \<Rightarrow> nat option" where
  "mixQ HS baseQ secret =
     (case (baseQ, secret) of
        (Some q, Some s) \<Rightarrow> Some (HS (show_hex (q mod 2 ^ 200) @ '':'' @ show_hex s))
      | _ \<Rightarrow> None)"

definition mix_streams :: "(string \<Rightarrow> nat) \<Rightarrow> nat option \<times> nat option \<Rightarrow> nat option \<Rightarrow> sh_seed" where
  "mix_streams HS secrets q = Streams q (mixQ HS q (fst secrets)) (mixQ HS q (snd secrets))"

definition verifyHidden :: "(nat \<Rightarrow> nat) \<Rightarrow> (string \<Rightarrow> nat) \<Rightarrow> nat \<Rightarrow> nat option \<Rightarrow> (nat \<times> nat \<times> nat option) list \<Rightarrow> nat \<Rightarrow>
    nat option \<times> nat option \<Rightarrow> sh_outcome" where
  "verifyHidden H HS g khQ recs m secrets =
     sh_replay H g (mix_streams HS secrets khQ)
       (map (\<lambda>(e, side, q). (e, side, mix_streams HS secrets q)) recs) m True None"

end
