(* ===== verification/StormInvariants.thy ===== *)
theory StormInvariants
  imports StormReplay
begin

text \<open>
  The books of Stormhold. For a weight \<open>g\<close> of card ids, \<open>tally g st\<close> adds up the weights of every card
  of the game: zones, trash, piles and the cards a pending decision holds. With the indicator of an
  id as weight it counts that card, with the constant 1 it counts all cards. It is kept by every
  operation when the browser knows all cards, and, for a constant weight, also for an observer to
  whom cards are opaque. Operations that may block are dealt with by rules for \<^theory_text>\<open>Option.bind\<close>.
\<close>

declare One_nat_def [simp del]

section \<open>The tally\<close>

definition cards_sum :: "(nat \<Rightarrow> int) \<Rightarrow> nat list \<Rightarrow> int" where
  "cards_sum g cs = sum_list (map g cs)"

definition zone_sum :: "(nat \<Rightarrow> int) \<Rightarrow> sh_zone \<Rightarrow> int" where
  "zone_sum g z = cards_sum g (deck z) + cards_sum g (hand z) + cards_sum g (disc z) + cards_sum g (play z)"

fun held :: "(nat \<Rightarrow> int) \<Rightarrow> sh_frame \<Rightarrow> int" where
  "held g (Vas _ c) = g c"
| "held g (VasH _ c) = g c"
| "held g (Ban _ cs) = cards_sum g cs"
| "held g (BanH _ cs) = cards_sum g cs"
| "held g (Sen _ cs) = cards_sum g cs"
| "held g (Lib _ c aside) = g c + cards_sum g aside"
| "held g _ = 0"

definition pile_size :: "sh \<Rightarrow> nat \<Rightarrow> int" where
  "pile_size st c = (case stock st c of None \<Rightarrow> 0 | Some n \<Rightarrow> int n)"

definition tally :: "(nat \<Rightarrow> int) \<Rightarrow> sh \<Rightarrow> int" where
  "tally g st =
     zone_sum g (ps st 0) + zone_sum g (ps st 1) + cards_sum g (trash st) +
     sum_list (map (held g) (frames st)) + (\<Sum>c < 34. pile_size st c * g c)"

text \<open>Pending decisions belong to one of the two players and hold as many cards as their kind does.\<close>

fun frame_ok :: "sh_frame \<Rightarrow> bool" where
  "frame_ok (Ban p cs) \<longleftrightarrow> p \<le> 1 \<and> length cs = 2"
| "frame_ok (BanH p cs) \<longleftrightarrow> p \<le> 1 \<and> (length cs = 1 \<or> length cs = 2)"
| "frame_ok (Sen p cs) \<longleftrightarrow> p \<le> 1 \<and> (length cs = 1 \<or> length cs = 2)"
| "frame_ok f \<longleftrightarrow> frame_actor f \<le> 1"

definition sane :: "sh \<Rightarrow> bool" where
  "sane st \<longleftrightarrow> sh_turn st \<le> 1 \<and> (\<forall>f \<in> set (frames st). frame_ok f)"

definition countable :: "(nat \<Rightarrow> int) \<Rightarrow> sh \<Rightarrow> bool" where
  "countable g st \<longleftrightarrow> \<not> hidden st \<or> pov st = None \<or> (\<forall>x y. g x = g y)"

definition good :: "(nat \<Rightarrow> int) \<Rightarrow> int \<Rightarrow> sh \<Rightarrow> bool" where
  "good g M st \<longleftrightarrow> sane st \<and> countable g st \<and> (sh_corrupt st \<or> tally g st = M)"

definition goodo :: "(nat \<Rightarrow> int) \<Rightarrow> int \<Rightarrow> sh option \<Rightarrow> bool" where
  "goodo g M x \<longleftrightarrow> (\<forall>st. x = Some st \<longrightarrow> good g M st)"

lemma cards_sum_simps [simp]:
  "cards_sum g [] = 0" "cards_sum g (c # cs) = g c + cards_sum g cs" "cards_sum g (xs @ ys) = cards_sum g xs + cards_sum g ys"
  "cards_sum g (rev xs) = cards_sum g xs"
  by (simp_all add: cards_sum_def rev_map [symmetric])

lemma cards_sum_mset: "mset xs = mset ys \<Longrightarrow> cards_sum g xs = cards_sum g ys"
  unfolding cards_sum_def by (metis mset_map sum_mset_sum_list)

lemma cards_sum_const: "\<forall>x. g x = g 0 \<Longrightarrow> cards_sum g xs = int (length xs) * g 0"
  by (induction xs) (simp_all add: algebra_simps)

lemma cards_sum_same_length: "\<forall>x y. g x = g y \<Longrightarrow> length xs = length ys \<Longrightarrow> cards_sum g xs = cards_sum g ys"
  using cards_sum_const [of g xs] cards_sum_const [of g ys] by metis

lemma cards_sum_remove_at: "i < length xs \<Longrightarrow> cards_sum g (remove_at i xs) = cards_sum g xs - g (xs ! i)"
  using mset_remove_at [of i xs] cards_sum_mset [of xs "xs ! i # remove_at i xs" g] by simp

lemma cards_sum_butlast: "xs \<noteq> [] \<Longrightarrow> cards_sum g (butlast xs) = cards_sum g xs - g (last xs)"
  by (induction xs rule: rev_induct) simp_all

section \<open>Rules for options\<close>

lemma goodo_simps [simp]: "goodo g M None" "goodo g M (Some st) = good g M st"
  by (simp_all add: goodo_def)

lemma goodo_bind:
  "goodo g M x \<Longrightarrow> (\<And>st. good g M st \<Longrightarrow> goodo g M' (k st)) \<Longrightarrow> goodo g M' (Option.bind x k)"
  by (cases x) simp_all

lemma goodo_if: "(b \<Longrightarrow> goodo g M x) \<Longrightarrow> (\<not> b \<Longrightarrow> goodo g M y) \<Longrightarrow> goodo g M (if b then x else y)"
  by simp

lemma good_if: "(b \<Longrightarrow> good g M x) \<Longrightarrow> (\<not> b \<Longrightarrow> good g M y) \<Longrightarrow> good g M (if b then x else y)"
  by simp

section \<open>Primitive updates\<close>

lemma good_cong:
  assumes "sh_turn a = sh_turn b" "frames a = frames b" "hidden a = hidden b" "pov a = pov b"
    "sh_corrupt a = sh_corrupt b" "ps a = ps b" "trash a = trash b" "stock a = stock b"
  shows "good g M a = good g M b"
  using assms by (simp add: good_def sane_def countable_def tally_def pile_size_def)

lemma sh_note_simps [simp]:
  "ps (sh_note p ev c n st) = ps st" "frames (sh_note p ev c n st) = frames st" "hidden (sh_note p ev c n st) = hidden st"
  "pov (sh_note p ev c n st) = pov st" "sh_corrupt (sh_note p ev c n st) = sh_corrupt st" "trash (sh_note p ev c n st) = trash st"
  "stock (sh_note p ev c n st) = stock st" "sh_turn (sh_note p ev c n st) = sh_turn st" "kingdom (sh_note p ev c n st) = kingdom st"
  "threw (sh_note p ev c n st) = threw st" "sh_over (sh_note p ev c n st) = sh_over st"
  by (simp_all add: sh_note_def Let_def)

lemma good_plain [simp]:
  "good g M (sh_note p ev c n st) = good g M st"
  "good g M (add_actions k st) = good g M st" "good g M (add_buys k st) = good g M st" "good g M (add_coins k st) = good g M st"
  "good g M (st\<lparr>merch := x\<rparr>) = good g M st" "good g M (st\<lparr>coins := x\<rparr>) = good g M st"
  "good g M (st\<lparr>coins := x, buys := y\<rparr>) = good g M st" "good g M (st\<lparr>actions := x\<rparr>) = good g M st"
  "good g M (st\<lparr>coins := x, silverDone := b\<rparr>) = good g M st" "good g M (st\<lparr>sh_phase := x\<rparr>) = good g M st"
  "good g M (st\<lparr>shufN := x\<rparr>) = good g M st" "good g M (st\<lparr>sq := s\<rparr>) = good g M st" "good g M (st\<lparr>sh_mi := x\<rparr>) = good g M st"
  "good g M (st\<lparr>sh_over := b, sh_result := x\<rparr>) = good g M st" "good g M (st\<lparr>threw := b\<rparr>) = good g M st"
  "good g M (st\<lparr>sh_blocked := b, blockedAt := i\<rparr>) = good g M st" "good g M (st\<lparr>sh_logs := l\<rparr>) = good g M st"
  by (rule good_cong; simp add: add_actions_def add_buys_def add_coins_def)+

lemma good_spoil: "good g M st \<Longrightarrow> good g M' (spoil w st)"
  by (simp add: good_def spoil_def sane_def countable_def)

lemma good_cheat: "good g M st \<Longrightarrow> good g M' (cheat p w st)"
  by (simp add: good_def cheat_def spoil_def sane_def countable_def)

text \<open>A change of one player's zones shifts the tally by the change of that zone.\<close>

lemma good_zone:
  assumes "good g M st" "p \<le> 1" "M' = M - zone_sum g (ps st p) + zone_sum g z"
  shows "good g M' (set_zone p z st)"
proof -
  from assms(2) have "p = 0 \<or> p = 1" by auto
  then show ?thesis using assms
    by (auto simp: good_def set_zone_def sane_def countable_def tally_def pile_size_def)
qed

lemma good_put: "good g M st \<Longrightarrow> p \<le> 1 \<Longrightarrow> M' = M + g c \<Longrightarrow> good g M' (put w p c st)"
  unfolding put_def Let_def by (rule good_zone) (auto simp: zone_sum_def split: sh_place.split)

lemma good_put_play: "good g M st \<Longrightarrow> p \<le> 1 \<Longrightarrow> M' = M + g c \<Longrightarrow> good g M' (put_play p c st)"
  unfolding put_play_def by (rule good_zone) (auto simp: zone_sum_def)

lemma good_put_trash: "good g M st \<Longrightarrow> M' = M + g c \<Longrightarrow> good g M' (put_trash c st)"
  by (auto simp: good_def put_trash_def sane_def countable_def tally_def pile_size_def)

lemma good_fold_put:
  "good g M st \<Longrightarrow> p \<le> 1 \<Longrightarrow> M' = M + cards_sum g cs \<Longrightarrow> good g M' (fold (put w p) cs st)"
proof (induction cs arbitrary: st M)
  case (Cons c cs)
  have "good g (M + g c) (put w p c st)" using Cons.prems(1,2) by (intro good_put) simp_all
  from Cons.IH [OF this] Cons.prems(2,3) show ?case by simp
qed simp

lemma good_fold_note: "good g M (fold (\<lambda>c. sh_note p ev (Some c) n) cs st) = good g M st"
  by (induction cs arbitrary: st) simp_all

lemma good_push: "good g M st \<Longrightarrow> frame_ok f \<Longrightarrow> M' = M + held g f \<Longrightarrow> good g M' (push_frame f st)"
  by (auto simp: good_def push_frame_def sane_def countable_def tally_def pile_size_def)

lemma good_pop:
  assumes "good g M st" "frames st \<noteq> []"
  shows "good g (M - held g (last (frames st))) (st\<lparr>frames := butlast (frames st)\<rparr>)"
proof -
  have f: "frames st = butlast (frames st) @ [last (frames st)]" using assms(2) by simp
  have "sum_list (map (held g) (frames st)) = sum_list (map (held g) (butlast (frames st))) + held g (last (frames st))"
    by (subst f) (simp del: append_butlast_last_id)
  then show ?thesis using assms
    by (auto simp: good_def sane_def countable_def tally_def pile_size_def dest: in_set_butlastD)
qed

lemma good_lift:
  assumes "good g M st" "p \<le> 1" "i < length (hand (ps st p))" "lift_hand p i st = (c, st')"
  shows "good g (M - g c) st'"
  using assms(4) unfolding lift_hand_def
  using good_zone [OF assms(1,2), of "M - g c" "(ps st p)\<lparr>hand := remove_at i (hand (ps st p))\<rparr>"] assms(3)
  by (auto simp: zone_sum_def cards_sum_remove_at)

lemma good_gain:
  assumes "good g M st" "p \<le> 1" "c < 34"
  shows "good g M (snd (gain p c w ev st))"
proof (cases "in_supply st c")
  case True
  then obtain n where n: "stock st c = Some n" "n > 0" by (auto simp: in_supply_def split: option.splits)
  let ?st = "st\<lparr>stock := (stock st)(c := Some (the (stock st c) - 1))\<rparr>"
  have "(\<Sum>x < 34. pile_size ?st x * g x) = (\<Sum>x < 34. pile_size st x * g x) - g c"
  proof -
    have "(\<Sum>x \<in> {..<34} - {c}. pile_size ?st x * g x) = (\<Sum>x \<in> {..<34} - {c}. pile_size st x * g x)"
      by (intro sum.cong) (auto simp: pile_size_def)
    moreover have "pile_size ?st c * g c = pile_size st c * g c - g c"
      using n by (simp add: pile_size_def algebra_simps of_nat_diff)
    ultimately show ?thesis using assms(3) by (simp add: sum.remove [of "{..<34}" c])
  qed
  then have "good g (M - g c) ?st" using assms(1)
    by (auto simp: good_def sane_def countable_def tally_def)
  then have "good g M (put w p c ?st)" by (rule good_put [OF _ assms(2)]) linarith
  then show ?thesis using True by (simp add: gain_def)
qed (use assms in \<open>simp add: gain_def\<close>)

lemma known_all: "countable g st \<Longrightarrow> known st p \<or> (\<forall>x y. g x = g y)"
  by (auto simp: countable_def known_def)

lemma good_countable: "good g M st \<Longrightarrow> countable g st"
  by (simp add: good_def)

lemma good_materialize:
  assumes "good g M st" "p \<le> 1" "materialize st p i c = (ok, st')"
  shows "good g M st'" "hand (ps st' p) \<noteq> [] \<longleftrightarrow> hand (ps st p) \<noteq> []" "length (hand (ps st' p)) = length (hand (ps st p))"
    "ok \<Longrightarrow> hand (ps st' p) ! i = c" "ok \<Longrightarrow> i < length (hand (ps st p))"
proof -
  let ?h = "hand (ps st p)"
  have upd: "good g M (set_zone p ((ps st p)\<lparr>hand := ?h[i := c]\<rparr>) st)" if "\<not> known st p"
  proof (rule good_zone [OF assms(1,2)])
    have "\<forall>x y. g x = g y" using known_all [OF good_countable [OF assms(1)], of p] that by blast
    then have "cards_sum g (?h[i := c]) = cards_sum g ?h" by (rule cards_sum_same_length) simp
    then show "M = M - zone_sum g (ps st p) + zone_sum g ((ps st p)\<lparr>hand := ?h[i := c]\<rparr>)"
      by (simp add: zone_sum_def)
  qed
  show "good g M st'" using assms(1,3) upd by (auto simp: materialize_def Let_def split: if_splits)
  show "hand (ps st' p) \<noteq> [] \<longleftrightarrow> ?h \<noteq> []" "length (hand (ps st' p)) = length ?h"
    "ok \<Longrightarrow> hand (ps st' p) ! i = c" "ok \<Longrightarrow> i < length ?h"
    using assms(3) by (auto simp: materialize_def Let_def set_zone_def split: if_splits)
qed

section \<open>Drawing\<close>

definition opt_sum :: "(nat \<Rightarrow> int) \<Rightarrow> nat option \<Rightarrow> int" where
  "opt_sum g c = (case c of None \<Rightarrow> 0 | Some x \<Rightarrow> g x)"

lemma one_or_two: "cs \<noteq> [] \<Longrightarrow> length cs \<le> 2 \<Longrightarrow> length cs = 1 \<or> length cs = 2"
  unfolding length_greater_0_conv [symmetric] by linarith

lemma shuffled_sum:
  assumes "sh_shuffled H st arr p = Some (d, st')"
  shows "mset d = mset arr \<and> st' = st\<lparr>shufN := shufN st + 1\<rparr>"
proof (cases "seed_for st p")
  case None
  then show ?thesis using assms by (simp add: sh_shuffled_def)
next
  case (Some q)
  let ?pick = "\<lambda>i. H (q + (sh_g st * 16777216 + (shufN st + 1) * 4096) + i) mod (i + 1)"
  have "?pick i \<le> i" for i by (rule mod_Suc_le)
  then have "mset (fisher_yates ?pick arr) = mset arr" by (rule mset_fisher_yates)
  moreover have "d = fisher_yates ?pick arr" "st' = st\<lparr>shufN := shufN st + 1\<rparr>"
    using assms by (simp_all add: sh_shuffled_def Some Let_def)
  ultimately show ?thesis by simp
qed

lemma good_takeTop:
  assumes "good g M st" "p \<le> 1" "takeTop H p st = Some (c, st')"
  shows "good g (M - opt_sum g c) st'"
proof (cases "deck (ps st p) \<noteq> []")
  case True
  then have e: "c = Some (last (deck (ps st p)))" "st' = set_zone p ((ps st p)\<lparr>deck := butlast (deck (ps st p))\<rparr>) st"
    using assms(3) by (auto simp: takeTop_def Let_def)
  show ?thesis unfolding e
    by (rule good_zone [OF assms(1,2)]) (use True in \<open>simp add: zone_sum_def cards_sum_butlast opt_sum_def\<close>)
next
  case empty: False
  show ?thesis
  proof (cases "disc (ps st p) = []")
    case True
    then show ?thesis using assms empty by (auto simp: takeTop_def Let_def opt_sum_def)
  next
    case False
    let ?z = "ps st p"
    obtain d st1 where d: "(if known st p then sh_shuffled H st (disc ?z) (Some p)
                        else Some (map (\<lambda>_. UNKNOWN) (disc ?z), st\<lparr>shufN := shufN st + 1\<rparr>)) = Some (d, st1)"
      "c = Some (last d)"
      "st' = set_zone p (?z\<lparr>disc := [], deck := butlast d\<rparr>)
               (sh_note p ''shuffle'' None None (set_zone p (?z\<lparr>disc := []\<rparr>) st1))"
      using assms(3) empty False by (auto simp: takeTop_def Let_def split: bind_splits)
    have sh: "st1 = st\<lparr>shufN := shufN st + 1\<rparr> \<and> length d = length (disc ?z) \<and> cards_sum g d = cards_sum g (disc ?z)"
    proof (cases "known st p")
      case True
      then have s: "sh_shuffled H st (disc ?z) (Some p) = Some (d, st1)" using d(1) by simp
      have m: "mset d = mset (disc ?z)" using shuffled_sum [OF s] by blast
      show ?thesis using shuffled_sum [OF s] mset_eq_length [OF m] cards_sum_mset [OF m, of g] by blast
    next
      case unk: False
      then have e: "d = map (\<lambda>_. UNKNOWN) (disc ?z)" "st1 = st\<lparr>shufN := shufN st + 1\<rparr>" using d(1) by simp_all
      have "\<forall>x y. g x = g y" using known_all [OF good_countable [OF assms(1)], of p] unk by blast
      then have "cards_sum g d = cards_sum g (disc ?z)" by (rule cards_sum_same_length) (simp add: e)
      then show ?thesis by (simp add: e)
    qed
    then have st1: "st1 = st\<lparr>shufN := shufN st + 1\<rparr>" and sum: "cards_sum g d = cards_sum g (disc ?z)" and ne: "d \<noteq> []"
      using False by auto
    have g1: "good g M st1" using assms(1) by (simp add: st1)
    have "good g (M - cards_sum g (disc ?z)) (set_zone p (?z\<lparr>disc := []\<rparr>) st1)"
      by (rule good_zone [OF g1 assms(2)]) (simp add: st1 zone_sum_def)
    then have g2: "good g (M - cards_sum g (disc ?z)) (sh_note p ''shuffle'' None None (set_zone p (?z\<lparr>disc := []\<rparr>) st1))"
      by simp
    have z2: "ps (set_zone p (?z\<lparr>disc := []\<rparr>) st1) p = ?z\<lparr>disc := []\<rparr>"
      by (simp add: set_zone_def)
    show ?thesis unfolding d(2,3)
      by (rule good_zone [OF g2 assms(2)])
        (use empty ne sum in \<open>simp add: z2 zone_sum_def opt_sum_def cards_sum_butlast\<close>)
  qed
qed

lemma goodo_takeTop:
  assumes "good g M st" "p \<le> 1" "\<And>c st'. good g (M - opt_sum g c) st' \<Longrightarrow> goodo g M' (k (c, st'))"
  shows "goodo g M' (Option.bind (takeTop H p st) k)"
  using good_takeTop [OF assms(1,2)] assms(3) by (cases "takeTop H p st") auto

lemma goodo_draw_loop:
  "good g M st \<Longrightarrow> p \<le> 1 \<Longrightarrow> draw_loop H p n got st = Some (k, st') \<Longrightarrow> good g M st'"
proof (induction n arbitrary: got st)
  case (Suc n)
  obtain c st1 where t: "takeTop H p st = Some (c, st1)" using Suc.prems(3) by (cases "takeTop H p st") auto
  have g1: "good g (M - opt_sum g c) st1" by (rule good_takeTop [OF Suc.prems(1,2) t])
  show ?case
  proof (cases c)
    case None
    then show ?thesis using Suc.prems(3) t g1 by (simp add: opt_sum_def)
  next
    case (Some x)
    let ?st2 = "set_zone p ((ps st1 p)\<lparr>hand := hand (ps st1 p) @ [x]\<rparr>) st1"
    have "good g M ?st2"
      by (rule good_zone [OF g1 Suc.prems(2)]) (simp add: Some opt_sum_def zone_sum_def)
    then show ?thesis using Suc.IH [of ?st2] Suc.prems(2,3) t Some by simp
  qed
qed simp

lemma goodo_draw: "good g M st \<Longrightarrow> p \<le> 1 \<Longrightarrow> goodo g M (draw H p n st)"
  unfolding draw_def using goodo_draw_loop [of g M st p H n 0] by (auto split: bind_splits)

lemma draw_some: "good g M st \<Longrightarrow> p \<le> 1 \<Longrightarrow> draw H p n st = Some st' \<Longrightarrow> good g M st'"
  using goodo_draw by (simp add: goodo_def)

lemma goodo_draw_bind:
  "good g M st \<Longrightarrow> p \<le> 1 \<Longrightarrow> (\<And>st'. good g M st' \<Longrightarrow> goodo g M' (k st')) \<Longrightarrow> goodo g M' (Option.bind (draw H p n st) k)"
  by (rule goodo_bind [OF goodo_draw])

lemma good_take_two:
  assumes "good g M st" "p \<le> 1" "take_two H p st = Some (cs, st')"
  shows "good g (M - cards_sum g cs) st'" "length cs \<le> 2"
proof -
  obtain c0 st1 c1 where t: "takeTop H p st = Some (c0, st1)" "takeTop H p st1 = Some (c1, st')"
    "cs = (case c0 of None \<Rightarrow> [] | Some x \<Rightarrow> [x]) @ (case c1 of None \<Rightarrow> [] | Some x \<Rightarrow> [x])"
    using assms(3) unfolding take_two_def by (auto split: bind_splits prod.splits)
  have "good g (M - opt_sum g c0 - opt_sum g c1) st'"
    by (rule good_takeTop [OF good_takeTop [OF assms(1,2) t(1)] assms(2) t(2)])
  moreover have "M - opt_sum g c0 - opt_sum g c1 = M - cards_sum g cs"
    unfolding t(3) by (cases c0; cases c1) (simp_all add: opt_sum_def)
  ultimately show "good g (M - cards_sum g cs) st'" by simp
  show "length cs \<le> 2" unfolding t(3) by (cases c0; cases c1) simp_all
qed

section \<open>Attacks and card effects\<close>

lemma card_ids: "COPPER < 34" "SILVER < 34" "GOLD < 34" "BLIGHT < 34"
  by (simp_all add: sh_ids)

lemma find_index_lt: "\<exists>x \<in> set xs. P x \<Longrightarrow> find_index P xs < length xs \<and> P (xs ! find_index P xs)"
  unfolding find_index_def
  by (metis nth_length_takeWhile length_takeWhile_le le_neq_implies_less takeWhile_eq_all_conv takeWhile_eq_take take_all_iff)

lemma good_collector:
  assumes "good g M st" "d \<le> 1"
  shows "good g M (collector d st)"
proof -
  obtain c st1 where l: "lift_hand d (find_index isV (hand (ps st d))) st = (c, st1)" by fastforce
  have "good g M (put InDeck d c st1)" if "filter isV (hand (ps st d)) \<noteq> []"
  proof -
    have "\<exists>x \<in> set (hand (ps st d)). isV x" using that by (simp add: filter_empty_conv)
    from good_lift [OF assms _ l] find_index_lt [OF this] have "good g (M - g c) st1" by blast
    then show ?thesis by (rule good_put [OF _ assms(2)]) simp
  qed
  then show ?thesis
    unfolding collector_def Let_def l prod.case
    using assms by (auto intro!: good_push)
qed

lemma goodo_storm_riders:
  assumes "good g M st" "d \<le> 1"
  shows "goodo g M (storm_riders H d st)"
proof (cases "take_two H d st")
  case None
  then show ?thesis by (simp add: storm_riders_def)
next
  case (Some r)
  obtain cs st1 where r: "take_two H d st = Some (cs, st1)" using Some by (cases r) simp
  note t = good_take_two [OF assms r]
  define st2 where "st2 = sh_note d ''reveal2'' None (Some (length cs)) st1"
  define st3 where "st3 = fold (\<lambda>c. sh_note d ''revealc'' (Some c) None) cs st2"
  let ?elig = "filter eligible cs"
  have g2: "good g (M - cards_sum g cs) st2" "good g (M - cards_sum g cs) st3"
    using t(1) by (simp_all add: st2_def st3_def good_fold_note)
  have banH: "good g M (push_frame (BanH d cs) st2)" if "cs \<noteq> []"
  proof -
    have "length cs = 1 \<or> length cs = 2" by (rule one_or_two [OF that t(2)])
    then show ?thesis using assms(2) by (intro good_push [OF g2(1)]) simp_all
  qed
  have ban: "good g M (push_frame (Ban d cs) st3)" if "length ?elig = 2"
  proof -
    have "length cs = 2" using t(2) that length_filter_le [of eligible cs] by linarith
    then show ?thesis using assms(2) by (intro good_push [OF g2(2)]) simp_all
  qed
  have burn: "good g M (fold (put InDisc d) (remove1 (?elig ! 0) cs)
        (sh_note d ''trash'' (Some (?elig ! 0)) None (put_trash (?elig ! 0) st3)))" if "?elig \<noteq> []"
  proof -
    have "?elig ! 0 \<in> set cs" using that nth_mem [of 0 ?elig] by auto
    then have s: "cards_sum g (remove1 (?elig ! 0) cs) = cards_sum g cs - g (?elig ! 0)"
      using cards_sum_mset [of cs "?elig ! 0 # remove1 (?elig ! 0) cs" g] by simp
    have "good g (M - cards_sum g cs + g (?elig ! 0)) (sh_note d ''trash'' (Some (?elig ! 0)) None (put_trash (?elig ! 0) st3))"
      using good_put_trash [OF g2(2) refl] by simp
    then show ?thesis by (rule good_fold_put [OF _ assms(2)]) (simp add: s)
  qed
  have keep: "good g M (fold (put InDisc d) cs st3)"
    by (rule good_fold_put [OF g2(2) assms(2)]) simp
  have hid: "cs = [] \<Longrightarrow> good g M st2" using g2(1) by simp
  show ?thesis
    unfolding storm_riders_def r bind.bind_lunit prod.case Let_def st2_def [symmetric] st3_def [symmetric]
    using banH ban burn keep hid by (auto simp: st2_def [symmetric])
qed

lemma goodo_applyAttack: "good g M st \<Longrightarrow> d \<le> 1 \<Longrightarrow> goodo g M (applyAttack H c d st)"
  unfolding applyAttack_def
  by (auto intro!: good_push good_gain good_collector goodo_storm_riders simp: card_ids)

lemma goodo_attack: "good g M st \<Longrightarrow> p \<le> 1 \<Longrightarrow> goodo g M (attack H p c st)"
  unfolding attack_def Let_def
  by (auto intro!: good_push goodo_applyAttack)

lemma good_aside: "good g M st \<Longrightarrow> p \<le> 1 \<Longrightarrow> M' = M + cards_sum g aside \<Longrightarrow> good g M' (aside_done p aside st)"
  unfolding aside_done_def by (auto intro: good_fold_put)

lemma goodo_library:
  "good g M st \<Longrightarrow> p \<le> 1 \<Longrightarrow> M' = M + cards_sum g aside \<Longrightarrow> goodo g M' (library_draw H p aside n st)"
proof (induction n arbitrary: st M)
  case 0
  then show ?case by (simp add: good_aside)
next
  case (Suc n)
  show ?case
    unfolding library_draw.simps
  proof (rule goodo_takeTop [OF Suc.prems(1,2)])
    fix c st' assume g: "good g (M - opt_sum g c) st'"
    show "goodo g M' (case (c, st') of (c, st1) \<Rightarrow> (case c of None \<Rightarrow> Some (aside_done p aside st1)
        | Some x \<Rightarrow> if isA x then Some (push_frame (Lib p x aside) st1) else library_draw H p aside n (put InHand p x st1)))"
    proof (cases c)
      case None
      then show ?thesis using g Suc.prems by (simp add: opt_sum_def good_aside)
    next
      case (Some x)
      have "good g M (put InHand p x st')"
        by (rule good_put [OF g Suc.prems(2)]) (simp add: Some opt_sum_def)
      from Suc.IH [OF this Suc.prems(2,3)] have "goodo g M' (library_draw H p aside n (put InHand p x st'))" .
      moreover have "good g M' (push_frame (Lib p x aside) st')"
        by (rule good_push [OF g]) (use Suc.prems Some in \<open>simp_all add: opt_sum_def\<close>)
      ultimately show ?thesis by (simp add: Some)
    qed
  qed
qed

lemma goodo_whirlwind:
  assumes "good g M st" "p \<le> 1"
  shows "goodo g M (play_whirlwind H p st)"
  unfolding play_whirlwind_def
proof (rule goodo_takeTop [OF _ assms(2)])
  show "good g M (add_coins 2 st)" using assms by simp
  fix c st' assume g: "good g (M - opt_sum g c) st'"
  show "goodo g M (case (c, st') of (c, st1) \<Rightarrow> Some (case c of None \<Rightarrow> st1
       | Some x \<Rightarrow> if hidden st1 then push_frame (VasH p x) st1 else if isA x then push_frame (Vas p x) st1
                   else sh_note p ''discard1'' (Some x) None (put InDisc p x st1)))"
    using g assms(2) by (cases c) (auto simp: opt_sum_def intro!: good_push [OF g] good_put [OF g])
qed

lemma goodo_resolveCard:
  assumes g: "good g M st" and p: "p \<le> 1"
  shows "goodo g M (resolveCard H p c st)"
proof -
  have draw: "goodo g M (draw H q n st')" if "good g M st'" "q \<le> 1" for q n st' using that by (rule goodo_draw)
  have drifter: "goodo g M (play_drifter H p st)"
    unfolding play_drifter_def Let_def
    by (rule goodo_draw_bind [OF g p]) (use p in \<open>auto intro!: good_push\<close>)
  have skywatch: "goodo g M (play_skywatch H p st)"
    unfolding play_skywatch_def
  proof (rule goodo_draw_bind [OF g p])
    fix st1 assume "good g M st1"
    then have g1: "good g M (add_actions 1 st1)" by simp
    show "goodo g M (do { (cards, st2) \<leftarrow> take_two H p (add_actions 1 st1);
                          Some (if cards \<noteq> [] then push_frame (Sen p cards) st2 else st2) })"
    proof (cases "take_two H p (add_actions 1 st1)")
      case (Some r)
      obtain cs st2 where r: "take_two H p (add_actions 1 st1) = Some (cs, st2)" using Some by (cases r) simp
      note t = good_take_two [OF g1 p r]
      have "good g M (push_frame (Sen p cs) st2)" if "cs \<noteq> []"
      proof -
        have "length cs = 1 \<or> length cs = 2" by (rule one_or_two [OF that t(2)])
        then show ?thesis using p by (intro good_push [OF t(1)]) simp_all
      qed
      moreover have "cs = [] \<Longrightarrow> good g M st2" using t(1) by simp
      ultimately show ?thesis by (simp add: r)
    qed simp
  qed
  have almanac: "goodo g M (play_almanac H p st)"
    unfolding play_almanac_def libraryLoop_def
    using draw [OF g p] goodo_library [OF g p, of M "[]"] g by simp
  have coll: "goodo g M (play_collector H p st)"
  proof -
    obtain got st1 where s: "gain p SILVER InDeck ''gaindeck'' st = (got, st1)" by fastforce
    have "good g M st1" using good_gain [OF g p card_ids(2), of InDeck "''gaindeck''"] s by simp
    then show ?thesis unfolding play_collector_def s prod.case using p by (auto intro!: goodo_attack)
  qed
  have may: "good g M (may_frame P p f st)" if "frame_ok f" "held g f = 0" for P f
    unfolding may_frame_def using that by (auto intro!: good_push [OF g] g)
  have gold: "good g M (snd (gain p GOLD InDisc ''gain'' st))" by (rule good_gain [OF g p card_ids(3)])
  have bind1: "goodo g M (Option.bind (draw H p n st) k)" if "\<And>st'. good g M st' \<Longrightarrow> goodo g M (k st')" for n k
    using that by (rule goodo_draw_bind [OF g p])
  show ?thesis
    unfolding resolveCard_def Let_def
    by (intro goodo_if)
      (use g p in \<open>auto intro!: drifter skywatch almanac coll may draw goodo_attack bind1 goodo_whirlwind good_push
        good_spoil [OF g] gold\<close>)
qed

end
