(* ===== verification/StormRules.thy ===== *)
theory StormRules
  imports StormInvariants Referee
begin

text \<open>
  The books of Stormhold through the decisions, the moves of a turn and the replay: every frame
  type, every operation and the setup keep the tally. The second part follows the stack of pending
  decisions: a card effect only pushes decisions a player has to answer.
\<close>

declare One_nat_def [simp del]

section \<open>Chosen cards\<close>

lemma bits_from_sorted: "sorted_wrt (<) (bits_from i m) \<and> (\<forall>x \<in> set (bits_from i m). i \<le> x)"
proof (induction i m rule: bits_from.induct)
  case (1 i m)
  then show ?case
    by (cases "m = 0"; cases "m mod 2 = 1")
      (auto simp: bits_from.simps [of i m] bits_from.simps [of i 0] One_nat_def intro: Suc_leD order.strict_trans2 dest: Suc_leD)
qed

lemma bits_sorted: "sorted_wrt (<) (bits m)"
  unfolding bits_def using bits_from_sorted by blast

lemma sorted_snoc: "sorted_wrt (<) (is @ [i]) \<Longrightarrow> sorted_wrt (<) is \<and> (\<forall>j \<in> set is. j < (i :: nat))"
  by (simp add: sorted_wrt_append)

lemma nth_remove_at_below: "j < i \<Longrightarrow> i < length xs \<Longrightarrow> remove_at i xs ! j = xs ! j"
  by (simp add: remove_at_def nth_append)

lemma cards_sum_remove_idxs:
  "sorted_wrt (<) is \<Longrightarrow> \<forall>i \<in> set is. i < length xs \<Longrightarrow>
     cards_sum g (remove_idxs is xs) = cards_sum g xs - cards_sum g (map ((!) xs) is)"
proof (induction "is" arbitrary: xs rule: rev_induct)
  case (snoc i "is")
  have s: "sorted_wrt (<) is" "\<forall>j \<in> set is. j < i" using sorted_snoc [OF snoc.prems(1)] by blast+
  have i: "i < length xs" using snoc.prems(2) by simp
  have l: "\<forall>j \<in> set is. j < length (remove_at i xs)" using s(2) i by fastforce
  have "map ((!) (remove_at i xs)) is = map ((!) xs) is" using s(2) i by (simp add: nth_remove_at_below)
  with snoc.IH [OF s(1) l] show ?case
    by (simp add: remove_idxs_def cards_sum_remove_at [OF i])
qed (simp add: remove_idxs_def)

lemma cards_sum_map_rev: "cards_sum g (map f (rev xs)) = cards_sum g (map f xs)"
  by (metis cards_sum_simps(4) rev_map)

lemma good_discardMask:
  assumes "good g M st" "p \<le> 1" "discardMask p m e st = Some (n, st')"
  shows "good g M st'"
proof -
  let ?z = "ps st p"
  let ?st = "set_zone p (?z\<lparr>hand := remove_idxs (bits m) (hand ?z), disc := disc ?z @ map (\<lambda>i. hand ?z ! i) (rev (bits m))\<rparr>) st"
  have i: "\<forall>i \<in> set (bits m). i < length (hand ?z)"
    using assms(3) by (auto simp: discardMask_def Let_def not_le split: if_splits)
  have "good g M ?st"
    by (rule good_zone [OF assms(1,2)])
      (simp add: zone_sum_def cards_sum_remove_idxs [OF bits_sorted i] cards_sum_map_rev)
  then show ?thesis using assms(3)
    by (auto simp: discardMask_def Let_def split: if_splits option.splits)
qed

lemma set_zone_same [simp]: "ps (set_zone p z st) p = z"
  by (simp add: set_zone_def)

lemma set_zone_fields [simp]:
  "frames (set_zone p z st) = frames st" "hidden (set_zone p z st) = hidden st" "pov (set_zone p z st) = pov st"
  "sh_corrupt (set_zone p z st) = sh_corrupt st" "threw (set_zone p z st) = threw st"
  by (simp_all add: set_zone_def)

lemma good_trash_hand:
  assumes "good g M st" "p \<le> 1" "i < length (hand (ps st p))"
  shows "good g M (trash_hand p i st)" "length (hand (ps (trash_hand p i st) p)) = length (hand (ps st p)) - 1"
proof -
  obtain c st1 where l: "lift_hand p i st = (c, st1)" by fastforce
  have "good g M (put_trash c st1)" by (rule good_put_trash [OF good_lift [OF assms l]]) simp
  then show "good g M (trash_hand p i st)" by (simp add: trash_hand_def l)
  show "length (hand (ps (trash_hand p i st) p)) = length (hand (ps st p)) - 1"
    using assms(3) by (simp add: trash_hand_def lift_hand_def put_trash_def)
qed

lemma good_fold_trash:
  "good g M st \<Longrightarrow> p \<le> 1 \<Longrightarrow> sorted_wrt (<) is \<Longrightarrow> \<forall>i \<in> set is. i < length (hand (ps st p)) \<Longrightarrow>
     good g M (fold (trash_hand p) (rev is) st)"
proof (induction "is" arbitrary: st rule: rev_induct)
  case (snoc i "is")
  have s: "sorted_wrt (<) is" "\<forall>j \<in> set is. j < i" using sorted_snoc [OF snoc.prems(3)] by blast+
  have i: "i < length (hand (ps st p))" using snoc.prems(4) by simp
  note t = good_trash_hand [OF snoc.prems(1,2) i]
  have "\<forall>j \<in> set is. j < length (hand (ps (trash_hand p i st) p))" using s(2) i t(2) by fastforce
  from snoc.IH [OF t(1) snoc.prems(2) s(1) this] show ?case by simp
qed simp

section \<open>Decisions\<close>

lemma length_CARDS: "length CARDS = 34"
  by code_simp

lemma exists_lt: "card_exists c \<longleftrightarrow> c < 34"
  by (simp add: card_exists_def length_CARDS)

lemma good_lift_to:
  assumes "good g M st" "p \<le> 1" "i < length (hand (ps st p))" "lift_hand p i st = (c, st1)"
  shows "good g M (put w p c st1)" "good g M (put_play p c st1)" "good g M (put_trash c st1)"
proof -
  note l = good_lift [OF assms]
  show "good g M (put w p c st1)" by (rule good_put [OF l assms(2)]) simp
  show "good g M (put_play p c st1)" by (rule good_put_play [OF l assms(2)]) simp
  show "good g M (put_trash c st1)" by (rule good_put_trash [OF l]) simp
qed

text \<open>The claimed or indexed card of the hand: what \<^verbatim>\<open>materialize\<close> and the removal leave.\<close>

lemma good_claimed:
  assumes "good g M st" "p \<le> 1" "\<not> i \<ge> length (hand (ps st p))"
    "(if hidden st then materialize st p i c else (True, st)) = (ok, st1)"
  shows "good g M st1" "i < length (hand (ps st1 p))"
proof -
  show "good g M st1"
    using assms(1,4) good_materialize(1) [OF assms(1,2), of i c ok st1] by (auto split: if_splits)
  show "i < length (hand (ps st1 p))"
    using assms(3,4) good_materialize(3) [OF assms(1,2), of i c ok st1] by (auto split: if_splits)
qed

lemma fr_cel_good:
  assumes g: "good g M st" and p: "p \<le> 1"
  shows "goodo g M (fr_cel H p x st)"
proof (cases "discardMask p x None st")
  case (Some r)
  obtain n st1 where "r = (n, st1)" by fastforce
  with Some have "good g M st1" using good_discardMask [OF g p] by blast
  then show ?thesis using goodo_draw [OF _ p] by (simp add: fr_cel_def Some \<open>r = (n, st1)\<close>)
qed (simp add: fr_cel_def good_spoil [OF g])

lemma fr_chp_good:
  assumes g: "good g M st" and p: "p \<le> 1"
  shows "good g M (fr_chp p x st)"
  unfolding fr_chp_def Let_def
  by (rule good_if [OF good_spoil [OF g]]) (rule good_fold_trash [OF g p bits_sorted], auto)

lemma fr_har_good:
  assumes g: "good g M st" and p: "p \<le> 1"
  shows "good g M (fr_har p x st)"
proof -
  let ?z = "ps st p"
  have "good g M (set_zone p (?z\<lparr>disc := remove_at i (disc ?z), deck := deck ?z @ [disc ?z ! i]\<rparr>) st)"
    if "\<not> i \<ge> length (disc ?z)" for i
    by (rule good_zone [OF g p]) (use that in \<open>simp add: zone_sum_def cards_sum_remove_at\<close>)
  then show ?thesis unfolding fr_har_def Let_def using g good_spoil [OF g] by simp
qed

lemma mask_good: "good g M st \<Longrightarrow> p \<le> 1 \<Longrightarrow> discardMask p x e st = Some r \<Longrightarrow> good g M (snd r)"
  using good_discardMask [of g M st p x e "fst r" "snd r"] by simp

lemma fr_mil_good:
  assumes g: "good g M st" and p: "p \<le> 1"
  shows "good g M (fr_mil p x st)"
  unfolding fr_mil_def using good_spoil [OF g] mask_good [OF g p] by (auto split: option.split)

lemma fr_poa_good:
  assumes g: "good g M st" and p: "p \<le> 1"
  shows "good g M (fr_poa p n x st)"
  unfolding fr_poa_def using good_spoil [OF g] mask_good [OF g p] by (auto split: option.split)

lemma fr_bur_good:
  assumes g: "good g M st" and p: "p \<le> 1"
  shows "good g M (fr_bur p x st)"
  unfolding fr_bur_def using good_spoil [OF g] good_lift_to(1) [OF g p] by (auto simp: not_le split: prod.split)

lemma fr_artT_good:
  assumes g: "good g M st" and p: "p \<le> 1"
  shows "good g M (fr_artT p x st)"
  unfolding fr_artT_def using good_spoil [OF g] good_lift_to(1) [OF g p] by (auto simp: not_le split: prod.split)

lemma fr_mon_good:
  assumes g: "good g M st" and p: "p \<le> 1"
  shows "good g M (fr_mon p x st)"
proof -
  let ?z = "ps st p"
  have blind: "good g M (put_trash COPPER (set_zone p (?z\<lparr>hand := butlast (hand ?z)\<rparr>) st))"
    if "\<not> known st p" "hand ?z \<noteq> []"
  proof -
    have c: "\<forall>x y. g x = g y" using known_all [OF good_countable [OF g], of p] that(1) by blast
    have "good g (M - g COPPER) (set_zone p (?z\<lparr>hand := butlast (hand ?z)\<rparr>) st)"
      by (rule good_zone [OF g p]) (use that(2) c in \<open>simp add: zone_sum_def cards_sum_butlast\<close>)
    then show ?thesis by (rule good_put_trash) simp
  qed
  have plain: "good g M (put_trash c st1)"
    if "COPPER \<in> set (hand ?z)" "lift_hand p (find_index (\<lambda>x. x = COPPER) (hand ?z)) st = (c, st1)" for c st1
    using good_lift_to(3) [OF g p _ that(2)] find_index_lt [of "hand ?z" "\<lambda>x. x = COPPER"] that(1) by blast
  show ?thesis
    unfolding fr_mon_def Let_def
    using g blind plain good_spoil [OF g] good_cheat [OF g] by (auto split: prod.split)
qed

lemma fr_remT_good:
  assumes g: "good g M st" and p: "p \<le> 1"
  shows "good g M (fr_remT p x st)"
proof -
  let ?i = "if hidden st then clX x else x"
  obtain ok st1 where m: "(if hidden st then materialize st p ?i (clC x) else (True, st)) = (ok, st1)" by fastforce
  obtain c st2 where l: "lift_hand p ?i st1 = (c, st2)" by fastforce
  show ?thesis
  proof (cases "?i \<ge> length (hand (ps st p))")
    case True
    then show ?thesis unfolding fr_remT_def Let_def by (simp only: if_True good_spoil [OF g])
  next
    case False
    note k = good_claimed [OF g p False m]
    have "good g M (put_trash c st2)" by (rule good_lift_to(3) [OF k(1) p k(2) l])
    then show ?thesis
      unfolding fr_remT_def Let_def m l prod.case using False good_cheat [OF k(1)] p
      by (auto intro!: good_push simp: good_spoil [OF g])
  qed
qed

lemma fr_minT_good:
  assumes g: "good g M st" and p: "p \<le> 1"
  shows "good g M (fr_minT p x st)"
proof -
  let ?i = "if hidden st then clX x else x"
  obtain ok st1 where m: "(if hidden st then materialize st p ?i (clC x) else (True, st)) = (ok, st1)" by fastforce
  obtain c st2 where l: "lift_hand p ?i st1 = (c, st2)" by fastforce
  have "good g M (cheat p w st1)" "good g M (put_trash c st2)" if "\<not> ?i \<ge> length (hand (ps st p))" for w
    using good_claimed [OF g p that m] good_cheat good_lift_to(3) [OF _ p _ l] by blast+
  then show ?thesis
    unfolding fr_minT_def Let_def m l prod.case using p g
    by (intro good_if good_spoil [OF g]) (auto intro!: good_push)
qed

lemma gained: "good g M st \<Longrightarrow> p \<le> 1 \<Longrightarrow> card_exists c \<Longrightarrow> good g M (snd (gain p c w ev st))"
  by (rule good_gain) (simp_all add: exists_lt)

lemma fr_remG_good:
  assumes g: "good g M st" and p: "p \<le> 1"
  shows "good g M (fr_remG p mx x st)"
  unfolding fr_remG_def using g gained [OF g p] good_spoil [OF g] by auto

lemma fr_minG_good:
  assumes g: "good g M st" and p: "p \<le> 1"
  shows "good g M (fr_minG p mx x st)"
  unfolding fr_minG_def using g gained [OF g p] good_spoil [OF g] by auto

lemma fr_wsh_good:
  assumes g: "good g M st" and p: "p \<le> 1"
  shows "good g M (fr_wsh p x st)"
  unfolding fr_wsh_def using g gained [OF g p] good_spoil [OF g] by auto

lemma fr_artG_good:
  assumes g: "good g M st" and p: "p \<le> 1"
  shows "good g M (fr_artG p x st)"
  unfolding fr_artG_def using g p gained [OF g p] good_spoil [OF g] by (auto intro!: good_push)

lemma fr_burH_good:
  assumes g: "good g M st" and p: "p \<le> 1"
  shows "good g M (fr_burH p x st)"
proof -
  obtain ok st1 where m: "materialize st p (clX (x div 2)) (clC (x div 2)) = (ok, st1)" by fastforce
  obtain c st2 where l: "lift_hand p (clX (x div 2)) st1 = (c, st2)" by fastforce
  note k = good_materialize [OF g p m]
  have "good g M (put InDeck p c st2)" if ok
    using good_lift_to(1) [OF k(1) p _ l] k(3,5) that by simp
  then show ?thesis
    unfolding fr_burH_def Let_def m l prod.case
    using g good_spoil [OF g] good_cheat [OF g] good_cheat [OF k(1)] by auto
qed

lemma fr_thr_good:
  assumes g: "good g M st" and p: "p \<le> 1"
  shows "goodo g M (fr_thr H p x st)"
proof -
  let ?i = "if hidden st then clX x else x"
  obtain ok st1 where m: "(if hidden st then materialize st p ?i (clC x) else (True, st)) = (ok, st1)" by fastforce
  obtain c st2 where l: "lift_hand p ?i st1 = (c, st2)" by fastforce
  have "good g M (cheat p w st1)" "good g M (put_play p c st2)" if "\<not> ?i \<ge> length (hand (ps st p))" for w
    using good_claimed [OF g p that m] good_cheat good_lift_to(2) [OF _ p _ l] by blast+
  then show ?thesis
    unfolding fr_thr_def Let_def m l prod.case using p g
    by (intro goodo_if) (auto intro!: good_spoil [OF g] goodo_resolveCard good_push)
qed

lemma fr_moat_good:
  assumes g: "good g M st" and p: "p \<le> 1"
  shows "goodo g M (fr_moat H p atk x st)"
  unfolding fr_moat_def using g p good_cheat [OF g] goodo_applyAttack [OF g p] by auto

section \<open>Decisions that hold cards\<close>

lemma fr_vas_good:
  assumes g: "good g (M - g c) st" and p: "p \<le> 1"
  shows "goodo g M (fr_vas H p c x st)"
proof -
  have "good g M (put_play p c st)" "good g M (put InDisc p c st)"
    using good_put_play [OF g p, of M c] good_put [OF g p, of M c] by simp_all
  then show ?thesis unfolding fr_vas_def using p by (auto intro!: goodo_resolveCard)
qed

lemma fr_vasH_good:
  assumes g: "good g (M - g fc) st" and p: "p \<le> 1"
  shows "goodo g M (fr_vasH H p fc x st)"
proof -
  let ?c = "x div 2 mod 64"
  have ret: "good g M (put InDisc p fc st)" using good_put [OF g p, of M fc] by simp
  have "g fc = g ?c" if "\<not> (known st p \<and> fc \<noteq> ?c)"
    using that known_all [OF good_countable [OF g], of p] by metis
  then have "good g M (put_play p ?c st)" if "\<not> (known st p \<and> fc \<noteq> ?c)"
    using that good_put_play [OF g p, of M ?c] by simp
  then show ?thesis
    unfolding fr_vasH_def Let_def using ret p good_spoil [OF g] good_cheat [OF g]
    by (auto intro!: goodo_resolveCard)
qed

lemma two_cards: "length cs = 2 \<Longrightarrow> cards_sum g cs = g (cs ! 0) + g (cs ! 1)"
  by (cases cs; cases "tl cs") (auto simp: One_nat_def)

lemma fr_ban_good:
  assumes g: "good g (M - cards_sum g cs) st" and p: "p \<le> 1" and cs: "length cs = 2"
  shows "good g M (fr_ban p cs x st)"
proof -
  have s: "cards_sum g cs = g (cs ! x) + g (cs ! (1 - x))" if "\<not> (x > 1 \<or> x \<ge> length cs)"
  proof -
    have "x = 0 \<or> x = 1" using that by linarith
    then show ?thesis using two_cards [OF cs, of g] by auto
  qed
  have "good g M (put InDisc p (cs ! (1 - x)) (sh_note p ''trash'' (Some (cs ! x)) None (put_trash (cs ! x) st)))"
    if "\<not> (x > 1 \<or> x \<ge> length cs)"
    by (rule good_put [OF _ p, of g "M - g (cs ! (1 - x))"])
      (simp_all add: good_put_trash [OF g] s [OF that])
  then show ?thesis unfolding fr_ban_def using good_spoil [OF g] by simp
qed

lemma fr_banH_good:
  assumes g: "good g (M - cards_sum g cs) st" and p: "p \<le> 1" and cs: "length cs = 1 \<or> length cs = 2"
  shows "good g M (fr_banH p cs x st)"
proof -
  define claims where
    "claims = (if length cs = 2 then [x div 3 mod 64, x div 192 mod 64] else [x div 3 mod 64])"
  have len: "length claims = length cs" using cs by (auto simp: claims_def One_nat_def)
  define st1 where "st1 = fold (\<lambda>c. sh_note p ''revealc'' (Some c) None) claims st"
  have g1: "good g (M - cards_sum g cs) st1" using g by (simp add: st1_def good_fold_note)
  have same: "cards_sum g claims = cards_sum g cs"
    if "\<not> (known st p \<and> (\<exists>i < length claims. cs ! i \<noteq> claims ! i))"
  proof (cases "known st p")
    case True
    then have "claims = cs" using that len by (auto intro: nth_equalityI)
    then show ?thesis by simp
  next
    case False
    then have "\<forall>x y. g x = g y" using known_all [OF good_countable [OF g], of p] by blast
    then show ?thesis using len by (rule cards_sum_same_length)
  qed
  have all: "good g M (fold (put InDisc p) claims st1)"
    if "\<not> (known st p \<and> (\<exists>i < length claims. cs ! i \<noteq> claims ! i))"
    by (rule good_fold_put [OF g1 p]) (simp add: same [OF that])
  have one: "good g M (fold (put InDisc p) (remove_at k claims)
      (sh_note p ''trash'' (Some (claims ! k)) None (put_trash (claims ! k) st1)))"
    if "\<not> (known st p \<and> (\<exists>i < length claims. cs ! i \<noteq> claims ! i))" "banH_ok claims k" for k
  proof (rule good_fold_put [OF _ p])
    show "good g (M - cards_sum g cs + g (claims ! k)) (sh_note p ''trash'' (Some (claims ! k)) None (put_trash (claims ! k) st1))"
      by (simp add: good_put_trash [OF g1])
    have "k < length claims" using that(2) by (simp add: banH_ok_def Let_def)
    then show "M = M - cards_sum g cs + g (claims ! k) + cards_sum g (remove_at k claims)"
      by (simp add: cards_sum_remove_at same [OF that(1)])
  qed
  show ?thesis
    unfolding fr_banH_def Let_def claims_def [symmetric] st1_def [symmetric]
    by (intro good_if good_spoil [OF g] good_cheat [OF g] good_spoil [OF g1] all one) simp_all
qed

lemma good_sen_split:
  "sen_split p cds kept st = (kept', st') \<Longrightarrow> p \<le> 1 \<Longrightarrow>
     good g (M - cards_sum g kept - cards_sum g (map fst cds)) st \<Longrightarrow> good g (M - cards_sum g kept') st'"
proof (induction p cds kept st rule: sen_split.induct)
  case (2 p c d cs kept st)
  note g = 2(6)
  let ?N = "M - cards_sum g kept - cards_sum g (map fst cs)"
  have "good g ?N (put_trash c st)" "good g ?N (put InDisc p c st)"
    using good_put_trash [OF g, of ?N c] good_put [OF g 2(5), of ?N c InDisc] by simp_all
  moreover have "good g (M - cards_sum g (kept @ [c]) - cards_sum g (map fst cs)) st"
    using g by (simp add: algebra_simps)
  ultimately show ?case
    using 2(1,2,3) 2(4,5) by (auto split: if_splits)
qed simp

lemma fr_sen_good:
  assumes g: "good g (M - cards_sum g cs) st" and p: "p \<le> 1" and cs: "length cs = 1 \<or> length cs = 2"
  shows "good g M (fr_sen p cs x st)"
proof -
  let ?ds = "[x mod 3, x div 3 mod 3]"
  obtain kept st1 where s: "sen_split p (zip cs ?ds) [] st = (kept, st1)" by fastforce
  have "map fst (zip cs ?ds) = cs" using cs by (auto simp: map_fst_zip_take One_nat_def)
  then have "good g (M - cards_sum g []  - cards_sum g (map fst (zip cs ?ds))) st" using g by simp
  from good_sen_split [OF s p this] have g1: "good g (M - cards_sum g kept) st1" .
  have "good g M (fold (put InDeck p) (rev (if b then rev kept else kept)) st1)" for b
    by (rule good_fold_put [OF g1 p]) simp
  then show ?thesis
    unfolding fr_sen_def Let_def s prod.case by (intro good_if good_spoil [OF g])
qed

lemma fr_lib_good:
  assumes g: "good g (M - g c - cards_sum g aside) st" and p: "p \<le> 1"
  shows "goodo g M (fr_lib H p c aside x st)"
proof -
  have "good g (M - cards_sum g aside) (put InHand p c st)" by (rule good_put [OF g p]) simp
  then have "goodo g M (libraryLoop H p aside (put InHand p c st))"
    unfolding libraryLoop_def by (rule goodo_library [OF _ p]) simp
  moreover have "goodo g M (libraryLoop H p (aside @ [c]) st)"
    unfolding libraryLoop_def by (rule goodo_library [OF g p]) simp
  ultimately show ?thesis by (simp add: fr_lib_def)
qed

lemma frame_actor_le: "frame_ok f \<Longrightarrow> frame_actor f \<le> 1"
  by (cases f) auto

lemma goodo_resolveFrame:
  assumes g: "good g M st" and ne: "frames st \<noteq> []"
  shows "goodo g M (resolveFrame H x st)"
proof -
  let ?f = "last (frames st)" and ?st = "st\<lparr>frames := butlast (frames st)\<rparr>"
  have pop: "good g (M - held g ?f) ?st" by (rule good_pop [OF g ne])
  have ok: "frame_ok ?f" using g ne by (simp add: good_def sane_def)
  note a = frame_actor_le [OF ok]
  show ?thesis
    unfolding resolveFrame_def Let_def
    using pop ok a
    by (cases ?f)
      (auto intro: good_spoil fr_cel_good fr_chp_good fr_har_good fr_vas_good fr_vasH_good fr_mil_good fr_bur_good
        fr_ban_good fr_banH_good fr_burH_good fr_mon_good fr_poa_good fr_remT_good fr_remG_good fr_thr_good fr_minT_good
        fr_minG_good fr_sen_good fr_artG_good fr_artT_good fr_wsh_good fr_moat_good
        fr_lib_good simp: diff_diff_eq)
qed

end
