(* ===== verification/StormTable.thy ===== *)
theory StormTable
  imports StormRules
begin

text \<open>
  The moves of a turn and the replay of Stormhold keep the books; the stack of pending decisions
  after a move; the setup and what the box of cards is.
\<close>

declare One_nat_def [simp del]

section \<open>Moves\<close>

lemma goodo_do_play:
  assumes g: "good g M st" and p: "p \<le> 1"
  shows "goodo g M (do_play H p x st)"
proof -
  let ?i = "if hidden st then clX x else x"
  obtain ok st1 where m: "(if hidden st then materialize st p ?i (clC x) else (True, st)) = (ok, st1)" by fastforce
  obtain c st2 where l: "lift_hand p ?i st1 = (c, st2)" by fastforce
  have "good g M (cheat p w st1)" "good g M (put_play p c st2)" if "\<not> ?i \<ge> length (hand (ps st p))" for w
    using good_claimed [OF g p that m] good_cheat good_lift_to(2) [OF _ p _ l] by blast+
  then show ?thesis
    unfolding do_play_def Let_def m l prod.case using p g
    by (intro goodo_if) (auto intro!: good_spoil [OF g] goodo_resolveCard)
qed

lemma good_play_treasures:
  "good g M st \<Longrightarrow> p \<le> 1 \<Longrightarrow> M' = M + cards_sum g cs \<Longrightarrow> good g M' (fold (play_treasure p) cs st)"
proof (induction cs arbitrary: st M)
  case (Cons c cs)
  have "good g (M + g c) (play_treasure p c st)"
    using good_put_play [OF Cons.prems(1,2) refl, of c] by (simp add: play_treasure_def)
  from Cons.IH [OF this] Cons.prems(2,3) show ?case by simp
qed simp

lemma good_drop_hand:
  assumes "good g M st" "p \<le> 1" "\<forall>i \<in> set (bits m). i < length (hand (ps st p))"
  shows "good g (M - cards_sum g (map (\<lambda>i. hand (ps st p) ! i) (rev (bits m)))) (drop_hand p (bits m) st)"
  unfolding drop_hand_def
  by (rule good_zone [OF assms(1,2)])
    (simp add: zone_sum_def cards_sum_remove_idxs [OF bits_sorted assms(3)] cards_sum_map_rev)

lemma good_merchant: "good g M st \<Longrightarrow> good g M (merchant_bonus p b st)"
proof -
  assume g: "good g M st"
  have "good g M (st\<lparr>silverDone := True\<rparr>) = good g M st" by (rule good_cong) simp_all
  then show ?thesis using g by (simp add: merchant_bonus_def Let_def)
qed

lemma cards_sum_replicate: "cards_sum g (replicate n c) = int n * g c"
  by (induction n) (simp_all add: algebra_simps)

lemma cards_sum_run: "cards_sum g (treasure_run a b c) = int a * g COPPER + int b * g SILVER + int c * g GOLD"
  by (simp add: treasure_run_def cards_sum_replicate)

text \<open>A run with as many cards as the selection is that selection, when its counts agree.\<close>

lemma run_of_counts:
  "count_list cs COPPER + count_list cs SILVER + count_list cs GOLD \<le> length cs
   \<and> (count_list cs COPPER + count_list cs SILVER + count_list cs GOLD = length cs \<longrightarrow>
        cards_sum g (treasure_run (count_list cs COPPER) (count_list cs SILVER) (count_list cs GOLD)) = cards_sum g cs)"
proof (induction cs)
  case (Cons c cs)
  have d: "COPPER \<noteq> SILVER" "SILVER \<noteq> GOLD" "COPPER \<noteq> GOLD" by (simp_all add: sh_ids)
  consider "c = COPPER" | "c = SILVER" | "c = GOLD" | "c \<noteq> COPPER" "c \<noteq> SILVER" "c \<noteq> GOLD" by blast
  then show ?case
    by cases (use Cons d d [symmetric] in \<open>auto simp: cards_sum_run algebra_simps\<close>)
qed (simp add: treasure_run_def)

lemma good_do_coins:
  assumes g: "good g M st0" and p: "p \<le> 1"
  shows "good g M (do_coins p x st0)"
proof -
  let ?idxs = "bits (if hidden st0 then x mod 16777216 else x)"
  let ?h = "hand (ps st0 p)" and ?cc = "x div 16777216"
  let ?nc = "?cc mod 32" and ?ns = "?cc div 32 mod 32" and ?ng = "?cc div 1024 mod 32"
  let ?cards = "map (\<lambda>i. ?h ! i) (rev ?idxs)"
  define st where "st = st0\<lparr>sh_phase := 1\<rparr>"
  have st: "good g M st" "hand (ps st p) = ?h" "hidden st = hidden st0" "known st p = known st0 p"
    using g by (simp_all add: st_def known_def)
  have drop: "good g (M - cards_sum g ?cards) (drop_hand p ?idxs st)"
    if "\<not> (?idxs = [] \<or> (\<exists>i \<in> set ?idxs. i \<ge> length ?h))"
    using good_drop_hand [OF st(1) p, of "if hidden st0 then x mod 16777216 else x"] that st(2) by (simp add: not_le)
  have blind: "good g M (merchant_bonus p b (fold (play_treasure p) (treasure_run ?nc ?ns ?ng) (drop_hand p ?idxs st)))"
    if ix: "\<not> (?idxs = [] \<or> (\<exists>i \<in> set ?idxs. i \<ge> length ?h))" and "\<not> known st p" "?nc + ?ns + ?ng = length ?idxs" for b
  proof -
    have "\<forall>x y. g x = g y" using known_all [OF good_countable [OF st(1)], of p] that(2) by blast
    then have "cards_sum g (treasure_run ?nc ?ns ?ng) = cards_sum g ?cards"
      by (rule cards_sum_same_length) (simp add: treasure_run_def that(3) [symmetric])
    then show ?thesis by (intro good_merchant good_play_treasures [OF drop [OF ix] p]) simp
  qed
  have claimed: "good g M (merchant_bonus p b (fold (play_treasure p)
      (treasure_run (count_list ?cards COPPER) (count_list ?cards SILVER) (count_list ?cards GOLD)) (drop_hand p ?idxs st)))"
    if ix: "\<not> (?idxs = [] \<or> (\<exists>i \<in> set ?idxs. i \<ge> length ?h))" and "?nc + ?ns + ?ng = length ?idxs"
      "\<not> (count_list ?cards COPPER \<noteq> ?nc \<or> count_list ?cards SILVER \<noteq> ?ns \<or> count_list ?cards GOLD \<noteq> ?ng)" for b
    using run_of_counts [of ?cards g] that(2,3)
    by (intro good_merchant good_play_treasures [OF drop [OF ix] p]) simp
  have plain: "good g M (merchant_bonus p b (fold (play_treasure p) ?cards (drop_hand p ?idxs st)))"
    if ix: "\<not> (?idxs = [] \<or> (\<exists>i \<in> set ?idxs. i \<ge> length ?h))" for b
    by (intro good_merchant good_play_treasures [OF drop [OF ix] p]) simp
  show ?thesis
    unfolding do_coins_def Let_def st_def [symmetric]
    by (intro good_if good_spoil [OF g] good_spoil [OF st(1)] good_cheat [OF st(1)] plain)
      (use blind claimed st(3) in simp_all)
qed

lemma good_do_buy:
  assumes "good g M st" "p \<le> 1"
  shows "good g M (do_buy p c st)"
proof -
  have "good g M (snd (gain p c InDisc ''buy''
      (st\<lparr>sh_phase := 1, coins := a, buys := b\<rparr>)))" if "card_exists c" for a b
    by (rule good_gain [OF _ assms(2)]) (use assms(1) that in \<open>simp_all add: exists_lt\<close>)
  then show ?thesis
    unfolding do_buy_def Let_def using assms(1) by (auto intro!: good_spoil [OF assms(1)] good_spoil)
qed

lemma good_new_turn:
  "good g M st \<Longrightarrow> p \<le> 1 \<Longrightarrow> good g M (st\<lparr>sh_turn := 1 - p, sh_phase := a, actions := b, buys := c, coins := d,
     merch := e, silverDone := f\<rparr>)"
  by (simp add: good_def sane_def countable_def tally_def pile_size_def)

lemma goodo_do_end:
  assumes g: "good g M st" and p: "p \<le> 1"
  shows "goodo g M (do_end H p st)"
proof -
  let ?z = "ps st p"
  let ?z1 = "?z\<lparr>disc := disc ?z @ hand ?z @ play ?z, hand := [], play := [], turns := turns ?z + 1\<rparr>"
  have "good g M (set_zone p ?z1 st)" by (rule good_zone [OF g p]) (simp add: zone_sum_def)
  then show ?thesis
    unfolding do_end_def Let_def
    using good_new_turn [OF _ p] by (intro goodo_if goodo_draw_bind [OF _ p]) simp_all
qed

section \<open>The stack of decisions\<close>

text \<open>What an effect adds to the stack are decisions, never a second play of Echo.\<close>

definition grows :: "sh \<Rightarrow> sh \<Rightarrow> bool" where
  "grows st st' \<longleftrightarrow> (\<exists>fs. frames st' = frames st @ fs \<and> filter is_tr2 fs = [])"

lemma growsI: "frames st' = frames st \<Longrightarrow> grows st st'"
  by (simp add: grows_def)

lemma grows_push: "frames st' = frames st \<Longrightarrow> \<not> is_tr2 f \<Longrightarrow> grows st (push_frame f st')"
  by (auto simp: grows_def push_frame_def)

lemma frames_plain [simp]:
  "frames (put w p c st) = frames st" "frames (put_play p c st) = frames st" "frames (put_trash c st) = frames st"
  "frames (add_actions k st) = frames st" "frames (add_buys k st) = frames st" "frames (add_coins k st) = frames st"
  "frames (spoil v st) = frames st" "frames (snd (lift_hand p i st)) = frames st" "frames (snd (gain p c w ev st)) = frames st"
  by (simp_all add: put_def Let_def put_play_def put_trash_def add_actions_def add_buys_def add_coins_def spoil_def
      lift_hand_def gain_def)

lemma frames_fold_put [simp]: "frames (fold (put w p) cs st) = frames st"
  by (induction cs arbitrary: st) simp_all

lemma frames_fold_note [simp]: "frames (fold (\<lambda>c. sh_note p ev (Some c) n) cs st) = frames st"
  by (induction cs arbitrary: st) simp_all

lemma frames_aside [simp]: "frames (aside_done p aside st) = frames st"
  by (simp add: aside_done_def)

lemma frames_shuffled: "sh_shuffled H st arr p = Some (d, st') \<Longrightarrow> frames st' = frames st"
  by (auto simp: sh_shuffled_def Let_def split: option.splits)

lemma frames_takeTop: "takeTop H p st = Some (c, st') \<Longrightarrow> frames st' = frames st"
  by (auto simp: takeTop_def Let_def frames_shuffled split: if_splits bind_splits)

lemma frames_draw_loop: "draw_loop H p n got st = Some (k, st') \<Longrightarrow> frames st' = frames st"
proof (induction n arbitrary: got st)
  case (Suc n)
  then show ?case by (auto simp: frames_takeTop split: bind_splits option.splits)
qed simp

lemma frames_draw: "draw H p n st = Some st' \<Longrightarrow> frames st' = frames st"
  by (auto simp: draw_def frames_draw_loop split: bind_splits if_splits)

lemma frames_take_two: "take_two H p st = Some (cs, st') \<Longrightarrow> frames st' = frames st"
  by (auto simp: take_two_def dest!: frames_takeTop split: bind_splits)

lemma grows_collector: "grows st (collector d st)"
proof -
  have "frames (snd (lift_hand d i st)) = frames st" for i by simp
  then show ?thesis
    unfolding collector_def Let_def
    by (auto simp: growsI grows_push lift_hand_def)
qed

lemma grows_riders: "storm_riders H d st = Some st' \<Longrightarrow> grows st st'"
  unfolding storm_riders_def Let_def
  by (auto simp: growsI grows_push frames_take_two split: bind_splits)

lemma grows_applyAttack: "applyAttack H c d st = Some st' \<Longrightarrow> grows st st'"
  unfolding applyAttack_def
  by (auto intro: growsI grows_push grows_collector grows_riders split: if_splits)

lemma grows_attack: "attack H p c st = Some st' \<Longrightarrow> frames st = frames s \<Longrightarrow> grows s st'"
  unfolding attack_def Let_def
  by (auto simp: grows_push dest!: grows_applyAttack split: if_splits) (simp_all add: grows_def)

lemma grows_library: "library_draw H p aside n st = Some st' \<Longrightarrow> frames st = frames s \<Longrightarrow> grows s st'"
proof (induction n arbitrary: st)
  case (Suc n)
  obtain c st1 where t: "takeTop H p st = Some (c, st1)" using Suc.prems by (cases "takeTop H p st") auto
  have f: "frames st1 = frames s" using frames_takeTop [OF t] Suc.prems(2) by simp
  show ?case
  proof (cases c)
    case None
    then show ?thesis using Suc.prems t f by (auto intro: growsI)
  next
    case (Some x)
    then show ?thesis
      using Suc.prems(1) t f Suc.IH [of "put InHand p x st1"] by (auto intro: grows_push split: if_splits)
  qed
qed (auto intro: growsI)

lemma grows_may: "\<not> is_tr2 f \<Longrightarrow> grows st (may_frame P p f st)"
  by (auto simp: may_frame_def intro: growsI grows_push)

lemma grows_resolveCard:
  assumes "resolveCard H p c st = Some st'"
  shows "grows st st'"
proof -
  have dr: "grows st s" if "draw H q n st = Some s" for q n s
    using frames_draw [OF that] by (rule growsI)
  have whirl: "grows st s" if "play_whirlwind H p st = Some s" for s
    using that unfolding play_whirlwind_def
    by (auto simp: growsI grows_push dest!: frames_takeTop split: bind_splits option.splits if_splits)
  have coll: "grows st s" if "play_collector H p st = Some s" for s
  proof -
    obtain got s1 where e: "gain p SILVER InDeck ''gaindeck'' st = (got, s1)" by fastforce
    have "frames s1 = frames st" using frames_plain(9) [of p SILVER InDeck "''gaindeck''" st] e by simp
    then show ?thesis using that unfolding play_collector_def e prod.case by (auto intro: grows_attack split: if_splits)
  qed
  have drift: "grows st s" if "play_drifter H p st = Some s" for s
    using that unfolding play_drifter_def Let_def
    by (auto simp: growsI grows_push dest!: frames_draw split: bind_splits if_splits)
  have sky: "grows st s" if "play_skywatch H p st = Some s" for s
    using that unfolding play_skywatch_def
    by (auto simp: growsI grows_push dest!: frames_draw frames_take_two split: bind_splits if_splits)
  have alm: "grows st s" if "play_almanac H p st = Some s" for s
    using that unfolding play_almanac_def libraryLoop_def
    by (auto intro: growsI dr grows_library split: if_splits)
  have gold: "grows st s" if "attack H p 23 (snd (gain p GOLD InDisc ''gain'' st)) = Some s" for s
    using that by (rule grows_attack) simp
  have coins: "grows st s" if "attack H p 17 (add_coins 2 st) = Some s" for s
    using that by (rule grows_attack) simp
  show ?thesis
    using assms unfolding resolveCard_def Let_def
    by (auto intro: growsI grows_push whirl coll drift sky alm dr grows_may gold coins grows_attack
        split: if_splits bind_splits)
      (auto simp: growsI grows_push intro: grows_attack dest!: frames_draw)
qed

lemma grows_tr2: "grows st st' \<Longrightarrow> length (filter is_tr2 (frames st')) = length (filter is_tr2 (frames st))"
  by (auto simp: grows_def)

definition waiting :: "sh \<Rightarrow> bool" where
  "waiting st \<longleftrightarrow> sh_corrupt st \<or> threw st \<or> frames st = [] \<or> \<not> is_tr2 (last (frames st))"

lemma drain_enough: "drain H n st = Some st' \<Longrightarrow> length (filter is_tr2 (frames st)) \<le> n \<Longrightarrow> waiting st'"
proof (induction n arbitrary: st)
  case 0
  then have "\<forall>f \<in> set (frames st). \<not> is_tr2 f" "st' = st" by (auto simp: filter_empty_conv)
  then show ?case by (auto simp: waiting_def)
next
  case (Suc n)
  show ?case
  proof (cases "sh_corrupt st \<or> frames st = []")
    case True
    then show ?thesis using Suc.prems(1) by (auto simp: waiting_def)
  next
    case go: False
    show ?thesis
    proof (cases "is_tr2 (last (frames st))")
      case False
      then have "st' = st" using Suc.prems(1) go by (cases "last (frames st)") auto
      then show ?thesis using False by (simp add: waiting_def)
    next
      case True
      then obtain p c where t: "last (frames st) = Tr2 p c" by (cases "last (frames st)") auto
      let ?st = "sh_note p ''play2'' (Some c) None (st\<lparr>frames := butlast (frames st)\<rparr>)"
      obtain st1 where r: "resolveCard H p c ?st = Some st1" and d: "drain H n st1 = Some st'"
        using Suc.prems(1) go t by (auto split: bind_splits)
      have "filter is_tr2 (frames st) = filter is_tr2 (butlast (frames st)) @ [Tr2 p c]"
        using go t append_butlast_last_id [of "frames st"] by (metis filter.simps filter_append is_tr2.simps(1))
      then have "length (filter is_tr2 (frames st1)) \<le> n"
        using grows_tr2 [OF grows_resolveCard [OF r]] Suc.prems(2) by simp
      then show ?thesis by (rule Suc.IH [OF d])
    qed
  qed
qed

lemma waiting_drainAuto: "drainAuto H st = Some st' \<Longrightarrow> waiting st'"
  unfolding drainAuto_def by (erule drain_enough) simp

section \<open>One move\<close>

lemma actor_le: "good g M st \<Longrightarrow> legalActor st \<le> 1"
  by (auto simp: good_def sane_def legalActor_def intro: frame_actor_le)

lemma goodo_drain: "good g M st \<Longrightarrow> goodo g M (drain H n st)"
proof (induction n arbitrary: st)
  case (Suc n)
  show ?case
  proof (cases "(sh_corrupt st \<or> frames st = []) \<or> \<not> is_tr2 (last (frames st))")
    case True
    then show ?thesis using Suc.prems by (cases "last (frames st)") auto
  next
    case False
    then obtain p c where t: "last (frames st) = Tr2 p c" by (cases "last (frames st)") auto
    let ?st = "sh_note p ''play2'' (Some c) None (st\<lparr>frames := butlast (frames st)\<rparr>)"
    have p: "p \<le> 1"
      using Suc.prems False t by (metis frame_actor.simps(16) frame_actor_le good_def last_in_set sane_def)
    have g: "good g M ?st" using good_pop [OF Suc.prems] False by (simp add: t)
    have "goodo g M (Option.bind (resolveCard H p c ?st) (drain H n))"
      by (rule goodo_bind [OF goodo_resolveCard [OF g p] Suc.IH])
    moreover have "drain H (Suc n) st = Option.bind (resolveCard H p c ?st) (drain H n)"
      using False t by simp
    ultimately show ?thesis by simp
  qed
qed simp

lemma goodo_drainAuto: "good g M st \<Longrightarrow> goodo g M (drainAuto H st)"
  unfolding drainAuto_def by (rule goodo_drain)

lemma goodo_sh_apply:
  assumes g: "good g M st"
  shows "goodo g M (sh_apply H side e st)"
proof (cases "sh_corrupt st \<or> sh_over st \<or> side \<noteq> legalActor st + 1")
  case True
  then show ?thesis using good_spoil [OF g] g by (auto simp: sh_apply_def split_beta Let_def)
next
  case False
  have p: "side - 1 \<le> 1" using False actor_le [OF g] by simp
  note bind = goodo_bind [where M = M and k = "drainAuto H", OF _ goodo_drainAuto]
  have "goodo g M (Option.bind (resolveFrame H (snd (sh_decMove e)) st) (\<lambda>s. if threw s then Some s else drainAuto H s))"
    if "frames st \<noteq> []"
    by (rule goodo_bind [OF goodo_resolveFrame [OF g that]]) (simp add: goodo_drainAuto)
  moreover have "goodo g M (Option.bind (do_play H (side - 1) (snd (sh_decMove e)) st) (drainAuto H))"
    "goodo g M (Option.bind (do_end H (side - 1) st) (drainAuto H))"
    using bind [OF goodo_do_play [OF g p]] bind [OF goodo_do_end [OF g p]] by simp_all
  moreover have "goodo g M (drainAuto H (do_coins (side - 1) (snd (sh_decMove e)) st))"
    "goodo g M (drainAuto H (do_buy (side - 1) (snd (sh_decMove e)) st))"
    using goodo_drainAuto [OF good_do_coins [OF g p]] goodo_drainAuto [OF good_do_buy [OF g p]] by simp_all
  ultimately show ?thesis
    using False good_spoil [OF g] by (auto simp: sh_apply_def split_beta Let_def)
qed

lemma waiting_sh_apply: "sh_apply H side e st = Some st' \<Longrightarrow> waiting st'"
  unfolding sh_apply_def Let_def split_beta
  by (auto simp: waiting_def spoil_def dest: waiting_drainAuto [unfolded waiting_def] split: if_splits bind_splits)

section \<open>The replay\<close>

definition sh_stopped :: "sh \<Rightarrow> bool" where
  "sh_stopped st \<longleftrightarrow> sh_corrupt st \<or> threw st"

definition sh_move :: "(nat \<Rightarrow> nat) \<Rightarrow> nat \<Rightarrow> sh_rec \<Rightarrow> sh \<Rightarrow> sh option" where
  "sh_move H i r st =
     (case r of (e, side, q) \<Rightarrow> map_option (\<lambda>s. s\<lparr>sh_mi := i + 1\<rparr>) (sh_apply H side e (st\<lparr>sq := q\<rparr>)))"

lemma sh_loop_run:
  "sh_loop H i recs st =
     (case run_log (sh_move H) sh_stopped i recs st of
        (s, None) \<Rightarrow> s | (s, Some k) \<Rightarrow> s\<lparr>sh_blocked := True, blockedAt := int k\<rparr>)"
proof (induction H i recs st rule: sh_loop.induct)
  case (2 H i e side q recs st)
  then show ?case
    by (cases "sh_apply H side e (st\<lparr>sq := q\<rparr>)") (auto simp: sh_stopped_def sh_move_def)
qed simp

text \<open>
  The contract of a referee, for the books and for the stack of decisions. The chain guarantees
  nothing of a record here: the engine checks the side itself.
\<close>

definition table_good :: "(nat \<Rightarrow> int) \<Rightarrow> int \<Rightarrow> sh \<Rightarrow> bool" where
  "table_good g M st \<longleftrightarrow> good g M st \<and> waiting st"

interpretation shr: referee "sh_move H" sh_stopped "\<lambda>_. True" "\<lambda>_. table_good g M" for H g M
proof
  fix i st r st'
  assume a: "table_good g M st" "sh_move H i r st = Some st'"
  obtain e side q where r: "r = (e, side, q)" by (cases r)
  obtain s where s: "sh_apply H side e (st\<lparr>sq := q\<rparr>) = Some s" "st' = s\<lparr>sh_mi := i + 1\<rparr>"
    using a(2) by (auto simp: sh_move_def r)
  have "good g M (st\<lparr>sq := q\<rparr>)" using a(1) by (simp add: table_good_def)
  from goodo_sh_apply [OF this, of H side e] s have "good g M st'" by simp
  moreover have "waiting st'" using waiting_sh_apply [OF s(1)] s(2) by (simp add: waiting_def)
  ultimately show "table_good g M st'" by (simp add: table_good_def)
qed

lemma loop_good:
  assumes "table_good g M st"
  shows "table_good g M (sh_loop H i recs st)"
proof -
  have "table_good g M (fst (run_log (sh_move H) sh_stopped i recs st))"
    using shr.run_inv [OF assms, of recs i H] by blast
  moreover have "table_good g M (s\<lparr>sh_blocked := b, blockedAt := k\<rparr>) = table_good g M s" for s b k
    by (simp add: table_good_def waiting_def)
  ultimately show ?thesis unfolding sh_loop_run by (auto split: prod.split option.split)
qed

section \<open>The setup\<close>

definition box_sum :: "(nat \<Rightarrow> int) \<Rightarrow> nat list \<Rightarrow> int" where
  "box_sum g pick =
     (\<Sum>c < 34. (case start_supply pick c of None \<Rightarrow> 0 | Some n \<Rightarrow> int n) * g c) + 2 * cards_sum g start_cards"

lemma good_deal_start:
  assumes "good g M st" "p \<le> 1" "deck (ps st p) = []"
  shows "goodo g (M + cards_sum g start_cards) (deal_start H p st)"
proof -
  let ?x = "if known st p then sh_shuffled H st start_cards (Some p)
            else Some (map (\<lambda>_. UNKNOWN) start_cards, st\<lparr>shufN := shufN st + 1\<rparr>)"
  have "goodo g (M + cards_sum g start_cards) (draw H p 5 (set_zone p ((ps st1 p)\<lparr>deck := d\<rparr>) st1))"
    if x: "?x = Some (d, st1)" for d st1
  proof -
    have "st1 = st\<lparr>shufN := shufN st + 1\<rparr> \<and> cards_sum g d = cards_sum g start_cards"
    proof (cases "known st p")
      case True
      then have s: "sh_shuffled H st start_cards (Some p) = Some (d, st1)" using x by simp
      then show ?thesis using shuffled_sum [OF s] cards_sum_mset [of d start_cards g] by blast
    next
      case False
      then have "\<forall>x y. g x = g y" using known_all [OF good_countable [OF assms(1)], of p] by blast
      then have "cards_sum g (map (\<lambda>_. UNKNOWN) start_cards) = cards_sum g start_cards"
        by (rule cards_sum_same_length) simp
      then show ?thesis using x False by auto
    qed
    then have e: "st1 = st\<lparr>shufN := shufN st + 1\<rparr>" "cards_sum g d = cards_sum g start_cards" by blast+
    have "good g M st1" using assms(1) by (simp add: e(1))
    then have "good g (M + cards_sum g start_cards) (set_zone p ((ps st1 p)\<lparr>deck := d\<rparr>) st1)"
      by (rule good_zone [OF _ assms(2)]) (simp add: zone_sum_def e assms(3))
    then show ?thesis by (rule goodo_draw [OF _ assms(2)])
  qed
  then show ?thesis unfolding deal_start_def goodo_def by (auto split: bind_splits)
qed

lemma frames_deal_start: "deal_start H p st = Some st' \<Longrightarrow> frames st' = frames st"
  by (auto simp: deal_start_def dest!: frames_draw frames_shuffled split: bind_splits if_splits)

lemma ps_shuffled: "sh_shuffled H st arr p = Some (d, st') \<Longrightarrow> ps st' = ps st"
  by (auto simp: sh_shuffled_def Let_def split: option.splits)

lemma ps_takeTop: "takeTop H p st = Some (c, st') \<Longrightarrow> q \<noteq> p \<Longrightarrow> ps st' q = ps st q"
  by (auto simp: takeTop_def Let_def set_zone_def ps_shuffled sh_note_def split: if_splits bind_splits)

lemma ps_draw_loop: "draw_loop H p n got st = Some (k, st') \<Longrightarrow> q \<noteq> p \<Longrightarrow> ps st' q = ps st q"
proof (induction n arbitrary: got st)
  case (Suc n)
  then show ?case by (fastforce simp: ps_takeTop set_zone_def split: bind_splits option.splits)
qed simp

lemma ps_deal_start: "deal_start H p st = Some st' \<Longrightarrow> q \<noteq> p \<Longrightarrow> ps st' q = ps st q"
  by (auto simp: deal_start_def draw_def ps_shuffled set_zone_def dest!: ps_draw_loop [where q = q] split: bind_splits if_splits)

end
