(* ===== verification/StormSeeds.thy ===== *)
theory StormSeeds
  imports StormTable
begin

text \<open>
  Progress of an open game of Stormhold: while the seed of a move is known, nothing the move does
  can block. \<open>live\<close> says of the result of an operation that it is a state, again with its seed.
\<close>

declare One_nat_def [simp del]

definition seeded :: "sh \<Rightarrow> bool" where
  "seeded st \<longleftrightarrow> \<not> hidden st \<and> (\<exists>q. sq st = OneSeed q)"

definition live :: "sh option \<Rightarrow> bool" where
  "live x \<longleftrightarrow> (\<exists>st. x = Some st \<and> seeded st)"

lemma live_Some [simp]: "live (Some st) = seeded st"
  by (simp add: live_def)

lemma live_bind: "live x \<Longrightarrow> (\<And>st. seeded st \<Longrightarrow> live (k st)) \<Longrightarrow> live (Option.bind x k)"
  by (auto simp: live_def)

lemma seeded_cong: "hidden a = hidden b \<Longrightarrow> sq a = sq b \<Longrightarrow> seeded a = seeded b"
  by (simp add: seeded_def)

lemma sq_note [simp]: "sq (sh_note p ev c n st) = sq st"
  by (simp add: sh_note_def Let_def)

lemma seeded_plain [simp]:
  "seeded (sh_note p ev co no st) = seeded st" "seeded (spoil w st) = seeded st" "seeded (cheat p w st) = seeded st"
  "seeded (set_zone p z st) = seeded st" "seeded (put v p c st) = seeded st" "seeded (put_play p c st) = seeded st"
  "seeded (put_trash c st) = seeded st" "seeded (push_frame f st) = seeded st" "seeded (add_actions k st) = seeded st"
  "seeded (add_buys k st) = seeded st" "seeded (add_coins k st) = seeded st" "seeded (snd (gain p c v ev st)) = seeded st"
  "seeded (snd (lift_hand p i st)) = seeded st" "seeded (may_frame P p f st) = seeded st"
  "seeded (st\<lparr>shufN := n\<rparr>) = seeded st" "seeded (st\<lparr>frames := fs\<rparr>) = seeded st" "seeded (st\<lparr>actions := n\<rparr>) = seeded st"
  "seeded (st\<lparr>sh_phase := n\<rparr>) = seeded st" "seeded (st\<lparr>merch := n\<rparr>) = seeded st" "seeded (st\<lparr>threw := b\<rparr>) = seeded st"
  "seeded (st\<lparr>coins := x, buys := y\<rparr>) = seeded st" "seeded (st\<lparr>sh_over := b, sh_result := x\<rparr>) = seeded st"
  "seeded (st\<lparr>sh_mi := x\<rparr>) = seeded st" "seeded (st\<lparr>sh_logs := l\<rparr>) = seeded st"
  by (rule seeded_cong; simp add: spoil_def cheat_def set_zone_def put_def put_play_def put_trash_def push_frame_def
      add_actions_def add_buys_def add_coins_def gain_def lift_hand_def may_frame_def Let_def)+

lemma seeded_fold_put [simp]: "seeded (fold (put w p) cs st) = seeded st"
  by (induction cs arbitrary: st) simp_all

lemma seeded_fold_note [simp]: "seeded (fold (\<lambda>c. sh_note p ev (Some c) n) cs st) = seeded st"
  by (induction cs arbitrary: st) simp_all

lemma seeded_aside [simp]: "seeded (aside_done p aside st) = seeded st"
  by (simp add: aside_done_def)

lemma seeded_fold_trash [simp]: "seeded (fold (trash_hand p) is st) = seeded st"
proof (induction "is" arbitrary: st)
  case (Cons i "is")
  have "seeded (trash_hand p i s) = seeded s" for s
    using seeded_plain(13) [of p i s] by (simp add: trash_hand_def split_beta)
  with Cons show ?case by simp
qed simp

lemma seeded_open: "seeded st \<Longrightarrow> \<not> hidden st"
  by (simp add: seeded_def)

section \<open>Drawing\<close>

lemma shuffled_live: "seeded st \<Longrightarrow> \<exists>d st'. sh_shuffled H st arr p = Some (d, st') \<and> seeded st' \<and> sh_corrupt st' = sh_corrupt st"
  by (auto simp: seeded_def sh_shuffled_def seed_for_def Let_def)

lemma takeTop_live:
  assumes "seeded st"
  shows "\<exists>c st'. takeTop H p st = Some (c, st') \<and> seeded st' \<and> sh_corrupt st' = sh_corrupt st"
proof -
  obtain d st1 where s: "sh_shuffled H st (disc (ps st p)) (Some p) = Some (d, st1)" "seeded st1" "sh_corrupt st1 = sh_corrupt st"
    using shuffled_live [OF assms] by blast
  have "known st p" using seeded_open [OF assms] by (simp add: known_def)
  then show ?thesis using assms s by (simp add: takeTop_def Let_def)
qed

lemma takeTop_bind:
  "seeded st \<Longrightarrow> (\<And>c st'. seeded st' \<Longrightarrow> live (k (c, st'))) \<Longrightarrow> live (Option.bind (takeTop H p st) k)"
  using takeTop_live [of st H p] by fastforce

lemma draw_loop_live:
  "seeded st \<Longrightarrow> \<exists>k st'. draw_loop H p n got st = Some (k, st') \<and> seeded st' \<and> sh_corrupt st' = sh_corrupt st"
proof (induction n arbitrary: got st)
  case (Suc n)
  obtain c st1 where t: "takeTop H p st = Some (c, st1)" "seeded st1" "sh_corrupt st1 = sh_corrupt st"
    using takeTop_live [OF Suc.prems] by blast
  show ?case
  proof (cases c)
    case (Some x)
    have "seeded (set_zone p ((ps st1 p)\<lparr>hand := hand (ps st1 p) @ [x]\<rparr>) st1)" using t(2) by simp
    from Suc.IH [OF this] show ?thesis using t(1,3) by (simp add: Some)
  qed (use t in simp)
qed simp

lemma draw_live: "seeded st \<Longrightarrow> \<exists>st'. draw H p n st = Some st' \<and> seeded st' \<and> sh_corrupt st' = sh_corrupt st"
  using draw_loop_live [of st H p n 0] by (auto simp: draw_def)

lemma live_draw: "seeded st \<Longrightarrow> live (draw H p n st)"
  using draw_live by (simp add: live_def) blast

lemma take_two_live: "seeded st \<Longrightarrow> \<exists>cs st'. take_two H p st = Some (cs, st') \<and> seeded st'"
proof -
  assume "seeded st"
  then obtain c0 s0 where t0: "takeTop H p st = Some (c0, s0)" "seeded s0" using takeTop_live by blast
  then obtain c1 s1 where "takeTop H p s0 = Some (c1, s1)" "seeded s1" using takeTop_live by blast
  with t0 show ?thesis by (simp add: take_two_def)
qed

section \<open>Effects, decisions and moves\<close>

lemma live_riders: "seeded st \<Longrightarrow> live (storm_riders H d st)"
  using take_two_live [of st H d] by (auto simp: storm_riders_def Let_def)

lemma seeded_collector: "seeded (collector d st) = seeded st"
  using seeded_plain(13) [of d _ st] by (simp add: collector_def Let_def split_beta)

lemma live_applyAttack: "seeded st \<Longrightarrow> live (applyAttack H c d st)"
  by (simp add: applyAttack_def live_riders seeded_collector)

lemma live_attack: "seeded st \<Longrightarrow> live (attack H p c st)"
  by (simp add: attack_def Let_def live_applyAttack)

lemma live_library: "seeded st \<Longrightarrow> live (library_draw H p aside n st)"
proof (induction n arbitrary: st)
  case (Suc n)
  show ?case
    unfolding library_draw.simps
    by (rule takeTop_bind [OF Suc.prems]) (simp add: Suc.IH split: option.split)
qed simp

lemma live_resolveCard:
  assumes s: "seeded st"
  shows "live (resolveCard H p c st)"
proof -
  have whirl: "live (play_whirlwind H p st)"
    unfolding play_whirlwind_def by (rule takeTop_bind) (use s in \<open>auto split: option.split\<close>)
  have coll: "live (play_collector H p st)"
    using s live_attack [of "snd (gain p SILVER InDeck ''gaindeck'' st)"]
      live_attack [of "sh_note p ''supplyout'' (Some SILVER) None (snd (gain p SILVER InDeck ''gaindeck'' st))"]
    by (simp add: play_collector_def split_beta)
  have drift: "live (play_drifter H p st)"
    unfolding play_drifter_def Let_def by (rule live_bind [OF live_draw [OF s]]) simp
  have sky: "live (play_skywatch H p st)"
    unfolding play_skywatch_def
  proof (rule live_bind [OF live_draw [OF s]])
    fix st1 assume "seeded st1"
    then show "live (do { (cards, st2) \<leftarrow> take_two H p (add_actions 1 st1);
        Some (if cards \<noteq> [] then push_frame (Sen p cards) st2 else st2) })"
      using take_two_live [of "add_actions 1 st1" H p] by auto
  qed
  have alm: "live (play_almanac H p st)"
    using s live_library by (simp add: play_almanac_def libraryLoop_def live_draw)
  have bind: "live (Option.bind (draw H p n st) k)" if "\<And>st'. seeded st' \<Longrightarrow> live (k st')" for n k
    by (rule live_bind [OF live_draw [OF s] that])
  show ?thesis
    unfolding resolveCard_def Let_def
    using s whirl coll drift sky alm by (simp add: live_draw live_attack bind)
qed

lemma discardMask_seeded: "discardMask p m e st = Some r \<Longrightarrow> seeded (snd r) = seeded st"
  by (auto simp: discardMask_def Let_def split: if_splits option.splits)

lemma seeded_sen_split [simp]: "seeded (snd (sen_split p cds kept st)) = seeded st"
  by (induction p cds kept st rule: sen_split.induct) simp_all

lemma seeded_materialize [simp]: "seeded (snd (materialize st p i c)) = seeded st"
  by (simp add: materialize_def Let_def)

lemma seeded_fr:
  "seeded (fr_chp p x st) = seeded st" "seeded (fr_har p x st) = seeded st" "seeded (fr_bur p x st) = seeded st"
  "seeded (fr_ban p cs x st) = seeded st" "seeded (fr_banH p cs x st) = seeded st" "seeded (fr_burH p x st) = seeded st"
  "seeded (fr_mon p x st) = seeded st" "seeded (fr_sen p cs x st) = seeded st" "seeded (fr_artT p x st) = seeded st"
  by (simp_all add: fr_chp_def fr_har_def fr_bur_def fr_ban_def fr_banH_def fr_burH_def fr_mon_def fr_sen_def fr_artT_def
      Let_def split_beta del: fold_simps)

lemma seeded_fr_mask: "seeded (fr_mil p x st) = seeded st" "seeded (fr_poa p n x st) = seeded st"
  using discardMask_seeded [of p x _ st] by (auto simp: fr_mil_def fr_poa_def split: option.split)

lemma seeded_fr_gain: "seeded (fr_remG p mx x st) = seeded st" "seeded (fr_minG p mx x st) = seeded st"
  "seeded (fr_artG p x st) = seeded st" "seeded (fr_wsh p x st) = seeded st"
  by (simp_all add: fr_remG_def fr_minG_def fr_artG_def fr_wsh_def)

lemma seeded_fr_trash:
  assumes "\<not> hidden st"
  shows "seeded (fr_remT p x st) = seeded st" "seeded (fr_minT p x st) = seeded st"
  using assms by (simp_all add: fr_remT_def fr_minT_def Let_def split_beta)

lemma live_fr:
  assumes s: "seeded st"
  shows "live (fr_cel H p x st)" "live (fr_vas H p c x st)" "live (fr_vasH H p c x st)"
    "live (fr_thr H p x st)" "live (fr_lib H p c aside x st)" "live (fr_moat H p c x st)"
proof -
  show "live (fr_cel H p x st)"
    using s discardMask_seeded [of p x None st] by (auto simp: fr_cel_def live_draw split: option.split)
  show "live (fr_vas H p c x st)" "live (fr_vasH H p c x st)"
    using s by (simp_all add: fr_vas_def fr_vasH_def Let_def live_resolveCard)
  show "live (fr_thr H p x st)"
    using s seeded_open [OF s] by (simp add: fr_thr_def Let_def split_beta live_resolveCard)
  show "live (fr_lib H p c aside x st)"
    using s by (simp add: fr_lib_def libraryLoop_def live_library)
  show "live (fr_moat H p c x st)"
    using s by (simp add: fr_moat_def live_applyAttack)
qed

lemma live_resolveFrame:
  assumes "seeded st"
  shows "live (resolveFrame H x st)"
proof -
  have s: "seeded (st\<lparr>frames := butlast (frames st)\<rparr>)" using assms by simp
  show ?thesis
    unfolding resolveFrame_def Let_def
    using live_fr [OF s] s seeded_open [OF s]
    by (cases "last (frames st)")
      (simp_all add: seeded_fr seeded_fr_mask seeded_fr_gain seeded_fr_trash [OF seeded_open [OF s]])
qed

lemma live_drain: "seeded st \<Longrightarrow> live (drain H n st)"
proof (induction n arbitrary: st)
  case (Suc n)
  show ?case
  proof (cases "sh_corrupt st \<or> frames st = []")
    case False
    have "live (Option.bind (resolveCard H p c (sh_note p ''play2'' (Some c) None (st\<lparr>frames := butlast (frames st)\<rparr>))) (drain H n))" for p c
      by (rule live_bind [OF live_resolveCard Suc.IH]) (use Suc.prems in simp)
    then show ?thesis using False Suc.prems by (cases "last (frames st)") simp_all
  qed (use Suc.prems in simp)
qed simp

lemma seeded_drop [simp]: "seeded (drop_hand p is st) = seeded st"
  by (simp add: drop_hand_def)

lemma seeded_merchant [simp]: "seeded (merchant_bonus p b st) = seeded st"
proof -
  have "seeded (st\<lparr>coins := x, silverDone := y\<rparr>) = seeded st" for x y by (rule seeded_cong) simp_all
  moreover have "seeded (st\<lparr>silverDone := y\<rparr>) = seeded st" for y by (rule seeded_cong) simp_all
  ultimately show ?thesis by (simp add: merchant_bonus_def Let_def)
qed

lemma seeded_treasures [simp]: "seeded (fold (play_treasure p) cs st) = seeded st"
  by (induction cs arbitrary: st) (simp_all add: play_treasure_def)

lemma seeded_coins [simp]: "seeded (do_coins p x st) = seeded st"
  by (simp add: do_coins_def Let_def)

lemma seeded_buy [simp]: "seeded (do_buy p c st) = seeded st"
proof -
  have "seeded (st\<lparr>sh_phase := x, coins := y, buys := z\<rparr>) = seeded st" for x y z by (rule seeded_cong) simp_all
  then show ?thesis by (simp add: do_buy_def Let_def)
qed

lemma live_end: "seeded st \<Longrightarrow> live (do_end H p st)"
proof -
  assume s: "seeded st"
  have n: "seeded (s\<lparr>sh_turn := a, sh_phase := b, actions := c, buys := d, coins := e, merch := f, silverDone := g\<rparr>) = seeded s"
    for s a b c d e f g by (rule seeded_cong) simp_all
  show ?thesis
    using s by (auto simp: do_end_def Let_def n intro!: live_bind [OF live_draw])
qed

lemma live_apply:
  assumes s: "seeded st"
  shows "live (sh_apply H side e st)"
proof -
  have p: "live (do_play H p x st)" for p x
    using s seeded_open [OF s] by (simp add: do_play_def Let_def split_beta live_resolveCard)
  have a: "seeded s \<Longrightarrow> live (drainAuto H s)" for s by (simp add: drainAuto_def live_drain)
  have r: "live (do { st1 \<leftarrow> resolveFrame H x st; if threw st1 then Some st1 else drainAuto H st1 })" for x
    by (rule live_bind [OF live_resolveFrame [OF s]]) (simp add: a)
  have d: "live (Option.bind (do_play H p x st) (drainAuto H))" "live (Option.bind (do_end H p st) (drainAuto H))" for p x
    by (rule live_bind [OF p a], assumption, rule live_bind [OF live_end [OF s] a], assumption)
  show ?thesis
    unfolding sh_apply_def Let_def split_beta
    using s r d a by simp
qed

section \<open>Replays of open games\<close>

lemma sh_blocked_none:
  assumes "seeded st" "\<forall>r \<in> set recs. \<exists>q. snd (snd r) = OneSeed q"
  shows "\<exists>s. run_log (sh_move H) sh_stopped i recs st = (s, None) \<and> seeded s"
  using assms
proof (induction recs arbitrary: i st)
  case (Cons r recs)
  obtain e side q where r: "r = (e, side, OneSeed q)" using Cons.prems(2) by (cases r) auto
  have "seeded (st\<lparr>sq := OneSeed q\<rparr>)" using Cons.prems(1) by (simp add: seeded_def)
  from live_apply [OF this, of H side e] obtain s where s: "sh_apply H side e (st\<lparr>sq := OneSeed q\<rparr>) = Some s" "seeded s"
    by (auto simp: live_def)
  have "seeded (s\<lparr>sh_mi := i + 1\<rparr>)" using s(2) by simp
  from Cons.IH [OF this] Cons.prems s(1) show ?case by (simp add: sh_move_def r)
qed simp

text \<open>With the seeds of all records final, an open game replays to its end.\<close>

lemma sh_loop_seeded:
  assumes "seeded st" "\<forall>r \<in> set recs. \<exists>q. snd (snd r) = OneSeed q"
  shows "fst (run_log (sh_move H) sh_stopped i recs st) = sh_loop H i recs st \<and>
         snd (run_log (sh_move H) sh_stopped i recs st) = None"
  using sh_blocked_none [OF assms, of H i] by (auto simp: sh_loop_run)

lemma init_seeded:
  assumes "m = 0 \<or> maskToKingdom m \<noteq> None"
  shows "\<exists>st. sh_init H g (OneSeed q) m False pv = Some st \<and> seeded st \<and> \<not> sh_corrupt st"
proof -
  let ?b = "sh_blank g (OneSeed q) False pv"
  have b: "seeded ?b" "\<not> sh_corrupt ?b" by (simp_all add: seeded_def sh_blank_def)
  obtain pick st1 where p: "(if m \<noteq> 0 then Some (the (maskToKingdom m), ?b)
      else do { (k, st') \<leftarrow> sh_shuffled H ?b KINGDOM None; Some (take 10 k, st') }) = Some (pick, st1)"
    "seeded st1" "\<not> sh_corrupt st1"
    using shuffled_live [OF b(1), of H KINGDOM None] b by (cases "m = 0") fastforce+
  have deal: "\<exists>s'. deal_start H p s = Some s' \<and> seeded s' \<and> \<not> sh_corrupt s'" if sd: "seeded s" and nc: "\<not> sh_corrupt s" for p s
  proof -
    obtain d s1 where d: "sh_shuffled H s start_cards (Some p) = Some (d, s1)" "seeded s1" "\<not> sh_corrupt s1"
      using shuffled_live [OF sd, of H start_cards "Some p"] nc by blast
    have "known s p" using seeded_open [OF sd] by (simp add: known_def)
    then show ?thesis
      using draw_live [of "set_zone p ((ps s1 p)\<lparr>deck := d\<rparr>) s1" H p 5] d by (simp add: deal_start_def)
  qed
  let ?k = "sort_key (\<lambda>a. (card_cost a, a)) pick"
  have "seeded (st1\<lparr>kingdom := ?k, stock := start_supply ?k\<rparr>)" "\<not> sh_corrupt (st1\<lparr>kingdom := ?k, stock := start_supply ?k\<rparr>)"
    using p(2,3) by (simp_all add: seeded_def)
  from deal [OF this, of 0] obtain s3 where s3: "deal_start H 0 (st1\<lparr>kingdom := ?k, stock := start_supply ?k\<rparr>) = Some s3"
    "seeded s3" "\<not> sh_corrupt s3" by blast
  from deal [OF this(2,3), of 1] obtain s4 where "deal_start H 1 s3 = Some s4" "seeded s4" "\<not> sh_corrupt s4" by blast
  with assms p(1) s3 show ?thesis
    by (auto simp: sh_init_def Let_def)
qed

end
