(* ===== verification/StormProperties.thy ===== *)
theory StormProperties
  imports StormSeeds
begin

text \<open>
  The properties of Stormhold, over whole replays: the box of cards, the ids in play, who is asked
  next, the kingdom masks, and the unchecked claim of Reforge.
\<close>

declare One_nat_def [simp del]

section \<open>The box of cards\<close>

fun held_cards :: "sh_frame \<Rightarrow> nat list" where
  "held_cards (Vas _ c) = [c]"
| "held_cards (VasH _ c) = [c]"
| "held_cards (Ban _ cs) = cs"
| "held_cards (BanH _ cs) = cs"
| "held_cards (Sen _ cs) = cs"
| "held_cards (Lib _ c aside) = c # aside"
| "held_cards _ = []"

text \<open>Every card that is not in a supply pile, the copies in the piles, and what the box holds.\<close>

definition cards_out :: "sh \<Rightarrow> nat list" where
  "cards_out st = allCards st 0 @ allCards st 1 @ trash st @ concat (map held_cards (frames st))"

definition in_pile :: "sh \<Rightarrow> nat \<Rightarrow> nat" where
  "in_pile st c = (case stock st c of None \<Rightarrow> 0 | Some n \<Rightarrow> n)"

definition pile_start :: "nat \<Rightarrow> nat" where
  "pile_start c = (if isV c then 8 else 10)"

definition copies :: "nat list \<Rightarrow> nat \<Rightarrow> nat" where
  "copies pick c =
     (if c \<in> set pick then pile_start c
      else if c = COPPER then 60 else if c = SILVER then 40 else if c = GOLD then 30
      else if c = HOMESTEAD then 14 else if c = VALLEY then 8 else if c = CITADEL then 8
      else if c = BLIGHT then 10 else 0)"

definition one_id :: "nat \<Rightarrow> nat \<Rightarrow> int" where
  "one_id c x = (if x = c then 1 else 0)"

lemma held_held_cards: "held g f = cards_sum g (held_cards f)"
  by (cases f) simp_all

lemma cards_sum_concat: "cards_sum g (concat xss) = sum_list (map (cards_sum g) xss)"
  by (induction xss) simp_all

lemma tally_cards_out: "tally g st = cards_sum g (cards_out st) + (\<Sum>c < 34. int (in_pile st c) * g c)"
proof -
  have "held g = (\<lambda>f. cards_sum g (held_cards f))" by (rule ext) (rule held_held_cards)
  then have "sum_list (map (held g) (frames st)) = sum_list (map (cards_sum g \<circ> held_cards) (frames st))"
    by (simp add: comp_def)
  moreover have "pile_size st c = int (in_pile st c)" for c
    by (simp add: pile_size_def in_pile_def split: option.split)
  ultimately show ?thesis
    by (simp add: tally_def cards_out_def allCards_def Let_def zone_sum_def cards_sum_concat)
qed

lemma cards_sum_one_id: "cards_sum (one_id c) xs = int (count_list xs c)"
  by (induction xs) (simp_all add: one_id_def)

lemma sum_one_id: "(\<Sum>x < 34. int (f x) * one_id c x) = (if c < 34 then int (f c) else 0)"
proof -
  have "(\<Sum>x < 34. int (f x) * one_id c x) = (\<Sum>x < 34. if x = c then int (f x) else 0)"
    by (intro sum.cong) (simp_all add: one_id_def)
  then show ?thesis by simp
qed

lemma tally_one_id: "tally (one_id c) st = int (count_list (cards_out st) c) + (if c < 34 then int (in_pile st c) else 0)"
  by (simp add: tally_cards_out cards_sum_one_id sum_one_id)

lemma tally_const: "tally (\<lambda>_. 1) st = int (length (cards_out st) + (\<Sum>c < 34. in_pile st c))"
  using cards_sum_const [of "\<lambda>_. 1" "cards_out st"] by (simp add: tally_cards_out)

definition kingdom_ok :: "nat list \<Rightarrow> bool" where
  "kingdom_ok pick \<longleftrightarrow> distinct pick \<and> length pick = 10 \<and> set pick \<subseteq> set KINGDOM"

lemma box_one_id:
  assumes "kingdom_ok pick"
  shows "box_sum (one_id c) pick = int (copies pick c)"
proof -
  let ?f = "\<lambda>c. case start_supply pick c of None \<Rightarrow> 0 | Some n \<Rightarrow> n"
  have k: "x \<in> set pick \<Longrightarrow> 7 \<le> x \<and> x < 33" for x using assms by (auto simp: kingdom_ok_def KINGDOM_def)
  have "(case start_supply pick x of None \<Rightarrow> 0 | Some n \<Rightarrow> int n) = int (?f x)" for x
    by (simp split: option.split)
  then have "box_sum (one_id c) pick = (if c < 34 then int (?f c) else 0) + 2 * int (count_list start_cards c)"
    by (simp add: box_sum_def sum_one_id cards_sum_one_id)
  also have "\<dots> = int (copies pick c)"
  proof (cases "c \<in> set pick")
    case True
    with k [OF True] show ?thesis
      by (simp add: copies_def start_supply_def pile_start_def start_cards_def sh_ids)
  next
    case False
    have s: "start_supply pick c =
        map_of [(COPPER, 46), (SILVER, 40), (GOLD, 30), (HOMESTEAD, 8), (VALLEY, 8), (CITADEL, 8), (BLIGHT, 10)] c"
      by (simp only: start_supply_def False if_False)
    have t: "copies pick c = (if c = COPPER then 60 else if c = SILVER then 40 else if c = GOLD then 30
      else if c = HOMESTEAD then 14 else if c = VALLEY then 8 else if c = CITADEL then 8
      else if c = BLIGHT then 10 else 0)"
      by (simp only: copies_def False if_False)
    show ?thesis
      unfolding s t by (simp add: start_cards_def sh_ids)
  qed
  finally show ?thesis .
qed

lemma box_const:
  assumes "kingdom_ok pick"
  shows "box_sum (\<lambda>_. 1) pick = int (170 + sum_list (map pile_start pick))"
proof -
  let ?f = "\<lambda>c. case start_supply pick c of None \<Rightarrow> 0 | Some n \<Rightarrow> n"
  have k: "x \<in> set pick \<Longrightarrow> 7 \<le> x \<and> x < 33" for x using assms by (auto simp: kingdom_ok_def KINGDOM_def)
  have "(\<Sum>c < 34. ?f c) = (\<Sum>c \<in> {..<34} - set pick. ?f c) + (\<Sum>c \<in> set pick. ?f c)"
    by (rule sum.subset_diff) (use k in fastforce)+
  moreover have "(\<Sum>c \<in> set pick. ?f c) = sum_list (map pile_start pick)"
    using assms by (simp add: kingdom_ok_def start_supply_def pile_start_def sum_list_distinct_conv_sum_set)
  moreover have "(\<Sum>c \<in> {..<34} - set pick. ?f c) = (\<Sum>c \<in> {..<7}. ?f c)"
  proof (rule sum.mono_neutral_right)
    show "{..<7} \<subseteq> {..<34} - set pick" using k by fastforce
    show "\<forall>c \<in> {..<34} - set pick - {..<7}. ?f c = 0" by (auto simp: start_supply_def sh_ids)
  qed simp
  moreover have "(\<Sum>c \<in> {..<7}. ?f c) = 150"
  proof -
    have "c \<notin> set pick" if "c < 7" for c using k [of c] that by fastforce
    then have "?f c = [46, 40, 30, 8, 8, 8, 10] ! c" if "c \<in> {0, 1, 2, 3, 4, 5, 6}" for c
      using that by (auto simp: start_supply_def sh_ids)
    then have "(\<Sum>c \<in> {0, 1, 2, 3, 4, 5, 6}. ?f c) = (\<Sum>c \<in> {0, 1, 2, 3, 4, 5, 6}. [46, 40, 30, 8, 8, 8, 10] ! c)"
      by (rule sum.cong [OF refl])
    moreover have "{..<7 :: nat} = {0, 1, 2, 3, 4, 5, 6}" by auto
    ultimately show ?thesis by simp
  qed
  moreover have "(\<Sum>c < 34. (case start_supply pick c of None \<Rightarrow> 0 | Some n \<Rightarrow> int n)) = int (\<Sum>c < 34. ?f c)"
    unfolding of_nat_sum by (intro sum.cong) (simp_all split: option.split)
  moreover have "cards_sum (\<lambda>_. 1) start_cards = 10" by (simp add: start_cards_def)
  ultimately show ?thesis by (simp add: box_sum_def)
qed

section \<open>The setup\<close>

lemma kingdom_shuffled: "sh_shuffled H st arr p = Some (d, st') \<Longrightarrow> kingdom st' = kingdom st"
  by (auto simp: sh_shuffled_def Let_def split: option.splits)

lemma kingdom_takeTop: "takeTop H p st = Some (c, st') \<Longrightarrow> kingdom st' = kingdom st"
  by (auto simp: takeTop_def Let_def set_zone_def kingdom_shuffled split: if_splits bind_splits)

lemma kingdom_draw_loop: "draw_loop H p n got st = Some (k, st') \<Longrightarrow> kingdom st' = kingdom st"
proof (induction n arbitrary: got st)
  case (Suc n)
  then show ?case by (fastforce simp: kingdom_takeTop set_zone_def split: bind_splits option.splits)
qed simp

lemma kingdom_deal_start: "deal_start H p st = Some st' \<Longrightarrow> kingdom st' = kingdom st"
  by (auto simp: deal_start_def draw_def set_zone_def kingdom_shuffled dest!: kingdom_draw_loop split: bind_splits if_splits)

lemma set_KINGDOM: "set KINGDOM = {7..<33}"
  unfolding KINGDOM_def by (rule set_upt)

lemma mask_kingdom_ok: "maskToKingdom m = Some pick \<Longrightarrow> kingdom_ok pick"
  unfolding kingdom_ok_def set_KINGDOM
  by (auto simp: maskToKingdom_def Let_def distinct_map inj_on_def simp del: upt.simps split: if_splits)

lemma kingdom_ok_cong: "mset xs = mset ys \<Longrightarrow> kingdom_ok xs \<longleftrightarrow> kingdom_ok ys"
  by (metis kingdom_ok_def mset_eq_imp_distinct_iff mset_eq_length mset_eq_setD)

lemma take_kingdom_ok:
  assumes "mset k = mset KINGDOM"
  shows "kingdom_ok (take 10 k)"
proof -
  have "distinct k" "length k = 26" "set k = set KINGDOM"
    using mset_eq_imp_distinct_iff [OF assms] mset_eq_length [OF assms] mset_eq_setD [OF assms]
    by (simp_all add: KINGDOM_def)
  then show ?thesis using set_take_subset [of 10 k] by (auto simp: kingdom_ok_def)
qed

text \<open>A setup is refused for its mask, or deals ten kingdom piles and two starting decks.\<close>

lemma init_good:
  assumes "sh_init H g0 q m hid pv = Some st" "\<not> hid \<or> pv = None \<or> (\<forall>x y. g x = g y)"
  shows "table_good g (box_sum g (kingdom st)) st \<and> (sh_corrupt st \<or> kingdom_ok (kingdom st))"
proof (cases "m \<noteq> 0 \<and> maskToKingdom m = None")
  case True
  let ?b = "sh_blank g0 q hid pv"
  have "st = spoil ''invalid kingdom mask'' ?b" using assms(1) True by (simp add: sh_init_def Let_def)
  moreover have "good g (tally g ?b) ?b"
    using assms(2) by (simp add: good_def sane_def countable_def sh_blank_def)
  ultimately show ?thesis
    by (simp add: table_good_def good_spoil waiting_def) (simp add: spoil_def)
next
  case False
  let ?b = "sh_blank g0 q hid pv"
  let ?pick = "if m \<noteq> 0 then Some (the (maskToKingdom m), ?b)
                else do { (k, st') \<leftarrow> sh_shuffled H ?b KINGDOM None; Some (take 10 k, st') }"
  obtain pick st1 st3 st4 where p: "?pick = Some (pick, st1)"
    and d: "deal_start H 0 (st1\<lparr>kingdom := sort_key (\<lambda>a. (card_cost a, a)) pick,
              stock := start_supply (sort_key (\<lambda>a. (card_cost a, a)) pick)\<rparr>) = Some st3"
      "deal_start H 1 st3 = Some st4" and st: "st = st4\<lparr>sh_logs := []\<rparr>"
    using assms(1) False by (auto simp: sh_init_def Let_def split: bind_splits)
  let ?k = "sort_key (\<lambda>a. (card_cost a, a)) pick"
  let ?st2 = "st1\<lparr>kingdom := ?k, stock := start_supply ?k\<rparr>"
  have s1: "kingdom_ok pick \<and> (\<exists>n. st1 = ?b\<lparr>shufN := n\<rparr>)"
  proof (cases "m = 0")
    case True
    obtain k where k: "sh_shuffled H ?b KINGDOM None = Some (k, st1)" "pick = take 10 k"
      using p True by (auto split: bind_splits)
    from shuffled_sum [OF k(1)] take_kingdom_ok [of k] k(2) show ?thesis by blast
  next
    case False
    then have "pick = the (maskToKingdom m)" "st1 = ?b" using p by simp_all
    moreover have "maskToKingdom m = Some (the (maskToKingdom m))" using \<open>m \<noteq> 0\<close> \<open>\<not> (m \<noteq> 0 \<and> _)\<close> by simp
    ultimately show ?thesis using mask_kingdom_ok by (auto intro!: exI [of _ "shufN ?b"])
  qed
  then obtain n where n: "st1 = ?b\<lparr>shufN := n\<rparr>" by blast
  have ok: "kingdom_ok ?k" using s1 kingdom_ok_cong [of ?k pick] by simp
  have g2: "good g (box_sum g ?k - 2 * cards_sum g start_cards) ?st2"
    using assms(2)
    by (simp add: n good_def sane_def countable_def sh_blank_def tally_def zone_sum_def empty_zone_def pile_size_def box_sum_def)
  have "goodo g (box_sum g ?k - 2 * cards_sum g start_cards + cards_sum g start_cards) (deal_start H 0 ?st2)"
    by (rule good_deal_start [OF g2]) (simp_all add: n sh_blank_def empty_zone_def)
  then have g3: "good g (box_sum g ?k - 2 * cards_sum g start_cards + cards_sum g start_cards) st3"
    by (simp add: d(1))
  have "deck (ps st3 1) = []"
    using ps_deal_start [OF d(1), of 1] by (simp add: n sh_blank_def empty_zone_def)
  from good_deal_start [OF g3 _ this, of H] have "good g (box_sum g ?k) st4" by (simp add: d(2))
  moreover have "frames st4 = []" "kingdom st4 = ?k"
    using frames_deal_start [OF d(1)] frames_deal_start [OF d(2)] kingdom_deal_start [OF d(1)] kingdom_deal_start [OF d(2)]
    by (simp_all add: n sh_blank_def)
  ultimately show ?thesis
    unfolding st using ok by (simp add: table_good_def waiting_def)
qed

lemma replay_good:
  assumes "sh_replay H g0 q recs m hid pv = Final st" "sh_init H g0 q m hid pv = Some st0"
    "\<not> hid \<or> pv = None \<or> (\<forall>x y. g x = g y)"
  shows "table_good g (box_sum g (kingdom st0)) st"
proof -
  have "st = (sh_loop H 0 recs st0)\<lparr>sq := NoSeed\<rparr>"
    using assms(1,2) by (simp add: sh_replay_def Let_def split: if_splits)
  moreover have "table_good g (box_sum g (kingdom st0)) (sh_loop H 0 recs st0)"
    by (rule loop_good) (use init_good [OF assms(2,3)] in blast)
  ultimately show ?thesis by (simp add: table_good_def waiting_def)
qed

lemma loop_corrupt: "sh_corrupt st \<Longrightarrow> sh_loop H i recs st = st"
  by (cases recs) auto

lemma replay_clean:
  assumes "sh_replay H g0 q recs m hid pv = Final st" "sh_init H g0 q m hid pv = Some st0" "\<not> sh_corrupt st"
  shows "kingdom_ok (kingdom st0)"
proof -
  have "\<not> sh_corrupt st0"
    using assms loop_corrupt [of st0 H 0 recs] by (auto simp: sh_replay_def Let_def split: if_splits)
  then show ?thesis using init_good [OF assms(2), of "\<lambda>_. 0"] by simp
qed

section \<open>Masks\<close>

lemma mask_sum: "(\<Sum>b < n. if m div 2 ^ b mod 2 = 1 then 2 ^ b else 0) = m mod (2 :: nat) ^ n"
proof (induction n)
  case (Suc n)
  have "m mod 2 ^ Suc n = m mod (2 ^ n * 2)" by (simp add: mult.commute)
  also have "\<dots> = 2 ^ n * (m div 2 ^ n mod 2) + m mod 2 ^ n" by (rule mod_mult2_eq)
  finally have "m mod 2 ^ Suc n = m mod 2 ^ n + (if m div 2 ^ n mod 2 = 1 then 2 ^ n else 0)"
    by (cases "m div 2 ^ n mod 2 = 1") (auto simp: One_nat_def)
  then show ?case using Suc by simp
qed simp

lemma mask_of_kingdom: "maskToKingdom m = Some pick \<Longrightarrow> kingdomToMask pick = m"
proof -
  assume a: "maskToKingdom m = Some pick"
  let ?P = "\<lambda>b. m div 2 ^ b mod 2 = 1"
  have m: "m < 2 ^ 26" and p: "pick = map (\<lambda>b. 7 + b) (filter ?P [0..<26])"
    using a by (auto simp: maskToKingdom_def Let_def simp del: upt.simps split: if_splits)
  have "kingdomToMask pick = sum_list (map (\<lambda>b. 2 ^ b) (filter ?P [0..<26]))"
    by (simp add: kingdomToMask_def p comp_def del: upt.simps upt_rec_numeral)
  also have "\<dots> = sum_list (map (\<lambda>b. if ?P b then 2 ^ b else 0) [0..<26])"
    by (rule sum_list_map_filter')
  also have "\<dots> = (\<Sum>b < 26. if ?P b then 2 ^ b else 0)"
    by (simp add: interv_sum_list_conv_sum_set_nat atLeast0LessThan del: upt.simps upt_rec_numeral)
  finally show ?thesis using m by (simp only: mask_sum mod_less)
qed

lemma kingdom_mask_sum: "kingdom_ok ids \<Longrightarrow> kingdomToMask ids = (\<Sum>b < 26. of_bool (b + 7 \<in> set ids) * 2 ^ b)"
proof -
  assume a: "kingdom_ok ids"
  have r: "set ids = (\<lambda>b. b + 7) ` {b. b < 26 \<and> b + 7 \<in> set ids}"
  proof
    show "set ids \<subseteq> (\<lambda>b. b + 7) ` {b. b < 26 \<and> b + 7 \<in> set ids}"
    proof
      fix c assume c: "c \<in> set ids"
      then have "7 \<le> c" "c < 33" using a by (auto simp: kingdom_ok_def set_KINGDOM)
      then show "c \<in> (\<lambda>b. b + 7) ` {b. b < 26 \<and> b + 7 \<in> set ids}"
        using c by (intro image_eqI [of _ _ "c - 7"]) simp_all
    qed
  qed auto
  have "kingdomToMask ids = (\<Sum>c \<in> set ids. 2 ^ (c - 7))"
    using a by (simp add: kingdomToMask_def kingdom_ok_def sum_list_distinct_conv_sum_set)
  also have "\<dots> = (\<Sum>b \<in> {b. b < 26 \<and> b + 7 \<in> set ids}. 2 ^ b)"
  proof -
    have "(\<Sum>c \<in> (\<lambda>b. b + 7) ` {b. b < 26 \<and> b + 7 \<in> set ids}. 2 ^ (c - 7)) = (\<Sum>b \<in> {b. b < 26 \<and> b + 7 \<in> set ids}. 2 ^ b)"
      by (subst sum.reindex) (simp_all add: inj_on_def)
    then show ?thesis using r by simp
  qed
  also have "\<dots> = (\<Sum>b < 26. of_bool (b + 7 \<in> set ids) * 2 ^ b)"
    by (rule sum.mono_neutral_cong_left) auto
  finally show ?thesis .
qed

lemma kingdom_of_mask:
  assumes "kingdom_ok ids"
  shows "maskToKingdom (kingdomToMask ids) = Some (sort ids)"
proof -
  let ?bs = "map (\<lambda>b. b + 7 \<in> set ids) [0..<26]" and ?m = "kingdomToMask ids"
  have l: "length ?bs = 26" by (simp del: upt.simps upt_rec_numeral)
  have nth: "?bs ! b \<longleftrightarrow> b + 7 \<in> set ids" if "b < 26" for b using that by (simp del: upt.simps upt_rec_numeral)
  have h: "?m = horner_sum of_bool 2 ?bs"
    unfolding kingdom_mask_sum [OF assms] horner_sum_eq_sum l atLeast0LessThan
    by (rule sum.cong [OF refl]) (simp only: lessThan_iff nth)
  have bit: "bit ?m b \<longleftrightarrow> b < 26 \<and> b + 7 \<in> set ids" for b
    unfolding h bit_horner_sum_bit_iff l using nth by auto
  have dig: "?m div 2 ^ b mod 2 = 1 \<longleftrightarrow> b + 7 \<in> set ids" if "b < 26" for b
    using bit [of b] that by (simp add: bit_iff_odd odd_iff_mod_2_eq_one)
  let ?f = "filter (\<lambda>b. ?m div 2 ^ b mod 2 = 1) [0..<26]"
  have f: "?f = filter (\<lambda>b. b + 7 \<in> set ids) [0..<26]" by (rule filter_cong [OF refl]) (simp add: dig del: upt.simps upt_rec_numeral)
  have "set (map (\<lambda>b. 7 + b) ?f) = set ids"
  proof
    show "set (map (\<lambda>b. 7 + b) ?f) \<subseteq> set ids" unfolding f by (auto simp: add.commute simp del: upt.simps upt_rec_numeral)
    show "set ids \<subseteq> set (map (\<lambda>b. 7 + b) ?f)"
    proof
      fix c assume c: "c \<in> set ids"
      then have "7 \<le> c" "c < 33" using assms by (auto simp: kingdom_ok_def set_KINGDOM)
      then have "c = 7 + (c - 7)" "c - 7 \<in> set ?f" using c unfolding f by (simp_all del: upt.simps upt_rec_numeral)
      then show "c \<in> set (map (\<lambda>b. 7 + b) ?f)" by (metis imageI list.set_map)
    qed
  qed
  moreover have "sorted (map (\<lambda>b. 7 + b) ?f)" "distinct (map (\<lambda>b. 7 + b) ?f)"
    by (simp_all add: sorted_map distinct_map inj_on_def sorted_wrt_filter sorted_wrt_upt del: upt.simps upt_rec_numeral)
  ultimately have eq: "map (\<lambda>b. 7 + b) ?f = sort ids"
    using assms sorted_distinct_set_unique [of "map (\<lambda>b. 7 + b) ?f" "sort ids"] by (simp add: kingdom_ok_def del: upt.simps upt_rec_numeral)
  have "?m \<le> (\<Sum>b < 26. 2 ^ b)"
    unfolding kingdom_mask_sum [OF assms] by (rule sum_mono) simp
  also have "\<dots> < (2 :: nat) ^ 26" by (simp add: lessThan_atLeast0 sum_power2)
  finally have lt: "?m < 2 ^ 26" .
  have "ids \<noteq> []" using assms by (auto simp: kingdom_ok_def)
  then have "?m > 0" by (cases ids) (simp_all add: kingdomToMask_def)
  with lt eq assms show ?thesis
    by (simp add: maskToKingdom_def Let_def kingdom_ok_def del: upt.simps upt_rec_numeral)
qed

section \<open>A sample duel\<close>

text \<open>The kingdom of the ten lowest ids, a hash that is always 0, and one turn ended.\<close>

definition sample_storm :: "sh_rec list" where
  "sample_storm = [(sh_encMove 4 0, 1, OneSeed 0)]"

lemma sample_kingdom:
  "maskToKingdom 1023 = Some [7, 8, 9, 10, 11, 12, 13, 14, 15, 16]"
  "sort_key (\<lambda>a. (card_cost a, a)) [7, 8, 9, 10, 11, 12, 13, 14, 15, 16] = [7, 8, 9, 10, 11, 12, 13, 14, 15, 16]"
  by (simp add: maskToKingdom_def upt_rec) code_simp

lemma sample_shuffle:
  "sh_shuffled (\<lambda>_. 0) st start_cards p =
     (case seed_for st p of None \<Rightarrow> None
      | Some q \<Rightarrow> Some ([COPPER, COPPER, COPPER, COPPER, COPPER, COPPER, HOMESTEAD, HOMESTEAD, HOMESTEAD, COPPER],
                      st\<lparr>shufN := shufN st + 1\<rparr>))"
proof -
  have "fisher_yates (\<lambda>_. 0) start_cards =
    [COPPER, COPPER, COPPER, COPPER, COPPER, COPPER, HOMESTEAD, HOMESTEAD, HOMESTEAD, COPPER]"
    by code_simp
  then show ?thesis by (simp add: sh_shuffled_def Let_def split: option.split)
qed

lemma draw_five: "draw_loop H p 5 got st = draw_loop H p (Suc (Suc (Suc (Suc (Suc 0))))) got st"
  by (simp add: numeral_eq_Suc)

lemmas storm_run = sh_init_def Let_def sample_kingdom deal_start_def sample_shuffle seed_for_def sh_blank_def
  draw_def draw_five takeTop_def known_def empty_zone_def set_zone_def sh_note_def

lemma init_kingdom:
  "sh_init H g q m hid pv = Some st \<Longrightarrow> m \<noteq> 0 \<Longrightarrow> maskToKingdom m = Some pick \<Longrightarrow>
     kingdom st = sort_key (\<lambda>a. (card_cost a, a)) pick"
  by (auto simp: sh_init_def Let_def dest!: kingdom_deal_start split: bind_splits)

lemma sample_setup:
  "\<exists>st0. sh_init (\<lambda>_. 0) 0 (OneSeed 0) 1023 False None = Some st0 \<and> kingdom st0 = [7, 8, 9, 10, 11, 12, 13, 14, 15, 16]"
proof -
  obtain st0 where i: "sh_init (\<lambda>_. 0) 0 (OneSeed 0) 1023 False None = Some st0"
    using init_seeded [of 1023 "\<lambda>_. 0" 0 0 None] sample_kingdom(1) by auto
  have "kingdom st0 = sort_key (\<lambda>a. (card_cost a, a)) [7, 8, 9, 10, 11, 12, 13, 14, 15, 16]"
    by (rule init_kingdom [OF i _ sample_kingdom(1)]) (rule zero_neq_numeral [symmetric])
  then show ?thesis using i unfolding sample_kingdom(2) by blast
qed

lemma sample_storm_replay:
  "\<exists>st. sh_replay (\<lambda>_. 0) 0 (OneSeed 0) sample_storm 1023 False None = Final st \<and> \<not> sh_corrupt st"
  by (simp add: storm_run sample_storm_def sh_replay_def sh_apply_def sh_decMove_def sh_encMove_def legalActor_def
      do_end_def start_supply_def emptyPiles_def piles_def sh_ids drainAuto_def
      del: sort_key_simps)

lemma sample_duel:
  "\<exists>st st0. sh_replay (\<lambda>_. 0) 0 (OneSeed 0) sample_storm 1023 False None = Final st \<and>
     sh_init (\<lambda>_. 0) 0 (OneSeed 0) 1023 False None = Some st0 \<and> \<not> sh_corrupt st \<and>
     kingdom st0 = [7, 8, 9, 10, 11, 12, 13, 14, 15, 16]"
  using sample_setup sample_storm_replay by blast

section \<open>Properties\<close>

text \<open>C19: The box of cards is closed. After every replay that is not corrupt the decks, hands, discard
  piles, cards in play, trash, cards held by pending decisions and supply piles together hold as
  many cards as the box: 170 basic cards and the ten kingdom piles. Where the browser knows every
  card (open games, and the final check of a hidden one) this holds for each card id by itself.\<close>

theorem storm_cards_conserved:
  assumes "sh_replay H g0 q recs m hid pv = Final st" "sh_init H g0 q m hid pv = Some st0" "\<not> sh_corrupt st"
  shows "length (cards_out st) + (\<Sum>c < 34. in_pile st c) = 170 + sum_list (map pile_start (kingdom st0)) \<and>
         (\<not> hid \<or> pv = None \<longrightarrow>
           (\<forall>c < 34. count_list (cards_out st) c + in_pile st c = copies (kingdom st0) c))"
proof -
  note k = replay_clean [OF assms]
  have tot: "tally (\<lambda>_. 1) st = box_sum (\<lambda>_. 1) (kingdom st0)"
    using replay_good [OF assms(1,2), of "\<lambda>_. 1"] assms(3) by (simp add: table_good_def good_def)
  have "tally (one_id c) st = box_sum (one_id c) (kingdom st0)" if "\<not> hid \<or> pv = None" for c
    using replay_good [OF assms(1,2), of "one_id c"] assms(3) that by (auto simp: table_good_def good_def)
  then have "int (count_list (cards_out st) c + in_pile st c) = int (copies (kingdom st0) c)" if "\<not> hid \<or> pv = None" "c < 34" for c
    using that unfolding tally_const tally_one_id box_const [OF k] box_one_id [OF k] of_nat_add by metis+
  moreover have "int (length (cards_out st) + (\<Sum>c < 34. in_pile st c)) = int (170 + sum_list (map pile_start (kingdom st0)))"
    using tot unfolding tally_const box_const [OF k] .
  ultimately show ?thesis unfolding of_nat_eq_iff by blast
qed

theorem storm_cards_conserved_witness:
  "\<exists>st. sh_replay (\<lambda>_. 0) 0 (OneSeed 0) sample_storm 1023 False None = Final st \<and>
     count_list (cards_out st) COPPER + in_pile st COPPER = 60"
proof -
  obtain st st0 where s: "sh_replay (\<lambda>_. 0) 0 (OneSeed 0) sample_storm 1023 False None = Final st"
    "sh_init (\<lambda>_. 0) 0 (OneSeed 0) 1023 False None = Some st0" "\<not> sh_corrupt st"
    "kingdom st0 = [7, 8, 9, 10, 11, 12, 13, 14, 15, 16]"
    using sample_duel by blast
  have "count_list (cards_out st) COPPER + in_pile st COPPER = copies (kingdom st0) COPPER"
    using storm_cards_conserved [OF s(1-3)] by (simp add: sh_ids)
  also have "\<dots> = 60" by (simp add: s(4) copies_def sh_ids)
  finally show ?thesis using s(1) by blast
qed

text \<open>C20: No face-down or foreign card where everything is known. In an open game, and in the final
  check of a hidden one, every card a player, the trash or a pending decision holds is an entry of
  the card table that belongs to this game: a basic card or one of its ten kingdom cards.\<close>

theorem storm_known_ids:
  assumes "sh_replay H g0 q recs m hid pv = Final st" "sh_init H g0 q m hid pv = Some st0" "\<not> sh_corrupt st"
    and "\<not> hid \<or> pv = None"
  shows "\<forall>c \<in> set (cards_out st). card_exists c \<and> c \<noteq> UNKNOWN \<and> c \<in> set (piles st0)"
proof
  fix c assume c: "c \<in> set (cards_out st)"
  note k = replay_clean [OF assms(1-3)]
  have "tally (one_id c) st = int (copies (kingdom st0) c)"
    using replay_good [OF assms(1,2), of "one_id c"] assms(3,4) box_one_id [OF k] by (auto simp: table_good_def good_def)
  moreover have "count_list (cards_out st) c \<noteq> 0" using c by (simp add: count_list_0_iff)
  ultimately have p: "copies (kingdom st0) c \<noteq> 0" by (auto simp: tally_one_id split: if_splits)
  then have "c \<in> set (kingdom st0) \<or> c \<in> {COPPER, SILVER, GOLD, HOMESTEAD, VALLEY, CITADEL, BLIGHT}"
    by (auto simp: copies_def split: if_splits)
  moreover have "7 \<le> x \<and> x < 33" if "x \<in> set (kingdom st0)" for x
    using k that by (auto simp: kingdom_ok_def set_KINGDOM)
  ultimately show "card_exists c \<and> c \<noteq> UNKNOWN \<and> c \<in> set (piles st0)"
    by (force simp: exists_lt piles_def sh_ids)
qed

theorem storm_known_ids_witness:
  "\<exists>st st0. sh_replay (\<lambda>_. 0) 0 (OneSeed 0) sample_storm 1023 False None = Final st \<and>
     sh_init (\<lambda>_. 0) 0 (OneSeed 0) 1023 False None = Some st0 \<and>
     (\<forall>c \<in> set (cards_out st). card_exists c \<and> c \<noteq> UNKNOWN \<and> c \<in> set (piles st0))"
proof -
  obtain st st0 where s: "sh_replay (\<lambda>_. 0) 0 (OneSeed 0) sample_storm 1023 False None = Final st"
    "sh_init (\<lambda>_. 0) 0 (OneSeed 0) 1023 False None = Some st0" "\<not> sh_corrupt st"
    using sample_duel by blast
  then show ?thesis using storm_known_ids [OF s] by blast
qed

text \<open>The game always waits for a player. After every replay that is not corrupt the next move
  belongs to one of the two players, every pending decision too, and the decision on top of the
  stack is one a player answers: the second play of Echo, which fires by itself, is never left there.\<close>

theorem storm_waits_for_player:
  assumes "sh_replay H g0 q recs m hid pv = Final st" "\<not> sh_corrupt st"
  shows "legalActor st \<le> 1 \<and> (\<forall>f \<in> set (frames st). frame_actor f \<le> 1) \<and>
         (frames st = [] \<or> \<not> is_tr2 (last (frames st)))"
proof -
  obtain st0 where i: "sh_init H g0 q m hid pv = Some st0"
    using assms(1) by (auto simp: sh_replay_def split: option.splits)
  have g: "table_good (\<lambda>_. 0) (box_sum (\<lambda>_. 0) (kingdom st0)) st"
    by (rule replay_good [OF assms(1) i]) simp
  then have "\<not> threw st" using assms(1) by (auto simp: sh_replay_def Let_def split: option.splits if_splits)
  with g assms(2) show ?thesis
    using actor_le [of "\<lambda>_. 0" "box_sum (\<lambda>_. 0) (kingdom st0)" st] frame_actor_le
    by (auto simp: table_good_def waiting_def good_def sane_def)
qed

theorem storm_waits_for_player_witness:
  "\<exists>st. sh_replay (\<lambda>_. 0) 0 (OneSeed 0) sample_storm 1023 False None = Final st \<and> legalActor st \<le> 1"
proof -
  obtain st where s: "sh_replay (\<lambda>_. 0) 0 (OneSeed 0) sample_storm 1023 False None = Final st" "\<not> sh_corrupt st"
    using sample_duel by blast
  then show ?thesis using storm_waits_for_player [OF s] by blast
qed

text \<open>C21: An open game never stalls. When every record carries its final seed and the kingdom mask is
  valid, the setup succeeds and the replay consumes the log until the game is corrupt or the log
  ends; it is not blocked on any record, whatever moves it holds.\<close>

theorem storm_open_game_advances:
  assumes "m = 0 \<or> maskToKingdom m \<noteq> None" "\<forall>r \<in> set recs. \<exists>q. snd (snd r) = OneSeed q"
  shows "\<exists>st0. sh_init H g0 (OneSeed q0) m False pv = Some st0 \<and> \<not> sh_corrupt st0 \<and>
           (\<forall>xs e side q ys. recs = xs @ (e, side, OneSeed q) # ys \<longrightarrow>
              sh_stopped (sh_loop H 0 xs st0) \<or>
              sh_apply H side e ((sh_loop H 0 xs st0)\<lparr>sq := OneSeed q\<rparr>) \<noteq> None)"
proof -
  obtain st0 where s: "sh_init H g0 (OneSeed q0) m False pv = Some st0" "seeded st0" "\<not> sh_corrupt st0"
    using init_seeded [OF assms(1), of H g0 q0 pv] by blast
  have "sh_apply H side e ((sh_loop H 0 xs st0)\<lparr>sq := OneSeed q\<rparr>) \<noteq> None"
    if r: "recs = xs @ (e, side, OneSeed q) # ys" for xs e side q ys
  proof -
    have "\<forall>r \<in> set xs. \<exists>q. snd (snd r) = OneSeed q" using assms(2) r by simp
    from sh_blocked_none [OF s(2) this, of H 0] have "seeded (sh_loop H 0 xs st0)" by (auto simp: sh_loop_run)
    then have "seeded ((sh_loop H 0 xs st0)\<lparr>sq := OneSeed q\<rparr>)" by (simp add: seeded_def)
    from live_apply [OF this, of H side e] show ?thesis by (auto simp: live_def)
  qed
  with s show ?thesis by blast
qed

theorem storm_open_game_advances_witness:
  "\<exists>st0. sh_init (\<lambda>_. 0) 0 (OneSeed 0) 1023 False None = Some st0 \<and>
     (sh_stopped st0 \<or> sh_apply (\<lambda>_. 0) 1 (sh_encMove 4 0) (st0\<lparr>sq := OneSeed 0\<rparr>) \<noteq> None)"
proof -
  have e: "sample_storm = [] @ (sh_encMove 4 0, 1, OneSeed 0) # []" by (simp add: sample_storm_def)
  have q: "\<forall>r \<in> set sample_storm. \<exists>q. snd (snd r) = OneSeed q" by (simp add: sample_storm_def)
  obtain st0 where i: "sh_init (\<lambda>_. 0) 0 (OneSeed 0) 1023 False None = Some st0"
    and n: "\<forall>xs e side q ys. sample_storm = xs @ (e, side, OneSeed q) # ys \<longrightarrow>
      sh_stopped (sh_loop (\<lambda>_. 0) 0 xs st0) \<or>
      sh_apply (\<lambda>_. 0) side e ((sh_loop (\<lambda>_. 0) 0 xs st0)\<lparr>sq := OneSeed q\<rparr>) \<noteq> None"
    using storm_open_game_advances [OF _ q, of 1023 "\<lambda>_. 0" 0 0 None] sample_kingdom(1) by blast
  from n e have "sh_stopped (sh_loop (\<lambda>_. 0) 0 [] st0) \<or>
      sh_apply (\<lambda>_. 0) 1 (sh_encMove 4 0) ((sh_loop (\<lambda>_. 0) 0 [] st0)\<lparr>sq := OneSeed 0\<rparr>) \<noteq> None" by blast
  then show ?thesis using i by auto
qed

text \<open>Kingdom masks are faithful. A mask that decodes to ten kingdom cards is the mask of those
  cards, and the mask of any ten distinct kingdom cards decodes to them, in ascending order.\<close>

theorem storm_mask_roundtrip:
  "(\<forall>pick. maskToKingdom m = Some pick \<longrightarrow> kingdomToMask pick = m) \<and>
   (distinct ids \<and> length ids = 10 \<and> set ids \<subseteq> set KINGDOM \<longrightarrow>
      maskToKingdom (kingdomToMask ids) = Some (sort ids))"
  using mask_of_kingdom kingdom_of_mask [of ids] by (auto simp: kingdom_ok_def)

theorem storm_mask_roundtrip_witness: "kingdomToMask [7, 8, 9, 10, 11, 12, 13, 14, 15, 16] = 1023"
  using storm_mask_roundtrip [of 1023 "[]"] sample_kingdom(1) by blast

text \<open>C22: The claim of Reforge is not checked. For an observer of a hidden game, the claimed id that
  Refinery's trash rejects (an id outside the card table) makes Reforge's trash abort the replay:
  the cost of a card that does not exist is read, an exception no caller catches.\<close>

theorem storm_reforge_claim_throws:
  assumes "hidden st" "\<not> known st p" "\<not> sh_corrupt st" "\<not> sh_over st" "\<not> threw st"
    and "frames st \<noteq> []" "hand (ps st p) \<noteq> []" "hand (ps st p) ! 0 = UNKNOWN" "34 \<le> c" "c < 64"
  shows "(last (frames st) = RemT p \<longrightarrow>
           (\<exists>st'. sh_apply H (p + 1) (sh_encMove 5 (encClaim 0 c)) st = Some st' \<and> threw st')) \<and>
         (last (frames st) = MinT p \<longrightarrow>
           (\<exists>st'. sh_apply H (p + 1) (sh_encMove 5 (encClaim 0 c)) st = Some st' \<and> sh_corrupt st' \<and> \<not> threw st'))"
proof -
  have d: "sh_decMove (sh_encMove 5 (encClaim 0 c)) = (5, c * 32)"
    unfolding sh_decMove_def sh_encMove_def encClaim_def prod.inject by presburger
  have cl: "clX (c * 32) = 0" "clC (c * 32) = c" "\<not> card_exists c" "c * 32 \<noteq> SKIP"
    using assms(9,10) by (simp_all add: clX_def clC_def exists_lt SKIP_def)
  have h: "0 < length (hand (ps st p))" using assms(7) by simp
  let ?st = "st\<lparr>frames := butlast (frames st)\<rparr>"
  have k: "known ?st p = known st p" by (simp add: known_def)
  have rem: "threw (fr_remT p (c * 32) ?st)"
    using assms(1,2,8) h cl
    by (simp add: fr_remT_def Let_def cl materialize_def k lift_hand_def put_trash_def split: prod.split)
  have min: "sh_corrupt (fr_minT p (c * 32) ?st)" "frames (fr_minT p (c * 32) ?st) = butlast (frames st)"
    "threw (fr_minT p (c * 32) ?st) = threw st"
    using assms(1) h cl by (simp_all add: fr_minT_def Let_def cl spoil_def)
  have drain: "drainAuto H (fr_minT p (c * 32) ?st) = Some (fr_minT p (c * 32) ?st)"
    unfolding drainAuto_def using min(1) by (cases "length (filter is_tr2 (frames (fr_minT p (c * 32) ?st)))") simp_all
  show ?thesis
    using assms(3-6) rem min drain
    by (auto simp: sh_apply_def d legalActor_def resolveFrame_def Let_def)
qed

definition sample_watch :: sh where
  "sample_watch = (sh_blank 0 NoSeed True (Some 1))
     \<lparr>ps := (\<lambda>_. empty_zone\<lparr>hand := [UNKNOWN]\<rparr>), frames := [RemT 0]\<rparr>"

theorem storm_reforge_claim_throws_witness:
  "\<exists>st'. sh_apply (\<lambda>_. 0) 1 (sh_encMove 5 (encClaim 0 40)) sample_watch = Some st' \<and> threw st'"
  using storm_reforge_claim_throws [of sample_watch 0 40 "\<lambda>_. 0"]
  by (simp add: sample_watch_def sh_blank_def known_def)

end
