(* ===== verification/ScrapDraft.thy ===== *)
theory ScrapDraft
  imports Provable
begin

text \<open>
  Scrapline (\<^verbatim>\<open>static/scrapline-engine.js\<close>): the item table, the move codec, the offers
  and the draft. Keys, names and texts of the items are display data and left out; a numeric field
  the table does not give is 0. The blake2b hash of a number is the parameter \<open>H\<close>. The sides of
  records are 1 and 2, as the contract guarantees.
\<close>

declare One_nat_def [simp del]

section \<open>Items\<close>

datatype sc_kind = Strike | Guard | Repair | Passive

record sc_item =
  i_tier :: nat
  i_tag :: nat
  i_cd :: nat
  i_kind :: sc_kind
  i_base :: nat
  i_add :: nat
  i_burn :: nat
  i_burna :: nat
  i_spc :: nat
  i_sh :: nat
  i_sha :: nat
  i_ref :: nat
  i_refa :: nat
  i_ram :: nat
  i_ctag :: "nat option"
  i_chp :: bool
  i_ccd :: bool
  i_call :: bool
  i_cburn :: bool

definition item_row :: "nat \<Rightarrow> nat \<Rightarrow> nat \<Rightarrow> sc_kind \<Rightarrow> nat \<Rightarrow> nat \<Rightarrow> sc_item" where
  "item_row tier tg cd k b a =
     \<lparr>i_tier = tier, i_tag = tg, i_cd = cd, i_kind = k, i_base = b, i_add = a, i_burn = 0, i_burna = 0, i_spc = 0,
      i_sh = 0, i_sha = 0, i_ref = 0, i_refa = 0, i_ram = 0, i_ctag = None, i_chp = False, i_ccd = False,
      i_call = False, i_cburn = False\<rparr>"

definition ITEMS :: "sc_item list" where
  "ITEMS =
  [item_row 1 0 20 Strike 20 12,
   item_row 1 1 25 Strike 26 14,
   (item_row 1 3 30 Strike 10 6)\<lparr>i_burn := 2, i_burna := 2\<rparr>,
   item_row 1 4 30 Guard 26 14,
   item_row 1 5 45 Repair 34 18,
   (item_row 1 6 0 Passive 12 12)\<lparr>i_ctag := Some 0\<rparr>,
   (item_row 1 6 0 Passive 12 12)\<lparr>i_ctag := Some 1\<rparr>,
   (item_row 1 6 0 Passive 60 45)\<lparr>i_chp := True\<rparr>,
   item_row 2 0 35 Strike 44 22,
   item_row 2 1 45 Strike 56 26,
   item_row 2 2 40 Strike 36 18,
   (item_row 2 3 50 Strike 0 0)\<lparr>i_burn := 5, i_burna := 5\<rparr>,
   item_row 2 4 55 Guard 56 30,
   item_row 2 5 70 Repair 66 30,
   (item_row 2 1 30 Strike 16 8)\<lparr>i_spc := 1\<rparr>,
   (item_row 2 2 55 Strike 20 10)\<lparr>i_spc := 5, i_sh := 24, i_sha := 12\<rparr>,
   (item_row 2 6 0 Passive 14 14)\<lparr>i_ctag := Some 4\<rparr>,
   (item_row 2 6 0 Passive 14 12)\<lparr>i_ctag := Some 2\<rparr>,
   (item_row 2 6 0 Passive 3 3)\<lparr>i_cburn := True\<rparr>,
   item_row 2 0 50 Strike 72 34,
   (item_row 3 1 90 Strike 140 60)\<lparr>i_spc := 2\<rparr>,
   (item_row 3 0 80 Strike 120 55)\<lparr>i_spc := 3\<rparr>,
   item_row 3 2 60 Strike 66 30,
   (item_row 3 3 70 Strike 36 16)\<lparr>i_burn := 4, i_burna := 5\<rparr>,
   (item_row 3 4 70 Guard 50 24)\<lparr>i_spc := 4, i_ref := 8, i_refa := 7\<rparr>,
   (item_row 3 5 60 Repair 36 16)\<lparr>i_spc := 5, i_sh := 12, i_sha := 6\<rparr>,
   (item_row 3 6 0 Passive 10 6)\<lparr>i_ccd := True\<rparr>,
   (item_row 3 6 0 Passive 5 5)\<lparr>i_call := True\<rparr>,
   (item_row 2 0 40 Strike 30 16)\<lparr>i_spc := 1\<rparr>,
   item_row 3 0 85 Strike 150 70,
   item_row 2 1 45 Strike 52 26,
   (item_row 3 1 70 Strike 84 40)\<lparr>i_spc := 2\<rparr>,
   item_row 2 2 50 Strike 40 20,
   (item_row 3 2 65 Strike 58 28)\<lparr>i_spc := 2\<rparr>,
   (item_row 2 3 55 Strike 14 8)\<lparr>i_spc := 6\<rparr>,
   (item_row 3 3 60 Strike 34 18)\<lparr>i_burn := 4, i_burna := 4, i_spc := 6\<rparr>,
   (item_row 2 4 50 Strike 12 8)\<lparr>i_spc := 7, i_ram := 45\<rparr>,
   (item_row 3 4 75 Guard 74 36)\<lparr>i_spc := 7, i_ram := 35\<rparr>,
   (item_row 2 5 60 Repair 50 24)\<lparr>i_spc := 8\<rparr>,
   (item_row 3 5 70 Repair 72 34)\<lparr>i_spc := 8\<rparr>,
   (item_row 3 6 0 Passive 14 12)\<lparr>i_ctag := Some 3\<rparr>]"

definition SC_ROUNDS :: nat where "SC_ROUNDS = 9"
definition SC_SLOTS :: nat where "SC_SLOTS = 6"
definition BASE_HP :: nat where "BASE_HP = 350"
definition SHIELD_CAP :: nat where "SHIELD_CAP = 250"
definition MAXRANK :: nat where "MAXRANK = 9"

definition offerRank :: "nat \<Rightarrow> nat" where
  "offerRank era = min MAXRANK (1 + (era - 1) div 4)"

definition sc_encMove :: "nat \<Rightarrow> nat \<Rightarrow> nat" where "sc_encMove opc payload = opc + payload * 16"
definition sc_decMove :: "nat \<Rightarrow> nat \<times> nat" where "sc_decMove e = (e mod 16, e div 16)"

definition itemVal :: "sc_item \<Rightarrow> nat \<Rightarrow> nat" where
  "itemVal it rank = i_base it + i_add it * (rank - 1)"

section \<open>State of the draft\<close>

text \<open>A fitted piece of gear is an item id with its rank; an empty slot is \<open>None\<close>.\<close>

type_synonym sc_gear = "(nat \<times> nat) option list"

record sc_player =
  gear :: sc_gear
  sc_round :: nat
  maxhp :: nat
  pendq :: "nat option"

record sc_event =
  ev_t :: nat
  ev_p :: nat
  ev_e :: string
  ev_x :: "nat option"
  ev_n :: nat

record sc_combat =
  c_result :: nat
  c_hp :: "nat \<times> nat"
  c_maxhp :: "nat \<times> nat"
  c_ev :: "sc_event list"

record sc_log =
  sl_p :: "nat option"
  sl_ev :: string
  sl_x :: "nat option"
  sl_n :: "nat option"

record sc =
  sc_g :: nat
  sc_ps :: "nat \<Rightarrow> sc_player"
  sc_over :: bool
  sc_result :: nat
  sc_corrupt :: bool
  sc_why :: string
  sc_logs :: "sc_log list"
  sc_mi :: nat
  sc_blocked :: bool
  sc_blockedAt :: int
  sc_combat :: "sc_combat option"
  sc_q :: "nat option"

definition sc_note :: "nat option \<Rightarrow> string \<Rightarrow> nat option \<Rightarrow> nat option \<Rightarrow> sc \<Rightarrow> sc" where
  "sc_note p ev x n st =
     (let l = sc_logs st @ [\<lparr>sl_p = p, sl_ev = ev, sl_x = x, sl_n = n\<rparr>]
      in st\<lparr>sc_logs := (if length l > 300 then tl l else l)\<rparr>)"

definition sc_spoil :: "string \<Rightarrow> sc \<Rightarrow> sc" where
  "sc_spoil w st = st\<lparr>sc_corrupt := True, sc_why := w\<rparr>"

definition set_scp :: "nat \<Rightarrow> sc_player \<Rightarrow> sc \<Rightarrow> sc" where
  "set_scp p z st = st\<lparr>sc_ps := (sc_ps st)(p := z)\<rparr>"

section \<open>Offers\<close>

definition tiersFor :: "nat \<Rightarrow> nat list" where
  "tiersFor r = (if r \<le> 3 then [1] else if r \<le> 6 then [1, 2] else [2, 3])"

definition tier_pool :: "nat list \<Rightarrow> nat list" where
  "tier_pool ok = filter (\<lambda>i. i_tier (ITEMS ! i) \<in> set ok) [0..<length ITEMS]"

definition deriveOffer :: "(nat \<Rightarrow> nat) \<Rightarrow> nat \<Rightarrow> nat \<Rightarrow> nat \<Rightarrow> nat option \<Rightarrow> nat list option" where
  "deriveOffer H g p r q =
     (case q of
        None \<Rightarrow> None
      | Some s \<Rightarrow>
          (let pool = tier_pool (tiersFor r); salt = g * 16777216 + p * 1048576 + r * 4096
           in Some (map (\<lambda>i. pool ! (H (s + salt + i) mod length pool)) [0, 1, 2])))"

definition offerFor :: "(nat \<Rightarrow> nat) \<Rightarrow> sc \<Rightarrow> nat \<Rightarrow> nat list option" where
  "offerFor H st p =
     (if sc_round (sc_ps st p) \<ge> SC_ROUNDS then None
      else deriveOffer H (sc_g st) p (sc_round (sc_ps st p) + 1) (pendq (sc_ps st p)))"

definition sc_init :: "nat \<Rightarrow> nat option \<Rightarrow> sc" where
  "sc_init g khQ =
     \<lparr>sc_g = g, sc_ps = (\<lambda>_. \<lparr>gear = replicate SC_SLOTS None, sc_round = 0, maxhp = BASE_HP, pendq = khQ\<rparr>),
      sc_over = False, sc_result = 0, sc_corrupt = False, sc_why = [], sc_logs = [], sc_mi = 0, sc_blocked = False,
      sc_blockedAt = -1, sc_combat = None, sc_q = None\<rparr>"

section \<open>A pick\<close>

text \<open>
  What a pick of item \<open>x\<close> at rank \<open>r\<close> does to a slot: merge with the same item below the rank cap,
  scrap what is fitted for hull, or fill the empty slot.
\<close>

definition fit_slot :: "nat \<Rightarrow> nat \<Rightarrow> nat \<Rightarrow> sc_gear \<Rightarrow> nat \<Rightarrow> sc_gear \<times> nat" where
  "fit_slot x r slot gr hp =
     (case gr ! slot of
        Some (i, k) \<Rightarrow>
          if i = x \<and> k < MAXRANK then (gr[slot := Some (i, min MAXRANK (k + r))], hp)
          else (gr[slot := Some (x, r)], hp + 15 + 10 * (k - 1))
      | None \<Rightarrow> (gr[slot := Some (x, r)], hp))"

definition sc_pick :: "nat \<Rightarrow> nat list \<Rightarrow> nat \<Rightarrow> nat \<Rightarrow> sc \<Rightarrow> sc" where
  "sc_pick p offer choice slot st =
     (let z = sc_ps st p; x = offer ! choice; r = offerRank (sc_round z + 1); f = fit_slot x r slot (gear z) (maxhp z);
          st1 = set_scp p (z\<lparr>gear := fst f, maxhp := snd f\<rparr>) st
      in case gear z ! slot of
           Some (i, k) \<Rightarrow>
             if i = x \<and> k < MAXRANK then sc_note (Some p) ''merge'' (Some x) (Some (min MAXRANK (k + r))) st1
             else sc_note (Some p) ''pick'' (Some x) (Some slot) (sc_note (Some p) ''scrap'' (Some i) (Some k) st1)
         | None \<Rightarrow> sc_note (Some p) ''pick'' (Some x) (Some slot) st1)"

definition skip_hp :: "nat \<Rightarrow> nat" where
  "skip_hp era = min 50 (8 + 4 * era)"

end
