(* ===== verification/ScrapFight.thy ===== *)
theory ScrapFight
  imports ScrapDraft
begin

text \<open>
  The combat of Scrapline (\<^verbatim>\<open>buildFighterFrom\<close> and \<^verbatim>\<open>simulateBuilds\<close>). Hull points may fall
  below zero and are integers, everything else is a natural number. \<^verbatim>\<open>Math.round(x / 100)\<close> on
  non-negative integers is \<open>(x + 50) div 100\<close>; the timeout compares the ratios of hull points
  exactly, by cross-multiplication (the code's doubles are exact enough to agree for hulls
  below a million).
\<close>

declare One_nat_def [simp del]

section \<open>Fighters\<close>

record sc_weapon =
  w_id :: nat
  w_rank :: nat
  w_slot :: nat
  w_cd :: nat
  w_kind :: sc_kind
  w_v :: nat
  w_burn :: nat
  w_sh :: nat
  w_ref :: nat
  w_spc :: nat
  w_ram :: nat
  w_tag :: nat

record sc_fighter =
  f_maxhp :: nat
  f_hp :: int
  f_shield :: nat
  f_burn :: nat
  f_items :: "sc_weapon list"
  f_reflect :: nat

text \<open>The buffs of the fitted cores: hull, cooldown cut, all weapons, burn, and one bonus per tag.\<close>

record sc_buffs =
  b_hp :: nat
  b_cd :: nat
  b_all :: nat
  b_burn :: nat
  b_tag :: "nat list"

definition add_core :: "(nat \<times> nat) option \<Rightarrow> sc_buffs \<Rightarrow> sc_buffs" where
  "add_core gi b =
     (case gi of
        None \<Rightarrow> b
      | Some (x, r) \<Rightarrow>
          (let it = ITEMS ! x; v = itemVal it r
           in if i_kind it \<noteq> Passive then b
              else if i_chp it then b\<lparr>b_hp := b_hp b + v\<rparr>
              else if i_ccd it then b\<lparr>b_cd := b_cd b + v\<rparr>
              else if i_call it then b\<lparr>b_all := b_all b + v\<rparr>
              else if i_cburn it then b\<lparr>b_burn := b_burn b + v\<rparr>
              else case i_ctag it of None \<Rightarrow> b | Some tg \<Rightarrow> b\<lparr>b_tag := (b_tag b)[tg := b_tag b ! tg + v]\<rparr>))"

definition core_buffs :: "sc_gear \<Rightarrow> nat \<Rightarrow> sc_buffs" where
  "core_buffs gr hp = fold add_core gr \<lparr>b_hp = hp, b_cd = 0, b_all = 0, b_burn = 0, b_tag = replicate 7 0\<rparr>"

definition scaled :: "nat \<Rightarrow> nat \<Rightarrow> nat \<Rightarrow> nat" where
  "scaled base add rank = (if base = 0 then 0 else base + add * (rank - 1))"

definition weapon_of :: "sc_buffs \<Rightarrow> nat \<Rightarrow> (nat \<times> nat) option \<Rightarrow> sc_weapon list" where
  "weapon_of b slot gi =
     (case gi of
        None \<Rightarrow> []
      | Some (x, r) \<Rightarrow>
          (let it = ITEMS ! x
           in if i_kind it = Passive then []
              else [\<lparr>w_id = x, w_rank = r, w_slot = slot,
                     w_cd = max 10 ((i_cd it * (100 - min 40 (b_cd b)) + 50) div 100), w_kind = i_kind it,
                     w_v = itemVal it r + b_tag b ! i_tag it + (if i_kind it = Strike then b_all b else 0),
                     w_burn = (if i_burn it = 0 then 0 else i_burn it + i_burna it * (r - 1) + b_burn b),
                     w_sh = scaled (i_sh it) (i_sha it) r, w_ref = scaled (i_ref it) (i_refa it) r,
                     w_spc = i_spc it, w_ram = i_ram it, w_tag = i_tag it\<rparr>]))"

definition weapons :: "sc_gear \<Rightarrow> nat \<Rightarrow> sc_weapon list" where
  "weapons gr hp = concat (map (\<lambda>(slot, gi). weapon_of (core_buffs gr hp) slot gi) (zip [0..<length gr] gr))"

definition buildFighterFrom :: "sc_gear \<Rightarrow> nat \<Rightarrow> sc_fighter" where
  "buildFighterFrom gr hp =
     (let m = b_hp (core_buffs gr hp); ws = weapons gr hp
      in \<lparr>f_maxhp = m, f_hp = int m, f_shield = 0, f_burn = 0, f_items = ws,
          f_reflect = sum_list (map (\<lambda>w. if w_spc w = 4 then w_ref w else 0) ws)\<rparr>)"

section \<open>Events and hits\<close>

text \<open>The state of a fight: the two fighters and at most 900 events.\<close>

record sc_sim =
  fs :: "nat \<Rightarrow> sc_fighter"
  evs :: "sc_event list"

definition emit :: "nat \<Rightarrow> nat \<Rightarrow> string \<Rightarrow> nat option \<Rightarrow> nat \<Rightarrow> sc_sim \<Rightarrow> sc_sim" where
  "emit t p e x n s =
     (if length (evs s) < 900 then s\<lparr>evs := evs s @ [\<lparr>ev_t = t, ev_p = p, ev_e = e, ev_x = x, ev_n = n\<rparr>]\<rparr> else s)"

definition set_f :: "nat \<Rightarrow> sc_fighter \<Rightarrow> sc_sim \<Rightarrow> sc_sim" where
  "set_f p f s = s\<lparr>fs := (fs s)(p := f)\<rparr>"

definition shield_cap :: "sc_fighter \<Rightarrow> nat" where
  "shield_cap f = max SHIELD_CAP (f_maxhp f * 3 div 4)"

definition lose_hp :: "nat \<Rightarrow> nat \<Rightarrow> sc_sim \<Rightarrow> sc_sim" where
  "lose_hp p n s = set_f p ((fs s p)\<lparr>f_hp := f_hp (fs s p) - int n\<rparr>) s"

definition add_shield :: "nat \<Rightarrow> nat \<Rightarrow> sc_sim \<Rightarrow> sc_sim" where
  "add_shield p n s = set_f p ((fs s p)\<lparr>f_shield := min (shield_cap (fs s p)) (f_shield (fs s p) + n)\<rparr>) s"

definition hit_damage :: "sc_weapon \<Rightarrow> sc_fighter \<Rightarrow> nat \<Rightarrow> nat" where
  "hit_damage w target amount =
     (let d = (if w_spc w = 3 \<and> f_burn target > 0 then amount * 3 div 2 else amount)
      in if w_tag w = 2 \<and> f_shield target > 0 then d * 2 else d)"

text \<open>The shield absorbs what it can, unless the item pierces.\<close>

definition take_hit :: "sc_weapon \<Rightarrow> nat \<Rightarrow> sc_fighter \<Rightarrow> sc_fighter" where
  "take_hit w dmg f =
     (let absorbed = (if w_spc w = 2 then 0 else min (f_shield f) dmg)
      in f\<lparr>f_shield := f_shield f - absorbed, f_hp := f_hp f - int (dmg - absorbed)\<rparr>)"

definition hit :: "nat \<Rightarrow> nat \<Rightarrow> sc_weapon \<Rightarrow> nat \<Rightarrow> sc_sim \<Rightarrow> sc_sim" where
  "hit t p w amount s =
     (let o' = 1 - p; target = fs s o'; dmg = hit_damage w target amount; hurt = take_hit w dmg target;
          s1 = set_f o' hurt s;
          s2 = (if f_reflect hurt > 0 \<and> f_shield hurt > 0 then lose_hp p (f_reflect hurt) s1 else s1)
      in emit t p ''hit'' (Some (w_id w)) dmg s2)"

section \<open>Firing\<close>

definition ram_value :: "sc_weapon \<Rightarrow> sc_fighter \<Rightarrow> nat" where
  "ram_value w f = f_shield f * w_ram w div 100"

text \<open>One blow of a damaging item: detonate the target's burn, ram with the own shield, then hit.\<close>

definition strike :: "nat \<Rightarrow> nat \<Rightarrow> sc_weapon \<Rightarrow> sc_sim \<Rightarrow> sc_sim" where
  "strike t p w s =
     (let o' = 1 - p; b = f_burn (fs s o');
          (v, s1) = (if w_spc w = 6 \<and> b > 0
                     then (w_v w + b * 4,
                           set_f o' ((fs s o')\<lparr>f_burn := 0\<rparr>) (emit t p ''det'' (Some (w_id w)) (b * 4) s))
                     else (w_v w, s));
          v' = (if w_spc w = 7 then v + ram_value w (fs s1 p) else v)
      in if v' > 0 then hit t p w v' s1 else s1)"

definition ignite :: "nat \<Rightarrow> nat \<Rightarrow> sc_weapon \<Rightarrow> sc_sim \<Rightarrow> sc_sim" where
  "ignite t p w s =
     (if w_burn w = 0 then s
      else emit t p ''ignite'' (Some (w_id w)) (w_burn w)
             (set_f (1 - p) ((fs s (1 - p))\<lparr>f_burn := f_burn (fs s (1 - p)) + w_burn w\<rparr>) s))"

definition side_shield :: "nat \<Rightarrow> sc_weapon \<Rightarrow> sc_sim \<Rightarrow> sc_sim" where
  "side_shield p w s = (if w_spc w = 5 \<and> w_sh w \<noteq> 0 then add_shield p (w_sh w) s else s)"

definition fire_strike :: "nat \<Rightarrow> nat \<Rightarrow> sc_weapon \<Rightarrow> sc_sim \<Rightarrow> sc_sim" where
  "fire_strike t p w s =
     side_shield p w (ignite t p w ((strike t p w ^^ (if w_spc w = 1 then 2 else 1)) s))"

definition fire_guard :: "nat \<Rightarrow> nat \<Rightarrow> sc_weapon \<Rightarrow> sc_sim \<Rightarrow> sc_sim" where
  "fire_guard t p w s =
     (let s1 = emit t p ''shield'' (Some (w_id w)) (w_v w) (add_shield p (w_v w) s);
          v = ram_value w (fs s1 p)
      in if w_spc w = 7 \<and> v > 0 then hit t p w v s1 else s1)"

text \<open>
  A repair fills the hull up to its maximum; with the code's invariant that the hull is never
  above its maximum, the healed amount is not negative.
\<close>

definition fire_repair :: "nat \<Rightarrow> nat \<Rightarrow> sc_weapon \<Rightarrow> sc_sim \<Rightarrow> sc_sim" where
  "fire_repair t p w s =
     (let f = fs s p; healed = min (int (f_maxhp f) - f_hp f) (int (w_v w));
          s1 = (if healed > 0 then emit t p ''heal'' (Some (w_id w)) (nat healed) s else s);
          s2 = set_f p (f\<lparr>f_hp := f_hp f + healed\<rparr>) s1;
          s3 = (if w_spc w = 8 \<and> int (w_v w) > healed then add_shield p (nat (int (w_v w) - healed)) s2 else s2)
      in side_shield p w s3)"

definition fire :: "nat \<Rightarrow> nat \<Rightarrow> sc_weapon \<Rightarrow> sc_sim \<Rightarrow> sc_sim" where
  "fire t p w s =
     (case w_kind w of Strike \<Rightarrow> fire_strike t p w s | Guard \<Rightarrow> fire_guard t p w s
      | Repair \<Rightarrow> fire_repair t p w s | Passive \<Rightarrow> s)"

section \<open>The fight\<close>

definition burn_tick :: "nat \<Rightarrow> nat \<Rightarrow> sc_sim \<Rightarrow> sc_sim" where
  "burn_tick t p s =
     (let f = fs s p
      in if f_burn f > 0
         then emit t p ''burn'' None (f_burn f)
                (set_f p (f\<lparr>f_hp := f_hp f - int (f_burn f), f_burn := f_burn f - 1\<rparr>) s)
         else s)"

text \<open>The burn event carries the stacks before they cool; meltdown hurts both sides after second 60.\<close>

definition upkeep :: "nat \<Rightarrow> sc_sim \<Rightarrow> sc_sim" where
  "upkeep t s =
     (if t mod 10 = 0
      then (let s1 = burn_tick t 1 (burn_tick t 0 s); m = (t - 600) div 50 + 1
            in if t > 600 then lose_hp 1 m (lose_hp 0 m s1) else s1)
      else s)"

definition due :: "nat \<Rightarrow> nat \<Rightarrow> sc_weapon \<Rightarrow> bool" where
  "due t slot w \<longleftrightarrow> w_slot w = slot \<and> (t + slot) mod w_cd w = 0"

definition fire_slot :: "nat \<Rightarrow> nat \<Rightarrow> nat \<Rightarrow> sc_sim \<Rightarrow> sc_sim" where
  "fire_slot t slot p s = fold (\<lambda>w s. if due t slot w then fire t p w s else s) (f_items (fs s p)) s"

definition fire_all :: "nat \<Rightarrow> sc_sim \<Rightarrow> sc_sim" where
  "fire_all t s = fold (\<lambda>slot s. fire_slot t slot 1 (fire_slot t slot 0 s)) [0..<SC_SLOTS] s"

definition sc_tick :: "nat \<Rightarrow> sc_sim \<Rightarrow> sc_sim" where
  "sc_tick t s = fire_all t (upkeep t s)"

definition knockout :: "sc_sim \<Rightarrow> nat" where
  "knockout s =
     (let k0 = f_hp (fs s 0) \<le> 0; k1 = f_hp (fs s 1) \<le> 0
      in if k0 \<and> k1 then 3 else if k0 then 2 else if k1 then 1 else 0)"

text \<open>\<open>fight n t s\<close> runs at most \<open>n\<close> further ticks, the next one at time \<open>t\<close>.\<close>

primrec fight :: "nat \<Rightarrow> nat \<Rightarrow> sc_sim \<Rightarrow> nat \<times> sc_sim" where
  "fight 0 t s = (0, s)"
| "fight (Suc n) t s = (let s1 = sc_tick t s; r = knockout s1 in if r \<noteq> 0 then (r, s1) else fight n (t + 1) s1)"

definition timeout_result :: "sc_sim \<Rightarrow> nat" where
  "timeout_result s =
     (let a = f_hp (fs s 0) * int (f_maxhp (fs s 1)); b = f_hp (fs s 1) * int (f_maxhp (fs s 0))
      in if a = b then 3 else if a > b then 1 else 2)"

definition sim_start :: "sc_gear \<Rightarrow> nat \<Rightarrow> sc_gear \<Rightarrow> nat \<Rightarrow> sc_sim" where
  "sim_start g0 m0 g1 m1 =
     \<lparr>fs = (\<lambda>p. if p = 0 then buildFighterFrom g0 m0 else buildFighterFrom g1 m1), evs = []\<rparr>"

definition simulateBuilds :: "sc_gear \<Rightarrow> nat \<Rightarrow> sc_gear \<Rightarrow> nat \<Rightarrow> sc_combat" where
  "simulateBuilds g0 m0 g1 m1 =
     (case fight 900 1 (sim_start g0 m0 g1 m1) of (r, s) \<Rightarrow>
        \<lparr>c_result = (if r = 0 then timeout_result s else r),
         c_hp = (nat (max 0 (f_hp (fs s 0))), nat (max 0 (f_hp (fs s 1)))),
         c_maxhp = (f_maxhp (fs s 0), f_maxhp (fs s 1)), c_ev = evs s\<rparr>)"

end
