(* ===== verification/ScrapGame.thy ===== *)
theory ScrapGame
  imports ScrapFight Referee
begin

text \<open>
  The moves and the replay of a Scrapline duel, the solo gauntlet and its daily claims
  (\<^verbatim>\<open>static/scrapline-engine.js\<close>). \<open>None\<close> is the exception of a seed that is not final yet.
\<close>

declare One_nat_def [simp del]

section \<open>The duel\<close>

definition sc_skip :: "nat \<Rightarrow> sc \<Rightarrow> sc" where
  "sc_skip p st =
     (let z = sc_ps st p
      in sc_note (Some p) ''skip'' None None (set_scp p (z\<lparr>maxhp := maxhp z + skip_hp (sc_round z + 1)\<rparr>) st))"

text \<open>The fight starts when both players have drafted.\<close>

definition sc_finish :: "sc \<Rightarrow> sc" where
  "sc_finish st =
     (if sc_round (sc_ps st 0) \<ge> SC_ROUNDS \<and> sc_round (sc_ps st 1) \<ge> SC_ROUNDS
      then (let c = simulateBuilds (gear (sc_ps st 0)) (maxhp (sc_ps st 0)) (gear (sc_ps st 1)) (maxhp (sc_ps st 1))
            in sc_note None ''combat'' None (Some (c_result c))
                 (st\<lparr>sc_combat := Some c, sc_over := True, sc_result := c_result c\<rparr>))
      else st)"

definition sc_advance :: "nat \<Rightarrow> sc \<Rightarrow> sc" where
  "sc_advance p st =
     (let z = sc_ps st p in sc_finish (set_scp p (z\<lparr>sc_round := sc_round z + 1, pendq := sc_q st\<rparr>) st))"

definition sc_apply :: "(nat \<Rightarrow> nat) \<Rightarrow> nat \<Rightarrow> nat \<Rightarrow> sc \<Rightarrow> sc option" where
  "sc_apply H side e st =
     (if sc_corrupt st then Some st
      else if sc_over st then Some (sc_spoil ''move after game over'' st)
      else (let p = side - 1
            in if sc_round (sc_ps st p) \<ge> SC_ROUNDS
               then Some (sc_spoil (''already drafted '' @ show_nat SC_ROUNDS) st)
               else (case offerFor H st p of
                   None \<Rightarrow> None
                 | Some offer \<Rightarrow>
                     (case sc_decMove e of (opc, payload) \<Rightarrow>
                        if opc = 1
                        then (let choice = payload mod 4; slot = payload div 4
                              in if choice > 2 \<or> slot \<ge> SC_SLOTS then Some (sc_spoil ''pick payload'' st)
                                 else Some (sc_advance p (sc_pick p offer choice slot st)))
                        else if opc = 2 then Some (sc_advance p (sc_skip p st))
                        else Some (sc_spoil (''bad op '' @ show_nat opc) st)))))"

type_synonym sc_rec = "nat \<times> nat \<times> nat option"

fun sc_loop :: "(nat \<Rightarrow> nat) \<Rightarrow> nat \<Rightarrow> sc_rec list \<Rightarrow> sc \<Rightarrow> sc" where
  "sc_loop H i [] st = st"
| "sc_loop H i ((e, side, q) # recs) st =
     (if sc_corrupt st then st
      else case sc_apply H side e (st\<lparr>sc_q := q\<rparr>) of
        None \<Rightarrow> st\<lparr>sc_blocked := True, sc_blockedAt := int i\<rparr>
      | Some st' \<Rightarrow> sc_loop H (i + 1) recs (st'\<lparr>sc_mi := i + 1\<rparr>))"

text \<open>\<open>None\<close> is the setup that waits for its seed.\<close>

definition sc_replay :: "(nat \<Rightarrow> nat) \<Rightarrow> nat \<Rightarrow> nat option \<Rightarrow> sc_rec list \<Rightarrow> sc option" where
  "sc_replay H g khQ recs =
     (if khQ = None \<and> recs = [] then None else Some ((sc_loop H 0 recs (sc_init g khQ))\<lparr>sc_q := None\<rparr>))"

section \<open>The solo gauntlet\<close>

definition SOLO_LIVES :: int where "SOLO_LIVES = 2"
definition PICKS_PER_FIGHT :: nat where "PICKS_PER_FIGHT = 2"
definition GRIT_HP :: nat where "GRIT_HP = 25"
definition SOLO_SALT :: nat where "SOLO_SALT = 777216"

definition soloQ :: "(string \<Rightarrow> nat) \<Rightarrow> string \<Rightarrow> nat" where
  "soloQ HS seed = HS (''scrapline-solo:'' @ seed)"

definition soloOffer :: "(nat \<Rightarrow> nat) \<Rightarrow> (string \<Rightarrow> nat) \<Rightarrow> string \<Rightarrow> nat \<Rightarrow> nat \<Rightarrow> nat list" where
  "soloOffer H HS seed offerN stage =
     (let q = soloQ HS seed;
          pool = tier_pool (if stage \<le> 2 then [1] else if stage \<le> 5 then [1, 2] else [2, 3]);
          salt = SOLO_SALT + offerN * 4096
      in map (\<lambda>i. pool ! (H (q + salt + i) mod length pool)) [0, 1, 2])"

definition enemy_count :: "nat \<Rightarrow> nat" where
  "enemy_count stage = min (if stage \<ge> 13 then 8 else SC_SLOTS) (2 + (stage - 1) div 2)"

definition enemy_item :: "(nat \<Rightarrow> nat) \<Rightarrow> nat \<Rightarrow> nat \<Rightarrow> nat \<Rightarrow> nat \<times> nat" where
  "enemy_item H q stage i =
     (let salt = SOLO_SALT + 1 + stage * 65536;
          pool = tier_pool (if stage \<le> 2 then [1] else if stage \<le> 5 then [1, 2] else [1, 2, 3]);
          dPool = filter (\<lambda>x. i_kind (ITEMS ! x) = Strike) pool;
          x = (if i = 0 then dPool ! (H (q + salt + i) mod length dPool) else pool ! (H (q + salt + i) mod length pool));
          bump = (if stage \<ge> 4 then H (q + salt + 100 + i) mod 2 else 0)
      in (x, min MAXRANK (1 + stage div 3 + bump)))"

definition enemyBuild :: "(nat \<Rightarrow> nat) \<Rightarrow> (string \<Rightarrow> nat) \<Rightarrow> string \<Rightarrow> nat \<Rightarrow> sc_gear \<times> nat" where
  "enemyBuild H HS seed stage =
     (let q = soloQ HS seed; n = enemy_count stage
      in (map (\<lambda>i. if i < n then Some (enemy_item H q stage i) else None) [0..<max SC_SLOTS n],
          220 + 60 * (stage - 1) + 2 * (stage - 1) * (stage - 1)))"

record sc_run =
  r_seed :: string
  r_stage :: nat
  r_lives :: int
  r_offerN :: nat
  r_choices :: "nat list"
  r_gear :: sc_gear
  r_hull :: nat
  r_over' :: bool
  r_score :: nat
  r_last :: "sc_combat option"
  r_picks :: nat

definition soloNew :: "string \<Rightarrow> sc_run" where
  "soloNew seed =
     \<lparr>r_seed = seed, r_stage = 1, r_lives = SOLO_LIVES, r_offerN = 0, r_choices = [],
      r_gear = (replicate SC_SLOTS None)[0 := Some (0, 1)], r_hull = BASE_HP, r_over' = False, r_score = 0,
      r_last = None, r_picks = PICKS_PER_FIGHT\<rparr>"

definition soloOfferFor :: "(nat \<Rightarrow> nat) \<Rightarrow> (string \<Rightarrow> nat) \<Rightarrow> sc_run \<Rightarrow> nat list option" where
  "soloOfferFor H HS run =
     (if r_over' run \<or> r_picks run = 0 then None else Some (soloOffer H HS (r_seed run) (r_offerN run) (r_stage run)))"

text \<open>\<open>choice = None\<close> is the code's \<^verbatim>\<open>-1\<close>, scrap the offer; the result tells whether the pick was taken.\<close>

definition soloPick :: "(nat \<Rightarrow> nat) \<Rightarrow> (string \<Rightarrow> nat) \<Rightarrow> sc_run \<Rightarrow> nat option \<Rightarrow> nat \<Rightarrow> bool \<times> sc_run" where
  "soloPick H HS run choice slot =
     (if r_over' run \<or> r_picks run = 0 then (False, run)
      else case choice of
        None \<Rightarrow> (True, run\<lparr>r_hull := r_hull run + skip_hp (r_stage run), r_offerN := r_offerN run + 1,
                          r_picks := r_picks run - 1, r_choices := r_choices run @ [3]\<rparr>)
      | Some c \<Rightarrow>
          if c > 2 \<or> slot \<ge> SC_SLOTS then (False, run)
          else (case fit_slot (soloOffer H HS (r_seed run) (r_offerN run) (r_stage run) ! c) (offerRank (r_stage run))
                       slot (r_gear run) (r_hull run) of (gr, hp) \<Rightarrow>
                  (True, run\<lparr>r_gear := gr, r_hull := hp, r_offerN := r_offerN run + 1,
                             r_picks := r_picks run - 1, r_choices := r_choices run @ [c + 4 * slot]\<rparr>)))"

text \<open>A fight is due when the picks are used up; only a clean kill clears the stage.\<close>

definition soloFight :: "(nat \<Rightarrow> nat) \<Rightarrow> (string \<Rightarrow> nat) \<Rightarrow> sc_run \<Rightarrow> sc_run" where
  "soloFight H HS run =
     (if r_over' run \<or> r_picks run > 0 then run
      else (case enemyBuild H HS (r_seed run) (r_stage run) of (eg, em) \<Rightarrow>
              (let c = simulateBuilds (r_gear run) (r_hull run) eg em;
                   run1 = run\<lparr>r_last := Some c, r_picks := PICKS_PER_FIGHT\<rparr>
               in if c_result c = 1 then run1\<lparr>r_score := r_stage run, r_stage := r_stage run + 1\<rparr>
                  else run1\<lparr>r_lives := r_lives run - 1, r_hull := r_hull run + GRIT_HP,
                            r_over' := r_over' run \<or> r_lives run - 1 < 0\<rparr>)))"

section \<open>Daily claims\<close>

definition ATT_PER_WORD :: nat where "ATT_PER_WORD = 10"
definition MAX_WORDS :: nat where "MAX_WORDS = 8"
definition MAX_ATT :: nat where "MAX_ATT = ATT_PER_WORD * MAX_WORDS"

definition packChoices :: "nat list \<Rightarrow> nat list" where
  "packChoices cs = packMoves (cs @ replicate (MAX_ATT - length cs) 0) 5"

definition unpackChoices :: "nat list \<Rightarrow> nat \<Rightarrow> nat list" where
  "unpackChoices ws n = unpackMoves ws 5 n"

definition seedOfDay :: "nat \<Rightarrow> string \<Rightarrow> string \<Rightarrow> string" where
  "seedOfDay day anchor addr = provableSeed ''scrapline'' day anchor addr"

text \<open>The replay of a claim; \<open>None\<close> is a rejected choice.\<close>

definition claim_step :: "(nat \<Rightarrow> nat) \<Rightarrow> (string \<Rightarrow> nat) \<Rightarrow> nat \<Rightarrow> sc_run \<Rightarrow> sc_run option" where
  "claim_step H HS att run =
     (if r_over' run then None
      else (let c = att mod 4; slot = att div 4
            in if slot \<ge> SC_SLOTS then None
               else (case soloPick H HS run (if c = 3 then None else Some c) slot of
                       (ok, run') \<Rightarrow> if ok then Some (soloFight H HS run') else None)))"

primrec claim_run :: "(nat \<Rightarrow> nat) \<Rightarrow> (string \<Rightarrow> nat) \<Rightarrow> nat list \<Rightarrow> sc_run \<Rightarrow> sc_run option" where
  "claim_run H HS [] run = Some run"
| "claim_run H HS (a # as) run = (case claim_step H HS a run of None \<Rightarrow> None | Some r \<Rightarrow> claim_run H HS as r)"

definition sc_verifyClaim :: "(nat \<Rightarrow> nat) \<Rightarrow> (string \<Rightarrow> nat) \<Rightarrow> nat \<Rightarrow> nat \<Rightarrow> nat list \<Rightarrow> string \<Rightarrow> string \<Rightarrow> int" where
  "sc_verifyClaim H HS day n words anchor addr =
     (if \<not> (n > 0 \<and> n \<le> MAX_ATT) then -1
      else (case claim_run H HS (unpackChoices words n) (soloNew (seedOfDay day anchor addr)) of
              None \<Rightarrow> -1
            | Some run \<Rightarrow> if r_over' run then int (r_score run) else -1))"

end
