(* ===== verification/ScrapRules.thy ===== *)
theory ScrapRules
  imports ScrapGame
begin

text \<open>
  What a Scrapline fight and a draft keep: hulls and shields within their caps, at most 900 events,
  gear of existing items with ranks from 1 to 9. The second part shows that a fight reads an item
  only through the six slots it scans.
\<close>

declare One_nat_def [simp del]

section \<open>Fights\<close>

lemma fs_set_f: "fs (set_f p f s) q = (if q = p then f else fs s q)"
  by (simp add: set_f_def)

lemma fs_emit [simp]: "fs (emit t p e x n s) = fs s"
  by (simp add: emit_def)

lemma evs_set_f [simp]: "evs (set_f p f s) = evs s"
  by (simp add: set_f_def)

text \<open>A fighter in order; its hull maximum, items and mirror never change.\<close>

definition fit_ok :: "sc_fighter \<Rightarrow> bool" where
  "fit_ok f \<longleftrightarrow> f_hp f \<le> int (f_maxhp f) \<and> f_shield f \<le> shield_cap f"

definition same_build :: "sc_fighter \<Rightarrow> sc_fighter \<Rightarrow> bool" where
  "same_build f f' \<longleftrightarrow> f_maxhp f' = f_maxhp f \<and> f_items f' = f_items f \<and> f_reflect f' = f_reflect f"

definition sim_keeps :: "sc_sim \<Rightarrow> sc_sim \<Rightarrow> bool" where
  "sim_keeps s s' \<longleftrightarrow>
     (\<forall>q. same_build (fs s q) (fs s' q) \<and> (fit_ok (fs s q) \<longrightarrow> fit_ok (fs s' q))) \<and>
     (length (evs s) \<le> 900 \<longrightarrow> length (evs s') \<le> 900)"

lemma sim_keeps_refl [simp]: "sim_keeps s s"
  by (simp add: sim_keeps_def same_build_def)

lemma sim_keeps_trans [trans]: "sim_keeps a b \<Longrightarrow> sim_keeps b c \<Longrightarrow> sim_keeps a c"
  unfolding sim_keeps_def same_build_def by metis

lemma keeps_emit [simp]: "sim_keeps s (emit t p e x n s)"
  by (simp add: sim_keeps_def same_build_def emit_def)

lemma keeps_set_f:
  "same_build (fs s p) f \<Longrightarrow> (fit_ok (fs s p) \<Longrightarrow> fit_ok f) \<Longrightarrow> sim_keeps s (set_f p f s)"
  by (auto simp: sim_keeps_def fs_set_f same_build_def)

lemma shield_cap_simps [simp]:
  "shield_cap (f\<lparr>f_hp := h\<rparr>) = shield_cap f" "shield_cap (f\<lparr>f_shield := k\<rparr>) = shield_cap f"
  "shield_cap (f\<lparr>f_burn := b\<rparr>) = shield_cap f" "shield_cap (f\<lparr>f_items := i\<rparr>) = shield_cap f"
  by (simp_all add: shield_cap_def)

lemma keeps_lose [simp]: "sim_keeps s (lose_hp p n s)"
  unfolding lose_hp_def by (rule keeps_set_f) (auto simp: same_build_def fit_ok_def)

lemma keeps_add_shield [simp]: "sim_keeps s (add_shield p n s)"
  unfolding add_shield_def by (rule keeps_set_f) (auto simp: same_build_def fit_ok_def)

lemma keeps_more [intro]:
  "sim_keeps s a \<Longrightarrow> sim_keeps s (emit t p e x n a)" "sim_keeps s a \<Longrightarrow> sim_keeps s (lose_hp p k a)"
  "sim_keeps s a \<Longrightarrow> sim_keeps s (add_shield p k a)"
  by (rule sim_keeps_trans, assumption, simp)+

lemma keeps_if: "(b \<Longrightarrow> sim_keeps s x) \<Longrightarrow> (\<not> b \<Longrightarrow> sim_keeps s y) \<Longrightarrow> sim_keeps s (if b then x else y)"
  by simp

lemma keeps_burn: "sim_keeps s (set_f p ((fs s p)\<lparr>f_burn := b\<rparr>) s)"
  by (rule keeps_set_f) (auto simp: same_build_def fit_ok_def)

lemma take_hit_ok: "same_build f (take_hit w d f)" "fit_ok f \<Longrightarrow> fit_ok (take_hit w d f)"
proof -
  show "same_build f (take_hit w d f)" by (simp add: same_build_def take_hit_def Let_def)
  have "f_shield f - k \<le> shield_cap f" "f_hp f - int j \<le> int (f_maxhp f)" if "fit_ok f" for k j
    using that diff_le_self [of "f_shield f" k] by (auto simp: fit_ok_def intro: order_trans)
  then show "fit_ok f \<Longrightarrow> fit_ok (take_hit w d f)"
    unfolding take_hit_def Let_def by (simp add: fit_ok_def shield_cap_def) (auto simp: min_def)
qed

lemma keeps_hit [simp]: "sim_keeps s (hit t p w amount s)"
  unfolding hit_def Let_def by (intro keeps_more keeps_if keeps_set_f take_hit_ok)

lemma keeps_strike [simp]: "sim_keeps s (strike t p w s)"
proof -
  let ?o = "1 - p"
  have "sim_keeps s (set_f ?o ((fs s ?o)\<lparr>f_burn := 0\<rparr>) (emit t p e x n s))" for e x n
    using sim_keeps_trans [OF keeps_emit keeps_burn [of "emit t p e x n s" ?o 0]] by simp
  then show ?thesis
    unfolding strike_def Let_def by (auto intro: sim_keeps_trans [OF _ keeps_hit])
qed

lemma keeps_ignite [simp]: "sim_keeps s (ignite t p w s)"
  unfolding ignite_def using keeps_burn by auto

lemma keeps_side [simp]: "sim_keeps s (side_shield p w s)"
  by (simp add: side_shield_def)

lemma keeps_repair [simp]: "sim_keeps s (fire_repair t p w s)"
proof -
  define h where "h = min (int (f_maxhp (fs s p)) - f_hp (fs s p)) (int (w_v w))"
  define s1 where "s1 = (if h > 0 then emit t p ''heal'' (Some (w_id w)) (nat h) s else s)"
  define s2 where "s2 = set_f p ((fs s p)\<lparr>f_hp := f_hp (fs s p) + h\<rparr>) s1"
  have f: "fs s1 = fs s" by (simp add: s1_def)
  have "sim_keeps s s1" by (simp add: s1_def)
  also have "sim_keeps s1 s2"
    unfolding s2_def f [symmetric] by (rule keeps_set_f) (auto simp: same_build_def fit_ok_def h_def f)
  also have "sim_keeps s2 (if w_spc w = 8 \<and> int (w_v w) > h then add_shield p (nat (int (w_v w) - h)) s2 else s2)" (is "sim_keeps s2 ?s3")
    by simp
  also have "sim_keeps ?s3 (side_shield p w ?s3)" by simp
  finally show ?thesis
    unfolding fire_repair_def Let_def h_def [symmetric] s1_def [symmetric] s2_def [symmetric] .
qed

lemma keeps_funpow: "(\<And>s. sim_keeps s (g s)) \<Longrightarrow> sim_keeps s ((g ^^ n) s)"
  by (induction n) (auto intro: sim_keeps_trans)

lemma keeps_fire [simp]: "sim_keeps s (fire t p w s)"
proof -
  have "sim_keeps s (fire_strike t p w s)"
    unfolding fire_strike_def
    by (rule sim_keeps_trans [OF sim_keeps_trans [OF keeps_funpow [OF keeps_strike] keeps_ignite] keeps_side])
  moreover have "sim_keeps s (fire_guard t p w s)"
    unfolding fire_guard_def Let_def
    by (auto intro: sim_keeps_trans [OF sim_keeps_trans [OF keeps_add_shield keeps_emit] keeps_hit]
        sim_keeps_trans [OF keeps_add_shield keeps_emit])
  ultimately show ?thesis by (simp add: fire_def split: sc_kind.split)
qed

lemma keeps_fold: "(\<And>x s. sim_keeps s (g x s)) \<Longrightarrow> sim_keeps s (fold g xs s)"
  by (induction xs arbitrary: s) (auto intro: sim_keeps_trans)

lemma keeps_burn_tick [simp]: "sim_keeps s (burn_tick t p s)"
proof -
  have "sim_keeps s (set_f p ((fs s p)\<lparr>f_hp := f_hp (fs s p) - int b, f_burn := c\<rparr>) s)" for b c
    by (rule keeps_set_f) (auto simp: same_build_def fit_ok_def)
  then show ?thesis by (auto simp: burn_tick_def Let_def)
qed

lemma keeps_upkeep: "sim_keeps s (upkeep t s)"
proof -
  have "sim_keeps s (burn_tick t 1 (burn_tick t 0 s))" by (rule sim_keeps_trans [OF keeps_burn_tick keeps_burn_tick])
  then show ?thesis unfolding upkeep_def Let_def by auto
qed

lemma keeps_tick: "sim_keeps s (sc_tick t s)"
proof -
  have "sim_keeps s (upkeep t s)" by (rule keeps_upkeep)
  also have "sim_keeps (upkeep t s) (fire_all t (upkeep t s))"
    unfolding fire_all_def fire_slot_def
    by (rule keeps_fold, rule sim_keeps_trans; rule keeps_fold; simp)
  finally show ?thesis by (simp add: sc_tick_def)
qed

lemma keeps_fight: "sim_keeps s (snd (fight n t s))"
  by (induction n arbitrary: t s) (auto simp: Let_def intro: sim_keeps_trans [OF keeps_tick] keeps_tick)

lemma fight_result:
  "fight n t s = (r, s') \<Longrightarrow> r = 0 \<and> (n = 0 \<or> knockout s' = 0) \<or> r \<noteq> 0 \<and> r = knockout s'"
proof (induction n arbitrary: t s)
  case (Suc n)
  show ?case
  proof (cases "knockout (sc_tick t s) = 0")
    case True
    then have "fight n (t + 1) (sc_tick t s) = (r, s')" using Suc.prems by (simp add: Let_def)
    from Suc.IH [OF this] show ?thesis using True \<open>fight n (t + 1) (sc_tick t s) = (r, s')\<close> by (cases n) auto
  next
    case False
    then show ?thesis using Suc.prems by (auto simp: Let_def)
  qed
qed simp

lemma build_ok: "fit_ok (buildFighterFrom gr hp)"
  by (simp add: fit_ok_def buildFighterFrom_def Let_def)

section \<open>Slots beyond the sixth\<close>

text \<open>The state with other item lists; no step but the scan of a slot reads them.\<close>

definition with_items :: "(nat \<Rightarrow> sc_weapon list) \<Rightarrow> sc_sim \<Rightarrow> sc_sim" where
  "with_items its s = s\<lparr>fs := (\<lambda>p. (fs s p)\<lparr>f_items := its p\<rparr>)\<rparr>"

lemma fs_with [simp]: "fs (with_items its s) p = (fs s p)\<lparr>f_items := its p\<rparr>"
  by (simp add: with_items_def)

lemma with_set_f:
  "h = f\<lparr>f_items := its p\<rparr> \<Longrightarrow> set_f p h (with_items its s) = with_items its (set_f p f s)"
  by (simp add: with_items_def set_f_def fun_eq_iff)

lemma with_emit: "emit t p e x n (with_items its s) = with_items its (emit t p e x n s)"
  by (simp add: with_items_def emit_def)

lemma with_if: "with_items its (if b then x else y) = (if b then with_items its x else with_items its y)"
  by simp

lemma with_lose: "lose_hp p n (with_items its s) = with_items its (lose_hp p n s)"
  unfolding lose_hp_def fs_with by (rule with_set_f) simp

lemma with_shield: "add_shield p n (with_items its s) = with_items its (add_shield p n s)"
  unfolding add_shield_def fs_with by (rule with_set_f) simp

lemma with_burn_set:
  "set_f p ((fs s p)\<lparr>f_items := its p, f_burn := b\<rparr>) (with_items its r) = with_items its (set_f p ((fs s p)\<lparr>f_burn := b\<rparr>) r)"
  by (rule with_set_f) simp

lemma with_take_hit: "take_hit w d (f\<lparr>f_items := i\<rparr>) = (take_hit w d f)\<lparr>f_items := i\<rparr>"
  by (simp add: take_hit_def Let_def)

lemma with_damage: "hit_damage w (f\<lparr>f_items := i\<rparr>) a = hit_damage w f a"
  by (simp add: hit_damage_def)

lemma with_hit: "hit t p w a (with_items its s) = with_items its (hit t p w a s)"
proof -
  have "set_f (1 - p) ((take_hit w d (fs s (1 - p)))\<lparr>f_items := its (1 - p)\<rparr>) (with_items its s) =
      with_items its (set_f (1 - p) (take_hit w d (fs s (1 - p))) s)" for d
    by (rule with_set_f) simp
  then show ?thesis
    unfolding hit_def Let_def fs_with with_damage with_take_hit
    by (simp only: with_lose with_if [symmetric] with_emit) simp
qed

lemma with_strike: "strike t p w (with_items its s) = with_items its (strike t p w s)"
proof -
  let ?o = "1 - p"
  define s1 where "s1 = (if w_spc w = 6 \<and> f_burn (fs s ?o) > 0
      then set_f ?o ((fs s ?o)\<lparr>f_burn := 0\<rparr>) (emit t p ''det'' (Some (w_id w)) (f_burn (fs s ?o) * 4) s) else s)"
  define v where "v = (if w_spc w = 6 \<and> f_burn (fs s ?o) > 0 then w_v w + f_burn (fs s ?o) * 4 else w_v w)"
  have r: "strike t p w s = (let u = (if w_spc w = 7 then v + ram_value w (fs s1 p) else v) in if u > 0 then hit t p w u s1 else s1)"
    by (simp add: strike_def Let_def v_def s1_def)
  have l: "strike t p w (with_items its s) =
      (let u = (if w_spc w = 7 then v + ram_value w (fs s1 p) else v) in if u > 0 then hit t p w u (with_items its s1) else with_items its s1)"
    by (simp add: strike_def Let_def v_def s1_def with_emit with_burn_set ram_value_def)
  show ?thesis unfolding l r Let_def with_hit with_if [symmetric] ..
qed

lemma with_funpow: "(strike t p w ^^ n) (with_items its s) = with_items its ((strike t p w ^^ n) s)"
  by (induction n) (simp_all add: with_strike)

lemma with_ignite: "ignite t p w (with_items its s) = with_items its (ignite t p w s)"
  by (simp add: ignite_def with_burn_set with_emit)

lemma with_side: "side_shield p w (with_items its s) = with_items its (side_shield p w s)"
  by (simp add: side_shield_def with_shield)

lemma with_guard: "fire_guard t p w (with_items its s) = with_items its (fire_guard t p w s)"
  by (simp add: fire_guard_def Let_def ram_value_def with_emit with_hit with_shield)

lemma with_repair: "fire_repair t p w (with_items its s) = with_items its (fire_repair t p w s)"
proof -
  define h where "h = min (int (f_maxhp (fs s p)) - f_hp (fs s p)) (int (w_v w))"
  have "fire_repair t p w (with_items its s) =
    side_shield p w
      (let s2 = with_items its (set_f p ((fs s p)\<lparr>f_hp := f_hp (fs s p) + h\<rparr>)
                 (if h > 0 then emit t p ''heal'' (Some (w_id w)) (nat h) s else s))
       in if w_spc w = 8 \<and> int (w_v w) > h then add_shield p (nat (int (w_v w) - h)) s2 else s2)"
  proof -
    have "set_f p ((fs s p)\<lparr>f_items := its p, f_hp := f_hp (fs s p) + h\<rparr>) (with_items its r) =
        with_items its (set_f p ((fs s p)\<lparr>f_hp := f_hp (fs s p) + h\<rparr>) r)" for r
      by (rule with_set_f) simp
    then show ?thesis by (simp add: fire_repair_def Let_def h_def [symmetric] with_emit)
  qed
  also have "\<dots> = with_items its (fire_repair t p w s)"
    unfolding fire_repair_def Let_def h_def [symmetric] with_shield with_if [symmetric] with_side ..
  finally show ?thesis .
qed

lemma with_fire: "fire t p w (with_items its s) = with_items its (fire t p w s)"
  by (simp add: fire_def fire_strike_def with_funpow with_ignite with_side with_guard with_repair split: sc_kind.split)

lemma with_burn: "burn_tick t p (with_items its s) = with_items its (burn_tick t p s)"
proof -
  have "set_f p ((fs s p)\<lparr>f_items := its p, f_hp := h, f_burn := b\<rparr>) (with_items its s) =
      with_items its (set_f p ((fs s p)\<lparr>f_hp := h, f_burn := b\<rparr>) s)" for h b
    by (rule with_set_f) simp
  then show ?thesis by (simp add: burn_tick_def Let_def with_emit)
qed

lemma with_upkeep: "upkeep t (with_items its s) = with_items its (upkeep t s)"
  by (simp add: upkeep_def Let_def with_burn with_lose)

lemma fold_due:
  "fold (\<lambda>w s. if due t slot w then fire t p w s else s) ws s = fold (fire t p) (filter (due t slot) ws) s"
  by (induction ws arbitrary: s) simp_all

lemma with_fold: "fold (fire t p) ws (with_items its s) = with_items its (fold (fire t p) ws s)"
  by (induction ws arbitrary: s) (simp_all add: with_fire)

lemma items_fold [simp]: "f_items (fs (fold (fire t p) ws s) q) = f_items (fs s q)"
proof -
  have "sim_keeps s (fold (fire t p) ws s)" by (rule keeps_fold) (rule keeps_fire)
  then show ?thesis by (simp add: sim_keeps_def same_build_def)
qed

text \<open>Two lists agree when they hold the same items on the scanned slots, in the same order.\<close>

definition agree :: "(nat \<Rightarrow> sc_weapon list) \<Rightarrow> sc_sim \<Rightarrow> bool" where
  "agree its s \<longleftrightarrow>
     (\<forall>p. filter (\<lambda>w. w_slot w < SC_SLOTS) (its p) = filter (\<lambda>w. w_slot w < SC_SLOTS) (f_items (fs s p)))"

lemma agree_keeps: "agree its s \<Longrightarrow> sim_keeps s s' \<Longrightarrow> agree its s'"
  by (simp add: agree_def sim_keeps_def same_build_def)

lemma agree_due:
  assumes "agree its s" "slot < SC_SLOTS"
  shows "filter (due t slot) (its p) = filter (due t slot) (f_items (fs s p))"
proof -
  have "filter (due t slot) ws = filter (due t slot) (filter (\<lambda>w. w_slot w < SC_SLOTS) ws)" for ws
    unfolding filter_filter by (rule filter_cong) (use assms(2) in \<open>auto simp: due_def\<close>)
  then show ?thesis using assms(1) unfolding agree_def by metis
qed

lemma with_slot:
  assumes "agree its s" "slot < SC_SLOTS"
  shows "fire_slot t slot p (with_items its s) = with_items its (fire_slot t slot p s)"
  unfolding fire_slot_def fold_due using agree_due [OF assms, of t p] by (simp add: with_fold)

lemma keeps_slot: "sim_keeps s (fire_slot t slot p s)"
  unfolding fire_slot_def by (rule keeps_fold) simp

lemma with_slots:
  "agree its s \<Longrightarrow> \<forall>k \<in> set ks. k < SC_SLOTS \<Longrightarrow>
     fold (\<lambda>slot s. fire_slot t slot 1 (fire_slot t slot 0 s)) ks (with_items its s) =
     with_items its (fold (\<lambda>slot s. fire_slot t slot 1 (fire_slot t slot 0 s)) ks s)"
proof (induction ks arbitrary: s)
  case (Cons k ks)
  have a: "agree its (fire_slot t k 0 s)" "agree its (fire_slot t k 1 (fire_slot t k 0 s))"
    using agree_keeps [OF Cons.prems(1)] keeps_slot sim_keeps_trans [OF keeps_slot keeps_slot] by blast+
  show ?case
    using Cons.IH [OF a(2)] Cons.prems with_slot [OF Cons.prems(1), of k t 0] with_slot [OF a(1), of k t 1] by simp
qed simp

lemma with_tick:
  assumes "agree its s"
  shows "sc_tick t (with_items its s) = with_items its (sc_tick t s)"
proof -
  have "sim_keeps s (upkeep t s)" by (rule keeps_upkeep)
  then have "agree its (upkeep t s)" by (rule agree_keeps [OF assms])
  then show ?thesis
    unfolding sc_tick_def fire_all_def with_upkeep by (rule with_slots) simp
qed

lemma with_fight:
  "agree its s \<Longrightarrow> fight n t (with_items its s) = (fst (fight n t s), with_items its (snd (fight n t s)))"
proof (induction n arbitrary: t s)
  case (Suc n)
  have "agree its (sc_tick t s)" by (rule agree_keeps [OF Suc.prems keeps_tick])
  moreover have "knockout (with_items its s') = knockout s'" for s' by (simp add: knockout_def)
  ultimately show ?case using Suc.IH Suc.prems by (simp add: Let_def with_tick)
qed simp

end
