(* ===== verification/ScrapTable.thy ===== *)
theory ScrapTable
  imports ScrapRules
begin

text \<open>
  The draft of a duel keeps the builds well-formed; the interpretation of the referee contract for
  Scrapline; what a solo run keeps and how its choice list replays.
\<close>

declare One_nat_def [simp del]

section \<open>Offers\<close>

lemma length_ITEMS: "length ITEMS = 41"
  by code_simp

lemma pools: "tier_pool [1] \<noteq> []" "tier_pool [1, 2] \<noteq> []" "tier_pool [2, 3] \<noteq> []"
  by code_simp+

lemma pool_item: "x \<in> set (tier_pool ok) \<Longrightarrow> x < 41"
  by (simp add: tier_pool_def length_ITEMS)

lemma pool_pick: "tier_pool ok \<noteq> [] \<Longrightarrow> tier_pool ok ! (h mod length (tier_pool ok)) < 41"
  by (rule pool_item [OF nth_mem]) simp

lemma offer_items:
  assumes "deriveOffer H g p r q = Some offer" "c \<le> 2"
  shows "offer ! c < 41"
proof -
  have "tier_pool (tiersFor r) \<noteq> []" using pools by (simp add: tiersFor_def)
  moreover have "c = 0 \<or> c = 1 \<or> c = 2" using assms(2) by auto
  ultimately show ?thesis
    using assms(1) by (auto simp: deriveOffer_def Let_def pool_pick split: option.splits)
qed

section \<open>Builds\<close>

definition slot_ok :: "(nat \<times> nat) option \<Rightarrow> bool" where
  "slot_ok gi \<longleftrightarrow> (case gi of None \<Rightarrow> True | Some (x, r) \<Rightarrow> x < length ITEMS \<and> 1 \<le> r \<and> r \<le> MAXRANK)"

definition player_ok :: "sc_player \<Rightarrow> bool" where
  "player_ok z \<longleftrightarrow>
     length (gear z) = SC_SLOTS \<and> (\<forall>gi \<in> set (gear z). slot_ok gi) \<and> sc_round z \<le> SC_ROUNDS \<and>
     BASE_HP \<le> maxhp z \<and> maxhp z \<le> BASE_HP + 95 * sc_round z"

lemma offerRank_bounds: "1 \<le> offerRank era" "offerRank era \<le> MAXRANK"
  by (simp_all add: offerRank_def MAXRANK_def)

lemma fit_slot_ok:
  assumes "fit_slot x r slot gr hp = (gr', hp')" "\<forall>gi \<in> set gr. slot_ok gi" "slot < length gr"
    "x < 41" "1 \<le> r" "r \<le> MAXRANK"
  shows "length gr' = length gr" "\<forall>gi \<in> set gr'. slot_ok gi" "hp \<le> hp'" "hp' \<le> hp + 95"
proof -
  have cur: "slot_ok (gr ! slot)" using assms(2,3) by simp
  have new: "slot_ok (Some (x, r))" "slot_ok (Some (x, min MAXRANK (k + r)))" for k
    using assms(4-6) by (simp_all add: slot_ok_def length_ITEMS MAXRANK_def)
  have upd: "\<forall>gi \<in> set (gr[slot := v]). slot_ok gi" if "slot_ok v" for v
    using that assms(2) set_update_subset_insert [of gr slot v] by auto
  have "length gr' = length gr \<and> (\<forall>gi \<in> set gr'. slot_ok gi) \<and> hp \<le> hp' \<and> hp' \<le> hp + 95"
  proof (cases "gr ! slot")
    case None
    then have "gr' = gr[slot := Some (x, r)]" "hp' = hp" using assms(1) by (simp_all add: fit_slot_def)
    then show ?thesis using upd [OF new(1)] by simp
  next
    case (Some g)
    obtain i k where g: "g = (i, k)" by (cases g)
    have k: "k \<le> 9" using cur by (simp add: Some g slot_ok_def MAXRANK_def)
    show ?thesis
    proof (cases "i = x \<and> k < MAXRANK")
      case True
      then have "gr' = gr[slot := Some (x, min MAXRANK (k + r))]" "hp' = hp"
        using assms(1) by (simp_all add: fit_slot_def Some g)
      then show ?thesis using upd [OF new(2)] by simp
    next
      case False
      then have "gr' = gr[slot := Some (x, r)]" "hp' = hp + 15 + 10 * (k - 1)"
        using assms(1) by (auto simp: fit_slot_def Some g)
      then show ?thesis using upd [OF new(1)] k by simp
    qed
  qed
  then show "length gr' = length gr" "\<forall>gi \<in> set gr'. slot_ok gi" "hp \<le> hp'" "hp' \<le> hp + 95" by blast+
qed

section \<open>The duel\<close>

definition sc_ok :: "sc \<Rightarrow> bool" where
  "sc_ok st \<longleftrightarrow>
     player_ok (sc_ps st 0) \<and> player_ok (sc_ps st 1) \<and>
     (sc_over st \<longleftrightarrow> sc_round (sc_ps st 0) = SC_ROUNDS \<and> sc_round (sc_ps st 1) = SC_ROUNDS) \<and>
     (sc_over st \<longrightarrow> sc_combat st =
        Some (simulateBuilds (gear (sc_ps st 0)) (maxhp (sc_ps st 0)) (gear (sc_ps st 1)) (maxhp (sc_ps st 1)))) \<and>
     (sc_over st \<longrightarrow> sc_result st = c_result (the (sc_combat st))) \<and>
     (\<not> sc_over st \<longrightarrow> sc_combat st = None \<and> sc_result st = 0)"

lemma sc_note_simps [simp]:
  "sc_ps (sc_note p ev x n st) = sc_ps st" "sc_over (sc_note p ev x n st) = sc_over st"
  "sc_combat (sc_note p ev x n st) = sc_combat st" "sc_result (sc_note p ev x n st) = sc_result st"
  "sc_q (sc_note p ev x n st) = sc_q st"
  by (simp_all add: sc_note_def Let_def)

lemma sc_ok_plain [simp]:
  "sc_ok (sc_spoil w st) = sc_ok st" "sc_ok (st\<lparr>sc_q := q\<rparr>) = sc_ok st" "sc_ok (st\<lparr>sc_mi := i\<rparr>) = sc_ok st"
  "sc_ok (st\<lparr>sc_blocked := b, sc_blockedAt := k\<rparr>) = sc_ok st" "sc_ok (sc_note p ev x n st) = sc_ok st"
  by (simp_all add: sc_ok_def sc_spoil_def)

lemma set_scp_ps [simp]: "sc_ps (set_scp p z st) q = (if q = p then z else sc_ps st q)"
  by (simp add: set_scp_def)

lemma set_scp_simps [simp]: "sc_over (set_scp p z st) = sc_over st" "sc_combat (set_scp p z st) = sc_combat st"
  "sc_result (set_scp p z st) = sc_result st" "sc_q (set_scp p z st) = sc_q st"
  by (simp_all add: set_scp_def)

text \<open>A pick or a skip spends the round it was offered in: hull gains stay within 95 per round.\<close>

definition spent :: "sc_player \<Rightarrow> sc_player \<Rightarrow> bool" where
  "spent z z' \<longleftrightarrow> sc_round z' = sc_round z \<and> length (gear z') = SC_SLOTS \<and> (\<forall>gi \<in> set (gear z'). slot_ok gi) \<and>
     maxhp z \<le> maxhp z' \<and> maxhp z' \<le> maxhp z + 95"

lemma advance_ok:
  assumes ok: "sc_ok st" and p: "p \<le> 1" and go: "sc_round (sc_ps st p) < SC_ROUNDS"
    and st1: "spent (sc_ps st p) (sc_ps st1 p)" "\<forall>q. q \<noteq> p \<longrightarrow> sc_ps st1 q = sc_ps st q"
      "sc_over st1 = sc_over st" "sc_combat st1 = sc_combat st" "sc_result st1 = sc_result st"
  shows "sc_ok (sc_advance p st1)"
proof -
  let ?z = "(sc_ps st1 p)\<lparr>sc_round := sc_round (sc_ps st1 p) + 1, pendq := sc_q st1\<rparr>"
  have pl: "player_ok (sc_ps st 0)" "player_ok (sc_ps st 1)" using ok by (simp_all add: sc_ok_def)
  have "player_ok (sc_ps st p)" using pl p by (cases "p = 0") (auto simp: le_Suc_eq One_nat_def)
  then have z: "player_ok ?z" using st1(1) go by (simp add: player_ok_def spent_def)
  have over: "\<not> sc_over st" using ok go p by (cases "p = 0") (auto simp: sc_ok_def le_Suc_eq One_nat_def)
  have none: "sc_combat st = None" "sc_result st = 0" using ok over by (simp_all add: sc_ok_def)
  have both: "player_ok (if q = p then ?z else sc_ps st1 q)" if "q \<le> 1" for q
    using z st1(2) pl that by (cases "q = 0") (auto simp: le_Suc_eq One_nat_def)
  have le: "sc_round (if q = p then ?z else sc_ps st1 q) \<le> SC_ROUNDS" if "q \<le> 1" for q
    using both [OF that] unfolding player_ok_def by blast
  show ?thesis
    using both [of 0] both [of 1] le [of 0] le [of 1] over none st1(3-5)
    by (auto simp: sc_ok_def sc_advance_def sc_finish_def Let_def)
qed

lemma skip_hp_le: "skip_hp era \<le> 95"
  by (simp add: skip_hp_def)

lemma sc_apply_ok:
  assumes ok: "sc_ok st" and side: "side = 1 \<or> side = 2" and a: "sc_apply H side e st = Some st'"
  shows "sc_ok st'"
proof (cases "sc_corrupt st \<or> sc_over st \<or> sc_round (sc_ps st (side - 1)) \<ge> SC_ROUNDS")
  case True
  then have "st' = st \<or> (\<exists>w. st' = sc_spoil w st)"
    using a unfolding sc_apply_def Let_def by (cases "sc_corrupt st"; cases "sc_over st") auto
  then show ?thesis using ok by auto
next
  case go: False
  define p where "p = side - 1"
  have p: "p \<le> 1" using side by (auto simp: p_def)
  have r: "sc_round (sc_ps st p) < SC_ROUNDS" using go by (simp add: p_def)
  have pl: "player_ok (sc_ps st p)" using ok p by (cases "p = 0") (auto simp: sc_ok_def le_Suc_eq One_nat_def)
  obtain offer where o: "offerFor H st p = Some offer"
    using a go by (auto simp: sc_apply_def Let_def p_def split: option.splits)
  have d: "deriveOffer H (sc_g st) p (sc_round (sc_ps st p) + 1) (pendq (sc_ps st p)) = Some offer"
    using o r by (simp add: offerFor_def)
  let ?pay = "snd (sc_decMove e)"
  have pick: "sc_ok (sc_advance p (sc_pick p offer (?pay mod 4) (?pay div 4) st))"
    if "\<not> (?pay mod 4 > 2 \<or> ?pay div 4 \<ge> SC_SLOTS)"
  proof -
    let ?x = "offer ! (?pay mod 4)" and ?r = "offerRank (sc_round (sc_ps st p) + 1)" and ?s = "?pay div 4"
    obtain gr hp where f: "fit_slot ?x ?r ?s (gear (sc_ps st p)) (maxhp (sc_ps st p)) = (gr, hp)" by fastforce
    have fs: "length gr = SC_SLOTS" "\<forall>gi \<in> set gr. slot_ok gi" "maxhp (sc_ps st p) \<le> hp" "hp \<le> maxhp (sc_ps st p) + 95"
      using fit_slot_ok [OF f] pl that offer_items [OF d] offerRank_bounds by (auto simp: player_ok_def)
    let ?st1 = "set_scp p ((sc_ps st p)\<lparr>gear := gr, maxhp := hp\<rparr>) st"
    have "\<exists>lgs. sc_pick p offer (?pay mod 4) ?s st = fold (\<lambda>(ev, x, n). sc_note (Some p) ev x n) lgs ?st1"
    proof (cases "gear (sc_ps st p) ! ?s")
      case None
      then show ?thesis
        by (intro exI [of _ "[(''pick'', Some ?x, Some ?s)]"]) (simp add: sc_pick_def Let_def f)
    next
      case (Some g)
      obtain i k where g: "g = (i, k)" by (cases g)
      show ?thesis
        by (rule exI [of _ "if i = ?x \<and> k < MAXRANK then [(''merge'', Some ?x, Some (min MAXRANK (k + ?r)))]
            else [(''scrap'', Some i, Some k), (''pick'', Some ?x, Some ?s)]"]) (simp add: sc_pick_def Let_def f Some g)
    qed
    then obtain lgs where n: "sc_pick p offer (?pay mod 4) ?s st = fold (\<lambda>(ev, x, n). sc_note (Some p) ev x n) lgs ?st1" by blast
    have same: "sc_ps (fold (\<lambda>(ev, x, n). sc_note (Some p) ev x n) lgs s) = sc_ps s \<and>
        sc_over (fold (\<lambda>(ev, x, n). sc_note (Some p) ev x n) lgs s) = sc_over s \<and>
        sc_combat (fold (\<lambda>(ev, x, n). sc_note (Some p) ev x n) lgs s) = sc_combat s \<and>
        sc_result (fold (\<lambda>(ev, x, n). sc_note (Some p) ev x n) lgs s) = sc_result s" for s
      by (induction lgs arbitrary: s) (auto split: prod.split)
    show ?thesis
      by (rule advance_ok [OF ok p r]) (use fs in \<open>simp_all add: n same spent_def\<close>)
  qed
  have skip: "sc_ok (sc_advance p (sc_skip p st))"
    by (rule advance_ok [OF ok p r])
      (use pl skip_hp_le in \<open>auto simp: sc_skip_def Let_def spent_def player_ok_def\<close>)
  show ?thesis
    using a go o pick skip ok by (auto simp: sc_apply_def Let_def p_def [symmetric] split_beta split: if_splits)
qed

definition sc_move :: "(nat \<Rightarrow> nat) \<Rightarrow> nat \<Rightarrow> sc_rec \<Rightarrow> sc \<Rightarrow> sc option" where
  "sc_move H i r st =
     (case r of (e, side, q) \<Rightarrow> map_option (\<lambda>s. s\<lparr>sc_mi := i + 1\<rparr>) (sc_apply H side e (st\<lparr>sc_q := q\<rparr>)))"

lemma sc_loop_run:
  "sc_loop H i recs st =
     (case run_log (sc_move H) sc_corrupt i recs st of
        (s, None) \<Rightarrow> s | (s, Some k) \<Rightarrow> s\<lparr>sc_blocked := True, sc_blockedAt := int k\<rparr>)"
proof (induction H i recs st rule: sc_loop.induct)
  case (2 H i e side q recs st)
  then show ?case
    by (cases "sc_apply H side e (st\<lparr>sc_q := q\<rparr>)") (auto simp: sc_move_def)
qed simp

definition two_sided :: "sc_rec \<Rightarrow> bool" where
  "two_sided r \<longleftrightarrow> fst (snd r) = 1 \<or> fst (snd r) = 2"

interpretation scr: referee "sc_move H" sc_corrupt two_sided "\<lambda>_. sc_ok" for H
proof
  fix i st r st'
  assume a: "sc_ok st" "two_sided r" "sc_move H i r st = Some st'"
  obtain e side q where r: "r = (e, side, q)" by (cases r)
  obtain s where s: "sc_apply H side e (st\<lparr>sc_q := q\<rparr>) = Some s" "st' = s\<lparr>sc_mi := i + 1\<rparr>"
    using a(3) by (auto simp: sc_move_def r)
  have "sc_ok s" by (rule sc_apply_ok [OF _ _ s(1)]) (use a in \<open>auto simp: two_sided_def r\<close>)
  then show "sc_ok st'" using s(2) by simp
qed

lemma sc_init_ok: "sc_ok (sc_init g khQ)"
  by (simp add: sc_ok_def sc_init_def player_ok_def slot_ok_def SC_ROUNDS_def SC_SLOTS_def BASE_HP_def)

lemma sc_replay_ok:
  assumes "sc_replay H g khQ recs = Some st" "\<forall>r \<in> set recs. two_sided r"
  shows "sc_ok st"
proof -
  have "sc_ok (fst (run_log (sc_move H) sc_corrupt 0 recs (sc_init g khQ)))"
    using scr.run_inv [OF sc_init_ok assms(2)] by blast
  then have "sc_ok (sc_loop H 0 recs (sc_init g khQ))"
    unfolding sc_loop_run by (auto split: prod.split option.split)
  then show ?thesis using assms(1) by (auto simp: sc_replay_def split: if_splits)
qed

end
