(* ===== verification/ScrapProperties.thy ===== *)
theory ScrapProperties
  imports ScrapTable
begin

text \<open>
  The properties of Scrapline: drafted builds, verdicts of fights, the hardpoints beyond the sixth
  slot, and the daily claims of the solo gauntlet. The sample run loses three fights on its first stage.
\<close>

declare One_nat_def [simp del]

section \<open>Spare hardpoints\<close>

text \<open>A build without its weapons beyond the slots a fight scans; passive cores stay.\<close>

definition is_weapon :: "(nat \<times> nat) option \<Rightarrow> bool" where
  "is_weapon gi \<longleftrightarrow> (case gi of None \<Rightarrow> False | Some (x, r) \<Rightarrow> i_kind (ITEMS ! x) \<noteq> Passive)"

definition keep_slot :: "nat \<Rightarrow> (nat \<times> nat) option \<Rightarrow> (nat \<times> nat) option" where
  "keep_slot k gi = (if k \<ge> SC_SLOTS \<and> is_weapon gi then None else gi)"

definition strip_spare :: "sc_gear \<Rightarrow> sc_gear" where
  "strip_spare gr = map (\<lambda>k. keep_slot k (gr ! k)) [0..<length gr]"

lemma fold_cores: "map add_core xs = map add_core ys \<Longrightarrow> fold add_core xs b = fold add_core ys b"
proof (induction xs arbitrary: ys b)
  case (Cons x xs)
  then obtain y ys' where y: "ys = y # ys'" "add_core x = add_core y" "map add_core xs = map add_core ys'"
    by (auto simp: Cons_eq_map_conv)
  show ?case using Cons.IH [OF y(3), of "add_core y b"] by (simp add: y(1,2))
qed simp

lemma strip_core: "add_core (keep_slot k gi) = add_core gi"
  by (rule ext) (auto simp: add_core_def keep_slot_def is_weapon_def Let_def split: option.splits)

lemma strip_buffs: "core_buffs (strip_spare gr) hp = core_buffs gr hp"
proof -
  have "map add_core (strip_spare gr) = map add_core gr"
    by (rule nth_equalityI) (simp_all add: strip_spare_def strip_core)
  then show ?thesis unfolding core_buffs_def by (rule fold_cores)
qed

lemma weapon_slot: "w \<in> set (weapon_of b k gi) \<Longrightarrow> w_slot w = k"
  by (auto simp: weapon_of_def Let_def split: option.splits if_splits)

lemma weapons_nth: "weapons gr hp = concat (map (\<lambda>k. weapon_of (core_buffs gr hp) k (gr ! k)) [0..<length gr])"
  unfolding weapons_def by (rule arg_cong [of _ _ concat], rule nth_equalityI) simp_all

lemma strip_weapons:
  "filter (\<lambda>w. w_slot w < SC_SLOTS) (weapons (strip_spare gr) hp) = filter (\<lambda>w. w_slot w < SC_SLOTS) (weapons gr hp)"
proof -
  have "filter (\<lambda>w. w_slot w < SC_SLOTS) (weapon_of b k (keep_slot k gi)) =
        filter (\<lambda>w. w_slot w < SC_SLOTS) (weapon_of b k gi)" for b k gi
  proof (cases "k \<ge> SC_SLOTS")
    case True
    have "filter (\<lambda>w. w_slot w < SC_SLOTS) (weapon_of b k g) = []" for g
      using True by (auto simp: filter_empty_conv dest: weapon_slot)
    then show ?thesis by simp
  qed (simp add: keep_slot_def)
  then show ?thesis
    unfolding weapons_nth filter_concat map_map strip_buffs
    by (intro arg_cong [of _ _ concat] nth_equalityI) (simp_all add: strip_spare_def)
qed

definition no_spare_mirror :: "sc_gear \<Rightarrow> bool" where
  "no_spare_mirror gr \<longleftrightarrow>
     (\<forall>k < length gr. SC_SLOTS \<le> k \<longrightarrow> (case gr ! k of None \<Rightarrow> True | Some (x, r) \<Rightarrow> i_spc (ITEMS ! x) \<noteq> 4))"

lemma strip_reflect:
  assumes "no_spare_mirror gr"
  shows "sum_list (map (\<lambda>w. if w_spc w = 4 then w_ref w else 0) (weapons (strip_spare gr) hp)) =
         sum_list (map (\<lambda>w. if w_spc w = 4 then w_ref w else 0) (weapons gr hp))"
proof -
  let ?m = "\<lambda>w. if w_spc w = 4 then w_ref w else 0"
  have z: "sum_list (map ?m (weapon_of b k (keep_slot k (gr ! k)))) =
        sum_list (map ?m (weapon_of b k (gr ! k)))" if "k < length gr" for b k
  proof (cases "k \<ge> SC_SLOTS \<and> is_weapon (gr ! k)")
    case True
    then obtain x r where g: "gr ! k = Some (x, r)" by (auto simp: is_weapon_def split: option.splits)
    then have x: "gr ! k = Some (x, r)" "i_spc (ITEMS ! x) \<noteq> 4"
      using assms that True unfolding no_spare_mirror_def by fastforce+
    then have "sum_list (map ?m (weapon_of b k (gr ! k))) = 0"
      by (auto simp: weapon_of_def Let_def)
    moreover have "weapon_of b k None = []" by (simp add: weapon_of_def)
    ultimately show ?thesis using True by (simp add: keep_slot_def)
  next
    case False
    then show ?thesis by (simp only: keep_slot_def if_False)
  qed
  have c: "sum_list (map ?m (concat xss)) = sum_list (map (\<lambda>xs. sum_list (map ?m xs)) xss)" for xss
    by (induction xss) simp_all
  show ?thesis
    unfolding weapons_nth c map_map strip_buffs comp_def
    by (rule arg_cong [of _ _ sum_list], rule nth_equalityI) (simp_all add: strip_spare_def z)
qed

lemma strip_fight:
  assumes "no_spare_mirror gr"
  shows "simulateBuilds g0 m0 (strip_spare gr) m = simulateBuilds g0 m0 gr m"
proof -
  let ?s = "sim_start g0 m0 gr m" and ?s' = "sim_start g0 m0 (strip_spare gr) m"
  define its where "its = (\<lambda>p. f_items (fs ?s' p))"
  have f: "buildFighterFrom (strip_spare gr) m = (buildFighterFrom gr m)\<lparr>f_items := weapons (strip_spare gr) m\<rparr>"
    by (simp add: buildFighterFrom_def Let_def strip_buffs strip_reflect [OF assms])
  have e: "?s' = with_items its ?s"
    by (simp add: with_items_def sim_start_def its_def f fun_eq_iff)
  have "agree its ?s"
    unfolding agree_def its_def by (simp add: sim_start_def buildFighterFrom_def Let_def strip_weapons)
  then have w: "fight 900 1 ?s' = (fst (fight 900 1 ?s), with_items its (snd (fight 900 1 ?s)))"
    unfolding e by (rule with_fight)
  have "evs (with_items its s) = evs s" "timeout_result (with_items its s) = timeout_result s" for s
    by (simp_all add: with_items_def timeout_result_def Let_def)
  then show ?thesis by (simp add: simulateBuilds_def w split_beta)
qed

section \<open>Solo runs\<close>

text \<open>
  The counters of a run: every stage cleared or life lost took a fight, every fight two offers, and
  the score is the last stage cleared.
\<close>

definition run_ok :: "sc_run \<Rightarrow> bool" where
  "run_ok run \<longleftrightarrow>
     r_score run + 1 = r_stage run \<and> r_picks run \<le> 2 \<and> (r_over' run \<longleftrightarrow> r_lives run < 0) \<and>
     -1 \<le> r_lives run \<and> r_lives run \<le> 2 \<and> (r_over' run \<longrightarrow> r_picks run = 2) \<and>
     int (r_offerN run) = 2 * (int (r_score run) + 2 - r_lives run) + 2 - int (r_picks run)"

lemma run_ok_new: "run_ok (soloNew seed)"
  by (simp add: run_ok_def soloNew_def SOLO_LIVES_def PICKS_PER_FIGHT_def)

lemma soloPick_cases:
  "soloPick H HS run c slot = (ok, run') \<Longrightarrow>
     (ok \<longleftrightarrow> \<not> r_over' run \<and> r_picks run > 0 \<and> (case c of None \<Rightarrow> True | Some i \<Rightarrow> i \<le> 2 \<and> slot < SC_SLOTS)) \<and>
     (\<not> ok \<longrightarrow> run' = run) \<and>
     (ok \<longrightarrow> r_picks run' = r_picks run - 1 \<and> r_offerN run' = r_offerN run + 1 \<and> r_score run' = r_score run \<and>
        r_stage run' = r_stage run \<and> r_lives run' = r_lives run \<and> r_over' run' = r_over' run \<and> r_seed run' = r_seed run \<and>
        r_choices run' = r_choices run @ [case c of None \<Rightarrow> 3 | Some i \<Rightarrow> i + 4 * slot])"
  by (auto simp: soloPick_def split: option.splits if_splits prod.splits)

lemma run_ok_pick:
  assumes "run_ok run" "soloPick H HS run c slot = (ok, run')"
  shows "run_ok run'"
  using soloPick_cases [OF assms(2)] assms(1) by (cases ok) (auto simp: run_ok_def)

lemma run_ok_fight: "run_ok run \<Longrightarrow> run_ok (soloFight H HS run)"
  by (auto simp: run_ok_def soloFight_def Let_def PICKS_PER_FIGHT_def split: prod.split)

lemma fight_again: "soloFight H HS (soloFight H HS run) = soloFight H HS run"
  by (auto simp: soloFight_def Let_def PICKS_PER_FIGHT_def split: prod.split)

lemma fight_choices: "r_choices (soloFight H HS run) = r_choices run"
  by (auto simp: soloFight_def Let_def split: prod.split)

lemma claim_step_ok:
  assumes "claim_step H HS a run = Some run'" "run_ok run"
  shows "run_ok run' \<and> \<not> r_over' run \<and> r_offerN run' = r_offerN run + 1"
proof -
  obtain ok r where p: "soloPick H HS run (if a mod 4 = 3 then None else Some (a mod 4)) (a div 4) = (ok, r)" by fastforce
  have c: "ok" "\<not> r_over' run" "run' = soloFight H HS r"
    using assms(1) by (auto simp: claim_step_def Let_def p split: if_splits)
  have "r_offerN (soloFight H HS r) = r_offerN r" by (auto simp: soloFight_def Let_def split: prod.split)
  then show ?thesis
    using c soloPick_cases [OF p] run_ok_fight [OF run_ok_pick [OF assms(2) p]] by auto
qed

lemma claim_run_ok:
  "claim_run H HS as run = Some run' \<Longrightarrow> run_ok run \<Longrightarrow> run_ok run' \<and> r_offerN run' = r_offerN run + length as"
proof (induction as arbitrary: run)
  case (Cons a as)
  obtain r where r: "claim_step H HS a run = Some r" "claim_run H HS as r = Some run'"
    using Cons.prems(1) by (auto split: option.splits)
  from claim_step_ok [OF r(1) Cons.prems(2)] Cons.IH [OF r(2)] show ?case by auto
qed simp

lemma claim_run_append:
  "claim_run H HS (xs @ ys) run = (case claim_run H HS xs run of None \<Rightarrow> None | Some r \<Rightarrow> claim_run H HS ys r)"
  by (induction xs arbitrary: run) (simp_all split: option.split)

lemma claim_over: "r_over' run \<Longrightarrow> as \<noteq> [] \<Longrightarrow> claim_run H HS as run = None"
  by (cases as) (simp_all add: claim_step_def)

text \<open>What a player does: picks and scraps, and fights, in any order the interface allows.\<close>

datatype sc_action = Choose nat nat | ScrapOffer | Fight

fun sc_act :: "(nat \<Rightarrow> nat) \<Rightarrow> (string \<Rightarrow> nat) \<Rightarrow> sc_action \<Rightarrow> sc_run \<Rightarrow> sc_run" where
  "sc_act H HS (Choose c slot) run = snd (soloPick H HS run (Some c) slot)"
| "sc_act H HS ScrapOffer run = snd (soloPick H HS run None 0)"
| "sc_act H HS Fight run = soloFight H HS run"

definition sc_recorded :: "(nat \<Rightarrow> nat) \<Rightarrow> (string \<Rightarrow> nat) \<Rightarrow> sc_run \<Rightarrow> sc_run \<Rightarrow> bool" where
  "sc_recorded H HS start run \<longleftrightarrow>
     claim_run H HS (r_choices run) start = Some (soloFight H HS run) \<and> (\<forall>a \<in> set (r_choices run). a < 32)"

lemma sc_recorded_pick:
  assumes rec: "sc_recorded H HS start run" and p: "soloPick H HS run c slot = (ok, run')" and c: "c = None \<longrightarrow> slot = 0"
  shows "sc_recorded H HS start run'"
proof (cases ok)
  case False
  then show ?thesis using soloPick_cases [OF p] rec by auto
next
  case True
  note k = soloPick_cases [OF p]
  have free: "\<not> r_over' run" "r_picks run > 0" "case c of None \<Rightarrow> True | Some i \<Rightarrow> i \<le> 2 \<and> slot < SC_SLOTS"
    using k True by blast+
  define a where "a = (case c of None \<Rightarrow> 3 | Some i \<Rightarrow> i + 4 * slot)"
  have a: "a < 32" "a div 4 = slot" "(if a mod 4 = 3 then None else Some (a mod 4)) = c" "slot < SC_SLOTS"
    using free(3) c by (auto simp: a_def SC_SLOTS_def split: option.splits)
  have idle: "soloFight H HS run = run" using free(2) by (simp add: soloFight_def)
  have "claim_step H HS a run = Some (soloFight H HS run')"
    using True p a(4) free(1) by (simp add: claim_step_def Let_def a(2,3))
  moreover have "r_choices run' = r_choices run @ [a]" using k True by (simp add: a_def)
  ultimately show ?thesis
    using rec a(1) by (auto simp: sc_recorded_def claim_run_append idle)
qed

lemma sc_recorded_act:
  assumes "sc_recorded H HS start run"
  shows "sc_recorded H HS start (sc_act H HS act run)"
proof (cases act)
  case (Choose c slot)
  then show ?thesis using sc_recorded_pick [OF assms, of "Some c" slot] by (cases "soloPick H HS run (Some c) slot") simp
next
  case ScrapOffer
  then show ?thesis using sc_recorded_pick [OF assms, of None 0] by (cases "soloPick H HS run None 0") simp
next
  case Fight
  then show ?thesis using assms by (simp add: sc_recorded_def fight_again fight_choices)
qed

lemma sc_recorded_new: "sc_recorded H HS (soloNew seed) (soloNew seed)"
  by (simp add: sc_recorded_def soloFight_def) (simp add: soloNew_def PICKS_PER_FIGHT_def)

lemma sc_recorded_fold: "sc_recorded H HS start run \<Longrightarrow> sc_recorded H HS start (fold (sc_act H HS) acts run)"
  by (induction acts arbitrary: run) (simp_all add: sc_recorded_act)

lemma unpackChoices_take: "i \<le> j \<Longrightarrow> unpackChoices ws i = take i (unpackChoices ws j)"
  by (simp add: unpackChoices_def unpackMoves_def take_map)

lemma choices_codec:
  assumes "length cs \<le> MAX_ATT" "\<forall>a \<in> set cs. a < 32"
  shows "unpackChoices (packChoices cs) (length cs) = cs"
proof -
  let ?ps = "cs @ replicate (MAX_ATT - length cs) 0"
  have "unpackMoves (packMoves ?ps 5) 5 (length ?ps) = ?ps"
    by (rule unpack_pack) (use assms(2) in auto)
  then have "unpackChoices (packChoices cs) (length ?ps) = ?ps" by (simp only: unpackChoices_def packChoices_def)
  then show ?thesis using unpackChoices_take [of "length cs" "length ?ps" "packChoices cs"] by simp
qed

section \<open>A sample run\<close>

text \<open>
  Offers show item 5, a core without weapons, and every wreck item is item 1: the player trades the
  first weapon for the core and loses three fights.
\<close>

definition sample_scrap :: "nat \<Rightarrow> nat" where "sample_scrap x = (if x \<ge> 842752 then 1 else 5)"

definition core_gear :: "nat \<Rightarrow> sc_gear" where "core_gear r = [Some (5, r), None, None, None, None, None]"

definition sample_weapon :: "nat \<Rightarrow> sc_weapon" where
  "sample_weapon k =
     \<lparr>w_id = 1, w_rank = 1, w_slot = k, w_cd = 25, w_kind = Strike, w_v = 26, w_burn = 0, w_sh = 0, w_ref = 0,
      w_spc = 0, w_ram = 0, w_tag = 1\<rparr>"

definition bout :: "nat \<Rightarrow> int \<Rightarrow> sc_event list \<Rightarrow> sc_sim" where
  "bout m h ev =
     \<lparr>fs = (\<lambda>p. if p = 0 then \<lparr>f_maxhp = m, f_hp = h, f_shield = 0, f_burn = 0, f_items = [], f_reflect = 0\<rparr>
                else \<lparr>f_maxhp = 220, f_hp = 220, f_shield = 0, f_burn = 0,
                      f_items = [sample_weapon 0, sample_weapon 1], f_reflect = 0\<rparr>), evs = ev\<rparr>"

lemma item1: "ITEMS ! 1 = item_row 1 1 25 Strike 26 14" and item5: "ITEMS ! 5 = (item_row 1 6 0 Passive 12 12)\<lparr>i_ctag := Some 0\<rparr>"
  by (simp_all add: ITEMS_def)

lemma sample_pools: "tier_pool [1] = [0, 1, 2, 3, 4, 5, 6, 7]"
  by code_simp

lemma sample_kinds: "map (\<lambda>x. i_kind (ITEMS ! x)) [0, 1, 2, 3, 4, 5, 6, 7] =
  [Strike, Strike, Strike, Guard, Repair, Passive, Passive, Passive]"
  by code_simp

lemma slots6: "[0..<SC_SLOTS] = [0, 1, 2, 3, 4, 5]"
  by (simp add: SC_SLOTS_def upt_conv_Cons)

definition wreck :: sc_gear where "wreck = [Some (1, 1), Some (1, 1), None, None, None, None]"

lemma wreck_fighter:
  "buildFighterFrom wreck 220 = \<lparr>f_maxhp = 220, f_hp = 220, f_shield = 0, f_burn = 0,
     f_items = [sample_weapon 0, sample_weapon 1], f_reflect = 0\<rparr>"
  by code_simp

lemma core_fighter:
  "buildFighterFrom (core_gear r) m = \<lparr>f_maxhp = m, f_hp = int m, f_shield = 0, f_burn = 0, f_items = [], f_reflect = 0\<rparr>"
  by (simp add: buildFighterFrom_def weapons_def core_buffs_def add_core_def core_gear_def weapon_of_def item5 item_row_def)

lemma bout_start: "sim_start (core_gear r) m wreck 220 = bout m (int m) []"
  by (simp add: sim_start_def bout_def wreck_fighter core_fighter fun_eq_iff)

definition volley :: "nat \<Rightarrow> nat \<Rightarrow> int \<Rightarrow> sc_event list \<Rightarrow> nat \<Rightarrow> int \<times> sc_event list" where
  "volley t k h ev m =
     (if (t + k) mod 25 = 0 then (h - 26, evs (emit t 1 ''hit'' (Some 1) 26 (bout m h ev))) else (h, ev))"

lemma hit_bout:
  "fire t 1 (sample_weapon k) (bout m h ev) = bout m (h - 26) (evs (emit t 1 ''hit'' (Some 1) 26 (bout m h ev)))"
proof -
  have "hit t 1 (sample_weapon k) 26 (bout m h ev) = bout m (h - 26) (evs (emit t 1 ''hit'' (Some 1) 26 (bout m h ev)))"
    by (simp add: hit_def hit_damage_def take_hit_def Let_def bout_def sample_weapon_def set_f_def emit_def fun_eq_iff)
  then show ?thesis
    by (simp add: fire_def fire_strike_def strike_def ignite_def side_shield_def sample_weapon_def One_nat_def)
qed

lemma slot_bout:
  "fire_slot t k 1 (fire_slot t k 0 (bout m h ev)) =
     (if k \<le> 1 then (case volley t k h ev m of (h', ev') \<Rightarrow> bout m h' ev') else bout m h ev)"
proof -
  have i: "f_items (fs (bout m h ev) 0) = []" "f_items (fs (bout m h ev) 1) = [sample_weapon 0, sample_weapon 1]"
    by (simp_all add: bout_def)
  have d: "due t u (sample_weapon j) \<longleftrightarrow> j = u \<and> (t + u) mod 25 = 0" for j u
    by (auto simp: due_def sample_weapon_def)
  consider "k = 0" | "k = 1" | "k > 1" by linarith
  then show ?thesis
    by cases (simp_all add: fire_slot_def i d hit_bout volley_def)
qed

lemma tick_bout:
  assumes "t \<le> 600"
  shows "\<exists>ev'. sc_tick t (bout m h ev) = bout m (h - 26 * (if t mod 25 = 0 then 1 else 0) - 26 * (if (t + 1) mod 25 = 0 then 1 else 0)) ev'"
proof -
  have "upkeep t (bout m h ev) = bout m h ev"
    using assms by (simp add: upkeep_def burn_tick_def bout_def)
  then show ?thesis
    by (auto simp: sc_tick_def fire_all_def slots6 slot_bout volley_def)
qed

primrec bout_end :: "nat \<Rightarrow> nat \<Rightarrow> int \<Rightarrow> nat" where
  "bout_end 0 t h = 0"
| "bout_end (Suc n) t h =
     (let h' = h - 26 * (if t mod 25 = 0 then 1 else 0) - 26 * (if (t + 1) mod 25 = 0 then 1 else 0)
      in if h' \<le> 0 then 2 else bout_end n (t + 1) h')"

lemma fight_bout:
  "t + n \<le> 601 \<Longrightarrow> fst (fight n t (bout m h ev)) = bout_end n t h"
proof (induction n arbitrary: t h ev)
  case (Suc n)
  obtain ev' where e: "sc_tick t (bout m h ev) = bout m (h - 26 * (if t mod 25 = 0 then 1 else 0) - 26 * (if (t + 1) mod 25 = 0 then 1 else 0)) ev'"
    using tick_bout [of t m h ev] Suc.prems by auto
  show ?case using Suc.prems
    by (simp add: e Let_def Suc.IH del: bout_end.simps) (simp add: bout_end.simps Let_def knockout_def bout_def)
qed simp

lemma fight_more: "fst (fight n t s) \<noteq> 0 \<Longrightarrow> fight (n + k) t s = fight n t s"
  by (induction n arbitrary: t s) (auto simp: Let_def)

lemma bouts_lost: "bout_end 300 1 365 = 2" "bout_end 300 1 390 = 2" "bout_end 300 1 415 = 2"
  by code_simp+

lemma core_loses: "m \<in> {365, 390, 415} \<Longrightarrow> c_result (simulateBuilds (core_gear r) m wreck 220) = 2"
proof -
  assume m: "m \<in> {365, 390, 415}"
  have f: "fst (fight 300 1 (bout m (int m) [])) = 2" using m bouts_lost by (auto simp: fight_bout)
  then have "fst (fight (300 + 600) 1 (bout m (int m) [])) = 2" by (subst fight_more) simp_all
  then show ?thesis by (simp add: simulateBuilds_def bout_start split_beta)
qed

lemma sample_wreck: "enemyBuild sample_scrap (\<lambda>_. 0) seed 1 = (wreck, 220)"
proof -
  have "enemy_count 1 = 2" "max SC_SLOTS 2 = 6" by (simp_all add: enemy_count_def SC_SLOTS_def)
  moreover have "enemy_item sample_scrap 0 1 i = (1, 1)" for i
    by (use sample_kinds in \<open>simp add: enemy_item_def Let_def sample_pools sample_scrap_def SOLO_SALT_def MAXRANK_def\<close>)
  ultimately show ?thesis
    by (simp add: enemyBuild_def soloQ_def wreck_def upt_conv_Cons)
qed

lemma sample_offer: "n < 16 \<Longrightarrow> soloOffer sample_scrap (\<lambda>_. 0) seed n 1 = [5, 5, 5]"
  by (simp add: soloOffer_def Let_def soloQ_def sample_pools sample_scrap_def SOLO_SALT_def)

text \<open>The sample run between two steps: hull and lives left, and what a step does to it.\<close>

definition sample_run :: "string \<Rightarrow> nat \<Rightarrow> int \<Rightarrow> nat \<Rightarrow> nat \<Rightarrow> sc_gear \<Rightarrow> sc_combat option \<Rightarrow> nat list \<Rightarrow> sc_run" where
  "sample_run seed n l pk hp gr c cs =
     \<lparr>r_seed = seed, r_stage = 1, r_lives = l, r_offerN = n, r_choices = cs, r_gear = gr, r_hull = hp,
      r_over' = l < 0, r_score = 0, r_last = c, r_picks = pk\<rparr>"

lemma sample_new: "soloNew seed = sample_run seed 0 2 2 350 [Some (0, 1), None, None, None, None, None] None []"
  by (simp add: soloNew_def sample_run_def SOLO_LIVES_def SC_SLOTS_def numeral_eq_Suc PICKS_PER_FIGHT_def BASE_HP_def)

lemma core_fit: "k < 9 \<Longrightarrow> fit_slot 5 1 0 (core_gear k) hp = (core_gear (k + 1), hp)"
  by (simp add: fit_slot_def core_gear_def MAXRANK_def)

lemma sample_pick:
  assumes "fit_slot 5 1 0 gr hp = (gr', hp')" "l \<ge> 0" "n < 16"
  shows "claim_step sample_scrap (\<lambda>_. 0) 0 (sample_run seed n l 2 hp gr c cs) =
           Some (sample_run seed (n + 1) l 1 hp' gr' c (cs @ [0]))"
  using assms by (simp add: claim_step_def soloPick_def soloFight_def sample_run_def SC_SLOTS_def sample_offer offerRank_def MAXRANK_def)

lemma sample_bout:
  assumes "k < 9" "l \<ge> 0" "n < 16" "hp \<in> {365, 390, 415}"
  shows "\<exists>c'. claim_step sample_scrap (\<lambda>_. 0) 0 (sample_run seed n l 1 hp (core_gear k) c cs) =
           Some (sample_run seed (n + 1) (l - 1) 2 (hp + 25) (core_gear (k + 1)) c' (cs @ [0]))"
  using assms core_loses [OF assms(4), of "k + 1"]
  by (simp add: claim_step_def soloPick_def soloFight_def sample_run_def SC_SLOTS_def sample_offer offerRank_def MAXRANK_def
      core_fit sample_wreck Let_def PICKS_PER_FIGHT_def GRIT_HP_def)

lemma sample_claim:
  "\<exists>run. claim_run sample_scrap (\<lambda>_. 0) [0, 0, 0, 0, 0, 0] (soloNew seed) = Some run \<and> r_over' run \<and> r_score run = 0"
proof -
  have first: "fit_slot 5 1 0 [Some (0, 1), None, None, None, None, None] 350 = (core_gear 1, 365)"
    by (simp add: fit_slot_def core_gear_def MAXRANK_def)
  obtain c1 where 1: "claim_run sample_scrap (\<lambda>_. 0) [0, 0] (soloNew seed) = Some (sample_run seed 2 1 2 390 (core_gear 2) c1 [0, 0])"
    using sample_bout [of 1 2 1 365 seed None "[0]"] by (auto simp: sample_new sample_pick [OF first])
  obtain c2 where 2: "claim_run sample_scrap (\<lambda>_. 0) [0, 0] (sample_run seed 2 1 2 390 (core_gear 2) c1 [0, 0]) =
      Some (sample_run seed 4 0 2 415 (core_gear 4) c2 [0, 0, 0, 0])"
    using sample_bout [of 3 1 3 390 seed c1 "[0, 0, 0]"] by (auto simp: sample_pick [OF core_fit])
  obtain c3 where 3: "claim_run sample_scrap (\<lambda>_. 0) [0, 0] (sample_run seed 4 0 2 415 (core_gear 4) c2 [0, 0, 0, 0]) =
      Some (sample_run seed 6 (-1) 2 440 (core_gear 6) c3 [0, 0, 0, 0, 0, 0])"
    using sample_bout [of 5 0 5 415 seed c2 "[0, 0, 0, 0, 0]"] by (auto simp: sample_pick [OF core_fit])
  have "claim_run sample_scrap (\<lambda>_. 0) ([0, 0] @ [0, 0] @ [0, 0]) (soloNew seed) = Some (sample_run seed 6 (-1) 2 440 (core_gear 6) c3 [0, 0, 0, 0, 0, 0])"
    by (simp only: claim_run_append 1 2 3 option.case)
  then show ?thesis by (simp add: sample_run_def del: claim_run.simps)
qed
section \<open>Properties\<close>

text \<open>C23: The draft stays in order. After every replay of two-sided records each player has six slots
  of items from the table at ranks 1 to 9, at most nine rounds, and a hull of 350 plus at most 95 per
  round; the game is over exactly when both have drafted nine rounds, and its result is then the
  verdict of the fight between the two drafted builds.\<close>

theorem scrap_draft:
  assumes "sc_replay H g khQ recs = Some st" "\<forall>r \<in> set recs. fst (snd r) = 1 \<or> fst (snd r) = 2"
  shows "(\<forall>p. p = 0 \<or> p = 1 \<longrightarrow>
           length (gear (sc_ps st p)) = 6 \<and> sc_round (sc_ps st p) \<le> 9 \<and>
           (\<forall>x r. Some (x, r) \<in> set (gear (sc_ps st p)) \<longrightarrow> x < length ITEMS \<and> 1 \<le> r \<and> r \<le> 9) \<and>
           350 \<le> maxhp (sc_ps st p) \<and> maxhp (sc_ps st p) \<le> 350 + 95 * sc_round (sc_ps st p)) \<and>
         (sc_over st \<longleftrightarrow> sc_round (sc_ps st 0) = 9 \<and> sc_round (sc_ps st 1) = 9) \<and>
         sc_result st =
           (if sc_over st
            then c_result (simulateBuilds (gear (sc_ps st 0)) (maxhp (sc_ps st 0)) (gear (sc_ps st 1)) (maxhp (sc_ps st 1)))
            else 0)"
proof -
  have ok: "sc_ok st" by (rule sc_replay_ok [OF assms(1)]) (use assms(2) in \<open>simp add: two_sided_def\<close>)
  then have "player_ok (sc_ps st p)" if "p = 0 \<or> p = 1" for p
    using that by (auto simp: sc_ok_def)
  then have "length (gear (sc_ps st p)) = 6 \<and> sc_round (sc_ps st p) \<le> 9 \<and>
      (\<forall>x r. Some (x, r) \<in> set (gear (sc_ps st p)) \<longrightarrow> x < length ITEMS \<and> 1 \<le> r \<and> r \<le> 9) \<and>
      350 \<le> maxhp (sc_ps st p) \<and> maxhp (sc_ps st p) \<le> 350 + 95 * sc_round (sc_ps st p)" if "p = 0 \<or> p = 1" for p
    using that by (fastforce simp: player_ok_def slot_ok_def SC_SLOTS_def SC_ROUNDS_def BASE_HP_def MAXRANK_def)
  moreover have "sc_over st \<longleftrightarrow> sc_round (sc_ps st 0) = 9 \<and> sc_round (sc_ps st 1) = 9"
    using ok by (simp add: sc_ok_def SC_ROUNDS_def)
  ultimately show ?thesis using ok by (cases "sc_over st") (simp_all add: sc_ok_def)
qed

text \<open>Two picks and a skip, with a hash that is always 0.\<close>

definition sample_draft :: "sc_rec list" where
  "sample_draft = [(sc_encMove 1 0, 1, Some 7), (sc_encMove 1 4, 2, Some 8), (sc_encMove 2 0, 1, Some 9)]"

lemma sample_draft_runs: "\<exists>st. sc_replay (\<lambda>_. 0) 5 (Some 6) sample_draft = Some st"
  by (simp add: sc_replay_def)

theorem scrap_draft_witness:
  "\<exists>st. sc_replay (\<lambda>_. 0) 5 (Some 6) sample_draft = Some st \<and> length (gear (sc_ps st 0)) = 6"
proof -
  obtain st where s: "sc_replay (\<lambda>_. 0) 5 (Some 6) sample_draft = Some st" using sample_draft_runs by blast
  have "\<forall>r \<in> set sample_draft. fst (snd r) = 1 \<or> fst (snd r) = 2" by (simp add: sample_draft_def)
  from scrap_draft [OF s this] s show ?thesis by blast
qed

lemma verdict_nat:
  "(if a \<le> 0 then if b \<le> 0 then 3 else 2 else if b \<le> 0 then 1
    else if a * int mb = b * int ma then 3 else if a * int mb > b * int ma then 1 else 2 :: nat) =
   (if nat (max 0 a) = 0 then if nat (max 0 b) = 0 then 3 else 2 else if nat (max 0 b) = 0 then 1
    else if nat (max 0 a) * mb = nat (max 0 b) * ma then 3 else if nat (max 0 a) * mb > nat (max 0 b) * ma then 1 else 2)"
proof (cases "a > 0 \<and> b > 0")
  case True
  then obtain x y where x: "a = int x" "b = int y" "x > 0" "y > 0" by (metis of_nat_0_less_iff pos_int_cases)
  have e: "int x * int mb = int y * int ma \<longleftrightarrow> x * mb = y * ma" "int y * int ma < int x * int mb \<longleftrightarrow> y * ma < x * mb"
    unfolding of_nat_mult [symmetric] by (rule of_nat_eq_iff, rule of_nat_less_iff)
  show ?thesis using x(3,4) by (simp only: x(1,2) e) simp
qed auto

text \<open>The verdict of a fight is a function of the hull points it ends with. Neither side ends
  above its maximum, at most 900 events are recorded, and the result is 3 when both hulls are gone, the
  survivor when one is, and otherwise the side with the larger share of its hull left (3 when they
  are equal).\<close>

theorem scrap_verdict:
  "case (c_hp (simulateBuilds g0 m0 g1 m1), c_maxhp (simulateBuilds g0 m0 g1 m1)) of ((a, b), (ma, mb)) \<Rightarrow>
     a \<le> ma \<and> b \<le> mb \<and> ma = f_maxhp (buildFighterFrom g0 m0) \<and> mb = f_maxhp (buildFighterFrom g1 m1) \<and>
     length (c_ev (simulateBuilds g0 m0 g1 m1)) \<le> 900 \<and>
     c_result (simulateBuilds g0 m0 g1 m1) =
       (if a = 0 then if b = 0 then 3 else 2
        else if b = 0 then 1
        else if a * mb = b * ma then 3 else if a * mb > b * ma then 1 else 2)"
proof -
  let ?s0 = "sim_start g0 m0 g1 m1"
  obtain r s where f: "fight 900 1 ?s0 = (r, s)" by fastforce
  have k: "sim_keeps ?s0 s" using keeps_fight [of ?s0 900 1] by (simp add: f)
  then have m: "f_maxhp (fs s 0) = f_maxhp (buildFighterFrom g0 m0)" "f_maxhp (fs s 1) = f_maxhp (buildFighterFrom g1 m1)"
    and e: "length (evs s) \<le> 900" and h: "f_hp (fs s 0) \<le> int (f_maxhp (fs s 0))" "f_hp (fs s 1) \<le> int (f_maxhp (fs s 1))"
  proof -
    have q: "same_build (fs ?s0 q) (fs s q) \<and> fit_ok (fs s q)" for q
      using k build_ok [of g0 m0] build_ok [of g1 m1] by (auto simp: sim_keeps_def sim_start_def)
    show "f_maxhp (fs s 0) = f_maxhp (buildFighterFrom g0 m0)" "f_maxhp (fs s 1) = f_maxhp (buildFighterFrom g1 m1)"
      using q [of 0] q [of 1] by (simp_all add: same_build_def sim_start_def)
    show "f_hp (fs s 0) \<le> int (f_maxhp (fs s 0))" "f_hp (fs s 1) \<le> int (f_maxhp (fs s 1))"
      using q by (simp_all add: fit_ok_def)
    show "length (evs s) \<le> 900" using k by (simp add: sim_keeps_def sim_start_def)
  qed
  have v: "(if r = 0 then timeout_result s else r) =
      (if f_hp (fs s 0) \<le> 0 then if f_hp (fs s 1) \<le> 0 then 3 else 2 else if f_hp (fs s 1) \<le> 0 then 1
       else if f_hp (fs s 0) * int (f_maxhp (fs s 1)) = f_hp (fs s 1) * int (f_maxhp (fs s 0)) then 3
       else if f_hp (fs s 0) * int (f_maxhp (fs s 1)) > f_hp (fs s 1) * int (f_maxhp (fs s 0)) then 1 else 2)"
    using fight_result [OF f] by (auto simp: knockout_def timeout_result_def Let_def split: if_splits)
  show ?thesis
    using m e h unfolding simulateBuilds_def f prod.case v verdict_nat by (simp add: nat_le_iff)
qed

text \<open>Weapons beyond the sixth slot never fire. A fight scans six slots, so an opponent's build
  fights exactly as it would with every weapon in a later slot removed, as long as no mirror, whose
  reflection counts wherever it is mounted, is among them.\<close>

theorem scrap_spare_hardpoints:
  assumes "\<forall>k < length gr. 6 \<le> k \<longrightarrow> (case gr ! k of None \<Rightarrow> True | Some (x, r) \<Rightarrow> i_spc (ITEMS ! x) \<noteq> 4)"
  shows "simulateBuilds g0 m0 (map (\<lambda>k. if 6 \<le> k \<and> is_weapon (gr ! k) then None else gr ! k) [0..<length gr]) m =
         simulateBuilds g0 m0 gr m"
  using strip_fight [of gr g0 m0 m] assms by (simp add: no_spare_mirror_def strip_spare_def keep_slot_def SC_SLOTS_def)

theorem scrap_spare_hardpoints_witness:
  "simulateBuilds (core_gear 1) 365 [Some (0, 1), None, None, None, None, None, None, None] 220 =
   simulateBuilds (core_gear 1) 365 [Some (0, 1), None, None, None, None, None, Some (29, 9), Some (20, 9)] 220"
proof -
  let ?gr = "[Some (0, 1), None, None, None, None, None, Some (29, 9), Some (20, 9)] :: sc_gear"
  have k: "i_spc (ITEMS ! 29) = 0" "i_spc (ITEMS ! 20) = 2" "is_weapon (Some (29, 9))" "is_weapon (Some (20, 9))"
    by code_simp+
  have "\<forall>k < length ?gr. 6 \<le> k \<longrightarrow> (case ?gr ! k of None \<Rightarrow> True | Some (x, r) \<Rightarrow> i_spc (ITEMS ! x) \<noteq> 4)"
  proof (intro allI impI)
    fix k assume "k < length ?gr" "6 \<le> k"
    then consider "k = 6" | "k = 7" by fastforce
    then show "case ?gr ! k of None \<Rightarrow> True | Some (x, r) \<Rightarrow> i_spc (ITEMS ! x) \<noteq> 4"
      using k by cases simp_all
  qed
  from scrap_spare_hardpoints [OF this, of "core_gear 1" 365 220] k show ?thesis
    by (simp add: upt_conv_Cons)
qed

text \<open>C24: A claim has one length. An accepted claim of score \<open>v\<close> holds exactly \<open>2 v + 6\<close> choices (two
  offers before each of the \<open>v\<close> stages cleared and the three fights lost), so no claim shows more than
  37 stages, and the same words with any other number of choices are rejected.\<close>

theorem scrap_claim_length:
  assumes "sc_verifyClaim H HS day n words anchor addr \<noteq> -1"
  shows "\<exists>v. sc_verifyClaim H HS day n words anchor addr = int v \<and> n = 2 * v + 6 \<and> v \<le> 37 \<and>
           (\<forall>n'. n' \<noteq> n \<longrightarrow> sc_verifyClaim H HS day n' words anchor addr = -1)"
proof -
  let ?s = "soloNew (seedOfDay day anchor addr)" and ?cs = "unpackChoices words"
  have n: "0 < n" "n \<le> MAX_ATT" using assms by (auto simp: sc_verifyClaim_def split: if_splits)
  then obtain run where run: "claim_run H HS (?cs n) ?s = Some run" "r_over' run"
    "sc_verifyClaim H HS day n words anchor addr = int (r_score run)"
    using assms by (auto simp: sc_verifyClaim_def split: if_splits option.splits)
  have len: "length (?cs k) = k" for k by (simp add: unpackChoices_def)
  have "run_ok run" "r_offerN run = n"
    using claim_run_ok [OF run(1) run_ok_new] by (simp_all add: len soloNew_def)
  then have v: "n = 2 * r_score run + 6" using run(2) by (simp add: run_ok_def)
  have other: "sc_verifyClaim H HS day n' words anchor addr = -1" if "n' \<noteq> n" for n'
  proof (rule ccontr)
    assume a: "sc_verifyClaim H HS day n' words anchor addr \<noteq> -1"
    then obtain run' where run': "claim_run H HS (?cs n') ?s = Some run'" "r_over' run'"
      by (auto simp: sc_verifyClaim_def split: if_splits option.splits)
    note ne = that
    have prefix: "\<exists>zs. zs \<noteq> [] \<and> ?cs j = ?cs i @ zs" if "i < j" for i j
      using that unpackChoices_take [of i j words] by (intro exI [of _ "drop i (?cs j)"]) (simp add: len)
    consider "n' < n" | "n < n'" using ne by linarith
    then show False
    proof cases
      case 1
      then obtain zs where "zs \<noteq> []" "?cs n = ?cs n' @ zs" using prefix by blast
      then show False using run(1) run' by (simp add: claim_run_append claim_over)
    next
      case 2
      then obtain zs where "zs \<noteq> []" "?cs n' = ?cs n @ zs" using prefix by blast
      then show False using run run' by (simp add: claim_run_append claim_over)
    qed
  qed
  have "r_score run \<le> 37" using n v by (simp add: MAX_ATT_def ATT_PER_WORD_def MAX_WORDS_def)
  then show ?thesis using run(3) v other by blast
qed

lemma sample_words: "unpackChoices [0] 6 = [0, 0, 0, 0, 0, 0]"
  by code_simp

theorem scrap_claim_length_witness:
  "sc_verifyClaim sample_scrap (\<lambda>_. 0) 1 6 [0] [] [] = 0 \<and> sc_verifyClaim sample_scrap (\<lambda>_. 0) 1 8 [0] [] [] = -1"
proof -
  obtain run where "claim_run sample_scrap (\<lambda>_. 0) [0, 0, 0, 0, 0, 0] (soloNew (seedOfDay 1 [] [])) = Some run"
    "r_over' run" "r_score run = 0"
    using sample_claim by blast
  then have v: "sc_verifyClaim sample_scrap (\<lambda>_. 0) 1 6 [0] [] [] = 0"
    by (simp add: sc_verifyClaim_def sample_words MAX_ATT_def ATT_PER_WORD_def MAX_WORDS_def del: claim_run.simps)
  then show ?thesis using scrap_claim_length [of sample_scrap "\<lambda>_. 0" 1 6 "[0]" "[]" "[]"] by simp
qed

text \<open>C25: Honest runs verify. Whatever picks, scraps and fights a player makes from the seed of the
  day, in any order and with refused ones in between, once the run is over and has at most 80
  choices, the claim made from its recorded choices is accepted with the score the player saw.\<close>

theorem scrap_honest_claim:
  assumes "run = fold (sc_act H HS) acts (soloNew (seedOfDay day anchor addr))"
    and "r_over' run" "length (r_choices run) \<le> MAX_ATT"
  shows "sc_verifyClaim H HS day (length (r_choices run)) (packChoices (r_choices run)) anchor addr = int (r_score run)"
proof -
  let ?s = "soloNew (seedOfDay day anchor addr)"
  have "sc_recorded H HS ?s run" unfolding assms(1) by (rule sc_recorded_fold [OF sc_recorded_new])
  then have rec: "claim_run H HS (r_choices run) ?s = Some run" "\<forall>a \<in> set (r_choices run). a < 32"
    using assms(2) by (auto simp: sc_recorded_def soloFight_def)
  have "run_ok run" "r_offerN run = length (r_choices run)"
    using claim_run_ok [OF rec(1) run_ok_new] by (simp_all add: soloNew_def)
  then have "length (r_choices run) > 0" using assms(2) by (auto simp: run_ok_def)
  then show ?thesis
    using rec(1) assms(2,3) choices_codec [OF assms(3) rec(2)] by (simp add: sc_verifyClaim_def)
qed

lemma sample_acts:
  "claim_step H HS 0 run = Some run' \<Longrightarrow> fold (sc_act H HS) [Choose 0 0, Fight] run = run'"
  by (auto simp: claim_step_def Let_def split: if_splits prod.splits)

theorem scrap_honest_claim_witness:
  "\<exists>acts run. run = fold (sc_act sample_scrap (\<lambda>_. 0)) acts (soloNew (seedOfDay 1 [] [])) \<and> r_over' run \<and>
     sc_verifyClaim sample_scrap (\<lambda>_. 0) 1 (length (r_choices run)) (packChoices (r_choices run)) [] [] = 0"
proof -
  let ?a = "[Choose 0 0, Fight]"
  obtain run where r: "claim_run sample_scrap (\<lambda>_. 0) [0, 0, 0, 0, 0, 0] (soloNew (seedOfDay 1 [] [])) = Some run"
    "r_over' run" "r_score run = 0"
    using sample_claim by blast
  have all: "claim_run H HS (replicate n 0) s = Some s' \<Longrightarrow> fold (sc_act H HS) (concat (replicate n ?a)) s = s'" for H HS n s s'
  proof (induction n arbitrary: s)
    case (Suc n)
    obtain s1 where s1: "claim_step H HS 0 s = Some s1" "claim_run H HS (replicate n 0) s1 = Some s'"
      using Suc.prems by (auto split: option.splits)
    from Suc.IH [OF s1(2)] sample_acts [OF s1(1)] show ?case by simp
  qed simp
  have n: "replicate 6 (0 :: nat) = [0, 0, 0, 0, 0, 0]" by (simp add: numeral_eq_Suc)
  have f: "run = fold (sc_act sample_scrap (\<lambda>_. 0)) (concat (replicate 6 ?a)) (soloNew (seedOfDay 1 [] []))"
    by (rule sym, rule all) (use r(1) in \<open>simp only: n\<close>)
  have "sc_recorded sample_scrap (\<lambda>_. 0) (soloNew (seedOfDay 1 [] [])) run" unfolding f by (rule sc_recorded_fold [OF sc_recorded_new])
  then have "length (r_choices run) = r_offerN run"
    using claim_run_ok [OF _ run_ok_new, of sample_scrap "\<lambda>_. 0" "r_choices run" "seedOfDay 1 [] []" run] r(2)
    by (auto simp: sc_recorded_def soloFight_def soloNew_def)
  also have "\<dots> = 6" using claim_run_ok [OF r(1) run_ok_new] by (simp add: soloNew_def)
  finally have "length (r_choices run) \<le> MAX_ATT" by (simp add: MAX_ATT_def ATT_PER_WORD_def MAX_WORDS_def)
  from scrap_honest_claim [OF f r(2) this] f r(2,3) show ?thesis by auto
qed

end
