(* ===== verification/AutoRules.thy ===== *)
theory AutoRules
  imports Prelude
begin

text \<open>
  The constants of the march (\<^verbatim>\<open>static/autogame-rules.js\<close>, emitted from the contract). Display
  names and the table of actions a tile answers to, which only the interface reads, are left out.
  Tile classes, actions, stances, affixes and weapon classes are the numbers the contract uses.
\<close>

named_theorems ag_consts \<open>the constants of the march\<close>

definition LEG :: nat where [ag_consts]: "LEG = 16"
definition MAX_LEGS_PER_CALL :: nat where [ag_consts]: "MAX_LEGS_PER_CALL = 1"
definition CHAPTER :: nat where [ag_consts]: "CHAPTER = 512"
definition START_GAP :: nat where [ag_consts]: "START_GAP = 2"
definition HORIZON :: nat where [ag_consts]: "HORIZON = 18000"
definition HP0 :: nat where [ag_consts]: "HP0 = 100"
definition STAM_MAX :: nat where [ag_consts]: "STAM_MAX = 12"
definition AGG_MAX :: nat where [ag_consts]: "AGG_MAX = 16"
definition REGEN_DIV :: nat where [ag_consts]: "REGEN_DIV = 20"
definition REGEN_CAP_DIV :: nat where [ag_consts]: "REGEN_CAP_DIV = 8"
definition BOSS_EVERY :: nat where [ag_consts]: "BOSS_EVERY = 128"
definition TIER_EVERY :: nat where [ag_consts]: "TIER_EVERY = 32"
definition NIGHT_EVERY :: nat where [ag_consts]: "NIGHT_EVERY = 64"
definition LEVEL_CAP :: nat where [ag_consts]: "LEVEL_CAP = 8"
definition LIFESTEAL_DIV :: nat where [ag_consts]: "LIFESTEAL_DIV = 4"
definition HORDE_DIV :: nat where [ag_consts]: "HORDE_DIV = 4"
definition STREAK_DIV :: nat where [ag_consts]: "STREAK_DIV = 4"
definition DEATH_KEEP :: nat where [ag_consts]: "DEATH_KEEP = 25"
definition COMPLETE_BONUS :: nat where [ag_consts]: "COMPLETE_BONUS = 200000"
definition POTIONS0 :: nat where [ag_consts]: "POTIONS0 = 3"
definition POTION_CAP :: nat where [ag_consts]: "POTION_CAP = 5"
definition POTION_PRICE :: nat where [ag_consts]: "POTION_PRICE = 10"
definition HEAL_BASE :: nat where [ag_consts]: "HEAL_BASE = 20"
definition SHRINE_BASE :: nat where [ag_consts]: "SHRINE_BASE = 10"
definition RALLY_BASE :: nat where [ag_consts]: "RALLY_BASE = 4"
definition NSLOT :: nat where [ag_consts]: "NSLOT = 6"
definition TILE_CUTS :: "nat list" where [ag_consts]: "TILE_CUTS = [18, 36, 43, 50, 55, 57, 62, 64, 65, 68, 70, 74, 77, 79, 81, 83, 86, 88, 90, 92, 94, 97, 99]"
definition NTILE :: nat where [ag_consts]: "NTILE = 25"
definition ROAD :: nat where [ag_consts]: "ROAD = 0"
definition MONSTER :: nat where [ag_consts]: "MONSTER = 1"
definition HORDE :: nat where [ag_consts]: "HORDE = 2"
definition ELITE :: nat where [ag_consts]: "ELITE = 3"
definition AMBUSH :: nat where [ag_consts]: "AMBUSH = 4"
definition MIMIC :: nat where [ag_consts]: "MIMIC = 5"
definition HAZARD :: nat where [ag_consts]: "HAZARD = 6"
definition SNARE :: nat where [ag_consts]: "SNARE = 7"
definition QUAG :: nat where [ag_consts]: "QUAG = 8"
definition GALE :: nat where [ag_consts]: "GALE = 9"
definition TOLLGATE :: nat where [ag_consts]: "TOLLGATE = 10"
definition CACHE :: nat where [ag_consts]: "CACHE = 11"
definition BARROW :: nat where [ag_consts]: "BARROW = 12"
definition ARMORY :: nat where [ag_consts]: "ARMORY = 13"
definition VEIN :: nat where [ag_consts]: "VEIN = 14"
definition GROVE :: nat where [ag_consts]: "GROVE = 15"
definition SHRINE :: nat where [ag_consts]: "SHRINE = 16"
definition WELL :: nat where [ag_consts]: "WELL = 17"
definition CAMP :: nat where [ag_consts]: "CAMP = 18"
definition IDOL :: nat where [ag_consts]: "IDOL = 19"
definition PYRE :: nat where [ag_consts]: "PYRE = 20"
definition FORGE :: nat where [ag_consts]: "FORGE = 21"
definition FORK :: nat where [ag_consts]: "FORK = 22"
definition RELIC :: nat where [ag_consts]: "RELIC = 23"
definition BOSS :: nat where [ag_consts]: "BOSS = 24"
definition A_DEFAULT :: nat where [ag_consts]: "A_DEFAULT = 0"
definition A_STRIKE :: nat where [ag_consts]: "A_STRIKE = 1"
definition A_GUARD :: nat where [ag_consts]: "A_GUARD = 2"
definition A_DODGE :: nat where [ag_consts]: "A_DODGE = 3"
definition A_POTION :: nat where [ag_consts]: "A_POTION = 4"
definition A_SPRINT :: nat where [ag_consts]: "A_SPRINT = 5"
definition A_REST :: nat where [ag_consts]: "A_REST = 6"
definition A_RIGHT :: nat where [ag_consts]: "A_RIGHT = 7"
definition A_RALLY :: nat where [ag_consts]: "A_RALLY = 7"
definition COST :: "nat list" where [ag_consts]: "COST = [0, 2, 2, 2, 0, 3, 0, 3]"
definition ST_BALANCED :: nat where [ag_consts]: "ST_BALANCED = 0"
definition ST_AGGRESSIVE :: nat where [ag_consts]: "ST_AGGRESSIVE = 1"
definition ST_GUARDED :: nat where [ag_consts]: "ST_GUARDED = 2"
definition ST_EVASIVE :: nat where [ag_consts]: "ST_EVASIVE = 3"
definition STANCES :: "(nat \<times> nat \<times> nat \<times> nat) list" where [ag_consts]: "STANCES = [(4, 4, 1, 12), (5, 6, 2, 20), (3, 4, 0, 0), (4, 4, 1, 16)]"
definition FAM_ATK :: "(nat \<times> nat) list" where [ag_consts]: "FAM_ATK = [(1, 1), (3, 3), (2, 2)]"
definition FAM_XP :: "(nat \<times> nat) list" where [ag_consts]: "FAM_XP = [(0, 1), (0, 3), (0, 5)]"
definition SHARPEN_COST :: "nat list" where [ag_consts]: "SHARPEN_COST = [2, 0, 1]"
definition REINFORCE_COST :: "nat list" where [ag_consts]: "REINFORCE_COST = [1, 2, 0]"
definition DEF_DIV :: "nat list" where [ag_consts]: "DEF_DIV = [1, 4, 2, 3, 4, 4]"
definition G_WEAPON :: nat where [ag_consts]: "G_WEAPON = 0"
definition G_HELM :: nat where [ag_consts]: "G_HELM = 1"
definition G_BODY :: nat where [ag_consts]: "G_BODY = 2"
definition G_SHIELD :: nat where [ag_consts]: "G_SHIELD = 3"
definition G_BOOTS :: nat where [ag_consts]: "G_BOOTS = 4"
definition G_CLOAK :: nat where [ag_consts]: "G_CLOAK = 5"
definition AF_NONE :: nat where [ag_consts]: "AF_NONE = 0"
definition AF_KEEN :: nat where [ag_consts]: "AF_KEEN = 1"
definition AF_HEAVY :: nat where [ag_consts]: "AF_HEAVY = 2"
definition AF_WARD :: nat where [ag_consts]: "AF_WARD = 3"
definition AF_SWIFT :: nat where [ag_consts]: "AF_SWIFT = 4"
definition AF_VAMP :: nat where [ag_consts]: "AF_VAMP = 5"
definition AF_BLAZE :: nat where [ag_consts]: "AF_BLAZE = 6"
definition AF_HALLOW :: nat where [ag_consts]: "AF_HALLOW = 7"
definition KEEN_BONUS :: nat where [ag_consts]: "KEEN_BONUS = 6"
definition SWIFT_BONUS :: nat where [ag_consts]: "SWIFT_BONUS = 2"
definition JACKPOT_EVERY :: nat where [ag_consts]: "JACKPOT_EVERY = 32"
definition W_SWORD :: nat where [ag_consts]: "W_SWORD = 0"
definition W_AXE :: nat where [ag_consts]: "W_AXE = 1"
definition W_MAUL :: nat where [ag_consts]: "W_MAUL = 2"
definition W_SPEAR :: nat where [ag_consts]: "W_SPEAR = 3"
definition NWKIND :: nat where [ag_consts]: "NWKIND = 4"
definition RANKS :: "(nat \<times> string) list" where [ag_consts]: "RANKS = [(60, ''peasant''), (300, ''commoner''), (1000, ''porter''), (3000, ''apprentice''),
   (8000, ''journeyman''), (20000, ''sellsword''), (45000, ''freerider''), (80000, ''veteran''),
   (130000, ''knight''), (190000, ''banneret''), (260000, ''champion''), (330000, ''warlord''),
   (400000, ''baron''), (480000, ''margrave''), (560000, ''duke''), (650000, ''prince''),
   (780000, ''king''), (900000, ''emperor''), (1050000, ''demigod''), (1099511627776, ''creator'')]"

end
