(* ===== verification/AutoEngine.thy ===== *)
theory AutoEngine
  imports AutoRules
begin

text \<open>
  The march engine (\<^verbatim>\<open>static/autogame-engine.js\<close>): items, the run record, derived
  stats, the derivation of the world from hash words, and the effects that change a run. Every
  division of the source is a floor division of non-negative numbers and every subtraction that can
  go negative is \<open>csub\<close>, so all numbers are natural numbers; flags are truth values. The field
  hash \<^verbatim>\<open>algHashn\<close>, which the source takes as an argument, is the parameter \<open>A\<close>.
\<close>

declare One_nat_def [simp del]

section \<open>Integer helpers and items\<close>

definition csub :: "nat \<Rightarrow> nat \<Rightarrow> nat" where "csub a b = (if a > b then a - b else 0)"

lemma csub_minus [simp]: "csub a b = a - b"
  by (simp add: csub_def)

record ag_item =
  it_kind :: nat
  it_tier :: int
  it_mat :: nat
  it_affix :: nat

definition unpackItem :: "nat \<Rightarrow> ag_item" where
  "unpackItem v =
     (if v = 0 then \<lparr>it_kind = 0, it_tier = -1, it_mat = 0, it_affix = 0\<rparr>
      else (let body = v - 1
            in \<lparr>it_kind = body div 512 mod 4, it_tier = int (body div 64 mod 8), it_mat = body div 8 mod 8,
                it_affix = body mod 8\<rparr>))"

definition packItem :: "nat \<Rightarrow> nat \<Rightarrow> nat \<Rightarrow> nat \<Rightarrow> nat" where
  "packItem tier mt affix kind = 1 + kind * 512 + tier * 64 + mt * 8 + affix"

definition power :: "nat \<Rightarrow> nat" where
  "power v = (if v = 0 then 0 else (let it = unpackItem v in nat (it_tier it * 4 + int (it_mat it))))"

section \<open>The run\<close>

record ag_run =
  a_hp :: nat
  a_maxhp :: nat
  a_stam :: nat
  a_potions :: nat
  a_xp :: nat
  a_banked :: nat
  a_streak :: nat
  a_depth :: nat
  a_kills :: nat
  a_stance :: nat
  a_healpct :: nat
  a_focus :: nat
  a_wlevel :: nat
  a_alevel :: nat
  a_mats :: "nat list"
  a_gear :: "nat list"
  a_agg :: nat
  a_gale :: nat
  a_pyre :: nat
  a_alive :: bool
  a_done :: bool
  a_retired :: bool
  a_mists :: bool

text \<open>\<open>None\<close> is an option the caller leaves out.\<close>

definition dflt :: "'a option \<Rightarrow> 'a \<Rightarrow> 'a" where
  "dflt x d = (case x of None \<Rightarrow> d | Some v \<Rightarrow> v)"

definition newRun :: "nat option \<Rightarrow> nat option \<Rightarrow> nat option \<Rightarrow> ag_run" where
  "newRun st hl fo =
     \<lparr>a_hp = HP0, a_maxhp = HP0, a_stam = STAM_MAX, a_potions = POTIONS0, a_xp = 0, a_banked = 0, a_streak = 0,
      a_depth = 0, a_kills = 0, a_stance = dflt st ST_BALANCED, a_healpct = dflt hl 35, a_focus = dflt fo 50,
      a_wlevel = 1, a_alevel = 1, a_mats = [0, 0, 0], a_gear = replicate NSLOT 0, a_agg = 1, a_gale = 0, a_pyre = 0,
      a_alive = True, a_done = False, a_retired = False, a_mists = False\<rparr>"

text \<open>A run read from the contract's storage \<open>m\<close> has the fields of the order generations too.\<close>

record ag_stored = ag_run +
  a_polh :: nat
  a_prevAgg :: nat
  a_polph :: nat
  a_prevStance :: nat
  a_prevFocus :: nat
  a_prevHealpct :: nat
  a_lh :: nat
  a_nh :: nat
  a_leg :: nat
  a_owner :: "string option"

definition runFromStorage :: "(string \<Rightarrow> nat) \<Rightarrow> string option \<Rightarrow> ag_stored" where
  "runFromStorage m ra =
     \<lparr>a_hp = m ''hp'', a_maxhp = m ''mx'', a_stam = m ''st'', a_potions = m ''po'', a_xp = m ''xp'',
      a_banked = m ''bk'', a_streak = m ''sk'', a_depth = m ''dp'', a_kills = m ''ki'', a_stance = m ''sn'',
      a_healpct = m ''hl'', a_focus = m ''fo'', a_wlevel = m ''wl'', a_alevel = m ''al'',
      a_mats = [m ''m0'', m ''m1'', m ''m2''],
      a_gear = [m ''g0'', m ''g1'', m ''g2'', m ''g3'', m ''g4'', m ''g5''],
      a_agg = max 1 (m ''pa''), a_gale = m ''gl'', a_pyre = m ''py'', a_alive = m ''lv'' \<noteq> 0, a_done = m ''dn'' \<noteq> 0,
      a_retired = m ''rt'' \<noteq> 0, a_mists = m ''mi'' \<noteq> 0,
      a_polh = m ''ph'', a_prevAgg = max 1 (m ''qa''), a_polph = m ''qh'', a_prevStance = m ''qs'',
      a_prevFocus = m ''qf'', a_prevHealpct = m ''ql'', a_lh = m ''lh'', a_nh = m ''nh'', a_leg = m ''lg'',
      a_owner = ra\<rparr>"

definition weaponKind :: "('a) ag_run_scheme \<Rightarrow> nat" where
  "weaponKind run = it_kind (unpackItem (a_gear run ! G_WEAPON))"

definition hasAffix :: "('a) ag_run_scheme \<Rightarrow> nat \<Rightarrow> nat" where
  "hasAffix run a = (if \<exists>g \<in> set (a_gear run). g \<noteq> 0 \<and> it_affix (unpackItem g) = a then 1 else 0)"

section \<open>Derived stats\<close>

definition weaponPower :: "('a) ag_run_scheme \<Rightarrow> nat" where
  "weaponPower run = 2 * a_wlevel run + power (a_gear run ! G_WEAPON)"

definition armorPower :: "('a) ag_run_scheme \<Rightarrow> nat" where
  "armorPower run = fold (\<lambda>s d. d + power (a_gear run ! s) div (DEF_DIV ! s)) [1..<NSLOT] (4 + 3 * a_alevel run)"

text \<open>A focus is a percentage, at most 100.\<close>

definition weaponPts :: "('a) ag_run_scheme \<Rightarrow> nat option \<Rightarrow> nat" where
  "weaponPts run fo = weaponPower run * dflt fo (a_focus run) div 100"

definition armorPts :: "('a) ag_run_scheme \<Rightarrow> nat option \<Rightarrow> nat" where
  "armorPts run fo = armorPower run * (100 - dflt fo (a_focus run)) div 100"

definition ag_score :: "('a) ag_run_scheme \<Rightarrow> nat" where
  "ag_score run =
     (let risk = csub (a_xp run) (a_banked run);
          standing = a_alive run \<or> a_done run \<or> a_retired run \<or> a_mists run;
          total = a_banked run + (if standing then risk else risk * DEATH_KEEP div 100)
      in if a_done run then total + COMPLETE_BONUS
         else if a_retired run then total + COMPLETE_BONUS * a_depth run div CHAPTER
         else total)"

definition ag_rankOf :: "nat \<Rightarrow> string" where
  "ag_rankOf xp = (case find (\<lambda>(t, n). xp < t) RANKS of None \<Rightarrow> ''creator'' | Some (t, n) \<Rightarrow> n)"

section \<open>World derivation\<close>

record ag_tile =
  tw_a :: nat
  tw_b :: nat
  tw_c :: nat
  tw_scen :: nat

definition sliceTile :: "nat \<Rightarrow> ag_tile" where
  "sliceTile tw = \<lparr>tw_a = tw mod 100, tw_b = tw div 100 mod 64, tw_c = tw div 6400 mod 64, tw_scen = tw div 409600 mod 8192\<rparr>"

definition sliceRoll :: "nat \<Rightarrow> nat \<times> nat \<times> nat" where
  "sliceRoll rw = (rw mod 100, rw div 100 mod 64, rw div 6400 mod 64)"

definition tierOf :: "nat \<Rightarrow> nat" where "tierOf depth = depth div TIER_EVERY"
definition isNight :: "nat \<Rightarrow> bool" where "isNight depth \<longleftrightarrow> depth div NIGHT_EVERY mod 2 = 1"

definition BIOMES :: nat where "BIOMES = 5"

definition biomeFor :: "(nat list \<Rightarrow> nat) \<Rightarrow> nat \<Rightarrow> nat \<Rightarrow> nat \<Rightarrow> nat" where
  "biomeFor A tileHash runId depth =
     (let stage = min (BIOMES - 1) (depth * BIOMES div CHAPTER);
          w = A [tileHash, runId, 4096 + depth div LEG] mod 2 ^ 32;
          b = int stage + int (w mod 3) - 1
      in nat (max 0 (min (int BIOMES - 1) b)))"

definition tileOf :: "nat \<Rightarrow> nat \<Rightarrow> nat" where
  "tileOf a depth =
     (if depth > 0 \<and> depth mod BOSS_EVERY = 0 then BOSS
      else fold (\<lambda>cut k. if a \<ge> cut then k + 1 else k) TILE_CUTS 0)"

definition monsterLevel :: "nat \<Rightarrow> nat \<Rightarrow> nat" where
  "monsterLevel tile depth =
     (let ml0 = 1 + tierOf depth;
          ml1 = (if tile = ELITE \<or> tile = MIMIC then ml0 + 2 else if tile = BOSS then ml0 + 4 else ml0);
          ml2 = (if isNight depth then ml1 + 1 else ml1)
      in if tile = HORDE then max 1 (ml2 - 2) else ml2)"

definition rollItem :: "nat \<Rightarrow> nat \<Rightarrow> nat \<Rightarrow> nat \<Rightarrow> nat" where
  "rollItem c z depth bonus =
     (let tier = (if c mod JACKPOT_EVERY = 0 then 7 else min 7 (tierOf depth + c mod 3 + bonus));
          mt = c div 8 mod 8;
          affix = (if z mod 4 = 0 then 1 + z div 4 mod 7 else 0);
          kind = (c + z) mod 4
      in packItem tier mt affix kind)"

section \<open>Loot, flasks, the forge\<close>

definition add_mat :: "nat \<Rightarrow> nat \<Rightarrow> ag_run \<Rightarrow> ag_run" where
  "add_mat i n run = run\<lparr>a_mats := (a_mats run)[i := a_mats run ! i + n]\<rparr>"

definition sub_mat :: "nat \<Rightarrow> nat \<Rightarrow> ag_run \<Rightarrow> ag_run" where
  "sub_mat i n run = run\<lparr>a_mats := (a_mats run)[i := a_mats run ! i - n]\<rparr>"

definition heal :: "nat \<Rightarrow> ag_run \<Rightarrow> ag_run" where
  "heal n run = run\<lparr>a_hp := min (a_maxhp run) (a_hp run + n)\<rparr>"

definition harm :: "nat \<Rightarrow> ag_run \<Rightarrow> ag_run" where
  "harm n run = run\<lparr>a_hp := csub (a_hp run) n\<rparr>"

text \<open>Better gear is equipped and the old piece melted, worse gear is melted.\<close>

definition takeItemAt :: "nat \<Rightarrow> nat \<Rightarrow> ag_run \<Rightarrow> ag_run" where
  "takeItemAt slot item run =
     (let nw = power item; old = power (a_gear run ! slot)
      in if nw > old then add_mat 0 (1 + old div 8) (run\<lparr>a_gear := (a_gear run)[slot := item]\<rparr>)
         else add_mat 0 (1 + nw div 8) run)"

text \<open>The truth value tells whether there was a flask to drink.\<close>

definition drink :: "ag_run \<Rightarrow> bool \<times> ag_run" where
  "drink run =
     (if a_potions run = 0 then (False, run)
      else (let r1 = heal (HEAL_BASE + 4 * tierOf (a_depth run)) (run\<lparr>a_potions := a_potions run - 1\<rparr>)
            in (True, if hasAffix run AF_HALLOW = 0 then r1\<lparr>a_streak := 0\<rparr> else r1)))"

definition tryCraft :: "nat option \<Rightarrow> ag_run \<Rightarrow> nat \<times> ag_run" where
  "tryCraft fo run =
     (let f = dflt fo (a_focus run); s = a_mats run ! 0; h = a_mats run ! 1; e = a_mats run ! 2;
          wantW = (a_wlevel run < LEVEL_CAP \<and> s \<ge> SHARPEN_COST ! 0 \<and> e \<ge> SHARPEN_COST ! 2);
          wantA = (a_alevel run < LEVEL_CAP \<and> s \<ge> REINFORCE_COST ! 0 \<and> h \<ge> REINFORCE_COST ! 1)
      in if wantW \<and> (f \<ge> 50 \<or> \<not> wantA)
         then (1, (sub_mat 2 (SHARPEN_COST ! 2) (sub_mat 0 (SHARPEN_COST ! 0) run))\<lparr>a_wlevel := a_wlevel run + 1\<rparr>)
         else if wantA
         then (2, (sub_mat 1 (REINFORCE_COST ! 1) (sub_mat 0 (REINFORCE_COST ! 0) run))\<lparr>a_alevel := a_alevel run + 1\<rparr>)
         else (0, run))"

end
