(* ===== verification/AutoStep.thy ===== *)
theory AutoStep
  imports AutoEngine
begin

unbundle bit_operations_syntax

text \<open>
  One step of the march and the legs built from it (\<^verbatim>\<open>fight\<close>, \<^verbatim>\<open>step\<close>,
  \<^verbatim>\<open>playLeg\<close> and the road ahead of \<^verbatim>\<open>static/autogame-engine.js\<close>). An event is the object a
  step returns for the animator: a map from field names to numbers, truth values being 0 and 1.
\<close>

declare One_nat_def [simp del]

type_synonym ag_ev = "string \<rightharpoonup> int"

definition put_ev :: "string \<Rightarrow> nat \<Rightarrow> ag_ev \<Rightarrow> ag_ev" where "put_ev k n ev = ev(k \<mapsto> int n)"

definition put_evs :: "(string \<times> nat) list \<Rightarrow> ag_ev \<Rightarrow> ag_ev" where
  "put_evs kvs ev = fold (\<lambda>(k, n). put_ev k n) kvs ev"

section \<open>The engagement\<close>

definition fight_foes :: "nat \<Rightarrow> nat \<Rightarrow> nat \<Rightarrow> nat" where
  "fight_foes tile act agg =
     (if tile = BOSS \<or> tile = MIMIC then 1
      else if tile = HORDE then (if act = A_DODGE then agg else min AGG_MAX (agg * 2))
      else agg)"

text \<open>The swing of one foe: family and level, then stance, reaction and variance.\<close>

definition fight_swing :: "nat \<Rightarrow> nat \<Rightarrow> nat \<Rightarrow> nat \<Rightarrow> nat \<Rightarrow> nat \<Rightarrow> nat" where
  "fight_swing tile ml b x act dmgNum =
     (let fam = b mod 3; bv = b div 3;
          atk0 = fst (FAM_ATK ! fam) + snd (FAM_ATK ! fam) * ml + bv mod 4;
          atk1 = (if tile = BOSS then atk0 * 4 else if tile = MIMIC then atk0 * 2 else atk0);
          atk2 = atk1 * dmgNum div 4;
          atk3 = (if act = A_STRIKE then atk2 * 5 div 4 else atk2)
      in atk3 * (100 + x mod 21 - 10) div 100)"

definition fight_renown_each :: "nat \<Rightarrow> nat \<Rightarrow> nat \<Rightarrow> nat" where
  "fight_renown_each tile ml b =
     (let fam = b mod 3; each = fst (FAM_XP ! fam) + snd (FAM_XP ! fam) * ml
      in if tile = BOSS then each * 12 else if tile = MIMIC then each * 4 else each)"

text \<open>A guard takes half the swing of up to two foes, armour absorbs, and a horde always draws blood.\<close>

definition fight_damage :: "ag_run \<Rightarrow> nat option \<Rightarrow> nat \<Rightarrow> nat \<Rightarrow> nat \<Rightarrow> nat" where
  "fight_damage run fo act foes swing =
     (let absorb = armorPts run fo * (if hasAffix run AF_HEAVY \<noteq> 0 then foes else 1);
          total = foes * swing;
          total' = (if act = A_GUARD then csub total (min foes 2 * (swing div 2)) else total);
          dmg = csub total' absorb
      in if dmg < foes then foes else dmg)"

text \<open>The renown of an engagement before its riders; bloodlust reads the hull going in.\<close>

definition fight_renown :: "ag_run \<Rightarrow> nat \<Rightarrow> nat \<Rightarrow> nat \<Rightarrow> nat \<Rightarrow> nat \<Rightarrow> nat" where
  "fight_renown run wp foes each expNum act =
     (let b0 = foes * each * (HORDE_DIV + foes) div HORDE_DIV;
          b1 = b0 * (8 + wp) div 8;
          b2 = b1 + wp * a_kills run div 64;
          b3 = b2 * expNum div 4;
          b4 = (if act = A_STRIKE then b3 * 5 div 4 else b3);
          bl = a_maxhp run + 4 * csub (a_maxhp run) (a_hp run)
      in b4 * bl div a_maxhp run)"

definition fight_riders :: "ag_run \<Rightarrow> nat \<Rightarrow> nat \<times> nat \<Rightarrow> nat \<times> nat" where
  "fight_riders run tile gd =
     (let g0 = fst gd; d0 = snd gd;
          g1 = (if tile = AMBUSH then g0 * 5 div 4 else g0);
          (g2, d2) = (if a_gale run > 0 then (g1 * 5 div 4, d0 * 5 div 4) else (g1, d0));
          g3 = (if a_pyre run > 0 then g2 * 5 div 4 else g2)
      in (g3, d2))"

definition weapon_class :: "nat \<Rightarrow> nat \<Rightarrow> nat \<Rightarrow> nat \<times> nat \<Rightarrow> nat \<times> nat" where
  "weapon_class wk tile foes gd =
     (let gain = fst gd; dmg = snd gd
      in if wk = W_AXE then (gain * 5 div 4, dmg * 5 div 4)
         else if wk = W_MAUL
         then (if tile = BOSS \<or> tile = ELITE \<or> tile = MIMIC then (gain * 3 div 2, dmg)
               else if foes > 1 then (gain * 3 div 4, dmg) else (gain, dmg))
         else if wk = W_SPEAR then (if foes > 1 then (gain, dmg * 3 div 4) else (gain * 3 div 4, dmg))
         else (gain, dmg))"

text \<open>Regeneration, lifesteal and damage, then the clamp of an easy win; the flag is the easy win.\<close>

definition fight_hp :: "ag_run \<Rightarrow> nat \<Rightarrow> nat \<Rightarrow> nat \<Rightarrow> nat \<Rightarrow> nat \<times> bool" where
  "fight_hp run before drain dmg y =
     (let regen = min (a_maxhp run div REGEN_CAP_DIV) (a_xp run div REGEN_DIV);
          hp1 = csub (csub (before + regen + drain) dmg) (y mod 2)
      in if hp1 \<ge> before then (csub before (y mod 2), True) else (hp1, False))"

definition fight_loot :: "nat \<Rightarrow> nat \<Rightarrow> nat \<Rightarrow> ag_run \<times> ag_ev \<Rightarrow> ag_run \<times> ag_ev" where
  "fight_loot tile b z re =
     (let run = fst re; ev = snd re
      in if tile = BOSS \<or> tile = ELITE \<or> tile = MIMIC \<or> z mod 4 = 0 \<or> hasAffix run AF_BLAZE \<noteq> 0
         then (let bonus = (if tile = BOSS \<or> tile = MIMIC then 2 else if tile = ELITE then 1 else 0);
                   item = rollItem ((b + z) mod 64) z (a_depth run) bonus; slot = z mod NSLOT
               in (takeItemAt slot item run, put_evs [(''item'', item), (''slot'', slot)] ev))
         else re)"

text \<open>The checkpoint of a boss.\<close>

definition checkpoint :: "ag_run \<times> ag_ev \<Rightarrow> ag_run \<times> ag_ev" where
  "checkpoint re =
     (let run = fst re
      in (run\<lparr>a_banked := a_xp run, a_maxhp := a_maxhp run + 10, a_potions := min POTION_CAP (a_potions run + 1)\<rparr>,
          put_ev ''banked'' (a_xp run) (snd re)))"

definition ag_fight :: "nat \<Rightarrow> nat \<Rightarrow> nat \<Rightarrow> nat \<Rightarrow> nat \<Rightarrow> nat \<Rightarrow> nat \<Rightarrow> nat option \<Rightarrow> nat option \<Rightarrow> ag_run \<times> ag_ev \<Rightarrow> ag_run \<times> ag_ev" where
  "ag_fight tile b x y z agg act st fo re =
     (let run = fst re; ml = monsterLevel tile (a_depth run); fam = b mod 3;
          foes = fight_foes tile act agg;
          (dmgNum, expNum, streakGain, streakCap) = STANCES ! dflt st (a_stance run);
          before = a_hp run; wp = weaponPts run fo;
          dmg0 = fight_damage run fo act foes (fight_swing tile ml b x act dmgNum);
          gain0 = fight_renown run wp foes (fight_renown_each tile ml b) expNum act;
          (gain1, dmg) = weapon_class (weaponKind run) tile foes (fight_riders run tile (gain0, dmg0));
          streak = min (streakCap + KEEN_BONUS * hasAffix run AF_KEEN) (a_streak run);
          gain2 = gain1 * (STREAK_DIV + streak) div STREAK_DIV;
          gain = (if act = A_POTION then 0 else gain2);
          r1 = run\<lparr>a_streak := (if act = A_GUARD then a_streak run else a_streak run + streakGain),
                   a_kills := a_kills run + foes, a_xp := a_xp run + gain\<rparr>;
          ev1 = put_evs [(''ml'', ml), (''fam'', fam), (''foes'', foes), (''dmg'', dmg), (''gain'', gain),
                         (''streak'', a_streak r1)] (snd re);
          drops = (foes * 4 + z mod 5) div 5;
          (r2, ev2) = (if drops \<noteq> 0 then (add_mat fam drops r1, put_evs [(''drops'', drops), (''mat'', fam)] ev1)
                       else (r1, ev1));
          drain = wp * foes div LIFESTEAL_DIV * (1 + hasAffix r2 AF_VAMP);
          (hp, easy) = fight_hp r2 before drain dmg y;
          r3 = r2\<lparr>a_hp := min (a_maxhp r2) hp\<rparr>;
          ev3 = put_ev ''drain'' drain (if easy then put_ev ''easy'' 1 ev2 else ev2);
          re4 = fight_loot tile b z (r3, ev3)
      in if tile = BOSS then checkpoint re4 else re4)"

section \<open>Reactions\<close>

text \<open>A fork is decided by the lane, a robbed tollgate is a mimic.\<close>

definition resolve_tile :: "nat \<Rightarrow> nat \<Rightarrow> nat \<times> nat" where
  "resolve_tile tile act =
     (let (t, a) = (if tile = FORK then (if act = A_RIGHT then ELITE else MONSTER, A_DEFAULT) else (tile, act))
      in if t = TOLLGATE \<and> a = A_STRIKE then (MIMIC, a) else (t, a))"

text \<open>Stamina grows, then pays for the reaction; what is too dear degrades to the default.\<close>

definition pay_stamina :: "nat \<Rightarrow> nat \<Rightarrow> ag_run \<Rightarrow> nat \<times> ag_run" where
  "pay_stamina st act run =
     (let stam = min STAM_MAX (a_stam run + 1 + SWIFT_BONUS * hasAffix run AF_SWIFT);
          cost = (if st = ST_EVASIVE \<and> (act = A_DODGE \<or> act = A_SPRINT) then COST ! act - 1 else COST ! act)
      in if cost > stam then (A_DEFAULT, run\<lparr>a_stam := stam\<rparr>) else (act, run\<lparr>a_stam := stam - cost\<rparr>))"

definition do_rally :: "nat \<Rightarrow> ag_run \<times> ag_ev \<Rightarrow> ag_run \<times> ag_ev" where
  "do_rally tier re = (heal (RALLY_BASE + tier) (fst re), put_ev ''rally'' 1 (snd re))"

definition do_rest :: "nat \<Rightarrow> ag_run \<times> ag_ev \<Rightarrow> ag_run \<times> ag_ev" where
  "do_rest tile re =
     (let run = fst re; camp = (tile = CAMP); h = (8 + a_xp run div 32) * (if camp then 2 else 1);
          r1 = heal h run;
          r2 = (if camp then r1 else r1\<lparr>a_xp := csub (a_xp r1) (4 + a_xp r1 div 20)\<rparr>);
          ev1 = put_ev ''rest'' h (snd re)
      in (r2\<lparr>a_banked := min (a_banked r2) (a_xp r2), a_streak := 0\<rparr>, if camp then put_ev ''camp'' 1 ev1 else ev1))"

definition do_potion :: "ag_run \<times> ag_ev \<Rightarrow> ag_run \<times> ag_ev" where
  "do_potion re = (case drink (fst re) of (ok, run) \<Rightarrow> (run, put_ev ''drank'' (if ok then 1 else 0) (snd re)))"

definition react :: "nat \<Rightarrow> nat \<Rightarrow> nat \<Rightarrow> ag_run \<times> ag_ev \<Rightarrow> ag_run \<times> ag_ev" where
  "react tile act tier re =
     (let re1 = (if act = A_RALLY then do_rally tier re else re);
          re2 = (if act = A_REST then do_rest tile re1 else re1)
      in if act = A_POTION \<and> tile \<noteq> IDOL \<and> tile \<noteq> WELL then do_potion re2 else re2)"

text \<open>What strikes before the tile is resolved: an ambush, the lash of a tollgate, a storm.\<close>

definition first_strikes :: "nat \<Rightarrow> nat \<Rightarrow> nat \<Rightarrow> ag_run \<times> ag_ev \<Rightarrow> ag_run \<times> ag_ev" where
  "first_strikes tile act tier re =
     (let sting = 2 * monsterLevel tile (a_depth (fst re)); lash = 2 + 2 * tier;
          re1 = (if tile = AMBUSH \<and> act \<noteq> A_GUARD \<and> act \<noteq> A_DODGE
                 then (harm sting (fst re), put_ev ''sting'' sting (snd re)) else re);
          re2 = (if tile = TOLLGATE \<and> (act = A_DODGE \<or> act = A_SPRINT)
                 then (harm lash (fst re1), put_ev ''lash'' lash (snd re1)) else re1)
      in if tile = GALE \<and> act \<noteq> A_DODGE then ((fst re2)\<lparr>a_gale := 4\<rparr>, put_ev ''gale'' 1 (snd re2)) else re2)"

section \<open>Tiles\<close>

definition at_hazard :: "nat \<Rightarrow> nat option \<Rightarrow> nat \<Rightarrow> nat \<Rightarrow> ag_run \<times> ag_ev \<Rightarrow> ag_run \<times> ag_ev" where
  "at_hazard st fo tier y re =
     (let t0 = 2 + 2 * tier + y mod 6; t1 = (if st = ST_EVASIVE then t0 div 2 else t0);
          t2 = csub t1 (armorPts (fst re) fo div 8); took = (if hasAffix (fst re) AF_WARD \<noteq> 0 then 0 else t2)
      in (harm took (fst re), put_ev ''dmg'' took (snd re)))"

definition at_loot :: "nat \<Rightarrow> nat \<Rightarrow> nat \<Rightarrow> nat \<Rightarrow> nat \<Rightarrow> ag_run \<times> ag_ev \<Rightarrow> ag_run \<times> ag_ev" where
  "at_loot tile act tier c z re =
     (let item = rollItem c z (a_depth (fst re)) (if tile = RELIC then 3 else if tile = BARROW then 1 else 0);
          slot = (if tile = ARMORY then G_WEAPON else z mod NSLOT);
          r1 = takeItemAt slot item (fst re); ev1 = put_evs [(''item'', item), (''slot'', slot)] (snd re);
          k0 = 2 + 2 * tier; k1 = (if act = A_GUARD then k0 div 2 else k0);
          curse = (if hasAffix r1 AF_WARD \<noteq> 0 then 0 else k1)
      in if tile = BARROW then (harm curse r1, put_ev ''curse'' curse ev1) else (r1, ev1))"

definition at_snare :: "nat \<Rightarrow> ag_run \<times> ag_ev \<Rightarrow> ag_run \<times> ag_ev" where
  "at_snare act re =
     (if act = A_GUARD then (add_mat 0 2 (fst re), put_ev ''sprung'' 1 (snd re))
      else ((fst re)\<lparr>a_stam := csub (a_stam (fst re)) 3\<rparr>, put_ev ''snare'' 1 (snd re)))"

definition at_quag :: "nat \<Rightarrow> nat \<Rightarrow> ag_run \<times> ag_ev \<Rightarrow> ag_run \<times> ag_ev" where
  "at_quag st tier re =
     (let took = (if st = ST_EVASIVE then (1 + tier) div 2 else 1 + tier); r1 = harm took (fst re)
      in (r1\<lparr>a_stam := csub (a_stam r1) 2\<rparr>, put_ev ''quag'' took (snd re)))"

definition at_tollgate :: "ag_run \<times> ag_ev \<Rightarrow> ag_run \<times> ag_ev" where
  "at_tollgate re =
     (let run = fst re; toll = 4 + a_xp run div 32; xp = csub (a_xp run) toll
      in (run\<lparr>a_xp := xp, a_banked := min (a_banked run) xp\<rparr>, put_ev ''toll'' toll (snd re)))"

definition at_vein :: "nat \<Rightarrow> nat \<Rightarrow> nat \<Rightarrow> ag_run \<times> ag_ev \<Rightarrow> ag_run \<times> ag_ev" where
  "at_vein act tier z re =
     (let mined = 4 + 2 * tier + z mod 3
      in if act = A_STRIKE then (add_mat 0 mined (fst re), put_ev ''mined'' mined (snd re)) else re)"

definition at_grove :: "nat \<Rightarrow> nat \<Rightarrow> nat \<Rightarrow> ag_run \<times> ag_ev \<Rightarrow> ag_run \<times> ag_ev" where
  "at_grove act tier z re =
     (let ess = 2 + tier div 2 + z mod 2; r1 = add_mat 2 ess (fst re)
      in if act = A_RALLY then (r1\<lparr>a_streak := a_streak r1 + 1\<rparr>, put_ev ''commune'' ess (snd re)) else re)"

definition at_well :: "nat \<Rightarrow> nat \<Rightarrow> ag_run \<times> ag_ev \<Rightarrow> ag_run \<times> ag_ev" where
  "at_well act tier re =
     (if act = A_REST
      then (heal (SHRINE_BASE div 2 + 2 * tier) ((fst re)\<lparr>a_stam := STAM_MAX\<rparr>), put_ev ''well'' 1 (snd re))
      else if act = A_POTION
      then ((fst re)\<lparr>a_potions := min POTION_CAP (a_potions (fst re) + 1)\<rparr>, put_ev ''bottled'' 1 (snd re))
      else re)"

definition at_pyre :: "nat \<Rightarrow> ag_run \<times> ag_ev \<Rightarrow> ag_run \<times> ag_ev" where
  "at_pyre act re = (if act = A_STRIKE then ((fst re)\<lparr>a_pyre := 4\<rparr>, put_ev ''pyre'' 1 (snd re)) else re)"

definition at_idol :: "nat \<Rightarrow> nat \<Rightarrow> ag_run \<times> ag_ev \<Rightarrow> ag_run \<times> ag_ev" where
  "at_idol act tier re =
     (let run = fst re; base = (20 + 20 * tier) * (a_maxhp run + 4 * csub (a_maxhp run) (a_hp run)) div a_maxhp run
      in if act = A_STRIKE then (run\<lparr>a_xp := a_xp run + base\<rparr>, put_ev ''gain'' base (snd re))
         else if act = A_POTION \<and> a_potions run > 0
         then (run\<lparr>a_xp := a_xp run + base * 3, a_potions := a_potions run - 1\<rparr>,
               put_evs [(''gain'', base * 3), (''offered'', 1)] (snd re))
         else re)"

definition at_shrine :: "nat \<Rightarrow> nat \<Rightarrow> ag_run \<times> ag_ev \<Rightarrow> ag_run \<times> ag_ev" where
  "at_shrine tier z re =
     (let r1 = heal (SHRINE_BASE + 4 * tier) (fst re)
      in (r1\<lparr>a_potions := min POTION_CAP (a_potions r1 + (if z mod 4 = 0 then 1 else 0)), a_streak := 0\<rparr>,
          put_ev ''heal'' 1 (snd re)))"

definition at_forge :: "nat option \<Rightarrow> ag_run \<times> ag_ev \<Rightarrow> ag_run \<times> ag_ev" where
  "at_forge fo re =
     (case tryCraft fo (fst re) of (made, r1) \<Rightarrow>
        (let ev1 = put_ev ''craft'' made (snd re)
         in if a_mats r1 ! 0 \<ge> POTION_PRICE \<and> a_potions r1 < POTION_CAP
            then ((sub_mat 0 POTION_PRICE r1)\<lparr>a_potions := a_potions r1 + 1\<rparr>, put_ev ''bought'' 1 ev1)
            else (r1, ev1)))"

definition is_combat :: "nat \<Rightarrow> bool" where
  "is_combat tile \<longleftrightarrow> tile = MONSTER \<or> tile = HORDE \<or> tile = ELITE \<or> tile = AMBUSH \<or> tile = MIMIC \<or> tile = BOSS"

definition is_loot :: "nat \<Rightarrow> bool" where
  "is_loot tile \<longleftrightarrow> tile = CACHE \<or> tile = RELIC \<or> tile = BARROW \<or> tile = ARMORY"

definition at_tile :: "nat \<Rightarrow> nat \<Rightarrow> nat \<Rightarrow> nat \<Rightarrow> nat option \<Rightarrow> nat \<times> nat \<Rightarrow> nat \<times> nat \<times> nat \<Rightarrow> ag_run \<times> ag_ev \<Rightarrow> ag_run \<times> ag_ev" where
  "at_tile tile act agg st fo bc xyz re =
     (case bc of (b, c) \<Rightarrow> case xyz of (x, y, z) \<Rightarrow>
        (let tier = tierOf (a_depth (fst re))
         in if is_combat tile then ag_fight tile b x y z agg act (Some st) fo re
            else if tile = HAZARD then at_hazard st fo tier y re
            else if is_loot tile then at_loot tile act tier c z re
            else if tile = SNARE then at_snare act re
            else if tile = QUAG then at_quag st tier re
            else if tile = TOLLGATE then at_tollgate re
            else if tile = VEIN then at_vein act tier z re
            else if tile = GROVE then at_grove act tier z re
            else if tile = WELL then at_well act tier re
            else if tile = PYRE then at_pyre act re
            else if tile = IDOL then at_idol act tier re
            else if tile = SHRINE then at_shrine tier z re
            else if tile = FORGE then at_forge fo re
            else re))"

section \<open>The step\<close>

text \<open>Storm and beacon burn down, the standing order drinks, the road goes on.\<close>

definition burn_down :: "ag_run \<Rightarrow> ag_run" where
  "burn_down run = run\<lparr>a_gale := csub (a_gale run) 1, a_pyre := csub (a_pyre run) 1\<rparr>"

definition auto_drink :: "nat \<Rightarrow> ag_run \<times> ag_ev \<Rightarrow> ag_run \<times> ag_ev" where
  "auto_drink hl re =
     (let run = fst re
      in if a_hp run > 0 \<and> a_potions run > 0 \<and> a_hp run * 100 < a_maxhp run * hl
         then (case drink run of (ok, r1) \<Rightarrow> (r1, if ok then put_ev ''auto'' 1 (snd re) else snd re)) else re)"

definition arrive :: "nat \<Rightarrow> ag_run \<times> ag_ev \<Rightarrow> ag_run \<times> ag_ev" where
  "arrive depth re =
     (let r1 = (fst re)\<lparr>a_depth := depth + 1\<rparr>;
          (r2, ev2) = (if a_hp r1 = 0 then (r1\<lparr>a_alive := False\<rparr>, put_ev ''died'' 1 (snd re))
                       else if a_depth r1 \<ge> CHAPTER then (r1\<lparr>a_done := True\<rparr>, put_ev ''chapter'' 1 (snd re))
                       else (r1, snd re))
      in (r2, put_evs [(''hp'', a_hp r2), (''maxhp'', a_maxhp r2), (''stam'', a_stam r2), (''pots'', a_potions r2),
                       (''xp2'', a_xp r2), (''bank2'', a_banked r2), (''strk'', a_streak r2), (''gale2'', a_gale r2),
                       (''dp2'', a_depth r2)] ev2))"

definition ag_over :: "ag_run \<Rightarrow> bool" where
  "ag_over run \<longleftrightarrow> \<not> a_alive run \<or> a_done run \<or> a_retired run \<or> a_mists run"

definition ag_step :: "nat \<Rightarrow> nat \<Rightarrow> nat option \<Rightarrow> nat option \<Rightarrow> nat option \<Rightarrow> nat option \<Rightarrow> nat \<Rightarrow> ag_run \<Rightarrow> ag_run \<times> ag_ev" where
  "ag_step tw rw agg st fo hl action run =
     (if ag_over run then (run, [''tile'' \<mapsto> int ROAD, ''skip'' \<mapsto> 1])
      else (let st' = dflt st (a_stance run); fo' = Some (dflt fo (a_focus run)); hl' = dflt hl (a_healpct run);
                depth = a_depth run; tl = sliceTile tw; xyz = sliceRoll rw; tier = tierOf depth;
                (tile, act0) = resolve_tile (tileOf (tw_a tl) depth) (action AND 7);
                (act, r1) = pay_stamina st' act0 run;
                agg' = max 1 (min AGG_MAX (dflt agg (a_agg run)));
                ev0 = (put_evs [(''tile'', tile), (''act'', act), (''agg'', agg'), (''scen'', tw_scen tl), (''depth'', depth),
                                (''dmg'', 0), (''gain'', 0), (''item'', 0)] Map.empty)(''slot'' \<mapsto> -1);
                re1 = first_strikes tile act tier (react tile act tier (r1, ev0));
                slips = (act = A_SPRINT \<or> act = A_DODGE \<and> tile \<noteq> HORDE);
                re2 = (if slips then (fst re1, put_ev (if act = A_SPRINT then ''sprint'' else ''dodge'') 1 (snd re1))
                       else at_tile tile act agg' st' fo' (tw_b tl, tw_c tl) xyz re1);
                re3 = auto_drink hl' (burn_down (fst re2), snd re2)
            in arrive depth re3))"

section \<open>Legs\<close>

definition words :: "(nat list \<Rightarrow> nat) \<Rightarrow> nat \<Rightarrow> nat \<Rightarrow> nat \<Rightarrow> nat" where
  "words A h runId i = A [h, runId, i] mod 2 ^ 32"

definition unpackLeg :: "nat \<Rightarrow> nat list" where
  "unpackLeg w = map (\<lambda>i. (drop_bit 3 ^^ i) w AND 7) [0..<LEG]"

text \<open>The loop ors each action into its own three bits.\<close>

definition packLeg :: "nat list \<Rightarrow> nat" where
  "packLeg acts = fold (\<lambda>i w. w OR push_bit (3 * i) (acts ! i AND 7)) [0..<min (length acts) LEG] 0"

record ag_dials =
  d_agg :: "nat option"
  d_stance :: "nat option"
  d_focus :: "nat option"
  d_healpct :: "nat option"

fun leg_loop :: "(nat list \<Rightarrow> nat) \<Rightarrow> nat \<Rightarrow> nat \<Rightarrow> nat \<Rightarrow> ag_dials \<Rightarrow> nat list \<Rightarrow> nat list \<Rightarrow> ag_run \<Rightarrow> ag_run \<times> ag_ev list" where
  "leg_loop A runId th rh o' acts [] run = (run, [])"
| "leg_loop A runId th rh o' acts (i # is) run =
     (if ag_over run then (run, [])
      else (case ag_step (words A th runId i) (words A rh runId i) (d_agg o') (d_stance o') (d_focus o') (d_healpct o') (acts ! i) run of
              (r1, ev) \<Rightarrow>
                (case leg_loop A runId th rh o' acts is r1 of (r2, evs) \<Rightarrow>
                   (r2, ev(''biome'' \<mapsto> int (biomeFor A th runId (a_depth run))) # evs))))"

definition playLeg :: "(nat list \<Rightarrow> nat) \<Rightarrow> ag_run \<Rightarrow> nat \<Rightarrow> nat \<Rightarrow> nat \<Rightarrow> ag_dials \<Rightarrow> nat \<Rightarrow> ag_run \<times> ag_ev list" where
  "playLeg A run runId th rh o' w = leg_loop A runId th rh o' (unpackLeg w) [0..<LEG] run"

text \<open>The newest orders that predate the rolling height govern a leg.\<close>

definition dialsFor :: "ag_stored \<Rightarrow> nat \<Rightarrow> ag_dials" where
  "dialsFor run nh =
     (if a_polh run < nh
      then \<lparr>d_agg = Some (a_agg run), d_stance = Some (a_stance run), d_focus = Some (a_focus run), d_healpct = Some (a_healpct run)\<rparr>
      else if a_polph run < nh
      then \<lparr>d_agg = Some (a_prevAgg run), d_stance = Some (a_prevStance run), d_focus = Some (a_prevFocus run),
            d_healpct = Some (a_prevHealpct run)\<rparr>
      else \<lparr>d_agg = Some 1, d_stance = Some ST_BALANCED, d_focus = Some 50, d_healpct = Some 35\<rparr>)"

record ag_peek =
  pk_i :: nat
  pk_depth :: nat
  pk_tile :: nat
  pk_scen :: nat
  pk_fam :: nat
  pk_biome :: nat
  pk_ml :: nat
  pk_swing :: nat

definition peek_level :: "nat \<Rightarrow> nat \<Rightarrow> nat" where
  "peek_level tile depth =
     (if tile \<in> {MONSTER, HORDE, ELITE, AMBUSH, MIMIC, BOSS, FORK, TOLLGATE}
      then monsterLevel (if tile = FORK \<or> tile = TOLLGATE then MONSTER else tile) depth else 0)"

definition peek_swing :: "nat \<Rightarrow> nat \<Rightarrow> nat \<Rightarrow> nat" where
  "peek_swing tile b depth =
     (let t = (if tile = FORK then ELITE else if tile = TOLLGATE then MIMIC else tile); fam = b mod 3
      in if t \<notin> {MONSTER, HORDE, ELITE, AMBUSH, MIMIC, BOSS} then 0
         else (fst (FAM_ATK ! fam) + snd (FAM_ATK ! fam) * monsterLevel t depth + b div 3 mod 4) * (if t = MIMIC then 2 else 1))"

definition peekLeg :: "(nat list \<Rightarrow> nat) \<Rightarrow> ag_run \<Rightarrow> nat \<Rightarrow> nat \<Rightarrow> nat \<Rightarrow> nat \<Rightarrow> ag_peek list" where
  "peekLeg A run runId th start n =
     map (\<lambda>i. let tl = sliceTile (words A th runId i); depth = a_depth run + (i - start); tile = tileOf (tw_a tl) depth
              in \<lparr>pk_i = i, pk_depth = depth, pk_tile = tile, pk_scen = tw_scen tl, pk_fam = tw_b tl mod 3,
                  pk_biome = biomeFor A th runId depth, pk_ml = peek_level tile depth,
                  pk_swing = peek_swing tile (tw_b tl) depth\<rparr>)
       [start..<start + n]"

end
