(* ===== verification/DailyHash.thy ===== *)
theory DailyHash
  imports Provable
begin

text \<open>
  What the daily games take from the hash of \<^verbatim>\<open>static/provable.js\<close>: \<^verbatim>\<open>H\<close> is the blake2b
  hash of a string as a hexadecimal string, the parameter \<open>HX\<close>. The sources read a prefix of it as a
  number with \<^verbatim>\<open>parseInt(..., 16)\<close> or \<^verbatim>\<open>BigInt("0x" + ...)\<close>; for the digits
  \<^verbatim>\<open>H\<close> produces both are \<open>hex_value\<close>.
\<close>

definition hex_digit :: "char \<Rightarrow> nat" where
  "hex_digit c = (if of_char c \<ge> (97 :: nat) then of_char c - 87 else of_char c - 48)"

definition hex_value :: "string \<Rightarrow> nat" where
  "hex_value s = fold (\<lambda>c v. v * 16 + hex_digit c) s 0"

text \<open>The draw of the Daily Salvo and the Daily Derby: twelve digits of the hash of seed and tag.\<close>

definition rint :: "(string \<Rightarrow> string) \<Rightarrow> string \<Rightarrow> string \<Rightarrow> nat" where
  "rint HX seed tag = hex_value (take 12 (HX (seed @ '':'' @ tag)))"

end
