(* ===== verification/AutoDaily.thy ===== *)
theory AutoDaily
  imports AutoStep DailyHash
begin

text \<open>
  The Daily Gauntlet (\<^verbatim>\<open>static/autogame-daily.js\<close>): the march along one road of 124 steps
  derived from the daily seed, and its claims. \<open>A\<close> is \<^verbatim>\<open>algHashn\<close>, \<open>HX\<close> the hash of a string
  in hexadecimal digits.
\<close>

declare One_nat_def [simp del]

definition ACT_BITS :: nat where "ACT_BITS = 3"
definition HEAD :: nat where "HEAD = 4"
definition STEPS :: nat where "STEPS = 128 - HEAD"
definition RUN_ID :: nat where "RUN_ID = 0"
definition TIERS :: nat where "TIERS = 8"

definition AGG_OF :: "nat \<Rightarrow> nat" where "AGG_OF t = t * 2 + 1"
definition PCT_OF :: "nat \<Rightarrow> nat" where "PCT_OF t = t * 14"

text \<open>Stance, aggression, focus and auto-drink threshold of a loadout.\<close>

definition loadoutOf :: "nat list \<Rightarrow> nat \<times> nat \<times> nat \<times> nat" where
  "loadoutOf syms = (syms ! 0, AGG_OF (syms ! 1), PCT_OF (syms ! 2), PCT_OF (syms ! 3))"

definition packClaim :: "nat list \<Rightarrow> nat list \<Rightarrow> nat list" where
  "packClaim loadTiers actions = packMoves (loadTiers @ actions) ACT_BITS"

text \<open>The hashes of the road and of the dice.\<close>

definition dailyWorld :: "(nat list \<Rightarrow> nat) \<Rightarrow> (string \<Rightarrow> string) \<Rightarrow> string \<Rightarrow> nat \<times> nat" where
  "dailyWorld A HX seed = (let s = hex_value (take 32 (HX seed)) in (A [s, 1], A [s, 2]))"

definition wordsAt :: "(nat list \<Rightarrow> nat) \<Rightarrow> nat \<times> nat \<Rightarrow> nat \<Rightarrow> nat \<times> nat" where
  "wordsAt A world i = (words A (fst world) RUN_ID i, words A (snd world) RUN_ID i)"

definition roadAhead :: "(nat list \<Rightarrow> nat) \<Rightarrow> nat \<times> nat \<Rightarrow> ag_run \<Rightarrow> nat \<Rightarrow> nat \<Rightarrow> ag_peek list" where
  "roadAhead A world run start n = peekLeg A run RUN_ID (fst world) start (min n (STEPS - start))"

fun play_loop :: "(nat list \<Rightarrow> nat) \<Rightarrow> nat \<times> nat \<Rightarrow> nat \<times> nat \<times> nat \<times> nat \<Rightarrow> nat list \<Rightarrow> nat list \<Rightarrow> ag_run \<Rightarrow> ag_run \<times> ag_ev list" where
  "play_loop A world ld actions [] run = (run, [])"
| "play_loop A world ld actions (i # is) run =
     (if \<not> a_alive run \<or> a_done run then (run, [])
      else (case ld of (st, agg, fo, hl) \<Rightarrow>
              (case ag_step (fst (wordsAt A world i)) (snd (wordsAt A world i)) (Some agg) (Some st) (Some fo) (Some hl) (actions ! i) run of
                 (r1, ev) \<Rightarrow> (case play_loop A world ld actions is r1 of (r2, evs) \<Rightarrow> (r2, ev # evs)))))"

definition ag_play :: "(nat list \<Rightarrow> nat) \<Rightarrow> (string \<Rightarrow> string) \<Rightarrow> string \<Rightarrow> nat list \<Rightarrow> nat list \<Rightarrow> bool \<Rightarrow> ag_run \<times> ag_ev list \<times> nat" where
  "ag_play A HX seed loadTiers actions opn =
     (case loadoutOf loadTiers of (st, agg, fo, hl) \<Rightarrow>
        (let run0 = (newRun (Some st) (Some hl) (Some fo))\<lparr>a_agg := agg\<rparr>
         in case play_loop A (dailyWorld A HX seed) (st, agg, fo, hl) actions [0..<min (length actions) STEPS] run0 of
              (r1, evs) \<Rightarrow>
                (let r2 = (if \<not> opn \<and> a_alive r1 \<and> \<not> a_done r1 then r1\<lparr>a_retired := True\<rparr> else r1)
                 in (r2, evs, ag_score r2))))"

definition scoreIfStopped :: "ag_run \<Rightarrow> nat" where
  "scoreIfStopped run =
     (if \<not> a_alive run \<or> a_done run \<or> a_retired run then ag_score run else ag_score (run\<lparr>a_retired := True\<rparr>))"

definition ag_verifyClaim :: "(nat list \<Rightarrow> nat) \<Rightarrow> (string \<Rightarrow> string) \<Rightarrow> nat \<Rightarrow> nat \<Rightarrow> nat list \<Rightarrow> string \<Rightarrow> string \<Rightarrow> int" where
  "ag_verifyClaim A HX day n ws anchorHash addr =
     (if \<not> n > HEAD \<or> n > HEAD + STEPS then -1
      else (let syms = unpackMoves ws ACT_BITS n; tiers = take HEAD syms
            in if \<exists>v \<in> set syms. v > 7 then -1
               else if tiers ! 0 \<ge> length STANCES then -1
               else if \<exists>v \<in> set (drop 1 tiers). v \<ge> TIERS then -1
               else int (snd (snd (ag_play A HX (provableSeed ''autogame'' day anchorHash addr) tiers (drop HEAD syms) False)))))"

end
