(* ===== verification/AutoInvariants.thy ===== *)
theory AutoInvariants
  imports AutoDaily
begin

text \<open>
  What every step of the march keeps: hull, stamina, flasks, levels and gear stay in their ranges, the
  banked renown never exceeds the renown, and each step of a live run walks one tile further.
\<close>

declare One_nat_def [simp del]

lemmas ag_tiles = MONSTER_def HORDE_def ELITE_def AMBUSH_def MIMIC_def BOSS_def FORK_def TOLLGATE_def

section \<open>Ranges\<close>

definition gear_ok :: "nat \<Rightarrow> bool" where "gear_ok g \<longleftrightarrow> g \<le> 2048"

text \<open>A run in order with the hull maximum \<open>m\<close>.\<close>

definition fit_run :: "nat \<Rightarrow> ag_run \<Rightarrow> bool" where
  "fit_run m run \<longleftrightarrow>
     a_maxhp run = m \<and> a_hp run \<le> m \<and> a_stam run \<le> STAM_MAX \<and> a_potions run \<le> POTION_CAP \<and> a_banked run \<le> a_xp run \<and>
     a_wlevel run \<le> LEVEL_CAP \<and> a_alevel run \<le> LEVEL_CAP \<and> length (a_mats run) = 3 \<and> length (a_gear run) = NSLOT \<and>
     (\<forall>g \<in> set (a_gear run). gear_ok g) \<and> a_gale run \<le> 4 \<and> a_pyre run \<le> 4"

definition same_road :: "ag_run \<Rightarrow> ag_run \<Rightarrow> bool" where
  "same_road run run' \<longleftrightarrow> a_depth run' = a_depth run \<and> a_alive run' = a_alive run \<and> a_done run' = a_done run \<and>
     a_retired run' = a_retired run \<and> a_mists run' = a_mists run"

definition ag_keeps :: "ag_run \<Rightarrow> ag_run \<Rightarrow> bool" where
  "ag_keeps run run' \<longleftrightarrow> same_road run run' \<and> (\<forall>m. fit_run m run \<longrightarrow> fit_run m run')"

lemma keeps_refl [simp]: "ag_keeps run run"
  by (simp add: ag_keeps_def same_road_def)

lemma keeps_trans [trans]: "ag_keeps a b \<Longrightarrow> ag_keeps b c \<Longrightarrow> ag_keeps a c"
  by (simp add: ag_keeps_def same_road_def)

lemma keeps_cond: "(b \<Longrightarrow> ag_keeps s x) \<Longrightarrow> (\<not> b \<Longrightarrow> ag_keeps s y) \<Longrightarrow> ag_keeps s (if b then x else y)"
  by simp

lemma keeps_plain:
  "ag_keeps run (heal n run)" "ag_keeps run (harm n run)" "ag_keeps run (add_mat i n run)" "ag_keeps run (sub_mat i n run)"
  "ag_keeps run (run\<lparr>a_streak := n\<rparr>)" "ag_keeps run (run\<lparr>a_kills := n\<rparr>)"
  "n \<le> 4 \<Longrightarrow> ag_keeps run (run\<lparr>a_gale := n\<rparr>)" "n \<le> 4 \<Longrightarrow> ag_keeps run (run\<lparr>a_pyre := n\<rparr>)"
  "n \<le> POTION_CAP \<Longrightarrow> ag_keeps run (run\<lparr>a_potions := n\<rparr>)" "n \<le> STAM_MAX \<Longrightarrow> ag_keeps run (run\<lparr>a_stam := n\<rparr>)"
  "ag_keeps run (run\<lparr>a_xp := a_xp run + n\<rparr>)" "b \<le> x \<Longrightarrow> ag_keeps run (run\<lparr>a_xp := x, a_banked := b\<rparr>)"
  "n \<le> a_maxhp run \<Longrightarrow> ag_keeps run (run\<lparr>a_hp := n\<rparr>)"
  by (auto simp: ag_keeps_def same_road_def fit_run_def heal_def harm_def add_mat_def sub_mat_def)

lemma keeps_gear: "gear_ok item \<Longrightarrow> ag_keeps run (run\<lparr>a_gear := (a_gear run)[slot := item]\<rparr>)"
  using set_update_subset_insert [of "a_gear run" slot item] by (auto simp: ag_keeps_def same_road_def fit_run_def)

lemma roll_ok: "gear_ok (rollItem c z depth bonus)"
proof -
  have "gear_ok (packItem t mt a k)" if "t \<le> 7" "mt \<le> 7" "a \<le> 7" "k \<le> 3" for t mt a k
    using that by (simp add: gear_ok_def packItem_def)
  moreover have "c div 8 mod 8 \<le> 7" "z div 4 mod 7 \<le> 6" "(c + z) mod 4 \<le> 3" by simp_all
  ultimately show ?thesis by (simp add: rollItem_def Let_def)
qed

lemma keeps_take: "gear_ok item \<Longrightarrow> ag_keeps run (takeItemAt slot item run)"
  unfolding takeItemAt_def Let_def
  by (intro keeps_cond keeps_plain keeps_trans [OF keeps_gear keeps_plain(3)])

lemma keeps_drink: "ag_keeps run (snd (drink run))"
proof -
  have "ag_keeps run (run\<lparr>a_potions := a_potions run - 1\<rparr>)"
    by (auto simp: ag_keeps_def same_road_def fit_run_def)
  from keeps_trans [OF this keeps_plain(1)] show ?thesis
    by (auto simp: drink_def Let_def intro: keeps_trans keeps_plain)
qed

lemma keeps_levels: "n \<le> LEVEL_CAP \<Longrightarrow> ag_keeps run (run\<lparr>a_wlevel := n\<rparr>)" "n \<le> LEVEL_CAP \<Longrightarrow> ag_keeps run (run\<lparr>a_alevel := n\<rparr>)"
  by (auto simp: ag_keeps_def same_road_def fit_run_def)

lemma keeps_craft: "ag_keeps run (snd (tryCraft fo run))"
  by (simp add: tryCraft_def Let_def sub_mat_def ag_keeps_def same_road_def fit_run_def)

section \<open>Tiles and reactions\<close>

lemma keeps_rally: "ag_keeps (fst re) (fst (do_rally tier re))"
  by (simp add: do_rally_def keeps_plain)

lemma keeps_rest: "ag_keeps (fst re) (fst (do_rest tile re))"
  by (auto simp: do_rest_def Let_def heal_def ag_keeps_def same_road_def fit_run_def)

lemma keeps_potion: "ag_keeps (fst re) (fst (do_potion re))"
  using keeps_drink [of "fst re"] by (simp add: do_potion_def split_beta)

lemma keeps_react: "ag_keeps (fst re) (fst (react tile act tier re))"
proof -
  have a: "ag_keeps (fst re) (fst (if act = A_RALLY then do_rally tier re else re))" by (simp add: keeps_rally)
  have b: "ag_keeps (fst s) (fst (if act = A_REST then do_rest tile s else s))" for s by (simp add: keeps_rest)
  have c: "ag_keeps (fst s) (fst (if act = A_POTION \<and> tile \<noteq> IDOL \<and> tile \<noteq> WELL then do_potion s else s))" for s
    by (simp add: keeps_potion)
  show ?thesis unfolding react_def Let_def by (rule keeps_trans [OF keeps_trans [OF a b] c])
qed

lemma keeps_strikes: "ag_keeps (fst re) (fst (first_strikes tile act tier re))"
  by (auto simp: first_strikes_def Let_def harm_def ag_keeps_def same_road_def fit_run_def)

lemma keeps_loot: "ag_keeps (fst re) (fst (at_loot tile act tier c z re))"
  by (auto simp: at_loot_def Let_def intro: keeps_take roll_ok keeps_trans [OF keeps_take [OF roll_ok] keeps_plain(2)])

lemma less_left: "a \<le> m \<Longrightarrow> a - n \<le> (m :: nat)"
  by simp

lemma keeps_tiles:
  "ag_keeps (fst re) (fst (at_hazard st fo tier y re))" "ag_keeps (fst re) (fst (at_snare act re))"
  "ag_keeps (fst re) (fst (at_quag st tier re))" "ag_keeps (fst re) (fst (at_tollgate re))"
  "ag_keeps (fst re) (fst (at_vein act tier z re))" "ag_keeps (fst re) (fst (at_grove act tier z re))"
  "ag_keeps (fst re) (fst (at_well act tier re))" "ag_keeps (fst re) (fst (at_pyre act re))"
  "ag_keeps (fst re) (fst (at_idol act tier re))" "ag_keeps (fst re) (fst (at_shrine tier z re))"
  by (simp_all add: at_hazard_def at_snare_def at_quag_def at_tollgate_def at_vein_def at_grove_def at_well_def
      at_pyre_def at_idol_def at_shrine_def Let_def heal_def harm_def add_mat_def ag_keeps_def same_road_def fit_run_def less_left)

lemma keeps_forge: "ag_keeps (fst re) (fst (at_forge fo re))"
proof -
  have "ag_keeps r ((sub_mat 0 POTION_PRICE r)\<lparr>a_potions := a_potions r + 1\<rparr>)" if "a_potions r < POTION_CAP" for r
    using that by (simp add: ag_keeps_def same_road_def fit_run_def sub_mat_def)
  then show ?thesis
    using keeps_craft [of "fst re" fo] by (auto simp: at_forge_def Let_def split_beta intro: keeps_trans)
qed

lemma keeps_fight_loot: "ag_keeps (fst re) (fst (fight_loot tile b z re))"
  by (auto simp: fight_loot_def Let_def intro: keeps_take roll_ok)

text \<open>Only a boss fight raises the hull maximum, by 10.\<close>

lemma checkpoint_fit: "fit_run m (fst re) \<Longrightarrow> fit_run (m + 10) (fst (checkpoint re)) \<and> same_road (fst re) (fst (checkpoint re))"
  by (auto simp: checkpoint_def Let_def fit_run_def same_road_def)

lemma fight_before_boss:
  "\<exists>re'. ag_keeps (fst re) (fst re') \<and> ag_fight tile b x y z agg act st fo re = (if tile = BOSS then checkpoint re' else re')"
proof -
  have k: "ag_keeps run (run\<lparr>a_streak := s, a_kills := k, a_xp := a_xp run + g\<rparr>)" for run s k g
    by (auto simp: ag_keeps_def same_road_def fit_run_def)
  have h: "ag_keeps run (run\<lparr>a_hp := min (a_maxhp run) hp\<rparr>)" for run hp by (simp add: keeps_plain)
  have d: "ag_keeps run (fst (if n \<noteq> 0 then (add_mat fam n run, e) else (run, e')))" for run n fam e e'
    by (simp add: keeps_plain)
  show ?thesis
    unfolding ag_fight_def Let_def split_beta
    by (rule exI, rule conjI [rotated], rule refl)
      (rule keeps_trans [OF keeps_trans [OF keeps_trans [OF k d] h] keeps_fight_loot [of "(_, _)", unfolded fst_conv]])
qed

section \<open>A step\<close>

definition ag_fine :: "ag_run \<Rightarrow> bool" where
  "ag_fine run \<longleftrightarrow>
     (\<exists>k \<le> (a_depth run - 1) div BOSS_EVERY. fit_run (HP0 + 10 * k) run) \<and> (a_alive run \<longleftrightarrow> a_hp run > 0) \<and>
     (a_done run \<longleftrightarrow> a_alive run \<and> a_depth run = CHAPTER) \<and> a_depth run \<le> CHAPTER"

lemma ag_fine_new: "ag_fine (newRun st hl fo)"
  by (auto simp: ag_fine_def fit_run_def newRun_def gear_ok_def ag_consts)

lemma cuts_le: "fold (\<lambda>cut k. if a \<ge> cut then k + 1 else k) cs k \<le> k + length cs" for k :: nat
proof (induction cs arbitrary: k)
  case (Cons c cs)
  show ?case using Cons.IH [of "if a \<ge> c then k + 1 else k"] by (auto split: if_splits)
qed simp

lemma tileOf_boss: "tileOf a depth = BOSS \<longleftrightarrow> depth > 0 \<and> depth mod BOSS_EVERY = 0"
proof -
  have "length TILE_CUTS = 23" by (simp add: TILE_CUTS_def)
  then have "fold (\<lambda>cut k. if a \<ge> cut then k + 1 else k) TILE_CUTS 0 \<le> (23 :: nat)"
    using cuts_le [of a TILE_CUTS 0] by simp
  then show ?thesis by (auto simp: tileOf_def BOSS_def)
qed

lemma resolve_boss: "fst (resolve_tile tile act) = BOSS \<longleftrightarrow> tile = BOSS"
  by (auto simp: resolve_tile_def ag_tiles)

lemma keeps_pay: "ag_keeps run (snd (pay_stamina st act run))"
  by (auto simp: pay_stamina_def Let_def ag_keeps_def same_road_def fit_run_def)

lemma at_tile_cases:
  "\<exists>re'. ag_keeps (fst re) (fst re') \<and>
     at_tile tile act agg st fo bc xyz re = (if tile = BOSS then checkpoint re' else re')"
proof -
  obtain b c x y z where v: "bc = (b, c)" "xyz = (x, y, z)" by (metis prod.exhaust)
  show ?thesis
  proof (cases "is_combat tile")
    case True
    then show ?thesis using fight_before_boss [of re tile b x y z agg act "Some st" fo] by (simp add: at_tile_def v Let_def)
  next
    case False
    then have "tile \<noteq> BOSS" by (auto simp: is_combat_def)
    moreover have "ag_keeps (fst re) (fst (at_tile tile act agg st fo bc xyz re))"
      using False unfolding at_tile_def v prod.case Let_def
      by (simp add: keeps_tiles keeps_loot keeps_forge split del: if_split) (simp add: keeps_tiles keeps_loot keeps_forge)
    ultimately show ?thesis by (intro exI [of _ "at_tile tile act agg st fo bc xyz re"]) simp
  qed
qed

lemma keeps_embers: "ag_keeps run (burn_down run)"
  by (auto simp: burn_down_def ag_keeps_def same_road_def fit_run_def)

lemma keeps_auto: "ag_keeps (fst re) (fst (auto_drink hl re))"
  using keeps_drink [of "fst re"] by (auto simp: auto_drink_def Let_def split_beta)

text \<open>Until its end a step keeps the run in order; a boss tile may raise the hull maximum by 10.\<close>

lemma step_body:
  assumes "\<not> ag_over run"
  shows "\<exists>re. fst (ag_step tw rw agg st fo hl action run) = fst (arrive (a_depth run) re) \<and> same_road run (fst re) \<and>
           (\<forall>m. fit_run m run \<longrightarrow> fit_run m (fst re) \<or>
              a_depth run > 0 \<and> a_depth run mod BOSS_EVERY = 0 \<and> fit_run (m + 10) (fst re))"
proof -
  define tl where "tl = sliceTile tw"
  define st' where "st' = dflt st (a_stance run)"
  define fo' where "fo' = Some (dflt fo (a_focus run))"
  define hl' where "hl' = dflt hl (a_healpct run)"
  define tier where "tier = tierOf (a_depth run)"
  define agg' where "agg' = max 1 (min AGG_MAX (dflt agg (a_agg run)))"
  obtain tile act0 where t: "resolve_tile (tileOf (tw_a tl) (a_depth run)) (action AND 7) = (tile, act0)" by fastforce
  obtain act r1 where p: "pay_stamina st' act0 run = (act, r1)" by fastforce
  have boss: "tile = BOSS \<longleftrightarrow> a_depth run > 0 \<and> a_depth run mod BOSS_EVERY = 0"
    using resolve_boss [of "tileOf (tw_a tl) (a_depth run)" "action AND 7"] tileOf_boss by (simp add: t)
  define ev0 where "ev0 = (put_evs [(''tile'', tile), (''act'', act), (''agg'', agg'), (''scen'', tw_scen tl), (''depth'', a_depth run),
      (''dmg'', 0), (''gain'', 0), (''item'', 0)] Map.empty)(''slot'' \<mapsto> -1)"
  define re1 where "re1 = first_strikes tile act tier (react tile act tier (r1, ev0))"
  define slips where "slips \<longleftrightarrow> act = A_SPRINT \<or> act = A_DODGE \<and> tile \<noteq> HORDE"
  define re2 where "re2 = (if slips then (fst re1, put_ev (if act = A_SPRINT then ''sprint'' else ''dodge'') 1 (snd re1))
      else at_tile tile act agg' st' fo' (tw_b tl, tw_c tl) (sliceRoll rw) re1)"
  define re3 where "re3 = auto_drink hl' (burn_down (fst re2), snd re2)"
  have run3: "ag_step tw rw agg st fo hl action run = arrive (a_depth run) re3"
    using assms by (simp add: ag_step_def Let_def t [unfolded tl_def] p [unfolded st'_def] re3_def re2_def slips_def re1_def ev0_def
        tl_def st'_def fo'_def hl'_def tier_def agg'_def)
  have "ag_keeps run r1" using keeps_pay [of run st' act0] by (simp add: p)
  then have k1: "ag_keeps run (fst re1)"
    unfolding re1_def by (rule keeps_trans [OF keeps_trans [OF _ keeps_react [of "(r1, ev0)", unfolded fst_conv]] keeps_strikes])
  have k3: "ag_keeps (fst re2) (fst re3)"
    unfolding re3_def using keeps_trans [OF keeps_embers keeps_auto [of "(burn_down (fst re2), snd re2)", unfolded fst_conv]] .
  obtain re' where re': "ag_keeps (fst re1) (fst re')" "slips \<longrightarrow> fst re2 = fst re'"
    "\<not> slips \<longrightarrow> re2 = (if tile = BOSS then checkpoint re' else re')"
  proof (cases slips)
    case True
    then show ?thesis using that [of re1] by (simp add: re2_def)
  next
    case False
    then show ?thesis
      using at_tile_cases [of re1 tile act agg' st' fo' "(tw_b tl, tw_c tl)" "sliceRoll rw"] that by (auto simp: re2_def)
  qed
  have k2: "ag_keeps run (fst re')" by (rule keeps_trans [OF k1 re'(1)])
  have "same_road run (fst re3) \<and> (\<forall>m. fit_run m run \<longrightarrow> fit_run m (fst re3) \<or> tile = BOSS \<and> fit_run (m + 10) (fst re3))"
  proof (cases "\<not> slips \<and> tile = BOSS")
    case True
    then have e: "re2 = checkpoint re'" using re'(3) by simp
    have "same_road run (fst re2) \<and> (\<forall>m. fit_run m run \<longrightarrow> fit_run (m + 10) (fst re2))"
      using k2 checkpoint_fit [of _ re'] unfolding e ag_keeps_def same_road_def
      by (auto simp: checkpoint_def Let_def)
    then show ?thesis using k3 True unfolding ag_keeps_def same_road_def by auto
  next
    case False
    then have "fst re2 = fst re'" using re'(2,3) by auto
    then show ?thesis using keeps_trans [OF k2] k3 unfolding ag_keeps_def by metis
  qed
  then show ?thesis using run3 boss by metis
qed

lemma step_fine:
  assumes "ag_fine run" "\<not> ag_over run"
  shows "ag_fine (fst (ag_step tw rw agg st fo hl action run))"
    "a_depth (fst (ag_step tw rw agg st fo hl action run)) = a_depth run + 1"
    "a_retired (fst (ag_step tw rw agg st fo hl action run)) = a_retired run"
    "a_mists (fst (ag_step tw rw agg st fo hl action run)) = a_mists run"
proof -
  obtain re where re: "fst (ag_step tw rw agg st fo hl action run) = fst (arrive (a_depth run) re)" "same_road run (fst re)"
    "\<forall>m. fit_run m run \<longrightarrow> fit_run m (fst re) \<or> a_depth run > 0 \<and> a_depth run mod BOSS_EVERY = 0 \<and> fit_run (m + 10) (fst re)"
    using step_body [OF assms(2)] by blast
  have live: "a_alive run" "\<not> a_done run" "a_depth run < CHAPTER"
    using assms by (auto simp: ag_over_def ag_fine_def)
  obtain k where k: "k \<le> (a_depth run - 1) div BOSS_EVERY" "fit_run (HP0 + 10 * k) run"
    using assms(1) by (auto simp: ag_fine_def)
  obtain j where j: "j \<le> a_depth run div BOSS_EVERY" "fit_run (HP0 + 10 * j) (fst re)"
  proof (cases "fit_run (HP0 + 10 * k) (fst re)")
    case True
    have "(a_depth run - 1) div BOSS_EVERY \<le> a_depth run div BOSS_EVERY" by (rule div_le_mono) simp
    then show ?thesis using that [of k] True k by simp
  next
    case False
    then have b: "a_depth run > 0" "a_depth run mod BOSS_EVERY = 0" "fit_run (HP0 + 10 * (k + 1)) (fst re)"
      using re(3) k(2) by (auto simp: algebra_simps)
    have "(a_depth run - 1) div BOSS_EVERY < a_depth run div BOSS_EVERY"
      using b(1,2) by (auto simp: BOSS_EVERY_def)
    then show ?thesis using that [of "k + 1"] b(3) k(1) by simp
  qed
  show "a_depth (fst (ag_step tw rw agg st fo hl action run)) = a_depth run + 1"
    "a_retired (fst (ag_step tw rw agg st fo hl action run)) = a_retired run"
    "a_mists (fst (ag_step tw rw agg st fo hl action run)) = a_mists run"
    using re(1,2) by (auto simp: arrive_def Let_def same_road_def)
  have "\<exists>k \<le> a_depth run div BOSS_EVERY. fit_run (HP0 + 10 * k) (fst re)" using j by blast
  then show "ag_fine (fst (ag_step tw rw agg st fo hl action run))"
    using re(2) live unfolding re(1)
    by (auto simp: arrive_def Let_def same_road_def ag_fine_def fit_run_def)
qed

lemma step_over: "ag_over run \<Longrightarrow> fst (ag_step tw rw agg st fo hl action run) = run"
  by (simp add: ag_step_def)

end
