(* ===== verification/AutoProperties.thy ===== *)
theory AutoProperties
  imports AutoInvariants
begin

text \<open>
  The properties of the march: the ranges every run keeps and its end, the word of a leg, and the
  claims of the Daily Gauntlet.
\<close>

unbundle bit_operations_syntax

declare One_nat_def [simp del]

section \<open>Marches\<close>

text \<open>A step's inputs: tile word, roll word, the four dials (left out or given) and the action.\<close>

type_synonym ag_input = "nat \<times> nat \<times> nat option \<times> nat option \<times> nat option \<times> nat option \<times> nat"

definition ag_walk :: "ag_input \<Rightarrow> ag_run \<Rightarrow> ag_run" where
  "ag_walk i run = (case i of (tw, rw, agg, st, fo, hl, act) \<Rightarrow> fst (ag_step tw rw agg st fo hl act run))"

lemma walk_fine:
  "ag_fine run \<Longrightarrow> ag_fine (ag_walk i run)"
  "ag_fine run \<Longrightarrow> \<not> ag_over run \<Longrightarrow> a_depth (ag_walk i run) = a_depth run + 1"
  "ag_over run \<Longrightarrow> ag_walk i run = run"
  by (cases "ag_over run"; auto simp: ag_walk_def step_over intro: step_fine split: prod.split)+

lemma walk_flags:
  "ag_fine run \<Longrightarrow> a_retired (ag_walk i run) = a_retired run \<and> a_mists (ag_walk i run) = a_mists run"
  by (cases "ag_over run") (simp_all add: ag_walk_def step_over step_fine split: prod.split)

lemma walks_fine:
  "ag_fine run \<Longrightarrow> ag_fine (fold ag_walk is run) \<and> a_retired (fold ag_walk is run) = a_retired run \<and>
     a_mists (fold ag_walk is run) = a_mists run \<and>
     (ag_over (fold ag_walk is run) \<or> a_depth (fold ag_walk is run) = a_depth run + length is) \<and>
     a_depth (fold ag_walk is run) \<le> a_depth run + length is"
proof (induction "is" arbitrary: run)
  case (Cons i "is")
  note k = Cons.IH [OF walk_fine(1) [OF Cons.prems], of i] walk_flags [OF Cons.prems, of i]
  show ?case
  proof (cases "ag_over run")
    case True
    then have "fold ag_walk is run = run" for "is" by (induction "is") (simp_all add: walk_fine(3))
    then show ?thesis using True Cons.prems by (simp add: walk_fine(3))
  next
    case False
    then show ?thesis using k walk_fine(2) [OF Cons.prems False, of i] by auto
  qed
qed simp

text \<open>C26: The ranges of a march and its end. Whatever tiles, rolls, dials and reactions a run meets, hull,
  stamina, flasks, levels and gear stay in their ranges (the hull maximum grows by 10 per boss tile
  passed, to 130 at most), the banked renown never exceeds the renown, and the run is alive exactly
  while its hull is above zero. A live run walks one tile per step, and after 512 steps the march is
  over: the run is dead or has completed the chapter.\<close>

theorem auto_march:
  "let run = fold ag_walk is (newRun st hl fo)
   in a_hp run \<le> a_maxhp run \<and> 100 \<le> a_maxhp run \<and> a_maxhp run \<le> 100 + 10 * ((a_depth run - 1) div 128) \<and> a_maxhp run \<le> 130 \<and>
      a_stam run \<le> 12 \<and> a_potions run \<le> 5 \<and> a_banked run \<le> a_xp run \<and> a_wlevel run \<le> 8 \<and> a_alevel run \<le> 8 \<and>
      length (a_gear run) = 6 \<and> (\<forall>g \<in> set (a_gear run). g \<le> 2048) \<and> length (a_mats run) = 3 \<and>
      (a_alive run \<longleftrightarrow> a_hp run > 0) \<and> a_depth run \<le> min (length is) 512 \<and>
      (a_alive run \<and> \<not> a_done run \<longrightarrow> a_depth run = length is) \<and>
      (a_done run \<longleftrightarrow> a_alive run \<and> a_depth run = 512) \<and>
      (length is \<ge> 512 \<longrightarrow> \<not> a_alive run \<or> a_done run)"
proof -
  define run where "run = fold ag_walk is (newRun st hl fo)"
  have new: "a_depth (newRun st hl fo) = 0" "\<not> a_retired (newRun st hl fo)" "\<not> a_mists (newRun st hl fo)"
    by (simp_all add: newRun_def)
  have f: "ag_fine run" "\<not> a_retired run" "\<not> a_mists run" "ag_over run \<or> a_depth run = length is" "a_depth run \<le> length is"
    using walks_fine [OF ag_fine_new [of st hl fo], of "is"] new by (auto simp: run_def)
  obtain k where k: "k \<le> (a_depth run - 1) div 128" "fit_run (100 + 10 * k) run"
    using f(1) by (auto simp: ag_fine_def BOSS_EVERY_def HP0_def)
  have d: "a_depth run \<le> 512" "a_alive run \<longleftrightarrow> a_hp run > 0" "a_done run \<longleftrightarrow> a_alive run \<and> a_depth run = 512"
    using f(1) by (simp_all add: ag_fine_def CHAPTER_def)
  have "(a_depth run - 1) div 128 \<le> 511 div 128" using d(1) by (intro div_le_mono) simp
  then have "k \<le> 3" using k(1) by simp
  moreover have "\<not> a_alive run \<or> a_done run" if "length is \<ge> 512"
    using that f(2-4) d by (auto simp: ag_over_def)
  moreover have "a_depth run = length is" if "a_alive run" "\<not> a_done run"
    using that f(2-4) by (auto simp: ag_over_def)
  ultimately show ?thesis
    using k d f(5) by (auto simp: run_def [symmetric] Let_def fit_run_def gear_ok_def ag_consts)
qed

theorem auto_march_witness:
  "let run = fold ag_walk (replicate 600 (7, 12, None, Some 2, None, None, 1)) (newRun None None None)
   in (a_alive run \<longleftrightarrow> a_done run) \<and> a_hp run \<le> 130 \<and> a_depth run \<le> 512"
  using auto_march [of "replicate 600 (7, 12, None, Some 2, None, None, 1)" None None None] by (auto simp: Let_def)

section \<open>The word of a leg\<close>

lemma bit_seven: "bit (7 :: nat) k \<longleftrightarrow> k < 3"
proof -
  have m: "(7 :: nat) = mask 3" by (simp add: mask_eq_exp_minus_1)
  show ?thesis unfolding m bit_mask_iff by simp
qed

lemma bit_leg:
  fixes acts :: "nat list"
  shows "bit (fold (\<lambda>i w. w OR push_bit (3 * i) (acts ! i AND 7)) [0..<n] 0) k \<longleftrightarrow> k < 3 * n \<and> bit (acts ! (k div 3)) (k mod 3)"
proof (induction n)
  case (Suc n)
  have "bit (push_bit (3 * n) (acts ! n AND 7)) k \<longleftrightarrow> 3 * n \<le> k \<and> k - 3 * n < 3 \<and> bit (acts ! n) (k - 3 * n)"
    by (auto simp: bit_push_bit_iff bit_and_iff bit_seven)
  also have "\<dots> \<longleftrightarrow> 3 * n \<le> k \<and> k < 3 * n + 3 \<and> bit (acts ! (k div 3)) (k mod 3)"
  proof -
    have "k div 3 = n \<and> k mod 3 = k - 3 * n" if "3 * n \<le> k" "k < 3 * n + 3" using that by presburger
    then show ?thesis by (auto simp: less_diff_conv2)
  qed
  finally show ?case using Suc.IH by (auto simp: bit_or_iff)
qed simp

lemma drop_pow: "(drop_bit 3 ^^ i) w = drop_bit (3 * i) (w :: nat)"
  by (induction i) (simp_all add: algebra_simps)

text \<open>The word of a leg. Any list of reactions packs into a word below \<open>2 ^ 48\<close>, the bound the
  contract checks, and the word unpacks to the sixteen reactions of the leg: the given ones, reduced
  to three bits, and the default reaction where the list ends early.\<close>

theorem auto_leg_word:
  "packLeg acts < 2 ^ 48 \<and>
   unpackLeg (packLeg acts) = map (\<lambda>i. if i < length acts then acts ! i mod 8 else A_DEFAULT) [0..<16]"
proof
  let ?n = "min (length acts) 16"
  have b: "bit (packLeg acts) k \<longleftrightarrow> k < 3 * ?n \<and> bit (acts ! (k div 3)) (k mod 3)" for k
    using bit_leg [of acts ?n k] by (simp add: packLeg_def LEG_def)
  have "take_bit 48 (packLeg acts) = packLeg acts"
    by (rule bit_eqI) (auto simp: bit_take_bit_iff b)
  then show "packLeg acts < 2 ^ 48" by (metis take_bit_nat_less_exp)
  have "drop_bit (3 * i) (packLeg acts) AND 7 = (if i < length acts then acts ! i mod 8 else 0)" if "i < 16" for i
  proof (rule bit_eqI)
    fix k
    have e: "(acts ! i mod 8 :: nat) = take_bit 3 (acts ! i)" by (simp add: take_bit_eq_mod)
    have d: "(3 * i + k) div 3 = i" "(3 * i + k) mod 3 = k" if "k < 3" using that by presburger+
    have "bit (drop_bit (3 * i) (packLeg acts) AND 7) k \<longleftrightarrow> k < 3 \<and> 3 * i + k < 3 * ?n \<and> bit (acts ! i) k"
      using d by (auto simp: bit_and_iff bit_drop_bit_eq bit_seven b)
    also have "\<dots> \<longleftrightarrow> k < 3 \<and> i < length acts \<and> bit (acts ! i) k" using that by auto
    finally show "bit (drop_bit (3 * i) (packLeg acts) AND 7) k \<longleftrightarrow> bit (if i < length acts then acts ! i mod 8 else 0) k"
      by (auto simp: e bit_take_bit_iff)
  qed
  then show "unpackLeg (packLeg acts) = map (\<lambda>i. if i < length acts then acts ! i mod 8 else A_DEFAULT) [0..<16]"
    by (simp add: unpackLeg_def drop_pow LEG_def A_DEFAULT_def)
qed

section \<open>The Daily Gauntlet\<close>

text \<open>The loop of a play walks like \<open>ag_walk\<close>, so a play keeps a run in order and does not retire it.\<close>

lemma play_loop_walk:
  "ag_fine run \<Longrightarrow> \<not> a_retired run \<Longrightarrow> \<not> a_mists run \<Longrightarrow>
     fst (play_loop A world (st, agg, fo, hl) acts is run) =
       fold ag_walk (map (\<lambda>i. (fst (wordsAt A world i), snd (wordsAt A world i), Some agg, Some st, Some fo, Some hl, acts ! i)) is) run"
proof (induction "is" arbitrary: run)
  case (Cons i "is")
  let ?in = "(fst (wordsAt A world i), snd (wordsAt A world i), Some agg, Some st, Some fo, Some hl, acts ! i)"
  show ?case
  proof (cases "ag_over run")
    case True
    then have "fold ag_walk xs run = run" for xs by (induction xs) (simp_all add: walk_fine(3))
    then show ?thesis using True Cons.prems by (auto simp: ag_over_def walk_fine(3))
  next
    case False
    have w: "fst (ag_step (fst (wordsAt A world i)) (snd (wordsAt A world i)) (Some agg) (Some st) (Some fo) (Some hl) (acts ! i) run) = ag_walk ?in run"
      by (simp add: ag_walk_def)
    show ?thesis
      using False Cons.IH [OF walk_fine(1) [OF Cons.prems(1)], of ?in] walk_flags [OF Cons.prems(1), of ?in] Cons.prems(2,3)
      by (simp add: ag_over_def split_beta w)
  qed
qed simp

lemma play_not_retired:
  assumes "ag_fine run" "\<not> a_retired run" "\<not> a_mists run"
  shows "\<not> a_retired (fst (play_loop A world (st, agg, fo, hl) acts is run))"
  unfolding play_loop_walk [OF assms] using walks_fine [OF assms(1)] assms(2) by blast

lemma fine_agg: "ag_fine (run\<lparr>a_agg := n\<rparr>) = ag_fine run"
  by (simp add: ag_fine_def fit_run_def)

text \<open>C27: Gauntlet claims are honest. For any loadout of the board and up to 124 reactions, the claim packed
  from them is accepted with the score the interface showed for stopping at that point: the score of
  the open run, retired if it still stands.\<close>

theorem auto_gauntlet_claim:
  assumes "length tiers = 4" "tiers ! 0 < 4" "\<forall>t \<in> set tiers. t < 8"
    and "acts \<noteq> []" "length acts \<le> STEPS" "\<forall>a \<in> set acts. a < 8"
  shows "ag_verifyClaim A HX day (4 + length acts) (packClaim tiers acts) anchorHash addr =
           int (scoreIfStopped (fst (ag_play A HX (provableSeed ''autogame'' day anchorHash addr) tiers acts True)))"
proof -
  let ?seed = "provableSeed ''autogame'' day anchorHash addr"
  have small: "\<forall>v \<in> set (tiers @ acts). v < 8" using assms(3,6) by auto
  have "unpackMoves (packMoves (tiers @ acts) ACT_BITS) ACT_BITS (length (tiers @ acts)) = tiers @ acts"
    by (rule unpack_pack) (use small in \<open>auto simp: ACT_BITS_def\<close>)
  then have u: "unpackMoves (packClaim tiers acts) ACT_BITS (4 + length acts) = tiers @ acts"
    using assms(1) by (simp add: packClaim_def)
  have n: "4 + length acts > HEAD" "\<not> 4 + length acts > HEAD + STEPS" using assms(4,5) by (simp_all add: HEAD_def)
  have t: "take HEAD (tiers @ acts) = tiers" "drop HEAD (tiers @ acts) = acts" using assms(1) by (simp_all add: HEAD_def)
  have ok: "\<not> (\<exists>v \<in> set (tiers @ acts). v > 7)" "\<not> tiers ! 0 \<ge> length STANCES" "\<not> (\<exists>v \<in> set (drop 1 tiers). v \<ge> TIERS)"
    using small assms(2,3) set_drop_subset [of 1 tiers] by (fastforce simp: STANCES_def TIERS_def)+
  have v: "ag_verifyClaim A HX day (4 + length acts) (packClaim tiers acts) anchorHash addr =
      int (snd (snd (ag_play A HX ?seed tiers acts False)))"
    unfolding ag_verifyClaim_def Let_def u t using n ok by simp
  obtain st agg fo hl where ld: "loadoutOf tiers = (st, agg, fo, hl)" by (metis prod_cases4)
  let ?run0 = "(newRun (Some st) (Some hl) (Some fo))\<lparr>a_agg := agg\<rparr>"
  let ?r1 = "fst (play_loop A (dailyWorld A HX ?seed) (st, agg, fo, hl) acts [0..<min (length acts) STEPS] ?run0)"
  have "\<not> a_retired ?r1"
    by (rule play_not_retired) (simp_all add: fine_agg ag_fine_new, simp_all add: newRun_def)
  then show ?thesis
    unfolding v by (simp add: ag_play_def ld Let_def scoreIfStopped_def split_beta)
qed

theorem auto_gauntlet_claim_witness:
  "ag_verifyClaim (\<lambda>xs. sum_list xs) (\<lambda>s. ''00'') 7 7 (packClaim [1, 2, 3, 4] [1, 0, 5]) ''ab'' ''cd'' =
     int (scoreIfStopped (fst (ag_play (\<lambda>xs. sum_list xs) (\<lambda>s. ''00'') (provableSeed ''autogame'' 7 ''ab'' ''cd'') [1, 2, 3, 4] [1, 0, 5] True)))"
  using auto_gauntlet_claim [of "[1, 2, 3, 4]" "[1, 0, 5]" "\<lambda>xs. sum_list xs" "\<lambda>s. ''00''" 7 "''ab''" "''cd''"]
  by (simp add: STEPS_def HEAD_def)

end
