(* ===== verification/Goldilocks.thy ===== *)
theory Goldilocks
  imports Prelude
begin

text \<open>
  The Goldilocks field and the vector routines of the browser prover
  (\<^verbatim>\<open>static/stark/field.js\<close>) over unbounded integers, as \<^verbatim>\<open>BigInt\<close>. The optional WASM
  backend is a build artefact and taken as absent, so \<open>ntt\<close> and \<open>cosetEvaluate\<close> are the
  JavaScript paths; the twiddle cache only avoids recomputation.
\<close>

declare One_nat_def [simp del]

section \<open>Field arithmetic\<close>

definition FP :: int where "FP = 18446744069414584321"
definition GEN :: int where "GEN = 7"

text \<open>JavaScript's remainder has the sign of the dividend; the source adds \<open>P\<close> and takes it again.\<close>

definition js_rem :: "int \<Rightarrow> int \<Rightarrow> int" where
  "js_rem x p = (if x < 0 then - (- x mod p) else x mod p)"

definition f_mod :: "int \<Rightarrow> int" where "f_mod x = js_rem (js_rem x FP + FP) FP"

definition f_add :: "int \<Rightarrow> int \<Rightarrow> int" where "f_add a b = f_mod (a + b)"
definition f_sub :: "int \<Rightarrow> int \<Rightarrow> int" where "f_sub a b = f_mod (a - b)"
definition f_mul :: "int \<Rightarrow> int \<Rightarrow> int" where "f_mul a b = f_mod (a * b)"

text \<open>Square and multiply; the exponent of the loop is not negative.\<close>

function pw_loop :: "int \<Rightarrow> nat \<Rightarrow> int \<Rightarrow> int" where
  "pw_loop a e r = (if e > 0 then pw_loop (f_mul a a) (e div 2) (if odd e then f_mul r a else r) else r)"
  by pat_completeness auto
termination by (relation "measure (\<lambda>(a, e, r). e)") auto

declare pw_loop.simps [simp del]

definition f_inv :: "int \<Rightarrow> int" where "f_inv a = pw_loop (f_mod (f_mod a)) (nat (FP - 2)) 1"

definition f_pw :: "int \<Rightarrow> int \<Rightarrow> int" where
  "f_pw a e = (if e < 0 then pw_loop (f_mod (f_inv a)) (nat (- e)) 1 else pw_loop (f_mod a) (nat e) 1)"

definition f_div :: "int \<Rightarrow> int \<Rightarrow> int" where "f_div a b = f_mul a (f_inv b)"

section \<open>Batch inversion\<close>

text \<open>The forward loop: the product of the values before each one, and the product of all.\<close>

primrec batch_prefix :: "int \<Rightarrow> int list \<Rightarrow> int list \<times> int" where
  "batch_prefix acc [] = ([], acc)"
| "batch_prefix acc (v # vs) = (case batch_prefix (f_mul acc v) vs of (ps, a) \<Rightarrow> (acc # ps, a))"

text \<open>The backward loop over values and prefixes.\<close>

primrec batch_back :: "int \<Rightarrow> (int \<times> int) list \<Rightarrow> int list \<times> int" where
  "batch_back ia [] = ([], ia)"
| "batch_back ia (vp # vps) =
     (case batch_back ia vps of (out, a) \<Rightarrow> (f_mul (snd vp) a # out, f_mul a (fst vp)))"

definition batchInverse :: "int list \<Rightarrow> int list" where
  "batchInverse vals = (case batch_prefix 1 vals of (ps, acc) \<Rightarrow> fst (batch_back (f_inv acc) (zip vals ps)))"

section \<open>Domains and polynomials\<close>

definition primitiveRootOfUnity :: "nat \<Rightarrow> int" where
  "primitiveRootOfUnity n = f_pw GEN ((FP - 1) div int n)"

text \<open>A domain has at least one element: the root of a domain of size 0 divides by zero.\<close>

primrec dom_loop :: "nat \<Rightarrow> int \<Rightarrow> int \<Rightarrow> int list" where
  "dom_loop 0 w x = [x]"
| "dom_loop (Suc k) w x = x # dom_loop k w (f_mul x w)"

definition domain :: "nat \<Rightarrow> int \<Rightarrow> int list" where
  "domain n off = dom_loop (n - 1) (primitiveRootOfUnity n) (f_mod off)"

definition polyEval :: "int list \<Rightarrow> int \<Rightarrow> int" where
  "polyEval coeffs x = foldr (\<lambda>c acc. f_add (f_mul acc x) c) coeffs 0"

section \<open>The number theoretic transform\<close>

unbundle bit_operations_syntax

function rev_carry :: "nat \<Rightarrow> nat \<Rightarrow> nat \<times> nat" where
  "rev_carry j b = (if j AND b \<noteq> 0 then rev_carry (j XOR b) (b div 2) else (j, b))"
  by pat_completeness auto
termination
proof (relation "measure (\<lambda>(j, b). b)")
  fix j b :: nat assume "j AND b \<noteq> 0"
  then have "b \<noteq> 0" by (metis bit.conj_zero_right and_zero_eq)
  then show "((j XOR b, b div 2), j, b) \<in> measure (\<lambda>(j, b). b)" by simp
qed simp

declare rev_carry.simps [simp del]

text \<open>One turn of the loop of \<^verbatim>\<open>bitrev\<close> at index \<open>i\<close>.\<close>

definition bitrev_step :: "nat \<Rightarrow> nat \<Rightarrow> nat \<times> 'a list \<Rightarrow> nat \<times> 'a list" where
  "bitrev_step n i ja =
     (let (j0, b) = rev_carry (fst ja) (n div 2); j = j0 XOR b
      in (j, if i < j then list_swap (snd ja) i j else snd ja))"

definition bitrev :: "'a list \<Rightarrow> 'a list" where
  "bitrev a = snd (fold (bitrev_step (length a)) [1..<length a] (0, a))"

definition twiddles :: "nat \<Rightarrow> bool \<Rightarrow> int list" where
  "twiddles n bk =
     (let w = (if bk then f_inv (primitiveRootOfUnity n) else primitiveRootOfUnity n)
      in dom_loop (n div 2 - 1) w 1)"

definition butterfly :: "int list \<Rightarrow> nat \<Rightarrow> nat \<Rightarrow> nat \<Rightarrow> nat \<Rightarrow> int list \<Rightarrow> int list" where
  "butterfly tw half stride i m a =
     (let t = tw ! (m * stride); k = i + m; u = a ! k; v = f_mul (a ! (k + half)) t
      in a[k := f_add u v, k + half := f_sub u v])"

text \<open>One pass over blocks of \<open>len\<close> elements; the blocks start at the multiples of \<open>len\<close> below \<open>n\<close>.\<close>

definition ntt_pass :: "nat \<Rightarrow> int list \<Rightarrow> nat \<Rightarrow> int list \<Rightarrow> int list" where
  "ntt_pass n tw len a =
     (let half = len div 2; stride = n div len
      in fold (\<lambda>b. fold (butterfly tw half stride (b * len)) [0..<half]) [0..<(n + len - 1) div len] a)"

function ntt_loop :: "nat \<Rightarrow> int list \<Rightarrow> nat \<Rightarrow> int list \<Rightarrow> int list" where
  "ntt_loop n tw len a = (if 0 < len \<and> len \<le> n then ntt_loop n tw (2 * len) (ntt_pass n tw len a) else a)"
  by pat_completeness auto
termination by (relation "measure (\<lambda>(n, tw, len, a). n + 1 - len)") auto

declare ntt_loop.simps [simp del]

text \<open>
  \<open>None\<close> is an exception: a length that is no power of two, or 0, which passes the test and then
  divides by zero.
\<close>

definition ntt :: "int list \<Rightarrow> bool \<Rightarrow> int list option" where
  "ntt coeffs bk =
     (let n = length coeffs
      in if n AND (n - 1) \<noteq> 0 \<or> n = 0 then None
         else (let a = ntt_loop n (twiddles n bk) 2 (bitrev (map f_mod coeffs))
               in Some (if bk then map (\<lambda>x. f_mul x (f_inv (int n))) a else a)))"

definition interpolate :: "int list \<Rightarrow> int list option" where "interpolate evals = ntt evals True"
definition evaluate :: "int list \<Rightarrow> int list option" where "evaluate coeffs = ntt coeffs False"

text \<open>The coefficients scaled by the powers of the offset, padded with zeros.\<close>

primrec coset_scale :: "int \<Rightarrow> int \<Rightarrow> int list \<Rightarrow> int list" where
  "coset_scale off s [] = []"
| "coset_scale off s (c # cs) = f_mul (f_mod c) s # coset_scale off (f_mul s off) cs"

definition cosetEvaluate :: "int list \<Rightarrow> nat \<Rightarrow> int \<Rightarrow> int list option" where
  "cosetEvaluate coeffs n off =
     evaluate (coset_scale off 1 (take n (coeffs @ replicate (n - length coeffs) 0)))"

section \<open>Arithmetic lemmas\<close>

lemma FP_pos [simp]: "FP > 0" "FP \<noteq> 0" "1 < FP" by (simp_all add: FP_def)

lemma f_mod_mod: "f_mod x = x mod FP"
proof -
  have "0 \<le> x mod FP" "- x mod FP < FP" "FP > 0" by simp_all
  then have "js_rem x FP + FP \<ge> 0" unfolding js_rem_def by (cases "x < 0"; simp only: if_True if_False; linarith)
  then have "f_mod x = (js_rem x FP + FP) mod FP" by (simp add: f_mod_def js_rem_def)
  also have "\<dots> = x mod FP" by (simp add: js_rem_def mod_minus_eq)
  finally show ?thesis .
qed

lemmas field_mod = f_mod_mod f_add_def f_sub_def f_mul_def

lemma f_mul_range [simp]: "0 \<le> f_mul a b" "f_mul a b < FP" by (simp_all add: field_mod)

lemma f_mul_mod [simp]: "f_mul (a mod FP) b = f_mul a b" "f_mul a (b mod FP) = f_mul a b" "f_mul a b mod FP = f_mul a b"
  by (simp_all add: field_mod mod_simps)

lemma f_mul_comm: "f_mul a b = f_mul b a" by (simp add: field_mod mult.commute)

lemma f_mul_assoc: "f_mul (f_mul a b) c = f_mul a (f_mul b c)"
  by (simp add: field_mod mod_simps mult.assoc)

lemma pw_loop_power: "pw_loop a e r mod FP = r * a ^ e mod FP"
proof (induction a e r rule: pw_loop.induct)
  case (1 a e r)
  show ?case
  proof (cases "e > 0")
    case True
    have sq: "a ^ e = (if odd e then a else 1) * (a * a) ^ (e div 2)"
    proof -
      have "a ^ e = a ^ (e mod 2 + 2 * (e div 2))" by simp
      also have "\<dots> = a ^ (e mod 2) * (a * a) ^ (e div 2)" by (simp only: power_add power_mult power2_eq_square)
      finally show ?thesis by (simp add: odd_iff_mod_2_eq_one)
    qed
    have p: "y * f_mul a a ^ k mod FP = y * (a * a) ^ k mod FP" for y k
      unfolding f_mul_def f_mod_mod by (metis mod_mult_right_eq power_mod)
    have q: "f_mul r a * y mod FP = r * (a * y) mod FP" for y
      unfolding f_mul_def f_mod_mod by (metis mod_mult_left_eq mult.assoc)
    have "pw_loop a e r mod FP = (if odd e then f_mul r a else r) * f_mul a a ^ (e div 2) mod FP"
      using True 1 [OF True] by (subst pw_loop.simps) simp
    also have "\<dots> = (if odd e then f_mul r a else r) * (a * a) ^ (e div 2) mod FP" by (rule p)
    also have "\<dots> = r * ((if odd e then a else 1) * (a * a) ^ (e div 2)) mod FP" using q by simp
    finally show ?thesis by (simp only: sq)
  qed (simp add: pw_loop.simps)
qed

end
