(* ===== verification/FieldInverse.thy ===== *)
theory FieldInverse
  imports Goldilocks
begin

text \<open>
  The multiplicative group of the Goldilocks field: 7 has order \<open>P - 1\<close>, so every non-zero residue is
  a power of 7 and \<open>a ^ (P - 1) = 1\<close>; the inverse of the source and its batch version are inverses.
\<close>

declare One_nat_def [simp del]

section \<open>The order of seven\<close>

definition ORD :: nat where "ORD = 18446744069414584320"

lemma ORD_FP: "int ORD = FP - 1" "ORD > 0"
  by (simp_all add: ORD_def FP_def)

lemma ORD_factors: "ORD = 2 ^ 32 * 3 * 5 * 17 * 257 * 65537"
  by (simp add: ORD_def)

text \<open>
  Powers of 7 are computed by the simplifier on numerals. Long division is slow there, so products
  are only folded at bit 64, where \<open>2 ^ 64\<close> is \<open>2 ^ 32 - 1\<close> modulo \<open>P\<close>; one division ends the computation.
\<close>

definition fold64 :: "int \<Rightarrow> int" where "fold64 n = take_bit 64 n + drop_bit 64 n * 4294967295"

lemma fold64_mod: "fold64 n mod FP = n mod FP"
proof -
  have "n = take_bit 64 n + drop_bit 64 n * 18446744073709551616"
    by (simp add: take_bit_eq_mod drop_bit_eq_div)
  then have "n = fold64 n + drop_bit 64 n * FP" by (simp add: fold64_def FP_def)
  then show ?thesis by (metis mod_mult_self1)
qed

definition lazy_mul :: "int \<Rightarrow> int \<Rightarrow> int" where "lazy_mul a b = fold64 (fold64 (fold64 (a * b)))"

lemma lazy_mul_mod: "lazy_mul a b mod FP = a * b mod FP"
  by (simp add: lazy_mul_def fold64_mod)

fun lazy_pow :: "int \<Rightarrow> num \<Rightarrow> int \<Rightarrow> int" where
  "lazy_pow a Num.One r = lazy_mul r a"
| "lazy_pow a (Num.Bit0 n) r = lazy_pow (lazy_mul a a) n r"
| "lazy_pow a (Num.Bit1 n) r = lazy_pow (lazy_mul a a) n (lazy_mul r a)"

lemma lazy_pow_mod: "lazy_pow a n r mod FP = r * a ^ numeral n mod FP"
proof (induction a n r rule: lazy_pow.induct)
  case (1 a r)
  then show ?case by (simp add: lazy_mul_mod)
next
  case (2 a n r)
  have "r * lazy_mul a a ^ numeral n mod FP = r * (a * a) ^ numeral n mod FP"
    by (metis lazy_mul_mod mod_mult_right_eq power_mod)
  then show ?case using 2 by (simp add: numeral_Bit0 power_add power_mult_distrib)
next
  case (3 a n r)
  have "lazy_mul r a * lazy_mul a a ^ numeral n mod FP = r * a * (a * a) ^ numeral n mod FP"
    by (metis lazy_mul_mod mod_mult_eq power_mod)
  also have "r * a * (a * a) ^ numeral n = r * a ^ numeral (num.Bit1 n)"
    by (simp only: numeral_Bit1 power_add power_mult_distrib power_one_right mult_ac)
  finally show ?case using 3 by simp
qed

lemma lazy_value: "7 ^ numeral n mod FP = lazy_pow 7 n 1 mod FP"
  by (simp add: lazy_pow_mod)

lemma ORD_div:
  "ORD div 2 = 9223372034707292160" "ORD div 3 = 6148914689804861440" "ORD div 5 = 3689348813882916864"
  "ORD div 17 = 1085102592318504960" "ORD div 257 = 71777214277877760" "ORD div 65537 = 281470681743360"
  by (simp_all add: ORD_def)

lemmas lazy_simps = lazy_mul_def fold64_def FP_def One_nat_def

lemma seven_0: "(7 :: int) ^ ORD mod FP = 1"
  unfolding ORD_def lazy_value by (simp add: lazy_simps)

lemma seven_1: "(7 :: int) ^ (ORD div 2) mod FP \<noteq> 1"
  unfolding ORD_div lazy_value by (simp add: lazy_simps)

lemma seven_2: "(7 :: int) ^ (ORD div 3) mod FP \<noteq> 1"
  unfolding ORD_div lazy_value by (simp add: lazy_simps)

lemma seven_3: "(7 :: int) ^ (ORD div 5) mod FP \<noteq> 1"
  unfolding ORD_div lazy_value by (simp add: lazy_simps)

lemma seven_4: "(7 :: int) ^ (ORD div 17) mod FP \<noteq> 1"
  unfolding ORD_div lazy_value by (simp add: lazy_simps)

lemma seven_5: "(7 :: int) ^ (ORD div 257) mod FP \<noteq> 1"
  unfolding ORD_div lazy_value by (simp add: lazy_simps)

lemma seven_6: "(7 :: int) ^ (ORD div 65537) mod FP \<noteq> 1"
  unfolding ORD_div lazy_value by (simp add: lazy_simps)

lemma pw_loop_range: "0 \<le> r \<Longrightarrow> r < FP \<Longrightarrow> 0 \<le> pw_loop a e r \<and> pw_loop a e r < FP"
proof (induction a e r rule: pw_loop.induct)
  case (1 a e r)
  then show ?case by (subst (1 2) pw_loop.simps) auto
qed

lemma pw_loop_1: "pw_loop a e 1 = a ^ e mod FP"
  using pw_loop_power [of a e 1] pw_loop_range [of 1 a e] by simp

lemma seven_pow: "7 ^ ORD mod FP = 1" "q \<in> {2, 3, 5, 17, 257, 65537} \<Longrightarrow> 7 ^ (ORD div q) mod FP \<noteq> 1"
proof -
  show "7 ^ ORD mod FP = 1" by (rule seven_0)
  assume "q \<in> {2, 3, 5, 17, 257, 65537}"
  then consider "q = 2" | "q = 3" | "q = 5" | "q = 17" | "q = 257" | "q = 65537" by blast
  then show "7 ^ (ORD div q) mod FP \<noteq> 1"
    by cases (simp_all only: seven_1 seven_2 seven_3 seven_4 seven_5 seven_6 simp_thms)
qed

text \<open>The six factors are primes; a proper divisor of \<open>ORD\<close> divides \<open>ORD div q\<close> for one of them.\<close>

lemma no_small_divisor:
  assumes "\<forall>d \<in> set [2..<m]. \<not> d dvd q" "q < m * m" "k dvd q" "1 < k" "k < (q :: nat)"
  shows False
proof -
  obtain j where j: "q = k * j" using assms(3) by blast
  have "k < m \<or> j < m"
  proof (rule ccontr)
    assume "\<not> (k < m \<or> j < m)"
    then have "m * m \<le> k * j" by (intro mult_le_mono) auto
    then show False using assms(2) j by simp
  qed
  moreover have "1 < j" using j assms(4,5) by (cases "j = 0"; cases "j = 1") auto
  ultimately show False
    using assms(1,4) j dvd_triv_left [of k j] dvd_triv_right [of j k] by (metis Suc_1 Suc_leI atLeastLessThan_iff atLeastLessThan_upt)
qed

lemma factor_prime:
  assumes "q \<in> {2, 3, 5, 17, 257, 65537}" "\<not> coprime k (q :: nat)"
  shows "q dvd k"
proof -
  have small: "\<forall>d \<in> set [2..<2]. \<not> d dvd (2 :: nat)" "\<forall>d \<in> set [2..<2]. \<not> d dvd (3 :: nat)" "\<forall>d \<in> set [2..<3]. \<not> d dvd (5 :: nat)"
    "\<forall>d \<in> set [2..<5]. \<not> d dvd (17 :: nat)" "\<forall>d \<in> set [2..<17]. \<not> d dvd (257 :: nat)" "\<forall>d \<in> set [2..<257]. \<not> d dvd (65537 :: nat)"
    by simp_all
  have g: "gcd k q dvd q" "gcd k q \<noteq> 1" "gcd k q > 0" "q > 0" using assms by (auto simp: coprime_iff_gcd_eq_1)
  have "gcd k q = q"
  proof (rule ccontr)
    assume "gcd k q \<noteq> q"
    then have b: "1 < gcd k q" "gcd k q < q" using g dvd_imp_le [OF g(1) g(4)] by linarith+
    from assms(1) consider "q = 2" | "q = 3" | "q = 5" | "q = 17" | "q = 257" | "q = 65537" by blast
    then show False
    proof cases
      case 1 then show ?thesis using b by simp
    next
      case 2
      then have "gcd k q = 2" using b by simp
      then show ?thesis using g(1) 2 by simp
    next
      case 3 then show ?thesis using b no_small_divisor [OF small(3) _ gcd_dvd2, of k] by simp
    next
      case 4 then show ?thesis using b no_small_divisor [OF small(4) _ gcd_dvd2, of k] by simp
    next
      case 5 then show ?thesis using b no_small_divisor [OF small(5) _ gcd_dvd2, of k] by simp
    next
      case 6 then show ?thesis using b no_small_divisor [OF small(6) _ gcd_dvd2, of k] by simp
    qed
  qed
  then show ?thesis by (metis gcd_dvd1)
qed

lemma proper_divisor:
  assumes "k dvd ORD" "k \<noteq> 1"
  shows "\<exists>q \<in> {2, 3, 5, 17, 257, 65537}. q dvd k"
proof (rule ccontr)
  assume no: "\<not> ?thesis"
  have c: "coprime k q" if "q \<in> {2, 3, 5, 17, 257, 65537}" for q
    using factor_prime [OF that] no that by blast
  have "coprime k ORD" unfolding ORD_factors
    by (simp only: coprime_mult_right_iff coprime_power_right_iff c insert_iff simp_thms)
  then show False using assms by (metis coprime_absorb_left nat_dvd_1_iff_1)
qed

lemma pow_mod_mult: "7 ^ a mod FP = 1 \<Longrightarrow> (7 :: int) ^ (a * b) mod FP = 1"
  unfolding power_mult by (metis FP_pos(3) mod_pos_pos_trivial power_mod power_one zero_le_one)

lemma pow_mod_add: "(7 :: int) ^ (a + b) mod FP = (7 ^ a mod FP) * (7 ^ b mod FP) mod FP"
  by (simp add: power_add mod_mult_eq)

text \<open>No smaller power of 7 is 1.\<close>

lemma seven_order: "0 < d \<Longrightarrow> d < ORD \<Longrightarrow> 7 ^ d mod FP \<noteq> 1"
proof (induction d rule: less_induct)
  case (less d)
  show ?case
  proof
    assume one: "7 ^ d mod FP = 1"
    have "7 ^ (ORD mod d) mod FP = 1"
      using seven_pow(1) pow_mod_add [of "d * (ORD div d)" "ORD mod d"] pow_mod_mult [OF one] by simp
    then have "ORD mod d = 0" using less.IH [of "ORD mod d"] less.prems by (meson bot_nat_0.not_eq_extremum less_trans mod_less_divisor)
    then obtain k where k: "ORD = d * k" by blast
    have "k dvd ORD" "k \<noteq> 1" using k less.prems by (metis dvd_triv_right, auto)
    then obtain q where q: "q \<in> {2, 3, 5, 17, 257, 65537}" "q dvd k" using proper_divisor by blast
    then obtain j where j: "k = q * j" by blast
    have "ORD div q = d * j" using k j q(1) by auto
    then show False using seven_pow(2) [OF q(1)] pow_mod_mult [OF one, of j] by simp
  qed
qed

lemma seven_inj: "inj_on (\<lambda>i. (7 :: int) ^ i mod FP) {..<ORD}"
proof -
  have less: "False" if ij: "i < j" "j < ORD" "(7 :: int) ^ i mod FP = 7 ^ j mod FP" for i j
  proof -
    have "7 ^ (j - i) mod FP = (7 ^ ORD mod FP) * (7 ^ (j - i) mod FP) mod FP" by (simp add: seven_pow)
    also have "\<dots> = 7 ^ ((ORD - i) + j) mod FP" unfolding pow_mod_add [symmetric] using ij by (intro arg_cong [of _ _ "\<lambda>n. 7 ^ n mod FP"]) simp
    also have "\<dots> = 7 ^ ((ORD - i) + i) mod FP" unfolding pow_mod_add ij(3) ..
    also have "\<dots> = 1" using ij by (simp add: seven_pow)
    finally show False using seven_order [of "j - i"] ij by simp
  qed
  show ?thesis by (rule inj_onI) (metis less lessThan_iff linorder_neqE_nat)
qed

text \<open>Every non-zero residue is a power of 7.\<close>

lemma seven_onto: "(\<lambda>i. (7 :: int) ^ i mod FP) ` {..<ORD} = {1..<FP}"
proof (rule card_subset_eq)
  have "7 ^ i mod FP \<noteq> 0" if "i < ORD" for i
    using pow_mod_add [of i "ORD - i"] that seven_pow(1) by auto
  moreover have "0 \<le> (7 :: int) ^ i mod FP" "7 ^ i mod FP < FP" for i by simp_all
  ultimately show "(\<lambda>i. (7 :: int) ^ i mod FP) ` {..<ORD} \<subseteq> {1..<FP}"
    by (force simp: int_one_le_iff_zero_less less_le)
  show "card ((\<lambda>i. (7 :: int) ^ i mod FP) ` {..<ORD}) = card {1..<FP}"
    using card_image [OF seven_inj] ORD_FP by simp
qed simp

lemma fermat:
  assumes "a mod FP \<noteq> 0"
  shows "a ^ ORD mod FP = 1"
proof -
  have "0 \<le> a mod FP" "a mod FP < FP" by simp_all
  then have "a mod FP \<in> {1..<FP}" using assms unfolding atLeastLessThan_iff by linarith
  then obtain i where i: "a mod FP = 7 ^ i mod FP" unfolding seven_onto [symmetric] by (rule imageE)
  have "a ^ ORD mod FP = (a mod FP) ^ ORD mod FP" by (rule power_mod [symmetric])
  also have "\<dots> = (7 ^ i) ^ ORD mod FP" unfolding i by (rule power_mod)
  also have "\<dots> = 7 ^ (ORD * i) mod FP" by (simp add: power_mult [symmetric] mult.commute)
  finally show ?thesis using pow_mod_mult [OF seven_pow(1)] by simp
qed

section \<open>Inverses\<close>

lemma f_inv_power: "f_inv a = a ^ (ORD - 1) mod FP"
proof -
  have "nat (FP - 2) = ORD - 1" by (simp add: FP_def ORD_def)
  then show ?thesis by (simp add: f_inv_def pw_loop_1 f_mod_mod power_mod)
qed

lemma f_inv_range [simp]: "0 \<le> f_inv a" "f_inv a < FP" "f_inv a mod FP = f_inv a"
  by (simp_all add: f_inv_power)

lemma mul_inv: "a mod FP \<noteq> 0 \<Longrightarrow> f_mul a (f_inv a) = 1"
proof -
  assume a: "a mod FP \<noteq> 0"
  have "f_mul a (f_inv a) = a * a ^ (ORD - 1) mod FP" by (simp add: field_mod f_inv_power mod_mult_right_eq)
  also have "a * a ^ (ORD - 1) = a ^ ORD" using ORD_FP(2) by (simp add: power_eq_if)
  finally show ?thesis using fermat [OF a] by simp
qed

lemma inv_unique:
  assumes "f_mul a y = 1" "0 \<le> y" "y < FP"
  shows "y = f_inv a"
proof -
  have "a mod FP \<noteq> 0" using assms(1) by (metis f_mul_mod(1) f_mul_def f_mod_mod mod_0 mult_zero_left zero_neq_one)
  then have "f_mul a (f_inv a) = 1" by (rule mul_inv)
  then have "f_mul (f_mul y a) (f_inv a) = y mod FP" by (simp add: f_mul_assoc) (simp add: field_mod)
  moreover have "f_mul (f_mul y a) (f_inv a) = f_inv a"
    using assms(1) by (simp add: f_mul_comm [of y a]) (simp add: field_mod)
  ultimately show ?thesis using assms(2,3) by simp
qed

lemma unit_mult: "f_mul a x = 1 \<Longrightarrow> f_mul b y = 1 \<Longrightarrow> f_mul (f_mul a b) (f_mul x y) = 1"
proof -
  assume a: "f_mul a x = 1" "f_mul b y = 1"
  have "f_mul (f_mul a b) (f_mul x y) = f_mul (f_mul a x) (f_mul b y)"
    by (metis f_mul_assoc f_mul_comm)
  then show ?thesis using a by (simp add: field_mod)
qed

section \<open>Batch inversion\<close>

lemma batch_product_unit:
  "f_mul acc x = 1 \<Longrightarrow> \<forall>v \<in> set vs. v mod FP \<noteq> 0 \<Longrightarrow> batch_prefix acc vs = (ps, p) \<Longrightarrow> \<exists>y. f_mul p y = 1"
proof (induction vs arbitrary: acc x ps p)
  case (Cons v vs)
  have "f_mul (f_mul acc v) (f_mul x (f_inv v)) = 1" using unit_mult [OF Cons.prems(1) mul_inv, of v] Cons.prems(2) by simp
  then show ?case using Cons.IH Cons.prems(2,3) by (auto split: prod.splits)
qed auto

lemma batch_back_inverse:
  "batch_prefix acc vs = (ps, p) \<Longrightarrow> f_mul p ia = 1 \<Longrightarrow> 0 \<le> ia \<Longrightarrow> ia < FP \<Longrightarrow>
     \<exists>j. batch_back ia (zip vs ps) = (map f_inv vs, j) \<and> f_mul acc j = 1 \<and> 0 \<le> j \<and> j < FP"
proof (induction vs arbitrary: acc ps p)
  case (Cons v vs)
  obtain qs where q: "batch_prefix (f_mul acc v) vs = (qs, p)" "ps = acc # qs"
    using Cons.prems(1) by (auto split: prod.splits)
  from Cons.IH [OF q(1) Cons.prems(2-4)] obtain j where
    j: "batch_back ia (zip vs qs) = (map f_inv vs, j)" "f_mul (f_mul acc v) j = 1" by blast
  have "f_mul v (f_mul acc j) = 1" "f_mul acc (f_mul j v) = 1"
    using j(2) by (metis f_mul_assoc f_mul_comm)+
  then show ?case using j(1) inv_unique [of v "f_mul acc j"] by (simp add: q(2))
qed auto

lemma batch_inverses:
  assumes "\<forall>v \<in> set vals. v mod FP \<noteq> 0"
  shows "batchInverse vals = map f_inv vals"
proof -
  obtain ps p where p: "batch_prefix 1 vals = (ps, p)" by fastforce
  have "f_mul 1 1 = 1" by (simp add: field_mod)
  then obtain y where y: "f_mul p y = 1" using batch_product_unit [OF _ assms p] by blast
  then have "p mod FP \<noteq> 0" by (metis f_mul_mod(1) f_mul_def f_mod_mod mod_0 mult_zero_left zero_neq_one)
  from batch_back_inverse [OF p mul_inv [OF this]] show ?thesis by (auto simp: batchInverse_def p)
qed

end
