(* ===== verification/StarkCommit.thy ===== *)
theory StarkCommit
  imports Goldilocks DailyHash
begin

text \<open>
  Byte packing, Merkle commitments, the Fiat-Shamir transcript and the FRI prover of the browser
  (\<^verbatim>\<open>static/stark/bhash.js\<close>, \<^verbatim>\<open>merkle.js\<close>, \<^verbatim>\<open>transcript.js\<close>,
  \<^verbatim>\<open>fri.js\<close>). Bytes are numbers below 256, digests hexadecimal strings. The blake2b-256 digest of
  bytes as a hexadecimal string is the parameter \<open>B\<close>, \<^verbatim>\<open>hexToBytes\<close> of the vendored library
  the parameter \<open>HB\<close>. The WASM backend is a build artefact and taken as absent.
\<close>

declare One_nat_def [simp del]

section \<open>Byte packing\<close>

definition b2b32 :: "(nat list \<Rightarrow> string) \<Rightarrow> nat list list \<Rightarrow> string" where
  "b2b32 B parts = B (concat parts)"

definition tag_byte :: "char \<Rightarrow> nat list" where "tag_byte c = [of_char c mod 256]"

text \<open>The eight bytes of a field element, lowest first.\<close>

definition i8le :: "int \<Rightarrow> nat list" where
  "i8le v = map (\<lambda>i. nat (((\<lambda>x. x div 256) ^^ i) (f_mod v) mod 256)) [0..<8]"

definition u16le :: "nat \<Rightarrow> nat list" where "u16le n = [n mod 256, n div 256 mod 256]"

section \<open>Merkle commitments\<close>

definition mk_leaf :: "(nat list \<Rightarrow> string) \<Rightarrow> int \<Rightarrow> string" where
  "mk_leaf B x = b2b32 B [[0], i8le x]"

definition mk_node :: "(nat list \<Rightarrow> string) \<Rightarrow> (string \<Rightarrow> nat list) \<Rightarrow> string \<Rightarrow> string \<Rightarrow> string" where
  "mk_node B HB a b = b2b32 B [[1], HB a, HB b]"

text \<open>
  One level of nodes. A level of odd length above one passes \<^verbatim>\<open>undefined\<close> to \<open>hexToBytes\<close>,
  which throws: \<open>None\<close>.
\<close>

fun mk_level :: "(nat list \<Rightarrow> string) \<Rightarrow> (string \<Rightarrow> nat list) \<Rightarrow> string list \<Rightarrow> string list option" where
  "mk_level B HB [] = Some []"
| "mk_level B HB [a] = None"
| "mk_level B HB (a # b # ls) = map_option ((#) (mk_node B HB a b)) (mk_level B HB ls)"

lemma mk_level_length: "mk_level B HB ls = Some ns \<Longrightarrow> length ls = 2 * length ns"
  by (induction B HB ls arbitrary: ns rule: mk_level.induct) auto

text \<open>The layers above a layer, ending with the first that has at most one node.\<close>

function mk_layers :: "(nat list \<Rightarrow> string) \<Rightarrow> (string \<Rightarrow> nat list) \<Rightarrow> string list \<Rightarrow> string list list option" where
  "mk_layers B HB layer =
     (if length layer > 1
      then (case mk_level B HB layer of
              None \<Rightarrow> None
            | Some nx \<Rightarrow> map_option ((#) layer) (mk_layers B HB nx))
      else Some [layer])"
  by pat_completeness auto
termination by (relation "measure (\<lambda>(B, HB, layer). length layer)") (auto dest!: mk_level_length)

declare mk_layers.simps [simp del]

text \<open>Root and layers. An empty vector has no root: the source reads \<^verbatim>\<open>undefined\<close>.\<close>

definition mk_commit :: "(nat list \<Rightarrow> string) \<Rightarrow> (string \<Rightarrow> nat list) \<Rightarrow> int list \<Rightarrow> (string \<times> string list list) option" where
  "mk_commit B HB vals =
     (if vals = [] then None else map_option (\<lambda>ls. (last ls ! 0, ls)) (mk_layers B HB (map (mk_leaf B) vals)))"

definition flip_bit :: "nat \<Rightarrow> nat" where "flip_bit i = (if even i then i + 1 else i - 1)"

fun mk_open :: "string list list \<Rightarrow> nat \<Rightarrow> string list" where
  "mk_open [] i = []"
| "mk_open [l] i = []"
| "mk_open (l # ls) i = l ! flip_bit i # mk_open ls (i div 2)"

primrec mk_climb :: "(nat list \<Rightarrow> string) \<Rightarrow> (string \<Rightarrow> nat list) \<Rightarrow> string list \<Rightarrow> nat \<Rightarrow> string \<Rightarrow> string" where
  "mk_climb B HB [] i h = h"
| "mk_climb B HB (s # ss) i h = mk_climb B HB ss (i div 2) (if i mod 2 = 0 then mk_node B HB h s else mk_node B HB s h)"

definition mk_verify :: "(nat list \<Rightarrow> string) \<Rightarrow> (string \<Rightarrow> nat list) \<Rightarrow> string \<Rightarrow> nat \<Rightarrow> int \<Rightarrow> string list \<Rightarrow> bool" where
  "mk_verify B HB root i v path \<longleftrightarrow> mk_climb B HB path i (mk_leaf B v) = root"

section \<open>The transcript\<close>

text \<open>An absorbed item is a label or digest, as a string, or a field element.\<close>

datatype tr_item = TrText string | TrInt int

definition is_digest :: "string \<Rightarrow> bool" where
  "is_digest s \<longleftrightarrow> length s = 64 \<and> (\<forall>c \<in> set s. c \<in> set ''0123456789abcdef'')"

definition utf8 :: "string \<Rightarrow> nat list" where "utf8 s = map of_char s"

definition enc_item :: "(string \<Rightarrow> nat list) \<Rightarrow> tr_item \<Rightarrow> nat list list" where
  "enc_item HB x =
     (case x of
        TrText s \<Rightarrow>
          if is_digest s then [tag_byte CHR ''H'', HB s]
          else (let bs = utf8 s in [tag_byte CHR ''S'', u16le (length bs), bs])
      | TrInt v \<Rightarrow> [tag_byte CHR ''I'', i8le v])"

definition tr_start :: "(nat list \<Rightarrow> string) \<Rightarrow> string \<Rightarrow> string" where
  "tr_start B label = b2b32 B [tag_byte CHR ''T'', utf8 label]"

definition tr_absorb :: "(nat list \<Rightarrow> string) \<Rightarrow> (string \<Rightarrow> nat list) \<Rightarrow> tr_item list \<Rightarrow> string \<Rightarrow> string" where
  "tr_absorb B HB items st = b2b32 B ([tag_byte CHR ''A'', HB st] @ concat (map (enc_item HB) items))"

definition tr_challenge :: "(nat list \<Rightarrow> string) \<Rightarrow> (string \<Rightarrow> nat list) \<Rightarrow> string \<Rightarrow> int \<times> string" where
  "tr_challenge B HB st =
     (let st' = b2b32 B [tag_byte CHR ''C'', HB st] in (int (hex_value st') mod FP, st'))"

definition tr_index :: "(nat list \<Rightarrow> string) \<Rightarrow> (string \<Rightarrow> nat list) \<Rightarrow> nat \<Rightarrow> string \<Rightarrow> nat \<times> string" where
  "tr_index B HB bound st =
     (let st' = b2b32 B [tag_byte CHR ''X'', HB st] in (hex_value st' mod bound, st'))"

definition grind_ok :: "(nat list \<Rightarrow> string) \<Rightarrow> (string \<Rightarrow> nat list) \<Rightarrow> nat \<Rightarrow> string \<Rightarrow> nat \<Rightarrow> bool" where
  "grind_ok B HB bits st nonce \<longleftrightarrow> hex_value (b2b32 B [tag_byte CHR ''G'', HB st, i8le (int nonce)]) div 2 ^ (256 - bits) = 0"

text \<open>The search for a nonce may run forever; then there is no result.\<close>

partial_function (option) grind_from :: "(nat list \<Rightarrow> string) \<Rightarrow> (string \<Rightarrow> nat list) \<Rightarrow> nat \<Rightarrow> string \<Rightarrow> nat \<Rightarrow> nat option" where
  "grind_from B HB bits st nonce = (if grind_ok B HB bits st nonce then Some nonce else grind_from B HB bits st (nonce + 1))"

definition tr_grind :: "(nat list \<Rightarrow> string) \<Rightarrow> (string \<Rightarrow> nat list) \<Rightarrow> nat \<Rightarrow> string \<Rightarrow> (nat \<times> string) option" where
  "tr_grind B HB bits st =
     map_option (\<lambda>n. (n, tr_absorb B HB [TrText ''grind'', TrInt (int n)] st)) (grind_from B HB bits st 0)"

section \<open>FRI\<close>

definition INV2 :: int where "INV2 = f_inv 2"

definition fri_fold :: "int list \<Rightarrow> int list \<Rightarrow> int \<Rightarrow> int list" where
  "fri_fold evals dm alpha =
     (let half = length evals div 2
      in map (\<lambda>i. let fx = evals ! i; fmx = evals ! (i + half); x = dm ! i;
                      fe = f_mul (f_add fx fmx) INV2; fo = f_mul (f_sub fx fmx) (f_mul INV2 (f_inv x))
                  in f_add fe (f_mul alpha fo)) [0..<half])"

definition NUM_QUERIES :: nat where "NUM_QUERIES = 320"
definition GRIND_BITS :: nat where "GRIND_BITS = 18"

record fri_layer =
  fl_evals :: "int list"
  fl_tree :: "string list list"

record fri_open =
  fo_lo :: int
  fo_lo_path :: "string list"
  fo_hi :: int
  fo_hi_path :: "string list"

record fri_proof =
  fp_N :: nat
  fp_offset :: int
  fp_blowup :: nat
  fp_roots :: "string list"
  fp_final :: "int list"
  fp_pow :: nat
  fp_queries :: "(nat \<times> fri_open list) list"

text \<open>
  The commit phase: commit, absorb the root, fold at the challenge, while the codeword is longer than
  the blowup. \<open>None\<close> is an exception: of a commitment to an odd layer, or of the array of half an
  element when a codeword of one element is folded (a blowup of 0).
\<close>

function fri_commit :: "(nat list \<Rightarrow> string) \<Rightarrow> (string \<Rightarrow> nat list) \<Rightarrow> nat \<Rightarrow> int list \<Rightarrow> int \<Rightarrow> string \<Rightarrow>
    (fri_layer list \<times> string list \<times> int list \<times> string) option" where
  "fri_commit B HB blowup cur off st =
     (if length cur \<le> blowup then Some ([], [], cur, st)
      else if length cur < 2 then None
      else (case mk_commit B HB cur of
              None \<Rightarrow> None
            | Some (root, tree) \<Rightarrow>
                (let (alpha, st') = tr_challenge B HB (tr_absorb B HB [TrText root] st);
                     nxt = fri_fold cur (domain (length cur) off) alpha
                 in map_option (\<lambda>(ls, rs, fin, s). (\<lparr>fl_evals = cur, fl_tree = tree\<rparr> # ls, root # rs, fin, s))
                      (fri_commit B HB blowup nxt (f_mul off off) st'))))"
  by pat_completeness auto
termination
  by (relation "measure (\<lambda>(B, HB, blowup, cur, off, st). length cur)") (auto simp: fri_fold_def Let_def)

declare fri_commit.simps [simp del]

text \<open>The openings of one query along the layers.\<close>

primrec fri_steps :: "fri_layer list \<Rightarrow> nat \<Rightarrow> fri_open list" where
  "fri_steps [] a = []"
| "fri_steps (L # Ls) a =
     (let n = length (fl_evals L); half = n div 2; lo = a mod n mod half
      in \<lparr>fo_lo = fl_evals L ! lo, fo_lo_path = mk_open (fl_tree L) lo,
          fo_hi = fl_evals L ! (lo + half), fo_hi_path = mk_open (fl_tree L) (lo + half)\<rparr> # fri_steps Ls lo)"

primrec fri_queries :: "(nat list \<Rightarrow> string) \<Rightarrow> (string \<Rightarrow> nat list) \<Rightarrow> nat \<Rightarrow> fri_layer list \<Rightarrow> nat \<Rightarrow> string \<Rightarrow> (nat \<times> fri_open list) list" where
  "fri_queries B HB n Ls 0 st = []"
| "fri_queries B HB n Ls (Suc k) st =
     (case tr_index B HB n st of (idx, st') \<Rightarrow> (idx, fri_steps Ls idx) # fri_queries B HB n Ls k st')"

text \<open>An empty codeword throws: its domain divides by zero.\<close>

definition fri_prove :: "(nat list \<Rightarrow> string) \<Rightarrow> (string \<Rightarrow> nat list) \<Rightarrow> int list \<Rightarrow> int \<Rightarrow> nat \<Rightarrow> nat \<Rightarrow> string option \<Rightarrow> fri_proof option" where
  "fri_prove B HB evals off blowup numQueries transcript =
     (let st0 = (case transcript of None \<Rightarrow> tr_start B ''fri'' | Some s \<Rightarrow> s)
      in case (if evals = [] then None else fri_commit B HB blowup evals off st0) of
           None \<Rightarrow> None
         | Some (layers, roots, fin, st1) \<Rightarrow>
             (case tr_grind B HB GRIND_BITS (tr_absorb B HB (TrText ''final'' # map TrInt fin) st1) of
                None \<Rightarrow> None
              | Some (nonce, st2) \<Rightarrow>
                  Some \<lparr>fp_N = length evals, fp_offset = off, fp_blowup = blowup, fp_roots = roots, fp_final = fin,
                        fp_pow = nonce, fp_queries = fri_queries B HB (length evals) layers numQueries st2\<rparr>))"

end
