(* ===== verification/FriFolding.thy ===== *)
theory FriFolding
  imports FieldInverse StarkCommit
begin

text \<open>
  Lemmas on the evaluation domains and on polynomials over the field: where the points of a domain lie,
  how a polynomial splits into its even and odd part, and what one fold of FRI does to its values.
\<close>

declare One_nat_def [simp del]

section \<open>Domains\<close>

lemma f_pw_pos: "e \<ge> 0 \<Longrightarrow> f_pw a e = a ^ nat e mod FP"
  by (simp add: f_pw_def pw_loop_1 f_mod_mod power_mod)

lemma root_power: "n dvd ORD \<Longrightarrow> n > 0 \<Longrightarrow> primitiveRootOfUnity n = 7 ^ (ORD div n) mod FP"
  unfolding primitiveRootOfUnity_def GEN_def
  by (subst f_pw_pos) (simp_all add: ORD_FP(1) [symmetric] zdiv_int [symmetric])

lemma dom_loop_nth: "i \<le> k \<Longrightarrow> dom_loop k w x ! i mod FP = x * w ^ i mod FP"
proof (induction k arbitrary: i x)
  case (Suc k)
  show ?case
  proof (cases i)
    case (Suc j)
    then have "dom_loop (Suc k) w x ! i mod FP = f_mul x w * w ^ j mod FP" using Suc.IH [of j "f_mul x w"] Suc.prems by simp
    also have "\<dots> = x * w * w ^ j mod FP" unfolding f_mul_def f_mod_mod by (metis mod_mult_left_eq)
    finally show ?thesis using Suc by (simp add: mult.assoc)
  qed simp
qed simp

lemma length_dom_loop [simp]: "length (dom_loop k w x) = k + 1"
  by (induction k arbitrary: x) simp_all

lemma length_domain [simp]: "n > 0 \<Longrightarrow> length (domain n off) = n"
  by (simp add: domain_def)

lemma dom_loop_range: "0 \<le> x \<Longrightarrow> x < FP \<Longrightarrow> y \<in> set (dom_loop k w x) \<Longrightarrow> 0 \<le> y \<and> y < FP"
proof (induction k arbitrary: x)
  case (Suc k)
  then show ?case using Suc.IH [of "f_mul x w"] by auto
qed auto

lemma domain_nth: "i < n \<Longrightarrow> domain n off ! i = off * primitiveRootOfUnity n ^ i mod FP"
proof -
  assume i: "i < n"
  then have "domain n off ! i \<in> set (domain n off)" by (intro nth_mem) simp
  then have "0 \<le> domain n off ! i \<and> domain n off ! i < FP"
    unfolding domain_def by (rule dom_loop_range [rotated 2]) (simp_all add: f_mod_mod)
  then have "domain n off ! i = domain n off ! i mod FP" by simp
  also have "\<dots> = (off mod FP) * primitiveRootOfUnity n ^ i mod FP"
    using i by (simp add: domain_def dom_loop_nth f_mod_mod)
  finally show ?thesis by (simp add: mod_mult_left_eq)
qed

lemma half_power: "7 ^ (ORD div 2) mod FP = FP - 1"
proof -
  let ?s = "(7 :: int) ^ (ORD div 2) mod FP"
  have e: "ORD div 2 + ORD div 2 = ORD" by (simp add: ORD_def)
  have "f_mul ?s ?s = 1" using pow_mod_add [of "ORD div 2" "ORD div 2"] unfolding e by (simp add: field_mod seven_pow)
  then have "f_mul (?s + 1) (?s - 1) = 0"
    by (simp add: field_mod algebra_simps) (metis mod_diff_left_eq diff_self mod_0)
  moreover have "(?s - 1) mod FP \<noteq> 0"
  proof
    assume "(?s - 1) mod FP = 0"
    moreover have "0 \<le> ?s" "?s < FP" by simp_all
    moreover have "?s \<noteq> 0"
    proof
      assume "?s = 0"
      then have "f_mul ?s ?s = 0" by (simp add: field_mod)
      then show False using \<open>f_mul ?s ?s = 1\<close> by simp
    qed
    ultimately have "?s - 1 = 0" by (smt (verit) mod_pos_pos_trivial)
    then show False using seven_pow(2) [of 2] by simp
  qed
  ultimately have "f_mul (?s + 1) 1 = 0"
    by (metis f_mul_assoc f_mul_comm mul_inv f_mul_mod(1) mod_0 mult_zero_left f_mul_def f_mod_mod)
  then have "(?s + 1) mod FP = 0" by (simp add: field_mod)
  moreover have "0 \<le> ?s" "?s < FP" by simp_all
  ultimately show ?thesis by (smt (verit) mod_pos_pos_trivial)
qed

section \<open>Polynomials\<close>

lemma polyEval_Nil [simp]: "polyEval [] x = 0"
  by (simp add: polyEval_def)

lemma polyEval_Cons: "polyEval (c # cs) x mod FP = (c + x * polyEval cs x) mod FP"
proof -
  have "polyEval (c # cs) x = f_add (f_mul (polyEval cs x) x) c" by (simp add: polyEval_def)
  then show ?thesis by (simp only: f_add_def f_mul_def f_mod_mod mod_mod_trivial mod_add_left_eq mod_add_right_eq mult.commute add.commute)
qed

lemma f_add_range: "0 \<le> f_add a b" "f_add a b < FP"
  by (simp_all add: field_mod)

lemma polyEval_range: "0 \<le> polyEval cs x \<and> polyEval cs x < FP"
proof (cases cs)
  case (Cons c cs')
  show ?thesis unfolding Cons polyEval_def foldr.simps comp_def by (intro conjI f_add_range)
qed (simp add: polyEval_def)

lemma polyEval_mod [simp]: "polyEval cs x mod FP = polyEval cs x"
  using polyEval_range [of cs x] by simp

lemma polyEval_single [simp]: "polyEval [a] x = a mod FP"
  using polyEval_Cons [of a "[]" x] by simp

text \<open>The even and the odd coefficients, and what a fold by \<open>alpha\<close> makes of them.\<close>

fun evens :: "int list \<Rightarrow> int list" where
  "evens [] = []"
| "evens [a] = [a]"
| "evens (a # b # cs) = a # evens cs"

fun odds :: "int list \<Rightarrow> int list" where
  "odds [] = []"
| "odds [a] = []"
| "odds (a # b # cs) = b # odds cs"

fun fold_coeffs :: "int \<Rightarrow> int list \<Rightarrow> int list" where
  "fold_coeffs alpha [] = []"
| "fold_coeffs alpha [a] = [a]"
| "fold_coeffs alpha (a # b # cs) = f_add a (f_mul alpha b) # fold_coeffs alpha cs"

lemma cong_mult: "a mod FP = b mod FP \<Longrightarrow> c mod FP = d mod FP \<Longrightarrow> a * c mod FP = b * d mod FP"
  by (metis mod_mult_eq)

lemma cong_add: "a mod FP = b mod FP \<Longrightarrow> c mod FP = d mod FP \<Longrightarrow> (a + c) mod FP = (b + d) mod FP"
  by (metis mod_add_eq)

lemma mod_cong_dvd: "(a :: int) mod m = b mod m \<longleftrightarrow> (\<exists>k. a = b + m * k)"
  by (metis mod_eq_dvd_iff dvd_def add.commute diff_eq_eq mult.commute)

lemma split_step:
  assumes "pab mod FP = (a + x * pb) mod FP" "pb mod FP = (b + x * q) mod FP" "q mod FP = (e + x * r) mod FP"
    "y mod FP = x * x mod FP" "ea mod FP = (a + y * e) mod FP" "rb mod FP = (b + y * r) mod FP"
  shows "pab mod FP = (ea + x * rb) mod FP"
proof -
  obtain k1 k2 k3 k4 k5 k6 where k: "pab = a + x * pb + FP * k1" "pb = b + x * q + FP * k2" "q = e + x * r + FP * k3"
      "y = x * x + FP * k4" "ea = a + y * e + FP * k5" "rb = b + y * r + FP * k6"
    using assms unfolding mod_cong_dvd by blast
  have "pab = (ea + x * rb) + FP * (k1 + x * k2 + x * x * k3 - k5 - x * k6 - e * k4 - x * r * k4)"
    unfolding k by (simp add: algebra_simps)
  then show ?thesis unfolding mod_cong_dvd by blast
qed

lemma fold_step:
  assumes "pab mod FP = (f_add a (f_mul alpha b) + y * q) mod FP" "q mod FP = (e + alpha * r) mod FP"
    "ea mod FP = (a + y * e) mod FP" "rb mod FP = (b + y * r) mod FP"
  shows "pab mod FP = (ea + alpha * rb) mod FP"
proof -
  have "f_add a (f_mul alpha b) mod FP = (a + alpha * b) mod FP" unfolding f_add_def f_mul_def f_mod_mod by (simp add: mod_add_right_eq)
  then obtain k1 k2 k3 k4 k5 where k: "pab = f_add a (f_mul alpha b) + y * q + FP * k1" "q = e + alpha * r + FP * k2"
      "ea = a + y * e + FP * k3" "rb = b + y * r + FP * k4" "f_add a (f_mul alpha b) = a + alpha * b + FP * k5"
    using assms unfolding mod_cong_dvd by blast
  have "pab = (ea + alpha * rb) + FP * (k1 + k5 + y * k2 - k3 - alpha * k4)"
    unfolding k(1-4) k(5) by (simp add: algebra_simps)
  then show ?thesis unfolding mod_cong_dvd by blast
qed

lemma split_poly: "y mod FP = x * x mod FP \<Longrightarrow> polyEval cs x mod FP = (polyEval (evens cs) y + x * polyEval (odds cs) y) mod FP"
proof (induction cs rule: evens.induct)
  case (3 a b cs)
  show ?case unfolding evens.simps odds.simps
    by (rule split_step [OF polyEval_Cons polyEval_Cons 3(1) [OF 3(2)] 3(2) polyEval_Cons polyEval_Cons])
qed (simp_all add: polyEval_Cons)

lemma fold_poly: "polyEval (fold_coeffs alpha cs) y mod FP = (polyEval (evens cs) y + alpha * polyEval (odds cs) y) mod FP"
proof (induction cs rule: evens.induct)
  case (3 a b cs)
  show ?case unfolding evens.simps odds.simps fold_coeffs.simps
    by (rule fold_step [OF polyEval_Cons 3 polyEval_Cons polyEval_Cons])
qed (simp_all add: polyEval_Cons)

section \<open>Folding\<close>

lemma two_inv: "2 * INV2 mod FP = 1"
  using mul_inv [of 2] by (simp add: INV2_def field_mod FP_def)

lemma fold_value:
  "f_add (f_mul (f_add u v) i) (f_mul alpha (f_mul (f_sub u v) (f_mul i j))) = ((u + v) * i + alpha * ((u - v) * (i * j))) mod FP"
proof -
  have "f_mul (f_add u v) i = (u + v) * i mod FP" unfolding f_mul_def f_add_def f_mod_mod by (rule mod_mult_left_eq)
  moreover have "f_mul (f_sub u v) (f_mul i j) = (u - v) * (i * j) mod FP" unfolding f_mul_def f_sub_def f_mod_mod by (rule mod_mult_eq)
  then have "f_mul alpha (f_mul (f_sub u v) (f_mul i j)) = alpha * ((u - v) * (i * j)) mod FP"
    unfolding f_mul_def [of alpha] f_mod_mod by (simp only: mod_mult_right_eq)
  ultimately show ?thesis unfolding f_add_def [of "f_mul _ _"] f_mod_mod by (simp only: mod_add_eq)
qed

text \<open>The two values of a pair of opposite points give the even and the odd part.\<close>

lemma fold_pair:
  assumes x: "x mod FP \<noteq> 0" and xm: "xm mod FP = - x mod FP" and y: "y mod FP = x * x mod FP"
  shows "f_add (f_mul (f_add (polyEval cs x) (polyEval cs xm)) INV2)
           (f_mul alpha (f_mul (f_sub (polyEval cs x) (polyEval cs xm)) (f_mul INV2 (f_inv x)))) =
         polyEval (fold_coeffs alpha cs) y"
proof -
  define E G u v where "E = polyEval (evens cs) y" and "G = polyEval (odds cs) y"
    and "u = polyEval cs x" and "v = polyEval cs xm"
  have ym: "y mod FP = xm * xm mod FP"
    using cong_mult [OF xm xm] y by simp
  have "(polyEval (fold_coeffs alpha cs) y) mod FP = (E + alpha * G) mod FP"
    unfolding E_def G_def by (rule fold_poly)
  then have fin: "polyEval (fold_coeffs alpha cs) y = (E + alpha * G) mod FP" by simp
  have "u mod FP = (E + x * G) mod FP" "v mod FP = (E + xm * G) mod FP"
    unfolding E_def G_def u_def v_def by (rule split_poly [OF y], rule split_poly [OF ym])
  moreover have "(x * f_inv x) mod FP = 1 mod FP" "2 * INV2 mod FP = 1 mod FP"
    using mul_inv(1) [OF x] two_inv by (simp_all add: f_mul_def f_mod_mod)
  ultimately obtain k1 k2 k3 k4 k5 where k: "u = E + x * G + FP * k1" "v = E + xm * G + FP * k2"
      "xm = - x + FP * k3" "x * f_inv x = 1 + FP * k4" "2 * INV2 = 1 + FP * k5"
    using xm unfolding mod_cong_dvd by blast
  have "f_add (f_mul (f_add u v) INV2) (f_mul alpha (f_mul (f_sub u v) (f_mul INV2 (f_inv x)))) =
      ((u + v) * INV2 + alpha * ((u - v) * (INV2 * f_inv x))) mod FP"
    by (rule fold_value)
  also have "\<dots> = (E + alpha * G) mod FP"
  proof -
    have 1: "(u + v) * INV2 = E * (2 * INV2) + FP * ((k1 + k2 + k3 * G) * INV2)"
      unfolding k(1,2,3) by (simp add: algebra_simps)
    have 2: "(u - v) * (INV2 * f_inv x) = G * (2 * INV2) * (x * f_inv x) + FP * ((k1 - k2 - k3 * G) * (INV2 * f_inv x))"
      unfolding k(1,2,3) by (simp add: algebra_simps)
    have 3: "E * (1 + FP * k5) = E + FP * (E * k5)" by (simp add: algebra_simps)
    have 4: "G * (1 + FP * k5) * (1 + FP * k4) = G + FP * (G * (k4 + k5 + FP * k4 * k5))" by (simp add: algebra_simps)
    have "(u + v) * INV2 + alpha * ((u - v) * (INV2 * f_inv x)) = E + alpha * G +
        FP * (E * k5 + (k1 + k2 + k3 * G) * INV2 + alpha * (G * (k4 + k5 + FP * k4 * k5) + (k1 - k2 - k3 * G) * (INV2 * f_inv x)))"
      unfolding 1 2 k(4,5) 3 4 by (simp only: distrib_left distrib_right mult.left_commute [of FP] add.assoc add.commute add.left_commute mult.commute [of alpha FP])
    then show ?thesis unfolding mod_cong_dvd by blast
  qed
  finally show ?thesis unfolding fin u_def v_def .
qed

text \<open>Domains of a power-of-two size: opposite points are half a domain apart, squares are the half domain.\<close>

lemma root_half:
  assumes "2 * h dvd ORD" "h > 0"
  shows "primitiveRootOfUnity (2 * h) ^ h mod FP = FP - 1"
    "primitiveRootOfUnity h mod FP = primitiveRootOfUnity (2 * h) * primitiveRootOfUnity (2 * h) mod FP"
proof -
  obtain k where k: "ORD = 2 * h * k" using assms(1) by blast
  have d: "ORD div (2 * h) = k" "ORD div h = k + k" "ORD div 2 = k * h" "h dvd ORD" proof -
    show "ORD div (2 * h) = k" "h dvd ORD" using assms(2) unfolding k by simp_all
    have "ORD = h * (k + k)" "ORD = 2 * (k * h)" by (simp_all add: k)
    then show "ORD div h = k + k" "ORD div 2 = k * h" using assms(2) by (metis nonzero_mult_div_cancel_left not_less_zero, simp)
  qed
  have "primitiveRootOfUnity (2 * h) ^ h mod FP = (7 ^ k) ^ h mod FP"
    using root_power [OF assms(1)] assms(2) by (simp add: d power_mod)
  also have "\<dots> = FP - 1" using half_power by (simp add: d power_mult)
  finally show "primitiveRootOfUnity (2 * h) ^ h mod FP = FP - 1" .
  show "primitiveRootOfUnity h mod FP = primitiveRootOfUnity (2 * h) * primitiveRootOfUnity (2 * h) mod FP"
    using root_power [OF assms(1)] root_power [OF d(4)] assms(2) by (simp add: d power_add mod_mult_eq)
qed

lemma root_nonzero: "n dvd ORD \<Longrightarrow> n > 0 \<Longrightarrow> primitiveRootOfUnity n ^ i mod FP \<noteq> 0"
proof -
  assume n: "n dvd ORD" "n > 0"
  have "primitiveRootOfUnity n ^ i mod FP = 7 ^ (ORD div n * i) mod FP"
    by (simp add: root_power [OF n] power_mod power_mult)
  moreover have "7 ^ m mod FP \<noteq> 0" for m
  proof
    assume z: "7 ^ m mod FP = 0"
    have "7 ^ (m * ORD) mod FP = (7 ^ m mod FP) ^ ORD mod FP" by (simp add: power_mult power_mod)
    also have "\<dots> = 0" using ORD_FP(2) unfolding z zero_power [OF ORD_FP(2)] by simp
    finally show False using pow_mod_mult [OF seven_pow(1), of m] by (simp add: mult.commute)
  qed
  ultimately show ?thesis by simp
qed

lemma product_nonzero: "a mod FP \<noteq> 0 \<Longrightarrow> b mod FP \<noteq> 0 \<Longrightarrow> a * b mod FP \<noteq> 0"
proof
  assume a: "a mod FP \<noteq> 0" "b mod FP \<noteq> 0" "a * b mod FP = 0"
  have "f_mul (f_mul a b) (f_inv b) = f_mul a 1" unfolding f_mul_assoc mul_inv [OF a(2)] ..
  then show False using a(1,3) by (simp add: field_mod)
qed

end
