(* ===== verification/MerkleBinding.thy ===== *)
theory MerkleBinding
  imports StarkCommit
begin

text \<open>
  Lemmas on the Merkle trees of the prover: opened paths climb to the root, and two paths of one length
  to one root start at the same value or show a collision.
\<close>

declare One_nat_def [simp del]

section \<open>Merkle openings\<close>

lemma mk_level_nth:
  "mk_level B HB ls = Some ns \<Longrightarrow> i < length ls \<Longrightarrow> flip_bit i < length ls \<and>
     ns ! (i div 2) = (if i mod 2 = 0 then mk_node B HB (ls ! i) (ls ! flip_bit i) else mk_node B HB (ls ! flip_bit i) (ls ! i))"
proof (induction B HB ls arbitrary: ns i rule: mk_level.induct)
  case (3 B HB a b ls)
  obtain ms where m: "mk_level B HB ls = Some ms" "ns = mk_node B HB a b # ms" using 3(2) by auto
  consider "i = 0" | "i = 1" | j where "i = j + 2" by (metis add.commute One_nat_def Suc_1 add_2_eq_Suc' not0_implies_Suc)
  then show ?case
  proof cases
    case (3 j)
    then show ?thesis using "3.IH" [OF m(1), of j] "3.prems" m(2) by (cases j) (auto simp: flip_bit_def One_nat_def)
  qed (simp_all add: m flip_bit_def One_nat_def)
qed auto

lemma merkle_opens:
  "mk_layers B HB ls = Some m \<Longrightarrow> i < length ls \<Longrightarrow> mk_climb B HB (mk_open m i) i (ls ! i) = last m ! 0 \<and> m \<noteq> []"
proof (induction B HB ls arbitrary: i m rule: mk_layers.induct)
  case (1 B HB layer)
  show ?case
  proof (cases "length layer > 1")
    case True
    obtain nx up where n: "mk_level B HB layer = Some nx" "mk_layers B HB nx = Some up" "m = layer # up"
      using 1(2) True by (subst (asm) mk_layers.simps) (auto split: option.splits)
    have i: "i div 2 < length nx" using mk_level_length [OF n(1)] 1(3) by simp
    have IH: "mk_climb B HB (mk_open up (i div 2)) (i div 2) (nx ! (i div 2)) = last up ! 0 \<and> up \<noteq> []"
      by (rule 1(1) [OF True n(1,2) i])
    then obtain u us where "up = u # us" by (cases up) auto
    then have "mk_open m i = layer ! flip_bit i # mk_open up (i div 2)" by (simp add: n(3))
    then show ?thesis using IH mk_level_nth [OF n(1) 1(3)] by (simp add: n(3))
  next
    case False
    then have "m = [layer]" using 1(2) by (subst (asm) mk_layers.simps) simp
    then show ?thesis using 1(3) False by (cases i) auto
  qed
qed

text \<open>
  The byte strings hashed on the way from a leaf to the root. Two climbs of equal length to one root
  start at the same bytes, or a pair of strings hashed at the same height is a collision.
\<close>

primrec climb_inputs :: "(nat list \<Rightarrow> string) \<Rightarrow> (string \<Rightarrow> nat list) \<Rightarrow> string list \<Rightarrow> nat \<Rightarrow> nat list \<Rightarrow> nat list list" where
  "climb_inputs B HB [] i bs = [bs]"
| "climb_inputs B HB (s # ss) i bs =
     bs # climb_inputs B HB ss (i div 2) (if i mod 2 = 0 then concat [[1], HB (B bs), HB s] else concat [[1], HB s, HB (B bs)])"

definition leaf_bytes :: "int \<Rightarrow> nat list" where "leaf_bytes v = concat [[0], i8le v]"

definition collides :: "(nat list \<Rightarrow> string) \<Rightarrow> nat list list \<Rightarrow> nat list list \<Rightarrow> bool" where
  "collides B us vs \<longleftrightarrow> (\<exists>(u, v) \<in> set (zip us vs). u \<noteq> v \<and> B u = B v)"

lemma collides_Cons [simp]: "collides B (u # us) (v # vs) \<longleftrightarrow> u \<noteq> v \<and> B u = B v \<or> collides B us vs"
  by (auto simp: collides_def)

lemma climb_binding:
  assumes "\<And>x. length (HB (B x)) = 32" "\<And>x y. HB (B x) = HB (B y) \<Longrightarrow> B x = B y"
  shows "length p = length q \<Longrightarrow> mk_climb B HB p i (B x) = mk_climb B HB q i (B y) \<Longrightarrow>
    x = y \<or> collides B (climb_inputs B HB p i x) (climb_inputs B HB q i y)"
proof (induction p q arbitrary: i x y rule: list_induct2)
  case (Cons s ss t ts)
  define u where "u = (if i mod 2 = 0 then concat [[1], HB (B x), HB s] else concat [[1], HB s, HB (B x)])"
  define v where "v = (if i mod 2 = 0 then concat [[1], HB (B y), HB t] else concat [[1], HB t, HB (B y)])"
  have "mk_climb B HB ss (i div 2) (B u) = mk_climb B HB ts (i div 2) (B v)"
    using Cons.prems by (cases "i mod 2 = 0") (simp_all add: u_def v_def mk_node_def b2b32_def)
  then consider "u = v" | "collides B (climb_inputs B HB ss (i div 2) u) (climb_inputs B HB ts (i div 2) v)"
    using Cons.IH by blast
  then show ?case
  proof cases
    case 1
    then have "HB (B x) = HB (B y)"
      by (cases "i mod 2 = 0") (simp_all add: u_def v_def append_eq_append_conv assms(1))
    then show ?thesis using assms(2) by auto
  qed (simp add: u_def v_def)
qed (simp add: collides_def)

lemma digits_unique:
  "x < 256 ^ n \<Longrightarrow> y < 256 ^ n \<Longrightarrow> 0 \<le> x \<Longrightarrow> 0 \<le> y \<Longrightarrow>
     (\<forall>i < n. ((\<lambda>x. x div 256) ^^ i) x mod 256 = ((\<lambda>x. x div 256) ^^ i) y mod (256 :: int)) \<Longrightarrow> x = y"
proof (induction n arbitrary: x y)
  case (Suc n)
  have d: "((\<lambda>x. x div 256) ^^ i) (z div 256) = ((\<lambda>x. x div 256) ^^ Suc i) z" for i and z :: int
    by (simp add: funpow_Suc_right del: funpow.simps)
  have "x mod 256 = y mod 256" using Suc.prems(5) by auto
  moreover have "x div 256 = y div 256"
    by (rule Suc.IH) (use Suc.prems in \<open>auto simp: d div_less_iff_less_mult mult.commute simp del: funpow.simps\<close>)
  ultimately show ?case by (metis mult_div_mod_eq)
qed simp

lemma i8le_inj: "i8le v = i8le w \<Longrightarrow> f_mod v = f_mod w"
proof -
  assume e: "i8le v = i8le w"
  have "((\<lambda>x. x div 256) ^^ i) (f_mod v) mod 256 = ((\<lambda>x. x div 256) ^^ i) (f_mod w) mod 256" if "i < 8" for i
  proof -
    have "i8le v ! i = i8le w ! i" using e by simp
    then show ?thesis using that by (simp add: i8le_def)
  qed
  moreover have "0 \<le> f_mod v" "f_mod v < 256 ^ 8" "0 \<le> f_mod w" "f_mod w < 256 ^ 8"
    using pos_mod_bound [of FP v] pos_mod_bound [of FP w] by (simp_all add: f_mod_mod) (simp_all add: FP_def)
  ultimately show ?thesis using digits_unique [of "f_mod v" 8 "f_mod w"] by blast
qed

end
