(* ===== verification/AlgHash.thy ===== *)
theory AlgHash
  imports Goldilocks DailyHash
begin

text \<open>
  The STARK-friendly hash (\<^verbatim>\<open>static/alghash.js\<close>) and the fixed-depth tree over it
  (\<^verbatim>\<open>static/stark/tree.js\<close>). The module has its own copy of the field arithmetic of
  \<^verbatim>\<open>field.js\<close>, with the same definitions for the non-negative exponents it uses. The blake2b hash
  of a list of strings, as hexadecimal digits, is the parameter \<open>HL\<close>.
\<close>

declare One_nat_def [simp del]

section \<open>The sponge\<close>

definition AH_ROUNDS :: nat where "AH_ROUNDS = 27"
definition ALPHA :: nat where "ALPHA = 7"
definition MDS :: "int list list" where "MDS = [[2, 1], [1, 3]]"

text \<open>The loop of square and multiply, as in the field module.\<close>

definition ah_pw :: "int \<Rightarrow> nat \<Rightarrow> int" where "ah_pw a e = pw_loop (f_mod a) e 1"

definition sbox :: "int \<Rightarrow> int" where "sbox x = ah_pw x ALPHA"

definition ah_const :: "(string list \<Rightarrow> string) \<Rightarrow> string list \<Rightarrow> int" where
  "ah_const HL parts = f_mod (int (hex_value (HL (''poseidon'' # parts))))"

definition rcAt :: "(string list \<Rightarrow> string) \<Rightarrow> nat \<Rightarrow> nat \<Rightarrow> int" where
  "rcAt HL r j = ah_const HL [''rc'', show_nat r, show_nat j]"

definition ivVal :: "(string list \<Rightarrow> string) \<Rightarrow> int" where "ivVal HL = ah_const HL [''iv'']"

definition permute_round :: "(string list \<Rightarrow> string) \<Rightarrow> nat \<Rightarrow> int \<times> int \<Rightarrow> int \<times> int" where
  "permute_round HL r s =
     (let t0 = sbox (f_add (fst s) (rcAt HL r 0)); t1 = sbox (f_add (snd s) (rcAt HL r 1))
      in (f_add (f_mul (MDS ! 0 ! 0) t0) (f_mul (MDS ! 0 ! 1) t1),
          f_add (f_mul (MDS ! 1 ! 0) t0) (f_mul (MDS ! 1 ! 1) t1)))"

definition permute :: "(string list \<Rightarrow> string) \<Rightarrow> int \<times> int \<Rightarrow> int \<times> int" where
  "permute HL s = fold (permute_round HL) [0..<AH_ROUNDS] s"

definition hashn :: "(string list \<Rightarrow> string) \<Rightarrow> int list \<Rightarrow> int" where
  "hashn HL els = fst (fold (\<lambda>m s. permute HL (f_add (fst s) (f_mod m), snd s)) els (0, ivVal HL))"

definition DOM_OWNER :: int where "DOM_OWNER = 1"
definition DOM_CM :: int where "DOM_CM = 2"
definition DOM_NF :: int where "DOM_NF = 3"
definition DOM_NODE :: int where "DOM_NODE = 4"

definition ownerOf :: "(string list \<Rightarrow> string) \<Rightarrow> int \<Rightarrow> int" where "ownerOf HL nsk = hashn HL [DOM_OWNER, nsk]"

definition note_commit :: "(string list \<Rightarrow> string) \<Rightarrow> int \<Rightarrow> int \<Rightarrow> int \<Rightarrow> int" where
  "note_commit HL val owner rho = hashn HL [DOM_CM, val, owner, rho]"

definition nullifier :: "(string list \<Rightarrow> string) \<Rightarrow> int \<Rightarrow> int \<Rightarrow> int" where
  "nullifier HL nsk rho = hashn HL [DOM_NF, nsk, rho]"

definition merkleNode :: "(string list \<Rightarrow> string) \<Rightarrow> int \<Rightarrow> int \<Rightarrow> int" where
  "merkleNode HL l r = hashn HL [DOM_NODE, l, r]"

section \<open>The tree of notes\<close>

definition TREE_DEPTH :: nat where "TREE_DEPTH = 12"
definition EMPTY_LEAF :: int where "EMPTY_LEAF = 0"

text \<open>The empty subtree of each height.\<close>

definition EMPTY :: "(string list \<Rightarrow> string) \<Rightarrow> nat \<Rightarrow> int" where
  "EMPTY HL d = ((\<lambda>e. merkleNode HL e e) ^^ d) EMPTY_LEAF"

text \<open>The next level pairs the nodes, an odd last one with the empty subtree.\<close>

fun tree_level :: "(string list \<Rightarrow> string) \<Rightarrow> nat \<Rightarrow> int list \<Rightarrow> int list" where
  "tree_level HL d [] = []"
| "tree_level HL d [l] = [merkleNode HL l (EMPTY HL d)]"
| "tree_level HL d (l # r # ls) = merkleNode HL l r # tree_level HL d ls"

definition sibling :: "nat \<Rightarrow> nat" where "sibling i = (if even i then i + 1 else i - 1)"

text \<open>The siblings and directions from height \<open>d\<close> for \<open>k\<close> more levels.\<close>

fun tree_path :: "(string list \<Rightarrow> string) \<Rightarrow> nat \<Rightarrow> nat \<Rightarrow> nat \<Rightarrow> int list \<Rightarrow> (int \<times> nat) list" where
  "tree_path HL d 0 idx level = []"
| "tree_path HL d (Suc k) idx level =
     ((if sibling idx < length level then level ! sibling idx else EMPTY HL d), idx mod 2) #
     tree_path HL (d + 1) k (idx div 2) (tree_level HL d level)"

definition treePath :: "(string list \<Rightarrow> string) \<Rightarrow> int list \<Rightarrow> nat \<Rightarrow> (int \<times> nat) list" where
  "treePath HL leaves pos = tree_path HL 0 TREE_DEPTH pos leaves"

end
