(* ===== verification/Posw.thy ===== *)
theory Posw
  imports DailyHash
begin

text \<open>
  The proof of sequential work (\<^verbatim>\<open>static/posw.js\<close>). The injected dependencies are parameters:
  \<open>H\<close> is blake2b with 32 bytes of output, \<open>hex\<close> is \<^verbatim>\<open>bytesToHex\<close> and \<open>UH\<close> is
  \<^verbatim>\<open>hexToBytes\<close>, which throws on malformed text. Bytes are numbers below 256. The asynchronous
  prover computes the same proof between pauses. A segment length \<open>S\<close> of 0 is no use of the
  protocol: the chain of the source would never end.
\<close>

declare One_nat_def [simp del]

type_synonym bytes = "nat list"

section \<open>Merkle tree\<close>

fun pw_level :: "(bytes \<Rightarrow> bytes) \<Rightarrow> bytes list \<Rightarrow> bytes list" where
  "pw_level H [] = []"
| "pw_level H [a] = [H (a @ a)]"
| "pw_level H (a # b # ls) = H (a @ b) # pw_level H ls"

lemma length_pw_level [simp]: "length (pw_level H ls) = (length ls + 1) div 2"
  by (induction H ls rule: pw_level.induct) auto

function merkleLayers :: "(bytes \<Rightarrow> bytes) \<Rightarrow> bytes list \<Rightarrow> bytes list list" where
  "merkleLayers H cur = (if length cur > 1 then cur # merkleLayers H (pw_level H cur) else [cur])"
  by pat_completeness auto
termination by (relation "measure (\<lambda>(H, cur). length cur)") auto

declare merkleLayers.simps [simp del]

definition pw_sib :: "nat \<Rightarrow> nat" where "pw_sib i = (if even i then i + 1 else i - 1)"

fun merkleProof :: "bytes list list \<Rightarrow> nat \<Rightarrow> bytes list" where
  "merkleProof [] i = []"
| "merkleProof [l] i = []"
| "merkleProof (l # ls) i = (if pw_sib i < length l then l ! pw_sib i else l ! i) # merkleProof ls (i div 2)"

primrec pw_climb :: "(bytes \<Rightarrow> bytes) \<Rightarrow> bytes list \<Rightarrow> nat \<Rightarrow> bytes \<Rightarrow> bytes" where
  "pw_climb H [] i h = h"
| "pw_climb H (s # ss) i h = pw_climb H ss (i div 2) (if odd i then H (s @ h) else H (h @ s))"

definition merkleVerify :: "(bytes \<Rightarrow> bytes) \<Rightarrow> bytes \<Rightarrow> nat \<Rightarrow> bytes list \<Rightarrow> bytes \<Rightarrow> bool" where
  "merkleVerify H leaf i path root \<longleftrightarrow> pw_climb H path i leaf = root"

section \<open>Challenges\<close>

definition u32be :: "nat \<Rightarrow> bytes" where
  "u32be i = [i div 2 ^ 24 mod 256, i div 2 ^ 16 mod 256, i div 2 ^ 8 mod 256, i mod 256]"

definition fiatShamir :: "(bytes \<Rightarrow> bytes) \<Rightarrow> (bytes \<Rightarrow> string) \<Rightarrow> bytes \<Rightarrow> nat \<Rightarrow> nat \<Rightarrow> nat list" where
  "fiatShamir H hex root C k = map (\<lambda>i. hex_value (hex (H (root @ u32be i))) mod C) [0..<k]"

definition pw_segments :: "(bytes \<Rightarrow> bytes) \<Rightarrow> (bytes \<Rightarrow> string) \<Rightarrow> bytes \<Rightarrow> nat \<Rightarrow> nat \<Rightarrow> nat list" where
  "pw_segments H hex root C k = sort (remdups (0 # fiatShamir H hex root C k))"

definition challengeBytes :: "string \<Rightarrow> string \<Rightarrow> bytes" where
  "challengeBytes address anchorHash = map of_char (address @ ''|'' @ anchorHash)"

section \<open>Prover\<close>

record pw_opening =
  op_j :: nat
  op_cj :: string
  op_cj1 :: string
  op_pj :: "string list"
  op_pj1 :: "string list"

record pw_proof =
  pp_root :: string
  pp_openings :: "pw_opening list"

text \<open>The checkpoints: a hash and its iterates, \<open>S\<close> steps apart.\<close>

primrec checkpoints :: "(bytes \<Rightarrow> bytes) \<Rightarrow> nat \<Rightarrow> nat \<Rightarrow> bytes \<Rightarrow> bytes list" where
  "checkpoints H S 0 h = [h]"
| "checkpoints H S (Suc c) h = h # checkpoints H S c ((H ^^ S) h)"

definition buildProof :: "(bytes \<Rightarrow> bytes) \<Rightarrow> (bytes \<Rightarrow> string) \<Rightarrow> bytes list \<Rightarrow> nat \<Rightarrow> nat \<Rightarrow> pw_proof" where
  "buildProof H hex cps C k =
     (let layers = merkleLayers H cps; root = last layers ! 0; segs = pw_segments H hex root C k
      in \<lparr>pp_root = hex root,
          pp_openings = map (\<lambda>j. \<lparr>op_j = j, op_cj = hex (cps ! j), op_cj1 = hex (cps ! (j + 1)),
             op_pj = map hex (merkleProof layers j), op_pj1 = map hex (merkleProof layers (j + 1))\<rparr>) segs\<rparr>)"

text \<open>Without a whole segment (\<open>T < S\<close>) the opening of segment 0 reads past the checkpoints and throws.\<close>

definition poswProve :: "(bytes \<Rightarrow> bytes) \<Rightarrow> (bytes \<Rightarrow> string) \<Rightarrow> bytes \<Rightarrow> nat \<Rightarrow> nat \<Rightarrow> nat \<Rightarrow> pw_proof option" where
  "poswProve H hex challenge T S k =
     (let C = T div S in if C = 0 then None else Some (buildProof H hex (checkpoints H S C (H challenge)) C k))"

section \<open>Verifier\<close>

text \<open>Every exception of the verifier, also a remainder by zero, counts as a rejection.\<close>

fun unhex_all :: "(string \<Rightarrow> bytes option) \<Rightarrow> string list \<Rightarrow> bytes list option" where
  "unhex_all UH [] = Some []"
| "unhex_all UH (s # ss) =
     (case UH s of None \<Rightarrow> None | Some b \<Rightarrow> map_option ((#) b) (unhex_all UH ss))"

definition opening_ok :: "(bytes \<Rightarrow> bytes) \<Rightarrow> (string \<Rightarrow> bytes option) \<Rightarrow> bytes \<Rightarrow> bytes \<Rightarrow> nat \<Rightarrow> nat \<Rightarrow> pw_opening \<Rightarrow> bool" where
  "opening_ok H UH root h0 S j w =
     (case (UH (op_cj w), UH (op_cj1 w), unhex_all UH (op_pj w), unhex_all UH (op_pj1 w)) of
        (Some cj, Some cj1, Some pj, Some pj1) \<Rightarrow>
          merkleVerify H cj j pj root \<and> merkleVerify H cj1 (j + 1) pj1 root \<and>
          (j = 0 \<longrightarrow> cj = h0) \<and> (H ^^ S) cj = cj1
      | _ \<Rightarrow> False)"

text \<open>A later opening of a segment replaces an earlier one.\<close>

definition poswVerify :: "(bytes \<Rightarrow> bytes) \<Rightarrow> (bytes \<Rightarrow> string) \<Rightarrow> (string \<Rightarrow> bytes option) \<Rightarrow> bytes \<Rightarrow> pw_proof \<Rightarrow> nat \<Rightarrow> nat \<Rightarrow> nat \<Rightarrow> bool" where
  "poswVerify H hex UH challenge pf T S k =
     (let C = T div S
      in case UH (pp_root pf) of
           None \<Rightarrow> False
         | Some root \<Rightarrow>
             if C = 0 \<and> k > 0 then False
             else (let expected = pw_segments H hex root C k; opened = map_of (rev (map (\<lambda>w. (op_j w, w)) (pp_openings pf)))
                   in sort (remdups (map op_j (pp_openings pf))) = expected \<and>
                      (\<forall>j \<in> set expected. case opened j of None \<Rightarrow> False | Some w \<Rightarrow> opening_ok H UH root (H challenge) S j w)))"

section \<open>Honest proofs\<close>

lemma pw_level_nth:
  "i < length ls \<Longrightarrow> pw_level H ls ! (i div 2) =
     (if odd i then H (ls ! pw_sib i @ ls ! i)
      else H (ls ! i @ (if pw_sib i < length ls then ls ! pw_sib i else ls ! i)))"
proof (induction H ls arbitrary: i rule: pw_level.induct)
  case (3 H a b ls)
  consider "i = 0" | "i = 1" | j where "i = j + 2" by (metis add.commute One_nat_def Suc_1 add_2_eq_Suc' not0_implies_Suc)
  then show ?case
  proof cases
    case (3 j)
    then show ?thesis using "3.IH" [of j] "3.prems" by (cases j) (auto simp: pw_sib_def One_nat_def)
  qed (simp_all add: pw_sib_def)
qed (auto simp: pw_sib_def)

lemma merkle_complete:
  "i < length ls \<Longrightarrow> pw_climb H (merkleProof (merkleLayers H ls) i) i (ls ! i) = last (merkleLayers H ls) ! 0"
proof (induction H ls arbitrary: i rule: merkleLayers.induct)
  case (1 H cur)
  show ?case
  proof (cases "length cur > 1")
    case True
    let ?up = "merkleLayers H (pw_level H cur)"
    have l: "merkleLayers H cur = cur # ?up" using True by (subst merkleLayers.simps) simp
    have ne: "?up \<noteq> []" by (subst merkleLayers.simps) simp
    then obtain x xs where up: "?up = x # xs" by (cases ?up) auto
    have p: "merkleProof (cur # ?up) i = (if pw_sib i < length cur then cur ! pw_sib i else cur ! i) # merkleProof ?up (i div 2)"
      unfolding up by simp
    have "odd i \<Longrightarrow> pw_sib i < length cur" using 1(2) by (simp add: pw_sib_def)
    then have "pw_climb H (merkleProof (cur # ?up) i) i (cur ! i) = pw_climb H (merkleProof ?up (i div 2)) (i div 2) (pw_level H cur ! (i div 2))"
      unfolding p using pw_level_nth [OF 1(2)] by auto
    also have "\<dots> = last ?up ! 0" by (rule 1(1) [OF True]) (use 1(2) in simp)
    finally show ?thesis using ne by (simp add: l)
  next
    case False
    then have "merkleLayers H cur = [cur]" by (subst merkleLayers.simps) simp
    then show ?thesis using 1(2) False by (cases i) auto
  qed
qed

lemma checkpoints_nth: "m \<le> c \<Longrightarrow> checkpoints H S c h ! m = (H ^^ (S * m)) h"
proof (induction c arbitrary: m h)
  case (Suc c)
  show ?case
  proof (cases m)
    case (Suc n)
    then show ?thesis using Suc.IH [of n "(H ^^ S) h"] Suc.prems by (simp add: funpow_add [symmetric, THEN fun_cong, simplified comp_def] add.commute)
  qed simp
qed simp

lemma length_checkpoints [simp]: "length (checkpoints H S c h) = c + 1"
  by (induction c arbitrary: h) simp_all

lemma unhex_hex: "\<forall>x. UH (hex x) = Some x \<Longrightarrow> unhex_all UH (map hex xs) = Some xs"
  by (induction xs) simp_all

lemma sort_same: "distinct xs \<Longrightarrow> sorted xs \<Longrightarrow> sort (remdups xs) = (xs :: nat list)"
  by (simp add: sorted_sort_id distinct_remdups_id)

lemma segments_props:
  "distinct (pw_segments H hex root C k)" "sorted (pw_segments H hex root C k)"
  "C > 0 \<Longrightarrow> j \<in> set (pw_segments H hex root C k) \<Longrightarrow> j < C"
  by (auto simp: pw_segments_def fiatShamir_def split: if_splits)

lemma posw_honest:
  assumes hx: "\<forall>x. UH (hex x) = Some x" and c: "T div S > 0"
  shows "poswVerify H hex UH challenge (buildProof H hex (checkpoints H S (T div S) (H challenge)) (T div S) k) T S k"
proof -
  let ?C = "T div S" and ?h0 = "H challenge"
  define cps where "cps = checkpoints H S ?C ?h0"
  define layers where "layers = merkleLayers H cps"
  define root where "root = last layers ! 0"
  define segs where "segs = pw_segments H hex root ?C k"
  define opn where "opn = (\<lambda>j. \<lparr>op_j = j, op_cj = hex (cps ! j), op_cj1 = hex (cps ! (j + 1)),
      op_pj = map hex (merkleProof layers j), op_pj1 = map hex (merkleProof layers (j + 1))\<rparr>)"
  have pf: "buildProof H hex cps ?C k = \<lparr>pp_root = hex root, pp_openings = map opn segs\<rparr>"
    by (simp add: buildProof_def Let_def layers_def root_def segs_def opn_def)
  have js: "map op_j (map opn segs) = segs" by (simp add: opn_def comp_def)
  have good: "opening_ok H UH root ?h0 S j (opn j)" if "j \<in> set segs" for j
  proof -
    have j: "j < ?C" using segments_props(3) [OF c that [unfolded segs_def]] .
    have cp: "cps ! m = (H ^^ (S * m)) ?h0" if "m \<le> ?C" for m using checkpoints_nth [OF that] by (simp add: cps_def)
    have v: "merkleVerify H (cps ! m) m (merkleProof layers m) root" if "m \<le> ?C" for m
      unfolding merkleVerify_def layers_def root_def by (rule merkle_complete) (use that in \<open>simp add: cps_def\<close>)
    have "(H ^^ S) (cps ! j) = cps ! (j + 1)"
      using cp [of j] cp [of "j + 1"] j by (simp add: funpow_add [symmetric, THEN fun_cong, simplified comp_def] distrib_left add.commute [of S])
    moreover have "j = 0 \<longrightarrow> cps ! j = ?h0" using cp [of 0] by simp
    ultimately show ?thesis
      using v [of j] v [of "j + 1"] j by (simp add: opening_ok_def opn_def hx unhex_hex [OF hx])
  qed
  have "map_of (rev (map (\<lambda>w. (op_j w, w)) (map opn segs))) j = Some (opn j)" if "j \<in> set segs" for j
  proof -
    have "distinct (map fst (rev (map (\<lambda>j. (j, opn j)) segs)))"
      using segments_props(1) by (simp add: rev_map [symmetric] comp_def segs_def)
    moreover have "(j, opn j) \<in> set (rev (map (\<lambda>j. (j, opn j)) segs))" using that by auto
    ultimately show ?thesis by (simp add: map_of_eq_Some_iff comp_def opn_def)
  qed
  then show ?thesis
    using good c unfolding poswVerify_def cps_def [symmetric] pf
    by (simp add: hx Let_def js [unfolded map_map comp_def] sort_same segments_props segs_def [symmetric] comp_def)
      (simp add: opn_def comp_def segs_def sort_same segments_props)
qed

end
