(* ===== verification/StarkProperties.thy ===== *)
theory StarkProperties
  imports FriFolding MerkleBinding AlgHash Posw
begin

text \<open>
  The properties of the prover's components: field inverses, folding of codewords, Merkle openings, and
  proofs of sequential work.
\<close>

declare One_nat_def [simp del]

section \<open>Inverses\<close>

text \<open>C28: Inverses are inverses. For every value that is not 0 modulo \<open>P\<close> the power the source computes is
  its inverse in the field, division undoes multiplication, and the batch routine with its single
  inversion gives the inverse of each value of a vector without zeros.\<close>

theorem stark_inverses:
  assumes "\<forall>v \<in> set vals. v mod FP \<noteq> 0"
  shows "batchInverse vals = map f_inv vals \<and>
         (\<forall>v \<in> set vals. f_mul v (f_inv v) = 1 \<and> 0 \<le> f_inv v \<and> f_inv v < FP \<and>
            (\<forall>b. f_mul (f_div b v) v = b mod FP))"
proof -
  have "f_mul (f_div b v) v = b mod FP" if "v mod FP \<noteq> 0" for b v
  proof -
    have "f_mul (f_div b v) v = f_mul b (f_mul v (f_inv v))"
      by (metis f_div_def f_mul_assoc f_mul_comm)
    then show ?thesis by (simp add: mul_inv [OF that]) (simp add: field_mod)
  qed
  then show ?thesis using assms by (simp add: batch_inverses mul_inv)
qed

theorem stark_inverses_witness: "batchInverse [2, -3] = map f_inv [2, -3] \<and> f_mul 2 (f_inv 2) = 1"
  using stark_inverses [of "[2, -3]"] by (simp add: FP_def)

section \<open>FRI\<close>

text \<open>C29: Folding a codeword folds the polynomial. When a codeword holds the values of a polynomial on a coset
  of even size, the fold by \<open>alpha\<close> holds the values, on the coset of the squares, of the polynomial
  whose coefficients are the even ones plus \<open>alpha\<close> times the odd ones; so each round of FRI halves
  the degree with the codeword.\<close>

theorem fri_folds_polynomial:
  assumes "2 * h dvd ORD" "h > 0" "off mod FP \<noteq> 0"
  shows "fri_fold (map (polyEval cs) (domain (2 * h) off)) (domain (2 * h) off) alpha =
         map (polyEval (fold_coeffs alpha cs)) (domain h (f_mul off off))"
proof (rule nth_equalityI)
  show "length (fri_fold (map (polyEval cs) (domain (2 * h) off)) (domain (2 * h) off) alpha) =
      length (map (polyEval (fold_coeffs alpha cs)) (domain h (f_mul off off)))"
    using assms(2) by (simp add: fri_fold_def)
  fix i assume "i < length (fri_fold (map (polyEval cs) (domain (2 * h) off)) (domain (2 * h) off) alpha)"
  then have i: "i < h" using assms(2) by (simp add: fri_fold_def)
  let ?w = "primitiveRootOfUnity (2 * h)" and ?d = "domain (2 * h) off" and ?x = "domain (2 * h) off ! i"
  have x: "?x = off * ?w ^ i mod FP" by (rule domain_nth) (use i in simp)
  then have nz: "?x mod FP \<noteq> 0"
    using product_nonzero [OF assms(3) root_nonzero [OF assms(1)]] assms(2) by simp
  have "?d ! (i + h) = off * ?w ^ (i + h) mod FP" by (rule domain_nth) (use i in simp)
  also have "\<dots> = (off * ?w ^ i) * ?w ^ h mod FP" by (simp add: power_add mult.assoc)
  also have "\<dots> = (off * ?w ^ i) * (FP - 1) mod FP"
    by (intro cong_mult refl) (use root_half(1) [OF assms(1,2)] in \<open>simp add: FP_def\<close>)
  also have "(off * ?w ^ i) * (FP - 1) = - (off * ?w ^ i) + off * ?w ^ i * FP" by (simp add: algebra_simps)
  also have "(- (off * ?w ^ i) + off * ?w ^ i * FP) mod FP = - (off * ?w ^ i) mod FP" by (rule mod_mult_self1)
  also have "\<dots> = - ?x mod FP" by (simp add: x mod_minus_eq)
  finally have xm: "?d ! (i + h) mod FP = - ?x mod FP" by simp
  let ?y = "domain h (f_mul off off) ! i"
  have "?y = f_mul off off * primitiveRootOfUnity h ^ i mod FP" by (rule domain_nth [OF i])
  also have "\<dots> = (off * off) * (?w * ?w) ^ i mod FP"
    by (intro cong_mult) (simp add: field_mod, metis root_half(2) [OF assms(1,2)] power_mod)
  also have "\<dots> = (off * ?w ^ i) * (off * ?w ^ i) mod FP" by (simp add: power_mult_distrib algebra_simps)
  also have "\<dots> = ?x * ?x mod FP" unfolding x by (rule mod_mult_eq [symmetric])
  finally have y: "?y mod FP = ?x * ?x mod FP" by simp
  show "fri_fold (map (polyEval cs) ?d) ?d alpha ! i = map (polyEval (fold_coeffs alpha cs)) (domain h (f_mul off off)) ! i"
    using i assms(2) fold_pair [OF nz xm y, of cs alpha] by (simp add: fri_fold_def Let_def)
qed

theorem fri_folds_polynomial_witness:
  "fri_fold (map (polyEval [5, 6, 7]) (domain 8 3)) (domain 8 3) 11 =
   map (polyEval (fold_coeffs 11 [5, 6, 7])) (domain 4 (f_mul 3 3))"
  using fri_folds_polynomial [of 4 3 "[5, 6, 7]" 11] by (simp add: ORD_def FP_def)

section \<open>Merkle openings\<close>

text \<open>C30: Merkle openings. The path a commitment opens at an index verifies with the committed value, and
  any path of the same length that verifies at this index shows the same field element, unless two
  different byte strings hashed at the same height of the two climbs have one blake2b digest, so
  that a false opening exhibits a collision. (A digest is 32 bytes, and its hexadecimal form
  determines it.)\<close>

theorem merkle_openings:
  assumes "mk_commit B HB vals = Some (root, m)" "i < length vals"
    and "\<forall>x. length (HB (B x)) = 32" "\<forall>x y. HB (B x) = HB (B y) \<longrightarrow> B x = B y"
  shows "mk_verify B HB root i (vals ! i) (mk_open m i) \<and>
         (\<forall>v path. length path = length (mk_open m i) \<and> mk_verify B HB root i v path \<longrightarrow>
            f_mod v = f_mod (vals ! i) \<or>
            collides B (climb_inputs B HB path i (leaf_bytes v)) (climb_inputs B HB (mk_open m i) i (leaf_bytes (vals ! i))))"
proof -
  have m: "mk_layers B HB (map (mk_leaf B) vals) = Some m" "root = last m ! 0"
    using assms(1) by (auto simp: mk_commit_def split: if_splits)
  have ok: "mk_verify B HB root i (vals ! i) (mk_open m i)"
    using merkle_opens [OF m(1), of i] assms(2) by (simp add: mk_verify_def m(2))
  have leaf: "mk_leaf B v = B (leaf_bytes v)" for v by (simp add: mk_leaf_def b2b32_def leaf_bytes_def)
  have "leaf_bytes v = leaf_bytes (vals ! i) \<or>
      collides B (climb_inputs B HB path i (leaf_bytes v)) (climb_inputs B HB (mk_open m i) i (leaf_bytes (vals ! i)))"
    if p: "length path = length (mk_open m i)" "mk_verify B HB root i v path" for v path
    by (rule climb_binding [OF _ _ p(1)]) (use assms(3,4) p(2) ok in \<open>simp_all add: mk_verify_def leaf\<close>)
  moreover have "f_mod v = f_mod w" if "leaf_bytes v = leaf_bytes w" for v w
    using that i8le_inj [of v w] by (simp add: leaf_bytes_def)
  ultimately show ?thesis using ok by blast
qed

theorem merkle_openings_witness:
  "\<exists>root m. mk_commit (\<lambda>bs. replicate 31 CHR ''a'' @ [if hd bs = 0 then CHR ''b'' else CHR ''c'']) (map of_char) [7, 8] = Some (root, m) \<and>
     mk_verify (\<lambda>bs. replicate 31 CHR ''a'' @ [if hd bs = 0 then CHR ''b'' else CHR ''c'']) (map of_char) root 1 8 (mk_open m 1)"
proof -
  let ?B = "\<lambda>bs :: nat list. replicate 31 CHR ''a'' @ [if hd bs = 0 then CHR ''b'' else CHR ''c'']"
  obtain root m where c: "mk_commit ?B (map of_char) [7, 8] = Some (root, m)"
    by (simp add: mk_commit_def mk_layers.simps)
  have h: "\<forall>x. length (map of_char (?B x) :: nat list) = 32" "\<forall>x y. (map of_char (?B x) :: nat list) = map of_char (?B y) \<longrightarrow> ?B x = ?B y"
    by simp_all
  have "mk_verify ?B (map of_char) root 1 ([7, 8] ! 1) (mk_open m 1)"
    using merkle_openings [OF c _ h, of 1] by simp
  then show ?thesis using c by auto
qed

section \<open>Sequential work\<close>

text \<open>C31: Honest work verifies. For every hash, challenge, number of queries \<open>k\<close> and work of at least one
  segment of \<open>S\<close> steps, the prover returns a proof and the verifier accepts it, provided
  \<^verbatim>\<open>hexToBytes\<close> reads back what \<^verbatim>\<open>bytesToHex\<close> writes.\<close>

theorem posw_honest_verifies:
  assumes "\<forall>x. UH (hex x) = Some x" "0 < S" "S \<le> T"
  shows "\<exists>pf. poswProve H hex challenge T S k = Some pf \<and> poswVerify H hex UH challenge pf T S k"
proof -
  have "T div S > 0" using assms(2,3) by (simp add: div_greater_zero_iff)
  then show ?thesis using posw_honest [OF assms(1), of T S H challenge k] by (simp add: poswProve_def Let_def)
qed

text \<open>The witness writes a byte list in unary, one group of marks per byte.\<close>

primrec unary :: "nat list \<Rightarrow> string" where
  "unary [] = []"
| "unary (n # ns) = replicate n CHR ''1'' @ CHR ''0'' # unary ns"

fun read_unary :: "nat \<Rightarrow> string \<Rightarrow> nat list" where
  "read_unary n [] = []"
| "read_unary n (c # cs) = (if c = CHR ''1'' then read_unary (n + 1) cs else n # read_unary 0 cs)"

lemma read_marks: "read_unary m (replicate n CHR ''1'' @ CHR ''0'' # cs) = (m + n) # read_unary 0 cs"
  by (induction n arbitrary: m) simp_all

lemma unary_read: "Some (read_unary 0 (unary ns)) = Some ns"
  by (induction ns) (simp_all add: read_marks)

theorem posw_honest_verifies_witness:
  "\<exists>pf. poswProve (\<lambda>b. [length b, hd b + 1]) unary [1, 2] 6 2 3 = Some pf \<and>
     poswVerify (\<lambda>b. [length b, hd b + 1]) unary (\<lambda>s. Some (read_unary 0 s)) [1, 2] pf 6 2 3"
  using posw_honest_verifies [of "\<lambda>s. Some (read_unary 0 s)" unary 2 6 "\<lambda>b. [length b, hd b + 1]" "[1, 2]" 3] unary_read
  by simp

end
