(* ===== verification/Poker.thy ===== *)
theory Poker
  imports Prelude "HOL-Library.Word"
begin

text \<open>
  The heads-up poker engine (\<^verbatim>\<open>static/poker-engine.js\<close>): the seeded generator over 32-bit words, the
  deal, the evaluation of a hand and the comparison of two. Words are unsigned, as the source makes them
  with \<^verbatim>\<open>>>> 0\<close>; its signed intermediate values have the same bits. The labels that
  print a card are left out.
\<close>

unbundle bit_operations_syntax

declare One_nat_def [simp del]

section \<open>The generator\<close>

definition fnv_char :: "char \<Rightarrow> 32 word \<Rightarrow> 32 word" where
  "fnv_char c h = (h XOR of_char c) * 0x01000193"

definition seedTo32 :: "string \<Rightarrow> 32 word" where
  "seedTo32 s =
     (let h0 = fold fnv_char s 0x811c9dc5;
          h1 = (h0 XOR drop_bit 16 h0) * 0x7feb352d;
          h2 = (h1 XOR drop_bit 15 h1) * 0x846ca68b
      in h2 XOR drop_bit 16 h2)"

definition mulberry_out :: "32 word \<Rightarrow> 32 word" where
  "mulberry_out state =
     (let t1 = (state XOR drop_bit 15 state) * (state OR 1);
          t2 = t1 XOR (t1 + (t1 XOR drop_bit 7 t1) * (t1 OR 61))
      in t2 XOR drop_bit 14 t2)"

text \<open>A call: the output and the new state.\<close>

definition mulberry32 :: "32 word \<Rightarrow> 32 word \<times> 32 word" where
  "mulberry32 a = (let state = a + 0x6d2b79f5 in (mulberry_out state, state))"

text \<open>The rejection loop; that it ends is a theorem below.\<close>

partial_function (option) reject_loop :: "nat \<Rightarrow> 32 word \<Rightarrow> (nat \<times> 32 word) option" where
  "reject_loop limit st =
     (case mulberry32 st of (x, st') \<Rightarrow> if unat x \<ge> limit then reject_loop limit st' else Some (unat x, st'))"

definition randInt :: "nat \<Rightarrow> 32 word \<Rightarrow> (nat \<times> 32 word) option" where
  "randInt n st =
     (if n = 0 then Some (0, st)
      else map_option (\<lambda>(x, st'). (x mod n, st')) (reject_loop (0x100000000 div n * n) st))"

section \<open>Deck and deal\<close>

record poker_card =
  pk_rank :: nat
  pk_suit :: char

definition SUITS :: "char list" where "SUITS = ''shdc''"
definition RANKS :: "nat list" where "RANKS = [2, 3, 4, 5, 6, 7, 8, 9, 10, 11, 12, 13, 14]"

definition buildDeck :: "poker_card list" where
  "buildDeck = concat (map (\<lambda>s. map (\<lambda>r. \<lparr>pk_rank = r, pk_suit = s\<rparr>) RANKS) SUITS)"

text \<open>The shuffle from index \<open>i\<close> down to 1.\<close>

primrec deck_shuffle :: "nat \<Rightarrow> poker_card list \<Rightarrow> 32 word \<Rightarrow> poker_card list option" where
  "deck_shuffle 0 deck st = Some deck"
| "deck_shuffle (Suc i) deck st =
     (case randInt (Suc i + 1) st of
        None \<Rightarrow> None
      | Some (j, st') \<Rightarrow> deck_shuffle i (list_swap deck (Suc i) j) st')"

definition dealHeadsUp :: "string \<Rightarrow> (poker_card list \<times> poker_card list) option" where
  "dealHeadsUp seedHex =
     map_option (\<lambda>deck. (map (\<lambda>k. deck ! (2 * k)) [0..<5], map (\<lambda>k. deck ! (2 * k + 1)) [0..<5]))
       (deck_shuffle (length buildDeck - 1) buildDeck (seedTo32 seedHex))"

section \<open>Hands\<close>

definition CATEGORY_NAMES :: "string list" where
  "CATEGORY_NAMES = [''High Card'', ''Pair'', ''Two Pair'', ''Three of a Kind'', ''Straight'', ''Flush'',
     ''Full House'', ''Four of a Kind'', ''Straight Flush'']"

text \<open>
  The groups of equal rank, larger groups first and among equal sizes higher ranks first. No two groups
  have one rank, so the order in which the source's map lists them does not matter.
\<close>

definition rank_groups :: "nat list \<Rightarrow> (nat \<times> nat) list" where
  "rank_groups ranks = rev (sort_key snd (sort_key fst (map (\<lambda>r. (r, count_list ranks r)) (remdups ranks))))"

text \<open>The high card of a straight, the wheel counting as a five.\<close>

definition straight_high :: "nat list \<Rightarrow> nat option" where
  "straight_high ds =
     (if length ds = 5
      then if int (ds ! 0) - int (ds ! 4) = 4 then Some (ds ! 0)
           else if ds ! 0 = 14 \<and> ds ! 1 = 5 \<and> ds ! 2 = 4 \<and> ds ! 3 = 3 \<and> ds ! 4 = 2 then Some 5
           else None
      else None)"

text \<open>Category and tie-break ranks. \<open>None\<close> is the exception for a hand that is not of five cards.\<close>

definition evalHand :: "poker_card list \<Rightarrow> (nat \<times> nat list) option" where
  "evalHand cards5 =
     (if length cards5 \<noteq> 5 then None
      else (let ranks = map pk_rank cards5; suits = map pk_suit cards5;
                groups = rank_groups ranks; countPattern = map snd groups; orderedRanks = map fst groups;
                isFlush = list_all (\<lambda>s. s = suits ! 0) suits;
                straight = straight_high (rev (sort (remdups ranks)))
            in Some (if straight \<noteq> None \<and> isFlush then (8, [the straight])
               else if countPattern = [4, 1] then (7, orderedRanks)
               else if countPattern = [3, 2] then (6, orderedRanks)
               else if isFlush then (5, rev (sort ranks))
               else if straight \<noteq> None then (4, [the straight])
               else if countPattern = [3, 1, 1] then (3, orderedRanks)
               else if countPattern = [2, 2, 1] then (2, orderedRanks)
               else if countPattern = [2, 1, 1, 1] then (1, orderedRanks)
               else (0, orderedRanks))))"

definition handName :: "poker_card list \<Rightarrow> string option" where
  "handName cards5 = map_option (\<lambda>(c, rs). CATEGORY_NAMES ! c) (evalHand cards5)"

section \<open>Comparison\<close>

text \<open>The tie-break loop; a missing rank counts as 0.\<close>

fun compare_ranks :: "nat list \<Rightarrow> nat list \<Rightarrow> int" where
  "compare_ranks [] [] = 0"
| "compare_ranks (a # as) [] = (if a \<noteq> 0 then 1 else compare_ranks as [])"
| "compare_ranks [] (b # bs) = (if b \<noteq> 0 then - 1 else compare_ranks [] bs)"
| "compare_ranks (a # as) (b # bs) = (if a \<noteq> b then if a > b then 1 else - 1 else compare_ranks as bs)"

definition compareHands :: "poker_card list \<Rightarrow> poker_card list \<Rightarrow> int option" where
  "compareHands handA5 handB5 =
     (case (evalHand handA5, evalHand handB5) of
        (Some (ca, ra), Some (cb, rb)) \<Rightarrow> Some (if ca \<noteq> cb then if ca > cb then 1 else - 1 else compare_ranks ra rb)
      | _ \<Rightarrow> None)"

section \<open>The rejection loop ends\<close>

text \<open>
  The state moves by an odd constant, so it runs through all words; at state 0 the output is 0, which
  is below every positive limit. The measure counts the calls until the state is 0.
\<close>

definition calls_left :: "32 word \<Rightarrow> nat" where
  "calls_left st = unat (- st * 0xdc58aa5d - 1)"

lemma mulberry_zero: "mulberry_out 0 = 0"
  by (simp add: mulberry_out_def)

lemma step_inverse: "(0x6d2b79f5 :: 32 word) * 0xdc58aa5d = 1"
  by (simp add: One_nat_def)

lemma back_one: "c * d = 1 \<Longrightarrow> - (s + c) * d - 1 = - s * d - 1 - (1 :: 32 word)"
proof -
  assume "c * d = 1"
  moreover have "- (s + c) * d = - s * d - c * d" by (simp add: algebra_simps)
  ultimately show ?thesis by simp
qed

lemma back_to_zero: "c * d = 1 \<Longrightarrow> - s * d = 1 \<Longrightarrow> s + c = (0 :: 32 word)"
proof -
  assume e: "c * d = 1" "- s * d = 1"
  have "s + c = (s + c) * (c * d)" by (simp add: e(1))
  also have "\<dots> = (c * d - (- s * d)) * c" by (simp add: algebra_simps)
  finally show ?thesis unfolding e by simp
qed

lemma calls_left_step: "calls_left st \<noteq> 0 \<Longrightarrow> calls_left (st + 0x6d2b79f5) < calls_left st"
  using unat_minus_one [of "- st * 0xdc58aa5d - 1"]
  unfolding calls_left_def back_one [OF step_inverse] by (metis diff_less less_one neq0_conv unat_0)

lemma calls_left_0: "calls_left st = 0 \<Longrightarrow> st + 0x6d2b79f5 = 0"
proof -
  assume "calls_left st = 0"
  then have "- st * 0xdc58aa5d - 1 = (0 :: 32 word)" unfolding calls_left_def by (simp only: unat_eq_0)
  then have "- st * 0xdc58aa5d = (1 :: 32 word)" by (simp only: right_minus_eq)
  then show ?thesis by (rule back_to_zero [OF step_inverse])
qed

lemma reject_loop_ends: "0 < limit \<Longrightarrow> \<exists>x st'. reject_loop limit st = Some (x, st') \<and> x < limit"
proof (induction "calls_left st" arbitrary: st rule: less_induct)
  case less
  let ?st = "st + 0x6d2b79f5"
  show ?case
  proof (cases "unat (mulberry_out ?st) \<ge> limit")
    case True
    then have "?st \<noteq> 0" using less.prems mulberry_zero by auto
    then have "calls_left ?st < calls_left st" using calls_left_0 calls_left_step by blast
    then obtain x st' where "reject_loop limit ?st = Some (x, st')" "x < limit" using less by blast
    then show ?thesis using True by (subst reject_loop.simps) (simp add: mulberry32_def Let_def)
  next
    case False
    then show ?thesis by (subst reject_loop.simps) (simp add: mulberry32_def Let_def)
  qed
qed

lemma randInt_ends: "0 < n \<Longrightarrow> n \<le> 0x100000000 \<Longrightarrow> \<exists>x st'. randInt n st = Some (x, st') \<and> x < n"
proof -
  assume n: "0 < n" "n \<le> 0x100000000"
  then have "0 < 0x100000000 div n * n" by (simp add: div_greater_zero_iff)
  then obtain x st' where "reject_loop (0x100000000 div n * n) st = Some (x, st')" using reject_loop_ends by blast
  then show ?thesis using n by (simp add: randInt_def)
qed

lemma deck_shuffle_ends:
  "i < length deck \<Longrightarrow> length deck \<le> 0x100000000 \<Longrightarrow> \<exists>d. deck_shuffle i deck st = Some d \<and> mset d = mset deck"
proof (induction i arbitrary: deck st)
  case (Suc i)
  obtain j st' where j: "randInt (Suc i + 1) st = Some (j, st')" "j < Suc i + 1"
    using randInt_ends [of "Suc i + 1" st] Suc.prems by auto
  then have m: "mset (list_swap deck (Suc i) j) = mset deck" using Suc.prems by simp
  obtain d where "deck_shuffle i (list_swap deck (Suc i) j) st' = Some d" "mset d = mset (list_swap deck (Suc i) j)"
    using Suc.IH [of "list_swap deck (Suc i) j" st'] Suc.prems by auto
  then show ?case using j m by simp
qed simp

lemma deck_facts: "length buildDeck = 52" "distinct buildDeck"
  by code_simp+

section \<open>Hands in any order\<close>

lemma sort_mset: "mset xs = mset ys \<Longrightarrow> sort xs = sort (ys :: nat list)"
  by (metis properties_for_sort sorted_sort mset_sort)

lemma remdups_mset: "mset xs = mset ys \<Longrightarrow> mset (remdups xs) = mset (remdups ys)"
  by (metis mset_eq_setD mset_set_set distinct_remdups set_remdups)

lemma rank_groups_mset:
  assumes "mset xs = mset ys"
  shows "rank_groups xs = rank_groups ys"
proof -
  have c: "count_list xs = count_list ys" using assms by (metis count_mset ext)
  have "mset (remdups xs) = mset (remdups ys)" using assms by (rule remdups_mset)
  then have m: "mset (map (\<lambda>r. (r, count_list xs r)) (remdups xs)) = mset (map (\<lambda>r. (r, count_list ys r)) (remdups ys))"
    by (simp add: c)
  have "sort_key fst (map (\<lambda>r. (r, count_list xs r)) (remdups xs)) = sort_key fst (map (\<lambda>r. (r, count_list ys r)) (remdups ys))"
    by (rule sort_key_inj_key_eq) (use m in \<open>auto simp: inj_on_def\<close>)
  then show ?thesis by (simp add: rank_groups_def)
qed

lemma flush_set: "xs \<noteq> [] \<Longrightarrow> list_all (\<lambda>s. s = xs ! 0) xs \<longleftrightarrow> (\<exists>s. set xs = {s})"
  by (cases xs) (auto simp: list_all_iff)

text \<open>The value of a hand does not depend on the order of its cards.\<close>

lemma evalHand_order:
  assumes "mset h = mset h'"
  shows "evalHand h = evalHand h'"
proof -
  have l: "length h = length h'" using assms by (rule mset_eq_length)
  have r: "mset (map pk_rank h) = mset (map pk_rank h')" by (simp add: assms)
  have s: "set (map pk_suit h) = set (map pk_suit h')" using mset_eq_setD [OF assms] by simp
  have d: "sort (remdups (map pk_rank h)) = sort (remdups (map pk_rank h'))"
    by (rule sort_mset [OF remdups_mset [OF r]])
  show ?thesis
  proof (cases "length h = 5")
    case True
    then have "h \<noteq> []" "h' \<noteq> []" using l by auto
    then have f: "list_all (\<lambda>x. x = map pk_suit h ! 0) (map pk_suit h) \<longleftrightarrow> list_all (\<lambda>x. x = map pk_suit h' ! 0) (map pk_suit h')"
      using flush_set [of "map pk_suit h"] flush_set [of "map pk_suit h'"] s by simp
    show ?thesis unfolding evalHand_def Let_def l f d rank_groups_mset [OF r] sort_mset [OF r] ..
  qed (simp add: evalHand_def l)
qed

lemma compareHands_order:
  assumes "mset h = mset a" "mset k = mset b"
  shows "evalHand h = evalHand a \<and> evalHand k = evalHand b \<and> compareHands h k = compareHands a b"
  using evalHand_order [OF assms(1)] evalHand_order [OF assms(2)] by (simp add: compareHands_def)

text \<open>Hands of five cards have a value and can be compared.\<close>

lemma evalHand_ends: "evalHand h \<noteq> None \<longleftrightarrow> length h = 5"
  by (simp add: evalHand_def Let_def)

lemma compareHands_ends: "evalHand h \<noteq> None \<Longrightarrow> evalHand k \<noteq> None \<Longrightarrow> compareHands h k \<noteq> None"
  by (auto simp: compareHands_def)

lemma compare_ranks_swap: "compare_ranks bs as = - compare_ranks as bs"
  by (induction as bs rule: compare_ranks.induct) auto

text \<open>Who wins does not depend on who is asked first.\<close>

lemma compareHands_swap: "compareHands h' h = map_option uminus (compareHands h h')"
proof (cases "evalHand h"; cases "evalHand h'")
  fix e e' assume e: "evalHand h = Some e" "evalHand h' = Some e'"
  show ?thesis unfolding compareHands_def e prod.case option.case
    by (cases e; cases e') (use compare_ranks_swap [of "snd e" "snd e'"] in auto)
qed (simp_all add: compareHands_def)

end
