(* ===== verification/PokerProperties.thy ===== *)
theory PokerProperties
  imports Poker
begin

text \<open>The property of the poker engine.\<close>

text \<open>C32: The deal. For every seed the rejection loops and with them the deal end, each of the two hands has
  five cards, and the ten cards are different cards of the deck. Each hand has a value and the comparison
  a result, which is the same in whatever order the cards of either hand come, and asking for the two
  hands the other way round turns its sign.\<close>

theorem poker_deal:
  "\<exists>a b. dealHeadsUp seedHex = Some (a, b) \<and> length a = 5 \<and> length b = 5 \<and> distinct (a @ b) \<and>
     set (a @ b) \<subseteq> set buildDeck \<and>
     evalHand a \<noteq> None \<and> evalHand b \<noteq> None \<and> compareHands a b \<noteq> None \<and>
     {(h, k). mset h = mset a \<and> mset k = mset b} \<subseteq>
       {(h, k). evalHand h = evalHand a \<and> evalHand k = evalHand b \<and> compareHands h k = compareHands a b} \<and>
     compareHands b a = map_option uminus (compareHands a b)"
proof -
  obtain d where d: "deck_shuffle (length buildDeck - 1) buildDeck (seedTo32 seedHex) = Some d" "mset d = mset buildDeck"
    using deck_shuffle_ends [of "length buildDeck - 1" buildDeck] deck_facts by auto
  have n: "length d = 52" "distinct d" "set d = set buildDeck"
    using mset_eq_length [OF d(2)] mset_eq_imp_distinct_iff [OF d(2)] mset_eq_setD [OF d(2)] deck_facts by simp_all
  let ?a = "map (\<lambda>k. d ! (2 * k)) [0..<5]" and ?b = "map (\<lambda>k. d ! (2 * k + 1)) [0..<5]"
  have l: "?a @ ?b = map ((!) d) [0, 2, 4, 6, 8, 1, 3, 5, 7, 9]" by (simp add: upt_rec)
  have "distinct (?a @ ?b)"
    unfolding l distinct_map by (intro conjI inj_on_nth n(2)) (simp_all add: n(1))
  moreover have "set (?a @ ?b) \<subseteq> set buildDeck"
    unfolding l n(3) [symmetric] by (simp add: n(1))
  moreover have "{(h, k). mset h = mset ?a \<and> mset k = mset ?b} \<subseteq>
      {(h, k). evalHand h = evalHand ?a \<and> evalHand k = evalHand ?b \<and> compareHands h k = compareHands ?a ?b}"
    using compareHands_order by blast
  moreover have "evalHand ?a \<noteq> None" "evalHand ?b \<noteq> None" unfolding evalHand_ends by simp_all
  moreover from this have "compareHands ?a ?b \<noteq> None" by (rule compareHands_ends)
  moreover have "dealHeadsUp seedHex = Some (?a, ?b)" using d(1) by (simp add: dealHeadsUp_def)
  moreover have "length ?a = 5" "length ?b = 5" by simp_all
  ultimately show ?thesis using compareHands_swap [of ?b ?a] by blast
qed

end
