(* ===== verification/Canonical.thy ===== *)
theory Canonical
  imports Prelude "HOL-Library.Word" "HOL-Library.List_Lexorder"
begin

text \<open>
  The canonical encoding of transactions (\<^verbatim>\<open>static/nadotx.js\<close>): what is hashed and signed. Strings are
  lists of UTF-16 code units, the output is ASCII. \<open>None\<close> is an exception: a number that is no safe
  integer, or a value of another type.
\<close>

declare One_nat_def [simp del]

section \<open>Values\<close>

type_synonym units = "16 word list"

text \<open>
  A value as \<^verbatim>\<open>canonicalize\<close> sees it. \<open>JNull\<close> is also \<^verbatim>\<open>undefined\<close>; \<open>JFloat\<close> a number that is
  infinite, not a number or no integer; \<open>JOther\<close> a function or symbol. An object is the list of its own
  properties in their order.
\<close>

datatype jval = JNull | JBool bool | JBig int | JNum int | JFloat | JText units
  | JArr "jval list" | JObj "(units \<times> jval) list" | JOther

section \<open>Encoding\<close>

definition hex_char :: "nat \<Rightarrow> char" where
  "hex_char n = (if n < 10 then digit_char n else char_of (87 + n))"

definition unit_hex :: "16 word \<Rightarrow> string" where
  "unit_hex c = (let n = unat c in map hex_char [n div 4096, n div 256 mod 16, n div 16 mod 16, n mod 16])"

definition escape_unit :: "16 word \<Rightarrow> string" where
  "escape_unit c =
     (if c = 0x22 then [CHR 0x5C, CHR 0x22]
      else if c = 0x5C then [CHR 0x5C, CHR 0x5C]
      else if c = 0x08 then [CHR 0x5C, CHR ''b'']
      else if c = 0x09 then [CHR 0x5C, CHR ''t'']
      else if c = 0x0A then [CHR 0x5C, CHR ''n'']
      else if c = 0x0C then [CHR 0x5C, CHR ''f'']
      else if c = 0x0D then [CHR 0x5C, CHR ''r'']
      else if c < 0x20 \<or> c > 0x7E then CHR 0x5C # CHR ''u'' # unit_hex c
      else [char_of (unat c)])"

definition jsonEscapeAscii :: "units \<Rightarrow> string" where
  "jsonEscapeAscii s = CHR 0x22 # concat (map escape_unit s) @ [CHR 0x22]"

definition MAX_SAFE_INTEGER :: int where "MAX_SAFE_INTEGER = 2 ^ 53 - 1"

lemma member_size: "kv \<in> set kvs \<Longrightarrow> size (snd kv) < Suc (size_list (size_prod (\<lambda>_. 0) size) kvs)"
  by (induction kvs) auto

function canonicalize :: "jval \<Rightarrow> string option" where
  "canonicalize JNull = Some ''null''"
| "canonicalize (JBool b) = Some (if b then ''true'' else ''false'')"
| "canonicalize (JBig n) = Some (show_int n)"
| "canonicalize (JNum n) = (if \<bar>n\<bar> \<le> MAX_SAFE_INTEGER then Some (show_int n) else None)"
| "canonicalize JFloat = None"
| "canonicalize (JText s) = Some (jsonEscapeAscii s)"
| "canonicalize (JArr xs) =
     map_option (\<lambda>ts. ''['' @ join_with '','' ts @ '']'') (those (map canonicalize xs))"
| "canonicalize (JObj kvs) =
     map_option (\<lambda>ts. ''{'' @ join_with '','' ts @ ''}'')
       (those (map (\<lambda>kv. map_option (\<lambda>t. jsonEscapeAscii (fst kv) @ '':'' @ t) (canonicalize (snd kv))) (sort_key fst kvs)))"
| "canonicalize JOther = None"
  by pat_completeness auto
termination by (relation "measure size") (auto dest: member_size intro: size_list_estimation' less_imp_le_nat simp: less_Suc_eq_le)

definition canonicalBytes :: "jval \<Rightarrow> nat list option" where
  "canonicalBytes d = map_option (map of_char) (canonicalize d)"

text \<open>
  The blake2b digest of bytes, \<open>n\<close> bytes long and printed as hexadecimal digits, is the
  parameter \<open>B n\<close>.
\<close>

definition blake2bHash :: "(nat \<Rightarrow> nat list \<Rightarrow> string) \<Rightarrow> jval \<Rightarrow> nat \<Rightarrow> string option" where
  "blake2bHash B d n = map_option (B n) (canonicalBytes d)"

section \<open>Addresses and keys\<close>

definition units_of :: "string \<Rightarrow> units" where "units_of s = map of_char s"

definition ADDR_BODY :: nat where "ADDR_BODY = 42"
definition ADDR_LEN :: nat where "ADDR_LEN = ADDR_BODY + 4"

definition isAddress :: "string \<Rightarrow> bool" where
  "isAddress a \<longleftrightarrow> length a = ADDR_BODY + 4 \<and> (\<forall>c \<in> set a. c \<in> set ''0123456789abcdef'')"

definition makeAddress :: "(nat \<Rightarrow> nat list \<Rightarrow> string) \<Rightarrow> string \<Rightarrow> string option" where
  "makeAddress B pubHex =
     (let body = take ADDR_BODY pubHex in map_option ((@) body) (blake2bHash B (JText (units_of body)) 2))"

definition lower_hex :: "char \<Rightarrow> char" where
  "lower_hex c = (if c \<in> set ''ABCDEF'' then char_of ((of_char c :: nat) + 32) else c)"

text \<open>A seed is 64 hexadecimal digits, otherwise an exception.\<close>

definition reqSeed :: "string \<Rightarrow> string option" where
  "reqSeed s = (if length s = 64 \<and> (\<forall>c \<in> set s. c \<in> set ''0123456789abcdefABCDEF'') then Some (map lower_hex s) else None)"

record wallet =
  privateKey :: string
  publicKey :: string
  wl_address :: string

text \<open>Key generation of ML-DSA-44 from the seed's digits, \<open>KG\<close>, gives the public key's digits and the secret key.\<close>

definition keyFromSeed :: "(string \<Rightarrow> string \<times> 'sk) \<Rightarrow> (nat \<Rightarrow> nat list \<Rightarrow> string) \<Rightarrow> string \<Rightarrow> wallet option" where
  "keyFromSeed KG B seedHex =
     (case reqSeed seedHex of
        None \<Rightarrow> None
      | Some s \<Rightarrow> (let pub = fst (KG s)
                   in map_option (\<lambda>a. \<lparr>privateKey = seedHex, publicKey = pub, wl_address = a\<rparr>) (makeAddress B pub)))"

section \<open>Transactions\<close>

type_synonym members = "(units \<times> jval) list"

text \<open>
  The loop copies every member but the public key with \<open>pre[k] = body[k]\<close> into an empty object. A
  member of the name \<open>__proto__\<close> is not copied: that assignment sets the prototype of \<open>pre\<close>, or
  nothing, and only own properties are hashed.
\<close>

definition unsigned_part :: "members \<Rightarrow> members" where
  "unsigned_part body = filter (\<lambda>kv. fst kv \<noteq> units_of ''public_key'' \<and> fst kv \<noteq> units_of ''__proto__'') body"

definition createTxid :: "(nat \<Rightarrow> nat list \<Rightarrow> string) \<Rightarrow> members \<Rightarrow> string option" where
  "createTxid B body = blake2bHash B (JObj (unsigned_part body)) 32"

text \<open>Setting a property: in its place where there is one of this name, at the end otherwise.\<close>

fun put_member :: "units \<Rightarrow> jval \<Rightarrow> members \<Rightarrow> members" where
  "put_member k v [] = [(k, v)]"
| "put_member k v ((k', v') # kvs) = (if k' = k then (k, v) # kvs else (k', v') # put_member k v kvs)"

text \<open>
  Signing is randomised: \<open>SIG i\<close> is the signature of the \<open>i\<close>-th attempt. The first of eight that verifies
  is taken; without one there is an exception.
\<close>

definition sign_loop :: "(nat \<Rightarrow> 'sk \<Rightarrow> string \<Rightarrow> string) \<Rightarrow> (string \<Rightarrow> string \<Rightarrow> string \<Rightarrow> bool) \<Rightarrow> string \<Rightarrow> 'sk \<Rightarrow> string \<Rightarrow> string option" where
  "sign_loop SIG VER pub sk m = List.find (VER pub m) (map (\<lambda>i. SIG i sk m) [0..<8])"

definition finalizeTx :: "(string \<Rightarrow> string \<times> 'sk) \<Rightarrow> (nat \<Rightarrow> 'sk \<Rightarrow> string \<Rightarrow> string) \<Rightarrow> (string \<Rightarrow> string \<Rightarrow> string \<Rightarrow> bool) \<Rightarrow>
    (nat \<Rightarrow> nat list \<Rightarrow> string) \<Rightarrow> members \<Rightarrow> string \<Rightarrow> jval \<Rightarrow> members option" where
  "finalizeTx KG SIG VER B draft privHex fee =
     (let body = put_member (units_of ''fee'') fee draft
      in case createTxid B body of
           None \<Rightarrow> None
         | Some txid \<Rightarrow>
             (case reqSeed privHex of
                None \<Rightarrow> None
              | Some seed \<Rightarrow>
                  (case KG seed of (pub, sk) \<Rightarrow>
                    map_option (\<lambda>signature.
                      put_member (units_of ''signature'') (JText (units_of signature))
                        (put_member (units_of ''txid'') (JText (units_of txid)) body))
                    (sign_loop SIG VER pub sk txid))))"

text \<open>The random bytes are an argument.\<close>

definition randNonce :: "nat list \<Rightarrow> string" where
  "randNonce r = map (\<lambda>b. ''abcdefghijklmnopqrstuvwxyz'' ! (b mod 26)) r"

definition blob_draft :: "wallet \<Rightarrow> jval \<Rightarrow> int \<Rightarrow> int \<Rightarrow> string \<Rightarrow> jval \<Rightarrow> members" where
  "blob_draft w payload targetBlock now nonce chainId =
     [(units_of ''sender'', JText (units_of (wl_address w))), (units_of ''recipient'', JText (units_of ''blob'')),
      (units_of ''amount'', JNum 0), (units_of ''timestamp'', JNum now), (units_of ''data'', payload),
      (units_of ''nonce'', JText (units_of nonce)), (units_of ''public_key'', JText (units_of (publicKey w))),
      (units_of ''max_block'', JNum targetBlock), (units_of ''chain_id'', chainId)]"

definition buildBlobTx :: "(string \<Rightarrow> string \<times> 'sk) \<Rightarrow> (nat \<Rightarrow> 'sk \<Rightarrow> string \<Rightarrow> string) \<Rightarrow> (string \<Rightarrow> string \<Rightarrow> string \<Rightarrow> bool) \<Rightarrow>
    (nat \<Rightarrow> nat list \<Rightarrow> string) \<Rightarrow> wallet \<Rightarrow> jval \<Rightarrow> int \<Rightarrow> jval \<Rightarrow> jval \<Rightarrow> int \<Rightarrow> nat list \<Rightarrow> members option" where
  "buildBlobTx KG SIG VER B w payload targetBlock fee chainId now r =
     finalizeTx KG SIG VER B (blob_draft w payload targetBlock now (randNonce r) chainId) (privateKey w) fee"

end
