(* ===== verification/CanonicalRules.thy ===== *)
theory CanonicalRules
  imports Canonical
begin

text \<open>
  What a canonical encoding says: the content of a value, its text, and the proof that a text with
  whatever follows it determines the content.
\<close>

declare One_nat_def [simp del]

section \<open>Content\<close>

text \<open>
  The two kinds of integers and the two kinds of absent values are the same content, and the members
  of an object are in the order of their keys.
\<close>

datatype content = CNull | CBool bool | CInt int | CText units | CArr "content list" | CObj "(units \<times> content) list"

function content_of :: "jval \<Rightarrow> content option" where
  "content_of JNull = Some CNull"
| "content_of (JBool b) = Some (CBool b)"
| "content_of (JBig n) = Some (CInt n)"
| "content_of (JNum n) = (if \<bar>n\<bar> \<le> MAX_SAFE_INTEGER then Some (CInt n) else None)"
| "content_of JFloat = None"
| "content_of (JText s) = Some (CText s)"
| "content_of (JArr xs) = map_option CArr (those (map content_of xs))"
| "content_of (JObj kvs) = map_option CObj (those (map (\<lambda>kv. map_option (Pair (fst kv)) (content_of (snd kv))) (sort_key fst kvs)))"
| "content_of JOther = None"
  by pat_completeness auto
termination by (relation "measure size") (auto dest: member_size intro: size_list_estimation' less_imp_le_nat simp: less_Suc_eq_le)

lemma content_size: "kv \<in> set kvs \<Longrightarrow> size (snd kv) < Suc (size_list (size_prod (\<lambda>_. 0) size) (kvs :: (units \<times> content) list))"
  by (induction kvs) auto

function print :: "content \<Rightarrow> string" where
  "print CNull = ''null''"
| "print (CBool b) = (if b then ''true'' else ''false'')"
| "print (CInt n) = show_int n"
| "print (CText s) = jsonEscapeAscii s"
| "print (CArr xs) = ''['' @ join_with '','' (map print xs) @ '']''"
| "print (CObj kvs) = ''{'' @ join_with '','' (map (\<lambda>kv. jsonEscapeAscii (fst kv) @ '':'' @ print (snd kv)) kvs) @ ''}''"
  by pat_completeness auto
termination by (relation "measure size") (auto dest: content_size intro: size_list_estimation' less_imp_le_nat simp: less_Suc_eq_le)

lemma those_map_option: "(\<And>x. x \<in> set xs \<Longrightarrow> g x = map_option f (h x)) \<Longrightarrow> those (map g xs) = map_option (map f) (those (map h xs))"
  by (induction xs) (auto simp: option.map_comp comp_def split: option.split)

lemma canonicalize_print: "canonicalize j = map_option print (content_of j)"
proof (induction j rule: canonicalize.induct)
  case (7 xs)
  have "those (map canonicalize xs) = map_option (map print) (those (map content_of xs))"
    by (rule those_map_option) (use 7 in simp)
  then show ?case by (simp add: option.map_comp comp_def)
next
  case (8 kvs)
  have "those (map (\<lambda>kv. map_option (\<lambda>t. jsonEscapeAscii (fst kv) @ '':'' @ t) (canonicalize (snd kv))) (sort_key fst kvs)) =
      map_option (map (\<lambda>kv. jsonEscapeAscii (fst kv) @ '':'' @ print (snd kv)))
        (those (map (\<lambda>kv. map_option (Pair (fst kv)) (content_of (snd kv))) (sort_key fst kvs)))"
    by (rule those_map_option) (use 8 in \<open>simp add: option.map_comp comp_def\<close>)
  then show ?case by (simp add: option.map_comp comp_def)
qed simp_all

section \<open>Strings\<close>

lemma of_char_code: "n < 256 \<Longrightarrow> (of_char (char_of n :: char) :: nat) = n"
  by simp

lemma of_char_code_5C: "(of_char CHR 0x5C :: nat) = 0x5C" and of_char_code_22: "(of_char CHR 0x22 :: nat) = 0x22"
  by simp_all

lemma hex_char_inj: "m < 16 \<Longrightarrow> n < 16 \<Longrightarrow> hex_char m = hex_char n \<Longrightarrow> m = n"
proof -
  assume a: "m < 16" "n < 16" "hex_char m = hex_char n"
  have "(of_char (hex_char k) :: nat) = (if k < 10 then 48 + k else 87 + k)" if "k < 16" for k
    using that by (simp add: hex_char_def)
  then have "(if m < 10 then 48 + m else 87 + m) = (if n < 10 then 48 + n else 87 + n)" using a by metis
  then show "m = n" by (auto split: if_splits)
qed

lemma hex_digits_inj:
  fixes m n :: nat
  assumes "m div 4096 = n div 4096" "m div 256 mod 16 = n div 256 mod 16" "m div 16 mod 16 = n div 16 mod 16" "m mod 16 = n mod 16"
  shows "m = n"
proof -
  have step: "a = b" if "a div 16 = b div 16" "a mod 16 = b mod 16" for a b :: nat
  proof -
    have "a = a div 16 * 16 + a mod 16" by (rule div_mult_mod_eq [symmetric])
    also have "\<dots> = b div 16 * 16 + b mod 16" unfolding that ..
    also have "\<dots> = b" by (rule div_mult_mod_eq)
    finally show ?thesis .
  qed
  have d: "k div 256 div 16 = k div 4096" "k div 16 div 16 = k div 256" for k :: nat by (simp_all add: div_mult2_eq [symmetric])
  have a: "m div 256 = n div 256" by (rule step) (simp_all only: d assms)
  have b: "m div 16 = n div 16" by (rule step) (simp_all only: d assms a)
  show ?thesis by (rule step) (simp_all only: assms b)
qed

lemma unit_hex_inj: "unit_hex c = unit_hex d \<Longrightarrow> c = d"
proof -
  assume e: "unit_hex c = unit_hex d"
  have b: "unat x div 4096 < 16" for x :: "16 word" 
  proof -
    have "unat x < 2 ^ LENGTH(16)" by (rule unsigned_less)
    then show ?thesis by (simp add: div_less_iff_less_mult)
  qed
  have "unat c = unat d"
    by (rule hex_digits_inj) (use e b in \<open>auto simp: unit_hex_def Let_def intro!: hex_char_inj\<close>)
  then show "c = d" by (simp add: word_unat_eq_iff)
qed

lemma length_unit_hex [simp]: "length (unit_hex c) = 4"
  by (simp add: unit_hex_def Let_def)

text \<open>The three forms of an escaped unit.\<close>

lemma escape_cases:
  obtains (plain) x where "escape_unit c = [x]" "x \<noteq> CHR 0x5C" "x \<noteq> CHR 0x22" "of_char x = unat c"
  | (short) x where "escape_unit c = [CHR 0x5C, x]" "x \<noteq> CHR ''u''"
      "c = (if x = CHR 0x22 then 0x22 else if x = CHR 0x5C then 0x5C else if x = CHR ''b'' then 8 else if x = CHR ''t'' then 9
            else if x = CHR ''n'' then 10 else if x = CHR ''f'' then 12 else 13)"
  | (long) "escape_unit c = CHR 0x5C # CHR ''u'' # unit_hex c"
proof (cases "c \<in> {0x22, 0x5C, 8, 9, 10, 12, 13}")
  case True
  then show ?thesis by (intro short [of "escape_unit c ! 1"]) (auto simp: escape_unit_def)
next
  case False
  show ?thesis
  proof (cases "c < 0x20 \<or> c > 0x7E")
    case True
    then show ?thesis using False by (intro long) (auto simp: escape_unit_def)
  next
    case small: False
    let ?x = "char_of (unat c) :: char"
    have "unat c \<le> 126" using small by (simp add: not_less word_le_nat_alt)
    then have x: "of_char ?x = unat c" by simp
    have "unat c \<noteq> 0x5C" "unat c \<noteq> 0x22" using False by (auto simp: word_unat_eq_iff)
    then have "?x \<noteq> CHR 0x5C" "?x \<noteq> CHR 0x22" using x by (metis of_char_code_5C, metis of_char_code_22)
    moreover have "escape_unit c = [?x]" using False small by (auto simp: escape_unit_def)
    ultimately show ?thesis using x by (intro plain)
  qed
qed

lemma escape_prefix:
  assumes "escape_unit c @ u = escape_unit d @ v"
  shows "c = d \<and> u = v"
proof (cases c rule: escape_cases)
  case (plain x)
  note p = plain
  show ?thesis
  proof (cases d rule: escape_cases)
    case (plain y)
    then have "x = y" "u = v" using assms p by auto
    then show ?thesis using p plain by (simp add: word_unat_eq_iff)
  qed (use assms p in auto)
next
  case (short x)
  note p = short
  show ?thesis
  proof (cases d rule: escape_cases)
    case (short y)
    then have "x = y" "u = v" using assms p(1) by auto
    then show ?thesis using p(3) short(3) by simp
  qed (use assms p in auto)
next
  case long
  note p = long
  show ?thesis
  proof (cases d rule: escape_cases)
    case long
    then have "unit_hex c = unit_hex d \<and> u = v" using assms p by simp
    then show ?thesis using unit_hex_inj by blast
  qed (use assms p in auto)
qed

lemma escape_not_quote: "escape_unit c @ u \<noteq> CHR 0x22 # v"
  by (cases c rule: escape_cases) auto

lemma text_prefix:
  "concat (map escape_unit s) @ CHR 0x22 # u = concat (map escape_unit t) @ CHR 0x22 # v \<Longrightarrow> s = t \<and> u = v"
proof (induction s arbitrary: t)
  case Nil
  then show ?case by (cases t) (auto simp: escape_not_quote [symmetric])
next
  case (Cons c s)
  show ?case
  proof (cases t)
    case Nil
    then show ?thesis using Cons.prems escape_not_quote [of c] by simp
  next
    case t: (Cons d t')
    have "escape_unit c @ (concat (map escape_unit s) @ CHR 0x22 # u) = escape_unit d @ (concat (map escape_unit t') @ CHR 0x22 # v)"
      using Cons.prems by (simp add: t)
    then show ?thesis using escape_prefix Cons.IH [of t'] by (auto simp: t)
  qed
qed

lemma quoted_prefix: "jsonEscapeAscii s @ u = jsonEscapeAscii t @ v \<Longrightarrow> s = t \<and> u = v"
  using text_prefix [of s u t v] by (simp add: jsonEscapeAscii_def)

section \<open>Numbers\<close>

text \<open>What may follow a value: nothing, a comma or a closing bracket.\<close>

definition ends :: "string \<Rightarrow> bool" where
  "ends u \<longleftrightarrow> u = [] \<or> hd u \<in> {CHR '','', CHR '']'', CHR ''}''}"

definition num_char :: "char \<Rightarrow> bool" where "num_char c \<longleftrightarrow> is_digit c \<or> c = CHR ''-''"

lemma show_int_chars: "\<forall>c \<in> set (show_int n). num_char c"
  by (simp add: show_int_def num_char_def)

lemma show_int_inj: "show_int m = show_int n \<Longrightarrow> m = n"
proof -
  assume e: "show_int m = show_int n"
  have i: "show_nat a = show_nat b \<Longrightarrow> a = b" for a b by (metis digits_value_show_nat)
  have d: "show_nat a \<noteq> CHR ''-'' # s" for a s using show_nat_digits [of "CHR ''-''" a] by (metis list.set_intros(1) is_digit_not_sign)
  have s: "m < 0 \<longleftrightarrow> n < 0" using e d unfolding show_int_def by metis
  show "m = n"
  proof (cases "m < 0")
    case True
    then have "nat (- m) = nat (- n)" using e s by (intro i) (simp add: show_int_def)
    then show ?thesis using True s by simp
  next
    case False
    then have "nat m = nat n" using e s by (intro i) (simp add: show_int_def)
    then show ?thesis using False s by simp
  qed
qed

lemma number_prefix: "show_int m @ u = show_int n @ v \<Longrightarrow> ends u \<Longrightarrow> ends v \<Longrightarrow> m = n \<and> u = v"
proof -
  assume a: "show_int m @ u = show_int n @ v" "ends u" "ends v"
  have t: "takeWhile num_char (show_int k @ w) = show_int k" if "ends w" for k w
  proof -
    have "takeWhile num_char (show_int k @ w) = show_int k @ takeWhile num_char w"
      by (rule takeWhile_append2) (use show_int_chars in blast)
    moreover have "takeWhile num_char w = []"
      using that by (cases w) (auto simp: ends_def num_char_def is_digit_def)
    ultimately show ?thesis by simp
  qed
  have "show_int m = show_int n" using t [OF a(2), of m] t [OF a(3), of n] a(1) by simp
  then show ?thesis using a(1) show_int_inj by simp
qed

section \<open>Lists of parts\<close>

text \<open>The text of an array or object after its first part, with the closing bracket and what follows.\<close>

definition rest_text :: "string list \<Rightarrow> char \<Rightarrow> string \<Rightarrow> string" where
  "rest_text ts c u = concat (map ((#) CHR '','') ts) @ c # u"

lemma join_rest: "join_with '','' (t # ts) @ c # u = t @ rest_text ts c u"
  by (induction ts arbitrary: t) (simp_all add: rest_text_def)

lemma rest_text_simps [simp]: "rest_text [] c u = c # u" "rest_text (t # ts) c u = CHR '','' # t @ rest_text ts c u"
  by (simp_all add: rest_text_def)

lemma ends_rest: "c \<in> {CHR '']'', CHR ''}''} \<Longrightarrow> ends (rest_text ts c u)"
  by (cases ts) (auto simp: ends_def)

text \<open>Parts that are determined with what follows them determine their list.\<close>

lemma rest_prefix:
  assumes "c \<in> {CHR '']'', CHR ''}''}"
    and "\<And>x y u v. x \<in> set xs \<Longrightarrow> p x @ u = p y @ v \<Longrightarrow> ends u \<Longrightarrow> ends v \<Longrightarrow> x = y \<and> u = v"
  shows "rest_text (map p xs) c u = rest_text (map p ys) c v \<Longrightarrow> xs = ys \<and> u = v"
  using assms(2)
proof (induction xs arbitrary: ys)
  case Nil
  then show ?case using assms(1) by (cases ys) auto
next
  case (Cons x xs)
  show ?case
  proof (cases ys)
    case Nil
    then show ?thesis using Cons.prems(1) assms(1) by auto
  next
    case ys: (Cons y ys')
    have "p x @ rest_text (map p xs) c u = p y @ rest_text (map p ys') c v" using Cons.prems(1) by (simp add: ys)
    then have e: "x = y \<and> rest_text (map p xs) c u = rest_text (map p ys') c v"
      by (rule Cons.prems(2) [rotated]) (simp_all add: ends_rest [OF assms(1)])
    then show ?thesis using Cons.IH [of ys'] Cons.prems(2) by (auto simp: ys)
  qed
qed

lemma list_prefix:
  assumes "c \<in> {CHR '']'', CHR ''}''}"
    and "\<And>x y u v. x \<in> set xs \<Longrightarrow> p x @ u = p y @ v \<Longrightarrow> ends u \<Longrightarrow> ends v \<Longrightarrow> x = y \<and> u = v"
    and "\<And>x u v. p x @ u \<noteq> c # v"
    and "join_with '','' (map p xs) @ c # u = join_with '','' (map p ys) @ c # v"
  shows "xs = ys \<and> u = v"
proof (cases xs; cases ys)
  fix x xs' y ys' assume e: "xs = x # xs'" "ys = y # ys'"
  have "CHR '','' # p x @ rest_text (map p xs') c u = CHR '','' # p y @ rest_text (map p ys') c v"
    using assms(4) unfolding e list.map join_rest by simp
  then have "rest_text (map p xs) c u = rest_text (map p ys) c v" by (simp add: e)
  then show ?thesis using assms(1,2) by (intro rest_prefix [of c xs p u ys v])
next
  fix x xs' assume e: "xs = x # xs'" "ys = []"
  have "p x @ rest_text (map p xs') c u = c # v" using assms(4) unfolding e list.map join_rest by simp
  then show ?thesis using assms(3) by blast
next
  fix y ys' assume e: "xs = []" "ys = y # ys'"
  have "p y @ rest_text (map p ys') c v = c # u" using assms(4) unfolding e list.map join_rest by simp
  then show ?thesis using assms(3) by blast
qed (use assms(4) in simp)

section \<open>The text determines the content\<close>

text \<open>The first character of a text tells its kind.\<close>

definition kind_char :: "content \<Rightarrow> char \<Rightarrow> bool" where
  "kind_char v c =
     (case v of CNull \<Rightarrow> c = CHR ''n'' | CBool b \<Rightarrow> c = (if b then CHR ''t'' else CHR ''f'') | CInt n \<Rightarrow> num_char c
      | CText s \<Rightarrow> c = CHR 0x22 | CArr xs \<Rightarrow> c = CHR ''['' | CObj kvs \<Rightarrow> c = CHR ''{'')"

lemma print_first: "\<exists>c s. print v = c # s \<and> kind_char v c"
proof (cases v)
  case (CInt n)
  have "show_int n \<noteq> []" by (simp add: show_int_def)
  then obtain c s where "show_int n = c # s" by (cases "show_int n") auto
  then show ?thesis using show_int_chars [of n] by (auto simp: CInt kind_char_def)
qed (simp_all add: kind_char_def jsonEscapeAscii_def)

lemma kind_cases:
  "kind_char v c \<Longrightarrow> kind_char w c \<Longrightarrow>
     v = CNull \<and> w = CNull \<or> (\<exists>b. v = CBool b \<and> w = CBool b) \<or> (\<exists>m n. v = CInt m \<and> w = CInt n) \<or>
     (\<exists>s t. v = CText s \<and> w = CText t) \<or> (\<exists>xs ys. v = CArr xs \<and> w = CArr ys) \<or> (\<exists>xs ys. v = CObj xs \<and> w = CObj ys)"
  by (cases v; cases w) (auto simp: kind_char_def num_char_def is_digit_def split: if_splits)

lemma not_closing: "print v @ u \<noteq> CHR '']'' # w"
  using print_first [of v] by (cases v) (auto simp: kind_char_def num_char_def is_digit_def split: if_splits)

lemma print_prefix: "print v @ t = print w @ t' \<Longrightarrow> ends t \<Longrightarrow> ends t' \<Longrightarrow> v = w \<and> t = t'"
proof (induction "size v" arbitrary: v w t t' rule: less_induct)
  case less
  obtain c s d s' where f: "print v = c # s" "kind_char v c" "print w = d # s'" "kind_char w d"
    using print_first [of v] print_first [of w] by blast
  then have "c = d" using less.prems(1) by simp
  then consider "v = CNull" "w = CNull" | b where "v = CBool b" "w = CBool b" | m n where "v = CInt m" "w = CInt n"
    | x y where "v = CText x" "w = CText y" | xs ys where "v = CArr xs" "w = CArr ys" | xs ys where "v = CObj xs" "w = CObj ys"
    using kind_cases [OF f(2), of w] f(4) by blast
  then show ?case
  proof cases
    case (3 m n)
    then show ?thesis using less.prems number_prefix by auto
  next
    case (4 x y)
    then show ?thesis using less.prems(1) quoted_prefix [of x t y t'] by auto
  next
    case (5 xs ys)
    have part: "x = y \<and> u = r" if "x \<in> set xs" "print x @ u = print y @ r" "ends u" "ends r" for x y u r
      by (rule less.hyps [OF _ that(2,3,4)])
        (use that(1) in \<open>auto simp: 5(1) less_Suc_eq_le intro!: size_list_estimation'\<close>)
    have "join_with '','' (map print xs) @ CHR '']'' # t = join_with '','' (map print ys) @ CHR '']'' # t'"
      using less.prems(1) by (simp add: 5)
    then have "xs = ys \<and> t = t'"
      by (intro list_prefix [of "CHR '']''" xs print t ys t'] part not_closing) simp_all
    then show ?thesis by (simp add: 5)
  next
    case (6 xs ys)
    let ?p = "\<lambda>kv. jsonEscapeAscii (fst kv) @ '':'' @ print (snd kv)"
    have part: "x = y \<and> u = r" if "x \<in> set xs" "?p x @ u = ?p y @ r" "ends u" "ends r" for x y u r
    proof -
      have "jsonEscapeAscii (fst x) @ ('':'' @ print (snd x) @ u) = jsonEscapeAscii (fst y) @ ('':'' @ print (snd y) @ r)"
        using that(2) by simp
      then have "fst x = fst y" "print (snd x) @ u = print (snd y) @ r" using quoted_prefix by blast+
      moreover have "size (snd x) < size v" using content_size [OF that(1)] by (simp add: 6(1))
      ultimately show ?thesis using less.hyps [of "snd x" u "snd y" r] that(3,4) by (simp add: prod_eq_iff)
    qed
    have "join_with '','' (map ?p xs) @ CHR ''}'' # t = join_with '','' (map ?p ys) @ CHR ''}'' # t'"
      using less.prems(1) by (simp add: 6)
    moreover have "?p x @ u \<noteq> CHR ''}'' # r" for x u r by (simp add: jsonEscapeAscii_def)
    ultimately have "xs = ys \<and> t = t'"
      by (intro list_prefix [of "CHR ''}''" xs ?p t ys t'] part) simp_all
    then show ?thesis by (simp add: 6)
  qed (use less.prems(1) in auto)
qed

lemma print_inj: "print v = print w \<Longrightarrow> v = w"
  using print_prefix [of v "[]" w "[]"] by (simp add: ends_def)

text \<open>A text is printable ASCII.\<close>

definition ascii :: "char \<Rightarrow> bool" where "ascii c \<longleftrightarrow> 0x20 \<le> (of_char c :: nat) \<and> (of_char c :: nat) \<le> 0x7E"

lemma hex_ascii: "n < 16 \<Longrightarrow> ascii (hex_char n)"
  by (simp add: hex_char_def ascii_def)

lemma unit_hex_ascii: "\<forall>x \<in> set (unit_hex c). ascii x"
proof -
  have "unat c < 2 ^ LENGTH(16)" by (rule unsigned_less)
  then have "unat c div 4096 < 16" by (simp add: div_less_iff_less_mult)
  then show ?thesis by (simp add: unit_hex_def Let_def hex_ascii)
qed

lemma escape_ascii: "\<forall>x \<in> set (escape_unit c). ascii x"
proof (cases "c < 0x20 \<or> c > 0x7E")
  case True
  then show ?thesis using unit_hex_ascii [of c] by (auto simp: escape_unit_def ascii_def)
next
  case False
  then have "32 \<le> unat c \<and> unat c \<le> 126" by (simp add: not_less word_le_nat_alt)
  with False show ?thesis by (simp add: escape_unit_def ascii_def)
qed

lemma quoted_ascii: "\<forall>x \<in> set (jsonEscapeAscii s). ascii x"
  using escape_ascii by (auto simp: jsonEscapeAscii_def ascii_def)

lemma join_chars: "(\<forall>x \<in> set (join_with '','' ts). P x) \<longleftrightarrow> (\<forall>t \<in> set ts. \<forall>x \<in> set t. P x)" if "P CHR '',''"
  using that by (induction "'',''" ts rule: join_with.induct) auto

lemma print_ascii: "\<forall>x \<in> set (print v). ascii x"
proof (induction v rule: print.induct)
  case (3 n)
  then show ?case using show_int_chars [of n] by (auto simp: num_char_def is_digit_def ascii_def)
next
  case (5 xs)
  have "ascii CHR '',''" by (simp add: ascii_def)
  note j = join_chars [of ascii, OF this]
  show ?case using 5 j [of "map print xs"] by (simp add: ascii_def)
next
  case (6 kvs)
  have "ascii CHR '',''" by (simp add: ascii_def)
  note j = join_chars [of ascii, OF this]
  show ?case using 6 j [of "map (\<lambda>kv. jsonEscapeAscii (fst kv) @ '':'' @ print (snd kv)) kvs"] quoted_ascii by (auto simp: ascii_def)
qed (simp_all add: ascii_def quoted_ascii [unfolded ascii_def])

end
