(* ===== verification/CanonicalProperties.thy ===== *)
theory CanonicalProperties
  imports CanonicalRules
begin

text \<open>The properties of the canonical encoding and of what is signed.\<close>

declare One_nat_def [simp del]

lemma bytes_inj: "map of_char s = (map of_char t :: nat list) \<Longrightarrow> s = t"
proof (induction s arbitrary: t)
  case (Cons c s)
  then obtain d t' where "t = d # t'" by (cases t) auto
  then show ?case using Cons by auto
qed simp

text \<open>The order of the properties of an object does not matter.\<close>

lemma member_order:
  assumes "distinct (map fst kvs)" "mset kvs = mset kvs'"
  shows "canonicalize (JObj kvs) = canonicalize (JObj kvs')"
proof -
  have "sort_key fst kvs = sort_key fst kvs'"
    by (rule sort_key_inj_key_eq) (use assms in \<open>auto simp: distinct_map\<close>)
  then show ?thesis by simp
qed

text \<open>C33: A canonical text determines its content. Two values have one text exactly when they have one
  content: the same literals, numbers and strings in the same arrays, and objects with the same members
  when ordered by key. Every text is printable ASCII.\<close>

theorem canonical_text:
  assumes "canonicalize a = Some s"
  shows "(canonicalize b = Some s \<longleftrightarrow> content_of b = content_of a) \<and>
         (\<forall>c \<in> set s. 0x20 \<le> (of_char c :: nat) \<and> (of_char c :: nat) \<le> 0x7E)"
proof -
  obtain v where v: "content_of a = Some v" "s = print v" using assms unfolding canonicalize_print by auto
  then have "canonicalize b = Some s \<longleftrightarrow> content_of b = content_of a"
    unfolding canonicalize_print using print_inj by auto
  moreover have "\<forall>c \<in> set s. ascii c" unfolding v(2) by (rule print_ascii)
  ultimately show ?thesis by (simp add: ascii_def)
qed

theorem canonical_text_witness:
  "canonicalize (JObj [([98], JNum 7), ([97], JText [34, 0x2603])]) =
   Some ([CHR ''{'', CHR 0x22, CHR ''a'', CHR 0x22, CHR '':'', CHR 0x22, CHR 0x5C, CHR 0x22, CHR 0x5C] @ ''u2603'' @
     [CHR 0x22, CHR '','', CHR 0x22, CHR ''b'', CHR 0x22, CHR '':'', CHR ''7'', CHR ''}'']) \<and>
   canonicalize (JObj [([97], JText [34, 0x2603]), ([98], JBig 8)]) \<noteq> canonicalize (JObj [([98], JNum 7), ([97], JText [34, 0x2603])])"
  (is "?A = Some ?s \<and> _")
proof -
  have a: "?A = Some ?s"
    by (simp add: jsonEscapeAscii_def escape_unit_def unit_hex_def hex_char_def digit_char_def MAX_SAFE_INTEGER_def show_int_def show_nat.simps One_nat_def) code_simp
  have "content_of (JObj [([97], JText [34, 0x2603]), ([98], JBig 8)]) \<noteq> content_of (JObj [([98], JNum 7), ([97], JText [34, 0x2603])])"
    by code_simp
  then show ?thesis using canonical_text [OF a, of "JObj [([97], JText [34, 0x2603]), ([98], JBig 8)]"]
    unfolding a by (simp del: canonicalize.simps content_of.simps)
qed

text \<open>Values with one hash have one content, or their bytes collide.\<close>

lemma hash_binds:
  assumes "blake2bHash B a n = Some h" "blake2bHash B b n = Some h"
  shows "content_of a = content_of b \<or>
    (\<exists>s t. canonicalBytes a = Some s \<and> canonicalBytes b = Some t \<and> s \<noteq> t \<and> B n s = B n t)"
proof -
  obtain s t where c: "canonicalize a = Some s" "canonicalize b = Some t" "B n (map of_char s) = B n (map of_char t)"
    using assms unfolding blake2bHash_def canonicalBytes_def by (auto simp del: canonicalize.simps)
  show ?thesis
  proof (cases "s = t")
    case True
    then obtain v where "content_of a = Some v" "content_of b = Some v"
      using c(1,2) print_inj unfolding canonicalize_print by auto
    then show ?thesis by (simp only: simp_thms)
  next
    case False
    then have "map of_char s \<noteq> (map of_char t :: nat list)" using bytes_inj by blast
    then show ?thesis using c by (intro disjI2 exI [of _ "map of_char s"] exI [of _ "map of_char t"]) (simp add: canonicalBytes_def del: canonicalize.simps)
  qed
qed

text \<open>C34: What a transaction id binds. Two bodies with one id agree, up to the order of their properties, in
  every member but the public key and one named \<open>__proto__\<close>, unless their canonical bytes are a
  collision of the 32-byte hash; bodies that agree so far have one id. A public key is not bound, and neither is
  what stands in a member named \<open>__proto__\<close>: adding one does not change the id.\<close>

theorem txid_binds:
  assumes "createTxid B body = Some h"
  shows "let bound = filter (\<lambda>kv. fst kv \<notin> {units_of ''public_key'', units_of ''__proto__''}) in
    (createTxid B body' = Some h \<longrightarrow>
       content_of (JObj (bound body)) = content_of (JObj (bound body')) \<or>
       (\<exists>s t. canonicalBytes (JObj (bound body)) = Some s \<and> canonicalBytes (JObj (bound body')) = Some t \<and> s \<noteq> t \<and> B 32 s = B 32 t)) \<and>
    (content_of (JObj (bound body)) = content_of (JObj (bound body')) \<longrightarrow> createTxid B body' = Some h) \<and>
    createTxid B (body @ [(units_of ''public_key'', v)]) = Some h \<and> createTxid B (body @ [(units_of ''__proto__'', v)]) = Some h"
proof -
  have u: "unsigned_part = filter (\<lambda>kv. fst kv \<notin> {units_of ''public_key'', units_of ''__proto__''})"
    by (intro ext) (simp add: unsigned_part_def)
  have "createTxid B (body @ [(k, v)]) = Some h" if "k = units_of ''public_key'' \<or> k = units_of ''__proto__''" for k
    using assms that by (auto simp: createTxid_def unsigned_part_def simp del: canonicalize.simps)
  moreover have "createTxid B body' = Some h" if "content_of (JObj (unsigned_part body)) = content_of (JObj (unsigned_part body'))"
    using assms that unfolding createTxid_def blake2bHash_def canonicalBytes_def canonicalize_print by (simp only:)
  moreover have "content_of (JObj (unsigned_part body)) = content_of (JObj (unsigned_part body')) \<or>
      (\<exists>s t. canonicalBytes (JObj (unsigned_part body)) = Some s \<and> canonicalBytes (JObj (unsigned_part body')) = Some t \<and> s \<noteq> t \<and> B 32 s = B 32 t)"
    if "createTxid B body' = Some h"
    using assms that unfolding createTxid_def by (rule hash_binds)
  ultimately show ?thesis unfolding Let_def u [symmetric] by blast
qed

theorem txid_binds_witness:
  "let B = (\<lambda>n :: nat. map (char_of :: nat \<Rightarrow> char));
       body = [(units_of ''fee'', JNum 2), (units_of ''public_key'', JNull), (units_of ''amount'', JBig 5)]
   in createTxid B [(units_of ''amount'', JNum 5), (units_of ''fee'', JNum 2)] = createTxid B body \<and>
      createTxid B (body @ [(units_of ''__proto__'', JBool True)]) = createTxid B body \<and>
      createTxid B [(units_of ''amount'', JNum 6), (units_of ''fee'', JNum 2)] \<noteq> createTxid B body"
proof -
  let ?B = "\<lambda>n :: nat. map (char_of :: nat \<Rightarrow> char)"
  let ?b = "[(units_of ''fee'', JNum 2), (units_of ''public_key'', JNull), (units_of ''amount'', JBig 5)]"
  let ?f = "filter (\<lambda>kv. fst kv \<notin> {units_of ''public_key'', units_of ''__proto__''})"
  let ?b' = "[(units_of ''amount'', JNum 5), (units_of ''fee'', JNum 2)]"
  have n: "canonicalBytes (JObj (unsigned_part ?b)) \<noteq> None" by code_simp
  obtain h where h: "createTxid ?B ?b = Some h" using n by (auto simp: createTxid_def blake2bHash_def simp del: canonicalize.simps)
  have c: "content_of (JObj (?f ?b)) = content_of (JObj (?f ?b'))" by code_simp
  have d: "createTxid ?B [(units_of ''amount'', JNum 6), (units_of ''fee'', JNum 2)] \<noteq> createTxid ?B ?b" by code_simp
  show ?thesis
    using txid_binds [OF h, of ?b' "JBool True", unfolded Let_def] c d h unfolding Let_def by (simp only: simp_thms)
qed

end
