(* ===== verification/Farkle.thy ===== *)
theory Farkle
  imports DailyHash "HOL-Library.Word"
begin

text \<open>
  The Farkle engine (\<^verbatim>\<open>static/farkle-engine.js\<close>): its own SHA-256 over 32-bit words, the die of a hash,
  the score of a roll and the automatic turn. The Monte-Carlo tables, which are floating-point
  numbers, and the self-test are left out.
\<close>

unbundle bit_operations_syntax

declare One_nat_def [simp del]

section \<open>SHA-256\<close>

definition sha_K :: "32 word list" where
  "sha_K = concat [
  [0x428a2f98, 0x71374491, 0xb5c0fbcf, 0xe9b5dba5],
  [0x3956c25b, 0x59f111f1, 0x923f82a4, 0xab1c5ed5],
  [0xd807aa98, 0x12835b01, 0x243185be, 0x550c7dc3],
  [0x72be5d74, 0x80deb1fe, 0x9bdc06a7, 0xc19bf174],
  [0xe49b69c1, 0xefbe4786, 0x0fc19dc6, 0x240ca1cc],
  [0x2de92c6f, 0x4a7484aa, 0x5cb0a9dc, 0x76f988da],
  [0x983e5152, 0xa831c66d, 0xb00327c8, 0xbf597fc7],
  [0xc6e00bf3, 0xd5a79147, 0x06ca6351, 0x14292967],
  [0x27b70a85, 0x2e1b2138, 0x4d2c6dfc, 0x53380d13],
  [0x650a7354, 0x766a0abb, 0x81c2c92e, 0x92722c85],
  [0xa2bfe8a1, 0xa81a664b, 0xc24b8b70, 0xc76c51a3],
  [0xd192e819, 0xd6990624, 0xf40e3585, 0x106aa070],
  [0x19a4c116, 0x1e376c08, 0x2748774c, 0x34b0bcb5],
  [0x391c0cb3, 0x4ed8aa4a, 0x5b9cca4f, 0x682e6ff3],
  [0x748f82ee, 0x78a5636f, 0x84c87814, 0x8cc70208],
  [0x90befffa, 0xa4506ceb, 0xbef9a3f7, 0xc67178f2]]"

definition sha_init :: "32 word list" where
  "sha_init = concat [
  [0x6a09e667, 0xbb67ae85, 0x3c6ef372, 0xa54ff53a],
  [0x510e527f, 0x9b05688c, 0x1f83d9ab, 0x5be0cd19]]"

text \<open>The padded message; the inputs are far shorter than \<open>2 ^ 29\<close> bytes, so the upper half of the length is 0.\<close>

definition sha_pad :: "nat list \<Rightarrow> nat list" where
  "sha_pad bytes =
     (let ml = length bytes; k = (56 + 64 - (ml + 1) mod 64) mod 64; bitLen = ml * 8
      in bytes @ [128] @ replicate (k + 4) 0 @
         [bitLen div 2 ^ 24 mod 256, bitLen div 2 ^ 16 mod 256, bitLen div 2 ^ 8 mod 256, bitLen mod 256])"

definition rotr :: "nat \<Rightarrow> 32 word \<Rightarrow> 32 word" where
  "rotr n x = drop_bit n x OR push_bit (32 - n) x"

definition be_word :: "nat list \<Rightarrow> nat \<Rightarrow> 32 word" where
  "be_word msg j = push_bit 24 (of_nat (msg ! j)) OR push_bit 16 (of_nat (msg ! (j + 1))) OR
     push_bit 8 (of_nat (msg ! (j + 2))) OR of_nat (msg ! (j + 3))"

text \<open>The message schedule: sixteen words of the block, extended to 64.\<close>

definition schedule_step :: "nat \<Rightarrow> 32 word list \<Rightarrow> 32 word list" where
  "schedule_step i w =
     (let s0 = rotr 7 (w ! (i - 15)) XOR rotr 18 (w ! (i - 15)) XOR drop_bit 3 (w ! (i - 15));
          s1 = rotr 17 (w ! (i - 2)) XOR rotr 19 (w ! (i - 2)) XOR drop_bit 10 (w ! (i - 2))
      in w @ [w ! (i - 16) + s0 + w ! (i - 7) + s1])"

definition schedule :: "nat list \<Rightarrow> nat \<Rightarrow> 32 word list" where
  "schedule msg off = fold schedule_step [16..<64] (map (\<lambda>i. be_word msg (off + i * 4)) [0..<16])"

text \<open>One round on the eight working variables.\<close>

definition sha_round :: "32 word list \<Rightarrow> nat \<Rightarrow> 32 word list \<Rightarrow> 32 word list" where
  "sha_round w i v =
     (let a = v ! 0; b = v ! 1; c = v ! 2; d = v ! 3; e = v ! 4; f = v ! 5; g = v ! 6; hh = v ! 7;
          S1 = rotr 6 e XOR rotr 11 e XOR rotr 25 e;
          ch = (e AND f) XOR (NOT e AND g);
          t1 = hh + S1 + ch + sha_K ! i + w ! i;
          S0 = rotr 2 a XOR rotr 13 a XOR rotr 22 a;
          maj = (a AND b) XOR (a AND c) XOR (b AND c);
          t2 = S0 + maj
      in [t1 + t2, a, b, c, d + t1, e, f, g])"

definition sha_block :: "nat list \<Rightarrow> nat \<Rightarrow> 32 word list \<Rightarrow> 32 word list" where
  "sha_block msg off h = map2 (+) h (fold (sha_round (schedule msg off)) [0..<64] h)"

definition word_bytes :: "32 word \<Rightarrow> nat list" where
  "word_bytes x = (let n = unat x in [n div 2 ^ 24 mod 256, n div 2 ^ 16 mod 256, n div 2 ^ 8 mod 256, n mod 256])"

definition sha256 :: "nat list \<Rightarrow> nat list" where
  "sha256 bytes =
     (let msg = sha_pad bytes
      in concat (map word_bytes (fold (\<lambda>b. sha_block msg (b * 64)) [0..<(length msg + 63) div 64] sha_init)))"

section \<open>Dice\<close>

definition utf8Bytes :: "string \<Rightarrow> nat list" where "utf8Bytes s = map (\<lambda>c. of_char c mod 256) s"

definition dieFromHash :: "string \<Rightarrow> nat \<Rightarrow> nat" where
  "dieFromHash seedHex index =
     (let dig = sha256 (utf8Bytes (seedHex @ '':'' @ show_nat index));
          u32 = ((dig ! 0 * 256 + dig ! 1) * 256 + dig ! 2) * 256 + dig ! 3
      in u32 mod 6 + 1)"

definition dieSamples :: "string \<Rightarrow> nat \<Rightarrow> nat list" where
  "dieSamples seedHex n = map (dieFromHash seedHex) [0..<n]"

section \<open>The score of a roll\<close>

definition threeValue :: "nat \<Rightarrow> nat" where "threeValue face = (if face = 1 then 1000 else face * 100)"

record roll_score =
  rs_score :: nat
  rs_dice :: "nat list"
  rs_all :: bool

text \<open>The score and the scoring dice of \<open>c\<close> dice that show \<open>f\<close>.\<close>

definition face_score :: "nat \<Rightarrow> nat \<Rightarrow> nat" where
  "face_score f c =
     (if c = 0 then 0
      else if c \<ge> 3 then threeValue f * (if c = 3 then 1 else if c = 4 then 2 else if c = 5 then 4 else 8)
      else if f = 1 then c * 100 else if f = 5 then c * 50 else 0)"

definition face_dice :: "nat \<Rightarrow> nat \<Rightarrow> nat list" where
  "face_dice f c = (if c \<ge> 3 \<or> f = 1 \<or> f = 5 then replicate c f else [])"

text \<open>Dice show 1 to 6; the counts of the source have no other index that is read.\<close>

definition scoreRoll :: "nat list \<Rightarrow> roll_score" where
  "scoreRoll dice =
     (if length dice = 6 \<and> list_all (\<lambda>f. count_list dice f = 1) [1..<7]
      then \<lparr>rs_score = 1500, rs_dice = [1, 2, 3, 4, 5, 6], rs_all = True\<rparr>
      else (let score = sum_list (map (\<lambda>f. face_score f (count_list dice f)) [1..<7]);
                sd = concat (map (\<lambda>f. face_dice f (count_list dice f)) [1..<7])
            in \<lparr>rs_score = score, rs_dice = sd, rs_all = (score > 0 \<and> length sd = length dice)\<rparr>))"

section \<open>The automatic turn\<close>

text \<open>
  The generator is a stream of dice, read from position \<open>p\<close>. The turn ends with a bust or at the
  threshold.
\<close>

partial_function (option) turn_loop :: "(nat \<Rightarrow> nat) \<Rightarrow> nat \<Rightarrow> nat \<Rightarrow> nat \<Rightarrow> nat \<Rightarrow> (nat \<times> nat) option" where
  "turn_loop rng threshold p sum0 left =
     (let r = scoreRoll (map (\<lambda>i. rng (p + i)) [0..<left]); p' = p + left
      in if rs_score r = 0 then Some (0, p')
         else if sum0 + rs_score r \<ge> threshold then Some (sum0 + rs_score r, p')
         else turn_loop rng threshold p' (sum0 + rs_score r)
                (if left - length (rs_dice r) = 0 then 6 else left - length (rs_dice r)))"

definition autoPlayTurn :: "(nat \<Rightarrow> nat) \<Rightarrow> nat \<Rightarrow> nat \<Rightarrow> (nat \<times> nat) option" where
  "autoPlayTurn rng threshold p = turn_loop rng threshold p 0 6"

section \<open>Facts about rolls\<close>

lemma faces: "[1..<7] = [1, 2, 3, 4, 5, 6 :: nat]"
  by (simp add: upt_rec)

lemma count_list_mset: "mset xs = mset ys \<Longrightarrow> count_list xs f = count_list ys f"
  by (metis count_mset)

lemma face_score_mono: "c \<le> c' \<Longrightarrow> face_score f c \<le> face_score f c'"
  by (auto simp: face_score_def threeValue_def)

lemma count_replicate [simp]: "count_list (replicate c f) g = (if f = g then c else 0)"
  by (cases "f = g"; induction c) simp_all

lemma face_dice_count: "count_list (face_dice f c) g \<le> (if g = f then c else 0)"
  by (simp add: face_dice_def)

text \<open>The score of a roll does not depend on the order of its dice.\<close>

lemma scoreRoll_order: "mset xs = mset ys \<Longrightarrow> scoreRoll xs = scoreRoll ys"
  unfolding scoreRoll_def Let_def by (simp only: count_list_mset [of xs ys] mset_eq_length [of xs ys])

lemma face_score_zero: "f > 0 \<Longrightarrow> face_score f c = 0 \<longleftrightarrow> face_dice f c = []"
  by (simp add: face_score_def face_dice_def threeValue_def)

lemma face_score_min: "f > 0 \<Longrightarrow> face_score f c = 0 \<or> 50 \<le> face_score f c"
  by (auto simp: face_score_def threeValue_def)

lemma face_score_max: "f \<le> 6 \<Longrightarrow> 3 * face_score f c \<le> 4000 * c"
  by (auto simp: face_score_def threeValue_def)

lemma face_dice_length: "length (face_dice f c) \<le> c"
  by (simp add: face_dice_def)

lemma count_split: "f \<notin> S \<Longrightarrow> count_list dice f + length (filter (\<lambda>d. d \<in> S) dice) = length (filter (\<lambda>d. d \<in> insert f S) dice)"
  by (induction dice) auto

lemma count_sum: "distinct fs \<Longrightarrow> (\<Sum>f\<leftarrow>fs. count_list dice f) = length (filter (\<lambda>d. d \<in> set fs) dice)"
  by (induction fs) (simp_all add: count_split [simplified insert_iff])

lemma counts_length: "(\<Sum>f\<leftarrow>[1, 2, 3, 4, 5, 6]. count_list dice f) \<le> length (dice :: nat list)"
  by (subst count_sum) simp_all

lemma score_zero: "rs_score (scoreRoll dice) = 0 \<longleftrightarrow> rs_dice (scoreRoll dice) = []"
  by (auto simp: scoreRoll_def Let_def faces face_score_zero)

lemma sum_min: "\<forall>x \<in> set ns. x = 0 \<or> 50 \<le> x \<Longrightarrow> sum_list ns = 0 \<or> 50 \<le> sum_list (ns :: nat list)"
  by (induction ns) auto

lemma score_min: "rs_score (scoreRoll dice) = 0 \<or> 50 \<le> rs_score (scoreRoll dice)"
proof -
  have "\<forall>x \<in> set (map (\<lambda>f. face_score f (count_list dice f)) [1..<7]). x = 0 \<or> 50 \<le> x"
    using face_score_min by auto
  from sum_min [OF this] show ?thesis by (simp only: scoreRoll_def Let_def if_split) simp
qed

lemma score_max: "length dice \<le> 6 \<Longrightarrow> rs_score (scoreRoll dice) \<le> 8000"
proof -
  assume l: "length dice \<le> 6"
  have m: "3 * face_score f (count_list dice f) \<le> 4000 * count_list dice f" if "f \<le> 6" for f
    by (rule face_score_max [OF that])
  have "3 * (\<Sum>f\<leftarrow>[1, 2, 3, 4, 5, 6]. face_score f (count_list dice f)) \<le> 4000 * (\<Sum>f\<leftarrow>[1, 2, 3, 4, 5, 6]. count_list dice f)"
    using m [of 1] m [of 2] m [of 3] m [of 4] m [of 5] m [of 6] by simp
  also have "\<dots> \<le> 24000" using counts_length [of dice] l by simp
  finally show ?thesis by (simp add: scoreRoll_def Let_def faces)
qed

lemma scoring_length: "length (rs_dice (scoreRoll dice)) \<le> length dice"
proof -
  have "length (concat (map (\<lambda>f. face_dice f (count_list dice f)) [1, 2, 3, 4, 5, 6])) \<le> (\<Sum>f\<leftarrow>[1, 2, 3, 4, 5, 6]. count_list dice f)"
    using face_dice_length [of 1] face_dice_length [of 2] face_dice_length [of 3] face_dice_length [of 4] face_dice_length [of 5] face_dice_length [of 6]
    by (simp add: add_le_mono)
  then show ?thesis using counts_length [of dice] by (auto simp: scoreRoll_def Let_def faces)
qed

lemma scoring_count: "count_list (rs_dice (scoreRoll dice)) g \<le> count_list dice g"
proof -
  have c: "count_list (face_dice f (count_list dice f)) g \<le> (if g = f then count_list dice g else 0)" for f
    using face_dice_count [of f "count_list dice f" g] by auto
  have "count_list (concat (map (\<lambda>f. face_dice f (count_list dice f)) [1, 2, 3, 4, 5, 6])) g \<le> count_list dice g"
    using c [of 1] c [of 2] c [of 3] c [of 4] c [of 5] c [of 6]
    by (auto split: if_splits)
  then show ?thesis by (auto simp: scoreRoll_def Let_def faces)
qed

lemma face_score_single: "c \<le> 1 \<Longrightarrow> face_score f c \<le> 100"
  by (simp add: face_score_def)

lemma score_plain:
  "\<not> (length d = 6 \<and> list_all (\<lambda>f. count_list d f = 1) [1, 2, 3, 4, 5, 6]) \<Longrightarrow>
     rs_score (scoreRoll d) = (\<Sum>f\<leftarrow>[1, 2, 3, 4, 5, 6]. face_score f (count_list d f))"
  by (simp only: scoreRoll_def Let_def faces if_False roll_score.simps)

lemma six_ones:
  fixes a b c d e f :: nat
  assumes "a + (b + (c + (d + (e + f)))) \<le> 6" "1 \<le> a" "1 \<le> b" "1 \<le> c" "1 \<le> d" "1 \<le> e" "1 \<le> f"
  shows "a = 1 \<and> b = 1 \<and> c = 1 \<and> d = 1 \<and> e = 1 \<and> f = 1"
  using assms by linarith

lemma score_mono:
  assumes "\<And>f. count_list xs f \<le> count_list ys f" "length xs \<le> length ys" "length ys \<le> 6"
  shows "rs_score (scoreRoll xs) \<le> rs_score (scoreRoll ys)"
proof -
  have m: "face_score f (count_list xs f) \<le> face_score f (count_list ys f)" for f
    by (rule face_score_mono [OF assms(1)])
  have s: "(\<Sum>f\<leftarrow>[1, 2, 3, 4, 5, 6]. face_score f (count_list xs f)) \<le> (\<Sum>f\<leftarrow>[1, 2, 3, 4, 5, 6]. face_score f (count_list ys f))"
    using m [of 1] m [of 2] m [of 3] m [of 4] m [of 5] m [of 6] by simp
  show ?thesis
  proof (cases "length ys = 6 \<and> list_all (\<lambda>f. count_list ys f = 1) [1, 2, 3, 4, 5, 6]")
    case True
    then have t: "face_score f (count_list xs f) \<le> 100" if "f \<in> {1, 2, 3, 4, 5, 6}" for f
      using assms(1) [of f] that by (intro face_score_single) auto
    have "(\<Sum>f\<leftarrow>[1, 2, 3, 4, 5, 6]. face_score f (count_list xs f)) \<le> 1500"
      using t [of 1] t [of 2] t [of 3] t [of 4] t [of 5] t [of 6] by simp
    then show ?thesis using True by (simp add: scoreRoll_def Let_def faces)
  next
    case False
    have nx: "\<not> (length xs = 6 \<and> list_all (\<lambda>f. count_list xs f = 1) [1, 2, 3, 4, 5, 6])"
    proof
      assume x: "length xs = 6 \<and> list_all (\<lambda>f. count_list xs f = 1) [1, 2, 3, 4, 5, 6]"
      then have l: "length ys = 6" using assms(2,3) by simp
      have c: "count_list ys f \<ge> 1" if "f \<in> {1, 2, 3, 4, 5, 6}" for f
        using assms(1) [of f] x that by auto
      have "count_list ys 1 + (count_list ys 2 + (count_list ys 3 + (count_list ys 4 + (count_list ys 5 + count_list ys 6)))) \<le> 6"
        using counts_length [of ys] l by simp
      from six_ones [OF this c c c c c c] have "list_all (\<lambda>f. count_list ys f = 1) [1, 2, 3, 4, 5, 6]" by simp
      then show False using False l by simp
    qed
    show ?thesis unfolding score_plain [OF False] score_plain [OF nx] by (rule s)
  qed
qed

section \<open>The automatic turn ends\<close>

lemma turn_loop_ends:
  "1 \<le> left \<Longrightarrow> left \<le> 6 \<Longrightarrow>
    \<exists>s p'. turn_loop rng threshold p sum0 left = Some (s, p') \<and> (s = 0 \<or> threshold \<le> s \<and> s \<le> max sum0 threshold + 8000)"
proof (induction "threshold - sum0" arbitrary: p sum0 left rule: less_induct)
  case less
  let ?d = "map (\<lambda>i. rng (p + i)) [0..<left]"
  define r where "r = scoreRoll ?d"
  have m: "rs_score r = 0 \<or> 50 \<le> rs_score r" "rs_score r \<le> 8000" "length (rs_dice r) \<le> left"
    unfolding r_def using score_min [of ?d] score_max [of ?d] scoring_length [of ?d] less.prems by simp_all
  have u: "turn_loop rng threshold p sum0 left =
      (if rs_score r = 0 then Some (0, p + left)
       else if sum0 + rs_score r \<ge> threshold then Some (sum0 + rs_score r, p + left)
       else turn_loop rng threshold (p + left) (sum0 + rs_score r) (if left - length (rs_dice r) = 0 then 6 else left - length (rs_dice r)))"
    unfolding r_def by (subst turn_loop.simps) (simp add: Let_def)
  show ?case
  proof (cases "rs_score r = 0 \<or> sum0 + rs_score r \<ge> threshold")
    case True
    then show ?thesis unfolding u using m by auto
  next
    case False
    let ?left = "if left - length (rs_dice r) = 0 then 6 else left - length (rs_dice r)"
    have "threshold - (sum0 + rs_score r) < threshold - sum0" using False m by linarith
    then have "\<exists>s p'. turn_loop rng threshold (p + left) (sum0 + rs_score r) ?left = Some (s, p') \<and>
        (s = 0 \<or> threshold \<le> s \<and> s \<le> max (sum0 + rs_score r) threshold + 8000)"
      by (rule less.hyps) (use less.prems in auto)
    moreover have "max (sum0 + rs_score r) threshold = max sum0 threshold" using False by simp
    ultimately show ?thesis unfolding u using False by simp
  qed
qed

end
