(* ===== verification/Pets.thy ===== *)
theory Pets
  imports AlgHash
begin

text \<open>
  The derivation core of the pets (\<^verbatim>\<open>static/pets-genes.js\<close>): genes, tiers, animals, stats, training,
  battles and feeding, over the field hash. The hash that seeds the field hash is the parameter \<open>HL\<close>.
  A missing block hash is the empty string. Names, art and coats, which are cosmetic, are left out,
  and with them the percentages and the level the page displays, which are floating-point numbers.
\<close>

unbundle bit_operations_syntax

declare One_nat_def [simp del]

section \<open>Constants\<close>

definition MINT_FEE :: nat where "MINT_FEE = 10 ^ 10"
definition TRAIN_FEE :: nat where "TRAIN_FEE = 5 * 10 ^ 9"
definition HATCH_DELAY :: nat where "HATCH_DELAY = 2"
definition START_BELLY :: nat where "START_BELLY = 432000"
definition BELLY_CAP :: nat where "BELLY_CAP = 432000"
definition FEED_DIV :: nat where "FEED_DIV = 1400"
definition STALE :: nat where "STALE = 18000"
definition DIE_PCT :: nat where "DIE_PCT = 10"
definition EXHAUST :: nat where "EXHAUST = 3600"
definition COMBINE_SALT :: int where "COMBINE_SALT = 888888"
definition CAP_BATTLE :: nat where "CAP_BATTLE = 12"

definition TIER_CUM :: "nat list" where "TIER_CUM = [78000, 95000, 98900, 99750, 99960]"

text \<open>Indexed by the tier, which is from 1 to 6.\<close>

definition TIER_BASE :: "nat \<Rightarrow> nat" where "TIER_BASE sp = [1, 205, 571, 840, 965, 1002] ! (sp - 1)"
definition TIER_COUNT :: "nat \<Rightarrow> nat" where "TIER_COUNT sp = [204, 366, 269, 125, 37, 7] ! (sp - 1)"

section \<open>Genes\<close>

text \<open>The hash of \<^verbatim>\<open>nadodapp.js\<close> reduces its inputs first.\<close>

definition algHashn :: "(string list \<Rightarrow> string) \<Rightarrow> int list \<Rightarrow> int" where
  "algHashn HL els = hashn HL (map f_mod els)"

definition roll32 :: "(string list \<Rightarrow> string) \<Rightarrow> int \<Rightarrow> nat" where
  "roll32 HL x = nat (algHashn HL [x] AND 0xFFFFFFFF)"

definition hexInt :: "string \<Rightarrow> int" where "hexInt h = int (hex_value h)"

definition geneOf :: "(string list \<Rightarrow> string) \<Rightarrow> string \<Rightarrow> string \<Rightarrow> nat \<Rightarrow> int option" where
  "geneOf HL bh0 bh1 pid =
     (if bh0 = [] \<or> bh1 = [] then None
      else Some (algHashn HL [(hexInt bh0 mod FP + hexInt bh1 mod FP + int pid) mod FP]))"

definition geneFromHalves :: "int \<Rightarrow> int \<Rightarrow> int" where "geneFromHalves gl gh = push_bit 32 gh OR gl"

definition speciesOf :: "(string list \<Rightarrow> string) \<Rightarrow> int \<Rightarrow> nat" where
  "speciesOf HL gene = (let rt = roll32 HL (gene + 555) mod 100000 in 1 + length (filter (\<lambda>t. rt \<ge> t) TIER_CUM))"

definition speciesIdOf :: "(string list \<Rightarrow> string) \<Rightarrow> int \<Rightarrow> nat \<Rightarrow> nat" where
  "speciesIdOf HL gene sp = TIER_BASE sp + roll32 HL (gene + 777) mod TIER_COUNT sp"

text \<open>The tier of an animal's number, and the index in the roster: a number 0 marks a pet older than the roster.\<close>

definition tierOfSi :: "nat \<Rightarrow> nat" where
  "tierOfSi si = (if si \<le> 204 then 1 else if si \<le> 570 then 2 else if si \<le> 839 then 3 else if si \<le> 964 then 4
                  else if si \<le> 1001 then 5 else 6)"

definition LEGACY :: "nat \<Rightarrow> nat option" where
  "LEGACY sp = (if sp = 1 then Some 0 else if sp = 2 then Some 70 else if sp = 3 then Some 95 else None)"

definition animal_index :: "nat \<Rightarrow> nat \<Rightarrow> nat" where
  "animal_index si sp = (if si > 0 then si - 1 else case LEGACY sp of None \<Rightarrow> 0 | Some i \<Rightarrow> i)"

definition combineStatOf :: "(string list \<Rightarrow> string) \<Rightarrow> int \<Rightarrow> int \<Rightarrow> nat" where
  "combineStatOf HL geneKeep geneConsume = roll32 HL ((geneKeep + geneConsume + COMBINE_SALT) mod FP) mod 10"

section \<open>Stats and training\<close>

definition statOf :: "(string list \<Rightarrow> string) \<Rightarrow> int \<Rightarrow> nat \<Rightarrow> nat \<Rightarrow> nat" where
  "statOf HL gene sp i = roll32 HL (gene + 1000 + int i) mod 60 + 1 + (sp - 1) * 6"

definition baseStats :: "(string list \<Rightarrow> string) \<Rightarrow> int \<Rightarrow> nat \<Rightarrow> nat list" where
  "baseStats HL gene sp = map (statOf HL gene sp) [0..<10]"

definition powerOf :: "(string list \<Rightarrow> string) \<Rightarrow> int \<Rightarrow> nat \<Rightarrow> nat" where
  "powerOf HL gene sp = sum_list (baseStats HL gene sp)"

definition trainK :: "nat \<Rightarrow> nat" where "trainK sp = 10 + 30 * sp"

definition trainRollOf :: "(string list \<Rightarrow> string) \<Rightarrow> string \<Rightarrow> string \<Rightarrow> nat \<Rightarrow> nat \<Rightarrow> nat option" where
  "trainRollOf HL bh0 bh1 pid i =
     (if bh0 = [] \<or> bh1 = [] then None
      else Some (roll32 HL ((hexInt bh0 mod FP + hexInt bh1 mod FP + int pid * 16 + int i) mod FP) mod 100))"

definition trainOk :: "nat \<Rightarrow> nat \<Rightarrow> nat \<Rightarrow> bool" where
  "trainOk roll cur sp \<longleftrightarrow> roll * (trainK sp + cur) < 100 * trainK sp"

section \<open>Battles\<close>

text \<open>
  A fighter's ten effective stats: strength, agility, vitality, intelligence, wisdom, charisma, loyalty,
  luck, speed, appetite.
\<close>

record turn_log =
  tl_t :: nat
  tl_atk :: nat
  tl_hit :: bool
  tl_crit :: bool
  tl_dmg :: int
  tl_h0 :: int
  tl_h1 :: int

definition full_hp :: "nat list \<Rightarrow> int" where "full_hp eff = 20 + int (eff ! 2) * 3 + int (eff ! 9)"

text \<open>The damage of a blow of \<open>A\<close> on \<open>B\<close>, before it is known whether it hits.\<close>

definition blow :: "(string list \<Rightarrow> string) \<Rightarrow> int \<Rightarrow> nat \<Rightarrow> nat list \<Rightarrow> nat list \<Rightarrow> bool \<Rightarrow> int" where
  "blow HL q t A B crit =
     (let d0 = (50 + A ! 0 + A ! 9 div 4) * (60 + roll32 HL (q + int (t + 4096)) mod 61) div 100 + 1;
          d1 = d0 + (if crit then 1 else 0) * d0;
          d2 = d1 * 90 div (90 + B ! 4)
      in max 1 (int d2 - int (B ! 5 div 2)))"

definition battle_turn :: "(string list \<Rightarrow> string) \<Rightarrow> int \<Rightarrow> nat list \<Rightarrow> nat list \<Rightarrow> nat \<Rightarrow> int \<times> int \<Rightarrow> turn_log" where
  "battle_turn HL q effA effB t h =
     (let hA = full_hp effA; hB = full_hp effB; span = effA ! 8 + effB ! 8 + 120; thrA = effA ! 8 + 60;
          alive = fst h > 0 \<and> snd h > 0;
          cur = (if roll32 HL (q + int (t + 8192)) mod span < thrA then 0 else 1);
          A = (if cur = 0 then effA else effB); B = (if cur = 0 then effB else effA);
          acc = 15 + 2 * A ! 3;
          hit = roll32 HL (q + int t) mod 100 * (acc + B ! 1) < 100 * acc;
          crit = roll32 HL (q + int (t + 12288)) mod 100 < A ! 7;
          dmg = (if hit \<and> alive then blow HL q t A B crit else 0);
          h0 = (if cur = 0 then fst h else fst h - dmg); h1 = (if cur = 0 then snd h - dmg else snd h)
      in \<lparr>tl_t = t, tl_atk = cur, tl_hit = (hit \<and> alive), tl_crit = (crit \<and> hit \<and> alive), tl_dmg = dmg,
          tl_h0 = min hA (h0 + (if alive then int (effA ! 6 div 4) else 0)),
          tl_h1 = min hB (h1 + (if alive then int (effB ! 6 div 4) else 0))\<rparr>)"

text \<open>The turns from \<open>t\<close> on.\<close>

primrec battle_turns :: "(string list \<Rightarrow> string) \<Rightarrow> int \<Rightarrow> nat list \<Rightarrow> nat list \<Rightarrow> nat \<Rightarrow> nat \<Rightarrow> int \<times> int \<Rightarrow> turn_log list" where
  "battle_turns HL q effA effB 0 t h = []"
| "battle_turns HL q effA effB (Suc k) t h =
     (let l = battle_turn HL q effA effB t h in l # battle_turns HL q effA effB k (t + 1) (tl_h0 l, tl_h1 l))"

record battle =
  bt_aWins :: bool
  bt_dies :: bool
  bt_h0 :: int
  bt_h1 :: int
  bt_log :: "turn_log list"
  bt_hpA :: int
  bt_hpB :: int

definition battleOf :: "(string list \<Rightarrow> string) \<Rightarrow> string \<Rightarrow> string \<Rightarrow> nat \<Rightarrow> nat list \<Rightarrow> nat list \<Rightarrow> battle option" where
  "battleOf HL bh0 bh1 bid effA effB =
     (if bh0 = [] \<or> bh1 = [] then None
      else (let q = (hexInt bh0 mod FP + hexInt bh1 mod FP + int bid * 8) mod FP;
                hA = full_hp effA; hB = full_hp effB;
                ls = battle_turns HL q effA effB CAP_BATTLE 0 (hA, hB);
                h0 = tl_h0 (last ls); h1 = tl_h1 (last ls)
            in Some \<lparr>bt_aWins = (max h0 0 * hB > max h1 0 * hA), bt_dies = (roll32 HL (q + 999999) mod 100 < DIE_PCT),
                     bt_h0 = h0, bt_h1 = h1, bt_log = ls, bt_hpA = hA, bt_hpB = hB\<rparr>))"

section \<open>Feeding\<close>

text \<open>An appetite of 0 divides by zero.\<close>

definition feedBlocks :: "nat \<Rightarrow> nat \<Rightarrow> nat option" where
  "feedBlocks valueRaw appetite = (if appetite = 0 then None else Some (valueRaw div (appetite * FEED_DIV)))"

definition feedCost :: "nat \<Rightarrow> nat \<Rightarrow> nat" where "feedCost blocks appetite = blocks * appetite * FEED_DIV"

end
