(* ===== verification/PetProperties.thy ===== *)
theory PetProperties
  imports Pets
begin

text \<open>The properties of the pets.\<close>

declare One_nat_def [simp del]

section \<open>Battles\<close>

lemma blow_pos: "blow HL q t A B crit \<ge> 1"
  by (simp add: blow_def Let_def)

text \<open>A turn: at most one fighter falls, and with a fallen fighter nothing happens.\<close>

definition turn_ok :: "nat list \<Rightarrow> nat list \<Rightarrow> turn_log \<Rightarrow> bool" where
  "turn_ok effA effB l \<longleftrightarrow> tl_h0 l \<le> full_hp effA \<and> tl_h1 l \<le> full_hp effB \<and> (tl_h0 l > 0 \<or> tl_h1 l > 0) \<and>
     0 \<le> tl_dmg l \<and> (tl_dmg l > 0 \<longleftrightarrow> tl_hit l) \<and> tl_crit l = (tl_crit l \<and> tl_hit l)"

lemma full_hp_pos: "full_hp eff > 0"
  by (simp add: full_hp_def)

lemma turn_fine:
  assumes "fst h > 0 \<or> snd h > 0" "fst h \<le> full_hp effA" "snd h \<le> full_hp effB"
  shows "turn_ok effA effB (battle_turn HL q effA effB t h)"
  using assms full_hp_pos [of effA] full_hp_pos [of effB] blow_pos [of HL q t effA effB] blow_pos [of HL q t effB effA]
  unfolding turn_ok_def battle_turn_def Let_def by (auto simp: min_def) (smt (verit))+

lemma turn_frozen:
  "fst h \<le> 0 \<or> snd h \<le> 0 \<Longrightarrow> fst h \<le> full_hp effA \<Longrightarrow> snd h \<le> full_hp effB \<Longrightarrow>
     tl_h0 (battle_turn HL q effA effB t h) = fst h \<and> tl_h1 (battle_turn HL q effA effB t h) = snd h \<and>
     \<not> tl_hit (battle_turn HL q effA effB t h)"
  by (auto simp: battle_turn_def Let_def)

lemma turns_fine:
  "fst h > 0 \<or> snd h > 0 \<Longrightarrow> fst h \<le> full_hp effA \<Longrightarrow> snd h \<le> full_hp effB \<Longrightarrow>
     \<forall>l \<in> set (battle_turns HL q effA effB k t h). turn_ok effA effB l"
proof (induction k arbitrary: t h)
  case (Suc k)
  let ?l = "battle_turn HL q effA effB t h"
  have "turn_ok effA effB ?l" by (rule turn_fine) (use Suc.prems in auto)
  moreover have "\<forall>l \<in> set (battle_turns HL q effA effB k (t + 1) (tl_h0 ?l, tl_h1 ?l)). turn_ok effA effB l"
    by (rule Suc.IH) (use \<open>turn_ok effA effB ?l\<close> in \<open>auto simp: turn_ok_def\<close>)
  ultimately show ?case by (simp add: Let_def)
qed simp

lemma length_turns [simp]: "length (battle_turns HL q effA effB k t h) = k"
  by (induction k arbitrary: t h) (simp_all add: Let_def)

lemma turns_next:
  "Suc j < k \<Longrightarrow> battle_turns HL q effA effB k t h ! Suc j =
     battle_turn HL q effA effB (t + Suc j)
       (tl_h0 (battle_turns HL q effA effB k t h ! j), tl_h1 (battle_turns HL q effA effB k t h ! j))"
proof (induction k arbitrary: j t h)
  case (Suc k)
  let ?l = "battle_turn HL q effA effB t h"
  show ?case
  proof (cases j)
    case 0
    obtain k' where "k = Suc k'" using Suc.prems by (cases k) auto
    then show ?thesis by (simp add: 0 Let_def One_nat_def)
  next
    case (Suc i)
    then show ?thesis using Suc.IH [of i "t + 1" "(tl_h0 ?l, tl_h1 ?l)"] Suc.prems by (simp add: Let_def One_nat_def)
  qed
qed simp

text \<open>After the turn a fighter has fallen in, the next one changes nothing.\<close>

definition fallen :: "turn_log \<Rightarrow> bool" where "fallen l \<longleftrightarrow> tl_h0 l \<le> 0 \<or> tl_h1 l \<le> 0"

definition no_blow :: "turn_log \<Rightarrow> turn_log \<Rightarrow> bool" where
  "no_blow l l' \<longleftrightarrow> tl_h0 l' = tl_h0 l \<and> tl_h1 l' = tl_h1 l \<and> \<not> tl_hit l'"

lemma turns_frozen:
  assumes "fst h > 0 \<or> snd h > 0" "fst h \<le> full_hp effA" "snd h \<le> full_hp effB" "Suc j < k"
    "fallen (battle_turns HL q effA effB k t h ! j)"
  shows "no_blow (battle_turns HL q effA effB k t h ! j) (battle_turns HL q effA effB k t h ! Suc j)"
proof -
  let ?l = "battle_turns HL q effA effB k t h ! j"
  have "turn_ok effA effB ?l" using turns_fine [OF assms(1-3), of HL q k t] assms(4) by simp
  then show ?thesis
    using turn_frozen [of "(tl_h0 ?l, tl_h1 ?l)" effA effB HL q "t + Suc j"] assms(5)
    unfolding turns_next [OF assms(4)] by (simp add: turn_ok_def fallen_def no_blow_def)
qed

text \<open>C36: A battle of pets. It has twelve turns; hull points never exceed the full ones; a hit, and nothing else,
  does damage, and only a hit is critical; at most one fighter is down at any time; once one is down
  nothing happens any more; and the fighter that is down at the end has lost.\<close>

theorem pets_battle:
  assumes "battleOf HL bh0 bh1 bid effA effB = Some b"
  shows "length (bt_log b) = 12 \<and> (\<forall>l \<in> set (bt_log b). turn_ok effA effB l) \<and>
         (\<forall>j < 11. fallen (bt_log b ! j) \<longrightarrow> no_blow (bt_log b ! j) (bt_log b ! Suc j)) \<and>
         (bt_h0 b \<le> 0 \<longrightarrow> \<not> bt_aWins b \<and> bt_h1 b > 0) \<and> (bt_h1 b \<le> 0 \<longrightarrow> bt_aWins b \<and> bt_h0 b > 0)"
proof -
  define q where "q = (hexInt bh0 mod FP + hexInt bh1 mod FP + int bid * 8) mod FP"
  define ls where "ls = battle_turns HL q effA effB CAP_BATTLE 0 (full_hp effA, full_hp effB)"
  note r = assms [unfolded battleOf_def Let_def, folded q_def, folded ls_def]
  have "\<not> (bh0 = [] \<or> bh1 = [])" using r by (intro notI) simp
  note e = r [unfolded if_not_P [OF this] option.inject, symmetric]
  have b: "bt_log b = ls" "bt_h0 b = tl_h0 (last ls)" "bt_h1 b = tl_h1 (last ls)"
      "bt_aWins b = (max (bt_h0 b) 0 * full_hp effB > max (bt_h1 b) 0 * full_hp effA)"
    by (simp_all only: e battle.simps)
  have n: "length ls = 12" by (simp add: ls_def CAP_BATTLE_def)
  have f: "\<forall>l \<in> set ls. turn_ok effA effB l" unfolding ls_def by (rule turns_fine) (simp_all add: full_hp_pos)
  have "last ls \<in> set ls" using n by (intro last_in_set) auto
  then have "bt_h0 b > 0 \<or> bt_h1 b > 0" using f b by (auto simp: turn_ok_def)
  then have up: "bt_h0 b \<le> 0 \<Longrightarrow> bt_h1 b > 0" "bt_h1 b \<le> 0 \<Longrightarrow> bt_h0 b > 0" by auto
  have lost: "\<not> bt_aWins b" if "bt_h0 b \<le> 0"
  proof -
    have "0 \<le> max (bt_h1 b) 0 * full_hp effA" using full_hp_pos [of effA] by (intro mult_nonneg_nonneg) simp_all
    then show ?thesis unfolding b(4) max_absorb2 [OF that] by simp
  qed
  have won: "bt_aWins b" if "bt_h1 b \<le> 0"
  proof -
    have "0 < max (bt_h0 b) 0 * full_hp effB" using full_hp_pos [of effB] up(2) [OF that] by (intro mult_pos_pos) simp_all
    then show ?thesis unfolding b(4) max_absorb2 [OF that] by simp
  qed
  have "no_blow (ls ! j) (ls ! Suc j)" if "j < 11" "fallen (ls ! j)" for j
    unfolding ls_def by (rule turns_frozen) (use that in \<open>simp_all add: full_hp_pos CAP_BATTLE_def ls_def\<close>)
  then show ?thesis using n f up lost won unfolding b(1) by blast
qed

theorem pets_battle_witness:
  "\<exists>b. battleOf (\<lambda>_. ''0'') ''a1'' ''b2'' 3 (replicate 10 5) (replicate 10 6) = Some b \<and> length (bt_log b) = 12 \<and>
     tl_h0 (bt_log b ! 11) \<le> 40"
proof -
  obtain b where b: "battleOf (\<lambda>_. ''0'') ''a1'' ''b2'' 3 (replicate 10 5) (replicate 10 6) = Some b"
    unfolding battleOf_def Let_def by (simp del: replicate.simps)
  have "length (bt_log b) = 12" "\<forall>l \<in> set (bt_log b). turn_ok (replicate 10 5) (replicate 10 6) l"
    using pets_battle [OF b] by blast+
  then have "turn_ok (replicate 10 5) (replicate 10 6) (bt_log b ! 11)" by simp
  then show ?thesis using b \<open>length (bt_log b) = 12\<close> by (auto simp: turn_ok_def full_hp_def)
qed

section \<open>Tiers\<close>

lemma tier_filter: "length (filter (\<lambda>t. rt \<ge> t) TIER_CUM) \<le> 5"
  by (simp add: TIER_CUM_def)

lemma tier_cases: "1 \<le> (sp :: nat) \<Longrightarrow> sp \<le> 6 \<Longrightarrow> sp \<in> {1, 2, 3, 4, 5, 6}"
  by auto

text \<open>Tiers and animals. The tier of every gene is from 1 to 6; its animal is in the band of the tier and in
  the roster of 1008, and the number of the animal tells the tier; the ten stats lie between 1 and 60
  above the bonus of the tier.\<close>

theorem pets_tiers:
  "(let sp = speciesOf HL gene; si = speciesIdOf HL gene sp
    in 1 \<le> sp \<and> sp \<le> 6 \<and> TIER_BASE sp \<le> si \<and> si < TIER_BASE sp + TIER_COUNT sp \<and> 0 < si \<and> si \<le> 1008 \<and>
       tierOfSi si = sp \<and> animal_index si sp < 1008 \<and>
       length (baseStats HL gene sp) = 10 \<and> set (baseStats HL gene sp) \<subseteq> {6 * sp - 5..6 * sp + 54})"
proof -
  define sp where "sp = speciesOf HL gene"
  define si where "si = speciesIdOf HL gene sp"
  have sp: "1 \<le> sp" "sp \<le> 6" using tier_filter by (simp_all add: sp_def speciesOf_def Let_def)
  have tiers: "TIER_COUNT s > 0" if "s \<in> {1, 2, 3, 4, 5, 6}" for s using that by (auto simp: TIER_COUNT_def)
  have si: "TIER_BASE sp \<le> si" "si < TIER_BASE sp + TIER_COUNT sp"
    using tiers [OF tier_cases [OF sp]] by (simp_all add: si_def speciesIdOf_def)
  have t: "tierOfSi si = sp"
    using tier_cases [OF sp] si by (auto simp: TIER_BASE_def TIER_COUNT_def tierOfSi_def)
  have b: "0 < si" "si \<le> 1008" using tier_cases [OF sp] si by (auto simp: TIER_BASE_def TIER_COUNT_def)
  have "set (baseStats HL gene sp) \<subseteq> {6 * sp - 5..6 * sp + 54}"
  proof
    fix x assume "x \<in> set (baseStats HL gene sp)"
    then obtain i where "x = roll32 HL (gene + 1000 + int i) mod 60 + 1 + (sp - 1) * 6" by (auto simp: baseStats_def statOf_def)
    moreover have "roll32 HL (gene + 1000 + int i) mod 60 < 60" by simp
    ultimately show "x \<in> {6 * sp - 5..6 * sp + 54}" unfolding atLeastAtMost_iff using sp by linarith
  qed
  moreover have "animal_index si sp < 1008" using b by (simp add: animal_index_def)
  moreover have "length (baseStats HL gene sp) = 10" by (simp add: baseStats_def)
  ultimately show ?thesis
    unfolding Let_def sp_def [symmetric] si_def [symmetric] using sp si t b by blast
qed

end
