(* ===== verification/DiceProperties.thy ===== *)
theory DiceProperties
  imports Farkle PetProperties
begin

text \<open>The properties of the Farkle engine.\<close>

declare One_nat_def [simp del]

text \<open>C37: A roll of Farkle. The scoring dice are among the rolled ones, there are none exactly when the score is 0,
  the score of up to six dice is at most 8000, and it is the best one: no choice of some of the dice
  scores more than all of them.\<close>

theorem farkle_score:
  assumes "length dice \<le> 6" "mset kept \<subseteq># mset dice"
  shows "mset (rs_dice (scoreRoll dice)) \<subseteq># mset dice \<and>
         (rs_score (scoreRoll dice) = 0 \<longleftrightarrow> rs_dice (scoreRoll dice) = []) \<and>
         rs_score (scoreRoll dice) \<le> 8000 \<and> rs_score (scoreRoll kept) \<le> rs_score (scoreRoll dice)"
proof -
  have "count_list kept f \<le> count_list dice f" for f
    using mset_subset_eq_count [OF assms(2), of f] by (simp add: count_mset)
  moreover have "length kept \<le> length dice" using size_mset_mono [OF assms(2)] by simp
  ultimately have "rs_score (scoreRoll kept) \<le> rs_score (scoreRoll dice)" using assms(1) by (rule score_mono)
  moreover have "mset (rs_dice (scoreRoll dice)) \<subseteq># mset dice"
    by (rule mset_subset_eqI) (simp add: count_mset scoring_count)
  ultimately show ?thesis using score_zero score_max [OF assms(1)] by blast
qed

theorem farkle_score_witness:
  "rs_score (scoreRoll [1, 1, 5, 2]) = 250 \<and> rs_score (scoreRoll [1, 5]) \<le> rs_score (scoreRoll [1, 1, 5, 2])"
proof -
  have "rs_score (scoreRoll [1, 1, 5, 2]) = 250" by code_simp
  then show ?thesis using farkle_score [of "[1, 1, 5, 2]" "[1, 5]"] by simp
qed

text \<open>C38: The automatic turn ends. For every stream of dice and every threshold the turn busts with 0 or banks
  at least the threshold and at most 8000 points more.\<close>

theorem farkle_turn_ends:
  "\<exists>s p'. autoPlayTurn rng threshold p = Some (s, p') \<and> (s = 0 \<or> threshold \<le> s \<and> s \<le> threshold + 8000)"
  unfolding autoPlayTurn_def using turn_loop_ends [of 6 rng threshold p 0] by simp

end
