(* ===== verification/Mnemonic.thy ===== *)
theory Mnemonic
  imports Prelude
begin

text \<open>
  Recovery phrases (\<^verbatim>\<open>static/bip39.js\<close>). The vendored word list is the parameter \<open>W\<close>, the SHA-256 of the
  browser the parameter \<open>SHA\<close>; bytes are numbers below 256. The strings of digits 0 and 1 are lists
  of truth values. Phrases are 8-bit characters, of which \<^verbatim>\<open>toLowerCase\<close> changes the ASCII capitals.
\<close>

declare One_nat_def [simp del]

section \<open>Bits\<close>

text \<open>\<^verbatim>\<open>v.toString(2).padStart(n, "0")\<close> for a number of at most \<open>n\<close> digits, and \<^verbatim>\<open>parseInt(s, 2)\<close>.\<close>

primrec pad_bits :: "nat \<Rightarrow> nat \<Rightarrow> bool list" where
  "pad_bits 0 v = []"
| "pad_bits (Suc n) v = pad_bits n (v div 2) @ [odd v]"

definition parse_bits :: "bool list \<Rightarrow> nat" where
  "parse_bits bs = fold (\<lambda>b v. 2 * v + (if b then 1 else 0)) bs 0"

definition bits_of :: "nat list \<Rightarrow> bool list" where "bits_of bytes = concat (map (pad_bits 8) bytes)"

text \<open>The consecutive pieces of \<open>n\<close> bits.\<close>

definition pieces :: "nat \<Rightarrow> nat \<Rightarrow> bool list \<Rightarrow> bool list list" where
  "pieces n k bs = map (\<lambda>i. take n (drop (i * n) bs)) [0..<k]"

section \<open>Phrases\<close>

definition seedToMnemonic :: "(nat list \<Rightarrow> nat list) \<Rightarrow> string list \<Rightarrow> nat list \<Rightarrow> string option" where
  "seedToMnemonic SHA W seed =
     (if length seed \<noteq> 32 then None
      else (let bits = bits_of seed @ pad_bits 8 (SHA seed ! 0)
            in Some (join_with '' '' (map (\<lambda>p. W ! parse_bits p) (pieces 11 24 bits)))))"

definition lower_char :: "char \<Rightarrow> char" where
  "lower_char c = (if 65 \<le> (of_char c :: nat) \<and> (of_char c :: nat) \<le> 90 then char_of ((of_char c :: nat) + 32) else c)"

text \<open>\<^verbatim>\<open>indexOf\<close>: the first index of a word.\<close>

definition index_of :: "string \<Rightarrow> string list \<Rightarrow> nat option" where
  "index_of w W = List.find (\<lambda>i. W ! i = w) [0..<length W]"

definition phrase_words :: "string \<Rightarrow> string list" where
  "phrase_words phrase = filter (\<lambda>w. w \<noteq> []) (split_ws (map lower_char (trim_ws phrase)))"

text \<open>Every exception is \<open>None\<close>: a wrong number of words, an unknown word, a wrong checksum.\<close>

definition mnemonicToSeed :: "(nat list \<Rightarrow> nat list) \<Rightarrow> string list \<Rightarrow> string \<Rightarrow> nat list option" where
  "mnemonicToSeed SHA W phrase =
     (let words = phrase_words phrase
      in if length words \<noteq> 24 then None
         else (case those (map (\<lambda>w. map_option (pad_bits 11) (index_of w W)) words) of
                 None \<Rightarrow> None
               | Some bss \<Rightarrow>
                   (let bits = concat bss; seed = map parse_bits (pieces 8 32 bits)
                    in if drop 256 bits \<noteq> pad_bits 8 (SHA seed ! 0) then None else Some seed)))"

definition looksLikeMnemonic :: "string \<Rightarrow> bool" where
  "looksLikeMnemonic s \<longleftrightarrow> length (filter (\<lambda>w. w \<noteq> []) (split_ws (trim_ws s))) \<ge> 12"

section \<open>Bits and numbers\<close>

lemma length_pad_bits [simp]: "length (pad_bits n v) = n"
  by (induction n arbitrary: v) simp_all

lemma parse_snoc [simp]: "parse_bits (bs @ [b]) = 2 * parse_bits bs + (if b then 1 else 0)"
  by (simp add: parse_bits_def)

lemma parse_pad: "v < 2 ^ n \<Longrightarrow> parse_bits (pad_bits n v) = v"
proof (induction n arbitrary: v)
  case (Suc n)
  have "v div 2 < 2 ^ n" using Suc.prems by (simp add: div_less_iff_less_mult mult.commute)
  from Suc.IH [OF this] show ?case by (auto elim!: evenE oddE)
qed (simp add: parse_bits_def)

lemma pad_parse: "pad_bits (length bs) (parse_bits bs) = bs"
proof (induction bs rule: rev_induct)
  case (snoc b bs)
  then show ?case by (cases b) simp_all
qed (simp add: parse_bits_def)

lemma parse_less: "parse_bits bs < 2 ^ length bs"
  by (induction bs rule: rev_induct) (simp_all add: parse_bits_def)

text \<open>Cutting into equal pieces and joining them again.\<close>

lemma length_pieces [simp]: "length (pieces n k bs) = k"
  by (simp add: pieces_def)

lemma pieces_Suc: "pieces n (Suc k) bs = take n bs # pieces n k (drop n bs)"
  unfolding pieces_def map_upt_Suc drop_drop by (simp add: add.commute)

lemma pieces_join: "length bs = n * k \<Longrightarrow> concat (pieces n k bs) = bs"
proof (induction k arbitrary: bs)
  case (Suc k)
  then show ?case using Suc.IH [of "drop n bs"] by (simp add: pieces_Suc)
qed (simp add: pieces_def)

lemma join_pieces: "\<forall>x \<in> set xss. length x = n \<Longrightarrow> pieces n (length xss) (concat xss @ rest) = xss"
  by (induction xss) (simp_all add: pieces_Suc, simp add: pieces_def)

lemma length_piece: "length bs = n * k \<Longrightarrow> p \<in> set (pieces n k bs) \<Longrightarrow> length p = n"
proof -
  assume l: "length bs = n * k" and "p \<in> set (pieces n k bs)"
  then obtain i where i: "i < k" "p = take n (drop (i * n) bs)" by (auto simp: pieces_def)
  have "Suc i * n \<le> k * n" using i(1) by (intro mult_le_mono1) simp
  then show ?thesis using l by (simp add: i(2) mult.commute)
qed

lemma index_nth: "distinct W \<Longrightarrow> i < length W \<Longrightarrow> index_of (W ! i) W = Some i"
  unfolding index_of_def find_Some_iff
  by (intro exI [of _ i]) (auto simp: nth_eq_iff_index_eq)

section \<open>Words of a phrase\<close>

definition plain_word :: "string \<Rightarrow> bool" where
  "plain_word w \<longleftrightarrow> w \<noteq> [] \<and> (\<forall>c \<in> set w. 97 \<le> (of_char c :: nat) \<and> (of_char c :: nat) \<le> 122)"

lemma plain_char: "plain_word w \<Longrightarrow> c \<in> set w \<Longrightarrow> \<not> is_space c \<and> lower_char c = c"
  by (auto simp: plain_word_def is_space_def lower_char_def Let_def)

lemma join_lower: "\<forall>w \<in> set ws. plain_word w \<Longrightarrow> map lower_char (join_with '' '' ws) = join_with '' '' ws"
proof (induction "'' ''" ws rule: join_with.induct)
  case (2 x)
  then show ?case by (simp add: map_idI plain_char)
next
  case (3 x y zs)
  have "map lower_char x = x" using 3 by (intro map_idI) (auto simp: plain_char)
  then show ?case using 3 by (simp add: lower_char_def)
qed simp

lemma join_tokens: "ws \<noteq> [] \<Longrightarrow> \<forall>w \<in> set ws. plain_word w \<Longrightarrow> tokens_ws (join_with '' '' ws) = ws \<and>
    join_with '' '' ws \<noteq> [] \<and> \<not> is_space (hd (join_with '' '' ws)) \<and> \<not> is_space (last (join_with '' '' ws))"
proof (induction "'' ''" ws rule: join_with.induct)
  case (2 x)
  then have "x \<noteq> []" "\<And>c. c \<in> set x \<Longrightarrow> \<not> is_space c" by (auto simp: plain_word_def plain_char)
  then show ?case by (simp add: tokens_ws_token)
next
  case (3 x y zs)
  let ?r = "join_with '' '' (y # zs)"
  have x: "x \<noteq> []" "\<And>c. c \<in> set x \<Longrightarrow> \<not> is_space c" using 3 by (auto simp: plain_word_def plain_char)
  have r: "tokens_ws ?r = y # zs" "?r \<noteq> []" "\<not> is_space (hd ?r)" "\<not> is_space (last ?r)" using 3 by auto
  show ?case using tokens_ws_cons [OF x(2) r(2,3)] x r by simp
qed simp

lemma phrase_join: "ws \<noteq> [] \<Longrightarrow> \<forall>w \<in> set ws. plain_word w \<Longrightarrow> phrase_words (join_with '' '' ws) = ws"
proof -
  assume w: "ws \<noteq> []" "\<forall>w \<in> set ws. plain_word w"
  note j = join_tokens [OF w]
  have t: "trim_ws (join_with '' '' ws) = join_with '' '' ws" using j by (intro trim_ws_id) auto
  have "filter (\<lambda>w. w \<noteq> []) ws = ws" using w(2) by (simp add: filter_id_conv plain_word_def)
  then show ?thesis unfolding phrase_words_def t join_lower [OF w(2)] split_ws_def using j by simp
qed

section \<open>Round trip\<close>

definition word_list :: "string list \<Rightarrow> bool" where
  "word_list W \<longleftrightarrow> length W = 2048 \<and> distinct W \<and> (\<forall>w \<in> set W. plain_word w)"

lemma length_bits_of [simp]: "length (bits_of bytes) = 8 * length bytes"
  by (induction bytes) (simp_all add: bits_of_def)

lemma those_Some: "(\<And>x. x \<in> set xs \<Longrightarrow> f x = Some (g x)) \<Longrightarrow> those (map f xs) = Some (map g xs)"
  by (induction xs) simp_all

lemma words_bits:
  assumes "word_list W" "\<forall>p \<in> set ps. length p = 11"
  shows "those (map (\<lambda>w. map_option (pad_bits 11) (index_of w W)) (map (\<lambda>p. W ! parse_bits p) ps)) = Some ps"
proof -
  have "map_option (pad_bits 11) (index_of (W ! parse_bits p) W) = Some p" if "p \<in> set ps" for p
  proof -
    have l: "length p = 11" using assms(2) that by blast
    then have "parse_bits p < length W" using parse_less [of p] assms(1) by (simp add: word_list_def)
    then have "index_of (W ! parse_bits p) W = Some (parse_bits p)" using assms(1) by (intro index_nth) (simp_all add: word_list_def)
    then show ?thesis using pad_parse [of p] by (simp add: l)
  qed
  then show ?thesis using those_Some [of ps _ "\<lambda>p. p"] unfolding map_map comp_def by simp
qed

lemma phrase_of_seed:
  assumes W: "word_list W" and s: "length seed = 32" "\<forall>b \<in> set seed. b < 256"
  shows "\<exists>p. seedToMnemonic SHA W seed = Some p \<and> mnemonicToSeed SHA W p = Some seed"
proof -
  define bits where "bits = bits_of seed @ pad_bits 8 (SHA seed ! 0)"
  define ps where "ps = pieces 11 24 bits"
  define ws where "ws = map (\<lambda>p. W ! parse_bits p) ps"
  have lb: "length bits = 11 * 24" using s(1) by (simp add: bits_def)
  have ps: "\<forall>p \<in> set ps. length p = 11" "concat ps = bits" "length ps = 24"
    unfolding ps_def using length_piece [OF lb] pieces_join [OF lb] by (blast, blast, simp only: length_pieces)
  have "\<forall>w \<in> set ws. plain_word w"
  proof
    fix w assume "w \<in> set ws"
    then obtain p where p: "p \<in> set ps" "w = W ! parse_bits p" by (auto simp: ws_def)
    then have "parse_bits p < length W" using parse_less [of p] ps(1) W by (auto simp: word_list_def)
    then show "plain_word w" using W p(2) by (simp add: word_list_def)
  qed
  then have pw: "phrase_words (join_with '' '' ws) = ws"
    using ps(3) by (intro phrase_join) (auto simp: ws_def)
  have th: "those (map (\<lambda>w. map_option (pad_bits 11) (index_of w W)) ws) = Some ps"
    unfolding ws_def by (rule words_bits [OF W ps(1)])
  have "pieces 8 (length (map (pad_bits 8) seed)) (concat (map (pad_bits 8) seed) @ pad_bits 8 (SHA seed ! 0)) = map (pad_bits 8) seed"
    by (rule join_pieces) simp
  then have "pieces 8 32 bits = map (pad_bits 8) seed" using s(1) by (simp add: bits_def bits_of_def)
  then have sd: "map parse_bits (pieces 8 32 bits) = seed" using s(2) parse_pad [of _ 8] by (simp add: comp_def map_idI)
  have "drop 256 bits = pad_bits 8 (SHA seed ! 0)" using s(1) by (simp add: bits_def)
  then have "mnemonicToSeed SHA W (join_with '' '' ws) = Some seed"
    using ps(3) by (simp add: mnemonicToSeed_def pw th ps(2) sd Let_def) (simp add: ws_def)
  moreover have "seedToMnemonic SHA W seed = Some (join_with '' '' ws)"
    using s(1) by (simp add: seedToMnemonic_def bits_def [symmetric] ps_def [symmetric] ws_def Let_def)
  ultimately show ?thesis by blast
qed

text \<open>A restored seed has its checksum, so that another phrase of plain words for it is the same phrase.\<close>

lemma seed_of_phrase:
  assumes W: "word_list W" and m: "mnemonicToSeed SHA W p = Some seed"
  shows "seedToMnemonic SHA W seed = Some (join_with '' '' (phrase_words p))"
proof -
  define ws where "ws = phrase_words p"
  obtain bss where b: "length ws = 24" "those (map (\<lambda>w. map_option (pad_bits 11) (index_of w W)) ws) = Some bss"
      "drop 256 (concat bss) = pad_bits 8 (SHA seed ! 0)" "seed = map parse_bits (pieces 8 32 (concat bss))"
  proof (cases "length ws = 24"; cases "those (map (\<lambda>w. map_option (pad_bits 11) (index_of w W)) ws)")
    fix bss assume a: "length ws = 24" "those (map (\<lambda>w. map_option (pad_bits 11) (index_of w W)) ws) = Some bss"
    show thesis
      by (rule that [of bss])
        (use m a in \<open>simp_all add: mnemonicToSeed_def Let_def ws_def [symmetric] split: if_splits\<close>)
  qed (use m in \<open>simp_all add: mnemonicToSeed_def Let_def ws_def [symmetric]\<close>)
  have bs: "length bss = length ws \<and> (\<forall>x \<in> set bss. length x = 11) \<and> map (\<lambda>x. W ! parse_bits x) bss = ws"
    if "those (map (\<lambda>w. map_option (pad_bits 11) (index_of w W)) ws) = Some bss" for ws bss
    using that
  proof (induction ws arbitrary: bss)
    case (Cons w ws)
    obtain i xs where i: "index_of w W = Some i" "those (map (\<lambda>w. map_option (pad_bits 11) (index_of w W)) ws) = Some xs"
        "bss = pad_bits 11 i # xs" using Cons.prems by (auto split: option.splits)
    have "i < length W" "W ! i = w" using i(1) find_Some_in [of "\<lambda>i. W ! i = w" "[0..<length W]" i] by (auto simp: index_of_def)
    then show ?case using Cons.IH [OF i(2)] W parse_pad [of i 11] by (simp add: i(3) word_list_def)
  qed simp
  note bs = bs [OF b(2)]
  have lc: "length (concat xs) = 11 * length xs" if "\<forall>x \<in> set xs. length x = 11" for xs :: "bool list list"
    using that by (induction xs) simp_all
  have l: "length (concat bss) = 264" using lc [of bss] bs b(1) by simp
  define front where "front = take 256 (concat bss)"
  have cb: "concat bss = front @ pad_bits 8 (SHA seed ! 0)" using b(3) by (metis append_take_drop_id front_def)
  have lf: "length front = 8 * 32" using l by (simp add: front_def)
  have pf: "pieces 8 32 (concat bss) = pieces 8 32 front"
    using join_pieces [of "pieces 8 32 front" 8 "pad_bits 8 (SHA seed ! 0)"] pieces_join [OF lf] length_piece [OF lf]
    unfolding cb length_pieces by metis
  have "map (pad_bits 8) seed = pieces 8 32 front"
    unfolding b(4) pf map_map by (rule map_idI) (metis comp_apply length_piece [OF lf] pad_parse)
  then have "bits_of seed @ pad_bits 8 (SHA seed ! 0) = concat bss"
    using pieces_join [OF lf] by (simp add: bits_of_def cb)
  moreover have "pieces 11 24 (concat bss) = bss" using join_pieces [of bss 11 "[]"] bs b(1) by simp
  moreover have "length seed = 32" by (simp add: b(4))
  ultimately show ?thesis using bs by (simp add: seedToMnemonic_def Let_def ws_def)
qed

end
