(* ===== verification/MnemonicProperties.thy ===== *)
theory MnemonicProperties
  imports Mnemonic
begin

text \<open>The property of the recovery phrases.\<close>

text \<open>C35: A phrase is its seed. With a list of 2048 different words of small letters, every seed of 32 bytes has a
  phrase that gives the seed back, and whenever any text gives a seed, the phrase of this seed is
  the text's own words, one blank apart: no second phrase restores a seed.\<close>

theorem phrase_roundtrip:
  assumes "word_list W" "length seed = 32" "\<forall>b \<in> set seed. b < 256"
  shows "(\<exists>p. seedToMnemonic SHA W seed = Some p \<and> mnemonicToSeed SHA W p = Some seed) \<and>
         (\<forall>q s. mnemonicToSeed SHA W q = Some s \<longrightarrow> seedToMnemonic SHA W s = Some (join_with '' '' (phrase_words q)))"
  using phrase_of_seed [OF assms] seed_of_phrase [OF assms(1)] by blast

text \<open>A word list for the witness: the 2048 words of eleven letters \<open>a\<close> and \<open>b\<close>.\<close>

definition ab_words :: "string list" where
  "ab_words = map (\<lambda>i. map (\<lambda>b. if b then CHR ''b'' else CHR ''a'') (pad_bits 11 i)) [0..<2048]"

lemma ab_word_list: "word_list ab_words"
proof -
  let ?f = "\<lambda>b. if b then CHR ''b'' else CHR ''a''"
  have f: "map ?f xs = map ?f ys \<Longrightarrow> xs = ys" for xs ys by (rule map_injective) (auto simp: inj_on_def split: if_splits)
  have "inj_on (\<lambda>i. map ?f (pad_bits 11 i)) {0..<2048}"
  proof (rule inj_onI)
    fix i j :: nat assume a: "i \<in> {0..<2048}" "j \<in> {0..<2048}" "map ?f (pad_bits 11 i) = map ?f (pad_bits 11 j)"
    then have e: "pad_bits 11 i = pad_bits 11 j" using f by blast
    have "(2048 :: nat) = 2 ^ 11" by simp
    then have "i < 2 ^ 11" "j < 2 ^ 11" using a(1,2) unfolding atLeastLessThan_iff by argo+
    then show "i = j" using parse_pad e by metis
  qed
  then have "distinct ab_words" unfolding ab_words_def distinct_map set_upt using distinct_upt by blast
  moreover have p: "plain_word (map ?f (pad_bits 11 i))" for i
  proof -
    have "length (pad_bits 11 i) = 11" by simp
    then have "pad_bits 11 i \<noteq> []" by (metis length_0_conv zero_neq_numeral)
    then show ?thesis by (auto simp: plain_word_def)
  qed
  moreover have "\<forall>w \<in> set ab_words. plain_word w" unfolding ab_words_def set_map using p by blast
  moreover have "length ab_words = 2048" unfolding ab_words_def length_map length_upt by (rule diff_zero)
  ultimately show ?thesis unfolding word_list_def by blast
qed

theorem phrase_roundtrip_witness:
  "\<exists>p. seedToMnemonic (\<lambda>_. [5]) ab_words (replicate 32 7) = Some p \<and> mnemonicToSeed (\<lambda>_. [5]) ab_words p = Some (replicate 32 7)"
proof -
  have "b < 256" if "b \<in> set (replicate 32 (7 :: nat))" for b
  proof -
    have "b = 7" using that unfolding in_set_replicate by blast
    then show ?thesis by simp
  qed
  then show ?thesis using phrase_roundtrip [OF ab_word_list length_replicate, of 7 "\<lambda>_. [5]"] by blast
qed

end
