(* ===== verification/Dailies.thy ===== *)
theory Dailies
  imports DailyHash
begin

text \<open>
  The Daily Salvo (\<^verbatim>\<open>static/battleship-daily.js\<close>) and the Daily Derby (\<^verbatim>\<open>static/hamster-daily.js\<close>):
  what a seed lays out, how a claim is scored and verified. The blake2b hash as hexadecimal digits is the
  parameter \<open>HX\<close>. The names of the hamsters, which are cosmetic, are left out.
\<close>

declare One_nat_def [simp del]

section \<open>Daily Salvo\<close>

definition SALVO_SLUG :: string where "SALVO_SLUG = ''battleship''"
definition GRID :: nat where "GRID = 10"
definition CELLS :: nat where "CELLS = 100"
definition FLEET :: "nat list" where "FLEET = [5, 4, 3, 3, 2]"
definition SHIPS :: nat where "SHIPS = 17"
definition BUDGET :: nat where "BUDGET = 40"
definition SHOT_BITS :: nat where "SHOT_BITS = 7"
definition HIT_PTS :: nat where "HIT_PTS = 10"
definition SINK_PTS :: nat where "SINK_PTS = 30"
definition EFF_PTS :: nat where "EFF_PTS = 5"

definition ship_tag :: "string \<Rightarrow> nat \<Rightarrow> nat \<Rightarrow> string" where
  "ship_tag k si attempt = k @ show_nat si @ ''-'' @ show_nat attempt"

text \<open>The cells of a ship at one attempt.\<close>

definition ship_cells :: "(string \<Rightarrow> string) \<Rightarrow> string \<Rightarrow> nat \<Rightarrow> nat \<Rightarrow> nat \<Rightarrow> nat list" where
  "ship_cells HX seed len si attempt =
     (let horiz = rint HX seed (ship_tag ''o'' si attempt) mod 2 = 0;
          maxR = (if horiz then GRID else GRID - len + 1); maxC = (if horiz then GRID - len + 1 else GRID);
          r = rint HX seed (ship_tag ''r'' si attempt) mod maxR;
          c = rint HX seed (ship_tag ''c'' si attempt) mod maxC
      in map (\<lambda>k. (r + (if horiz then 0 else k)) * GRID + (c + (if horiz then k else 0))) [0..<len])"

text \<open>Up to \<open>k\<close> attempts from \<open>attempt\<close> on; without a free spot the ship has no cells.\<close>

primrec place_ship :: "(string \<Rightarrow> string) \<Rightarrow> string \<Rightarrow> nat \<Rightarrow> nat \<Rightarrow> nat list \<Rightarrow> nat \<Rightarrow> nat \<Rightarrow> nat list" where
  "place_ship HX seed len si occ 0 attempt = []"
| "place_ship HX seed len si occ (Suc k) attempt =
     (let cells = ship_cells HX seed len si attempt
      in if list_ex (\<lambda>x. x \<in> set occ) cells then place_ship HX seed len si occ k (attempt + 1) else cells)"

text \<open>The occupied cells and the ships.\<close>

definition fleet_add :: "(string \<Rightarrow> string) \<Rightarrow> string \<Rightarrow> nat \<times> nat \<Rightarrow> nat list \<times> nat list list \<Rightarrow> nat list \<times> nat list list" where
  "fleet_add HX seed ship f =
     (let s = place_ship HX seed (snd ship) (fst ship) (fst f) 200 0 in (fst f @ s, snd f @ [s]))"

definition dailyFleet :: "(string \<Rightarrow> string) \<Rightarrow> string \<Rightarrow> nat list \<times> nat list list" where
  "dailyFleet HX seed =
     fold (fleet_add HX seed) (zip [0..<length FLEET] FLEET) ([], [])"

text \<open>The loop over the shots: the shots seen, the cells hit, the number of shots that counted.\<close>

fun shots_loop :: "nat list \<Rightarrow> nat list \<Rightarrow> nat list \<Rightarrow> nat list \<Rightarrow> nat \<Rightarrow> nat list \<times> nat" where
  "shots_loop occ [] seen hits n = (hits, n)"
| "shots_loop occ (cell # cs) seen hits n =
     (if cell \<ge> CELLS \<or> cell \<in> set seen then shots_loop occ cs seen hits n
      else (let hits' = (if cell \<in> set occ then cell # hits else hits)
            in if n + 1 \<ge> BUDGET then (hits', n + 1) else shots_loop occ cs (cell # seen) hits' (n + 1)))"

definition scoreShots :: "nat list \<times> nat list list \<Rightarrow> nat list \<Rightarrow> nat" where
  "scoreShots fleet shots =
     (case shots_loop (fst fleet) shots [] [] 0 of (hitSet, shotCount) \<Rightarrow>
       let hits = length hitSet;
           sunk = length (filter (\<lambda>s. s \<noteq> [] \<and> list_all (\<lambda>x. x \<in> set hitSet) s) (snd fleet))
       in hits * HIT_PTS + sunk * SINK_PTS + (if hits = SHIPS then (BUDGET - shotCount) * EFF_PTS else 0))"

definition salvo_verifyClaim :: "(string \<Rightarrow> string) \<Rightarrow> nat \<Rightarrow> nat \<Rightarrow> nat list \<Rightarrow> string \<Rightarrow> string \<Rightarrow> int" where
  "salvo_verifyClaim HX day n words anchorHash addr =
     (if \<not> (n > 0 \<and> n \<le> BUDGET) then -1
      else (let shots = unpackMoves words SHOT_BITS n
            in if list_ex (\<lambda>s. s \<ge> CELLS) shots then -1
               else int (scoreShots (dailyFleet HX (provableSeed SALVO_SLUG day anchorHash addr)) shots)))"

section \<open>Daily Derby\<close>

definition DERBY_SLUG :: string where "DERBY_SLUG = ''hamster''"
definition RACES :: nat where "RACES = 8"
definition NH :: nat where "NH = 6"
definition RACE_LEN :: nat where "RACE_LEN = 10"
definition GENE_SPREAD :: nat where "GENE_SPREAD = 8"
definition STEP_BASE :: nat where "STEP_BASE = 6"
definition PICK_BITS :: nat where "PICK_BITS = 3"

text \<open>
  \<^verbatim>\<open>Math.round(100 * tot / speed)\<close>: the speeds are from 1 to 8, and a quotient that ends in a half is
  exact in floating point, so it is the rounding of the exact quotient.
\<close>

definition oddsPts :: "nat list \<Rightarrow> nat \<Rightarrow> nat" where
  "oddsPts speeds lane = (let tot = sum_list speeds; s = speeds ! lane in max 100 ((200 * tot + s) div (2 * s)))"

record race =
  rc_speeds :: "nat list"
  rc_dist :: "nat list"
  rc_winner :: nat
  rc_odds :: "nat list"

definition race_speeds :: "(string \<Rightarrow> string) \<Rightarrow> string \<Rightarrow> nat \<Rightarrow> nat list" where
  "race_speeds HX seed r = map (\<lambda>l. 1 + rint HX seed (''g'' @ show_nat r @ ''-'' @ show_nat l) mod GENE_SPREAD) [0..<NH]"

definition race_dist :: "(string \<Rightarrow> string) \<Rightarrow> string \<Rightarrow> nat \<Rightarrow> nat list \<Rightarrow> nat \<Rightarrow> nat" where
  "race_dist HX seed r speeds l =
     sum_list (map (\<lambda>bi. rint HX seed (''s'' @ show_nat r @ ''-'' @ show_nat bi @ ''-'' @ show_nat l) mod (speeds ! l + STEP_BASE))
       [1..<RACE_LEN + 1])"

text \<open>The first lane with the greatest distance.\<close>

definition race_winner :: "nat list \<Rightarrow> nat" where
  "race_winner dist = fold (\<lambda>l w. if dist ! l > dist ! w then l else w) [1..<NH] 0"

definition dailyRaces :: "(string \<Rightarrow> string) \<Rightarrow> string \<Rightarrow> race list" where
  "dailyRaces HX seed =
     map (\<lambda>r. let speeds = race_speeds HX seed r; dist = map (race_dist HX seed r speeds) [0..<NH]
              in \<lparr>rc_speeds = speeds, rc_dist = dist, rc_winner = race_winner dist, rc_odds = map (oddsPts speeds) [0..<NH]\<rparr>)
       [0..<RACES]"

definition scorePicks :: "race list \<Rightarrow> nat list \<Rightarrow> nat" where
  "scorePicks races picks =
     sum_list (map (\<lambda>r. if picks ! r = rc_winner (races ! r) then rc_odds (races ! r) ! (picks ! r) else 0)
       [0..<min RACES (length picks)])"

definition derby_verifyClaim :: "(string \<Rightarrow> string) \<Rightarrow> nat \<Rightarrow> nat \<Rightarrow> nat list \<Rightarrow> string \<Rightarrow> string \<Rightarrow> int" where
  "derby_verifyClaim HX day n words anchorHash addr =
     (if n \<noteq> RACES then -1
      else (let picks = unpackMoves words PICK_BITS RACES
            in if list_ex (\<lambda>p. p \<ge> NH) picks then -1
               else int (scorePicks (dailyRaces HX (provableSeed DERBY_SLUG day anchorHash addr)) picks)))"

definition maxScore :: "(string \<Rightarrow> string) \<Rightarrow> string \<Rightarrow> nat" where
  "maxScore HX seed = sum_list (map (\<lambda>r. rc_odds r ! rc_winner r) (dailyRaces HX seed))"

section \<open>Facts on the Salvo\<close>

text \<open>A ship lies on the grid, its cells are different.\<close>

lemma ship_cells_ok:
  assumes "1 \<le> len" "len \<le> 10"
  shows "distinct (ship_cells HX seed len si a) \<and> length (ship_cells HX seed len si a) = len \<and>
         (\<forall>x \<in> set (ship_cells HX seed len si a). x < CELLS)"
proof -
  define horiz where "horiz \<longleftrightarrow> rint HX seed (ship_tag ''o'' si a) mod 2 = 0"
  define r where "r = rint HX seed (ship_tag ''r'' si a) mod (if horiz then GRID else GRID - len + 1)"
  define c where "c = rint HX seed (ship_tag ''c'' si a) mod (if horiz then GRID - len + 1 else GRID)"
  have s: "ship_cells HX seed len si a = map (\<lambda>k. (r + (if horiz then 0 else k)) * GRID + (c + (if horiz then k else 0))) [0..<len]"
    by (simp only: ship_cells_def Let_def horiz_def r_def c_def)
  have b: "r < (if horiz then 10 else 11 - len)" "c < (if horiz then 11 - len else 10)"
    unfolding r_def c_def GRID_def using assms by (auto intro: mod_less_divisor less_le_trans)
  show ?thesis
    unfolding s using b assms by (auto simp: distinct_map inj_on_def GRID_def CELLS_def split: if_splits)
qed

lemma place_ship_ok:
  assumes "1 \<le> len" "len \<le> 10"
  shows "place_ship HX seed len si occ k a = [] \<or>
     (let s = place_ship HX seed len si occ k a
      in length s = len \<and> distinct s \<and> (\<forall>x \<in> set s. x < CELLS) \<and> set s \<inter> set occ = {})"
proof (induction k arbitrary: a)
  case (Suc k)
  then show ?case using ship_cells_ok [OF assms] by (auto simp: Let_def list_ex_iff)
qed simp

lemma shots_loop_hits:
  "set hits \<subseteq> set occ \<Longrightarrow> distinct hits \<Longrightarrow> set hits \<subseteq> set seen \<Longrightarrow>
     set (fst (shots_loop occ cs seen hits n)) \<subseteq> set occ \<and> distinct (fst (shots_loop occ cs seen hits n)) \<and>
     snd (shots_loop occ cs seen hits n) + length hits \<ge> n + length (fst (shots_loop occ cs seen hits n))"
proof (induction occ cs seen hits n rule: shots_loop.induct)
  case (2 occ cell cs seen hits n)
  show ?case
  proof (cases "cell \<ge> CELLS \<or> cell \<in> set seen")
    case True
    then show ?thesis using 2 by simp
  next
    case False
    define h where "h = (if cell \<in> set occ then cell # hits else hits)"
    have h: "set h \<subseteq> set occ" "distinct h" "set h \<subseteq> set (cell # seen)" "length h \<le> length hits + 1" "length h \<ge> length hits"
      using False 2(3-5) by (auto simp: h_def)
    have u: "shots_loop occ (cell # cs) seen hits n = (if n + 1 \<ge> BUDGET then (h, n + 1) else shots_loop occ cs (cell # seen) h (n + 1))"
      using False by (simp add: h_def)
    show ?thesis
    proof (cases "n + 1 \<ge> BUDGET")
      case True
      then show ?thesis unfolding u using h by simp
    next
      case nb: False
      from 2(2) [OF False refl nb] have "set (fst (shots_loop occ cs (cell # seen) h (n + 1))) \<subseteq> set occ \<and>
          distinct (fst (shots_loop occ cs (cell # seen) h (n + 1))) \<and>
          snd (shots_loop occ cs (cell # seen) h (n + 1)) + length h \<ge> n + 1 + length (fst (shots_loop occ cs (cell # seen) h (n + 1)))"
        using h(1-3) by (simp add: h_def [symmetric])
      then show ?thesis unfolding u using nb h by simp
    qed
  qed
qed simp

end
