(* ===== verification/DailyProperties.thy ===== *)
theory DailyProperties
  imports Dailies
begin

text \<open>The properties of the Daily Salvo and the Daily Derby.\<close>

declare One_nat_def [simp del]

section \<open>Daily Salvo\<close>

definition fleet_ok :: "nat list \<times> nat list list \<Rightarrow> bool" where
  "fleet_ok f \<longleftrightarrow> distinct (concat (snd f)) \<and> fst f = concat (snd f) \<and> (\<forall>x \<in> set (fst f). x < CELLS) \<and>
     list_all2 (\<lambda>s len. s = [] \<or> length s = len) (snd f) (take (length (snd f)) FLEET)"

lemma fleet_step:
  assumes "fleet_ok (occ, ships)" "length ships = i" "i < 5"
  shows "fleet_ok (occ @ place_ship HX seed (FLEET ! i) si occ 200 0, ships @ [place_ship HX seed (FLEET ! i) si occ 200 0])"
proof -
  let ?s = "place_ship HX seed (FLEET ! i) si occ 200 0"
  have "i \<in> {0, 1, 2, 3, 4}" using assms(3) by auto
  then have l: "1 \<le> FLEET ! i" "FLEET ! i \<le> 10" "take (Suc i) FLEET = take i FLEET @ [FLEET ! i]" by (auto simp: FLEET_def One_nat_def)
  have "?s = [] \<or> length ?s = FLEET ! i \<and> distinct ?s \<and> (\<forall>x \<in> set ?s. x < CELLS) \<and> set ?s \<inter> set occ = {}"
    using place_ship_ok [OF l(1,2), of HX seed si occ 200 0] unfolding Let_def .
  then show ?thesis using assms(1,2) l(3)
    by (elim disjE) (auto simp: fleet_ok_def intro!: list_all2_appendI)
qed

lemma fleet_add_pair:
  "fleet_add HX seed (si, len) (occ, ships) =
     (occ @ place_ship HX seed len si occ 200 0, ships @ [place_ship HX seed len si occ 200 0])"
  by (simp add: fleet_add_def Let_def)

lemma fleet_fold:
  "k \<le> 5 \<Longrightarrow> fleet_ok (fold (fleet_add HX seed) (map (\<lambda>i. (i, FLEET ! i)) [0..<k]) ([], [])) \<and>
     length (snd (fold (fleet_add HX seed) (map (\<lambda>i. (i, FLEET ! i)) [0..<k]) ([], []))) = k"
proof (induction k)
  case (Suc k)
  obtain occ ships where f: "fold (fleet_add HX seed) (map (\<lambda>i. (i, FLEET ! i)) [0..<k]) ([], []) = (occ, ships)" by fastforce
  then have "fleet_ok (occ, ships)" "length ships = k" "k < 5" using Suc by auto
  from fleet_step [OF this, of HX seed k] show ?case
    by (simp add: f fleet_add_pair \<open>length ships = k\<close>)
qed (simp add: fleet_ok_def)

lemma fleet_of_seed: "fleet_ok (dailyFleet HX seed) \<and> length (snd (dailyFleet HX seed)) = 5"
proof -
  have "zip [0..<length FLEET] FLEET = map (\<lambda>i. (i, FLEET ! i)) [0..<5]"
    by (simp add: FLEET_def upt_conv_Cons One_nat_def)
  then show ?thesis unfolding dailyFleet_def using fleet_fold [of 5 HX seed] by simp
qed

text \<open>The Daily Salvo. The fleet of every seed is five ships, each of its length or missing, on different
  cells of the grid; the shots of a claim hit at most the 17 cells of the fleet, and a claim is
  rejected with -1 or scores from 0 to 435 points, the value of a fleet sunk without a miss.\<close>

theorem salvo_claim:
  "fleet_ok (dailyFleet HX seed) \<and> length (snd (dailyFleet HX seed)) = 5 \<and> length (fst (dailyFleet HX seed)) \<le> 17 \<and>
   scoreShots (dailyFleet HX seed) shots \<le> 435 \<and>
   -1 \<le> salvo_verifyClaim HX day n words anchorHash addr \<and> salvo_verifyClaim HX day n words anchorHash addr \<le> 435"
proof -
  have len: "length (fst (dailyFleet HX s)) \<le> 17" for s
  proof -
    obtain occ ships where d: "dailyFleet HX s = (occ, ships)" by fastforce
    then have f: "occ = concat ships" "length ships = 5" "list_all2 (\<lambda>s len. s = [] \<or> length s = len) ships (take 5 FLEET)"
      using fleet_of_seed [of HX s] by (auto simp: fleet_ok_def)
    have "length (concat ships) \<le> sum_list (take 5 FLEET)"
      using f(3) by (induction rule: list_all2_induct) auto
    then show ?thesis by (simp add: d f(1) FLEET_def)
  qed
  have sc: "scoreShots (dailyFleet HX s) cs \<le> 435" for s cs
  proof -
    obtain occ ships where d: "dailyFleet HX s = (occ, ships)" by fastforce
    obtain hs n where h: "shots_loop occ cs [] [] 0 = (hs, n)" by fastforce
    have hs: "set hs \<subseteq> set occ" "distinct hs" "length hs \<le> n" using shots_loop_hits [of "[]" occ "[]" cs 0] h by auto
    have "length hs = card (set hs)" using hs(2) by (simp add: distinct_card)
    also have "\<dots> \<le> card (set occ)" using hs(1) by (intro card_mono) auto
    also have "\<dots> \<le> 17" using len [of s] card_length [of occ] d by simp
    finally have l: "length hs \<le> 17" .
    have "length ships = 5" using fleet_of_seed [of HX s] d by simp
    then have sunk: "length (filter (\<lambda>s. s \<noteq> [] \<and> list_all (\<lambda>x. x \<in> set hs) s) ships) \<le> 5"
      by (metis length_filter_le)
    have "(if length hs = 17 then (40 - n) * 5 else 0) \<le> 115" using hs(3) by auto
    then show ?thesis
      unfolding scoreShots_def d fst_conv snd_conv h prod.case Let_def HIT_PTS_def SINK_PTS_def SHIPS_def BUDGET_def EFF_PTS_def
      using l sunk by linarith
  qed
  have "-1 \<le> salvo_verifyClaim HX day n words anchorHash addr \<and> salvo_verifyClaim HX day n words anchorHash addr \<le> 435"
    using sc by (simp add: salvo_verifyClaim_def Let_def)
  then show ?thesis using fleet_of_seed len sc by blast
qed

section \<open>Daily Derby\<close>

lemma winner_lane: "race_winner dist < 6"
proof -
  have "fold (\<lambda>l w. if dist ! l > dist ! w then l else w) ls w < (6 :: nat)" if "w < 6" "\<forall>l \<in> set ls. l < 6" for ls w
    using that by (induction ls arbitrary: w) auto
  then show ?thesis by (simp add: race_winner_def NH_def)
qed

lemma length_dailyRaces [simp]: "length (dailyRaces HX seed) = 8"
  by (simp add: dailyRaces_def RACES_def)

lemma picks_le_max: "scorePicks (dailyRaces HX seed) picks \<le> maxScore HX seed"
proof -
  define rs where "rs = dailyRaces HX seed"
  have l: "length rs = 8" by (simp add: rs_def)
  have "scorePicks rs picks \<le> sum_list (map (\<lambda>r. rc_odds (rs ! r) ! rc_winner (rs ! r)) [0..<min 8 (length picks)])"
    unfolding scorePicks_def RACES_def by (rule sum_list_mono) simp
  also have "\<dots> \<le> sum_list (map (\<lambda>r. rc_odds (rs ! r) ! rc_winner (rs ! r)) [0..<8])"
    by (simp only: interv_sum_list_conv_sum_set_nat) (intro sum_mono2, auto)
  also have "map (\<lambda>r. rc_odds (rs ! r) ! rc_winner (rs ! r)) [0..<8] = map (\<lambda>r. rc_odds r ! rc_winner r) rs"
    using l by (metis (no_types, lifting) map_nth map_map comp_def map_cong)
  finally show ?thesis by (simp add: rs_def maxScore_def)
qed

text \<open>The Daily Derby. No list of picks scores more than the day's maximum, the winning lanes score exactly it,
  every winner is worth at least 100 points, and a claim is rejected with -1 or scores at most the
  maximum of its own day, anchor and player.\<close>

theorem derby_claim:
  "scorePicks (dailyRaces HX seed) picks \<le> maxScore HX seed \<and>
   scorePicks (dailyRaces HX seed) (map rc_winner (dailyRaces HX seed)) = maxScore HX seed \<and> 800 \<le> maxScore HX seed \<and>
   -1 \<le> derby_verifyClaim HX day n words anchorHash addr \<and>
   derby_verifyClaim HX day n words anchorHash addr \<le> int (maxScore HX (provableSeed DERBY_SLUG day anchorHash addr))"
proof -
  define rs where "rs = dailyRaces HX seed"
  have l: "length rs = 8" by (simp add: rs_def)
  have "scorePicks rs (map rc_winner rs) = sum_list (map (\<lambda>r. rc_odds (rs ! r) ! rc_winner (rs ! r)) [0..<8])"
    unfolding scorePicks_def RACES_def length_map l by (intro arg_cong [of _ _ sum_list] map_cong) (simp_all add: l)
  also have "map (\<lambda>r. rc_odds (rs ! r) ! rc_winner (rs ! r)) [0..<8] = map (\<lambda>r. rc_odds r ! rc_winner r) rs"
    using l by (metis (no_types, lifting) map_nth map_map comp_def map_cong)
  finally have eq: "scorePicks (dailyRaces HX seed) (map rc_winner (dailyRaces HX seed)) = maxScore HX seed"
    by (simp add: rs_def maxScore_def)
  have "100 \<le> rc_odds r ! rc_winner r" if "r \<in> set rs" for r
    using that winner_lane by (auto simp: rs_def dailyRaces_def Let_def NH_def oddsPts_def)
  then have "sum_list (map (\<lambda>r. 100) rs) \<le> sum_list (map (\<lambda>r. rc_odds r ! rc_winner r) rs)" by (intro sum_list_mono)
  then have "800 \<le> maxScore HX seed" using l by (simp add: maxScore_def rs_def sum_list_triv)
  moreover have "-1 \<le> derby_verifyClaim HX day n words anchorHash addr \<and>
     derby_verifyClaim HX day n words anchorHash addr \<le> int (maxScore HX (provableSeed DERBY_SLUG day anchorHash addr))"
    using picks_le_max by (simp add: derby_verifyClaim_def Let_def)
  ultimately show ?thesis using eq picks_le_max by blast
qed

end
