(* ===== verification/JoinSplit.thy ===== *)
theory JoinSplit
  imports AlgHash
begin

text \<open>
  The circuit of a shielded transfer, one note in and two out (\<^verbatim>\<open>static/stark/joinsplit2.js\<close>): the
  reference evaluation, the trace of the prover, the periodic columns and the transition constraints. Field
  elements are integers from 0 below \<open>FP\<close>. The hash that seeds the field hash is the parameter \<open>HL\<close>.
\<close>

unbundle bit_operations_syntax

declare One_nat_def [simp del]

section \<open>Layout\<close>

text \<open>Columns of the trace.\<close>

definition S0 :: nat where "S0 = 0"
definition S1 :: nat where "S1 = 1"
definition AB :: nat where "AB = 2"
definition CARRY :: nat where "CARRY = 3"
definition SIB :: nat where "SIB = 4"
definition DIR :: nat where "DIR = 5"
definition NSK :: nat where "NSK = 6"
definition RHO :: nat where "RHO = 7"
definition OWN :: nat where "OWN = 8"
definition NFREG :: nat where "NFREG = 9"
definition VIN :: nat where "VIN = 10"
definition VOUT1 :: nat where "VOUT1 = 11"
definition VOUT2 :: nat where "VOUT2 = 12"
definition CONS :: nat where "CONS = 13"
definition ROOTREG :: nat where "ROOTREG = 14"
definition CMOUT1 :: nat where "CMOUT1 = 15"
definition ACC :: nat where "ACC = 16"
definition RB0 :: nat where "RB0 = 17"
definition RB1 :: nat where "RB1 = 18"
definition RB2 :: nat where "RB2 = 19"
definition RB3 :: nat where "RB3 = 20"

text \<open>Rows: the rounds of one permutation, of a level of the tree, and the ends of the first regions.\<close>

definition RR :: nat where "RR = AH_ROUNDS"
definition RPL :: nat where "RPL = 3 * RR"
definition OWN_END :: nat where "OWN_END = 2 * RR"
definition COM_END :: nat where "COM_END = 6 * RR"
definition NUL_END :: nat where "NUL_END = 9 * RR"
definition MERK :: nat where "MERK = NUL_END"
definition RNG_NIBBLES :: nat where "RNG_NIBBLES = 16"
definition RNG_BLOCK :: nat where "RNG_BLOCK = RNG_NIBBLES + 1"
definition RNG_VALUES :: nat where "RNG_VALUES = 3"

definition rc :: "(string list \<Rightarrow> string) \<Rightarrow> nat \<Rightarrow> nat \<Rightarrow> int" where "rc HL r j = rcAt HL (r mod RR) j"

definition js_round :: "(string list \<Rightarrow> string) \<Rightarrow> int \<Rightarrow> int \<Rightarrow> nat \<Rightarrow> int \<times> int" where
  "js_round HL s0 s1 r =
     (let t0 = sbox (f_add s0 (rc HL r 0)); t1 = sbox (f_add s1 (rc HL r 1))
      in (f_add (f_mul 2 t0) t1, f_add t0 (f_mul 3 t1)))"

text \<open>The start of the first output, the start of the second, and the end of the sponge.\<close>

definition bounds :: "nat \<Rightarrow> nat \<times> nat \<times> nat" where
  "bounds D = (let out1 = MERK + D * RPL; out2 = out1 + 4 * RR in (out1, out2, out2 + 4 * RR))"

definition totalRows :: "nat \<Rightarrow> nat" where
  "totalRows D = (case bounds D of (_, _, spongeEnd) \<Rightarrow> spongeEnd + RNG_VALUES * RNG_BLOCK)"

section \<open>Reference evaluation\<close>

record js_public =
  jp_owner :: int
  jp_cmIn :: int
  jp_nf :: int
  jp_root :: int
  jp_cm1 :: int
  jp_cm2 :: int

definition path_step :: "(string list \<Rightarrow> string) \<Rightarrow> int \<times> int \<Rightarrow> int \<Rightarrow> int" where
  "path_step HL sd node =
     (let s = js_rem (fst sd) FP in if snd sd = 0 then merkleNode HL node s else merkleNode HL s node)"

text \<open>A missing direction is no zero.\<close>

definition transfer :: "(string list \<Rightarrow> string) \<Rightarrow> int \<Rightarrow> int \<Rightarrow> int \<Rightarrow> int list \<Rightarrow> int list \<Rightarrow>
    int \<Rightarrow> int \<Rightarrow> int \<Rightarrow> int \<Rightarrow> int \<Rightarrow> int \<Rightarrow> js_public" where
  "transfer HL nsk vIn rhoIn sibs dirs v1 o1 r1 v2 o2 r2 =
     (let owner = ownerOf HL nsk; cmIn = note_commit HL vIn owner rhoIn
      in \<lparr>jp_owner = owner, jp_cmIn = cmIn, jp_nf = nullifier HL nsk rhoIn,
          jp_root = fold (path_step HL) (zip sibs (dirs @ replicate (length sibs - length dirs) 1)) cmIn,
          jp_cm1 = note_commit HL v1 o1 r1, jp_cm2 = note_commit HL v2 o2 r2\<rparr>)"

section \<open>The trace\<close>

text \<open>The inputs, reduced; directions are taken as they are.\<close>

record js_input =
  i_nsk :: int
  i_vin :: int
  i_rho :: int
  i_sibs :: "int list"
  i_dirs :: "int list"
  i_v1 :: int
  i_o1 :: int
  i_r1 :: int
  i_v2 :: int
  i_o2 :: int
  i_r2 :: int

text \<open>The variables of the loop over the rows.\<close>

record js_reg =
  j_s0 :: int
  j_s1 :: int
  j_ab :: int
  j_carry :: int
  j_sib :: int
  j_dir :: int
  j_own :: int
  j_nf :: int
  j_root :: int
  j_cm1 :: int
  j_lvl :: nat

definition js_start :: "(string list \<Rightarrow> string) \<Rightarrow> js_reg" where
  "js_start HL = \<lparr>j_s0 = DOM_OWNER, j_s1 = ivVal HL, j_ab = DOM_OWNER, j_carry = 0, j_sib = 0, j_dir = 0, j_own = 0,
     j_nf = 0, j_root = 0, j_cm1 = 0, j_lvl = 0\<rparr>"

text \<open>The three ways the sponge goes on: a plain round, a round that absorbs a message, a new hash.\<close>

definition js_plain :: "int \<times> int \<Rightarrow> js_reg \<Rightarrow> js_reg" where
  "js_plain o2 st = st\<lparr>j_s0 := fst o2, j_s1 := snd o2\<rparr>"

definition js_absorb :: "int \<times> int \<Rightarrow> int \<Rightarrow> js_reg \<Rightarrow> js_reg" where
  "js_absorb o2 msg st = st\<lparr>j_s0 := f_add (fst o2) msg, j_s1 := snd o2, j_ab := msg\<rparr>"

definition js_reset :: "(string list \<Rightarrow> string) \<Rightarrow> int \<Rightarrow> js_reg \<Rightarrow> js_reg" where
  "js_reset HL dm st = st\<lparr>j_s0 := dm, j_s1 := ivVal HL, j_ab := dm\<rparr>"

text \<open>The body of the loop, by region.\<close>

definition js_member :: "(string list \<Rightarrow> string) \<Rightarrow> js_input \<Rightarrow> nat \<Rightarrow> nat \<Rightarrow> int \<times> int \<Rightarrow> js_reg \<Rightarrow> js_reg" where
  "js_member HL w D r rnd st =
     (let pos = (r - MERK) mod RPL; block = pos div RR; last = (r mod RR = RR - 1)
      in if last \<and> block = 0 then js_absorb rnd (f_add (j_carry st) (f_mul (j_dir st) (f_sub (j_sib st) (j_carry st)))) st
         else if last \<and> block = 1 then js_absorb rnd (f_add (j_sib st) (f_mul (j_dir st) (f_sub (j_carry st) (j_sib st)))) st
         else if last \<and> block = 2 then
           (let lvl = j_lvl st + 1; st = st\<lparr>j_lvl := lvl\<rparr>
            in if lvl < D then js_reset HL DOM_NODE (st\<lparr>j_carry := fst rnd, j_sib := i_sibs w ! lvl, j_dir := i_dirs w ! lvl\<rparr>)
               else js_reset HL DOM_CM (st\<lparr>j_root := fst rnd\<rparr>))
         else js_plain rnd st)"

definition js_step :: "(string list \<Rightarrow> string) \<Rightarrow> js_input \<Rightarrow> nat \<Rightarrow> nat \<Rightarrow> js_reg \<Rightarrow> js_reg" where
  "js_step HL w D r st =
     (case bounds D of (out1, out2, spongeEnd) \<Rightarrow>
       let rnd = js_round HL (j_s0 st) (j_s1 st) r; last = (r mod RR = RR - 1)
       in if r < OWN_END then
            (if r = OWN_END - 1 then js_reset HL DOM_CM (st\<lparr>j_own := fst rnd\<rparr>)
             else if last then js_absorb rnd (i_nsk w) st else js_plain rnd st)
          else if r < COM_END then
            (if r = COM_END - 1 then js_reset HL DOM_NF (st\<lparr>j_carry := fst rnd\<rparr>)
             else if last then js_absorb rnd (if r = 3 * RR - 1 then i_vin w else if r = 4 * RR - 1 then j_own st else i_rho w) st
             else js_plain rnd st)
          else if r < NUL_END then
            (if r = NUL_END - 1 then
               js_reset HL DOM_NODE (st\<lparr>j_nf := fst rnd, j_sib := i_sibs w ! 0, j_dir := i_dirs w ! 0\<rparr>)
             else if last then js_absorb rnd (if r = 7 * RR - 1 then i_nsk w else i_rho w) st
             else js_plain rnd st)
          else if r < out1 then js_member HL w D r rnd st
          else if r < out2 then
            (if r = out2 - 1 then js_reset HL DOM_CM (st\<lparr>j_cm1 := fst rnd\<rparr>)
             else if last then
               (let oi = (r - out1) div RR in js_absorb rnd (if oi = 0 then i_v1 w else if oi = 1 then i_o1 w else i_r1 w) st)
             else js_plain rnd st)
          else if r < spongeEnd then
            (if last \<and> r < spongeEnd - 1 then
               (let oi = (r - out2) div RR in js_absorb rnd (if oi = 0 then i_v2 w else if oi = 1 then i_o2 w else i_r2 w) st)
             else js_plain rnd st)
          else js_plain rnd st)"

text \<open>The seventeen range rows of a value: the accumulator before each nibble and its four bits.\<close>

definition nibble :: "int \<Rightarrow> nat \<Rightarrow> int" where "nibble val i = drop_bit (4 * (15 - i)) val AND 0xF"

primrec range_acc :: "int \<Rightarrow> nat \<Rightarrow> int" where
  "range_acc val 0 = 0"
| "range_acc val (Suc i) = 16 * range_acc val i + nibble val i"

definition range_rows :: "int \<Rightarrow> int list list" where
  "range_rows val =
     map (\<lambda>i. let nib = nibble val i
              in [range_acc val i, drop_bit 3 nib AND 1, drop_bit 2 nib AND 1, drop_bit 1 nib AND 1, nib AND 1]) [0..<RNG_NIBBLES] @
     [[range_acc val RNG_NIBBLES, 0, 0, 0, 0]]"

definition rfill :: "js_input \<Rightarrow> nat \<Rightarrow> nat \<Rightarrow> int list" where
  "rfill w spongeEnd r =
     (let rows = concat (map range_rows [i_vin w, i_v1 w, i_v2 w])
      in if spongeEnd \<le> r \<and> r - spongeEnd < length rows then rows ! (r - spongeEnd) else [0, 0, 0, 0, 0])"

definition js_row :: "js_input \<Rightarrow> js_reg \<Rightarrow> int list \<Rightarrow> int list" where
  "js_row w st rng =
     [j_s0 st, j_s1 st, j_ab st, j_carry st, j_sib st, j_dir st, i_nsk w, i_rho w, j_own st, j_nf st, i_vin w, i_v1 w, i_v2 w,
      f_sub (f_sub (i_vin w) (i_v1 w)) (i_v2 w), j_root st, j_cm1 st] @ rng"

text \<open>The \<open>k\<close> rows from row \<open>r\<close> on.\<close>

primrec js_rows :: "(string list \<Rightarrow> string) \<Rightarrow> js_input \<Rightarrow> nat \<Rightarrow> nat \<Rightarrow> nat \<Rightarrow> js_reg \<Rightarrow> int list list" where
  "js_rows HL w D 0 r st = []"
| "js_rows HL w D (Suc k) r st =
     js_row w st (rfill w (snd (snd (bounds D))) r) # js_rows HL w D k (r + 1) (js_step HL w D r st)"

function pow2_from :: "nat \<Rightarrow> nat \<Rightarrow> nat" where
  "pow2_from n T = (if 0 < T \<and> T < n then pow2_from n (2 * T) else T)"
  by pat_completeness auto
termination by (relation "measure (\<lambda>(n, T). n - T)") auto

declare pow2_from.simps [simp del]

record js_trace =
  jt_tr :: "int list list"
  jt_T :: nat
  jt_D :: nat
  jt_root :: int
  jt_nf :: int
  jt_cm1 :: int
  jt_cm2 :: int

text \<open>
  Without a sibling, or with a direction missing, \<^verbatim>\<open>BigInt(undefined)\<close> throws: \<open>None\<close>.
\<close>

definition buildTrace :: "(string list \<Rightarrow> string) \<Rightarrow> int \<Rightarrow> int \<Rightarrow> int \<Rightarrow> int list \<Rightarrow> int list \<Rightarrow>
    int \<Rightarrow> int \<Rightarrow> int \<Rightarrow> int \<Rightarrow> int \<Rightarrow> int \<Rightarrow> js_trace option" where
  "buildTrace HL nsk vIn rhoIn sibs dirs v1 o1 r1 v2 o2 r2 =
     (if sibs = [] \<or> length dirs < length sibs then None
      else
        (let w = \<lparr>i_nsk = f_mod nsk, i_vin = f_mod vIn, i_rho = f_mod rhoIn, i_sibs = map f_mod sibs, i_dirs = dirs,
                  i_v1 = f_mod v1, i_o1 = f_mod o1, i_r1 = f_mod r1, i_v2 = f_mod v2, i_o2 = f_mod o2, i_r2 = f_mod r2\<rparr>;
             D = length sibs; T = pow2_from (totalRows D + 1) 1;
             tr = js_rows HL w D T 0 (js_start HL)
         in case bounds D of (out1, out2, spongeEnd) \<Rightarrow>
              Some \<lparr>jt_tr = tr, jt_T = T, jt_D = D, jt_root = tr ! spongeEnd ! ROOTREG, jt_nf = tr ! spongeEnd ! NFREG,
                    jt_cm1 = tr ! out2 ! CMOUT1, jt_cm2 = tr ! spongeEnd ! S0\<rparr>))"

section \<open>Periodic columns\<close>

definition RC0 :: nat where "RC0 = 0"
definition RC1 :: nat where "RC1 = 1"
definition ANSK :: nat where "ANSK = 2"
definition ARHO :: nat where "ARHO = 3"
definition AOWN :: nat where "AOWN = 4"
definition AVIN :: nat where "AVIN = 5"
definition AVOUT1 :: nat where "AVOUT1 = 6"
definition AVOUT2 :: nat where "AVOUT2 = 7"
definition AFREE :: nat where "AFREE = 8"
definition B0 :: nat where "B0 = 9"
definition B1 :: nat where "B1 = 10"
definition RCM :: nat where "RCM = 11"
definition RNF :: nat where "RNF = 12"
definition RNODE :: nat where "RNODE = 13"
definition ROUT1 :: nat where "ROUT1 = 14"
definition ROUT2 :: nat where "ROUT2 = 15"
definition CAPOWN :: nat where "CAPOWN = 16"
definition CAPCARRY :: nat where "CAPCARRY = 17"
definition CAPNF :: nat where "CAPNF = 18"
definition CAPROOT :: nat where "CAPROOT = 19"
definition CAPCM1 :: nat where "CAPCM1 = 20"
definition INMERK :: nat where "INMERK = 21"
definition RNG_ACC :: nat where "RNG_ACC = 22"
definition RNG_START :: nat where "RNG_START = 23"
definition RBIND_VIN :: nat where "RBIND_VIN = 24"
definition RBIND_VOUT1 :: nat where "RBIND_VOUT1 = 25"
definition RBIND_VOUT2 :: nat where "RBIND_VOUT2 = 26"

definition per_col :: "nat \<Rightarrow> (nat \<Rightarrow> bool) \<Rightarrow> int list" where
  "per_col T f = map (\<lambda>r. if f r then 1 else 0) [0..<T]"

definition in_merk :: "nat \<Rightarrow> nat \<Rightarrow> bool" where "in_merk D r \<longleftrightarrow> MERK \<le> r \<and> r < fst (bounds D)"

definition lvlEnd :: "nat \<Rightarrow> nat \<Rightarrow> nat \<Rightarrow> bool" where
  "lvlEnd D r below \<longleftrightarrow> in_merk D r \<and> (r - MERK) mod RPL = RPL - 1 \<and> (r - MERK) div RPL < below"

definition in_rng :: "nat \<Rightarrow> nat \<Rightarrow> bool" where "in_rng D r \<longleftrightarrow> snd (snd (bounds D)) \<le> r \<and> r < totalRows D"

definition periodic :: "(string list \<Rightarrow> string) \<Rightarrow> nat \<Rightarrow> nat \<Rightarrow> int list list" where
  "periodic HL T D =
     (case bounds D of (out1, out2, spongeEnd) \<Rightarrow>
       [map (\<lambda>r. rc HL r 0) [0..<T],
        map (\<lambda>r. rc HL r 1) [0..<T],
        per_col T (\<lambda>r. r = RR - 1 \<or> r = 7 * RR - 1),
        per_col T (\<lambda>r. r = 5 * RR - 1 \<or> r = 8 * RR - 1),
        per_col T (\<lambda>r. r = 4 * RR - 1),
        per_col T (\<lambda>r. r = 3 * RR - 1),
        per_col T (\<lambda>r. r = out1 + RR - 1),
        per_col T (\<lambda>r. r = out2 + RR - 1),
        per_col T (\<lambda>r. r = out1 + 2 * RR - 1 \<or> r = out1 + 3 * RR - 1 \<or> r = out2 + 2 * RR - 1 \<or> r = out2 + 3 * RR - 1),
        per_col T (\<lambda>r. in_merk D r \<and> (r - MERK) mod RPL = RR - 1),
        per_col T (\<lambda>r. in_merk D r \<and> (r - MERK) mod RPL = 2 * RR - 1),
        per_col T (\<lambda>r. r = OWN_END - 1),
        per_col T (\<lambda>r. r = COM_END - 1),
        per_col T (\<lambda>r. r = NUL_END - 1 \<or> lvlEnd D r (D - 1)),
        per_col T (\<lambda>r. r = out1 - 1),
        per_col T (\<lambda>r. r = out2 - 1),
        per_col T (\<lambda>r. r = OWN_END - 1),
        per_col T (\<lambda>r. r = COM_END - 1 \<or> lvlEnd D r (D - 1)),
        per_col T (\<lambda>r. r = NUL_END - 1),
        per_col T (\<lambda>r. r = out1 - 1),
        per_col T (\<lambda>r. r = out2 - 1),
        per_col T (in_merk D),
        per_col T (\<lambda>r. in_rng D r \<and> (r - spongeEnd) mod RNG_BLOCK < RNG_NIBBLES),
        per_col T (\<lambda>r. in_rng D r \<and> (r - spongeEnd) mod RNG_BLOCK = 0),
        per_col T (\<lambda>r. r = spongeEnd + 0 * RNG_BLOCK + RNG_NIBBLES),
        per_col T (\<lambda>r. r = spongeEnd + 1 * RNG_BLOCK + RNG_NIBBLES),
        per_col T (\<lambda>r. r = spongeEnd + 2 * RNG_BLOCK + RNG_NIBBLES)])"

section \<open>Transition constraints\<close>

text \<open>A constraint reads a row, the next row and the row of the periodic columns.\<close>

type_synonym js_con = "int list \<Rightarrow> int list \<Rightarrow> int list \<Rightarrow> int"

definition con_round :: "int list \<Rightarrow> int list \<Rightarrow> int \<times> int" where
  "con_round cur per =
     (let t0 = f_pw (f_add (cur ! S0) (per ! RC0)) (int ALPHA); t1 = f_pw (f_add (cur ! S1) (per ! RC1)) (int ALPHA)
      in (f_add (f_mul 2 t0) t1, f_add t0 (f_mul 3 t1)))"

definition con_left :: "int list \<Rightarrow> int" where
  "con_left cur = f_add (cur ! CARRY) (f_mul (cur ! DIR) (f_sub (cur ! SIB) (cur ! CARRY)))"

definition con_right :: "int list \<Rightarrow> int" where
  "con_right cur = f_add (cur ! SIB) (f_mul (cur ! DIR) (f_sub (cur ! CARRY) (cur ! SIB)))"

definition con_reset :: "int list \<Rightarrow> int" where
  "con_reset per = f_add (f_add (f_add (per ! RCM) (per ! RNF)) (per ! RNODE)) (f_add (per ! ROUT1) (per ! ROUT2))"

definition con_dom :: "int list \<Rightarrow> int" where
  "con_dom per = f_add (f_add (f_mul (per ! RCM) DOM_CM) (f_mul (per ! RNF) DOM_NF))
     (f_add (f_mul (per ! RNODE) DOM_NODE) (f_add (f_mul (per ! ROUT1) DOM_CM) (f_mul (per ! ROUT2) DOM_CM)))"

definition sumAll :: "int list \<Rightarrow> int" where "sumAll xs = fold (\<lambda>b a. f_add a b) xs 0"

definition c_s1 :: "(string list \<Rightarrow> string) \<Rightarrow> js_con" where
  "c_s1 HL cur nxt per =
     f_sub (nxt ! S1) (f_add (f_mul (con_reset per) (ivVal HL)) (f_mul (f_sub 1 (con_reset per)) (snd (con_round cur per))))"

definition c_s0 :: js_con where
  "c_s0 cur nxt per =
     (let absorbed = sumAll [f_mul (per ! ANSK) (cur ! NSK), f_mul (per ! ARHO) (cur ! RHO), f_mul (per ! AOWN) (cur ! OWN),
            f_mul (per ! AVIN) (cur ! VIN), f_mul (per ! AVOUT1) (cur ! VOUT1), f_mul (per ! AVOUT2) (cur ! VOUT2),
            f_mul (per ! AFREE) (nxt ! AB), f_mul (per ! B0) (con_left cur), f_mul (per ! B1) (con_right cur)]
      in f_sub (nxt ! S0) (f_add (con_dom per) (f_mul (f_sub 1 (con_reset per)) (f_add (fst (con_round cur per)) absorbed))))"

definition c_ab :: js_con where
  "c_ab cur nxt per =
     (let setm = sumAll [per ! RCM, per ! RNF, per ! RNODE, per ! ROUT1, per ! ROUT2, per ! ANSK, per ! ARHO,
            per ! AOWN, per ! AVIN, per ! AVOUT1, per ! AVOUT2, per ! B0, per ! B1];
          hold = f_sub (f_sub 1 setm) (per ! AFREE)
      in sumAll [
           f_mul (per ! RCM) (f_sub (nxt ! AB) DOM_CM), f_mul (per ! RNF) (f_sub (nxt ! AB) DOM_NF),
           f_mul (per ! RNODE) (f_sub (nxt ! AB) DOM_NODE), f_mul (per ! ROUT1) (f_sub (nxt ! AB) DOM_CM),
           f_mul (per ! ROUT2) (f_sub (nxt ! AB) DOM_CM),
           f_mul (per ! ANSK) (f_sub (nxt ! AB) (cur ! NSK)), f_mul (per ! ARHO) (f_sub (nxt ! AB) (cur ! RHO)),
           f_mul (per ! AOWN) (f_sub (nxt ! AB) (cur ! OWN)), f_mul (per ! AVIN) (f_sub (nxt ! AB) (cur ! VIN)),
           f_mul (per ! AVOUT1) (f_sub (nxt ! AB) (cur ! VOUT1)), f_mul (per ! AVOUT2) (f_sub (nxt ! AB) (cur ! VOUT2)),
           f_mul (per ! B0) (f_sub (nxt ! AB) (con_left cur)), f_mul (per ! B1) (f_sub (nxt ! AB) (con_right cur)),
           f_mul hold (f_sub (nxt ! AB) (cur ! AB))])"

definition c_cap :: "nat \<Rightarrow> nat \<Rightarrow> js_con" where
  "c_cap reg sel cur nxt per =
     f_sub (nxt ! reg) (f_add (f_mul (per ! sel) (fst (con_round cur per))) (f_mul (f_sub 1 (per ! sel)) (cur ! reg)))"

definition c_hold :: "nat \<Rightarrow> js_con" where "c_hold reg cur nxt per = f_sub (nxt ! reg) (cur ! reg)"

definition c_path :: "nat \<Rightarrow> js_con" where
  "c_path reg cur nxt per = f_mul (f_sub 1 (per ! RNODE)) (f_sub (nxt ! reg) (cur ! reg))"

definition c_dirbit :: js_con where
  "c_dirbit cur nxt per = f_mul (per ! INMERK) (f_mul (cur ! DIR) (f_sub 1 (cur ! DIR)))"

definition c_cons :: js_con where
  "c_cons cur nxt per = f_sub (cur ! CONS) (f_sub (f_sub (cur ! VIN) (cur ! VOUT1)) (cur ! VOUT2))"

definition con_nib :: "int list \<Rightarrow> int" where
  "con_nib cur = f_add (f_add (f_mul 8 (cur ! RB0)) (f_mul 4 (cur ! RB1))) (f_add (f_mul 2 (cur ! RB2)) (cur ! RB3))"

definition c_acc :: js_con where
  "c_acc cur nxt per = f_mul (per ! RNG_ACC) (f_sub (nxt ! ACC) (f_add (f_mul 16 (cur ! ACC)) (con_nib cur)))"

definition c_accstart :: js_con where "c_accstart cur nxt per = f_mul (per ! RNG_START) (cur ! ACC)"

definition c_top :: js_con where
  "c_top cur nxt per = f_mul (per ! RNG_START) (f_add (f_add (cur ! RB0) (cur ! RB1)) (cur ! RB2))"

definition c_bit :: "nat \<Rightarrow> js_con" where
  "c_bit reg cur nxt per = f_mul (per ! RNG_ACC) (f_mul (cur ! reg) (f_sub 1 (cur ! reg)))"

definition c_bind :: "nat \<Rightarrow> nat \<Rightarrow> js_con" where
  "c_bind sel val cur nxt per = f_mul (per ! sel) (f_sub (cur ! ACC) (cur ! val))"

definition transitions :: "(string list \<Rightarrow> string) \<Rightarrow> js_con list" where
  "transitions HL =
     [c_s1 HL, c_s0, c_ab,
      c_cap CARRY CAPCARRY, c_cap OWN CAPOWN, c_cap NFREG CAPNF, c_cap ROOTREG CAPROOT, c_cap CMOUT1 CAPCM1,
      c_hold NSK, c_hold RHO, c_hold VIN, c_hold VOUT1, c_hold VOUT2,
      c_path SIB, c_path DIR, c_dirbit, c_cons,
      c_acc, c_accstart, c_top, c_bit RB0, c_bit RB1, c_bit RB2, c_bit RB3,
      c_bind RBIND_VIN VIN, c_bind RBIND_VOUT1 VOUT1, c_bind RBIND_VOUT2 VOUT2]"

end
