(* ===== verification/JoinSplitRules.thy ===== *)
theory JoinSplitRules
  imports JoinSplit FriFolding
begin

text \<open>
  What the constraints of the join-split circuit say. Every row of the layout has a kind; a lemma per
  constraint turns its vanishing at a row into an equation between this row and the next one.
\<close>

declare One_nat_def [simp del]


section \<open>Field elements\<close>

definition fe :: "int \<Rightarrow> bool" where "fe x \<longleftrightarrow> 0 \<le> x \<and> x < FP"

lemma fe_mod [simp]: "fe x \<Longrightarrow> x mod FP = x"
  by (simp add: fe_def)

lemma fe_ops [simp, intro]: "fe (f_add a b)" "fe (f_sub a b)" "fe (f_mul a b)" "fe (f_mod a)" "fe (a mod FP)"
  by (simp_all add: fe_def field_mod)

lemma fe_small [simp]: "fe 0" "fe 1"
  by (simp_all add: fe_def FP_def)

lemma one_mod [simp]: "1 mod FP = 1"
  by (simp add: FP_def)

lemma field_units [simp]:
  "f_mul 0 x = 0" "f_mul x 0 = 0" "f_mul 1 x = x mod FP" "f_mul x 1 = x mod FP" "f_add 0 x = x mod FP" "f_add x 0 = x mod FP"
  "f_sub x 0 = x mod FP" "f_sub 1 1 = 0"
  by (simp_all add: field_mod)

lemma field_absorb [simp]:
  "f_add (x mod FP) y = f_add x y" "f_add x (y mod FP) = f_add x y" "f_sub (x mod FP) y = f_sub x y" "f_sub x (y mod FP) = f_sub x y"
  by (simp_all add: field_mod mod_simps)

lemma f_sub_0: "f_sub a b = 0 \<longleftrightarrow> a mod FP = b mod FP"
  by (simp add: field_mod mod_eq_dvd_iff dvd_eq_mod_eq_0)

lemma f_mul_0_iff: "f_mul a b = 0 \<longleftrightarrow> a mod FP = 0 \<or> b mod FP = 0"
proof
  assume "f_mul a b = 0"
  then have "a * b mod FP = 0" by (simp add: field_mod)
  then show "a mod FP = 0 \<or> b mod FP = 0" using product_nonzero [of a b] by argo
next
  assume "a mod FP = 0 \<or> b mod FP = 0"
  then show "f_mul a b = 0" by (metis f_mul_mod(1,2) field_units(1,2))
qed

section \<open>Kinds of rows\<close>

datatype row_kind = KPlain | KNsk | KRho | KOwn | KVin | KV1 | KV2 | KFree | KLeft | KRight
  | KCm | KNf | KNode0 | KNode | KOut1 | KOut2

text \<open>With 27 rounds, the ends of the blocks that absorb a message or start a new hash.\<close>

definition js_kind :: "nat \<Rightarrow> nat \<Rightarrow> row_kind" where
  "js_kind D r =
     (if r = 26 \<or> r = 188 then KNsk else if r = 134 \<or> r = 215 then KRho else if r = 107 then KOwn else if r = 80 then KVin
      else if r = 53 then KCm else if r = 161 then KNf else if r = 242 then KNode0
      else if 243 \<le> r \<and> r < 243 + 81 * D then
        (if (r - 243) mod 81 = 26 then KLeft else if (r - 243) mod 81 = 53 then KRight
         else if (r - 243) mod 81 = 80 then (if (r - 243) div 81 < D - 1 then KNode else KOut1) else KPlain)
      else if r = 269 + 81 * D then KV1 else if r = 296 + 81 * D \<or> r = 323 + 81 * D then KFree
      else if r = 350 + 81 * D then KOut2 else if r = 377 + 81 * D then KV2
      else if r = 404 + 81 * D \<or> r = 431 + 81 * D then KFree else KPlain)"

text \<open>Evaluated layout.\<close>

lemma js_layout:
  "RR = 27" "RPL = 81" "OWN_END = 54" "COM_END = 162" "NUL_END = 243" "MERK = 243" "RNG_NIBBLES = 16" "RNG_BLOCK = 17" "RNG_VALUES = 3"
  by (simp_all add: RR_def RPL_def OWN_END_def COM_END_def NUL_END_def MERK_def RNG_NIBBLES_def RNG_BLOCK_def RNG_VALUES_def AH_ROUNDS_def)

lemma bounds_eval: "bounds D = (243 + 81 * D, 351 + 81 * D, 459 + 81 * D)"
  by (simp add: bounds_def Let_def js_layout)

lemma total_eval: "totalRows D = 510 + 81 * D"
  by (simp add: totalRows_def bounds_eval js_layout)

lemmas columns = S0_def S1_def AB_def CARRY_def SIB_def DIR_def NSK_def RHO_def OWN_def NFREG_def VIN_def VOUT1_def VOUT2_def
  CONS_def ROOTREG_def CMOUT1_def ACC_def RB0_def RB1_def RB2_def RB3_def

lemmas selectors = RC0_def RC1_def ANSK_def ARHO_def AOWN_def AVIN_def AVOUT1_def AVOUT2_def AFREE_def B0_def B1_def RCM_def RNF_def
  RNODE_def ROUT1_def ROUT2_def CAPOWN_def CAPCARRY_def CAPNF_def CAPROOT_def CAPCM1_def INMERK_def RNG_ACC_def RNG_START_def
  RBIND_VIN_def RBIND_VOUT1_def RBIND_VOUT2_def

text \<open>The row of the periodic columns.\<close>

definition per_row :: "(string list \<Rightarrow> string) \<Rightarrow> nat \<Rightarrow> nat \<Rightarrow> nat \<Rightarrow> int list" where
  "per_row HL T D r = map (\<lambda>c. c ! r) (periodic HL T D)"

definition is_reset :: "row_kind \<Rightarrow> bool" where "is_reset k \<longleftrightarrow> k \<in> {KCm, KNf, KNode0, KNode, KOut1, KOut2}"

definition sel :: "bool \<Rightarrow> int" where "sel b = (if b then 1 else 0)"

lemma sel_simps [simp]: "sel True = 1" "sel False = 0"
  by (simp_all add: sel_def)

definition sponge_sel :: "row_kind \<Rightarrow> int list \<Rightarrow> bool" where
  "sponge_sel k per \<longleftrightarrow> per ! ANSK = sel (k = KNsk) \<and> per ! ARHO = sel (k = KRho) \<and> per ! AOWN = sel (k = KOwn) \<and> per ! AVIN = sel (k = KVin) \<and>
     per ! AVOUT1 = sel (k = KV1) \<and> per ! AVOUT2 = sel (k = KV2) \<and> per ! AFREE = sel (k = KFree) \<and> per ! B0 = sel (k = KLeft) \<and>
     per ! B1 = sel (k = KRight) \<and> per ! RCM = sel (k = KCm) \<and> per ! RNF = sel (k = KNf) \<and> per ! RNODE = sel (k \<in> {KNode0, KNode}) \<and>
     per ! ROUT1 = sel (k = KOut1) \<and> per ! ROUT2 = sel (k = KOut2)"

lemma per_col_nth [simp]: "r < T \<Longrightarrow> per_col T f ! r = sel (f r)"
  by (simp add: per_col_def sel_def)

lemma level_position: "243 \<le> r \<Longrightarrow> \<exists>l p. r = 243 + 81 * l + p \<and> p < 81 \<and> (r - 243) mod 81 = p \<and> (r - 243) div 81 = (l :: nat)"
  by (rule exI [of _ "(r - 243) div 81"], rule exI [of _ "(r - 243) mod 81"]) (simp add: mult.commute)

lemma last_level: "0 < D \<Longrightarrow> 243 \<le> r \<Longrightarrow> r < 243 + 81 * D \<Longrightarrow> (r - 243) mod 81 = 80 \<Longrightarrow>
    ((r - 243) div 81 < D - 1) = (r \<noteq> 242 + 81 * (D :: nat))"
  using level_position [of r] by auto

lemma kind_sponge:
  assumes "0 < D" "r < T"
  shows "sponge_sel (js_kind D r) (per_row HL T D r)"
proof (cases "243 \<le> r \<and> r < 243 + 81 * D")
  case True
  then obtain l p where l: "r = 243 + 81 * l + p" "p < 81" "(r - 243) mod 81 = p" "(r - 243) div 81 = l" using level_position by blast
  have d: "l < D" using True l by simp
  have e: "(l < D - 1) = (l + 1 \<noteq> D)" using d by auto
  show ?thesis
    using True l d assms(2)
    by (simp add: sponge_sel_def per_row_def periodic_def selectors js_kind_def bounds_eval js_layout in_merk_def lvlEnd_def e)
next
  case False
  then have "r \<noteq> 242 + 81 * D" using assms(1) by linarith
  with False show ?thesis
    using assms
    by (simp add: sponge_sel_def per_row_def periodic_def selectors js_kind_def bounds_eval js_layout in_merk_def lvlEnd_def)
qed

section \<open>Constraints as equations\<close>

text \<open>The other selectors: captures, range rows and the region of the path.\<close>

definition capture_sel :: "row_kind \<Rightarrow> int list \<Rightarrow> bool" where
  "capture_sel k per \<longleftrightarrow> per ! CAPOWN = sel (k = KCm) \<and> per ! CAPCARRY = sel (k \<in> {KNf, KNode}) \<and> per ! CAPNF = sel (k = KNode0) \<and>
     per ! CAPROOT = sel (k = KOut1) \<and> per ! CAPCM1 = sel (k = KOut2)"

lemma kind_capture:
  assumes "0 < D" "r < T"
  shows "capture_sel (js_kind D r) (per_row HL T D r)"
proof (cases "243 \<le> r \<and> r < 243 + 81 * D")
  case True
  then obtain l p where l: "r = 243 + 81 * l + p" "p < 81" "(r - 243) mod 81 = p" "(r - 243) div 81 = l" using level_position by blast
  have d: "l < D" using True l by simp
  have e: "(l < D - 1) = (l + 1 \<noteq> D)" using d by auto
  show ?thesis
    using True l d assms(2)
    by (simp add: capture_sel_def per_row_def periodic_def selectors js_kind_def bounds_eval js_layout in_merk_def lvlEnd_def e)
next
  case False
  then have "r \<noteq> 242 + 81 * D" using assms(1) by linarith
  with False show ?thesis
    using assms
    by (simp add: capture_sel_def per_row_def periodic_def selectors js_kind_def bounds_eval js_layout in_merk_def lvlEnd_def)
qed

text \<open>The message a block absorbs, and the domain of the hash that starts.\<close>

definition js_msg :: "row_kind \<Rightarrow> int list \<Rightarrow> int list \<Rightarrow> int" where
  "js_msg k cur nxt =
     (case k of KNsk \<Rightarrow> cur ! NSK | KRho \<Rightarrow> cur ! RHO | KOwn \<Rightarrow> cur ! OWN | KVin \<Rightarrow> cur ! VIN | KV1 \<Rightarrow> cur ! VOUT1 | KV2 \<Rightarrow> cur ! VOUT2
      | KFree \<Rightarrow> nxt ! AB | KLeft \<Rightarrow> con_left cur | KRight \<Rightarrow> con_right cur | _ \<Rightarrow> 0)"

definition js_dom :: "row_kind \<Rightarrow> int" where
  "js_dom k = (case k of KNf \<Rightarrow> DOM_NF | KNode0 \<Rightarrow> DOM_NODE | KNode \<Rightarrow> DOM_NODE | _ \<Rightarrow> DOM_CM)"

lemma fe_doms [simp]: "fe DOM_CM" "fe DOM_NF" "fe DOM_NODE" "fe DOM_OWNER"
  by (simp_all add: fe_def FP_def DOM_CM_def DOM_NF_def DOM_NODE_def DOM_OWNER_def)

lemma fe_con [simp]: "fe (con_left cur)" "fe (con_right cur)"
  by (simp_all add: con_left_def con_right_def)

lemma c_s1_iff:
  assumes "sponge_sel k per" "fe (nxt ! S1)" "fe (ivVal HL)" "fe (snd (con_round cur per))"
  shows "c_s1 HL cur nxt per = 0 \<longleftrightarrow> nxt ! S1 = (if is_reset k then ivVal HL else snd (con_round cur per))"
  using assms by (cases k) (simp_all add: sponge_sel_def c_s1_def con_reset_def is_reset_def f_sub_0)

lemma c_s0_iff:
  assumes "sponge_sel k per" "fe (nxt ! S0)"
  shows "c_s0 cur nxt per = 0 \<longleftrightarrow>
         nxt ! S0 = (if is_reset k then js_dom k else f_add (fst (con_round cur per)) (js_msg k cur nxt))"
  using assms
  by (cases k) (simp_all add: sponge_sel_def c_s0_def con_reset_def con_dom_def sumAll_def is_reset_def js_dom_def js_msg_def f_sub_0)

lemma c_ab_iff:
  assumes "sponge_sel k per" "fe (nxt ! AB)" "fe (cur ! AB)" "fe (js_msg k cur nxt)"
  shows "c_ab cur nxt per = 0 \<longleftrightarrow>
         k = KFree \<or> nxt ! AB = (if is_reset k then js_dom k else if k = KPlain then cur ! AB else js_msg k cur nxt)"
  using assms
  by (cases k) (simp_all add: sponge_sel_def c_ab_def sumAll_def is_reset_def js_dom_def js_msg_def f_sub_0)

lemma c_cap_iff:
  assumes "per ! s = sel b" "fe (nxt ! reg)" "fe (cur ! reg)" "fe (fst (con_round cur per))"
  shows "c_cap reg s cur nxt per = 0 \<longleftrightarrow> nxt ! reg = (if b then fst (con_round cur per) else cur ! reg)"
  using assms by (cases b) (simp_all add: c_cap_def f_sub_0)

lemma c_hold_iff: "fe (nxt ! reg) \<Longrightarrow> fe (cur ! reg) \<Longrightarrow> c_hold reg cur nxt per = 0 \<longleftrightarrow> nxt ! reg = cur ! reg"
  by (simp add: c_hold_def f_sub_0)

lemma c_path_iff:
  assumes "sponge_sel k per" "fe (nxt ! reg)" "fe (cur ! reg)"
  shows "c_path reg cur nxt per = 0 \<longleftrightarrow> k \<in> {KNode0, KNode} \<or> nxt ! reg = cur ! reg"
  using assms by (cases k) (simp_all add: sponge_sel_def c_path_def f_sub_0)

lemma con_nib_eq: "con_nib cur = (8 * (cur ! RB0) + 4 * (cur ! RB1) + 2 * (cur ! RB2) + cur ! RB3) mod FP"
  by (simp add: con_nib_def field_mod mod_simps add.assoc)

lemma bit_field: "fe x \<Longrightarrow> f_mul x (f_sub 1 x) = 0 \<longleftrightarrow> x \<in> {0, 1}"
  by (auto simp: f_mul_0_iff f_sub_0)

lemma fe_round [simp]: "fe (fst (con_round cur per))" "fe (snd (con_round cur per))"
  by (simp_all add: con_round_def Let_def)

text \<open>A round of the constraints, of the trace and of the hash is one map.\<close>

lemma con_round_eq:
  "r < T \<Longrightarrow> con_round cur (per_row HL T D r) = permute_round HL (r mod 27) (cur ! S0, cur ! S1)"
  by (simp add: con_round_def per_row_def periodic_def bounds_eval selectors permute_round_def rc_def js_layout Let_def MDS_def
      sbox_def ah_pw_def f_pw_def ALPHA_def)

lemma js_round_eq: "js_round HL a b r = permute_round HL (r mod 27) (a, b)"
  by (simp add: js_round_def permute_round_def rc_def js_layout Let_def MDS_def)

end
