(* ===== verification/JoinSplitSound.thy ===== *)
theory JoinSplitSound
  imports JoinSplitRules
begin

text \<open>
  Extraction: what a trace that satisfies the constraints computes. Each region of the sponge hashes the
  messages it absorbs, the range rows bound the values, so a satisfied trace contains a witness of the
  transfer.
\<close>

declare One_nat_def [simp del]

definition js_satisfied :: "(string list \<Rightarrow> string) \<Rightarrow> nat \<Rightarrow> nat \<Rightarrow> int list list \<Rightarrow> bool" where
  "js_satisfied HL T D tr \<longleftrightarrow>
     length tr = T \<and> (\<forall>row \<in> set tr. length row = 21 \<and> (\<forall>x \<in> set row. fe x)) \<and>
     (\<forall>r. r + 1 < T \<longrightarrow> (\<forall>c \<in> set (transitions HL). c (tr ! r) (tr ! (r + 1)) (per_row HL T D r) = 0))"

lemma fe_iv [simp]: "fe (ivVal HL)"
  by (simp add: ivVal_def ah_const_def)

lemma columns_less: "S0 < 21" "S1 < 21" "AB < 21" "CARRY < 21" "SIB < 21" "DIR < 21" "NSK < 21" "RHO < 21" "OWN < 21" "NFREG < 21"
  "VIN < 21" "VOUT1 < 21" "VOUT2 < 21" "CONS < 21" "ROOTREG < 21" "CMOUT1 < 21" "ACC < 21" "RB0 < 21" "RB1 < 21" "RB2 < 21" "RB3 < 21"
  by (simp_all add: columns)

lemma sat_cell: "js_satisfied HL T D tr \<Longrightarrow> r < T \<Longrightarrow> c < 21 \<Longrightarrow> fe (tr ! r ! c)"
proof -
  assume s: "js_satisfied HL T D tr" and r: "r < T" and c: "c < 21"
  have "tr ! r \<in> set tr" using s r unfolding js_satisfied_def by (intro nth_mem) blast
  then have "length (tr ! r) = 21" "\<forall>x \<in> set (tr ! r). fe x" using s unfolding js_satisfied_def by blast+
  then show ?thesis using c by (metis nth_mem)
qed

lemma sat_con: "js_satisfied HL T D tr \<Longrightarrow> r + 1 < T \<Longrightarrow> c \<in> set (transitions HL) \<Longrightarrow> c (tr ! r) (tr ! (r + 1)) (per_row HL T D r) = 0"
  unfolding js_satisfied_def by blast

lemma cons_in: "c_s1 HL \<in> set (transitions HL)" "c_s0 \<in> set (transitions HL)"
  "c_cap CARRY CAPCARRY \<in> set (transitions HL)" "c_cap OWN CAPOWN \<in> set (transitions HL)" "c_cap NFREG CAPNF \<in> set (transitions HL)"
  "c_cap ROOTREG CAPROOT \<in> set (transitions HL)" "c_cap CMOUT1 CAPCM1 \<in> set (transitions HL)"
  "c_hold NSK \<in> set (transitions HL)" "c_hold RHO \<in> set (transitions HL)" "c_hold VIN \<in> set (transitions HL)"
  "c_hold VOUT1 \<in> set (transitions HL)" "c_hold VOUT2 \<in> set (transitions HL)"
  "c_path SIB \<in> set (transitions HL)" "c_path DIR \<in> set (transitions HL)" "c_dirbit \<in> set (transitions HL)" "c_cons \<in> set (transitions HL)"
  "c_acc \<in> set (transitions HL)" "c_accstart \<in> set (transitions HL)" "c_top \<in> set (transitions HL)"
  "c_bit RB0 \<in> set (transitions HL)" "c_bit RB1 \<in> set (transitions HL)" "c_bit RB2 \<in> set (transitions HL)" "c_bit RB3 \<in> set (transitions HL)"
  "c_bind RBIND_VIN VIN \<in> set (transitions HL)" "c_bind RBIND_VOUT1 VOUT1 \<in> set (transitions HL)" "c_bind RBIND_VOUT2 VOUT2 \<in> set (transitions HL)"
  by (simp_all add: transitions_def)

section \<open>One row\<close>

text \<open>The sponge's state at a row and after its round.\<close>

definition sp_at :: "int list list \<Rightarrow> nat \<Rightarrow> int \<times> int" where "sp_at tr r = (tr ! r ! S0, tr ! r ! S1)"

definition sp_out :: "(string list \<Rightarrow> string) \<Rightarrow> int list list \<Rightarrow> nat \<Rightarrow> int \<times> int" where
  "sp_out HL tr r = permute_round HL (r mod 27) (sp_at tr r)"

lemma sp_out_con: "r < T \<Longrightarrow> con_round (tr ! r) (per_row HL T D r) = sp_out HL tr r"
  by (simp add: con_round_eq sp_out_def sp_at_def)

lemma fe_permute_round [simp]: "fe (fst (permute_round HL i s))" "fe (snd (permute_round HL i s))"
  by (simp_all add: permute_round_def Let_def)

lemma fe_sp_out [simp]: "fe (fst (sp_out HL tr r))" "fe (snd (sp_out HL tr r))"
  by (simp_all add: sp_out_def)

lemma sat_sponge:
  assumes s: "js_satisfied HL T D tr" and D: "0 < D" and r: "r + 1 < T"
  shows "sp_at tr (r + 1) =
    (let k = js_kind D r in if is_reset k then (js_dom k, ivVal HL)
     else (f_add (fst (sp_out HL tr r)) (js_msg k (tr ! r) (tr ! (r + 1))), snd (sp_out HL tr r)))"
proof -
  have rT: "r < T" using r by simp
  note k = kind_sponge [OF D rT, of HL]
  note f = sat_cell [OF s r]
  have "tr ! (r + 1) ! S1 = (if is_reset (js_kind D r) then ivVal HL else snd (sp_out HL tr r))"
    using sat_con [OF s r cons_in(1)] c_s1_iff [OF k f [OF columns_less(2)] fe_iv fe_round(2)] by (simp add: sp_out_con [OF rT])
  moreover have "tr ! (r + 1) ! S0 = (if is_reset (js_kind D r) then js_dom (js_kind D r)
      else f_add (fst (sp_out HL tr r)) (js_msg (js_kind D r) (tr ! r) (tr ! (r + 1))))"
    using sat_con [OF s r cons_in(2)] c_s0_iff [OF k f [OF columns_less(1)], of "tr ! r"] by (simp add: sp_out_con [OF rT])
  ultimately show ?thesis by (simp add: sp_at_def Let_def)
qed

lemma sat_capture:
  assumes s: "js_satisfied HL T D tr" and D: "0 < D" and r: "r + 1 < T"
  shows "tr ! (r + 1) ! CARRY = (if js_kind D r \<in> {KNf, KNode} then fst (sp_out HL tr r) else tr ! r ! CARRY)"
    "tr ! (r + 1) ! OWN = (if js_kind D r = KCm then fst (sp_out HL tr r) else tr ! r ! OWN)"
    "tr ! (r + 1) ! NFREG = (if js_kind D r = KNode0 then fst (sp_out HL tr r) else tr ! r ! NFREG)"
    "tr ! (r + 1) ! ROOTREG = (if js_kind D r = KOut1 then fst (sp_out HL tr r) else tr ! r ! ROOTREG)"
    "tr ! (r + 1) ! CMOUT1 = (if js_kind D r = KOut2 then fst (sp_out HL tr r) else tr ! r ! CMOUT1)"
proof -
  have rT: "r < T" using r by simp
  note k = kind_capture [OF D rT, of HL, unfolded capture_sel_def]
  have c: "tr ! (r + 1) ! reg = (if b then fst (sp_out HL tr r) else tr ! r ! reg)"
    if "c_cap reg q \<in> set (transitions HL)" "per_row HL T D r ! q = sel b" "reg < 21" for reg q b
    using sat_con [OF s r that(1)] c_cap_iff [OF that(2) sat_cell [OF s r that(3)] sat_cell [OF s rT that(3)] fe_round(1)]
    by (simp add: sp_out_con [OF rT])
  show "tr ! (r + 1) ! CARRY = (if js_kind D r \<in> {KNf, KNode} then fst (sp_out HL tr r) else tr ! r ! CARRY)"
    using k by (intro c [OF cons_in(3)]) (simp_all add: columns_less)
  show "tr ! (r + 1) ! OWN = (if js_kind D r = KCm then fst (sp_out HL tr r) else tr ! r ! OWN)"
    using k by (intro c [OF cons_in(4)]) (simp_all add: columns_less)
  show "tr ! (r + 1) ! NFREG = (if js_kind D r = KNode0 then fst (sp_out HL tr r) else tr ! r ! NFREG)"
    using k by (intro c [OF cons_in(5)]) (simp_all add: columns_less)
  show "tr ! (r + 1) ! ROOTREG = (if js_kind D r = KOut1 then fst (sp_out HL tr r) else tr ! r ! ROOTREG)"
    using k by (intro c [OF cons_in(6)]) (simp_all add: columns_less)
  show "tr ! (r + 1) ! CMOUT1 = (if js_kind D r = KOut2 then fst (sp_out HL tr r) else tr ! r ! CMOUT1)"
    using k by (intro c [OF cons_in(7)]) (simp_all add: columns_less)
qed

lemma sat_hold:
  assumes s: "js_satisfied HL T D tr" and r: "r + 1 < T" and reg: "reg \<in> {NSK, RHO, VIN, VOUT1, VOUT2}"
  shows "tr ! (r + 1) ! reg = tr ! r ! reg"
proof -
  have rT: "r < T" using r by simp
  have m: "c_hold reg \<in> set (transitions HL)" "reg < 21" using reg cons_in(8-12) columns_less by auto
  show ?thesis using sat_con [OF s r m(1)] c_hold_iff [OF sat_cell [OF s r m(2)] sat_cell [OF s rT m(2)]] by simp
qed

lemma sat_path:
  assumes s: "js_satisfied HL T D tr" and D: "0 < D" and r: "r + 1 < T" and reg: "reg \<in> {SIB, DIR}" and k: "js_kind D r \<notin> {KNode0, KNode}"
  shows "tr ! (r + 1) ! reg = tr ! r ! reg"
proof -
  have rT: "r < T" using r by simp
  have m: "c_path reg \<in> set (transitions HL)" "reg < 21" using reg cons_in(13,14) columns_less by auto
  show ?thesis
    using sat_con [OF s r m(1)] c_path_iff [OF kind_sponge [OF D rT] sat_cell [OF s r m(2)] sat_cell [OF s rT m(2)]] k by simp
qed

text \<open>A column that every row of a stretch keeps.\<close>

lemma kept: "(\<And>r. a \<le> r \<Longrightarrow> r < b \<Longrightarrow> f (r + 1) = f r) \<Longrightarrow> a \<le> b \<Longrightarrow> f b = f (a :: nat)"
proof (induction b)
  case (Suc b)
  show ?case
  proof (cases "a = Suc b")
    case False
    then have "f (b + 1) = f b" "f b = f a" using Suc by simp_all
    then show ?thesis by (simp add: One_nat_def)
  qed simp
qed simp

lemma sat_const: "js_satisfied HL T D tr \<Longrightarrow> reg \<in> {NSK, RHO, VIN, VOUT1, VOUT2} \<Longrightarrow> r < T \<Longrightarrow> tr ! r ! reg = tr ! 0 ! reg"
  by (rule kept [of 0 r "\<lambda>r. tr ! r ! reg"]) (auto intro: sat_hold)

section \<open>Blocks of the sponge\<close>

lemma kind_plain: "r mod 27 \<noteq> 26 \<Longrightarrow> js_kind D r = KPlain"
proof -
  assume m: "r mod 27 \<noteq> 26"
  have "(r - 243) mod 81 \<noteq> 26 \<and> (r - 243) mod 81 \<noteq> 53 \<and> (r - 243) mod 81 \<noteq> 80" if g: "243 \<le> r"
  proof -
    obtain l p where l: "r = 243 + 81 * l + p" "p < 81" "(r - 243) mod 81 = p" using level_position [OF g] by blast
    have "r = p + 27 * (9 + 3 * l)" using l(1) by simp
    then have "r mod 27 = p mod 27" by (simp only: mod_mult_self2)
    then have "p mod 27 \<noteq> 26" using m by argo
    then have "p \<noteq> 26 \<and> p \<noteq> 53 \<and> p \<noteq> 80" by auto
    then show ?thesis unfolding l(3) .
  qed
  moreover have q: "r \<noteq> 26 + 27 * k" for k using m by auto
  moreover have "r \<noteq> 269 + 81 * D" "r \<noteq> 296 + 81 * D" "r \<noteq> 323 + 81 * D" "r \<noteq> 350 + 81 * D" "r \<noteq> 377 + 81 * D" "r \<noteq> 404 + 81 * D" "r \<noteq> 431 + 81 * D"
    using q [of "9 + 3 * D"] q [of "10 + 3 * D"] q [of "11 + 3 * D"] q [of "12 + 3 * D"] q [of "13 + 3 * D"] q [of "14 + 3 * D"] q [of "15 + 3 * D"]
    by (simp_all add: algebra_simps)
  moreover have "r \<notin> {26, 188, 134, 215, 107, 80, 53, 161, 242}" using m by auto
  ultimately show ?thesis by (simp add: js_kind_def)
qed

text \<open>The sponge after the messages \<open>els\<close>.\<close>

definition sponge :: "(string list \<Rightarrow> string) \<Rightarrow> int list \<Rightarrow> int \<times> int" where
  "sponge HL els = fold (\<lambda>m s. permute HL (f_add (fst s) (f_mod m), snd s)) els (0, ivVal HL)"

lemma hashn_sponge: "hashn HL els = fst (sponge HL els)"
  by (simp add: hashn_def sponge_def)

lemma sponge_start: "fe d \<Longrightarrow> sponge HL [d] = permute HL (d, ivVal HL)"
  by (simp add: sponge_def f_mod_mod)

lemma sponge_next: "sponge HL (els @ [m]) = permute HL (f_add (fst (sponge HL els)) m, snd (sponge HL els))"
  by (simp add: sponge_def f_mod_mod)

definition hashed :: "(string list \<Rightarrow> string) \<Rightarrow> int list list \<Rightarrow> nat \<Rightarrow> int list \<Rightarrow> bool" where
  "hashed HL tr b els \<longleftrightarrow> permute HL (sp_at tr b) = sponge HL els"

lemma block_mod: "b mod 27 = 0 \<Longrightarrow> i \<le> 26 \<Longrightarrow> (b + i) mod 27 = (i :: nat)"
  by (simp add: mod_add_eq [of b 27 i, symmetric])

lemma block_rounds:
  assumes s: "js_satisfied HL T D tr" and D: "0 < D" and b: "b mod 27 = 0" "b + i < T" "i \<le> 26"
  shows "sp_at tr (b + i) = fold (permute_round HL) [0..<i] (sp_at tr b)"
  using b(2,3)
proof (induction i)
  case (Suc i)
  have m: "(b + i) mod 27 = i" using b(1) Suc.prems(2) by (intro block_mod) simp_all
  then have k: "js_kind D (b + i) = KPlain" using Suc.prems(2) by (intro kind_plain) simp
  have r: "b + i + 1 < T" using Suc.prems(1) by simp
  have "sp_at tr (b + i + 1) = sp_out HL tr (b + i)"
    unfolding sat_sponge [OF s D r] by (simp add: k is_reset_def js_msg_def Let_def prod_eq_iff)
  moreover have "sp_out HL tr (b + i) = permute_round HL i (sp_at tr (b + i))" by (simp add: sp_out_def m)
  ultimately show ?case using Suc by (simp add: One_nat_def)
qed simp

lemma block_out:
  assumes "js_satisfied HL T D tr" "0 < D" "b mod 27 = 0" "b + 26 < T"
  shows "sp_out HL tr (b + 26) = permute HL (sp_at tr b)"
proof -
  have "(b + 26) mod 27 = 26" using assms(3) by (intro block_mod) simp_all
  moreover have "[0..<27] = [0..<26] @ [26 :: nat]" by (simp add: upt_rec)
  ultimately show ?thesis
    using block_rounds [OF assms(1-4)] by (simp add: sp_out_def permute_def AH_ROUNDS_def)
qed

lemma block_absorb:
  assumes s: "js_satisfied HL T D tr" and D: "0 < D" and b: "b mod 27 = 0" "b + 27 < T"
    and h: "hashed HL tr b els" and k: "\<not> is_reset (js_kind D (b + 26))"
  shows "hashed HL tr (b + 27) (els @ [js_msg (js_kind D (b + 26)) (tr ! (b + 26)) (tr ! (b + 27))])"
proof -
  have r: "b + 26 + 1 < T" and e: "b + 27 = b + 26 + 1" using b(2) by simp_all
  have "sp_at tr (b + 27) = (f_add (fst (sponge HL els)) (js_msg (js_kind D (b + 26)) (tr ! (b + 26)) (tr ! (b + 27))), snd (sponge HL els))"
    unfolding e using sat_sponge [OF s D r] block_out [OF s D b(1)] h k b(2) by (simp add: hashed_def Let_def)
  then show ?thesis by (simp add: hashed_def sponge_next)
qed

lemma block_reset:
  assumes s: "js_satisfied HL T D tr" and D: "0 < D" and b: "b mod 27 = 0" "b + 27 < T" and k: "is_reset (js_kind D (b + 26))"
  shows "hashed HL tr (b + 27) [js_dom (js_kind D (b + 26))]"
proof -
  have r: "b + 26 + 1 < T" and e: "b + 27 = b + 26 + 1" using b(2) by simp_all
  have "sp_at tr (b + 27) = (js_dom (js_kind D (b + 26)), ivVal HL)"
    unfolding e using sat_sponge [OF s D r] k by (simp add: Let_def)
  moreover have "fe (js_dom (js_kind D (b + 26)))" by (simp add: js_dom_def split: row_kind.split)
  ultimately show ?thesis by (simp add: hashed_def sponge_start)
qed

lemma block_hash:
  assumes "js_satisfied HL T D tr" "0 < D" "b mod 27 = 0" "b + 26 < T" "hashed HL tr b els"
  shows "fst (sp_out HL tr (b + 26)) = hashn HL els"
  using block_out [OF assms(1-4)] assms(5) by (simp add: hashed_def hashn_sponge)

end
