(* ===== verification/JoinSplitExtract.thy ===== *)
theory JoinSplitExtract
  imports JoinSplitSound
begin

text \<open>The regions of a satisfied trace: what each hashes, where it is captured, and the range rows.\<close>

declare One_nat_def [simp del]

section \<open>Kinds at the ends of the blocks\<close>

lemma kind_ends [simp]:
  "js_kind D 26 = KNsk" "js_kind D 53 = KCm" "js_kind D 80 = KVin" "js_kind D 107 = KOwn" "js_kind D 134 = KRho" "js_kind D 161 = KNf"
  "js_kind D 188 = KNsk" "js_kind D 215 = KRho" "js_kind D 242 = KNode0"
  "js_kind D (269 + 81 * D) = KV1" "js_kind D (296 + 81 * D) = KFree" "js_kind D (323 + 81 * D) = KFree" "js_kind D (350 + 81 * D) = KOut2"
  "js_kind D (377 + 81 * D) = KV2" "js_kind D (404 + 81 * D) = KFree" "js_kind D (431 + 81 * D) = KFree" "js_kind D (458 + 81 * D) = KPlain"
  by (simp_all add: js_kind_def)

lemma kind_level:
  assumes "l < D" "p < 81"
  shows "js_kind D (243 + 81 * l + p) =
    (if p = 26 then KLeft else if p = 53 then KRight else if p = 80 then (if l + 1 < D then KNode else KOut1) else KPlain)"
proof -
  define r where "r = 243 + 81 * l + p"
  have m: "(r - 243) mod 81 = p" "(r - 243) div 81 = l" using assms(2) by (simp_all add: r_def)
  have b: "243 \<le> r" "r < 243 + 81 * D" using assms by (simp_all add: r_def)
  then have n: "r \<noteq> 26 \<and> r \<noteq> 188" "r \<noteq> 134 \<and> r \<noteq> 215" "r \<noteq> 107" "r \<noteq> 80" "r \<noteq> 53" "r \<noteq> 161" "r \<noteq> 242" by simp_all
  have "(l < D - 1) = (l + 1 < D)" by linarith
  then show ?thesis unfolding r_def [symmetric] js_kind_def m using b n by (simp only: if_False if_True simp_thms de_Morgan_disj)
qed

lemma kind_after: "243 + 81 * D \<le> r \<Longrightarrow> js_kind D r \<noteq> KOut1" "351 + 81 * D \<le> r \<Longrightarrow> js_kind D r \<noteq> KOut2"
  by (auto simp: js_kind_def)

section \<open>The regions\<close>

lemma reg_own:
  assumes s: "js_satisfied HL T D tr" and D: "0 < D" and T: "511 + 81 * D \<le> T" and i: "sp_at tr 0 = (DOM_OWNER, ivVal HL)"
  shows "r < T \<Longrightarrow> 54 \<le> r \<Longrightarrow> tr ! r ! OWN = ownerOf HL (tr ! 0 ! NSK)" "hashed HL tr 54 [DOM_CM]"
proof -
  have "hashed HL tr 0 [DOM_OWNER]" by (simp add: hashed_def i sponge_start)
  then have "hashed HL tr (0 + 27) ([DOM_OWNER] @ [js_msg (js_kind D (0 + 26)) (tr ! (0 + 26)) (tr ! (0 + 27))])"
    using T by (intro block_absorb [OF s D]) (simp_all add: is_reset_def)
  then have h: "hashed HL tr 27 [DOM_OWNER, tr ! 0 ! NSK]" using sat_const [OF s, of NSK 26] T by (simp add: js_msg_def)
  have "fst (sp_out HL tr (27 + 26)) = hashn HL [DOM_OWNER, tr ! 0 ! NSK]" using T by (intro block_hash [OF s D _ _ h]) simp_all
  then have c: "tr ! (53 + 1) ! OWN = ownerOf HL (tr ! 0 ! NSK)" using sat_capture(2) [OF s D, of 53] T by (simp add: ownerOf_def)
  show "tr ! r ! OWN = ownerOf HL (tr ! 0 ! NSK)" if "r < T" "54 \<le> r"
  proof -
    have "js_kind D q \<noteq> KCm" if "54 \<le> q" for q using that by (auto simp: js_kind_def)
    then have "tr ! r ! OWN = tr ! 54 ! OWN"
      using that sat_capture(2) [OF s D] by (intro kept [of 54 r "\<lambda>r. tr ! r ! OWN"]) auto
    then show ?thesis using c by simp
  qed
  have "hashed HL tr (27 + 27) [js_dom (js_kind D (27 + 26))]" using T by (intro block_reset [OF s D]) (simp_all add: is_reset_def)
  then show "hashed HL tr 54 [DOM_CM]" by (simp add: js_dom_def)
qed

lemma reg_commit:
  assumes s: "js_satisfied HL T D tr" and D: "0 < D" and T: "511 + 81 * D \<le> T" and i: "sp_at tr 0 = (DOM_OWNER, ivVal HL)"
  shows "tr ! 162 ! CARRY = note_commit HL (tr ! 0 ! VIN) (ownerOf HL (tr ! 0 ! NSK)) (tr ! 0 ! RHO)" "hashed HL tr 162 [DOM_NF]"
proof -
  have "hashed HL tr (54 + 27) ([DOM_CM] @ [js_msg (js_kind D (54 + 26)) (tr ! (54 + 26)) (tr ! (54 + 27))])"
    using T reg_own(2) [OF assms] by (intro block_absorb [OF s D]) (simp_all add: is_reset_def)
  then have "hashed HL tr 81 [DOM_CM, tr ! 0 ! VIN]" using sat_const [OF s, of VIN 80] T by (simp add: js_msg_def)
  then have "hashed HL tr (81 + 27) ([DOM_CM, tr ! 0 ! VIN] @ [js_msg (js_kind D (81 + 26)) (tr ! (81 + 26)) (tr ! (81 + 27))])"
    using T by (intro block_absorb [OF s D]) (simp_all add: is_reset_def)
  then have "hashed HL tr 108 [DOM_CM, tr ! 0 ! VIN, ownerOf HL (tr ! 0 ! NSK)]" using reg_own(1) [OF assms, of 107] T by (simp add: js_msg_def)
  then have "hashed HL tr (108 + 27) ([DOM_CM, tr ! 0 ! VIN, ownerOf HL (tr ! 0 ! NSK)] @ [js_msg (js_kind D (108 + 26)) (tr ! (108 + 26)) (tr ! (108 + 27))])"
    using T by (intro block_absorb [OF s D]) (simp_all add: is_reset_def)
  then have h: "hashed HL tr 135 [DOM_CM, tr ! 0 ! VIN, ownerOf HL (tr ! 0 ! NSK), tr ! 0 ! RHO]"
    using sat_const [OF s, of RHO 134] T by (simp add: js_msg_def)
  have "fst (sp_out HL tr (135 + 26)) = hashn HL [DOM_CM, tr ! 0 ! VIN, ownerOf HL (tr ! 0 ! NSK), tr ! 0 ! RHO]"
    using T by (intro block_hash [OF s D _ _ h]) simp_all
  then show "tr ! 162 ! CARRY = note_commit HL (tr ! 0 ! VIN) (ownerOf HL (tr ! 0 ! NSK)) (tr ! 0 ! RHO)"
    using sat_capture(1) [OF s D, of 161] T by (simp add: note_commit_def)
  have "hashed HL tr (135 + 27) [js_dom (js_kind D (135 + 26))]" using T by (intro block_reset [OF s D]) (simp_all add: is_reset_def)
  then show "hashed HL tr 162 [DOM_NF]" by (simp add: js_dom_def)
qed

lemma reg_nullifier:
  assumes s: "js_satisfied HL T D tr" and D: "0 < D" and T: "511 + 81 * D \<le> T" and i: "sp_at tr 0 = (DOM_OWNER, ivVal HL)"
  shows "r < T \<Longrightarrow> 243 \<le> r \<Longrightarrow> tr ! r ! NFREG = nullifier HL (tr ! 0 ! NSK) (tr ! 0 ! RHO)" "hashed HL tr 243 [DOM_NODE]"
    "tr ! 243 ! CARRY = note_commit HL (tr ! 0 ! VIN) (ownerOf HL (tr ! 0 ! NSK)) (tr ! 0 ! RHO)"
proof -
  have "hashed HL tr (162 + 27) ([DOM_NF] @ [js_msg (js_kind D (162 + 26)) (tr ! (162 + 26)) (tr ! (162 + 27))])"
    using T reg_commit(2) [OF assms] by (intro block_absorb [OF s D]) (simp_all add: is_reset_def)
  then have "hashed HL tr 189 [DOM_NF, tr ! 0 ! NSK]" using sat_const [OF s, of NSK 188] T by (simp add: js_msg_def)
  then have "hashed HL tr (189 + 27) ([DOM_NF, tr ! 0 ! NSK] @ [js_msg (js_kind D (189 + 26)) (tr ! (189 + 26)) (tr ! (189 + 27))])"
    using T by (intro block_absorb [OF s D]) (simp_all add: is_reset_def)
  then have h: "hashed HL tr 216 [DOM_NF, tr ! 0 ! NSK, tr ! 0 ! RHO]" using sat_const [OF s, of RHO 215] T by (simp add: js_msg_def)
  have "fst (sp_out HL tr (216 + 26)) = hashn HL [DOM_NF, tr ! 0 ! NSK, tr ! 0 ! RHO]" using T by (intro block_hash [OF s D _ _ h]) simp_all
  then have c: "tr ! (242 + 1) ! NFREG = nullifier HL (tr ! 0 ! NSK) (tr ! 0 ! RHO)" using sat_capture(3) [OF s D, of 242] T by (simp add: nullifier_def)
  show "tr ! r ! NFREG = nullifier HL (tr ! 0 ! NSK) (tr ! 0 ! RHO)" if "r < T" "243 \<le> r"
  proof -
    have "js_kind D q \<noteq> KNode0" if "243 \<le> q" for q using that by (auto simp: js_kind_def)
    then have "tr ! r ! NFREG = tr ! 243 ! NFREG"
      using that sat_capture(3) [OF s D] by (intro kept [of 243 r "\<lambda>r. tr ! r ! NFREG"]) auto
    then show ?thesis using c by simp
  qed
  have "hashed HL tr (216 + 27) [js_dom (js_kind D (216 + 26))]" using T by (intro block_reset [OF s D]) (simp_all add: is_reset_def)
  then show "hashed HL tr 243 [DOM_NODE]" by (simp add: js_dom_def)
  have "tr ! 243 ! CARRY = tr ! 162 ! CARRY"
  proof (rule kept [of 162 243 "\<lambda>r. tr ! r ! CARRY"])
    fix q assume "162 \<le> q" "q < (243 :: nat)"
    then show "tr ! (q + 1) ! CARRY = tr ! q ! CARRY" using sat_capture(1) [OF s D, of q] T by (auto simp: js_kind_def)
  qed simp
  then show "tr ! 243 ! CARRY = note_commit HL (tr ! 0 ! VIN) (ownerOf HL (tr ! 0 ! NSK)) (tr ! 0 ! RHO)" using reg_commit(1) [OF assms] by simp
qed

section \<open>The path\<close>

lemma sat_dirbit:
  assumes "js_satisfied HL T D tr" "0 < D" "243 \<le> r" "r < 243 + 81 * D" "r + 1 < T"
  shows "tr ! r ! DIR \<in> {0, 1}"
proof -
  have rT: "r < T" using assms(5) by simp
  have "per_row HL T D r ! INMERK = 1"
    using assms(3,4) rT by (simp add: per_row_def periodic_def selectors bounds_eval in_merk_def js_layout)
  then show ?thesis
    using sat_con [OF assms(1,5) cons_in(15)] bit_field [OF sat_cell [OF assms(1) rT columns_less(6)]] by (simp add: c_dirbit_def f_mul_0_iff)
qed

lemma choose_side:
  assumes "tr ! r ! DIR \<in> {0, 1}" "fe (tr ! r ! CARRY)" "fe (tr ! r ! SIB)"
  shows "con_left (tr ! r) = (if tr ! r ! DIR = 0 then tr ! r ! CARRY else tr ! r ! SIB)"
    "con_right (tr ! r) = (if tr ! r ! DIR = 0 then tr ! r ! SIB else tr ! r ! CARRY)"
proof -
  have "f_add a (f_sub b a) = b mod FP" for a b by (simp add: field_mod mod_simps)
  then show "con_left (tr ! r) = (if tr ! r ! DIR = 0 then tr ! r ! CARRY else tr ! r ! SIB)"
    "con_right (tr ! r) = (if tr ! r ! DIR = 0 then tr ! r ! SIB else tr ! r ! CARRY)"
    using assms by (auto simp: con_left_def con_right_def)
qed

lemma reg_level:
  assumes s: "js_satisfied HL T D tr" and D: "0 < D" and T: "511 + 81 * D \<le> T" and l: "l < D" and h: "hashed HL tr (243 + 81 * l) [DOM_NODE]"
  defines "b \<equiv> 243 + 81 * l"
  defines "node \<equiv> path_step HL (tr ! b ! SIB, tr ! b ! DIR) (tr ! b ! CARRY)"
  shows "tr ! b ! DIR \<in> {0, 1}"
    "l + 1 < D \<Longrightarrow> tr ! (b + 81) ! CARRY = node \<and> hashed HL tr (b + 81) [DOM_NODE]"
    "l + 1 = D \<Longrightarrow> tr ! (b + 81) ! ROOTREG = node \<and> hashed HL tr (b + 81) [DOM_CM]"
proof -
  have bT: "b + 81 < T" "b mod 27 = 0" "(b + 27) mod 27 = 0" "(b + 54) mod 27 = 0" and bD: "b + 80 < 243 + 81 * D"
    using l T by (simp_all add: b_def mod_add_eq [symmetric])
  note k = kind_level [OF l, folded b_def]
  have same: "tr ! (b + p) ! CARRY = tr ! b ! CARRY \<and> tr ! (b + p) ! SIB = tr ! b ! SIB \<and> tr ! (b + p) ! DIR = tr ! b ! DIR" if "p \<le> 80" for p
    using that
  proof (induction p)
    case (Suc p)
    have r: "b + p + 1 < T" using Suc.prems bT by simp
    have kp: "js_kind D (b + p) \<notin> {KNf, KNode, KNode0}" using Suc.prems by (simp add: k)
    show ?case using sat_capture(1) [OF s D r] sat_path [OF s D r] kp Suc by (simp add: One_nat_def)
  qed simp
  have f: "fe (tr ! b ! CARRY)" "fe (tr ! b ! SIB)" using sat_cell [OF s, of b] bT columns_less by auto
  show d: "tr ! b ! DIR \<in> {0, 1}" using sat_dirbit [OF s D, of b] bT bD by (simp add: b_def)
  have ch: "con_left (tr ! (b + p)) = (if tr ! b ! DIR = 0 then tr ! b ! CARRY else tr ! b ! SIB)"
    "con_right (tr ! (b + p)) = (if tr ! b ! DIR = 0 then tr ! b ! SIB else tr ! b ! CARRY)" if "p \<le> 80" for p
    using choose_side [of tr "b + p"] same [OF that] d f by simp_all
  have h: "hashed HL tr b [DOM_NODE]" using h by (simp add: b_def)
  have "hashed HL tr (b + 27) ([DOM_NODE] @ [js_msg (js_kind D (b + 26)) (tr ! (b + 26)) (tr ! (b + 27))])"
    using bT h by (intro block_absorb [OF s D]) (simp_all add: is_reset_def k)
  then have h: "hashed HL tr (b + 27) [DOM_NODE, if tr ! b ! DIR = 0 then tr ! b ! CARRY else tr ! b ! SIB]"
    using ch [of 26] by (simp add: js_msg_def k)
  have e: "b + 27 + 26 = b + 53" "b + 27 + 27 = b + 54" "b + 54 + 26 = b + 80" "b + 54 + 27 = b + 81" "b + 80 + 1 = b + 81" by simp_all
  have "hashed HL tr (b + 27 + 27) ([DOM_NODE, if tr ! b ! DIR = 0 then tr ! b ! CARRY else tr ! b ! SIB] @
      [js_msg (js_kind D (b + 27 + 26)) (tr ! (b + 27 + 26)) (tr ! (b + 27 + 27))])"
    using bT h by (intro block_absorb [OF s D]) (simp_all add: is_reset_def k e)
  then have h: "hashed HL tr (b + 54) [DOM_NODE, if tr ! b ! DIR = 0 then tr ! b ! CARRY else tr ! b ! SIB,
      if tr ! b ! DIR = 0 then tr ! b ! SIB else tr ! b ! CARRY]"
    using ch [of 53] by (simp add: js_msg_def k e)
  have "fst (sp_out HL tr (b + 54 + 26)) = hashn HL [DOM_NODE, if tr ! b ! DIR = 0 then tr ! b ! CARRY else tr ! b ! SIB,
      if tr ! b ! DIR = 0 then tr ! b ! SIB else tr ! b ! CARRY]"
    using bT by (intro block_hash [OF s D _ _ h]) simp_all
  moreover have "js_rem (tr ! b ! SIB) FP = tr ! b ! SIB" using f(2) by (simp add: js_rem_def fe_def)
  ultimately have n: "fst (sp_out HL tr (b + 80)) = node"
    unfolding e by (simp add: node_def path_step_def merkleNode_def Let_def)
  have rs: "is_reset (js_kind D (b + 54 + 26))" unfolding e by (simp add: k is_reset_def)
  have "hashed HL tr (b + 54 + 27) [js_dom (js_kind D (b + 54 + 26))]" using bT rs by (intro block_reset [OF s D]) simp_all
  then have h: "hashed HL tr (b + 81) [js_dom (js_kind D (b + 80))]" unfolding e .
  have r: "b + 80 + 1 < T" using bT by simp
  show "tr ! (b + 81) ! CARRY = node \<and> hashed HL tr (b + 81) [DOM_NODE]" if "l + 1 < D"
    using sat_capture(1) [OF s D r] h n that unfolding e by (simp add: k js_dom_def)
  show "tr ! (b + 81) ! ROOTREG = node \<and> hashed HL tr (b + 81) [DOM_CM]" if "l + 1 = D"
    using sat_capture(4) [OF s D r] h n that unfolding e by (simp add: k js_dom_def)
qed

text \<open>The siblings and directions of the path, and its node at each height.\<close>

definition path_sibs :: "int list list \<Rightarrow> nat \<Rightarrow> int list" where "path_sibs tr D = map (\<lambda>l. tr ! (243 + 81 * l) ! SIB) [0..<D]"
definition path_dirs :: "int list list \<Rightarrow> nat \<Rightarrow> int list" where "path_dirs tr D = map (\<lambda>l. tr ! (243 + 81 * l) ! DIR) [0..<D]"

lemma path_fold: "fold (path_step HL) (zip (path_sibs tr (l + 1)) (path_dirs tr (l + 1))) cm =
    path_step HL (tr ! (243 + 81 * l) ! SIB, tr ! (243 + 81 * l) ! DIR) (fold (path_step HL) (zip (path_sibs tr l) (path_dirs tr l)) cm)"
  by (simp add: path_sibs_def path_dirs_def Suc_eq_plus1 [symmetric])

lemma reg_path:
  assumes s: "js_satisfied HL T D tr" and D: "0 < D" and T: "511 + 81 * D \<le> T" and i: "sp_at tr 0 = (DOM_OWNER, ivVal HL)"
  defines "cm \<equiv> note_commit HL (tr ! 0 ! VIN) (ownerOf HL (tr ! 0 ! NSK)) (tr ! 0 ! RHO)"
  shows "l < D \<Longrightarrow> tr ! (243 + 81 * l) ! CARRY = fold (path_step HL) (zip (path_sibs tr l) (path_dirs tr l)) cm \<and> hashed HL tr (243 + 81 * l) [DOM_NODE]"
    "set (path_dirs tr D) \<subseteq> {0, 1}"
    "tr ! (243 + 81 * D) ! ROOTREG = fold (path_step HL) (zip (path_sibs tr D) (path_dirs tr D)) cm" "hashed HL tr (243 + 81 * D) [DOM_CM]"
proof -
  have L: "tr ! (243 + 81 * l) ! CARRY = fold (path_step HL) (zip (path_sibs tr l) (path_dirs tr l)) cm \<and> hashed HL tr (243 + 81 * l) [DOM_NODE]"
    if "l < D" for l
    using that
  proof (induction l)
    case 0
    then show ?case using reg_nullifier(2,3) [OF s D T i] by (simp add: path_sibs_def path_dirs_def cm_def)
  next
    case (Suc l)
    have e: "243 + 81 * Suc l = 243 + 81 * l + 81" "Suc l = l + 1" by simp_all
    have IH: "tr ! (243 + 81 * l) ! CARRY = fold (path_step HL) (zip (path_sibs tr l) (path_dirs tr l)) cm" "hashed HL tr (243 + 81 * l) [DOM_NODE]"
      using Suc by simp_all
    have l: "l < D" "l + 1 < D" using Suc.prems by simp_all
    show ?case using reg_level(2) [OF s D T l(1) IH(2) l(2)] unfolding e(1) unfolding e(2) path_fold IH(1) by blast
  qed
  then show "l < D \<Longrightarrow> tr ! (243 + 81 * l) ! CARRY = fold (path_step HL) (zip (path_sibs tr l) (path_dirs tr l)) cm \<and> hashed HL tr (243 + 81 * l) [DOM_NODE]" .
  show "set (path_dirs tr D) \<subseteq> {0, 1}" 
    using reg_level(1) [OF s D T _ conjunct2 [OF L]] unfolding path_dirs_def by fastforce
  define l where "l = D - 1"
  have l: "l < D" "l + 1 = D" using D by (simp_all add: l_def)
  have e: "243 + 81 * l + 81 = 243 + 81 * D" using l(2) by simp
  show "tr ! (243 + 81 * D) ! ROOTREG = fold (path_step HL) (zip (path_sibs tr D) (path_dirs tr D)) cm" "hashed HL tr (243 + 81 * D) [DOM_CM]"
    using reg_level(3) [OF s D T l(1) _ l(2)] L [OF l(1)] path_fold [of HL tr l cm] unfolding e l(2) by simp_all
qed

section \<open>The outputs\<close>

lemma reg_outputs:
  assumes s: "js_satisfied HL T D tr" and D: "0 < D" and T: "511 + 81 * D \<le> T" and i: "sp_at tr 0 = (DOM_OWNER, ivVal HL)"
  shows "tr ! (459 + 81 * D) ! CMOUT1 = note_commit HL (tr ! 0 ! VOUT1) (tr ! (297 + 81 * D) ! AB) (tr ! (324 + 81 * D) ! AB)"
    "tr ! (459 + 81 * D) ! S0 = note_commit HL (tr ! 0 ! VOUT2) (tr ! (405 + 81 * D) ! AB) (tr ! (432 + 81 * D) ! AB)"
    "tr ! (351 + 81 * D) ! CMOUT1 = tr ! (459 + 81 * D) ! CMOUT1" "tr ! (459 + 81 * D) ! ROOTREG = tr ! (243 + 81 * D) ! ROOTREG"
proof -
  define b where "b = 243 + 81 * D"
  have T: "b + 268 \<le> T" using T by (simp add: b_def)
  have bm: "b mod 27 = 0" "(b + 27) mod 27 = 0" "(b + 54) mod 27 = 0" "(b + 81) mod 27 = 0" "(b + 108) mod 27 = 0" "(b + 135) mod 27 = 0"
      "(b + 162) mod 27 = 0" "(b + 189) mod 27 = 0"
    by (simp_all add: b_def mod_add_eq [symmetric])
  have k: "js_kind D (b + 26) = KV1" "js_kind D (b + 53) = KFree" "js_kind D (b + 80) = KFree" "js_kind D (b + 107) = KOut2"
      "js_kind D (b + 134) = KV2" "js_kind D (b + 161) = KFree" "js_kind D (b + 188) = KFree" "js_kind D (b + 215) = KPlain"
    using kind_ends(10-17) [of D] by (simp_all add: b_def add.commute add.left_commute)
  have n: "297 + 81 * D = b + 54" "324 + 81 * D = b + 81" "405 + 81 * D = b + 162" "432 + 81 * D = b + 189" "351 + 81 * D = b + 108" "459 + 81 * D = b + 216"
      "243 + 81 * D = b"
    by (simp_all add: b_def)
  have v: "tr ! (b + 26) ! VOUT1 = tr ! 0 ! VOUT1" "tr ! (b + 134) ! VOUT2 = tr ! 0 ! VOUT2"
    using sat_const [OF s, of VOUT1 "b + 26"] sat_const [OF s, of VOUT2 "b + 134"] T by simp_all
  have step: "hashed HL tr (c + 27) (els @ [js_msg (js_kind D (c + 26)) (tr ! (c + 26)) (tr ! (c + 27))])"
    if "c mod 27 = 0" "c + 27 < T" "hashed HL tr c els" "js_kind D (c + 26) \<in> {KV1, KV2, KFree}" for c els
    using that by (intro block_absorb [OF s D]) (auto simp: is_reset_def)
  have h: "hashed HL tr b [DOM_CM]" using reg_path(4) [OF s D _ i] T by (simp add: b_def)
  have h: "hashed HL tr (b + 27) [DOM_CM, tr ! 0 ! VOUT1]" using step [OF bm(1) _ h] T by (simp add: k js_msg_def v)
  have h: "hashed HL tr (b + 54) [DOM_CM, tr ! 0 ! VOUT1, tr ! (b + 54) ! AB]" using step [OF bm(2) _ h] T by (simp add: k js_msg_def add.assoc)
  have h: "hashed HL tr (b + 81) [DOM_CM, tr ! 0 ! VOUT1, tr ! (b + 54) ! AB, tr ! (b + 81) ! AB]"
    using step [OF bm(3) _ h] T by (simp add: k js_msg_def add.assoc)
  have "fst (sp_out HL tr (b + 81 + 26)) = note_commit HL (tr ! 0 ! VOUT1) (tr ! (b + 54) ! AB) (tr ! (b + 81) ! AB)"
    using T bm block_hash [OF s D _ _ h] by (simp add: note_commit_def)
  then have c: "tr ! (b + 108) ! CMOUT1 = note_commit HL (tr ! 0 ! VOUT1) (tr ! (b + 54) ! AB) (tr ! (b + 81) ! AB)"
    using sat_capture(5) [OF s D, of "b + 107"] T k by (simp add: add.assoc)
  have "tr ! (b + 216) ! CMOUT1 = tr ! (b + 108) ! CMOUT1"
  proof (rule kept [of "b + 108" "b + 216" "\<lambda>r. tr ! r ! CMOUT1"])
    fix q assume "b + 108 \<le> q" "q < b + 216"
    then show "tr ! (q + 1) ! CMOUT1 = tr ! q ! CMOUT1" using sat_capture(5) [OF s D, of q] kind_after(2) [of D q] T by (simp add: b_def)
  qed simp
  then show "tr ! (351 + 81 * D) ! CMOUT1 = tr ! (459 + 81 * D) ! CMOUT1"
    "tr ! (459 + 81 * D) ! CMOUT1 = note_commit HL (tr ! 0 ! VOUT1) (tr ! (297 + 81 * D) ! AB) (tr ! (324 + 81 * D) ! AB)"
    using c unfolding n by simp_all
  have "tr ! (b + 216) ! ROOTREG = tr ! b ! ROOTREG"
  proof (rule kept [of b "b + 216" "\<lambda>r. tr ! r ! ROOTREG"])
    fix q assume "b \<le> q" "q < b + 216"
    then show "tr ! (q + 1) ! ROOTREG = tr ! q ! ROOTREG" using sat_capture(4) [OF s D, of q] kind_after(1) [of D q] T by (simp add: b_def)
  qed simp
  then show "tr ! (459 + 81 * D) ! ROOTREG = tr ! (243 + 81 * D) ! ROOTREG" unfolding n .
  have "is_reset (js_kind D (b + 81 + 26))" using k by (simp add: add.assoc is_reset_def)
  then have h: "hashed HL tr (b + 108) [DOM_CM]" using block_reset [OF s D bm(4)] T k by (simp add: add.assoc js_dom_def)
  have h: "hashed HL tr (b + 135) [DOM_CM, tr ! 0 ! VOUT2]" using step [OF bm(5) _ h] T by (simp add: k js_msg_def v add.assoc)
  have h: "hashed HL tr (b + 162) [DOM_CM, tr ! 0 ! VOUT2, tr ! (b + 162) ! AB]" using step [OF bm(6) _ h] T by (simp add: k js_msg_def add.assoc)
  have h: "hashed HL tr (b + 189) [DOM_CM, tr ! 0 ! VOUT2, tr ! (b + 162) ! AB, tr ! (b + 189) ! AB]"
    using step [OF bm(7) _ h] T by (simp add: k js_msg_def add.assoc)
  have "fst (sp_out HL tr (b + 189 + 26)) = note_commit HL (tr ! 0 ! VOUT2) (tr ! (b + 162) ! AB) (tr ! (b + 189) ! AB)"
    using T bm block_hash [OF s D _ _ h] by (simp add: note_commit_def)
  moreover have "sp_at tr (b + 215 + 1) = sp_out HL tr (b + 215)"
    using sat_sponge [OF s D, of "b + 215"] T k by (simp add: js_msg_def is_reset_def Let_def prod_eq_iff)
  ultimately have "tr ! (b + 216) ! S0 = note_commit HL (tr ! 0 ! VOUT2) (tr ! (b + 162) ! AB) (tr ! (b + 189) ! AB)"
    by (simp add: sp_at_def add.assoc prod_eq_iff)
  then show "tr ! (459 + 81 * D) ! S0 = note_commit HL (tr ! 0 ! VOUT2) (tr ! (405 + 81 * D) ! AB) (tr ! (432 + 81 * D) ! AB)"
    unfolding n .
qed

section \<open>The range rows\<close>

lemma range_sel:
  assumes "r < T" "j < 3" "i < 17" "r = 459 + 81 * D + 17 * j + i"
  shows "per_row HL T D r ! RNG_ACC = sel (i < 16)" "per_row HL T D r ! RNG_START = sel (i = 0)"
    "per_row HL T D r ! RBIND_VIN = sel (j = 0 \<and> i = 16)" "per_row HL T D r ! RBIND_VOUT1 = sel (j = 1 \<and> i = 16)"
    "per_row HL T D r ! RBIND_VOUT2 = sel (j = 2 \<and> i = 16)"
proof -
  have m: "(r - (459 + 81 * D)) mod 17 = i" using assms(3,4) by simp
  have g: "459 + 81 * D \<le> r" "r < 510 + 81 * D" using assms by simp_all
  show "per_row HL T D r ! RNG_ACC = sel (i < 16)" "per_row HL T D r ! RNG_START = sel (i = 0)"
    using assms(1) m g by (simp_all add: per_row_def periodic_def selectors bounds_eval js_layout in_rng_def total_eval)
  have d: "j \<in> {0, 1, 2}" using assms(2) by auto
  have e: "(r = 459 + 81 * D + 16) = (j = 0 \<and> i = 16)" "(r = 459 + 81 * D + 17 + 16) = (j = 1 \<and> i = 16)" "(r = 459 + 81 * D + 34 + 16) = (j = 2 \<and> i = 16)"
    unfolding assms(4) using d assms(3) by (elim insertE emptyE; simp)+
  show "per_row HL T D r ! RBIND_VIN = sel (j = 0 \<and> i = 16)" "per_row HL T D r ! RBIND_VOUT1 = sel (j = 1 \<and> i = 16)"
    "per_row HL T D r ! RBIND_VOUT2 = sel (j = 2 \<and> i = 16)"
    using assms(1) e by (simp_all add: per_row_def periodic_def selectors bounds_eval js_layout)
qed

lemma sat_nibble:
  assumes s: "js_satisfied HL T D tr" and r: "r + 1 < T" and q: "per_row HL T D r ! RNG_ACC = 1"
  shows "\<exists>b0 b1 b2 b3. tr ! r ! RB0 = b0 \<and> tr ! r ! RB1 = b1 \<and> tr ! r ! RB2 = b2 \<and> tr ! r ! RB3 = b3 \<and> {b0, b1, b2, b3} \<subseteq> {0, 1} \<and>
    tr ! (r + 1) ! ACC = (16 * (tr ! r ! ACC) + (8 * b0 + 4 * b1 + 2 * b2 + b3)) mod FP"
proof -
  have rT: "r < T" using r by simp
  have b: "tr ! r ! reg \<in> {0, 1}" if "c_bit reg \<in> set (transitions HL)" "reg < 21" for reg
    using sat_con [OF s r that(1)] bit_field [OF sat_cell [OF s rT that(2)]] q by (simp add: c_bit_def f_mul_0_iff)
  have "tr ! (r + 1) ! ACC mod FP = f_add (f_mul 16 (tr ! r ! ACC)) (con_nib (tr ! r)) mod FP"
    using sat_con [OF s r cons_in(17)] q by (simp add: c_acc_def f_sub_0)
  moreover have "con_nib (tr ! r) = (8 * (tr ! r ! RB0) + 4 * (tr ! r ! RB1) + 2 * (tr ! r ! RB2) + tr ! r ! RB3) mod FP"
    by (rule con_nib_eq)
  ultimately have "tr ! (r + 1) ! ACC = (16 * (tr ! r ! ACC) + (8 * (tr ! r ! RB0) + 4 * (tr ! r ! RB1) + 2 * (tr ! r ! RB2) + tr ! r ! RB3)) mod FP"
    using sat_cell [OF s r columns_less(17)] by (simp add: field_mod mod_simps)
  then show ?thesis using b [OF cons_in(20)] b [OF cons_in(21)] b [OF cons_in(22)] b [OF cons_in(23)] columns_less by blast
qed

lemma range_block:
  assumes s: "js_satisfied HL T D tr" and T: "511 + 81 * D \<le> T" and j: "j < 3"
  defines "b \<equiv> 459 + 81 * D + 17 * j"
  shows "i < 16 \<Longrightarrow> 0 \<le> tr ! (b + i + 1) ! ACC \<and> tr ! (b + i + 1) ! ACC < 2 * 16 ^ i"
proof (induction i)
  case 0
  have r: "b + 1 < T" "b < T" using T j by (simp_all add: b_def)
  note q = range_sel [of b T j 0 D HL, OF r(2) j, unfolded b_def, simplified, folded b_def]
  obtain b0 b1 b2 b3 where n: "tr ! b ! RB0 = b0" "tr ! b ! RB1 = b1" "tr ! b ! RB2 = b2" "tr ! b ! RB3 = b3" "{b0, b1, b2, b3} \<subseteq> {0, 1}"
      "tr ! (b + 1) ! ACC = (16 * (tr ! b ! ACC) + (8 * b0 + 4 * b1 + 2 * b2 + b3)) mod FP"
    using sat_nibble [OF s r(1)] q by auto
  have a: "tr ! b ! ACC = 0"
    using sat_con [OF s r(1) cons_in(18)] sat_cell [OF s r(2) columns_less(17)] q by (simp add: c_accstart_def)
  have "f_add (f_add b0 b1) b2 = 0" using sat_con [OF s r(1) cons_in(19)] n q by (simp add: c_top_def)
  then have "(b0 + b1 + b2) mod FP = 0" by (simp add: field_mod mod_simps)
  moreover have "0 \<le> b0 + b1 + b2" "b0 + b1 + b2 < FP" using n(5) by (auto simp: FP_def)
  ultimately have "b0 + b1 + b2 = 0" by simp
  then have "b0 = 0" "b1 = 0" "b2 = 0" using n(5) by auto
  then show ?case using n(5,6) a by (auto simp: FP_def)
next
  case (Suc i)
  have r: "b + (i + 1) + 1 < T" "b + (i + 1) < T" using T j Suc.prems by (simp_all add: b_def)
  have "per_row HL T D (b + (i + 1)) ! RNG_ACC = sel (i + 1 < 16)"
    using Suc.prems by (intro range_sel(1) [OF r(2) j]) (simp_all add: b_def)
  then have q: "per_row HL T D (b + (i + 1)) ! RNG_ACC = 1" using Suc.prems by simp
  obtain b0 b1 b2 b3 where n: "{b0, b1, b2, b3} \<subseteq> {0, 1 :: int}"
      "tr ! (b + (i + 1) + 1) ! ACC = (16 * (tr ! (b + (i + 1)) ! ACC) + (8 * b0 + 4 * b1 + 2 * b2 + b3)) mod FP"
    using sat_nibble [OF s r(1) q] by auto
  have IH: "0 \<le> tr ! (b + i + 1) ! ACC" "tr ! (b + i + 1) ! ACC < 2 * 16 ^ i" using Suc by simp_all
  have bits: "0 \<le> 8 * b0 + 4 * b1 + 2 * b2 + b3" "8 * b0 + 4 * b1 + 2 * b2 + b3 \<le> 15" using n(1) by auto
  let ?x = "16 * (tr ! (b + (i + 1)) ! ACC) + (8 * b0 + 4 * b1 + 2 * b2 + b3)"
  have x: "0 \<le> ?x" "?x < 2 * 16 ^ Suc i" using IH bits by (simp_all add: add.assoc)
  have "(16 :: int) ^ Suc i \<le> 16 ^ 15" using Suc.prems by (intro power_increasing) simp_all
  then have "?x < FP" using x(2) by (simp add: FP_def)
  then have "tr ! (b + (i + 1) + 1) ! ACC = ?x" using n(2) x(1) by simp
  then show ?case using x by (simp add: add.assoc One_nat_def)
qed

lemma range_value:
  assumes s: "js_satisfied HL T D tr" and T: "511 + 81 * D \<le> T" and reg: "reg \<in> {VIN, VOUT1, VOUT2}"
  shows "0 \<le> tr ! 0 ! reg \<and> tr ! 0 ! reg < 2 ^ 61"
proof -
  obtain j q where j: "j < 3" "c_bind q reg \<in> set (transitions HL)"
      "\<And>r. r < T \<Longrightarrow> r = 459 + 81 * D + 17 * j + 16 \<Longrightarrow> per_row HL T D r ! q = 1"
  proof -
    consider "reg = VIN" | "reg = VOUT1" | "reg = VOUT2" using reg by blast
    then show thesis
    proof cases
      case 1
      then show ?thesis by (intro that [of 0 RBIND_VIN]) (use cons_in(24) in \<open>simp_all add: range_sel(3) [of _ T 0 16 D]\<close>)
    next
      case 2
      then show ?thesis by (intro that [of 1 RBIND_VOUT1]) (use cons_in(25) in \<open>simp_all add: range_sel(4) [of _ T 1 16 D]\<close>)
    next
      case 3
      then show ?thesis by (intro that [of 2 RBIND_VOUT2]) (use cons_in(26) in \<open>simp_all add: range_sel(5) [of _ T 2 16 D]\<close>)
    qed
  qed
  define r where "r = 459 + 81 * D + 17 * j + 16"
  have r: "r + 1 < T" "r < T" using T j(1) by (simp_all add: r_def)
  have l: "reg < 21" using reg columns_less by auto
  have "tr ! r ! ACC mod FP = tr ! r ! reg mod FP"
    using sat_con [OF s r(1) j(2)] j(3) [OF r(2)] by (simp add: c_bind_def f_sub_0 r_def)
  then have "tr ! r ! ACC = tr ! r ! reg" using sat_cell [OF s r(2)] l columns_less(17) by simp
  moreover have "tr ! r ! reg = tr ! 0 ! reg" using sat_const [OF s _ r(2)] reg by auto
  moreover have "0 \<le> tr ! r ! ACC \<and> tr ! r ! ACC < 2 * 16 ^ 15" using range_block [OF s T j(1), of 15] by (simp add: r_def add.assoc)
  ultimately show ?thesis by simp
qed

end
