(* ===== verification/JoinSplitTrace.thy ===== *)
theory JoinSplitTrace
  imports JoinSplitExtract
begin

text \<open>The prover's trace satisfies the constraints: the loop by kinds of rows, its invariant, the range rows.\<close>

unbundle bit_operations_syntax

declare One_nat_def [simp del]

section \<open>The loop by kinds\<close>

primrec js_at :: "(string list \<Rightarrow> string) \<Rightarrow> js_input \<Rightarrow> nat \<Rightarrow> nat \<Rightarrow> js_reg" where
  "js_at HL w D 0 = js_start HL"
| "js_at HL w D (Suc r) = js_step HL w D r (js_at HL w D r)"

lemma js_rows_nth:
  "i < k \<Longrightarrow> js_rows HL w D k r (js_at HL w D r) ! i = js_row w (js_at HL w D (r + i)) (rfill w (459 + 81 * D) (r + i))"
proof (induction k arbitrary: i r)
  case (Suc k)
  show ?case
  proof (cases i)
    case (Suc n)
    then show ?thesis using Suc.IH [of n "Suc r"] Suc.prems by (simp add: bounds_eval Suc_eq_plus1 [symmetric])
  qed (simp add: bounds_eval)
qed simp

lemma length_js_rows [simp]: "length (js_rows HL w D k r st) = k"
  by (induction k arbitrary: r st) simp_all

text \<open>The message that the loop absorbs.\<close>

definition free_msg :: "js_input \<Rightarrow> nat \<Rightarrow> nat \<Rightarrow> int" where
  "free_msg w D r = (if r = 296 + 81 * D then i_o1 w else if r = 323 + 81 * D then i_r1 w else if r = 404 + 81 * D then i_o2 w else i_r2 w)"

definition loop_msg :: "js_input \<Rightarrow> nat \<Rightarrow> nat \<Rightarrow> js_reg \<Rightarrow> int" where
  "loop_msg w D r st =
     (case js_kind D r of KNsk \<Rightarrow> i_nsk w | KRho \<Rightarrow> i_rho w | KOwn \<Rightarrow> j_own st | KVin \<Rightarrow> i_vin w | KV1 \<Rightarrow> i_v1 w | KV2 \<Rightarrow> i_v2 w
      | KFree \<Rightarrow> free_msg w D r
      | KLeft \<Rightarrow> f_add (j_carry st) (f_mul (j_dir st) (f_sub (j_sib st) (j_carry st)))
      | KRight \<Rightarrow> f_add (j_sib st) (f_mul (j_dir st) (f_sub (j_carry st) (j_sib st))) | _ \<Rightarrow> 0)"

text \<open>The registers written when a new hash starts.\<close>

definition loop_capture :: "js_input \<Rightarrow> row_kind \<Rightarrow> int \<Rightarrow> js_reg \<Rightarrow> js_reg" where
  "loop_capture w k x st =
     (case k of KCm \<Rightarrow> st\<lparr>j_own := x\<rparr> | KNf \<Rightarrow> st\<lparr>j_carry := x\<rparr>
      | KNode0 \<Rightarrow> st\<lparr>j_nf := x, j_sib := i_sibs w ! 0, j_dir := i_dirs w ! 0\<rparr>
      | KNode \<Rightarrow> st\<lparr>j_lvl := j_lvl st + 1, j_carry := x, j_sib := i_sibs w ! (j_lvl st + 1), j_dir := i_dirs w ! (j_lvl st + 1)\<rparr>
      | KOut1 \<Rightarrow> st\<lparr>j_lvl := j_lvl st + 1, j_root := x\<rparr> | KOut2 \<Rightarrow> st\<lparr>j_cm1 := x\<rparr> | _ \<Rightarrow> st)"

definition loop_round :: "(string list \<Rightarrow> string) \<Rightarrow> nat \<Rightarrow> js_reg \<Rightarrow> int \<times> int" where
  "loop_round HL r st = permute_round HL (r mod 27) (j_s0 st, j_s1 st)"

definition loop_next :: "(string list \<Rightarrow> string) \<Rightarrow> js_input \<Rightarrow> nat \<Rightarrow> nat \<Rightarrow> js_reg \<Rightarrow> js_reg" where
  "loop_next HL w D r st =
     (let rnd = loop_round HL r st; k = js_kind D r
      in if is_reset k then js_reset HL (js_dom k) (loop_capture w k (fst rnd) st)
         else if k = KPlain then js_plain rnd st else js_absorb rnd (loop_msg w D r st) st)"

lemma block_ends: "r < 27 * n \<Longrightarrow> r mod 27 = 26 \<Longrightarrow> \<exists>q < n. r = 27 * q + (26 :: nat)"
  by (intro exI [of _ "r div 27"]) (simp add: less_mult_imp_div_less mult.commute, metis mult.commute div_mult_mod_eq)

lemma step_before: "r < 243 \<Longrightarrow> js_step HL w D r st = loop_next HL w D r st"
proof (cases "r mod 27 = 26")
  case True
  assume "r < 243"
  then obtain q where q: "q < 9" "r = 27 * q + 26" using block_ends [of r 9] True by auto
  then have "q \<in> {0, 1, 2, 3, 4, 5, 6, 7, 8}" by auto
  then show ?thesis
    unfolding q(2)
    by (elim insertE emptyE; simp add: js_step_def bounds_eval js_layout js_round_eq loop_next_def loop_round_def is_reset_def loop_capture_def
        loop_msg_def js_dom_def)
next
  case False
  assume "r < 243"
  moreover have "r \<noteq> 53" "r \<noteq> 161" "r \<noteq> 242" using False by auto
  ultimately show ?thesis
    using False by (simp add: js_step_def bounds_eval js_layout js_round_eq loop_next_def loop_round_def is_reset_def kind_plain Let_def)
qed

lemma step_member:
  assumes "l < D" "p < 81" "j_lvl st = l"
  shows "js_step HL w D (243 + 81 * l + p) st = loop_next HL w D (243 + 81 * l + p) st"
proof -
  define r where "r = 243 + 81 * l + p"
  have m: "(r - 243) mod 81 = p" using assms(2) by (simp add: r_def)
  have "r = p + 27 * (9 + 3 * l)" by (simp add: r_def)
  then have m27: "r mod 27 = p mod 27" by (simp only: mod_mult_self2)
  have b: "243 \<le> r" "r < 243 + 81 * D" using assms by (simp_all add: r_def)
  note k = kind_level [OF assms(1,2), folded r_def]
  have s: "js_step HL w D r st = js_member HL w D r (loop_round HL r st) st"
    using b by (simp add: js_step_def bounds_eval js_layout js_round_eq loop_round_def)
  show ?thesis unfolding r_def [symmetric] s
  proof (cases "p mod 27 = 26")
    case True
    then obtain q where q: "q < 3" "p = 27 * q + 26" using block_ends [of p 3] assms(2) by auto
    then have "q \<in> {0, 1, 2}" by auto
    then have p: "p \<in> {26, 53, 80}" using q(2) by auto
    have kn: "(KNode \<in> {KCm, KNf, KNode0, KNode, KOut1, KOut2}) = True" by simp
    from p show "js_member HL w D r (loop_round HL r st) st = loop_next HL w D r st"
      by (elim insertE emptyE)
        (simp_all add: js_member_def js_layout m m27 k loop_next_def is_reset_def loop_msg_def loop_capture_def js_dom_def assms(3) Let_def)
  next
    case False
    then have "p \<noteq> 26" "p \<noteq> 53" "p \<noteq> 80" by auto
    then show "js_member HL w D r (loop_round HL r st) st = loop_next HL w D r st"
      using False by (simp add: js_member_def js_layout m m27 k loop_next_def is_reset_def Let_def)
  qed
qed

lemma ends_mod: "(26 + 27 * i + 243 + 81 * D) mod 27 = (26 :: nat)"
proof -
  have "26 + 27 * i + 243 + 81 * D = 26 + 27 * (i + 9 + 3 * D)" by simp
  then show ?thesis by (simp only: mod_mult_self2) simp
qed

lemmas after_mod = ends_mod [of 0, simplified] ends_mod [of 1, simplified] ends_mod [of 2, simplified] ends_mod [of 4, simplified]
  ends_mod [of 5, simplified] ends_mod [of 6, simplified]

lemma step_after:
  assumes "243 + 81 * D \<le> r"
  shows "js_step HL w D r st = loop_next HL w D r st"
proof (cases "r < 459 + 81 * D")
  case True
  define p where "p = r - (243 + 81 * D)"
  have r: "r = 243 + 81 * D + p" "p < 216" using assms True by (simp_all add: p_def)
  have "r = p + 27 * (9 + 3 * D)" using r(1) by simp
  then have m27: "r mod 27 = p mod 27" by (simp only: mod_mult_self2)
  show ?thesis
  proof (cases "p mod 27 = 26")
    case True
    then obtain q where q: "q < 8" "p = 27 * q + 26" using block_ends [of p 8] r(2) by auto
    then have "q \<in> {0, 1, 2, 3, 4, 5, 6, 7}" by auto
    then have "p \<in> {26, 53, 80, 107, 134, 161, 188, 215}" using q(2) by auto
    then show ?thesis
      unfolding r(1)
      by (elim insertE emptyE)
        (simp_all add: js_step_def bounds_eval js_layout js_round_eq loop_next_def loop_round_def js_kind_def is_reset_def loop_capture_def
          loop_msg_def js_dom_def free_msg_def Let_def after_mod)
  next
    case False
    then have "p \<noteq> 107" "r mod 27 \<noteq> 26" using m27 by auto
    then have "js_kind D r = KPlain" "r mod 27 \<noteq> 26" "r \<noteq> 350 + 81 * D" using r(1) by (simp_all add: kind_plain)
    then show ?thesis
      using assms True by (simp add: js_step_def bounds_eval js_layout js_round_eq loop_next_def loop_round_def is_reset_def Let_def)
  qed
next
  case False
  then have "js_kind D r = KPlain" by (simp add: js_kind_def)
  then show ?thesis
    using False by (simp add: js_step_def bounds_eval js_layout js_round_eq loop_next_def loop_round_def is_reset_def Let_def)
qed

section \<open>The invariant of the loop\<close>

definition input_ok :: "js_input \<Rightarrow> nat \<Rightarrow> bool" where
  "input_ok w D \<longleftrightarrow> (\<forall>x \<in> {i_nsk w, i_vin w, i_rho w, i_v1 w, i_o1 w, i_r1 w, i_v2 w, i_o2 w, i_r2 w}. fe x) \<and> 0 < D \<and>
     (\<forall>l < D. fe (i_sibs w ! l) \<and> i_dirs w ! l \<in> {0, 1}) \<and> (\<forall>x \<in> {i_vin w, i_v1 w, i_v2 w}. x < 2 ^ 61)"

definition level_of :: "nat \<Rightarrow> nat \<Rightarrow> nat" where "level_of D r = (if r < 243 then 0 else min D ((r - 243) div 81))"

definition regs_fe :: "js_reg \<Rightarrow> bool" where
  "regs_fe t \<longleftrightarrow> fe (j_s0 t) \<and> fe (j_s1 t) \<and> fe (j_ab t) \<and> fe (j_carry t) \<and> fe (j_sib t) \<and> fe (j_dir t) \<and> fe (j_own t) \<and>
     fe (j_nf t) \<and> fe (j_root t) \<and> fe (j_cm1 t)"

definition reg_ok :: "js_input \<Rightarrow> nat \<Rightarrow> nat \<Rightarrow> js_reg \<Rightarrow> bool" where
  "reg_ok w D r st \<longleftrightarrow>
     regs_fe st \<and> j_lvl st = level_of D r \<and>
     (243 \<le> r \<and> r < 243 + 81 * D \<longrightarrow> j_sib st = i_sibs w ! level_of D r \<and> j_dir st = i_dirs w ! level_of D r)"

lemma level_facts:
  assumes "l < D" "p < 81"
  shows "level_of D (243 + 81 * l + p) = l" "p < 80 \<Longrightarrow> level_of D (Suc (243 + 81 * l + p)) = l" "p = 80 \<Longrightarrow> level_of D (Suc (243 + 81 * l + p)) = l + 1"
proof -
  have "(81 * l + p) div 81 = l" "p < 80 \<Longrightarrow> (81 * l + (p + 1)) div 81 = l" "p = 80 \<Longrightarrow> (81 * l + (p + 1)) div 81 = l + 1" using assms(2) by simp_all
  then show "level_of D (243 + 81 * l + p) = l" "p < 80 \<Longrightarrow> level_of D (Suc (243 + 81 * l + p)) = l"
    "p = 80 \<Longrightarrow> level_of D (Suc (243 + 81 * l + p)) = l + 1"
    using assms(1) by (simp_all add: level_of_def Suc_eq_plus1 add.assoc)
qed

lemma level_after: "243 + 81 * D \<le> r \<Longrightarrow> level_of D r = D"
proof -
  assume "243 + 81 * D \<le> r"
  then have g: "81 * D \<le> r - 243" "243 \<le> r" by simp_all
  from div_le_mono [OF g(1), of 81] g(2) show ?thesis by (simp add: level_of_def)
qed

lemma kind_before: "r < 242 \<Longrightarrow> P KPlain \<Longrightarrow> P KNsk \<Longrightarrow> P KRho \<Longrightarrow> P KOwn \<Longrightarrow> P KVin \<Longrightarrow> P KCm \<Longrightarrow> P KNf \<Longrightarrow> P (js_kind D r)"
  by (simp add: js_kind_def)

lemma kind_behind: "243 + 81 * D \<le> r \<Longrightarrow> P KPlain \<Longrightarrow> P KV1 \<Longrightarrow> P KV2 \<Longrightarrow> P KFree \<Longrightarrow> P KOut2 \<Longrightarrow> P (js_kind D r)"
  by (simp add: js_kind_def)

lemma fe_loop_round [simp]: "fe (fst (loop_round HL r st))" "fe (snd (loop_round HL r st))"
  by (simp_all add: loop_round_def)

lemma step_is_next:
  assumes "reg_ok w D r st"
  shows "js_step HL w D r st = loop_next HL w D r st"
proof -
  consider "r < 243" | "243 \<le> r" "r < 243 + 81 * D" | "243 + 81 * D \<le> r" by linarith
  then show ?thesis
  proof cases
    case 2
    then obtain l p where l: "r = 243 + 81 * l + p" "p < 81" using level_position by blast
    have "l < D" using 2 l by simp
    then show ?thesis using assms level_facts(1) [of l D p] l(2) unfolding l(1) by (intro step_member) (simp_all add: reg_ok_def)
  qed (use step_before step_after in blast)+
qed

lemma fe_loop_msg: "input_ok w D \<Longrightarrow> reg_ok w D r st \<Longrightarrow> fe (loop_msg w D r st)"
  by (simp add: loop_msg_def free_msg_def input_ok_def reg_ok_def regs_fe_def split: row_kind.split)

lemma next_fe:
  assumes "input_ok w D" "reg_ok w D r st" "js_kind D r = KNode \<Longrightarrow> j_lvl st + 1 < D"
  shows "regs_fe (loop_next HL w D r st)"
proof -
  have d: "fe (i_sibs w ! l)" "fe (i_dirs w ! l)" if "l < D" for l using assms(1) that by (auto simp: input_ok_def)
  have D: "0 < D" using assms(1) by (simp add: input_ok_def)
  have m: "fe (loop_msg w D r st)" using fe_loop_msg assms(1,2) .
  have j: "fe (js_dom k)" for k by (simp add: js_dom_def split: row_kind.split)
  show ?thesis
    using assms(2,3) d m j D
    by (cases "js_kind D r") (simp_all add: regs_fe_def loop_next_def is_reset_def js_reset_def js_plain_def js_absorb_def loop_capture_def reg_ok_def Let_def)
qed

lemma reg_step:
  assumes w: "input_ok w D" and s: "reg_ok w D r st"
  shows "reg_ok w D (Suc r) (js_step HL w D r st)"
proof -
  have D: "0 < D" using w by (simp add: input_ok_def)
  consider "r < 242" | "r = 242" | "243 \<le> r" "r < 243 + 81 * D" | "243 + 81 * D \<le> r" by linarith
  then show ?thesis
  proof cases
    case 1
    then have k: "js_kind D r \<in> {KPlain, KNsk, KRho, KOwn, KVin, KCm, KNf}" by (rule kind_before) simp_all
    then have "regs_fe (loop_next HL w D r st)"
      using next_fe [OF w s] by auto
    moreover have "j_lvl (loop_next HL w D r st) = 0" using k s 1
      by (auto simp: loop_next_def is_reset_def js_reset_def js_plain_def js_absorb_def loop_capture_def reg_ok_def level_of_def Let_def)
    ultimately show ?thesis unfolding step_is_next [OF s] using 1 by (simp add: reg_ok_def level_of_def)
  next
    case 2
    then have k: "js_kind D r = KNode0" by (simp add: js_kind_def)
    then have "regs_fe (loop_next HL w D r st)"
      using next_fe [OF w s] by auto
    moreover have "j_lvl (loop_next HL w D r st) = 0" "j_sib (loop_next HL w D r st) = i_sibs w ! 0" "j_dir (loop_next HL w D r st) = i_dirs w ! 0"
      using k s 2 by (simp_all add: loop_next_def is_reset_def js_reset_def loop_capture_def reg_ok_def level_of_def Let_def)
    ultimately show ?thesis unfolding step_is_next [OF s] using 2 by (simp add: reg_ok_def level_of_def)
  next
    case 3
    then obtain l p where l: "r = 243 + 81 * l + p" "p < 81" using level_position by blast
    have lD: "l < D" using 3 l by simp
    note k = kind_level [OF lD l(2), folded l(1)] and v = level_facts [OF lD l(2), folded l(1)]
    have lv: "j_lvl st = l" "j_sib st = i_sibs w ! l" "j_dir st = i_dirs w ! l" using s 3 v(1) by (simp_all add: reg_ok_def)
    have f: "regs_fe (loop_next HL w D r st)"
      using next_fe [OF w s] k lv(1) by (auto split: if_splits)
    show ?thesis
    proof (cases "p = 80")
      case True
      then have n: "j_lvl (loop_next HL w D r st) = l + 1"
          "l + 1 < D \<Longrightarrow> j_sib (loop_next HL w D r st) = i_sibs w ! (l + 1) \<and> j_dir (loop_next HL w D r st) = i_dirs w ! (l + 1)"
        using k lv by (auto simp: loop_next_def is_reset_def js_reset_def loop_capture_def Let_def)
      have "Suc r < 243 + 81 * D \<Longrightarrow> l + 1 < D" using l True by simp
      then show ?thesis unfolding step_is_next [OF s] using f v(3) [OF True] n by (simp add: reg_ok_def)
    next
      case False
      then have q: "p < 80" using l(2) by simp
      have "js_kind D r \<in> {KLeft, KRight, KPlain}" using k False by simp
      then have n: "j_lvl (loop_next HL w D r st) = l" "j_sib (loop_next HL w D r st) = i_sibs w ! l" "j_dir (loop_next HL w D r st) = i_dirs w ! l"
        using lv by (auto simp: loop_next_def is_reset_def js_plain_def js_absorb_def Let_def)
      then show ?thesis unfolding step_is_next [OF s] using f v(2) [OF q] by (simp add: reg_ok_def)
    qed
  next
    case 4
    then have k: "js_kind D r \<in> {KPlain, KV1, KV2, KFree, KOut2}" by (rule kind_behind) simp_all
    then have "regs_fe (loop_next HL w D r st)"
      using next_fe [OF w s] by auto
    moreover have "j_lvl (loop_next HL w D r st) = D" using k s level_after [OF 4]
      by (auto simp: loop_next_def is_reset_def js_reset_def js_plain_def js_absorb_def loop_capture_def reg_ok_def Let_def)
    ultimately show ?thesis unfolding step_is_next [OF s] using 4 level_after [of D "Suc r"] by (simp add: reg_ok_def)
  qed
qed

lemma reg_at: "input_ok w D \<Longrightarrow> reg_ok w D r (js_at HL w D r)"
proof (induction r)
  case (Suc r)
  then show ?case using reg_step by simp
qed (simp add: reg_ok_def regs_fe_def js_start_def level_of_def)

end
