(* ===== verification/JoinSplitComplete.thy ===== *)
theory JoinSplitComplete
  imports JoinSplitTrace
begin

text \<open>The range rows of the prover's trace, and every constraint on every row of it.\<close>

unbundle bit_operations_syntax

declare One_nat_def [simp del]

section \<open>Range rows\<close>

lemma nibble_eq: "nibble val i = val div 16 ^ (15 - i) mod 16"
proof -
  have "(2 :: int) ^ (4 * (15 - i)) = 16 ^ (15 - i)" by (simp add: power_mult)
  moreover have "x AND 0xF = x mod 16" for x :: int
    using take_bit_eq_mask [of 4 x] by (simp add: take_bit_eq_mod mask_eq_exp_minus_1)
  ultimately show ?thesis by (simp add: nibble_def drop_bit_eq_div)
qed

lemma nibble_range: "0 \<le> nibble val i" "nibble val i < 16"
  by (simp_all add: nibble_eq)

lemma range_acc_eq:
  assumes "0 \<le> val" "val < 2 ^ 64"
  shows "i \<le> 16 \<Longrightarrow> range_acc val i = val div 16 ^ (16 - i)"
proof (induction i)
  case (Suc i)
  have e: "16 - i = Suc (15 - i)" "16 - Suc i = 15 - i" using Suc.prems by simp_all
  have "val div 16 ^ (16 - i) = val div 16 ^ (15 - i) div 16" unfolding e(1) power_Suc2 by (intro zdiv_zmult2_eq) simp
  then show ?case using Suc by (simp add: nibble_eq e(2))
qed (use assms in simp)

lemma range_acc_bounds:
  assumes "0 \<le> val" "val < 2 ^ 64" "i \<le> 16"
  shows "0 \<le> range_acc val i" "range_acc val i \<le> val" "range_acc val 16 = val"
proof -
  show "0 \<le> range_acc val i" "range_acc val 16 = val" using assms range_acc_eq [OF assms(1,2)] by (simp_all add: pos_imp_zdiv_nonneg_iff)
  have "val div 16 ^ (16 - i) \<le> val div 1" using assms(1) by (intro zdiv_mono2) simp_all
  then show "range_acc val i \<le> val" using range_acc_eq [OF assms] by simp
qed

definition nib_bits :: "int \<Rightarrow> int list" where
  "nib_bits nib = [drop_bit 3 nib AND 1, drop_bit 2 nib AND 1, drop_bit 1 nib AND 1, nib AND 1]"

lemma nib_bits_eq: "nib_bits nib = [nib div 8 mod 2, nib div 4 mod 2, nib div 2 mod 2, nib mod 2]"
  by (simp add: nib_bits_def drop_bit_eq_div and_one_eq)

lemma nib_recomposed:
  assumes "0 \<le> nib" "nib < 16"
  shows "8 * (nib div 8 mod 2) + 4 * (nib div 4 mod 2) + 2 * (nib div 2 mod 2) + nib mod 2 = (nib :: int)"
proof -
  have e: "nib div 4 = nib div 2 div 2" "nib div 8 = nib div 2 div 2 div 2" by (simp_all add: zdiv_zmult2_eq [symmetric])
  have "nib div 2 div 2 div 2 div 2 = nib div 16" by (simp add: zdiv_zmult2_eq [symmetric])
  then have z: "nib div 2 div 2 div 2 mod 2 = nib div 2 div 2 div 2" using assms by (simp add: div_mult_mod_eq [symmetric] minus_div_mult_eq_mod [symmetric])
  have s: "2 * (x div 2) + x mod 2 = x" for x :: int by simp
  show ?thesis unfolding e z using s [of nib] s [of "nib div 2"] s [of "nib div 2 div 2"] by linarith
qed

lemma length_range_rows [simp]: "length (range_rows val) = 17"
  by (simp add: range_rows_def js_layout)

lemma range_rows_nth:
  "i < 16 \<Longrightarrow> range_rows val ! i = range_acc val i # nib_bits (nibble val i)"
  "range_rows val ! 16 = [range_acc val 16, 0, 0, 0, 0]"
  by (simp_all add: range_rows_def js_layout nth_append nib_bits_def Let_def)

definition range_input :: "js_input \<Rightarrow> nat \<Rightarrow> int" where
  "range_input w j = (if j = 0 then i_vin w else if j = 1 then i_v1 w else i_v2 w)"

lemma rfill_range:
  assumes "j < 3" "i < 17"
  shows "rfill w b (b + 17 * j + i) = range_rows (range_input w j) ! i"
proof -
  have "j \<in> {0, 1, 2}" using assms(1) by auto
  then show ?thesis using assms(2)
    by (elim insertE emptyE) (simp_all add: rfill_def nth_append range_input_def)
qed

lemma rfill_other: "\<not> (b \<le> r \<and> r < b + 51) \<Longrightarrow> rfill w b r = [0, 0, 0, 0, 0]"
  by (auto simp: rfill_def)

lemma length_rfill: "length (rfill w b r) = 5"
proof (cases "b \<le> r \<and> r < b + 51")
  case True
  define j i where "j = (r - b) div 17" and "i = (r - b) mod 17"
  have q: "r = b + 17 * j + i" "j < 3" "i < 17" using True by (auto simp: j_def i_def less_mult_imp_div_less)
  show ?thesis unfolding q(1) rfill_range [OF q(2,3)] using q(3)
    by (cases "i = 16") (simp_all add: range_rows_nth nib_bits_def)
qed (simp add: rfill_other)

text \<open>A row of the range region is row \<open>i\<close> of the value \<open>j\<close>.\<close>

lemma range_position:
  "459 + 81 * D \<le> r \<Longrightarrow> r < 510 + 81 * D \<Longrightarrow> \<exists>j i. r = 459 + 81 * D + 17 * j + i \<and> j < 3 \<and> i < (17 :: nat)"
  by (rule exI [of _ "(r - (459 + 81 * D)) div 17"], rule exI [of _ "(r - (459 + 81 * D)) mod 17"]) (simp add: less_mult_imp_div_less)

section \<open>Cells of a row\<close>

lemma row_cells:
  "js_row w st rng ! S0 = j_s0 st" "js_row w st rng ! S1 = j_s1 st" "js_row w st rng ! AB = j_ab st" "js_row w st rng ! CARRY = j_carry st"
  "js_row w st rng ! SIB = j_sib st" "js_row w st rng ! DIR = j_dir st" "js_row w st rng ! NSK = i_nsk w" "js_row w st rng ! RHO = i_rho w"
  "js_row w st rng ! OWN = j_own st" "js_row w st rng ! NFREG = j_nf st" "js_row w st rng ! VIN = i_vin w" "js_row w st rng ! VOUT1 = i_v1 w"
  "js_row w st rng ! VOUT2 = i_v2 w" "js_row w st rng ! CONS = f_sub (f_sub (i_vin w) (i_v1 w)) (i_v2 w)" "js_row w st rng ! ROOTREG = j_root st"
  "js_row w st rng ! CMOUT1 = j_cm1 st" "js_row w st rng ! ACC = rng ! 0" "js_row w st rng ! RB0 = rng ! 1" "js_row w st rng ! RB1 = rng ! 2"
  "js_row w st rng ! RB2 = rng ! 3" "js_row w st rng ! RB3 = rng ! 4"
  by (simp_all add: js_row_def columns nth_append One_nat_def)

lemma second_cell: "(x # y # xs) ! 1 = y"
  by (simp add: One_nat_def)

lemma row_sides: "con_left (js_row w st rng) = f_add (j_carry st) (f_mul (j_dir st) (f_sub (j_sib st) (j_carry st)))"
  "con_right (js_row w st rng) = f_add (j_sib st) (f_mul (j_dir st) (f_sub (j_carry st) (j_sib st)))"
  by (simp_all add: con_left_def con_right_def row_cells)

lemma rfill_fe:
  assumes "input_ok w D"
  shows "x \<in> set (rfill w b r) \<Longrightarrow> fe x"
proof (cases "b \<le> r \<and> r < b + 51")
  case True
  assume x: "x \<in> set (rfill w b r)"
  define j i where "j = (r - b) div 17" and "i = (r - b) mod 17"
  have q: "r = b + 17 * j + i" "j < 3" "i < 17" using True by (auto simp: j_def i_def less_mult_imp_div_less)
  have v: "fe (range_input w j)" using assms by (simp add: input_ok_def range_input_def)
  then have v64: "0 \<le> range_input w j" "range_input w j < 2 ^ 64" by (simp_all add: fe_def FP_def)
  have "fe (range_acc (range_input w j) i)" using range_acc_bounds [OF v64, of i] v q(3) by (simp add: fe_def)
  moreover have "fe y" if "y \<in> set (nib_bits n)" for y n
  proof -
    have "y \<in> {0, 1}" using that by (auto simp: nib_bits_eq)
    then show ?thesis by auto
  qed
  ultimately show ?thesis using x q(3) unfolding q(1) rfill_range [OF q(2,3)]
    by (cases "i = 16") (auto simp: range_rows_nth)
qed (simp add: rfill_other)

lemma row_fe:
  assumes "input_ok w D" "reg_ok w D r st"
  shows "x \<in> set (js_row w st (rfill w b r)) \<Longrightarrow> fe x"
  using assms rfill_fe [OF assms(1)] by (auto simp: js_row_def input_ok_def reg_ok_def regs_fe_def)

section \<open>The constraints on the trace\<close>

lemma next_regs:
  assumes "is_reset k \<or> True" "k = js_kind D r" "t = loop_next HL w D r st" "rnd = loop_round HL r st"
  shows "j_s0 t = (if is_reset k then js_dom k else if k = KPlain then fst rnd else f_add (fst rnd) (loop_msg w D r st))"
    "j_s1 t = (if is_reset k then ivVal HL else snd rnd)"
    "j_ab t = (if is_reset k then js_dom k else if k = KPlain then j_ab st else loop_msg w D r st)"
    "j_carry t = (if k \<in> {KNf, KNode} then fst rnd else j_carry st)" "j_own t = (if k = KCm then fst rnd else j_own st)"
    "j_nf t = (if k = KNode0 then fst rnd else j_nf st)" "j_root t = (if k = KOut1 then fst rnd else j_root st)"
    "j_cm1 t = (if k = KOut2 then fst rnd else j_cm1 st)"
    "k \<notin> {KNode0, KNode} \<Longrightarrow> j_sib t = j_sib st \<and> j_dir t = j_dir st"
  unfolding assms(3,4) assms(2) [symmetric] loop_next_def
  by (cases k; simp add: assms(2) [symmetric] is_reset_def js_reset_def js_plain_def js_absorb_def loop_capture_def Let_def)+

text \<open>One step of the loop gives two rows that satisfy every constraint.\<close>

lemma step_constraints:
  assumes w: "input_ok w D" and s: "reg_ok w D r st" and T: "r + 1 < T" and c: "c \<in> set (transitions HL)"
  defines "cur \<equiv> js_row w st (rfill w (459 + 81 * D) r)"
  defines "nxt \<equiv> js_row w (js_step HL w D r st) (rfill w (459 + 81 * D) (r + 1))"
  defines "per \<equiv> per_row HL T D r"
  shows "c cur nxt per = 0"
proof -
  define t where "t = loop_next HL w D r st"
  define rnd where "rnd = loop_round HL r st"
  define k where "k = js_kind D r"
  have D: "0 < D" and rT: "r < T" using w T by (simp_all add: input_ok_def)
  note nx = next_regs [OF disjI2 [OF TrueI] k_def t_def rnd_def]
  have tt: "js_step HL w D r st = t" unfolding t_def by (rule step_is_next [OF s])
  have s': "reg_ok w D (Suc r) t" unfolding tt [symmetric] by (rule reg_step [OF w s])
  note cu = row_cells [of w st "rfill w (459 + 81 * D) r", folded cur_def] row_sides [of w st "rfill w (459 + 81 * D) r", folded cur_def]
  note nu = row_cells [of w t "rfill w (459 + 81 * D) (r + 1)", folded tt, folded nxt_def, unfolded tt]
  have f: "fe (j_s0 st)" "fe (j_s1 st)" "fe (j_ab st)" "fe (j_carry st)" "fe (j_sib st)" "fe (j_dir st)" "fe (j_own st)" "fe (j_nf st)"
      "fe (j_root st)" "fe (j_cm1 st)" "fe (j_s0 t)" "fe (j_s1 t)" "fe (j_ab t)" "fe (j_carry t)" "fe (j_sib t)" "fe (j_dir t)" "fe (j_own t)"
      "fe (j_nf t)" "fe (j_root t)" "fe (j_cm1 t)"
    using s s' by (simp_all add: reg_ok_def regs_fe_def)
  have fw: "fe (i_nsk w)" "fe (i_rho w)" "fe (i_vin w)" "fe (i_v1 w)" "fe (i_v2 w)" using w by (simp_all add: input_ok_def)
  have rd: "con_round cur per = rnd" unfolding per_def con_round_eq [OF rT] by (simp add: cu rnd_def loop_round_def)
  note sp = kind_sponge [OF D rT, of HL, folded per_def k_def]
  note cp = kind_capture [OF D rT, of HL, folded per_def k_def, unfolded capture_sel_def]
  have msg: "js_msg k cur nxt = loop_msg w D r st" if "\<not> is_reset k" "k \<noteq> KPlain"
    using that nx(3) by (cases k) (simp_all add: js_msg_def loop_msg_def k_def [symmetric] cu nu is_reset_def)
  have fm: "fe (js_msg k cur nxt)"
  proof (cases "is_reset k \<or> k = KPlain")
    case True
    then show ?thesis by (cases k) (simp_all add: js_msg_def is_reset_def)
  next
    case False
    then show ?thesis using msg fe_loop_msg [OF w s] by simp
  qed
  have pl: "js_msg KPlain cur nxt = 0" by (simp add: js_msg_def)
  have fr: "fe (fst rnd)" "fe (snd rnd)" by (simp_all add: rnd_def)
  have caps: "c_cap reg q cur nxt per = 0" if "per ! q = sel b" "fe (cur ! reg)" "fe (nxt ! reg)" "nxt ! reg = (if b then fst rnd else cur ! reg)"
    for reg q b
    using c_cap_iff [OF that(1,3,2), unfolded rd, OF fr(1)] that(4) by simp
  have paths: "c_path reg cur nxt per = 0" if "fe (cur ! reg)" "fe (nxt ! reg)" "k \<notin> {KNode0, KNode} \<Longrightarrow> nxt ! reg = cur ! reg" for reg
    using c_path_iff [OF sp that(2,1)] that(3) by blast
  have "c_s1 HL cur nxt per = 0"
    using c_s1_iff [OF sp _ fe_iv, of nxt cur, unfolded rd] f fr nx(2) by (simp add: nu)
  moreover have "c_s0 cur nxt per = 0"
    using c_s0_iff [OF sp, of nxt cur, unfolded rd] f fr nx(1) msg pl by (simp add: nu)
  moreover have "c_ab cur nxt per = 0"
    using c_ab_iff [OF sp _ _ fm] f nx(3) msg by (auto simp: nu cu)
  moreover have "c_cap CARRY CAPCARRY cur nxt per = 0" using cp nx(4) f by (intro caps [where b = "k \<in> {KNf, KNode}"]) (simp_all only: cu nu)
  moreover have "c_cap OWN CAPOWN cur nxt per = 0" using cp nx(5) f by (intro caps [where b = "k = KCm"]) (simp_all only: cu nu)
  moreover have "c_cap NFREG CAPNF cur nxt per = 0" using cp nx(6) f by (intro caps [where b = "k = KNode0"]) (simp_all only: cu nu)
  moreover have "c_cap ROOTREG CAPROOT cur nxt per = 0" using cp nx(7) f by (intro caps [where b = "k = KOut1"]) (simp_all only: cu nu)
  moreover have "c_cap CMOUT1 CAPCM1 cur nxt per = 0" using cp nx(8) f by (intro caps [where b = "k = KOut2"]) (simp_all only: cu nu)
  moreover have "c_hold NSK cur nxt per = 0" "c_hold RHO cur nxt per = 0" "c_hold VIN cur nxt per = 0" "c_hold VOUT1 cur nxt per = 0" "c_hold VOUT2 cur nxt per = 0"
    using fw by (simp_all add: c_hold_iff cu nu)
  moreover have "c_path SIB cur nxt per = 0" "c_path DIR cur nxt per = 0" using nx(9) f by (intro paths; simp add: cu nu)+
  moreover have "c_dirbit cur nxt per = 0"
  proof (cases "243 \<le> r \<and> r < 243 + 81 * D")
    case True
    then obtain l p where l: "r = 243 + 81 * l + p" "p < 81" using level_position by blast
    have "l < D" using True l by simp
    then have "j_dir st \<in> {0, 1}" using s True level_facts(1) [of l D p] l w by (simp add: reg_ok_def input_ok_def)
    then show ?thesis using bit_field [OF f(6)] by (simp add: c_dirbit_def cu)
  next
    case False
    then have "per ! INMERK = 0" using rT by (simp add: per_def per_row_def periodic_def selectors bounds_eval in_merk_def js_layout sel_def)
    then show ?thesis by (simp add: c_dirbit_def)
  qed
  moreover have "c_cons cur nxt per = 0" by (simp add: c_cons_def cu f_sub_0)
  moreover have "c_acc cur nxt per = 0 \<and> c_accstart cur nxt per = 0 \<and> c_top cur nxt per = 0 \<and> (\<forall>reg \<in> {RB0, RB1, RB2, RB3}. c_bit reg cur nxt per = 0) \<and>
      c_bind RBIND_VIN VIN cur nxt per = 0 \<and> c_bind RBIND_VOUT1 VOUT1 cur nxt per = 0 \<and> c_bind RBIND_VOUT2 VOUT2 cur nxt per = 0"
  proof (cases "459 + 81 * D \<le> r \<and> r < 510 + 81 * D")
    case True
    then obtain j i where q: "r = 459 + 81 * D + 17 * j + i" "j < 3" "i < 17" using range_position by blast
    note se = range_sel [OF rT q(2,3,1), of HL, folded per_def]
    define v where "v = range_input w j"
    have v: "0 \<le> v" "v < 2 ^ 61" using w by (simp_all add: v_def input_ok_def range_input_def fe_def)
    then have v64: "0 \<le> v" "v < 2 ^ 64" by simp_all
    have row: "rfill w (459 + 81 * D) r = range_rows v ! i" unfolding q(1) v_def by (rule rfill_range [OF q(2,3)])
    show ?thesis
    proof (cases "i = 16")
      case True
      have "range_acc v 16 = v" using range_acc_bounds(3) [OF v64, of 0] by simp
      moreover have "j \<in> {0, 1, 2}" using q(2) by auto
      ultimately show ?thesis
        using se True by (auto simp: c_acc_def c_accstart_def c_top_def c_bit_def c_bind_def cu row range_rows_nth v_def range_input_def f_sub_0)
    next
      case False
      then have i: "i < 16" using q(3) by simp
      have "rfill w (459 + 81 * D) (r + 1) = range_rows v ! (i + 1)" unfolding v_def
        using rfill_range [OF q(2), of "i + 1" w "459 + 81 * D"] i by (simp add: q(1) add.assoc)
      then have a: "rfill w (459 + 81 * D) (r + 1) ! 0 = range_acc v (i + 1)"
        using i by (cases "i + 1 = 16") (simp_all add: range_rows_nth)
      define n where "n = nibble v i"
      have n: "0 \<le> n" "n < 16" by (simp_all add: n_def nibble_range)
      have b: "cur ! RB0 = n div 8 mod 2" "cur ! RB1 = n div 4 mod 2" "cur ! RB2 = n div 2 mod 2" "cur ! RB3 = n mod 2" "cur ! ACC = range_acc v i"
        using i by (simp_all add: cu row range_rows_nth nib_bits_eq n_def [symmetric] second_cell)
      have "con_nib cur = n mod FP" unfolding con_nib_eq b nib_recomposed [OF n] ..
      moreover have "range_acc v (i + 1) = 16 * range_acc v i + n" by (simp add: n_def Suc_eq_plus1 [symmetric])
      ultimately have acc: "c_acc cur nxt per = 0" by (simp add: c_acc_def nu a b(5) f_sub_0 field_mod mod_simps)
      have st: "i = 0 \<Longrightarrow> range_acc v i = 0 \<and> n div 8 mod 2 = 0 \<and> n div 4 mod 2 = 0 \<and> n div 2 mod 2 = 0"
      proof -
        assume z: "i = 0"
        have "v div 16 ^ 15 < 2" using v by (simp add: div_less_iff_less_mult)
        moreover have "0 \<le> v div 16 ^ 15" using v by (simp add: pos_imp_zdiv_nonneg_iff)
        ultimately have "v div 16 ^ 15 \<in> {0, 1}" by auto
        then have "n \<in> {0, 1}" by (auto simp: n_def nibble_eq z)
        then show ?thesis using z by auto
      qed
      have two: "x mod 2 = 0 \<or> x mod 2 = 1" for x :: int by linarith
      have bits: "f_mul (cur ! reg) (f_sub 1 (cur ! reg)) = 0" if "reg \<in> {RB0, RB1, RB2, RB3}" for reg
      proof -
        have "\<exists>x. cur ! reg = x mod 2" using that b(1-4) by blast
        then have "cur ! reg = 0 \<or> cur ! reg = 1" using two by metis
        then show ?thesis by (elim disjE) simp_all
      qed
      have "c_accstart cur nxt per = 0"
        unfolding c_accstart_def se(2) b(5) using st by (cases "i = 0") (simp_all only: sel_simps simp_thms field_units)
      moreover have "c_top cur nxt per = 0"
        unfolding c_top_def se(2) b(1-3) using st by (cases "i = 0") (simp_all only: sel_simps simp_thms field_units mod_0)
      moreover have "\<forall>reg \<in> {RB0, RB1, RB2, RB3}. c_bit reg cur nxt per = 0" unfolding c_bit_def using bits field_units(2) by metis
      moreover have "c_bind RBIND_VIN VIN cur nxt per = 0" "c_bind RBIND_VOUT1 VOUT1 cur nxt per = 0" "c_bind RBIND_VOUT2 VOUT2 cur nxt per = 0"
        unfolding c_bind_def se(3-5) using False by (simp_all only: simp_thms sel_simps field_units)
      ultimately show ?thesis using acc by blast
    qed
  next
    case False
    then have z: "per ! RNG_ACC = 0" "per ! RNG_START = 0" "per ! RBIND_VIN = 0" "per ! RBIND_VOUT1 = 0" "per ! RBIND_VOUT2 = 0"
      using rT by (auto simp: per_def per_row_def periodic_def selectors bounds_eval js_layout in_rng_def total_eval sel_def)
    then show ?thesis by (simp add: c_acc_def c_accstart_def c_top_def c_bit_def c_bind_def)
  qed
  ultimately show ?thesis using c by (auto simp: transitions_def)
qed

section \<open>The whole trace\<close>

lemma pow2_from_ge: "0 < T \<Longrightarrow> n \<le> pow2_from n T"
  by (induction n T rule: pow2_from.induct) (subst pow2_from.simps, auto)

lemma trace_satisfied:
  assumes w: "input_ok w D" and T: "511 + 81 * D \<le> T"
  shows "js_satisfied HL T D (js_rows HL w D T 0 (js_start HL))"
proof -
  have row: "js_rows HL w D T 0 (js_start HL) ! r = js_row w (js_at HL w D r) (rfill w (459 + 81 * D) r)" if "r < T" for r
    using js_rows_nth [of r T HL w D 0] that by simp
  have ok: "length x = 21 \<and> (\<forall>y \<in> set x. fe y)" if x: "x \<in> set (js_rows HL w D T 0 (js_start HL))" for x
  proof -
    obtain r where "r < T" "x = js_rows HL w D T 0 (js_start HL) ! r" using x unfolding in_set_conv_nth length_js_rows by blast
    then have "x = js_row w (js_at HL w D r) (rfill w (459 + 81 * D) r)" using row by simp
    moreover have "length (js_row w st (rfill w b q)) = 21" for st b q by (simp add: js_row_def length_rfill)
    ultimately show ?thesis using row_fe [OF w reg_at [OF w]] by blast
  qed
  have "c (js_rows HL w D T 0 (js_start HL) ! r) (js_rows HL w D T 0 (js_start HL) ! (r + 1)) (per_row HL T D r) = 0"
    if "r + 1 < T" "c \<in> set (transitions HL)" for r c
  proof -
    have r: "r < T" using that by simp
    have "js_at HL w D (r + 1) = js_step HL w D r (js_at HL w D r)" by (simp add: Suc_eq_plus1 [symmetric])
    then show ?thesis using step_constraints [OF w reg_at [OF w] that] row [OF r] row [OF that(1)] by simp
  qed
  then show ?thesis using ok unfolding js_satisfied_def by simp
qed

text \<open>What the extraction finds in the prover's trace: the siblings and directions of the input, and its keys.\<close>

lemma trace_path:
  assumes w: "input_ok w D" and T: "511 + 81 * D \<le> T"
  shows "path_sibs (js_rows HL w D T 0 (js_start HL)) D = map (\<lambda>l. i_sibs w ! l) [0..<D]"
    "path_dirs (js_rows HL w D T 0 (js_start HL)) D = map (\<lambda>l. i_dirs w ! l) [0..<D]"
proof -
  have c: "js_rows HL w D T 0 (js_start HL) ! (243 + 81 * l) ! SIB = i_sibs w ! l"
    "js_rows HL w D T 0 (js_start HL) ! (243 + 81 * l) ! DIR = i_dirs w ! l" if "l < D" for l
  proof -
    have "243 + 81 * l < T" using that T by simp
    then have "js_rows HL w D T 0 (js_start HL) ! (243 + 81 * l) =
        js_row w (js_at HL w D (243 + 81 * l)) (rfill w (459 + 81 * D) (243 + 81 * l))"
      using js_rows_nth [of "243 + 81 * l" T HL w D 0] by simp
    moreover have "j_sib (js_at HL w D (243 + 81 * l)) = i_sibs w ! l \<and> j_dir (js_at HL w D (243 + 81 * l)) = i_dirs w ! l"
      using reg_at [OF w, of "243 + 81 * l" HL] level_facts(1) [OF that, of 0] that by (simp add: reg_ok_def)
    ultimately show "js_rows HL w D T 0 (js_start HL) ! (243 + 81 * l) ! SIB = i_sibs w ! l"
      "js_rows HL w D T 0 (js_start HL) ! (243 + 81 * l) ! DIR = i_dirs w ! l" by (simp_all add: row_cells)
  qed
  then show "path_sibs (js_rows HL w D T 0 (js_start HL)) D = map (\<lambda>l. i_sibs w ! l) [0..<D]"
    "path_dirs (js_rows HL w D T 0 (js_start HL)) D = map (\<lambda>l. i_dirs w ! l) [0..<D]"
    by (simp_all add: path_sibs_def path_dirs_def)
qed

lemma trace_free:
  assumes w: "input_ok w D" and r: "js_kind D r = KFree" "r + 1 < T"
  shows "js_rows HL w D T 0 (js_start HL) ! (r + 1) ! AB = free_msg w D r"
proof -
  have "js_rows HL w D T 0 (js_start HL) ! (r + 1) = js_row w (js_at HL w D (r + 1)) (rfill w (459 + 81 * D) (r + 1))"
    using js_rows_nth [of "r + 1" T HL w D 0] r(2) by simp
  moreover have "js_at HL w D (r + 1) = loop_next HL w D r (js_at HL w D r)"
    using step_is_next [OF reg_at [OF w]] by (simp add: Suc_eq_plus1 [symmetric])
  ultimately show ?thesis
    by (simp add: row_cells loop_next_def is_reset_def r(1) js_absorb_def loop_msg_def Let_def)
qed

end
