(* ===== verification/JoinSplitProperties.thy ===== *)
theory JoinSplitProperties
  imports JoinSplitComplete
begin

text \<open>The properties of the join-split circuit.\<close>

declare One_nat_def [simp del]

lemma total_rows: "511 + 81 * D \<le> pow2_from (totalRows D + 1) 1"
  using pow2_from_ge [of 1 "totalRows D + 1"] by (simp add: total_eval)

text \<open>What a satisfied trace contains.\<close>

lemma extracted:
  assumes s: "js_satisfied HL T D tr" and D: "0 < D" and T: "T = pow2_from (totalRows D + 1) 1" and i: "sp_at tr 0 = (DOM_OWNER, ivVal HL)"
  shows "tr ! (459 + 81 * D) ! ROOTREG = jp_root (transfer HL (tr ! 0 ! NSK) (tr ! 0 ! VIN) (tr ! 0 ! RHO) (path_sibs tr D) (path_dirs tr D) v1 o1 r1 v2 o2 r2)"
    "tr ! (459 + 81 * D) ! NFREG = jp_nf (transfer HL (tr ! 0 ! NSK) vin (tr ! 0 ! RHO) sibs dirs v1 o1 r1 v2 o2 r2)"
    "tr ! (459 + 81 * D) ! CMOUT1 = note_commit HL (tr ! 0 ! VOUT1) (tr ! (297 + 81 * D) ! AB) (tr ! (324 + 81 * D) ! AB)"
    "tr ! (459 + 81 * D) ! S0 = note_commit HL (tr ! 0 ! VOUT2) (tr ! (405 + 81 * D) ! AB) (tr ! (432 + 81 * D) ! AB)"
proof -
  have T: "511 + 81 * D \<le> T" unfolding T by (rule total_rows)
  have l: "length (path_dirs tr D) = length (path_sibs tr D)" by (simp add: path_sibs_def path_dirs_def)
  show "tr ! (459 + 81 * D) ! ROOTREG = jp_root (transfer HL (tr ! 0 ! NSK) (tr ! 0 ! VIN) (tr ! 0 ! RHO) (path_sibs tr D) (path_dirs tr D) v1 o1 r1 v2 o2 r2)"
    using reg_path(3) [OF s D T i] reg_outputs(4) [OF s D T i] by (simp add: transfer_def Let_def l)
  show "tr ! (459 + 81 * D) ! NFREG = jp_nf (transfer HL (tr ! 0 ! NSK) vin (tr ! 0 ! RHO) sibs dirs v1 o1 r1 v2 o2 r2)"
    using reg_nullifier(1) [OF s D T i, of "459 + 81 * D"] T by (simp add: transfer_def Let_def)
  show "tr ! (459 + 81 * D) ! CMOUT1 = note_commit HL (tr ! 0 ! VOUT1) (tr ! (297 + 81 * D) ! AB) (tr ! (324 + 81 * D) ! AB)"
    "tr ! (459 + 81 * D) ! S0 = note_commit HL (tr ! 0 ! VOUT2) (tr ! (405 + 81 * D) ! AB) (tr ! (432 + 81 * D) ! AB)"
    using reg_outputs(1,2) [OF s D T i] .
qed

text \<open>Values below \<open>2 ^ 61\<close> that balance in the field balance as integers.\<close>

lemma integer_balance:
  fixes a b c p q :: int
  assumes "(a - b - c) mod FP = (q - p) mod FP" "a \<in> {0..<2 ^ 61}" "b \<in> {0..<2 ^ 61}" "c \<in> {0..<2 ^ 61}" "\<bar>p\<bar> \<le> 2 ^ 61" "0 \<le> q" "q \<le> 2 ^ 61"
  shows "a + p = b + c + q"
proof -
  have "FP dvd (a - b - c) - (q - p)" using assms(1) by (simp add: mod_eq_dvd_iff)
  then obtain k where k: "(a - b - c) - (q - p) = FP * k" by (elim dvdE)
  have "- FP < (a - b - c) - (q - p)" "(a - b - c) - (q - p) < FP" using assms(2-7) by (simp_all add: FP_def abs_le_iff)
  then have "\<bar>FP * k\<bar> < FP" unfolding k by (simp add: abs_less_iff)
  then have "k = 0" by (simp add: abs_mult FP_def)
  then show ?thesis using k by simp
qed

text \<open>C39: The constraints are sound. A trace over the field that satisfies every constraint on all pairs of consecutive
  rows, with the boundaries the wallet and the node set, contains a witness of the transfer, in its own
  cells: the key, the value and the randomness of the input note and the values of the outputs stand in
  the first row, the path in the first row of each level's hash, and owner and randomness of the outputs
  in the rows that absorb them. With them the root, the nullifier and the two commitments the trace
  shows are the reference evaluation's, and the values are below \<open>2 ^ 61\<close> and balance as
  integers, not only in the field.\<close>

theorem join_split_sound:
  assumes "js_satisfied HL T D tr" "0 < D" "T = pow2_from (totalRows D + 1) 1" "spongeEnd = snd (snd (bounds D))"
    and "tr ! 0 ! S0 = DOM_OWNER" "tr ! 0 ! S1 = ivVal HL" "tr ! 0 ! CONS = f_sub fee publicValue"
    and "0 \<le> fee" "fee \<le> 2 ^ 61" "\<bar>publicValue\<bar> \<le> 2 ^ 61"
  shows "let nsk = tr ! 0 ! NSK; vIn = tr ! 0 ! VIN; rho = tr ! 0 ! RHO; v1 = tr ! 0 ! VOUT1; v2 = tr ! 0 ! VOUT2;
      sibs = map (\<lambda>l. tr ! (243 + 81 * l) ! SIB) [0..<D]; dirs = map (\<lambda>l. tr ! (243 + 81 * l) ! DIR) [0..<D];
      o1 = tr ! (297 + 81 * D) ! AB; r1 = tr ! (324 + 81 * D) ! AB; o2 = tr ! (405 + 81 * D) ! AB; r2 = tr ! (432 + 81 * D) ! AB;
      p = transfer HL nsk vIn rho sibs dirs v1 o1 r1 v2 o2 r2
    in set dirs \<subseteq> {0, 1} \<and> {vIn, v1, v2} \<subseteq> {0..<2 ^ 61} \<and> vIn + publicValue = v1 + v2 + fee \<and>
       jp_root p = tr ! spongeEnd ! ROOTREG \<and> jp_nf p = tr ! spongeEnd ! NFREG \<and> jp_cm1 p = tr ! spongeEnd ! CMOUT1 \<and>
       jp_cm2 p = tr ! spongeEnd ! S0"
proof -
  have i: "sp_at tr 0 = (DOM_OWNER, ivVal HL)" using assms(5,6) by (simp add: sp_at_def)
  have T: "511 + 81 * D \<le> T" unfolding assms(3) by (rule total_rows)
  note e = extracted [OF assms(1-3) i]
  have se: "spongeEnd = 459 + 81 * D" unfolding assms(4) by (simp add: bounds_eval)
  have v: "tr ! 0 ! VIN \<in> {0..<2 ^ 61}" "tr ! 0 ! VOUT1 \<in> {0..<2 ^ 61}" "tr ! 0 ! VOUT2 \<in> {0..<2 ^ 61}"
    using range_value [OF assms(1) T, of VIN] range_value [OF assms(1) T, of VOUT1] range_value [OF assms(1) T, of VOUT2] by auto
  have r: "0 + 1 < T" "0 < T" using T by simp_all
  have "tr ! 0 ! CONS = f_sub (f_sub (tr ! 0 ! VIN) (tr ! 0 ! VOUT1)) (tr ! 0 ! VOUT2)"
    using sat_con [OF assms(1) r(1) cons_in(16)] sat_cell [OF assms(1) r(2) columns_less(14)] by (simp add: c_cons_def f_sub_0)
  then have "(tr ! 0 ! VIN - tr ! 0 ! VOUT1 - tr ! 0 ! VOUT2) mod FP = (fee - publicValue) mod FP"
    unfolding assms(7) by (simp add: field_mod mod_simps)
  then have b: "tr ! 0 ! VIN + publicValue = tr ! 0 ! VOUT1 + tr ! 0 ! VOUT2 + fee"
    using v assms(8-10) by (intro integer_balance)
  have "let p = transfer HL (tr ! 0 ! NSK) (tr ! 0 ! VIN) (tr ! 0 ! RHO) (path_sibs tr D) (path_dirs tr D)
          (tr ! 0 ! VOUT1) (tr ! (297 + 81 * D) ! AB) (tr ! (324 + 81 * D) ! AB) (tr ! 0 ! VOUT2) (tr ! (405 + 81 * D) ! AB) (tr ! (432 + 81 * D) ! AB)
        in jp_root p = tr ! spongeEnd ! ROOTREG \<and> jp_nf p = tr ! spongeEnd ! NFREG \<and> jp_cm1 p = tr ! spongeEnd ! CMOUT1 \<and>
           jp_cm2 p = tr ! spongeEnd ! S0"
    unfolding se Let_def e(1) [symmetric] e(2) [symmetric] e(3,4) by (simp add: transfer_def Let_def)
  moreover have "{tr ! 0 ! VIN, tr ! 0 ! VOUT1, tr ! 0 ! VOUT2} \<subseteq> {0..<2 ^ 61}" using v by blast
  ultimately show ?thesis
    unfolding Let_def using reg_path(2) [OF assms(1,2) T i] b by (simp only: path_sibs_def path_dirs_def simp_thms)
qed

text \<open>The inputs of the prover, reduced.\<close>

definition js_input_of :: "int \<Rightarrow> int \<Rightarrow> int \<Rightarrow> int list \<Rightarrow> int list \<Rightarrow> int \<Rightarrow> int \<Rightarrow> int \<Rightarrow> int \<Rightarrow> int \<Rightarrow> int \<Rightarrow> js_input" where
  "js_input_of nsk vIn rhoIn sibs dirs v1 o1 r1 v2 o2 r2 =
     \<lparr>i_nsk = f_mod nsk, i_vin = f_mod vIn, i_rho = f_mod rhoIn, i_sibs = map f_mod sibs, i_dirs = dirs,
      i_v1 = f_mod v1, i_o1 = f_mod o1, i_r1 = f_mod r1, i_v2 = f_mod v2, i_o2 = f_mod o2, i_r2 = f_mod r2\<rparr>"

lemma hashn_reduced: "hashn HL (map f_mod els) = hashn HL els"
proof -
  have "fold (\<lambda>m s. permute HL (f_add (fst s) (f_mod m), snd s)) (map f_mod els) s = fold (\<lambda>m s. permute HL (f_add (fst s) (f_mod m), snd s)) els s" for s
    by (induction els arbitrary: s) (simp_all add: f_mod_mod)
  then show ?thesis by (simp add: hashn_def)
qed

lemma note_reduced: "note_commit HL (f_mod v) (f_mod o1) (f_mod r) = note_commit HL v o1 r" "ownerOf HL (f_mod nsk) = ownerOf HL nsk"
  "nullifier HL (f_mod nsk) (f_mod r) = nullifier HL nsk r" "note_commit HL (f_mod v) o1 (f_mod r) = note_commit HL v o1 r" "note_commit HL v (f_mod o1) r = note_commit HL v o1 r"
  "merkleNode HL (f_mod a) b = merkleNode HL a b" "merkleNode HL a (f_mod b) = merkleNode HL a b"
  using hashn_reduced [of HL "[DOM_CM, v, o1, r]"] hashn_reduced [of HL "[DOM_OWNER, nsk]"] hashn_reduced [of HL "[DOM_NF, nsk, r]"]
  by (simp_all add: note_commit_def ownerOf_def nullifier_def merkleNode_def hashn_def f_mod_mod)

lemma path_step_reduced: "path_step HL (f_mod s, d) n = path_step HL (s, d) n"
proof -
  have "f_mod (js_rem s FP) = f_mod s" by (simp add: f_mod_mod js_rem_def mod_minus_eq)
  moreover have "js_rem (f_mod s) FP = f_mod s"
  proof -
    have "\<not> s mod FP < 0" by (simp add: not_less)
    then show ?thesis by (simp add: f_mod_mod js_rem_def)
  qed
  ultimately show ?thesis
    unfolding path_step_def Let_def fst_conv snd_conv by (metis note_reduced(6,7))
qed

lemma path_reduced: "fold (path_step HL) (zip (map f_mod sibs) dirs) n = fold (path_step HL) (zip sibs dirs) n"
  by (induction sibs dirs arbitrary: n rule: list_induct2') (simp_all add: path_step_reduced)

text \<open>C40: The prover is complete. For a path of directions 0 and 1 and values below \<open>2 ^ 61\<close>, whatever the keys, the trace
  satisfies every constraint on all consecutive rows, starts as the boundaries demand, and the public
  values read from it are those of the reference evaluation.\<close>

theorem join_split_complete:
  assumes "buildTrace HL nsk vIn rhoIn sibs dirs v1 o1 r1 v2 o2 r2 = Some t"
    and "\<forall>l < length sibs. dirs ! l \<in> {0, 1}" "\<forall>v \<in> {vIn, v1, v2}. f_mod v < 2 ^ 61"
  shows "js_satisfied HL (jt_T t) (jt_D t) (jt_tr t) \<and> jt_D t = length sibs \<and>
    jt_tr t ! 0 ! S0 = DOM_OWNER \<and> jt_tr t ! 0 ! S1 = ivVal HL \<and> jt_tr t ! 0 ! CONS = f_sub (f_sub vIn v1) v2 \<and>
    (let p = transfer HL nsk vIn rhoIn sibs (take (length sibs) dirs) v1 o1 r1 v2 o2 r2
     in jt_root t = jp_root p \<and> jt_nf t = jp_nf p \<and> jt_cm1 t = jp_cm1 p \<and> jt_cm2 t = jp_cm2 p)"
proof -
  define D where "D = length sibs"
  define T where "T = pow2_from (totalRows D + 1) 1"
  define w where "w = js_input_of nsk vIn rhoIn sibs dirs v1 o1 r1 v2 o2 r2"
  define tr where "tr = js_rows HL w D T 0 (js_start HL)"
  have len: "sibs \<noteq> []" "D \<le> length dirs" using assms(1) by (auto simp: buildTrace_def D_def split: if_splits)
  have t: "t = \<lparr>jt_tr = tr, jt_T = T, jt_D = D, jt_root = tr ! (459 + 81 * D) ! ROOTREG, jt_nf = tr ! (459 + 81 * D) ! NFREG,
      jt_cm1 = tr ! (351 + 81 * D) ! CMOUT1, jt_cm2 = tr ! (459 + 81 * D) ! S0\<rparr>"
    using assms(1) len unfolding buildTrace_def
    by (simp add: D_def [symmetric] T_def [symmetric] bounds_eval Let_def w_def [unfolded js_input_of_def, symmetric] tr_def [symmetric])
  have D: "0 < D" using len by (simp add: D_def)
  have w: "input_ok w D" using assms(2,3) D by (auto simp: input_ok_def w_def js_input_of_def D_def)
  have T: "511 + 81 * D \<le> T" unfolding T_def by (rule total_rows)
  have sat: "js_satisfied HL T D tr" unfolding tr_def by (rule trace_satisfied [OF w T])
  have "0 < T" using T by simp
  then have r0: "tr ! 0 = js_row w (js_start HL) (rfill w (459 + 81 * D) 0)" using js_rows_nth [of 0 T HL w D 0] by (simp add: tr_def)
  have c0: "tr ! 0 ! S0 = DOM_OWNER" "tr ! 0 ! S1 = ivVal HL" "tr ! 0 ! CONS = f_sub (f_sub vIn v1) v2" "tr ! 0 ! NSK = f_mod nsk"
      "tr ! 0 ! VIN = f_mod vIn" "tr ! 0 ! RHO = f_mod rhoIn" "tr ! 0 ! VOUT1 = f_mod v1" "tr ! 0 ! VOUT2 = f_mod v2"
    unfolding r0 row_cells by (simp_all add: js_start_def w_def js_input_of_def f_mod_mod)
  have i: "sp_at tr 0 = (DOM_OWNER, ivVal HL)" by (simp add: sp_at_def c0)
  have wi: "i_sibs w = map f_mod sibs" "i_dirs w = dirs" by (simp_all add: w_def js_input_of_def)
  have "map (\<lambda>l. map f_mod sibs ! l) [0..<D] = map f_mod sibs" "map (\<lambda>l. dirs ! l) [0..<D] = take D dirs"
    using len(2) by (intro nth_equalityI; simp add: D_def)+
  then have pth: "path_sibs tr D = map f_mod sibs" "path_dirs tr D = take D dirs" unfolding tr_def trace_path [OF w T] wi .
  have fr: "tr ! (r + 1) ! AB = free_msg w D r" if "r \<in> {296 + 81 * D, 323 + 81 * D, 404 + 81 * D, 431 + 81 * D}" for r
    using that T unfolding tr_def by (intro trace_free [OF w]) auto
  have free: "tr ! (297 + 81 * D) ! AB = f_mod o1" "tr ! (324 + 81 * D) ! AB = f_mod r1" "tr ! (405 + 81 * D) ! AB = f_mod o2" "tr ! (432 + 81 * D) ! AB = f_mod r2"
    using fr [of "296 + 81 * D"] fr [of "323 + 81 * D"] fr [of "404 + 81 * D"] fr [of "431 + 81 * D"]
    by (simp_all add: free_msg_def w_def js_input_of_def)
  note e = extracted [OF sat D T_def i, unfolded c0 free pth note_reduced]
  have "tr ! (351 + 81 * D) ! CMOUT1 = tr ! (459 + 81 * D) ! CMOUT1" by (rule reg_outputs(3) [OF sat D T i])
  then have "let p = transfer HL nsk vIn rhoIn sibs (take (length sibs) dirs) v1 o1 r1 v2 o2 r2
     in jt_root t = jp_root p \<and> jt_nf t = jp_nf p \<and> jt_cm1 t = jp_cm1 p \<and> jt_cm2 t = jp_cm2 p"
    using e len by (simp add: t transfer_def Let_def note_reduced path_reduced D_def)
  then show ?thesis using sat c0 by (simp add: t D_def)
qed

text \<open>A transfer of 7 into 3 and 2 with a fee of 2, from a leaf of a tree of one level.\<close>

theorem join_split_complete_witness:
  "\<exists>t. buildTrace (\<lambda>_. ''5'') 11 7 13 [17] [1] 3 19 23 2 29 31 = Some t \<and> js_satisfied (\<lambda>_. ''5'') (jt_T t) (jt_D t) (jt_tr t) \<and>
     jt_root t = jp_root (transfer (\<lambda>_. ''5'') 11 7 13 [17] [1] 3 19 23 2 29 31)"
proof -
  obtain t where t: "buildTrace (\<lambda>_. ''5'') 11 7 13 [17] [1] 3 19 23 2 29 31 = Some t"
    unfolding buildTrace_def by (simp add: bounds_eval Let_def del: js_rows.simps)
  have "\<forall>l < length [17 :: int]. [1 :: int] ! l \<in> {0, 1}" "\<forall>v \<in> {7, 3, 2}. f_mod v < 2 ^ 61" by (simp_all add: f_mod_mod FP_def)
  from join_split_complete [OF t this] show ?thesis using t by (auto simp: Let_def)
qed

theorem join_split_sound_witness:
  "\<exists>tr. tr ! 0 ! NSK = 11 \<and> tr ! 0 ! VIN + 0 = tr ! 0 ! VOUT1 + tr ! 0 ! VOUT2 + 2 \<and>
     {tr ! 0 ! VIN, tr ! 0 ! VOUT1, tr ! 0 ! VOUT2} \<subseteq> {0..<2 ^ 61} \<and>
     jp_root (transfer (\<lambda>_. ''5'') 11 (tr ! 0 ! VIN) 13 [17] [1] (tr ! 0 ! VOUT1) (tr ! (297 + 81 * 1) ! AB) (tr ! (324 + 81 * 1) ! AB)
       (tr ! 0 ! VOUT2) (tr ! (405 + 81 * 1) ! AB) (tr ! (432 + 81 * 1) ! AB)) = tr ! (459 + 81 * 1) ! ROOTREG"
proof -
  let ?HL = "\<lambda>_ :: string list. ''5''"
  define w where "w = js_input_of 11 7 13 [17] [1] 3 19 23 2 29 31"
  define T where "T = pow2_from (totalRows 1 + 1) 1"
  define tr where "tr = js_rows ?HL w 1 T 0 (js_start ?HL)"
  have w: "input_ok w 1" by (simp add: input_ok_def w_def js_input_of_def f_mod_mod fe_def FP_def)
  have T: "511 + 81 * 1 \<le> T" unfolding T_def by (rule total_rows)
  have sat: "js_satisfied ?HL T 1 tr" unfolding tr_def by (rule trace_satisfied [OF w T])
  have "0 < T" using T by simp
  then have r0: "tr ! 0 = js_row w (js_start ?HL) (rfill w (459 + 81 * 1) 0)" using js_rows_nth [of 0 T ?HL w 1 0] by (simp add: tr_def)
  have c0: "tr ! 0 ! S0 = DOM_OWNER" "tr ! 0 ! S1 = ivVal ?HL" "tr ! 0 ! CONS = f_sub 2 0" "tr ! 0 ! NSK = 11" "tr ! 0 ! VIN = 7" "tr ! 0 ! RHO = 13"
    unfolding r0 row_cells by (simp_all add: js_start_def w_def js_input_of_def field_mod FP_def)
  have pth: "path_sibs tr 1 = [17]" "path_dirs tr 1 = [1]"
    unfolding tr_def trace_path [OF w T] by (simp_all add: w_def js_input_of_def f_mod_mod FP_def One_nat_def)
  have "let nsk = tr ! 0 ! NSK; vIn = tr ! 0 ! VIN; rho = tr ! 0 ! RHO; v1 = tr ! 0 ! VOUT1; v2 = tr ! 0 ! VOUT2;
      sibs = path_sibs tr 1; dirs = path_dirs tr 1;
      o1 = tr ! (297 + 81 * 1) ! AB; r1 = tr ! (324 + 81 * 1) ! AB; o2 = tr ! (405 + 81 * 1) ! AB; r2 = tr ! (432 + 81 * 1) ! AB;
      p = transfer ?HL nsk vIn rho sibs dirs v1 o1 r1 v2 o2 r2
    in set dirs \<subseteq> {0, 1} \<and> {vIn, v1, v2} \<subseteq> {0..<2 ^ 61} \<and> vIn + 0 = v1 + v2 + 2 \<and>
       jp_root p = tr ! (459 + 81 * 1) ! ROOTREG \<and> jp_nf p = tr ! (459 + 81 * 1) ! NFREG \<and> jp_cm1 p = tr ! (459 + 81 * 1) ! CMOUT1 \<and>
       jp_cm2 p = tr ! (459 + 81 * 1) ! S0"
    unfolding path_sibs_def path_dirs_def
    by (rule join_split_sound [OF sat zero_less_one T_def _ c0(1-3)]) (simp_all add: bounds_eval)
  then show ?thesis unfolding Let_def pth c0(4,6) using c0(4) by (intro exI [of _ tr] conjI) (elim conjE, assumption)+
qed

end
