(* ===== verification/HexBadges.thy ===== *)
theory HexBadges
  imports HexTable
begin

text \<open>
  The badges of Hexholm (long road, wardens' banner) are recomputed after the operations that can change
  them, and once more at the end of a replay. Every state the referee passes through is fresh: computing
  the badges again changes nothing, so the state a replay returns is the state the referee judges.
\<close>

section \<open>Fresh badges\<close>

definition fresh :: "hx \<Rightarrow> bool" where
  "fresh st \<longleftrightarrow> refreshBadges False st = st"

text \<open>What the badges depend on, and what they are.\<close>

definition pieces_view where
  "pieces_view st = (h_cap st, (\<lambda>s. p_roads (players st s)), (\<lambda>s. sites st s))"

definition badge_view where
  "badge_view st =
     (pieces_view st, (\<lambda>s. p_plays (players st s) WARDEN), (\<lambda>s. roadLen (players st s)), roadHolder st, watchHolder st)"

lemma seats_cap: "h_cap a = h_cap b \<Longrightarrow> seats a = seats b"
  by (simp add: seats_def)

lemma longestRoad_view: "pieces_view a = pieces_view b \<Longrightarrow> longestRoad a s = longestRoad b s"
proof -
  assume v: "pieces_view a = pieces_view b"
  then have "owns_vertex a = owns_vertex b"
    by (simp add: pieces_view_def owns_vertex_def fun_eq_iff) blast
  moreover have "seats a = seats b" "p_roads (players a s) = p_roads (players b s)"
    using v by (simp_all add: pieces_view_def seats_def fun_eq_iff)
  ultimately show ?thesis by (simp add: longestRoad_def vOwnedByOther_def [abs_def])
qed

lemma badge_viewD:
  assumes "badge_view a = badge_view b"
  shows "pieces_view a = pieces_view b" "seats a = seats b" "roadLen (players a s) = roadLen (players b s)"
    "p_plays (players a s) WARDEN = p_plays (players b s) WARDEN" "roadHolder a = roadHolder b" "watchHolder a = watchHolder b"
  using assms by (simp_all add: badge_view_def pieces_view_def seats_def fun_eq_iff)

lemma road_badge_view:
  assumes "seats a = seats b" "\<And>s. roadLen (players a s) = roadLen (players b s)" "roadHolder a = roadHolder b"
  shows "road_badge a = road_badge b"
  using assms by (simp add: road_badge_def)

lemma watch_step_view: "(\<And>s. p_plays (players a s) WARDEN = p_plays (players b s) WARDEN) \<Longrightarrow> watch_step a = watch_step b"
  by (simp add: watch_step_def fun_eq_iff)

lemma fresh_iff:
  "fresh st \<longleftrightarrow>
     (\<forall>s \<in> set (seats st). longestRoad st s = roadLen (players st s)) \<and> road_badge st = roadHolder st \<and>
     fold (watch_step st) (seats st) (watchHolder st) = watchHolder st"
  (is "_ \<longleftrightarrow> ?lens \<and> ?road \<and> ?watch")
proof -
  define ps where "ps = (\<lambda>s. if s \<in> set (seats st) then (players st s)\<lparr>roadLen := longestRoad st s\<rparr> else players st s)"
  define st1 where "st1 = st\<lparr>players := ps\<rparr>"
  define st2 where "st2 = st1\<lparr>roadHolder := road_badge st1\<rparr>"
  have r: "refreshBadges False st = st2\<lparr>watchHolder := fold (watch_step st2) (seats st2) (watchHolder st2)\<rparr>"
    by (simp add: refreshBadges_def Let_def st2_def st1_def ps_def)
  have w: "watch_step st2 = watch_step st"
    by (rule watch_step_view) (simp add: st2_def st1_def ps_def)
  have s: "seats st2 = seats st" by (simp add: seats_def st2_def st1_def)
  have "ps s = players st s" if "ps = players st" for s using that by simp
  then have l: "ps = players st \<longleftrightarrow> ?lens"
    unfolding fun_eq_iff ps_def by (auto intro!: hx_player.equality) (metis hx_player.select_convs(10) hx_player.surjective hx_player.update_convs(10))
  have f: "fresh st \<longleftrightarrow> ps = players st \<and> road_badge st1 = roadHolder st \<and> fold (watch_step st) (seats st) (watchHolder st) = watchHolder st"
  proof
    assume "fresh st"
    then have e: "refreshBadges False st = st" by (simp add: fresh_def)
    have "players (refreshBadges False st) = ps" "roadHolder (refreshBadges False st) = road_badge st1"
      "watchHolder (refreshBadges False st) = fold (watch_step st) (seats st) (watchHolder st)"
      unfolding r by (simp_all add: w s) (simp_all add: st2_def st1_def)
    then show "ps = players st \<and> road_badge st1 = roadHolder st \<and> fold (watch_step st) (seats st) (watchHolder st) = watchHolder st"
      unfolding e by simp
  next
    assume a: "ps = players st \<and> road_badge st1 = roadHolder st \<and> fold (watch_step st) (seats st) (watchHolder st) = watchHolder st"
    then have "st1 = st" by (simp add: st1_def)
    moreover have "st2 = st" using a \<open>st1 = st\<close> by (simp add: st2_def)
    ultimately show "fresh st" unfolding fresh_def r using a by simp
  qed
  have "st1 = st" if "ps = players st" using that by (simp add: st1_def)
  then show ?thesis using f l by auto
qed

lemma fresh_view: "badge_view a = badge_view b \<Longrightarrow> fresh a = fresh b"
proof -
  assume v: "badge_view a = badge_view b"
  note d = badge_viewD [OF v]
  have "road_badge a = road_badge b" by (rule road_badge_view) (simp_all add: d)
  moreover have "watch_step a = watch_step b" by (rule watch_step_view) (simp add: d)
  ultimately show ?thesis unfolding fresh_iff by (simp add: d longestRoad_view [OF d(1)])
qed

section \<open>Computing the badges twice\<close>

text \<open>The banner: whoever has it afterwards has at least as many wardens as any contender.\<close>

lemma watch_best:
  "\<forall>s \<in> set xs. s \<noteq> 0 \<Longrightarrow>
     (w \<noteq> 0 \<longrightarrow> fold (watch_step st) xs w \<noteq> 0 \<and>
        p_plays (players st w) WARDEN \<le> p_plays (players st (fold (watch_step st) xs w)) WARDEN) \<and>
     (\<forall>s \<in> set xs. 3 \<le> p_plays (players st s) WARDEN \<longrightarrow> fold (watch_step st) xs w \<noteq> 0 \<and>
        p_plays (players st s) WARDEN \<le> p_plays (players st (fold (watch_step st) xs w)) WARDEN)"
proof (induction xs arbitrary: w)
  case (Cons x xs)
  let ?w = "watch_step st x w"
  have IH: "(?w \<noteq> 0 \<longrightarrow> fold (watch_step st) xs ?w \<noteq> 0 \<and>
        p_plays (players st ?w) WARDEN \<le> p_plays (players st (fold (watch_step st) xs ?w)) WARDEN) \<and>
     (\<forall>s \<in> set xs. 3 \<le> p_plays (players st s) WARDEN \<longrightarrow> fold (watch_step st) xs ?w \<noteq> 0 \<and>
        p_plays (players st s) WARDEN \<le> p_plays (players st (fold (watch_step st) xs ?w)) WARDEN)"
    by (rule Cons.IH) (use Cons.prems in simp)
  have x: "x \<noteq> 0" using Cons.prems by simp
  have w: "w \<noteq> 0 \<Longrightarrow> ?w \<noteq> 0 \<and> p_plays (players st w) WARDEN \<le> p_plays (players st ?w) WARDEN"
    using x by (auto simp: watch_step_def Let_def)
  have c: "3 \<le> p_plays (players st x) WARDEN \<Longrightarrow> ?w \<noteq> 0 \<and> p_plays (players st x) WARDEN \<le> p_plays (players st ?w) WARDEN"
    using x by (auto simp: watch_step_def Let_def)
  show ?case using IH w c by (auto intro: order_trans)
qed simp

lemma watch_twice: "\<forall>s \<in> set xs. s \<noteq> 0 \<Longrightarrow> fold (watch_step st) xs (fold (watch_step st) xs w) = fold (watch_step st) xs w"
proof -
  assume x: "\<forall>s \<in> set xs. s \<noteq> 0"
  define w' where "w' = fold (watch_step st) xs w"
  have b: "\<forall>s \<in> set xs. 3 \<le> p_plays (players st s) WARDEN \<longrightarrow> w' \<noteq> 0 \<and> p_plays (players st s) WARDEN \<le> p_plays (players st w') WARDEN"
    using watch_best [OF x, of w st] by (simp add: w'_def)
  then have "watch_step st s w' = w'" if "s \<in> set xs" for s
    using that by (auto simp: watch_step_def Let_def)
  then have "fold (watch_step st) ys w' = w'" if "set ys \<subseteq> set xs" for ys
    using that by (induction ys) simp_all
  then show ?thesis by (simp add: w'_def)
qed

lemma road_badge_twice:
  assumes "road_badge st = h" shows "road_badge (st\<lparr>roadHolder := h\<rparr>) = h"
proof -
  define len where "len = (\<lambda>s. roadLen (players st s))"
  define con where "con = filter (\<lambda>s. len s \<ge> 5) (seats st)"
  define top where "top = fold max (map len con) 0"
  define led where "led = filter (\<lambda>s. len s = top) con"
  have b: "road_badge (st\<lparr>roadHolder := x\<rparr>) =
      (if x \<noteq> 0 \<and> len x \<ge> 5 then (if top > len x then (if length led = 1 then led ! 0 else 0) else x)
       else (if length led = 1 then led ! 0 else 0))" for x
    by (simp add: road_badge_def Let_def len_def con_def top_def led_def seats_def)
  have led: "led ! 0 \<noteq> 0 \<and> len (led ! 0) \<ge> 5 \<and> len (led ! 0) = top" if "length led = 1"
  proof -
    have "led ! 0 \<in> set led" using that by (intro nth_mem) simp
    then show ?thesis by (auto simp: led_def con_def)
  qed
  have "st\<lparr>roadHolder := roadHolder st\<rparr> = st" by simp
  then have "h = (if roadHolder st \<noteq> 0 \<and> len (roadHolder st) \<ge> 5
      then (if top > len (roadHolder st) then (if length led = 1 then led ! 0 else 0) else roadHolder st)
      else (if length led = 1 then led ! 0 else 0))"
    using b [of "roadHolder st"] assms by simp
  then consider "h = 0" "length led \<noteq> 1" | "h = led ! 0" "length led = 1" | "h = roadHolder st" "h \<noteq> 0" "len h \<ge> 5" "\<not> top > len h"
    by (auto split: if_splits)
  then show ?thesis unfolding b using led by cases auto
qed

lemma view_log: "badge_view (add_log s ev st) = badge_view st"
  by (simp add: badge_view_def pieces_view_def add_log_def)

lemma fresh_refresh: "fresh (refreshBadges l st)"
proof -
  define st1 where "st1 = st\<lparr>players := (\<lambda>s. if s \<in> set (seats st) then (players st s)\<lparr>roadLen := longestRoad st s\<rparr> else players st s)\<rparr>"
  define st2 where "st2 = st1\<lparr>roadHolder := road_badge st1\<rparr>"
  define st3 where "st3 = st2\<lparr>watchHolder := fold (watch_step st2) (seats st2) (watchHolder st2)\<rparr>"
  have v: "badge_view (refreshBadges l st) = badge_view st3"
    unfolding refreshBadges_def Let_def st3_def [unfolded st2_def st1_def, symmetric] by (simp add: view_log)
  have s: "seats st3 = seats st" "seats st2 = seats st" by (simp_all add: seats_def st3_def st2_def st1_def)
  have "pieces_view st3 = pieces_view st" by (simp add: pieces_view_def st3_def st2_def st1_def fun_eq_iff)
  note lr = longestRoad_view [OF this]
  have "\<forall>s \<in> set (seats st3). longestRoad st3 s = roadLen (players st3 s)"
    unfolding s lr by (simp add: st3_def st2_def st1_def)
  moreover have "road_badge st3 = roadHolder st3"
  proof -
    have "road_badge st3 = road_badge st2" by (rule road_badge_view) (simp_all add: st3_def seats_def)
    then show ?thesis using road_badge_twice [of st1] by (simp add: st3_def st2_def)
  qed
  moreover have "fold (watch_step st3) (seats st3) (watchHolder st3) = watchHolder st3"
  proof -
    have "watch_step st3 = watch_step st2" by (rule watch_step_view) (simp add: st3_def)
    moreover have "watchHolder st3 = fold (watch_step st2) (seats st) (watchHolder st2)" by (simp add: st3_def s)
    moreover have "\<forall>s \<in> set (seats st). s \<noteq> 0" by auto
    ultimately show ?thesis using watch_twice [of "seats st" st2 "watchHolder st2"] by (simp only: s)
  qed
  ultimately have "fresh st3" unfolding fresh_iff by blast
  then show ?thesis using fresh_view [OF v] by simp
qed

section \<open>Every step leaves fresh badges\<close>

text \<open>Operations that do not touch what the badges depend on.\<close>

named_theorems hx_view \<open>operations that keep the view of the badges\<close>

lemma view_updates [hx_view]:
  "badge_view (st\<lparr>bank := b\<rparr>) = badge_view st" "badge_view (st\<lparr>mi := n\<rparr>) = badge_view st"
  "badge_view (st\<lparr>robber := h\<rparr>) = badge_view st" "badge_view (st\<lparr>phase := p\<rparr>) = badge_view st"
  "badge_view (st\<lparr>dice := d, rolled := r\<rparr>) = badge_view st" "badge_view (st\<lparr>offers := os\<rparr>) = badge_view st"
  "badge_view (st\<lparr>devBought := n\<rparr>) = badge_view st" "badge_view (st\<lparr>over := x, winner := n\<rparr>) = badge_view st"
  "badge_view (st\<lparr>pendingWin := n\<rparr>) = badge_view st"
  "badge_view (st\<lparr>playedScroll := x, playsLog := pl\<rparr>) = badge_view st"
  "badge_view (st\<lparr>blocked := x\<rparr>) = badge_view st"
  by (simp_all add: badge_view_def pieces_view_def)

lemma view_bad [hx_view]: "badge_view (bad w s st) = badge_view st"
  by (simp add: badge_view_def pieces_view_def bad_def)

lemma view_set_player:
  assumes "p_roads p = p_roads (players st s)" "set (p_steads p) \<union> set (p_keeps p) = sites st s"
    "p_plays p WARDEN = p_plays (players st s) WARDEN" "roadLen p = roadLen (players st s)"
  shows "badge_view (set_player s p st) = badge_view st"
  using assms by (simp add: badge_view_def pieces_view_def hx_proj fun_eq_iff) (simp add: set_player_def)

lemma view_grant [hx_view]: "badge_view (grant s r n st) = badge_view st"
  unfolding grant_def Let_def hx_view by (rule view_set_player) simp_all

lemma view_payCost [hx_view]: "badge_view (payCost s c st) = badge_view st"
  unfolding payCost_def Let_def hx_view by (rule view_set_player) simp_all

lemma view_note_play: "ty \<noteq> WARDEN \<Longrightarrow> badge_view (note_play s ty st) = badge_view st"
  unfolding note_play_def Let_def hx_view by (rule view_set_player) simp_all

lemma view_fold: "(\<And>x st. x \<in> set xs \<Longrightarrow> badge_view (f x st) = badge_view st) \<Longrightarrow> badge_view (fold f xs st) = badge_view st"
  by (induction xs arbitrary: st) simp_all

lemma view_production [hx_view]: "badge_view (production st n) = badge_view st"
  unfolding production_def by (rule view_fold) (auto simp: hx_view split: prod.split)

lemma view_log_gains [hx_view]: "badge_view (log_gains st0 n st) = badge_view st"
  unfolding log_gains_def by (rule view_fold) (simp add: view_log Let_def)

lemma view_levy [hx_view]: "badge_view (fold (levy_take s r) xs st) = badge_view st"
  by (rule view_fold) (simp add: levy_take_def Let_def view_set_player hx_proj)

lemma view_steal: "badge_view (snd (stealFrom H s v q st)) = badge_view st"
  unfolding stealFrom_def Let_def by (simp add: view_set_player hx_proj split: option.split)

lemma view_set_owe [hx_view]: "badge_view (set_owe st) = badge_view st"
  by (simp add: badge_view_def pieces_view_def set_owe_def fun_eq_iff)

lemma view_startTurn [hx_view]: "badge_view (startTurn st) = badge_view st"
  by (simp add: badge_view_def pieces_view_def startTurn_def endOffers_def Let_def fun_eq_iff)

lemma view_raise [hx_view]: "v \<in> set (p_steads (players st s)) \<Longrightarrow> badge_view (raise_keep s v st) = badge_view st"
  unfolding raise_keep_def Let_def by (rule view_set_player) auto

text \<open>What a step does to the badges of a fresh state: it computes them again, leaves their view, or corrupts the game.\<close>

definition badges_kept :: "hx \<Rightarrow> hx \<Rightarrow> bool" where
  "badges_kept st st' \<longleftrightarrow> corrupt st' \<noteq> 0 \<or> fresh st' \<or> badge_view st' = badge_view st"

lemma kept_view: "badge_view st' = badge_view st \<Longrightarrow> badges_kept st st'"
  by (simp add: badges_kept_def)

lemma kept_refresh [simp]: "badges_kept st (refreshBadges l st')"
  by (simp add: badges_kept_def fresh_refresh)

lemma kept_bad [simp]: "badges_kept st (bad w s st')"
  by (simp add: badges_kept_def bad_def)

lemma kept_robber: "badges_kept st (hx_robber H side q a b st)" "badges_kept st (hx_warden H side q a b st)"
proof -
  obtain g st2 where s: "stealFrom H side b q (st\<lparr>robber := a\<rparr>) = (g, st2)" by fastforce
  have "badge_view st2 = badge_view st" using view_steal [of H side b q "st\<lparr>robber := a\<rparr>"] by (simp add: s hx_view)
  then show "badges_kept st (hx_robber H side q a b st)"
    using s by (cases "side = turnSeat st"; simp add: hx_robber_def Let_def kept_view hx_view view_log)
  show "badges_kept st (hx_warden H side q a b st)"
    by (simp add: hx_warden_def Let_def split: option.split prod.split)
qed

lemma kept_handlers:
  "badges_kept st (hx_setup side mv st)" "badges_kept st (hx_discard side mv st)" "badges_kept st (hx_roll H side q st)"
  "badges_kept st (hx_path side a b st)" "badges_kept st (hx_bounty side a b st)" "badges_kept st (hx_levy side a st)" "badges_kept st (hx_road side a st)"
  "badges_kept st (hx_stead side a st)" "badges_kept st (hx_keep side a st)" "badges_kept st (hx_buy H side q st)" "badges_kept st (hx_bank side a b st)"
  "badges_kept st (hx_offer_op i side a b st)" "badges_kept st (hx_accept side a st)" "badges_kept st (hx_rescind side a st)"
  "badges_kept st (hx_end side st)" "badges_kept st (hx_win side st)"
proof -
  show "badges_kept st (hx_setup side mv st)" by (simp add: hx_setup_def Let_def split: prod.split)
  show "badges_kept st (hx_discard side mv st)"
  proof -
    have "badge_view ((set_player side ((players st side)\<lparr>p_res := r, owe := 0\<rparr>) st)\<lparr>bank := bk\<rparr>) = badge_view st" for r bk
      unfolding hx_view by (rule view_set_player) simp_all
    then show ?thesis by (simp add: hx_discard_def Let_def kept_view view_log view_updates(4) split: prod.split)
  qed
  show "badges_kept st (hx_roll H side q st)" by (simp add: hx_roll_def Let_def kept_view hx_view view_log)
  show "badges_kept st (hx_path side a b st)"
  proof -
    have p: "badges_kept st (if corrupt x \<noteq> 0 then x else refreshBadges True y)" for x y by (simp add: badges_kept_def fresh_refresh)
    have i: "badges_kept st y \<Longrightarrow> badges_kept st (if c then bad w side st else y)" for c y w by simp
    show ?thesis unfolding hx_path_def Let_def
      by (rule i, cases "playGate st side PATHWRIGHT"; simp only: option.case) (rule i, rule p, rule kept_bad)
  qed
  show "badges_kept st (hx_bounty side a b st)"
    by (simp add: hx_bounty_def kept_view hx_view view_log view_note_play BOUNTY_def WARDEN_def split: option.split)
  show "badges_kept st (hx_levy side a st)"
    by (simp add: hx_levy_def Let_def kept_view hx_view view_log view_note_play LEVY_def WARDEN_def split: option.split)
  show "badges_kept st (hx_road side a st)" "badges_kept st (hx_stead side a st)" by (simp_all add: hx_road_def hx_stead_def)
  show "badges_kept st (hx_keep side a st)"
  proof -
    have "badge_view (raise_keep side a (payCost side COST_keep st)) = badge_view st" if "a \<in> set (p_steads (players st side))"
      using that view_raise [of a "payCost side COST_keep st" side] by (simp add: hx_view frame_simps [THEN frame_proj(3)])
    then show ?thesis by (cases "side = turnSeat st") (simp_all add: hx_keep_def kept_view view_log)
  qed
  show "badges_kept st (hx_buy H side q st)"
    by (simp add: hx_buy_def Let_def kept_view hx_view view_log view_set_player hx_proj)
  show "badges_kept st (hx_bank side a b st)"
    by (simp add: hx_bank_def Let_def kept_view hx_view view_log view_set_player hx_proj)
  show "badges_kept st (hx_offer_op i side a b st)" by (simp add: hx_offer_op_def Let_def kept_view hx_view view_log)
  show "badges_kept st (hx_accept side a st)"
    by (simp add: hx_accept_def Let_def kept_view hx_view view_log view_set_player hx_proj split: option.split)
  show "badges_kept st (hx_rescind side a st)" by (simp add: hx_rescind_def kept_view hx_view split: option.split)
  show "badges_kept st (hx_end side st)" by (simp add: hx_end_def kept_view hx_view view_log)
  show "badges_kept st (hx_win side st)" by (simp add: hx_win_def kept_view hx_view view_log split: option.split)
qed

lemma fresh_step:
  assumes "fresh st" "corrupt (hx_step H i e side q st) = 0"
  shows "fresh (hx_step H i e side q st)"
proof -
  let ?st = "st\<lparr>mi := i + 1\<rparr>"
  have "badges_kept ?st (hx_dispatch H i side q (opc, a, b) ?st)" for opc a b
    by (rule dispatch_cases) (simp_all add: kept_handlers kept_robber)
  then have "badges_kept ?st (hx_step H i e side q st)"
    unfolding hx_step_def Let_def by (cases "hx_dec e") (simp add: kept_handlers)
  then consider "fresh (hx_step H i e side q st)" | "badge_view (hx_step H i e side q st) = badge_view st"
    using assms(2) by (auto simp: badges_kept_def hx_view)
  then show ?thesis
  proof cases
    case 2
    from fresh_view [OF this] assms(1) show ?thesis by simp
  qed
qed

lemma fresh_start: "fresh (hx_start cap sec com lay)"
proof -
  let ?st = "hx_start cap sec com lay"
  have p: "roadLen (players ?st s) = 0" "p_roads (players ?st s) = []" "p_plays (players ?st s) WARDEN = 0" "roadHolder ?st = 0" "watchHolder ?st = 0" for s
    by (simp_all add: hx_start_def newPlayer_def)
  have "fold (watch_step ?st) xs 0 = 0" for xs
    by (induction xs) (simp_all add: watch_step_def p)
  then show ?thesis unfolding fresh_iff by (simp add: longestRoad_def road_badge_def p)
qed

end
