(* ===== verification/HexLive.thy ===== *)
theory HexLive
  imports HexBadges HexProperties
begin

text \<open>
  A Hexholm table never gets stuck: while the setup lasts every road touches a homestead of its seat, so
  there is always a free corner with a free edge, and in every other phase the seat on turn has a move.
\<close>

section \<open>Pieces during the setup\<close>

definition setup_sites :: "hx \<Rightarrow> bool" where
  "setup_sites st \<longleftrightarrow>
     (phase st = PSetup \<longrightarrow>
       (\<forall>s \<in> {1..h_cap st}. p_keeps (players st s) = [] \<and>
          (\<forall>e \<in> set (p_roads (players st s)). edge_a e \<in> set (p_steads (players st s)) \<or> edge_b e \<in> set (p_steads (players st s)))))"

text \<open>No operation of a game under way leads back into the setup.\<close>

lemma startTurn_phase: "phase (startTurn st) = PPreroll"
  by (simp add: startTurn_def endOffers_def Let_def)

lemma path_roads_phase: "phase (path_roads s es st) = phase st"
  by (induction es arbitrary: st) (simp_all add: hx_proj add_road_def Let_def)

lemma steal_phase: "stealFrom H t v q st = (g, st2) \<Longrightarrow> phase st2 = phase st"
  using frame_proj(6) [OF steal_frame [of H t v q st g st2]] by simp

lemma phase_pieces: "phase (raise_keep s v st) = phase st" "phase (add_road s e st) = phase st" "phase (add_stead s v st) = phase st"
  by (simp_all add: raise_keep_def add_road_def add_stead_def Let_def hx_proj)

lemma robber_phase:
  assumes "phase st \<noteq> PSetup"
  shows "phase (hx_robber H side q a b st) \<noteq> PSetup" "phase (hx_warden H side q a b st) \<noteq> PSetup"
proof -
  obtain g st2 where s: "stealFrom H side b q (st\<lparr>robber := a\<rparr>) = (g, st2)" by fastforce
  have "phase st2 = phase st" using steal_phase [OF s] by simp
  then show "phase (hx_robber H side q a b st) \<noteq> PSetup" "phase (hx_warden H side q a b st) \<noteq> PSetup"
    using s assms
    by (cases "side = turnSeat st"; simp add: hx_robber_def hx_warden_def Let_def hx_proj split: option.split)+
qed

lemma handlers_phase:
  assumes "phase st \<noteq> PSetup"
  shows "phase (hx_discard side mv st) \<noteq> PSetup" "phase (hx_roll H side q st) \<noteq> PSetup"
    "phase (hx_path side a b st) \<noteq> PSetup" "phase (hx_bounty side a b st) \<noteq> PSetup" "phase (hx_levy side a st) \<noteq> PSetup"
    "phase (hx_road side a st) \<noteq> PSetup" "phase (hx_stead side a st) \<noteq> PSetup" "phase (hx_keep side a st) \<noteq> PSetup"
    "phase (hx_buy H side q st) \<noteq> PSetup" "phase (hx_bank side a b st) \<noteq> PSetup" "phase (hx_offer_op i side a b st) \<noteq> PSetup"
    "phase (hx_accept side a st) \<noteq> PSetup" "phase (hx_rescind side a st) \<noteq> PSetup" "phase (hx_end side st) \<noteq> PSetup"
    "phase (hx_win side st) \<noteq> PSetup"
  using assms
  by (simp_all add: hx_handlers Let_def hx_proj startTurn_phase path_roads_phase phase_pieces split: prod.split option.split)

lemma step_phase: "phase st \<noteq> PSetup \<Longrightarrow> phase (hx_step H i e side q st) \<noteq> PSetup"
proof -
  assume p: "phase st \<noteq> PSetup"
  have "phase (hx_dispatch H i side q (opc, a, b) (st\<lparr>mi := i + 1\<rparr>)) \<noteq> PSetup" for opc a b
    by (rule dispatch_cases) (simp_all add: p handlers_phase robber_phase hx_proj)
  then show ?thesis using p unfolding hx_step_def Let_def by (cases "hx_dec e") (simp add: handlers_phase)
qed

text \<open>A founded homestead brings its road.\<close>

lemma setup_sites_setup:
  assumes i: "setup_sites st" "phase st = PSetup" and s: "1 \<le> side" "side \<le> h_cap st"
  shows "setup_sites (hx_setup side mv st)"
proof -
  obtain opc a b where mv: "mv = (opc, a, b)" by (cases mv)
  have bad: "setup_sites (bad w side st)" for w
    using i(1) by (simp add: setup_sites_def hx_proj)
  have go: "setup_sites (refreshBadges False (setup_advance st2))"
    if t: "edge_a b = a \<or> edge_b b = a" and f: "frame st2 = frame (add_road side b (add_stead side a st))" for st2
  proof -
    note p = frame_proj [OF f]
    have "set (p_steads (players st2 t)) = (if t = side then insert a (set (p_steads (players st t))) else set (p_steads (players st t)))"
      "p_keeps (players st2 t) = p_keeps (players st t)"
      "set (p_roads (players st2 t)) = (if t = side then insert b (set (p_roads (players st t))) else set (p_roads (players st t)))"
      "h_cap st2 = h_cap st" for t
      by (simp_all add: p add_road_def add_stead_def Let_def hx_proj)
    then have "\<forall>t \<in> {1..h_cap st2}. p_keeps (players st2 t) = [] \<and>
        (\<forall>e \<in> set (p_roads (players st2 t)). edge_a e \<in> set (p_steads (players st2 t)) \<or> edge_b e \<in> set (p_steads (players st2 t)))"
      using i t by (auto simp: setup_sites_def)
    then show ?thesis
      by (simp add: setup_sites_def hx_proj setup_advance_simps)
  qed
  have f: "frame (add_log side ev (found_pay side a st1)) = frame st1" "frame (add_log side ev st1) = frame st1" for ev st1
    by (simp_all add: frame_simps)
  show ?thesis
    unfolding hx_setup_def mv prod.case Let_def
    by (simp only: bad split: if_split) (use go f in blast)
qed

lemma setup_sites_step:
  assumes "setup_sites st" "1 \<le> side" "side \<le> h_cap st"
  shows "setup_sites (hx_step H i e side q st)"
proof (cases "phase st = PSetup")
  case True
  have "setup_sites (st\<lparr>mi := i + 1\<rparr>)" using assms(1) by (simp add: setup_sites_def)
  with True assms(2,3) show ?thesis by (simp add: hx_step_def Let_def setup_sites_setup)
next
  case False
  from step_phase [OF this] show ?thesis by (simp add: setup_sites_def)
qed

section \<open>The referee again\<close>

definition table_live :: "nat \<Rightarrow> nat \<Rightarrow> hx \<Rightarrow> bool" where
  "table_live cap i st \<longleftrightarrow> table_ok cap i st \<and> setup_sites st \<and> (corrupt st = 0 \<longrightarrow> fresh st)"

interpretation hxl: referee "hx_move H" hx_halted "seated cap" "table_live cap" for H cap
proof
  fix i st r st'
  assume a: "table_live cap i st" "\<not> hx_halted st" "seated cap r" "hx_move H i r st = Some st'"
  obtain e side q where r: "r = (e, side, Some q)" "st' = hx_step H i e side q st"
    using a(4) by (cases r) (auto simp: hx_move_def)
  have "table_ok cap (i + 1) st'" using hxr.keeps a unfolding table_live_def by blast
  moreover have "setup_sites st'"
    using a(1,3) unfolding r by (intro setup_sites_step) (auto simp: table_live_def table_ok_def seated_def)
  moreover have "fresh st'" if "corrupt st' = 0"
    using a(1,2) that unfolding r by (intro fresh_step) (auto simp: table_live_def hx_halted_def)
  ultimately show "table_live cap (i + 1) st'" by (simp add: table_live_def)
qed

lemma start_live:
  assumes "layout H k cap = Some lay" "1 \<le> cap"
  shows "table_live cap 0 (hx_start cap sec com lay)"
  using start_ok [OF assms] fresh_start
  by (simp add: table_live_def setup_sites_def) (simp add: hx_start_def newPlayer_def)

lemma live_blocked: "table_live cap i (st\<lparr>blocked := x\<rparr>) = table_live cap i st"
proof -
  have "fresh (st\<lparr>blocked := x\<rparr>) = fresh st" by (rule fresh_view) (simp add: view_updates)
  then show ?thesis by (simp add: table_live_def table_ok_def numbered_def setup_sites_def)
qed

lemma loop_live:
  assumes "layout H k cap = Some lay" "1 \<le> cap" "\<forall>r \<in> set recs. seated cap r"
  shows "\<exists>i \<le> length recs. table_live cap i (hx_loop H 0 recs (hx_start cap sec com lay))"
proof -
  obtain i where i: "i \<le> length recs" "table_live cap i (fst (run_log (hx_move H) hx_halted 0 recs (hx_start cap sec com lay)))"
    using hxl.run_inv [OF start_live [OF assms(1,2)] assms(3), of H sec com] by auto
  then show ?thesis
    unfolding hx_loop_run by (intro exI [of _ i]) (auto simp: live_blocked split: prod.split option.split)
qed

text \<open>The last computation of the badges in a replay changes nothing unless the log is corrupt.\<close>

lemma replay_loop:
  assumes "layout H k cap = Some lay" "1 \<le> cap" "\<forall>r \<in> set recs. seated cap r"
    and "corrupt (hx_loop H 0 recs (hx_start cap sec com lay)) = 0"
  shows "hx_replay H (Some k) recs cap sec com = Some (hx_loop H 0 recs (hx_start cap sec com lay))"
proof -
  have "fresh (hx_loop H 0 recs (hx_start cap sec com lay))"
    using loop_live [OF assms(1-3), of sec com] assms(4) by (auto simp: table_live_def)
  then show ?thesis by (simp add: hx_replay_def assms(1) fresh_def)
qed

section \<open>Somebody can always move\<close>

text \<open>Two or three edges meet at a corner.\<close>

lemma corner_degrees:
  "list_all (\<lambda>v. let n = length (filter (\<lambda>e. fst e = v \<or> snd e = v) hx_edges) in 0 < n \<and> n \<le> 3) [0..<54]"
  by code_simp

lemma length_vert_edges: "length (vert_edges v) = length (filter (\<lambda>e. fst e = v \<or> snd e = v) hx_edges)"
proof -
  have "filter (\<lambda>e. fst e = v \<or> snd e = v) hx_edges =
      map ((!) hx_edges) (filter (\<lambda>i. edge_a i = v \<or> edge_b i = v) [0..<length hx_edges])"
    by (subst map_nth [of hx_edges, symmetric]) (simp add: filter_map comp_def edge_a_def edge_b_def)
  then show ?thesis by (simp add: vert_edges_def NEDGE_def)
qed

lemma corner_edges: "v < 54 \<Longrightarrow> vert_edges v \<noteq> [] \<and> card (set (vert_adj v)) \<le> 3"
proof -
  assume "v < 54"
  then have "0 < length (vert_edges v) \<and> length (vert_edges v) \<le> 3"
    using corner_degrees unfolding length_vert_edges list_all_iff Let_def by simp
  moreover have "card (set (vert_adj v)) \<le> length (vert_edges v)"
    using card_length [of "vert_adj v"] by (simp add: vert_adj_def)
  ultimately show ?thesis by auto
qed

lemma bars: "v < 54 \<Longrightarrow> card (insert v (set (vert_adj v))) \<le> 4"
  using corner_edges [of v] card_insert_if [of "set (vert_adj v)" v] by (simp split: if_splits)

lemma slots_seats: "1 \<le> first st \<Longrightarrow> first st \<le> h_cap st \<Longrightarrow> set (setupSlots st) \<subseteq> {1..h_cap st}"
proof -
  assume "1 \<le> first st" "first st \<le> h_cap st"
  then have "n mod h_cap st + 1 \<le> h_cap st" for n
    using mod_less_divisor [of "h_cap st" n] by linarith
  then show ?thesis by (auto simp: setupSlots_def seatOrder_def)
qed

text \<open>A homestead occupies its corner and bars at most three more, so fourteen slots leave a corner free.\<close>

lemma free_corner:
  assumes i: "hx_inv st" "setup_sites st" "phase st = PSetup" "h_cap st \<le> 7"
  shows "\<exists>v < 54. vertexFree st v"
proof -
  let ?bar = "\<lambda>s. \<Union>v \<in> set (p_steads (players st s)). insert v (set (vert_adj v))"
  define B where "B = (\<Union>s \<in> {1..h_cap st}. ?bar s)"
  have s: "1 \<le> first st" "first st \<le> h_cap st" using inv_parts(7) [OF i(1)] by (simp_all add: turn_ok_def)
  have idx: "setupIdx st < length (setupSlots st)"
    and few: "\<And>s. s \<in> {1..h_cap st} \<Longrightarrow> length (p_steads (players st s)) \<le> count_list (take (setupIdx st) (setupSlots st)) s"
    using inv_parts(4) [OF i(1)] i(3) by (simp_all add: setup_ok_def)
  have v: "v < 54" if "s \<in> {1..h_cap st}" "v \<in> set (p_steads (players st s))" for s v
    using inv_parts(2) [OF i(1)] that by (auto simp: board_def pieces_ok_def NVERT_54)
  have "card (?bar s) \<le> 4 * length (p_steads (players st s))" if t: "s \<in> {1..h_cap st}" for s
  proof -
    have "card (?bar s) \<le> (\<Sum>v \<in> set (p_steads (players st s)). card (insert v (set (vert_adj v))))" by (rule card_UN_le) simp
    also have "\<dots> \<le> (\<Sum>v \<in> set (p_steads (players st s)). 4)"
      using bars v [OF t] by (intro sum_mono) blast
    also have "\<dots> \<le> 4 * length (p_steads (players st s))" using card_length [of "p_steads (players st s)"] by simp
    finally show ?thesis .
  qed
  then have "(\<Sum>s \<in> {1..h_cap st}. card (?bar s)) \<le> (\<Sum>s \<in> {1..h_cap st}. 4 * length (p_steads (players st s)))"
    by (rule sum_mono)
  moreover have "card B \<le> (\<Sum>s \<in> {1..h_cap st}. card (?bar s))" unfolding B_def by (rule card_UN_le) simp
  ultimately have "card B \<le> (\<Sum>s \<in> {1..h_cap st}. 4 * length (p_steads (players st s)))" by (rule order_trans [rotated])
  also have "\<dots> \<le> 4 * (\<Sum>s \<in> {1..h_cap st}. count_list (take (setupIdx st) (setupSlots st)) s)"
    unfolding sum_distrib_left using few by (intro sum_mono) simp
  also have "\<dots> = 4 * setupIdx st"
  proof -
    have "set (take (setupIdx st) (setupSlots st)) \<subseteq> {1..h_cap st}" using slots_seats [OF s] set_take_subset by fast
    then show ?thesis using idx by (simp add: sum_count_set)
  qed
  also have "\<dots> \<le> 52" using idx i(4) by (simp add: setupSlots_def seatOrder_def)
  finally have "card B < card {..<54 :: nat}" by simp
  then have "\<not> {..<54} \<subseteq> B" using card_mono [of B "{..<54 :: nat}"] by (auto simp: B_def)
  then obtain c where c: "c < 54" "c \<notin> B" by auto
  have "\<not> owns_vertex st s w" if "s \<in> set (seats st)" "w = c \<or> w \<in> set (vert_adj c)" for s w
  proof
    assume "owns_vertex st s w"
    then have "w \<in> set (p_steads (players st s))" using i(2,3) that(1) by (auto simp: owns_vertex_def setup_sites_def)
    moreover have "c \<in> insert w (set (vert_adj w))" using that(2) vert_adj_sym by blast
    ultimately show False using c(2) that(1) by (auto simp: B_def)
  qed
  then show ?thesis using c(1) by (auto simp: vertexFree_def)
qed

lemma setup_can_move:
  assumes i: "hx_inv st" "setup_sites st" "phase st = PSetup" "h_cap st \<le> 7"
  shows "setup_moves st \<noteq> []"
proof -
  obtain v where v: "v < 54" "vertexFree st v" using free_corner [OF i] by blast
  obtain e where e: "e \<in> set (vert_edges v)" using corner_edges [OF v(1)] by (cases "vert_edges v") auto
  have "edgeFree st e"
    unfolding edgeFree_def
  proof (intro ballI notI)
    fix s assume s: "s \<in> set (seats st)" and r: "e \<in> set (p_roads (players st s))"
    then obtain w where w: "w = edge_a e \<or> w = edge_b e" "w \<in> set (p_steads (players st s))"
      using i(2,3) unfolding setup_sites_def seats_set by (metis atLeastAtMost_iff)
    have "w = v \<or> w \<in> set (vert_adj v)" using w(1) e by (auto simp: vert_edges_iff vert_adj_def edge_other_def)
    then show False using v(2) s w(2) by (auto simp: vertexFree_def owns_vertex_def)
  qed
  then have "hx_enc OP_SETUP v e \<in> set (setup_moves st)"
    using v e unfolding setup_moves_def set_concat set_map set_filter by (auto simp: NVERT_54)
  then show ?thesis by auto
qed

text \<open>The head of the actors, and every seat that owes a discard, has a move.\<close>

lemma can_move:
  assumes t: "table_live cap i st" "cap \<le> 7" and go: "\<not> over st" "corrupt st = 0" "\<not> blocked st"
  shows "actorsNow st \<noteq> [] \<and> set (actorsNow st) \<subseteq> {1..cap} \<and>
         (\<forall>s \<in> set (actorsNow st). s = hd (actorsNow st) \<or> phase st = PDiscard \<longrightarrow> hx_legalMoves st s \<noteq> [])"
proof -
  have i: "hx_inv st" "h_cap st = cap" "setup_sites st" using t(1) by (simp_all add: table_live_def table_ok_def)
  have turn: "phase st \<noteq> PSetup \<Longrightarrow> 1 \<le> turnSeat st \<and> turnSeat st \<le> cap" "1 \<le> first st" "first st \<le> h_cap st"
    using inv_parts(7) [OF i(1)] i(2) by (auto simp: turn_ok_def)
  show ?thesis
  proof (cases "phase st")
    case PSetup
    have "setupIdx st < length (setupSlots st)" using inv_parts(4) [OF i(1)] PSetup by (simp add: setup_ok_def)
    then have "setupSlots st ! setupIdx st \<in> {1..cap}" using slots_seats [OF turn(2,3)] i(2) nth_mem by blast
    then show ?thesis
      using go PSetup setup_can_move [OF i(1,3) PSetup] i(2) t(2) by (simp add: actorsNow_def hx_legalMoves_def)
  next
    case PDiscard
    have "\<exists>s \<in> {1..h_cap st}. 0 < owe (players st s)" using inv_parts(5) [OF i(1)] PDiscard by (simp add: debts_ok_def)
    then have "filter (\<lambda>s. owe (players st s) > 0) (seats st) \<noteq> []" by (auto simp: filter_empty_conv)
    then show ?thesis using go PDiscard i(2) by (auto simp: actorsNow_def hx_legalMoves_def)
  next
    case PRobber
    have "(if robber st = 0 then 1 else 0) < (19 :: nat)" "(if robber st = 0 then 1 else 0) \<noteq> robber st" by auto
    then obtain h where "h < NHEX" "h \<noteq> robber st" unfolding NHEX_19 by blast
    then have "robber_moves st (turnSeat st) \<noteq> []"
      unfolding robber_moves_def concat_eq_Nil_conv
      by (intro notI) (drule bspec [where x = "if victims st (turnSeat st) h \<noteq> [] then map (\<lambda>v. hx_enc OP_ROBBER h v) (victims st (turnSeat st) h)
          else [hx_enc OP_ROBBER h 0]"], auto split: if_splits)
    then show ?thesis using go PRobber turn(1) by (auto simp: actorsNow_def hx_legalMoves_def)
  next
    case PPreroll
    then show ?thesis using go turn(1) by (simp add: actorsNow_def hx_legalMoves_def)
  next
    case PMain
    then show ?thesis using go turn(1) i(2) by (auto simp: actorsNow_def hx_legalMoves_def)
  qed
qed

end
