(* ===== verification/HexSolo.thy ===== *)
theory HexSolo
  imports HexLive Provable "HOL-Library.Word"
begin

text \<open>
  Solo runs of Hexholm (\<^verbatim>\<open>static/hexholm-bot.js\<close>): the seeded generator, the bot's choice of a move,
  the interleaving of the player's moves with the bot's replies, and the claim of the daily run. The
  source draws fractions \<open>u / 2 ^ 32\<close> of a 32-bit word \<open>u\<close>, which are exact; here a draw is the word,
  \<^verbatim>\<open>rnd() < 0.35\<close> is \<open>100 u < 35 * 2 ^ 32\<close> (the double nearest to 0.35 is between the same two
  fractions), and \<^verbatim>\<open>Math.floor(rnd() * n)\<close> is \<open>u n div 2 ^ 32\<close>. The hash of the engine is the
  parameter \<open>H\<close>; \<open>None\<close> is a run whose layout is never dealt.
\<close>

unbundle bit_operations_syntax

declare One_nat_def [simp del]

section \<open>The generator\<close>

type_synonym rng = "32 word"

definition prng :: "string \<Rightarrow> rng" where
  "prng seedStr =
     fold (\<lambda>c h. let h1 = (h XOR of_nat (of_char c)) * 3432918353 in push_bit 13 h1 OR drop_bit 19 h1) seedStr
       (1779033703 XOR of_nat (length seedStr))"

text \<open>A draw: the word that is returned is also the next state.\<close>

definition rnd :: "rng \<Rightarrow> rng" where
  "rnd h =
     (let h1 = (h XOR drop_bit 16 h) * 2246822507; h2 = (h1 XOR drop_bit 13 h1) * 3266489909
      in h2 XOR drop_bit 16 h2)"

definition below :: "nat \<Rightarrow> rng \<Rightarrow> bool" where "below pct u \<longleftrightarrow> unat u * 100 < pct * 2 ^ 32"

definition draw_index :: "rng \<Rightarrow> nat \<Rightarrow> nat" where "draw_index u n = unat u * n div 2 ^ 32"

section \<open>The bot's move\<close>

definition opOf :: "nat \<Rightarrow> nat" where "opOf e = fst (hx_dec e)"

definition PRIO :: "nat list" where
  "PRIO = [OP_WIN, OP_KEEP, OP_STEAD, OP_SETUP, OP_ROAD, OP_BUY, OP_WARDEN, OP_PATH, OP_BOUNTY, OP_LEVY, OP_BANK,
           OP_ACCEPT, OP_DISCARD, OP_ROBBER, OP_ROLL, OP_END]"

text \<open>Whether a move is considered, and the generator afterwards: only some moves draw.\<close>

definition consider_move :: "nat \<Rightarrow> rng \<Rightarrow> bool \<times> rng" where
  "consider_move m h =
     (let opc = opOf m
      in if opc = OP_END then (True, h)
         else if opc \<in> {OP_WARDEN, OP_PATH, OP_BOUNTY, OP_LEVY} then (below 35 (rnd h), rnd h)
         else if opc = OP_BANK then (below 50 (rnd h), rnd h)
         else if opc = OP_BUY then (below 60 (rnd h), rnd h)
         else (True, h))"

fun playable :: "nat list \<Rightarrow> rng \<Rightarrow> nat list \<times> rng" where
  "playable [] h = ([], h)"
| "playable (m # ms) h =
     (let (ok, h1) = consider_move m h; (rest, h2) = playable ms h1 in (if ok then m # rest else rest, h2))"

fun pick_by_prio :: "nat list \<Rightarrow> nat list \<Rightarrow> rng \<Rightarrow> nat" where
  "pick_by_prio pool [] h = pool ! draw_index (rnd h) (length pool)"
| "pick_by_prio pool (want # ws) h =
     (let found = filter (\<lambda>m. opOf m = want) pool
      in if found = [] then pick_by_prio pool ws h
         else if want = OP_END \<and> (\<exists>m \<in> set pool. opOf m \<noteq> OP_END)
         then (if below 85 (rnd h) then pick_by_prio pool ws (rnd h)
               else found ! draw_index (rnd (rnd h)) (length found))
         else found ! draw_index (rnd h) (length found))"

definition pickMove :: "hx \<Rightarrow> nat \<Rightarrow> rng \<Rightarrow> nat option" where
  "pickMove st seat h =
     (let moves = hx_legalMoves st seat
      in if moves = [] then None
         else (let (ok, h1) = playable moves h in Some (pick_by_prio (if ok = [] then moves else ok) PRIO h1)))"

section \<open>Runs\<close>

text \<open>\<^verbatim>\<open>Math.floor(rnd() * 2 ** 30)\<close>, three times.\<close>

definition soloQ :: "string \<Rightarrow> nat \<Rightarrow> nat" where
  "soloQ seed h =
     (let u1 = rnd (prng (seed @ '':'' @ show_nat h)); u2 = rnd u1; u3 = rnd u2
      in unat u1 div 4 * 2 ^ 60 + unat u2 div 4 * 2 ^ 30 + unat u3 div 4)"

definition soloSecrets :: "string \<Rightarrow> nat \<Rightarrow> nat option" where
  "soloSecrets seed s = (if s = 1 then Some (soloQ seed 777771) else if s = 2 then Some (soloQ seed 777772) else None)"

text \<open>A record of a run is a move and its side; record \<open>i\<close> has the seed of height \<open>1000 + i\<close>.\<close>

type_synonym solo_rec = "nat \<times> nat"

definition solo_log :: "string \<Rightarrow> solo_rec list \<Rightarrow> hx_rec list" where
  "solo_log seed recs = map (\<lambda>i. (fst (recs ! i), snd (recs ! i), Some (soloQ seed (1000 + i)))) [0..<length recs]"

definition soloReplay :: "(nat \<Rightarrow> nat) \<Rightarrow> string \<Rightarrow> solo_rec list \<Rightarrow> hx option" where
  "soloReplay H seed recs =
     hx_replay H (Some (soloQ seed 999)) (solo_log seed recs) 2 (soloSecrets seed) (\<lambda>s. s = 1 \<or> s = 2)"

definition botMustAct :: "hx \<Rightarrow> bool" where
  "botMustAct st \<longleftrightarrow>
     \<not> over st \<and> corrupt st = 0 \<and> \<not> blocked st \<and>
     ((actorsNow st \<noteq> [] \<and> actorsNow st ! 0 = 2) \<or> (phase st = PDiscard \<and> owe (players st 2) > 0))"

definition SOLO_TURNS :: nat where "SOLO_TURNS = 12"
definition MAX_MY :: nat where "MAX_MY = 100"

record solo =
  so_st :: hx
  so_recs :: "solo_rec list"
  so_used :: nat
  so_ends :: nat

definition so_done :: "solo \<Rightarrow> bool" where
  "so_done s \<longleftrightarrow> so_ends s \<ge> SOLO_TURNS \<or> over (so_st s)"

definition bot_reply :: "string \<Rightarrow> solo \<Rightarrow> nat option" where
  "bot_reply seed s = pickMove (so_st s) 2 (prng (seed @ '':bot:'' @ show_nat (length (so_recs s))))"

text \<open>The next record of the run, if there is one: the bot's reply, or the player's next move.\<close>

definition next_rec :: "string \<Rightarrow> nat list \<Rightarrow> solo \<Rightarrow> solo_rec option" where
  "next_rec seed my s =
     (if over (so_st s) \<or> corrupt (so_st s) \<noteq> 0 \<or> blocked (so_st s) \<or> so_ends s \<ge> SOLO_TURNS then None
      else if botMustAct (so_st s) then map_option (\<lambda>mv. (mv, 2)) (bot_reply seed s)
      else if so_used s < length my then Some (my ! so_used s, 1) else None)"

definition push_rec :: "solo_rec \<Rightarrow> solo \<Rightarrow> solo" where
  "push_rec r s =
     s\<lparr>so_recs := so_recs s @ [r], so_used := so_used s + (if snd r = 1 then 1 else 0),
       so_ends := so_ends s + (if snd r = 1 \<and> fst r mod 64 = OP_END then 1 else 0)\<rparr>"

primrec solo_loop :: "(nat \<Rightarrow> nat) \<Rightarrow> string \<Rightarrow> nat list \<Rightarrow> nat \<Rightarrow> solo \<Rightarrow> solo option" where
  "solo_loop H seed my 0 s = Some s"
| "solo_loop H seed my (Suc guard) s =
     (case next_rec seed my s of
        None \<Rightarrow> Some s
      | Some r \<Rightarrow>
          (case soloReplay H seed (so_recs (push_rec r s)) of
             None \<Rightarrow> None
           | Some st \<Rightarrow> solo_loop H seed my guard ((push_rec r s)\<lparr>so_st := st\<rparr>)))"

definition soloState :: "(nat \<Rightarrow> nat) \<Rightarrow> string \<Rightarrow> nat list \<Rightarrow> solo option" where
  "soloState H seed my =
     (case soloReplay H seed [] of
        None \<Rightarrow> None
      | Some st \<Rightarrow> solo_loop H seed my 1500 \<lparr>so_st = st, so_recs = [], so_used = 0, so_ends = 0\<rparr>)"

text \<open>Points that are unknown count as nothing (\<^verbatim>\<open>null\<close> in a product).\<close>

definition soloScore :: "hx \<Rightarrow> nat \<Rightarrow> int" where
  "soloScore st n = int ((case totalVp st 1 of None \<Rightarrow> 0 | Some v \<Rightarrow> v) * 101) + (int MAX_MY - int n)"

section \<open>The daily claim\<close>

definition seedOfDay :: "nat \<Rightarrow> string \<Rightarrow> string \<Rightarrow> string" where
  "seedOfDay day anchor addr = provableSeed ''hexholm'' day anchor addr"

definition CLAIM_WORDS :: nat where "CLAIM_WORDS = 150"
definition M25 :: nat where "M25 = 2 ^ 25"

definition move_syms :: "nat \<Rightarrow> nat list" where
  "move_syms e = [e mod M25, e div M25 mod M25, e div (M25 * M25)]"

definition packRun :: "nat list \<Rightarrow> nat list" where
  "packRun encs =
     (let syms = concat (map move_syms encs)
      in packMoves (syms @ replicate (MAX_MY * 3 - length syms) 0) 25)"

definition unpackRun :: "nat list \<Rightarrow> nat \<Rightarrow> nat list" where
  "unpackRun words n =
     (let syms = unpackMoves words 25 (n * 3)
      in map (\<lambda>i. syms ! (3 * i) + syms ! (3 * i + 1) * M25 + syms ! (3 * i + 2) * M25 * M25) [0..<n])"

text \<open>\<open>None\<close>: the layout is never dealt; a claim that is rejected scores -1.\<close>

definition hx_verifyClaim :: "(nat \<Rightarrow> nat) \<Rightarrow> nat \<Rightarrow> nat \<Rightarrow> nat list \<Rightarrow> string \<Rightarrow> string \<Rightarrow> int option" where
  "hx_verifyClaim H day n words anchor addr =
     (if \<not> (n > 0 \<and> n \<le> MAX_MY) then Some (-1)
      else (let encs = unpackRun words n
            in if list_ex (\<lambda>e. \<not> (e > 0 \<and> e < 2 ^ 53)) encs then Some (-1)
               else map_option (\<lambda>s. if corrupt (so_st s) \<noteq> 0 \<or> \<not> so_done s \<or> so_used s \<noteq> n then -1 else soloScore (so_st s) n)
                      (soloState H (seedOfDay day anchor addr) encs)))"

end
