(* ===== verification/SoloRules.thy ===== *)
theory SoloRules
  imports HexSolo
begin

text \<open>
  What a solo run of Hexholm keeps: no step touches the secrets or blocks the game, a step is blamed on the
  seat that made it, and a move the bot picks is one the referee accepts.
\<close>

declare One_nat_def [simp del]

section \<open>What no step touches\<close>

definition fixed where "fixed st = (secrets st, blocked st, h_cap st)"

named_theorems hx_fixed \<open>operations that keep secrets, block mark and seats\<close>

lemma fixed_updates [hx_fixed]:
  "fixed (st\<lparr>bank := b\<rparr>) = fixed st" "fixed (st\<lparr>mi := n\<rparr>) = fixed st" "fixed (st\<lparr>robber := h\<rparr>) = fixed st"
  "fixed (st\<lparr>phase := p\<rparr>) = fixed st" "fixed (st\<lparr>dice := d, rolled := r\<rparr>) = fixed st" "fixed (st\<lparr>offers := os\<rparr>) = fixed st"
  "fixed (st\<lparr>devBought := n\<rparr>) = fixed st" "fixed (st\<lparr>over := x, winner := n\<rparr>) = fixed st"
  "fixed (st\<lparr>pendingWin := n\<rparr>) = fixed st" "fixed (st\<lparr>playedScroll := x, playsLog := pl\<rparr>) = fixed st"
  by (simp_all add: fixed_def)

lemma fixed_prims [hx_fixed]:
  "fixed (set_player s p st) = fixed st" "fixed (add_log s ev st) = fixed st" "fixed (bad w s st) = fixed st"
  "fixed (set_owe st) = fixed st" "fixed (startTurn st) = fixed st" "fixed (setup_advance st) = fixed st"
  by (simp_all add: fixed_def set_player_def add_log_def bad_def set_owe_def startTurn_def endOffers_def setup_advance_def Let_def)

lemma fixed_players [hx_fixed]:
  "fixed (grant s r n st) = fixed st" "fixed (payCost s c st) = fixed st" "fixed (note_play s ty st) = fixed st"
  "fixed (raise_keep s v st) = fixed st" "fixed (add_road s e st) = fixed st" "fixed (add_stead s v st) = fixed st"
  by (simp_all add: grant_def payCost_def note_play_def raise_keep_def add_road_def add_stead_def Let_def hx_fixed)

lemma fixed_fold: "(\<And>x st. fixed (f x st) = fixed st) \<Longrightarrow> fixed (fold f xs st) = fixed st"
  by (induction xs arbitrary: st) simp_all

lemma fixed_folds [hx_fixed]:
  "fixed (found_pay s v st) = fixed st" "fixed (production st n) = fixed st" "fixed (log_gains st0 n st) = fixed st"
  "fixed (fold (levy_take s r) xs st) = fixed st"
  unfolding found_pay_def production_def log_gains_def
  by (intro fixed_fold; auto simp: levy_take_def Let_def hx_fixed split: prod.split)+

lemma fixed_path [hx_fixed]: "fixed (path_roads s es st) = fixed st"
  by (induction es arbitrary: st) (simp_all add: hx_fixed)

lemma fixed_refresh [hx_fixed]: "fixed (refreshBadges l st) = fixed st"
proof -
  have "fixed (st\<lparr>players := ps\<rparr>\<lparr>roadHolder := x\<rparr>\<lparr>watchHolder := y\<rparr>) = fixed st" for ps x y by (simp add: fixed_def)
  then show ?thesis unfolding refreshBadges_def Let_def by (simp only: hx_fixed split: if_split) simp
qed

lemma fixed_steal: "fixed (snd (stealFrom H s v q st)) = fixed st"
  unfolding stealFrom_def Let_def by (simp add: hx_fixed split: option.split)

lemma fixed_robber: "fixed (hx_robber H side q a b st) = fixed st" "fixed (hx_warden H side q a b st) = fixed st"
proof -
  obtain g st2 where s: "stealFrom H side b q (st\<lparr>robber := a\<rparr>) = (g, st2)" by fastforce
  have "fixed st2 = fixed st" using fixed_steal [of H side b q "st\<lparr>robber := a\<rparr>"] by (simp add: s hx_fixed)
  then show "fixed (hx_robber H side q a b st) = fixed st" "fixed (hx_warden H side q a b st) = fixed st"
    using s by (cases "side = turnSeat st"; simp add: hx_robber_def hx_warden_def Let_def hx_fixed split: option.split)+
qed

lemma fixed_handlers:
  "fixed (hx_setup side mv st) = fixed st" "fixed (hx_discard side mv st) = fixed st" "fixed (hx_roll H side q st) = fixed st"
  "fixed (hx_path side a b st) = fixed st" "fixed (hx_bounty side a b st) = fixed st" "fixed (hx_levy side a st) = fixed st"
  "fixed (hx_road side a st) = fixed st" "fixed (hx_stead side a st) = fixed st" "fixed (hx_keep side a st) = fixed st"
  "fixed (hx_buy H side q st) = fixed st" "fixed (hx_bank side a b st) = fixed st" "fixed (hx_offer_op i side a b st) = fixed st"
  "fixed (hx_accept side a st) = fixed st" "fixed (hx_rescind side a st) = fixed st" "fixed (hx_end side st) = fixed st"
  "fixed (hx_win side st) = fixed st"
  by (simp_all add: hx_handlers Let_def hx_fixed split: prod.split option.split)

lemma fixed_step: "fixed (hx_step H i e side q st) = fixed st"
proof -
  have "fixed (hx_dispatch H i side q (opc, a, b) (st\<lparr>mi := i + 1\<rparr>)) = fixed st" for opc a b
    by (rule dispatch_cases) (simp_all add: hx_fixed fixed_handlers fixed_robber)
  then show ?thesis unfolding hx_step_def Let_def by (cases "hx_dec e") (simp add: hx_fixed fixed_handlers)
qed

section \<open>Who is blamed\<close>

text \<open>A step of an intact game leaves it intact or blames the seat that made it.\<close>

definition blame :: "nat \<Rightarrow> hx \<Rightarrow> hx \<Rightarrow> bool" where
  "blame side st st' \<longleftrightarrow> corrupt st' = corrupt st \<or> corrupt st' = side"

lemma blame_bad [simp]: "1 \<le> side \<Longrightarrow> blame side st (bad w side st')"
  by (simp add: blame_def bad_def)

lemma corrupt_path: "1 \<le> side \<Longrightarrow> corrupt (path_roads side es st) = corrupt st \<or> corrupt (path_roads side es st) = side"
proof (induction es arbitrary: st)
  case (Cons e es)
  then show ?case using Cons.IH [of "add_road side e st"] by (auto simp: pieces_simps bad_def)
qed simp

lemma corrupt_updates [hx_proj]: "corrupt (st\<lparr>playedScroll := x, playsLog := pl\<rparr>) = corrupt st" "corrupt (st\<lparr>robber := h\<rparr>) = corrupt st"
  by simp_all

lemma blame_robber:
  assumes "1 \<le> side" shows "blame side st (hx_robber H side q a b st)" "blame side st (hx_warden H side q a b st)"
proof -
  obtain g st2 where s: "stealFrom H side b q (st\<lparr>robber := a\<rparr>) = (g, st2)" by fastforce
  have "corrupt st2 = corrupt st" using steal_snd [OF s] by simp
  then show "blame side st (hx_robber H side q a b st)" "blame side st (hx_warden H side q a b st)"
    using s assms
    by (cases "side = turnSeat st"; simp add: hx_robber_def hx_warden_def Let_def blame_def hx_proj split: option.split)+
qed

lemma blame_handlers:
  assumes "1 \<le> side"
  shows "blame side st (hx_setup side mv st)" "blame side st (hx_discard side mv st)" "blame side st (hx_roll H side q st)"
    "blame side st (hx_bounty side a b st)" "blame side st (hx_levy side a st)" "blame side st (hx_road side a st)"
    "blame side st (hx_stead side a st)" "blame side st (hx_keep side a st)" "blame side st (hx_buy H side q st)"
    "blame side st (hx_bank side a b st)" "blame side st (hx_offer_op i side a b st)" "blame side st (hx_accept side a st)"
    "blame side st (hx_rescind side a st)" "blame side st (hx_end side st)" "blame side st (hx_win side st)"
  using assms by (simp_all add: hx_handlers Let_def blame_def hx_proj split: prod.split option.split)

lemma blame_path:
  assumes "1 \<le> side" shows "blame side st (hx_path side a b st)"
proof -
  have p: "blame side st (if corrupt x \<noteq> 0 then x else refreshBadges True (add_log side ev (note_play side t x)))"
    if "corrupt x = corrupt st \<or> corrupt x = side" for x ev t
    using that by (auto simp: blame_def hx_proj)
  have i: "blame side st y \<Longrightarrow> blame side st (if c then bad w side st else y)" for c y w using assms by simp
  show ?thesis unfolding hx_path_def Let_def
    by (rule i, cases "playGate st side PATHWRIGHT"; simp only: option.case)
      (rule i, rule p, rule corrupt_path [OF assms], rule blame_bad [OF assms])
qed

lemma blame_step:
  assumes "corrupt st = 0" "1 \<le> side"
  shows "corrupt (hx_step H i e side q st) = 0 \<or> corrupt (hx_step H i e side q st) = side"
proof -
  let ?st = "st\<lparr>mi := i + 1\<rparr>"
  have "blame side ?st (hx_dispatch H i side q (opc, a, b) ?st)" for opc a b
    by (rule dispatch_cases) (simp_all add: blame_handlers blame_robber blame_path assms)
  then have "blame side ?st (hx_step H i e side q st)"
    unfolding hx_step_def Let_def by (cases "hx_dec e") (simp add: blame_handlers assms)
  then show ?thesis using assms(1) by (simp add: blame_def)
qed

section \<open>The bot picks a legal move\<close>

lemma draw_index_less: "0 < n \<Longrightarrow> draw_index u n < n"
proof -
  assume n: "0 < n"
  have "unat u < 2 ^ 32" using unsigned_less [of u] by simp
  then have "unat u * n < 2 ^ 32 * n" using n by simp
  then show ?thesis unfolding draw_index_def by (simp add: div_less_iff_less_mult mult.commute)
qed

lemma playable_sub: "set (fst (playable ms h)) \<subseteq> set ms"
proof (induction ms arbitrary: h)
  case (Cons m ms)
  obtain ok h1 where c: "consider_move m h = (ok, h1)" by fastforce
  obtain rest h2 where p: "playable ms h1 = (rest, h2)" by fastforce
  show ?case using Cons.IH [of h1] by (auto simp: c p)
qed simp

lemma nth_draw: "xs \<noteq> [] \<Longrightarrow> xs ! draw_index u (length xs) \<in> set xs"
  by (intro nth_mem draw_index_less) simp

lemma pick_in_pool: "pool \<noteq> [] \<Longrightarrow> pick_by_prio pool ws h \<in> set pool"
proof (induction ws arbitrary: h)
  case (Cons w ws)
  let ?f = "filter (\<lambda>m. opOf m = w) pool"
  have f: "?f \<noteq> [] \<Longrightarrow> ?f ! draw_index u (length ?f) \<in> set pool" for u
    using nth_draw [of ?f u] by auto
  show ?case using Cons f by (auto simp: Let_def)
qed (simp add: nth_draw)

lemma pick_legal: "pickMove st seat h = Some m \<Longrightarrow> m \<in> set (hx_legalMoves st seat)"
proof -
  assume p: "pickMove st seat h = Some m"
  define ms where "ms = hx_legalMoves st seat"
  obtain ok h1 where o: "playable ms h = (ok, h1)" by fastforce
  have "ms \<noteq> []" "m = pick_by_prio (if ok = [] then ms else ok) PRIO h1"
    using p by (auto simp: pickMove_def ms_def [symmetric] Let_def o split: if_splits)
  moreover have "set ok \<subseteq> set ms" using playable_sub [of ms h] by (simp add: o)
  ultimately show ?thesis using pick_in_pool [of "if ok = [] then ms else ok" PRIO h1] by (auto simp: ms_def split: if_splits)
qed

lemma pick_some: "hx_legalMoves st seat \<noteq> [] \<Longrightarrow> \<exists>m. pickMove st seat h = Some m"
  by (simp add: pickMove_def Let_def split: prod.split)

end
