(* ===== verification/SoloProperties.thy ===== *)
theory SoloProperties
  imports SoloRules
begin

text \<open>The properties of live Hexholm tables and of the solo runs against the bot.\<close>

declare One_nat_def [simp del]

section \<open>No table gets stuck\<close>

text \<open>C16: A Hexholm table never gets stuck. At a table of at most seven seats, after any replayed log that has neither
  ended nor is waiting for a seed, the state every client computes is the state the referee judges, the
  seats the interface asks are seats of the table, the first of them and every seat that owes a discard
  has a move the generator lists, and the referee accepts it whatever its seed.\<close>

theorem hx_never_stuck:
  assumes "layout H k cap = Some lay" "1 \<le> cap" "cap \<le> 7" "\<forall>r \<in> set recs. seated cap r" "length recs \<le> A_LIM"
    and "hx_replay H (Some k) recs cap sec com = Some st" "\<not> hx_halted st" "\<not> blocked st"
  shows "st = hx_loop H 0 recs (hx_start cap sec com lay) \<and> actorsNow st \<noteq> [] \<and> set (actorsNow st) \<subseteq> {1..cap} \<and>
         (\<forall>s \<in> set (actorsNow st). s = hd (actorsNow st) \<or> phase st = PDiscard \<longrightarrow>
            (\<exists>e \<in> set (hx_legalMoves st s). \<forall>q. corrupt (hx_loop H 0 (recs @ [(e, s, Some q)]) (hx_start cap sec com lay)) = 0))"
proof -
  let ?l = "hx_loop H 0 recs (hx_start cap sec com lay)"
  have "corrupt ?l = 0" using assms(1,6,7) by (auto simp: hx_replay_def hx_halted_def hx_proj)
  then have st: "st = ?l" using replay_loop [OF assms(1,2,4)] assms(6) by simp
  obtain i where t: "table_live cap i ?l" using loop_live [OF assms(1,2,4)] by blast
  have m: "actorsNow st \<noteq> []" "set (actorsNow st) \<subseteq> {1..cap}"
    "\<And>s. s \<in> set (actorsNow st) \<Longrightarrow> s = hd (actorsNow st) \<or> phase st = PDiscard \<Longrightarrow> hx_legalMoves st s \<noteq> []"
    using can_move [OF t assms(3)] assms(7,8) unfolding st hx_halted_def by auto
  have "\<exists>e \<in> set (hx_legalMoves st s). \<forall>q. corrupt (hx_loop H 0 (recs @ [(e, s, Some q)]) (hx_start cap sec com lay)) = 0"
    if s: "s \<in> set (actorsNow st)" "s = hd (actorsNow st) \<or> phase st = PDiscard" for s
  proof -
    obtain e where e: "e \<in> set (hx_legalMoves st s)" using m(3) [OF s] by (cases "hx_legalMoves st s") auto
    have "1 \<le> s" "s \<le> cap" using m(2) s(1) by auto
    from legal_accepted [OF assms(1,2,4,5) this e [unfolded st]] show ?thesis using e unfolding st by blast
  qed
  with st m(1,2) show ?thesis by blast
qed

section \<open>Replaying a run one record further\<close>

definition solo_sides :: "solo_rec list \<Rightarrow> bool" where
  "solo_sides recs \<longleftrightarrow> (\<forall>r \<in> set recs. snd r = 1 \<or> snd r = 2)"

abbreviation solo_start :: "string \<Rightarrow> hx_layout \<Rightarrow> hx" where
  "solo_start seed lay \<equiv> hx_start 2 (soloSecrets seed) (\<lambda>s. s = 1 \<or> s = 2) lay"

lemma solo_log_snoc:
  "solo_log seed (recs @ [r]) = solo_log seed recs @ [(fst r, snd r, Some (soloQ seed (1000 + length recs)))]"
  by (simp add: solo_log_def nth_append)

lemma length_solo_log [simp]: "length (solo_log seed recs) = length recs"
  by (simp add: solo_log_def)

lemma solo_seated: "solo_sides recs \<Longrightarrow> \<forall>r \<in> set (solo_log seed recs). seated 2 r"
proof
  fix r assume a: "solo_sides recs" "r \<in> set (solo_log seed recs)"
  then obtain i where "i < length recs" "r = (fst (recs ! i), snd (recs ! i), Some (soloQ seed (1000 + i)))"
    by (auto simp: solo_log_def)
  then show "seated 2 r" using a(1) nth_mem [of i recs] unfolding solo_sides_def by (fastforce simp: seated_def)
qed

lemma loop_fixed: "\<forall>r \<in> set rs. snd (snd r) \<noteq> None \<Longrightarrow> fixed (hx_loop H i rs st) = fixed st"
  by (induction H i rs st rule: hx_loop.induct) (auto simp: fixed_step split: option.split)

lemma solo_fixed: "fixed (hx_loop H 0 (solo_log seed recs) (solo_start seed lay)) = (soloSecrets seed, False, 2)"
  by (subst loop_fixed) (auto simp: solo_log_def fixed_def hx_start_def)

lemma solo_replay_some:
  "layout H (soloQ seed 999) 2 = Some lay \<Longrightarrow>
     soloReplay H seed recs = Some (refreshBadges False (hx_loop H 0 (solo_log seed recs) (solo_start seed lay)))"
  by (simp add: soloReplay_def hx_replay_def)

text \<open>A replayed run that is intact is at the referee's state, which is not blocked.\<close>

lemma solo_state:
  assumes l: "layout H (soloQ seed 999) 2 = Some lay" and s: "solo_sides recs"
    and r: "soloReplay H seed recs = Some st" "corrupt st = 0"
  shows "st = hx_loop H 0 (solo_log seed recs) (solo_start seed lay)" "\<not> blocked st" "\<exists>i. table_live 2 i st"
proof -
  have "corrupt (hx_loop H 0 (solo_log seed recs) (solo_start seed lay)) = 0"
    using r solo_replay_some [OF l, of recs] by (auto simp: hx_proj)
  from replay_loop [OF l _ solo_seated [OF s] this] show e: "st = hx_loop H 0 (solo_log seed recs) (solo_start seed lay)"
    using r(1) by (simp add: soloReplay_def)
  show "\<not> blocked st" using solo_fixed [of H seed recs lay] by (simp add: e fixed_def)
  show "\<exists>i. table_live 2 i st" using loop_live [OF l _ solo_seated [OF s]] unfolding e by fastforce
qed

lemma solo_replay_next:
  assumes l: "layout H (soloQ seed 999) 2 = Some lay" and s: "solo_sides recs" "snd r = 1 \<or> snd r = 2" "length recs \<le> A_LIM"
    and st: "soloReplay H seed recs = Some st" "corrupt st = 0" "\<not> over st"
  shows "\<exists>st'. soloReplay H seed (recs @ [r]) = Some st' \<and> (corrupt st' = 0 \<or> corrupt st' = snd r) \<and>
           (fst r \<in> set (hx_legalMoves st (snd r)) \<longrightarrow> corrupt st' = 0)"
proof -
  note e = solo_state [OF l s(1) st(1,2)]
  let ?s' = "hx_loop H 0 (solo_log seed (recs @ [r])) (solo_start seed lay)"
  have go: "\<not> hx_halted (hx_loop H 0 (solo_log seed recs) (solo_start seed lay))"
    "\<not> blocked (hx_loop H 0 (solo_log seed recs) (solo_start seed lay))"
    using st(2,3) e(1,2) by (simp_all add: hx_halted_def)
  have step: "?s' = hx_step H (length recs) (fst r) (snd r) (soloQ seed (1000 + length recs)) st"
    unfolding solo_log_snoc using loop_state(2) [OF l _ solo_seated [OF s(1)] go] by (simp add: e(1))
  have "corrupt ?s' = 0 \<or> corrupt ?s' = snd r" unfolding step using st(2) s(2) by (intro blame_step) auto
  moreover have "corrupt ?s' = 0" if "fst r \<in> set (hx_legalMoves st (snd r))"
    unfolding solo_log_snoc
    by (rule legal_accepted [OF l _ solo_seated [OF s(1)]]) (use s that e(1) in auto)
  ultimately show ?thesis using solo_replay_some [OF l, of "recs @ [r]"] by (auto simp: hx_proj)
qed

section \<open>The invariant of a run\<close>

definition bot_legal :: "(nat \<Rightarrow> nat) \<Rightarrow> string \<Rightarrow> solo_rec list \<Rightarrow> bool" where
  "bot_legal H seed recs \<longleftrightarrow>
     (\<forall>i < length recs. snd (recs ! i) = 2 \<longrightarrow>
        (\<exists>st. soloReplay H seed (take i recs) = Some st \<and> botMustAct st \<and> fst (recs ! i) \<in> set (hx_legalMoves st 2)))"

definition player_moves :: "solo_rec list \<Rightarrow> nat list" where
  "player_moves recs = map fst (filter (\<lambda>r. snd r = 1) recs)"

definition run_ok :: "(nat \<Rightarrow> nat) \<Rightarrow> string \<Rightarrow> nat list \<Rightarrow> solo \<Rightarrow> bool" where
  "run_ok H seed my s \<longleftrightarrow>
     soloReplay H seed (so_recs s) = Some (so_st s) \<and> corrupt (so_st s) \<le> 1 \<and> solo_sides (so_recs s) \<and>
     so_used s \<le> length my \<and> player_moves (so_recs s) = take (so_used s) my \<and> bot_legal H seed (so_recs s)"

lemma bot_legal_snoc:
  assumes "bot_legal H seed recs" "soloReplay H seed recs = Some st"
    and "snd r = 2 \<Longrightarrow> botMustAct st \<and> fst r \<in> set (hx_legalMoves st 2)"
  shows "bot_legal H seed (recs @ [r])"
  using assms by (auto simp: bot_legal_def nth_append less_Suc_eq)

lemma run_ok_next:
  assumes l: "layout H (soloQ seed 999) 2 = Some lay" and s: "run_ok H seed my s" "length (so_recs s) \<le> A_LIM"
    and n: "next_rec seed my s = Some r"
  shows "\<exists>st. soloReplay H seed (so_recs (push_rec r s)) = Some st \<and> run_ok H seed my ((push_rec r s)\<lparr>so_st := st\<rparr>)"
proof -
  have go: "corrupt (so_st s) = 0" "\<not> over (so_st s)" using n by (auto simp: next_rec_def split: if_splits)
  have r: "snd r = 2 \<and> botMustAct (so_st s) \<and> fst r \<in> set (hx_legalMoves (so_st s) 2) \<or>
      snd r = 1 \<and> so_used s < length my \<and> fst r = my ! so_used s"
    using n pick_legal by (auto simp: next_rec_def bot_reply_def split: if_splits)
  note k = s(1) [unfolded run_ok_def]
  obtain st' where st': "soloReplay H seed (so_recs s @ [r]) = Some st'" "corrupt st' = 0 \<or> corrupt st' = snd r"
    "fst r \<in> set (hx_legalMoves (so_st s) (snd r)) \<longrightarrow> corrupt st' = 0"
    using solo_replay_next [OF l, of "so_recs s" r "so_st s"] k r s(2) go by blast
  have "corrupt st' \<le> 1" using st'(2,3) r by auto
  moreover have "bot_legal H seed (so_recs s @ [r])" using k r by (intro bot_legal_snoc [of H seed "so_recs s" "so_st s"]) auto
  moreover have "player_moves (so_recs s @ [r]) = take (so_used s + (if snd r = 1 then 1 else 0)) my"
    using k r by (auto simp: player_moves_def take_Suc_conv_app_nth One_nat_def)
  ultimately show ?thesis using k r st'(1) by (auto simp: run_ok_def push_rec_def solo_sides_def)
qed

lemma run_ok_loop:
  assumes l: "layout H (soloQ seed 999) 2 = Some lay"
  shows "run_ok H seed my s \<Longrightarrow> length (so_recs s) + guard \<le> A_LIM \<Longrightarrow>
     \<exists>s'. solo_loop H seed my guard s = Some s' \<and> run_ok H seed my s' \<and>
          (next_rec seed my s' = None \<or> length (so_recs s') = length (so_recs s) + guard)"
proof (induction guard arbitrary: s)
  case (Suc guard)
  show ?case
  proof (cases "next_rec seed my s")
    case None
    then show ?thesis using Suc.prems by simp
  next
    case (Some r)
    from run_ok_next [OF l Suc.prems(1) _ Some] Suc.prems(2) obtain st where
      st: "soloReplay H seed (so_recs (push_rec r s)) = Some st" "run_ok H seed my ((push_rec r s)\<lparr>so_st := st\<rparr>)" by auto
    have "length (so_recs ((push_rec r s)\<lparr>so_st := st\<rparr>)) = length (so_recs s) + 1" by (simp add: push_rec_def)
    with Suc.IH [OF st(2)] Suc.prems(2) have "\<exists>s'. solo_loop H seed my guard ((push_rec r s)\<lparr>so_st := st\<rparr>) = Some s' \<and>
        run_ok H seed my s' \<and> (next_rec seed my s' = None \<or> length (so_recs s') = length (so_recs s) + Suc guard)"
      by (simp add: One_nat_def)
    then show ?thesis using Some st(1) by simp
  qed
qed simp

text \<open>When a run stops without a next record it has ended, the player's move was illegal, or the player is to move.\<close>

lemma bot_can_move:
  assumes "table_live 2 i st" "\<not> over st" "corrupt st = 0" "\<not> blocked st" "botMustAct st"
  shows "hx_legalMoves st 2 \<noteq> []"
proof -
  note m = can_move [OF assms(1) _ assms(2-4)]
  from assms(5) consider "actorsNow st \<noteq> []" "hd (actorsNow st) = 2" | "phase st = PDiscard" "owe (players st 2) > 0"
    by (auto simp: botMustAct_def hd_conv_nth)
  then show ?thesis
  proof cases
    case 1
    then show ?thesis using m hd_in_set [OF 1(1)] by auto
  next
    case 2
    then show ?thesis using assms(2-4) by (simp add: hx_legalMoves_def)
  qed
qed

lemma run_stops:
  assumes l: "layout H (soloQ seed 999) 2 = Some lay" and s: "run_ok H seed my s" and n: "next_rec seed my s = None"
  shows "so_done s \<or> corrupt (so_st s) = 1 \<or> so_used s = length my \<and> \<not> botMustAct (so_st s)"
proof (rule ccontr)
  assume c: "\<not> ?thesis"
  note k = s [unfolded run_ok_def]
  have "corrupt (so_st s) \<noteq> 1" using c by blast
  then have go: "corrupt (so_st s) = 0" "\<not> over (so_st s)" "so_ends s < SOLO_TURNS" using k c by (auto simp: so_done_def)
  note e = solo_state [OF l _ _ go(1), of "so_recs s"]
  have live: "\<not> blocked (so_st s)" "\<exists>i. table_live 2 i (so_st s)" using e(2,3) k by blast+
  show False
  proof (cases "botMustAct (so_st s)")
    case True
    then have "hx_legalMoves (so_st s) 2 \<noteq> []" using bot_can_move live go by blast
    from pick_some [OF this] obtain m where "bot_reply seed s = Some m" unfolding bot_reply_def by blast
    then show False using n True go live(1) by (simp add: next_rec_def)
  next
    case False
    then show False using n go live(1) k c by (auto simp: next_rec_def split: if_splits)
  qed
qed

lemma run_computed:
  assumes "layout H (soloQ seed 999) 2 = Some lay"
  shows "\<exists>s. soloState H seed my = Some s \<and> run_ok H seed my s \<and> (next_rec seed my s = None \<or> length (so_recs s) = 1500)"
proof -
  obtain st where st: "soloReplay H seed [] = Some st" using solo_replay_some [OF assms] by blast
  let ?s = "\<lparr>so_st = st, so_recs = [], so_used = 0, so_ends = 0\<rparr>"
  have "corrupt st = 0" using st solo_replay_some [OF assms, of "[]"] by (auto simp: hx_proj solo_log_def hx_start_def)
  then have "run_ok H seed my ?s" using st by (simp add: run_ok_def solo_sides_def player_moves_def bot_legal_def)
  from run_ok_loop [OF assms this, of 1500] show ?thesis by (auto simp: soloState_def st A_LIM_def)
qed

text \<open>C17: The bot of the daily run. When the layout of the seed is dealt, the run of any list of player moves is
  computed. Its state is the replay of its records; the player's records are the first moves of the
  list; every record of the bot is a move the generator lists for it, at a moment it has to act, and
  the game is never corrupted by the bot. The run stops only when it is over, when a move of the
  player was illegal, when it is the player's turn and the list is used up, or after 1500 records.\<close>

theorem hx_bot_plays_fair:
  assumes "layout H (soloQ seed 999) 2 = Some lay"
  shows "\<exists>s. soloState H seed my = Some s \<and> soloReplay H seed (so_recs s) = Some (so_st s) \<and> corrupt (so_st s) \<in> {0, 1} \<and>
           player_moves (so_recs s) = take (so_used s) my \<and> bot_legal H seed (so_recs s) \<and>
           (so_done s \<or> corrupt (so_st s) = 1 \<or> so_used s = length my \<and> \<not> botMustAct (so_st s) \<or> length (so_recs s) = 1500)"
proof -
  obtain s where s: "soloState H seed my = Some s" "run_ok H seed my s" "next_rec seed my s = None \<or> length (so_recs s) = 1500"
    using run_computed [OF assms] by blast
  have "corrupt (so_st s) \<in> {0, 1}" using s(2) by (auto simp: run_ok_def)
  then show ?thesis using s run_stops [OF assms s(2)] unfolding run_ok_def by blast
qed

section \<open>The packed run\<close>

lemma length_syms: "length (concat (map move_syms encs)) = 3 * length encs"
  by (induction encs) (simp_all add: move_syms_def)

lemma nth_syms:
  "i < length encs \<Longrightarrow> j < 3 \<Longrightarrow> concat (map move_syms encs) ! (3 * i + j) = move_syms (encs ! i) ! j"
proof (induction encs arbitrary: i)
  case (Cons e es)
  have l: "length (move_syms e) = 3" by (simp add: move_syms_def)
  show ?case
  proof (cases i)
    case 0
    then show ?thesis using Cons.prems(2) by (simp add: nth_append l)
  next
    case (Suc k)
    then have "concat (map move_syms (e # es)) ! (3 * i + j) = concat (map move_syms es) ! (3 * k + j)"
      by (simp add: nth_append l)
    then show ?thesis using Cons.IH [of k] Cons.prems Suc by simp
  qed
qed simp

lemma move_syms_less: "e < 2 ^ 53 \<Longrightarrow> \<forall>m \<in> set (move_syms e). m < 2 ^ 25"
proof -
  assume "e < 2 ^ 53"
  then have "e div (M25 * M25) < 8" by (simp add: M25_def div_less_iff_less_mult)
  then show ?thesis by (simp add: move_syms_def M25_def)
qed

lemma move_syms_join: "e mod M25 + e div M25 mod M25 * M25 + e div (M25 * M25) * M25 * M25 = e"
proof -
  have "e div M25 mod M25 + e div (M25 * M25) * M25 = e div M25" by (simp add: div_mult2_eq)
  then have "e div M25 mod M25 * M25 + e div (M25 * M25) * M25 * M25 = e div M25 * M25" by (metis add_mult_distrib)
  then show ?thesis by (metis mod_div_mult_eq add.assoc)
qed

lemma run_roundtrip:
  assumes "length my \<le> MAX_MY" "\<forall>e \<in> set my. e < 2 ^ 53"
  shows "unpackRun (packRun my) (length my) = my" "length (packRun my) = CLAIM_WORDS" "\<forall>w \<in> set (packRun my). w < 2 ^ 50"
proof -
  define syms where "syms = concat (map move_syms my) @ replicate (MAX_MY * 3 - length (concat (map move_syms my))) 0"
  have len: "length syms = 300" using assms(1) by (simp add: syms_def length_syms MAX_MY_def del: length_concat)
  have small: "\<forall>m \<in> set syms. m < 2 ^ 25"
    using assms(2) move_syms_less by (auto simp: syms_def)
  have p: "packRun my = packMoves syms 25" by (simp add: packRun_def syms_def Let_def)
  show "length (packRun my) = CLAIM_WORDS"
    unfolding p packMoves_def Let_def by (simp add: len symsPerWord_def CLAIM_WORDS_def One_nat_def)
  show "\<forall>w \<in> set (packRun my). w < 2 ^ 50" unfolding p using pack_words_small [of 25 _ syms] by simp
  have all: "unpackMoves (packMoves syms 25) 25 (length syms) = syms" using unpack_pack [of 25 syms] small by simp
  have one: "unpackMoves (packRun my) 25 (length my * 3) ! j = concat (map move_syms my) ! j" if "j < length my * 3" for j
  proof -
    have j: "j < length syms" using that assms(1) by (simp add: len MAX_MY_def)
    have "unpackMoves (packRun my) 25 (length my * 3) ! j = unpack_one (packMoves syms 25) 25 j"
      using that by (simp add: unpackMoves_def p)
    also have "\<dots> = syms ! j" using j arg_cong [OF all, of "\<lambda>xs. xs ! j"] by (simp add: unpackMoves_def)
    also have "\<dots> = concat (map move_syms my) ! j"
      using that by (simp add: syms_def nth_append length_syms mult.commute del: length_concat)
    finally show ?thesis .
  qed
  show "unpackRun (packRun my) (length my) = my"
  proof (rule nth_equalityI)
    fix i assume "i < length (unpackRun (packRun my) (length my))"
    then have i: "i < length my" by (simp add: unpackRun_def Let_def)
    then have "unpackRun (packRun my) (length my) ! i =
        move_syms (my ! i) ! 0 + move_syms (my ! i) ! 1 * M25 + move_syms (my ! i) ! 2 * M25 * M25"
      using one [of "3 * i + 0"] one [of "3 * i + 1"] one [of "3 * i + 2"] nth_syms [OF i, of 0] nth_syms [OF i, of 1] nth_syms [OF i, of 2]
      by (simp add: unpackRun_def Let_def)
    also have "\<dots> = my ! i" by (simp add: move_syms_def One_nat_def numeral_2_eq_2 move_syms_join)
    finally show "unpackRun (packRun my) (length my) ! i = my ! i" .
  qed (simp add: unpackRun_def Let_def)
qed

text \<open>Both seats' secrets are known, so the points of a run are.\<close>

lemma solo_points:
  assumes "layout H (soloQ seed 999) 2 = Some lay" "soloReplay H seed recs = Some st"
  shows "\<exists>v. totalVp st 1 = Some v"
proof -
  have "st = refreshBadges False (hx_loop H 0 (solo_log seed recs) (solo_start seed lay))"
    using assms solo_replay_some [OF assms(1), of recs] by simp
  then have "fixed st = (soloSecrets seed, False, 2)" by (simp only: fixed_refresh solo_fixed)
  then show ?thesis by (simp add: fixed_def totalVp_def chartersOf_def soloSecrets_def)
qed

text \<open>C18: The claim of a daily run. Up to 100 moves of the player, each a positive number below \<open>2 ^ 53\<close>, fill
  exactly the 150 words the contract stores, each below \<open>2 ^ 50\<close>, and come back from them. Verifying the words
  replays the player's own run: an intact run that is done and used every move scores its victory points
  times 101 and one more for each move saved, so that more points always rank higher, and any other run
  is rejected with -1.\<close>

theorem hx_daily_claim:
  assumes "layout H (soloQ (seedOfDay day anchor addr) 999) 2 = Some lay"
    and "my \<noteq> []" "length my \<le> MAX_MY" "\<forall>e \<in> set my. 0 < e \<and> e < 2 ^ 53"
  shows "unpackRun (packRun my) (length my) = my \<and> length (packRun my) = CLAIM_WORDS \<and> (\<forall>w \<in> set (packRun my). w < 2 ^ 50) \<and>
         (\<exists>s vp. soloState H (seedOfDay day anchor addr) my = Some s \<and> totalVp (so_st s) 1 = Some vp \<and>
            (let sc = int (101 * vp + (100 - length my))
             in sc div 101 = int vp \<and>
                hx_verifyClaim H day (length my) (packRun my) anchor addr =
                  Some (if corrupt (so_st s) = 0 \<and> so_done s \<and> so_used s = length my then sc else -1)))"
proof -
  let ?seed = "seedOfDay day anchor addr"
  note r = run_roundtrip [of my]
  have small: "\<forall>e \<in> set my. e < 2 ^ 53" using assms(4) by simp
  obtain s where s: "soloState H ?seed my = Some s" "run_ok H ?seed my s" using run_computed [OF assms(1)] by blast
  obtain vp where vp: "totalVp (so_st s) 1 = Some vp" using solo_points [OF assms(1)] s(2) by (auto simp: run_ok_def)
  have n: "0 < length my" "length my \<le> 100" using assms(2,3) by (simp_all add: MAX_MY_def)
  then have sc: "soloScore (so_st s) (length my) = int (101 * vp + (100 - length my))"
    by (simp add: soloScore_def vp MAX_MY_def)
  have "\<not> list_ex (\<lambda>e. \<not> (e > 0 \<and> e < 2 ^ 53)) my" using assms(4) by (auto simp: list_ex_iff)
  then have "hx_verifyClaim H day (length my) (packRun my) anchor addr =
      Some (if corrupt (so_st s) = 0 \<and> so_done s \<and> so_used s = length my then int (101 * vp + (100 - length my)) else -1)"
    using assms(2,3) r(1) [OF assms(3) small] s(1) sc by (simp add: hx_verifyClaim_def Let_def)
  moreover have "int (101 * vp + (100 - length my)) div 101 = int vp" using n by simp
  ultimately show ?thesis using r [OF assms(3) small] s(1) vp unfolding Let_def by blast
qed

section \<open>Witnesses\<close>

text \<open>The sample table under the seed \<open>k\<close>: the hash forgets the seed of the layout.\<close>

definition shiftH :: "nat \<Rightarrow> nat \<Rightarrow> nat" where "shiftH k x = sampleH (x - k)"

lemma shift_der: "derN (shiftH k) k salt n = derN sampleH 0 salt n"
  by (simp add: derN_def der_def shiftH_def)

lemma shift_shuffled: "shuffled (shiftH k) bag k salt = shuffled sampleH bag 0 salt"
  by (simp add: shuffled_def shift_der)

lemma shift_layout: "\<exists>lay. layout (shiftH k) k 2 = Some lay \<and> l_first lay = 1"
proof -
  have "deal (shiftH k) k n = deal sampleH 0 n" for n by (simp add: deal_def shift_shuffled)
  then have "layout (shiftH k) k 2 = Some lay \<longleftrightarrow> layout sampleH 0 2 = Some lay" for lay
    unfolding layout_Some by (simp add: shift_shuffled shift_der)
  then show ?thesis using sample_layout by blast
qed

theorem hx_never_stuck_witness:
  "\<exists>lay e. layout sampleH 0 2 = Some lay \<and> e \<in> set (hx_legalMoves (hx_start 2 (\<lambda>_. None) (\<lambda>_. True) lay) 1) \<and>
     corrupt (hx_loop sampleH 0 [(e, 1, Some 5)] (hx_start 2 (\<lambda>_. None) (\<lambda>_. True) lay)) = 0"
proof -
  obtain lay where l: "layout sampleH 0 2 = Some lay" "l_first lay = 1" using sample_layout by blast
  let ?st = "hx_start 2 (\<lambda>_. None) (\<lambda>_. True) lay"
  have f: "fresh ?st" by (rule fresh_start)
  have r: "hx_replay sampleH (Some 0) [] 2 (\<lambda>_. None) (\<lambda>_. True) = Some ?st"
    using f by (simp add: hx_replay_def l(1) fresh_def)
  have a: "actorsNow ?st = [1]" using sample_start(1) [OF l(2)] by (simp add: actorsNow_def hx_start_def)
  from hx_never_stuck [OF l(1) _ _ _ _ r] sample_start(3,4) [OF l(2)] obtain e where
    "e \<in> set (hx_legalMoves ?st 1)" "\<forall>q. corrupt (hx_loop sampleH 0 ([] @ [(e, 1, Some q)]) ?st) = 0"
    unfolding a by auto
  then show ?thesis using l(1) unfolding append_Nil by blast
qed

theorem hx_bot_plays_fair_witness:
  "\<exists>s. soloState (shiftH (soloQ ''s'' 999)) ''s'' [hx_enc OP_SETUP 0 0] = Some s \<and> corrupt (so_st s) \<in> {0, 1}"
proof -
  obtain lay where "layout (shiftH (soloQ ''s'' 999)) (soloQ ''s'' 999) 2 = Some lay" using shift_layout by blast
  from hx_bot_plays_fair [OF this, of "[hx_enc OP_SETUP 0 0]"] show ?thesis by blast
qed

theorem hx_daily_claim_witness:
  "unpackRun (packRun [hx_enc OP_SETUP 0 0]) (Suc 0) = [hx_enc OP_SETUP 0 0] \<and> length (packRun [hx_enc OP_SETUP 0 0]) = 150"
proof -
  let ?k = "soloQ (seedOfDay 7 ''a'' ''b'') 999"
  obtain lay where "layout (shiftH ?k) ?k 2 = Some lay" using shift_layout by blast
  moreover have "0 < hx_enc OP_SETUP 0 0 \<and> hx_enc OP_SETUP 0 0 < 2 ^ 53" by (simp add: hx_enc_def OP_SETUP_def)
  ultimately show ?thesis using hx_daily_claim [of "shiftH ?k" 7 "''a''" "''b''" lay "[hx_enc OP_SETUP 0 0]"]
    by (simp add: MAX_MY_def CLAIM_WORDS_def)
qed

end
