(* ===== verification/Spec2Isabelle.thy ===== *)
theory Spec2Isabelle
  imports ChessProperties BoardProperties HexProperties StormProperties ScrapProperties AutoProperties StarkProperties PokerProperties
    CanonicalProperties DiceProperties MnemonicProperties DailyProperties PetProperties JoinSplitProperties SoloProperties
begin

text \<open>
  A verification library for the browser side of nado, under \<^verbatim>\<open>static/\<close>.

  The browser is where nado is decided for its user. Every game is a log of moves on the chain that each
  browser replays through a pure rules engine; every daily game is a list of choices that anybody can
  verify against the seed of the day; transactions are encoded, hashed and signed in the browser, and the
  proofs of shielded transfers are made there. The engines are plain functions over their arguments, and
  the library models them function by function, with the names of the source. It leaves the pages that
  draw them and the network aside.

  \<^bold>\<open>How the parts fit together.\<close> A duel (chess, Hexholm, Stormhold, Scrapline) is a fold of an engine's
  move over the log. \<open>Referee\<close> holds that loop once, as the function \<open>run_log\<close>, and as the locale \<open>referee\<close>
  what follows for a whole log from the laws of one move; Hexholm (\<open>hxr\<close>), Stormhold (\<open>shr\<close>) and Scrapline
  (\<open>scr\<close>) interpret it. A daily game derives its instance from a seed, replays a packed move list and
  compares the claimed score. \<open>Provable\<close> is the SDK that packs and verifies, \<open>BoardDaily\<close> the harness of the
  three board games with the locale \<open>board_rules\<close> of what it asks from the rules, interpreted by
  tic-tac-toe (\<open>ttt\<close>), connect-four (\<open>c4\<close>) and reversi (\<open>rv\<close>). The prover of the shielded pool uses the
  field, the field hash, the Merkle trees, the transcript and FRI below it. The pets, the march and the
  shielded pool share the field hash. \<open>Prelude\<close> holds the conventions of JavaScript that all of them read:
  decimal printing, \<^verbatim>\<open>parseInt\<close>, \<^verbatim>\<open>split\<close>, \<^verbatim>\<open>trim\<close>, and the lemmas on lists.

  \<^bold>\<open>Theories and sources.\<close> All paths are below \<^verbatim>\<open>src/static/\<close>.

  \<^item> Chess, \<^verbatim>\<open>chess-engine.js\<close>: \<open>ChessBoard\<close> (pieces, the 0x88 board, the state of the class),
    \<open>ChessAttack\<close> (\<^verbatim>\<open>_isAttacked\<close>, refined from lines of sight), \<open>ChessMoves\<close> (generation),
    \<open>ChessMake\<close> (making and undoing), \<open>ChessGame\<close> (the public operations, the end of the game, perft),
    \<open>ChessFen\<close> (reading and writing positions). \<open>ChessProperties\<close>: honest positions stay honest, undoing
    restores, legal moves are the ones that keep the king safe, a position survives its text.
  \<^item> Board games, \<^verbatim>\<open>provable.js\<close>, \<^verbatim>\<open>board-daily.js\<close>, \<^verbatim>\<open>tictactoe-rules.js\<close>,
    \<^verbatim>\<open>connect4-rules.js\<close>, \<^verbatim>\<open>reversi-rules.js\<close>: \<open>Provable\<close>, \<open>BoardDaily\<close>, \<open>TicTacToe\<close>,
    \<open>Connect4\<close>, \<open>Reversi\<close>. \<open>BoardProperties\<close>: the move codec, what the ladder shows, replays are never cut
    short, a score tells its outcome, who has won.
  \<^item> Hexholm, \<^verbatim>\<open>hexholm-engine.js\<close>: \<open>HexBoard\<close> (geometry and seeded layout), \<open>HexState\<close> (state and
    helpers), \<open>HexReplay\<close> (the referee, a definition per operation), \<open>HexInvariants\<close> and \<open>HexRules\<close> (the
    invariants and their preservation), \<open>HexTable\<close> (the interpretation). \<open>HexProperties\<close>: cards are
    conserved, sites keep their distance, generated moves are accepted, only seats that may act do.
    \<open>HexBadges\<close> and \<open>HexLive\<close>: the badges are always fresh, and somebody can always move. The solo runs of
    \<^verbatim>\<open>hexholm-bot.js\<close>: \<open>HexSolo\<close> (the bot, the runs, the daily claim), \<open>SoloRules\<close>. \<open>SoloProperties\<close>: no
    table gets stuck, the bot plays fair, a packed run verifies with its own score.
  \<^item> Stormhold, \<^verbatim>\<open>stormhold-engine.js\<close>: \<open>StormCards\<close> (cards, codecs, state), \<open>StormEngine\<close> (drawing,
    gaining, setup, attacks), \<open>StormPlay\<close> (card effects and the stack of decisions), \<open>StormReplay\<close> (turns,
    scoring, replay, reveal), \<open>StormInvariants\<close>, \<open>StormRules\<close>, \<open>StormTable\<close> (the books of the cards),
    \<open>StormSeeds\<close> (progress). \<open>StormProperties\<close>: no card appears or vanishes, ids stay in the table, open
    games never block, the unchecked claim of Reforge.
  \<^item> Scrapline, \<^verbatim>\<open>scrapline-engine.js\<close>: \<open>ScrapDraft\<close> (items, offers, draft), \<open>ScrapFight\<close> (the fight),
    \<open>ScrapGame\<close> (duels, the solo gauntlet, claims), \<open>ScrapRules\<close>, \<open>ScrapTable\<close>, \<open>ScrapProperties\<close>.
  \<^item> The march, \<^verbatim>\<open>autogame-rules.js\<close>, \<^verbatim>\<open>autogame-engine.js\<close>, \<^verbatim>\<open>autogame-daily.js\<close>:
    \<open>AutoRules\<close>, \<open>AutoEngine\<close>, \<open>AutoStep\<close>, \<open>AutoDaily\<close>, \<open>AutoInvariants\<close>, \<open>AutoProperties\<close>.
  \<^item> The prover, \<^verbatim>\<open>stark/field.js\<close>, \<^verbatim>\<open>alghash.js\<close>, \<^verbatim>\<open>stark/tree.js\<close>,
    \<^verbatim>\<open>stark/bhash.js\<close>, \<^verbatim>\<open>stark/merkle.js\<close>, \<^verbatim>\<open>stark/transcript.js\<close>, \<^verbatim>\<open>stark/fri.js\<close>,
    \<^verbatim>\<open>posw.js\<close>: \<open>Goldilocks\<close>, \<open>AlgHash\<close>, \<open>StarkCommit\<close>, \<open>Posw\<close>, with \<open>FieldInverse\<close> (the group of the
    field), \<open>FriFolding\<close> (domains and polynomials) and \<open>MerkleBinding\<close>. \<open>StarkProperties\<close>: inverses, folds of
    polynomials, openings, honest proofs of sequential work.
  \<^item> Shielded transfers, \<^verbatim>\<open>stark/joinsplit2.js\<close>: \<open>JoinSplit\<close> (reference evaluation, trace, periodic
    columns, constraints), \<open>JoinSplitRules\<close> (rows and their kinds, a lemma per constraint), \<open>JoinSplitSound\<close>
    and \<open>JoinSplitExtract\<close> (what a satisfied trace computes), \<open>JoinSplitTrace\<close> and \<open>JoinSplitComplete\<close> (the
    trace of the prover). \<open>JoinSplitProperties\<close>: a satisfied trace holds a witness in its cells, and the
    prover's trace is satisfied.
  \<^item> Transactions, \<^verbatim>\<open>nadotx.js\<close>: \<open>Canonical\<close>, \<open>CanonicalRules\<close>, \<open>CanonicalProperties\<close>. A text says
    what was signed, and an id binds the body but for its public key and a member named \<open>__proto__\<close>. Recovery phrases, \<^verbatim>\<open>bip39.js\<close>: \<open>Mnemonic\<close>,
    \<open>MnemonicProperties\<close>.
  \<^item> Poker, \<^verbatim>\<open>poker-engine.js\<close>: \<open>Poker\<close>, \<open>PokerProperties\<close>. Farkle, \<^verbatim>\<open>farkle-engine.js\<close>:
    \<open>Farkle\<close>, \<open>DiceProperties\<close>. Pets, \<^verbatim>\<open>pets-genes.js\<close>: \<open>Pets\<close>, \<open>PetProperties\<close>. The Daily Salvo and
    the Daily Derby, \<^verbatim>\<open>battleship-daily.js\<close> and \<^verbatim>\<open>hamster-daily.js\<close>: \<open>Dailies\<close> over
    \<open>DailyHash\<close>, \<open>DailyProperties\<close>.

  \<^bold>\<open>Conventions.\<close> A class or a state object is a \<^theory_text>\<open>record\<close>, an enumeration or a tagged object a
  \<^theory_text>\<open>datatype\<close>. An exception is \<open>None\<close>; the referees that record a corrupt log instead of throwing do so
  in a field of their state. Whole numbers of the source are \<open>nat\<close> where the code keeps them non-negative
  and \<open>int\<close> where a missing guard could take them below zero; \<^verbatim>\<open>BigInt\<close> is \<open>int\<close>; arithmetic with
  \<^verbatim>\<open>>>>\<close> and the bit operators is on 32-bit words (poker, Farkle and the bot of Hexholm). The
  move codec's \<^verbatim>\<open>1 << bits\<close> is JavaScript's, signed and of 32 bits, so widths from 32 bits on wrap.

  \<^bold>\<open>Parameters.\<close> What lies in vendored code or in the browser is an argument: blake2b as \<open>H\<close> (a number or a
  hexadecimal string of a string), \<open>HX\<close>, \<open>HL\<close> (of a list of strings) and \<open>B\<close> (of bytes), the
  hexadecimal conversions of the library, key generation, signing and verification of ML-DSA, SHA-256 of
  the browser, and the word list of the phrases. No theorem needs a hash to be injective: where the code
  relies on it, the theorem says that either the conclusion holds or the two colliding inputs exist.

  \<^bold>\<open>Loops.\<close> Loops over data are structural or come with a measure. Loops that try again until the hash
  allows it are \<^theory_text>\<open>partial_function (option)\<close>, where not returning is \<open>None\<close>: the re-deal of the Hexholm
  layout (it returns exactly when an attempt is spaced), the rejection sampling of the poker deck (it
  returns for every seed), the automatic turn of Farkle (it ends for every stream of dice) and the grinding
  of the transcript. The loops the source bounds itself keep the bounds of the source: 900 events of a Scrapline
  fight, 512 tiles of a march, the ply cap of a daily game, 1500 records of a solo run, 200
  attempts to place a ship.

  \<^bold>\<open>Not modelled.\<close> The pages and the wallet (event handlers, drawing, network), art, sound and
  translations; the billiards and Sovereign engines and the odds tables of Farkle, which compute with
  floating-point numbers; the bot of Stormhold, a random player whose moves the referee checks
  anyhow; vendored libraries; the node, which is written in other languages. The composition of a whole
  STARK proof over the components above, and encrypted messages, are open.
\<close>

end
